(* ===== verification/Prelude.thy ===== *)
theory Prelude
  imports Main "HOL-Library.Word" "HOL-Library.Monad_Syntax"
begin

text \<open>
  Shared vocabulary of the development: the machine integer types the C code uses, byte buffers
  with faulting reads and writes, big-endian fields, and the list lemmas several components need.

  A C buffer is a list of bytes. A read or a write outside the buffer is undefined behaviour in C;
  here it is the value \<open>None\<close> of the option monad, so that "never reads or writes out of bounds"
  is a theorem about the model (the result is \<open>Some\<close>) and not an assumption. Lengths, capacities
  and offsets (\<^verbatim>\<open>size_t\<close>) are \<open>nat\<close>; the fixed-width fields of the protocols are words.
\<close>

unbundle bit_operations_syntax

type_synonym u8 = "8 word"
type_synonym u16 = "16 word"
type_synonym u32 = "32 word"
type_synonym u64 = "64 word"
type_synonym bytes = "u8 list"

named_theorems buf_simps "reading and writing byte buffers"

section \<open>Byte buffers\<close>

text \<open>\<open>rd8 b i\<close> is \<^verbatim>\<open>b[i]\<close>; \<open>wr b i bs\<close> is \<^verbatim>\<open>memcpy(b + i, bs, n)\<close> for the \<open>n\<close> bytes of \<open>bs\<close>.\<close>

definition rd8 :: "bytes \<Rightarrow> nat \<Rightarrow> u8 option" where
  "rd8 b i = (if i < length b then Some (b ! i) else None)"

definition rdn :: "bytes \<Rightarrow> nat \<Rightarrow> nat \<Rightarrow> bytes option" where
  "rdn b i n = (if i + n \<le> length b then Some (take n (drop i b)) else None)"

definition wr :: "bytes \<Rightarrow> nat \<Rightarrow> bytes \<Rightarrow> bytes option" where
  "wr b i bs = (if i + length bs \<le> length b
                then Some (take i b @ bs @ drop (i + length bs) b) else None)"

lemma rd8_eq_Some [buf_simps]: "rd8 b i = Some x \<longleftrightarrow> i < length b \<and> b ! i = x"
  by (auto simp: rd8_def)

lemma rd8_in [simp]: "i < length b \<Longrightarrow> rd8 b i = Some (b ! i)"
  by (simp add: rd8_def)

lemma rdn_in [simp]: "i + n \<le> length b \<Longrightarrow> rdn b i n = Some (take n (drop i b))"
  by (simp add: rdn_def)

lemma wr_in: "i + length bs \<le> length b \<Longrightarrow> wr b i bs = Some (take i b @ bs @ drop (i + length bs) b)"
  by (simp add: wr_def)

lemma wr_length [buf_simps]: "wr b i bs = Some b' \<Longrightarrow> length b' = length b"
  by (auto simp: wr_def split: if_splits)

lemma wr_bound: "wr b i bs = Some b' \<Longrightarrow> i + length bs \<le> length b"
  by (auto simp: wr_def split: if_splits)

lemma wr_defined: "(\<exists>b'. wr b i bs = Some b') \<longleftrightarrow> i + length bs \<le> length b"
  by (auto simp: wr_def)

lemma wr_nth: "wr b i bs = Some b' \<Longrightarrow> j < length b \<Longrightarrow>
    b' ! j = (if i \<le> j \<and> j < i + length bs then bs ! (j - i) else b ! j)"
  by (auto simp: wr_def nth_append not_less split: if_splits)

lemma wr_read_same: "wr b i bs = Some b' \<Longrightarrow> take (length bs) (drop i b') = bs"
  by (auto simp: wr_def split: if_splits)

lemma wr_read_other:
  assumes w: "wr b i bs = Some b'" and dis: "j + n \<le> i \<or> i + length bs \<le> j"
  shows "take n (drop j b') = take n (drop j b)"
proof (rule nth_equalityI)
  show "length (take n (drop j b')) = length (take n (drop j b))"
    using w by (simp add: wr_length)
next
  fix k assume k: "k < length (take n (drop j b'))"
  from k wr_length [OF w] have "j + k < length b" by auto
  from wr_nth [OF w this] dis k have "b' ! (j + k) = b ! (j + k)" by auto
  moreover from k wr_length [OF w] have "j \<le> length b" by auto
  ultimately show "take n (drop j b') ! k = take n (drop j b) ! k"
    using k wr_length [OF w] by simp
qed

section \<open>Big-endian fields\<close>

text \<open>
  The helpers \<^verbatim>\<open>write_be16\<close>, \<^verbatim>\<open>write_be32\<close>, \<^verbatim>\<open>read_be16\<close> and \<^verbatim>\<open>read_be32\<close> are repeated in
  \<^verbatim>\<open>rtp_h264.c\<close>, \<^verbatim>\<open>rtcp.c\<close> and \<^verbatim>\<open>ice_lite.c\<close> with the same body; one model serves all three.
\<close>

definition be16 :: "u16 \<Rightarrow> bytes" where
  "be16 v = [ucast (drop_bit 8 v), ucast v]"

definition be32 :: "u32 \<Rightarrow> bytes" where
  "be32 v = [ucast (drop_bit 24 v), ucast (drop_bit 16 v), ucast (drop_bit 8 v), ucast v]"

definition write_be16 :: "bytes \<Rightarrow> nat \<Rightarrow> u16 \<Rightarrow> bytes option" where
  "write_be16 p i v = wr p i (be16 v)"

definition write_be32 :: "bytes \<Rightarrow> nat \<Rightarrow> u32 \<Rightarrow> bytes option" where
  "write_be32 p i v = wr p i (be32 v)"

definition of_be16 :: "u8 \<Rightarrow> u8 \<Rightarrow> u16" where
  "of_be16 a b = push_bit 8 (ucast a) OR ucast b"

definition of_be32 :: "u8 \<Rightarrow> u8 \<Rightarrow> u8 \<Rightarrow> u8 \<Rightarrow> u32" where
  "of_be32 a b c d = push_bit 24 (ucast a) OR push_bit 16 (ucast b) OR push_bit 8 (ucast c) OR ucast d"

definition read_be16 :: "bytes \<Rightarrow> nat \<Rightarrow> u16 option" where
  "read_be16 p i = do { a \<leftarrow> rd8 p i; b \<leftarrow> rd8 p (i + 1); Some (of_be16 a b) }"

definition read_be32 :: "bytes \<Rightarrow> nat \<Rightarrow> u32 option" where
  "read_be32 p i = do { a \<leftarrow> rd8 p i; b \<leftarrow> rd8 p (i + 1); c \<leftarrow> rd8 p (i + 2); d \<leftarrow> rd8 p (i + 3);
                        Some (of_be32 a b c d) }"

lemma be16_length [simp]: "length (be16 v) = 2"
  by (simp add: be16_def)

lemma be32_length [simp]: "length (be32 v) = 4"
  by (simp add: be32_def)

lemma of_be16_be16: "of_be16 (ucast (drop_bit 8 v)) (ucast v) = v"
  unfolding of_be16_def
  by (rule bit_word_eqI) (auto simp: bit_simps not_less)

lemma of_be32_be32:
  "of_be32 (ucast (drop_bit 24 v)) (ucast (drop_bit 16 v)) (ucast (drop_bit 8 v)) (ucast v) = v"
proof (rule bit_word_eqI)
  fix n assume n: "n < LENGTH(32)"
  consider "n < 8" | "8 \<le> n" "n < 16" | "16 \<le> n" "n < 24" | "24 \<le> n" by linarith
  then show "bit (of_be32 (ucast (drop_bit 24 v)) (ucast (drop_bit 16 v)) (ucast (drop_bit 8 v))
               (ucast v)) n = bit v n"
    using n by cases (auto simp: of_be32_def bit_simps)
qed

lemma read_be16_in [simp]:
  "i + 2 \<le> length p \<Longrightarrow> read_be16 p i = Some (of_be16 (p ! i) (p ! (i + 1)))"
  by (simp add: read_be16_def)

lemma read_be32_in [simp]:
  "i + 4 \<le> length p \<Longrightarrow>
   read_be32 p i = Some (of_be32 (p ! i) (p ! (i + 1)) (p ! (i + 2)) (p ! (i + 3)))"
  by (simp add: read_be32_def)

lemma be16_of_be16: "be16 (of_be16 a b) = [a, b]"
proof -
  have "ucast (drop_bit 8 (push_bit 8 (ucast a :: u16) OR ucast b)) = a"
    by (rule bit_word_eqI) (auto simp: bit_simps dest: bit_imp_le_length)
  moreover have "ucast (push_bit 8 (ucast a :: u16) OR ucast b) = b"
    by (rule bit_word_eqI) (auto simp: bit_simps dest: bit_imp_le_length)
  ultimately show ?thesis by (simp add: be16_def of_be16_def)
qed

lemma nth_of_take_drop: "take n (drop i p) = xs \<Longrightarrow> k < n \<Longrightarrow> i + n \<le> length p \<Longrightarrow> p ! (i + k) = xs ! k"
  by auto

lemma read_be16_field:
  "take 2 (drop i p) = be16 v \<Longrightarrow> i + 2 \<le> length p \<Longrightarrow> read_be16 p i = Some v"
  using nth_of_take_drop [of 2 i p "be16 v" 0] nth_of_take_drop [of 2 i p "be16 v" 1]
  by (simp add: be16_def of_be16_be16)

lemma read_be32_field:
  "take 4 (drop i p) = be32 v \<Longrightarrow> i + 4 \<le> length p \<Longrightarrow> read_be32 p i = Some v"
  using nth_of_take_drop [of 4 i p "be32 v" 0] nth_of_take_drop [of 4 i p "be32 v" 1]
    nth_of_take_drop [of 4 i p "be32 v" 2] nth_of_take_drop [of 4 i p "be32 v" 3]
  by (simp add: be32_def of_be32_be32)

lemma unat_u16: "n < 65536 \<Longrightarrow> unat (of_nat n :: u16) = n"
  by (simp add: unsigned_of_nat take_bit_eq_mod)

lemma wr_at: "i = length xs \<Longrightarrow> length bs \<le> length ys \<Longrightarrow>
    wr (xs @ ys) i bs = Some (xs @ bs @ drop (length bs) ys)"
  by (simp add: wr_def)

text \<open>The two bytes at an offset, for reads that are known to be inside the buffer.\<close>

definition be16_at :: "bytes \<Rightarrow> nat \<Rightarrow> u16" where
  "be16_at buf i = of_be16 (buf ! i) (buf ! (i + 1))"

lemma be16_at_field: "take 2 (drop i p) = be16 v \<Longrightarrow> i + 2 \<le> length p \<Longrightarrow> be16_at p i = v"
  using nth_of_take_drop [of 2 i p "be16 v" 0] nth_of_take_drop [of 2 i p "be16 v" 1]
  by (simp add: be16_at_def be16_def of_be16_be16)

lemma unat_u8: "unat (b :: u8) < 256"
proof -
  have "unat b < 2 ^ LENGTH(8)" by (rule unsigned_less)
  then show ?thesis by simp
qed

lemma unat_u32: "n < 2 ^ 32 \<Longrightarrow> unat (of_nat n :: u32) = n"
  by (simp add: unat_of_nat take_bit_nat_eq_self)

lemma unat_less_u32: "unat (x :: u32) < 2 ^ 32"
proof -
  have "unat x < 2 ^ LENGTH(32)" by (rule unsigned_less)
  then show ?thesis by simp
qed

section \<open>Loops over a range\<close>

text \<open>\<open>foldo\<close> is a \<^verbatim>\<open>for\<close> loop whose body may fault.\<close>

fun foldo :: "('a \<Rightarrow> 'b \<Rightarrow> 'b option) \<Rightarrow> 'a list \<Rightarrow> 'b \<Rightarrow> 'b option" where
  "foldo f [] b = Some b"
| "foldo f (a # as) b = (case f a b of None \<Rightarrow> None | Some b' \<Rightarrow> foldo f as b')"

lemma foldo_append: "foldo f (xs @ ys) b = (case foldo f xs b of None \<Rightarrow> None | Some b' \<Rightarrow> foldo f ys b')"
  by (induction xs arbitrary: b) (auto split: option.split)

lemma foldo_keeps:
  assumes "foldo f as b = Some b'" "P b" "\<And>a x y. a \<in> set as \<Longrightarrow> P x \<Longrightarrow> f a x = Some y \<Longrightarrow> P y"
  shows "P b'"
  using assms
proof (induction as arbitrary: b)
  case (Cons a as)
  then obtain x where "f a b = Some x" "foldo f as x = Some b'" by (auto split: option.splits)
  then show ?case using Cons.IH [of x] Cons.prems by (meson list.set_intros)
qed simp

lemma foldo_defined:
  assumes "P b" "\<And>a x. a \<in> set as \<Longrightarrow> P x \<Longrightarrow> \<exists>y. f a x = Some y \<and> P y"
  shows "\<exists>b'. foldo f as b = Some b' \<and> P b'"
  using assms
proof (induction as arbitrary: b)
  case (Cons a as)
  then obtain y where "f a b = Some y" "P y" by (meson list.set_intros(1))
  then show ?case using Cons by simp
qed simp

text \<open>
  Loops that fill a buffer. \<open>put_at d i xs\<close> is the buffer after \<open>xs\<close> was written at \<open>i\<close>. A loop
  whose \<open>k\<close>-th round writes the next \<open>n\<close> bytes behind one cursor, or behind two cursors in disjoint
  regions, writes the concatenation of what its rounds write.
\<close>

definition put_at :: "bytes \<Rightarrow> nat \<Rightarrow> bytes \<Rightarrow> bytes" where
  "put_at d i xs = take i d @ xs @ drop (i + length xs) d"

lemma wr_put_at: "i + length xs \<le> length d \<Longrightarrow> wr d i xs = Some (put_at d i xs)"
  by (simp add: wr_def put_at_def)

lemma put_at_length [simp]: "i + length xs \<le> length d \<Longrightarrow> length (put_at d i xs) = length d"
  by (simp add: put_at_def)

lemma wr_put_at2: "i + length xs \<le> j \<Longrightarrow> j + length ys \<le> length d \<Longrightarrow>
    do { d1 \<leftarrow> wr d i xs; wr d1 j ys } = Some (put_at (put_at d i xs) j ys)"
  by (simp add: wr_put_at)

lemma put_at_nil [simp]: "i \<le> length d \<Longrightarrow> put_at d i [] = d"
  by (simp add: put_at_def)

lemma put_at_nth: "i + length xs \<le> length d \<Longrightarrow> j < length d \<Longrightarrow>
    put_at d i xs ! j = (if i \<le> j \<and> j < i + length xs then xs ! (j - i) else d ! j)"
  by (auto simp: put_at_def nth_append not_less)

lemma put_at_adjacent:
  assumes "i + length xs + length ys \<le> length d"
  shows "put_at (put_at d i xs) (i + length xs) ys = put_at d i (xs @ ys)"
proof (rule nth_equalityI)
  fix j assume "j < length (put_at (put_at d i xs) (i + length xs) ys)"
  then show "put_at (put_at d i xs) (i + length xs) ys ! j = put_at d i (xs @ ys) ! j"
    using assms by (auto simp: put_at_nth nth_append)
qed (use assms in simp)

lemma put_at_commute:
  assumes "i + length xs \<le> j" "j + length ys \<le> length d"
  shows "put_at (put_at d j ys) i xs = put_at (put_at d i xs) j ys"
proof (rule nth_equalityI)
  fix k assume "k < length (put_at (put_at d j ys) i xs)"
  then show "put_at (put_at d j ys) i xs ! k = put_at (put_at d i xs) j ys ! k"
    using assms by (auto simp: put_at_nth)
qed (use assms in simp)

lemma put_at_all: "length xs = length d \<Longrightarrow> put_at d 0 xs = xs"
  by (simp add: put_at_def)

lemma length_concat_rows: "(\<And>i. i < k \<Longrightarrow> length (g i) = n) \<Longrightarrow> length (concat (map g [0..<k])) = k * n"
  by (induction k) auto

lemma foldo_rows:
  assumes "\<And>i d'. i < k \<Longrightarrow> length d' = length d \<Longrightarrow> f i d' = Some (put_at d' (b + i * n) (g i))"
    and "\<And>i. i < k \<Longrightarrow> length (g i) = n" and "b + k * n \<le> length d"
  shows "foldo f [0..<k] d = Some (put_at d b (concat (map g [0..<k])))"
  using assms
proof (induction k)
  case (Suc k)
  have len: "length (concat (map g [0..<k])) = k * n" by (rule length_concat_rows) (use Suc.prems(2) in simp)
  have "foldo f [0..<k] d = Some (put_at d b (concat (map g [0..<k])))"
    by (rule Suc.IH) (use Suc.prems in auto)
  moreover have "length (put_at d b (concat (map g [0..<k]))) = length d" using len Suc.prems(3) by simp
  ultimately show ?case
    using Suc.prems(1) [of k] Suc.prems(2) [of k] Suc.prems(3) len
      put_at_adjacent [of b "concat (map g [0..<k])" "g k" d]
    by (simp add: foldo_append add.assoc)
qed (simp)

lemma foldo_rows2:
  assumes "\<And>i d'. i < k \<Longrightarrow> length d' = length d \<Longrightarrow>
      f i d' = Some (put_at (put_at d' (bu + i * n) (gu i)) (bv + i * n) (gv i))"
    and "\<And>i. i < k \<Longrightarrow> length (gu i) = n" and "\<And>i. i < k \<Longrightarrow> length (gv i) = n"
    and "bu + k * n \<le> bv" and "bv + k * n \<le> length d"
  shows "foldo f [0..<k] d = Some (put_at (put_at d bu (concat (map gu [0..<k]))) bv (concat (map gv [0..<k])))"
  using assms
proof (induction k)
  case (Suc k)
  let ?U = "concat (map gu [0..<k])" and ?V = "concat (map gv [0..<k])"
  have len: "length ?U = k * n" "length ?V = k * n"
    by (rule length_concat_rows; use Suc.prems(2,3) in simp)+
  have L: "length (gu k) = n" "length (gv k) = n" using Suc.prems by auto
  have "foldo f [0..<k] d = Some (put_at (put_at d bu ?U) bv ?V)"
    by (rule Suc.IH) (use Suc.prems in auto)
  moreover have "put_at (put_at (put_at d bu ?U) bv ?V) (bu + k * n) (gu k) = put_at (put_at d bu (?U @ gu k)) bv ?V"
    using Suc.prems(4,5) len L put_at_commute [of "bu + k * n" "gu k" bv ?V "put_at d bu ?U"]
      put_at_adjacent [of bu ?U "gu k" d] by simp
  moreover have "put_at (put_at (put_at d bu (?U @ gu k)) bv ?V) (bv + k * n) (gv k) =
      put_at (put_at d bu (?U @ gu k)) bv (?V @ gv k)"
    using Suc.prems(4,5) len L put_at_adjacent [of bv ?V "gv k" "put_at d bu (?U @ gu k)"] by simp
  ultimately show ?case
    using Suc.prems(1) [of k "put_at (put_at d bu ?U) bv ?V"] Suc.prems(4,5) len L by (simp add: foldo_append)
qed simp

end
