(* ===== verification/Frame_Pool.thy ===== *)
theory Frame_Pool
  imports Prelude
begin

text \<open>
  The frame pool of \<^verbatim>\<open>src/media/frame_pool.c\<close>: a fixed number of pre-allocated frame buffers with
  reference counts. A \<^verbatim>\<open>Frame *\<close> handed out by the pool is the index of the frame in the pool's
  array; the pixel memory is one flat block (\<^verbatim>\<open>backing\<close>), so that a write past the capacity of one
  frame lands in the next one, as it does in C. The mutex of the pool makes each operation atomic,
  which a function on the state is.

  The locale \<open>ref_pool\<close> is what a client of the pool relies on: the reference counts and the laws
  of the three operations. The pool itself is an interpretation of it.
\<close>

section \<open>State\<close>

record frame =
  width :: u32
  height :: u32
  format :: u32
  stride :: u32
  fsize :: nat
  sequence :: u64
  timestamp_us :: u64
  data_off :: nat
  pool_index :: int
  refcount :: int

record frame_pool =
  frames :: "frame list"
  backing :: bytes
  capacity :: nat
  fcount :: nat
  free_list :: "int list"
  free_count :: nat

definition zero_frame :: frame where
  "zero_frame = \<lparr>width = 0, height = 0, format = 0, stride = 0, fsize = 0, sequence = 0,
     timestamp_us = 0, data_off = 0, pool_index = 0, refcount = 0\<rparr>"

section \<open>Operations\<close>

text \<open>
  \<open>alloc_ok\<close> says whether the four \<^verbatim>\<open>calloc\<close> calls succeed. The loop of the constructor sets the data
  pointer, the index and the free list entry of every frame.
\<close>

definition frame_pool_create :: "bool \<Rightarrow> nat \<Rightarrow> nat \<Rightarrow> frame_pool option" where
  "frame_pool_create alloc_ok cap n =
     (if cap = 0 \<or> n = 0 then None
      else if \<not> alloc_ok then None
      else Some \<lparr>frames = map (\<lambda>i. zero_frame\<lparr>data_off := i * cap, pool_index := int i\<rparr>) [0..<n],
                 backing = replicate (n * cap) 0,
                 capacity = cap,
                 fcount = n,
                 free_list = map int [0..<n],
                 free_count = n\<rparr>)"

text \<open>
  Taking a frame pops the free list. The \<^verbatim>\<open>memset\<close> clears every field in front of \<^verbatim>\<open>data\<close>; the pixel
  bytes themselves are not cleared.
\<close>

definition frame_pool_acquire :: "frame_pool \<Rightarrow> frame_pool \<times> nat option" where
  "frame_pool_acquire p =
     (if free_count p = 0 then (p, None)
      else
        let index = free_list p ! (free_count p - 1);
            k = nat index;
            f = zero_frame\<lparr>data_off := k * capacity p, pool_index := index, refcount := 1\<rparr>
        in (p\<lparr>free_count := free_count p - 1, frames := (frames p)[k := f]\<rparr>, Some k))"

definition frame_ref :: "frame_pool \<Rightarrow> nat \<Rightarrow> frame_pool" where
  "frame_ref p k = p\<lparr>frames := (frames p)[k := (frames p ! k)\<lparr>refcount := refcount (frames p ! k) + 1\<rparr>]\<rparr>"

text \<open>
  The two diagnostics the code prints (double unref, free list overflow) leave the count or the
  free list alone; both branches are kept.
\<close>

definition frame_unref :: "frame_pool \<Rightarrow> nat \<Rightarrow> frame_pool" where
  "frame_unref p k =
     (let f = frames p ! k in
      if refcount f \<le> 0 then p
      else
        let f1 = f\<lparr>refcount := refcount f - 1\<rparr> in
        if refcount f1 \<le> 0 \<and> pool_index f1 \<ge> 0 then
          (let p1 = (if free_count p \<ge> fcount p then p
                     else p\<lparr>free_list := (free_list p)[free_count p := pool_index f1],
                            free_count := free_count p + 1\<rparr>)
           in p1\<lparr>frames := (frames p)[k := f1\<lparr>pool_index := - 1\<rparr>]\<rparr>)
        else p\<lparr>frames := (frames p)[k := f1]\<rparr>)"

section \<open>Well-formed pools\<close>

definition refs :: "frame_pool \<Rightarrow> nat \<Rightarrow> nat" where
  "refs p k = (if k < fcount p then nat (refcount (frames p ! k)) else 0)"

definition free_frames :: "frame_pool \<Rightarrow> int list" where
  "free_frames p = take (free_count p) (free_list p)"

definition pool_shape :: "frame_pool \<Rightarrow> bool" where
  "pool_shape p \<longleftrightarrow> 0 < capacity p \<and> length (frames p) = fcount p \<and> length (free_list p) = fcount p \<and>
     length (backing p) = fcount p * capacity p \<and> free_count p \<le> fcount p"

definition pool_inv :: "frame_pool \<Rightarrow> bool" where
  "pool_inv p \<longleftrightarrow> pool_shape p \<and> distinct (free_frames p) \<and>
     (\<forall>x \<in> set (free_frames p). 0 \<le> x \<and> x < int (fcount p)) \<and>
     (\<forall>k < fcount p. data_off (frames p ! k) = k * capacity p \<and> 0 \<le> refcount (frames p ! k) \<and>
        (int k \<in> set (free_frames p) \<longleftrightarrow> refcount (frames p ! k) = 0) \<and>
        (0 < refcount (frames p ! k) \<longrightarrow> pool_index (frames p ! k) = int k))"

lemma pool_inv_simps:
  assumes "pool_inv p"
  shows "length (frames p) = fcount p" "length (free_list p) = fcount p"
    "length (backing p) = fcount p * capacity p" "free_count p \<le> fcount p" "0 < capacity p"
    "distinct (free_frames p)"
  using assms by (auto simp: pool_inv_def pool_shape_def)

lemma refs_outside [simp]: "fcount p \<le> k \<Longrightarrow> refs p k = 0"
  by (simp add: refs_def)

lemma refs_zero_free: "pool_inv p \<Longrightarrow> k < fcount p \<Longrightarrow> refs p k = 0 \<longleftrightarrow> int k \<in> set (free_frames p)"
  by (auto simp: pool_inv_def refs_def)

lemma create_inv:
  assumes "frame_pool_create ok cap n = Some p"
  shows "pool_inv p" "fcount p = n" "capacity p = cap" "\<And>k. refs p k = 0"
proof -
  from assms have p: "cap \<noteq> 0" "n \<noteq> 0" "p = \<lparr>frames = map (\<lambda>i. zero_frame\<lparr>data_off := i * cap, pool_index := int i\<rparr>) [0..<n],
                 backing = replicate (n * cap) 0, capacity = cap, fcount = n,
                 free_list = map int [0..<n], free_count = n\<rparr>"
    by (auto simp: frame_pool_create_def split: if_splits)
  then show "pool_inv p"
    by (auto simp: pool_inv_def pool_shape_def free_frames_def zero_frame_def distinct_map)
  show "fcount p = n" "capacity p = cap" using p by auto
  show "refs p k = 0" for k using p by (auto simp: refs_def zero_frame_def)
qed

lemma acquire_None:
  "frame_pool_acquire p = (p', None) \<longleftrightarrow> free_count p = 0 \<and> p' = p"
  by (auto simp: frame_pool_acquire_def Let_def)

text \<open>What an acquired frame is: the last entry of the free list, and nothing else changes.\<close>

lemma acquire_Some:
  assumes inv: "pool_inv p" and acq: "frame_pool_acquire p = (p', Some k)"
  shows "k < fcount p" "refs p k = 0" "free_count p \<noteq> 0" "free_list p ! (free_count p - 1) = int k"
    "p' = p\<lparr>free_count := free_count p - 1,
             frames := (frames p)[k := zero_frame\<lparr>data_off := k * capacity p, pool_index := int k,
                                                   refcount := 1\<rparr>]\<rparr>"
proof -
  from acq have ne: "free_count p \<noteq> 0" and k: "k = nat (free_list p ! (free_count p - 1))"
    and p': "p' = p\<lparr>free_count := free_count p - 1,
             frames := (frames p)[k := zero_frame\<lparr>data_off := k * capacity p,
                pool_index := free_list p ! (free_count p - 1), refcount := 1\<rparr>]\<rparr>"
    by (auto simp: frame_pool_acquire_def Let_def split: if_splits)
  have "free_list p ! (free_count p - 1) \<in> set (free_frames p)"
    using ne pool_inv_simps [OF inv] by (auto simp: free_frames_def in_set_conv_nth intro!: exI [of _ "free_count p - 1"])
  then have b: "0 \<le> free_list p ! (free_count p - 1)" "free_list p ! (free_count p - 1) < int (fcount p)"
    and "free_list p ! (free_count p - 1) \<in> set (free_frames p)"
    using inv by (auto simp: pool_inv_def)
  with k show "k < fcount p" "free_list p ! (free_count p - 1) = int k" by auto
  with \<open>free_list p ! (free_count p - 1) \<in> set (free_frames p)\<close> show "refs p k = 0"
    using refs_zero_free [OF inv] by auto
  show "free_count p \<noteq> 0" by (rule ne)
  show "p' = p\<lparr>free_count := free_count p - 1,
             frames := (frames p)[k := zero_frame\<lparr>data_off := k * capacity p, pool_index := int k,
                                                   refcount := 1\<rparr>]\<rparr>"
    using p' \<open>free_list p ! (free_count p - 1) = int k\<close> by simp
qed

lemma free_frames_pop:
  assumes "free_count p \<noteq> 0" "free_count p \<le> length (free_list p)"
  shows "free_frames p = take (free_count p - 1) (free_list p) @ [free_list p ! (free_count p - 1)]"
  using assms by (simp add: free_frames_def flip: take_Suc_conv_app_nth)

lemma acquire_inv:
  assumes inv: "pool_inv p" and acq: "frame_pool_acquire p = (p', Some k)"
  shows "pool_inv p'" "refs p' = (refs p)(k := 1)"
proof -
  note A = acquire_Some [OF inv acq]
  note S = pool_inv_simps [OF inv]
  have ff: "free_frames p = free_frames p' @ [int k]"
    using free_frames_pop [of p] A S by (simp add: free_frames_def)
  then have ks: "int k \<notin> set (free_frames p')" using S(6) by auto
  show "refs p' = (refs p)(k := 1)"
    using A(1,5) S(1) by (auto simp: refs_def fun_eq_iff)
  show "pool_inv p'"
    unfolding pool_inv_def pool_shape_def
  proof (intro conjI allI impI ballI)
    show "distinct (free_frames p')" using ff S(6) by simp
    fix x assume "x \<in> set (free_frames p')"
    then show "0 \<le> x" "x < int (fcount p')" using inv ff A(5) by (auto simp: pool_inv_def)
  next
    fix j assume j: "j < fcount p'"
    have old: "data_off (frames p ! j) = j * capacity p \<and> 0 \<le> refcount (frames p ! j) \<and>
        (int j \<in> set (free_frames p) \<longleftrightarrow> refcount (frames p ! j) = 0) \<and>
        (0 < refcount (frames p ! j) \<longrightarrow> pool_index (frames p ! j) = int j)"
      using inv j A(5) by (simp add: pool_inv_def)
    have new: "frames p' ! j = (if j = k then zero_frame\<lparr>data_off := k * capacity p, pool_index := int k,
                                                   refcount := 1\<rparr> else frames p ! j)"
      using j A(5) S(1) by simp
    have mem: "int j \<in> set (free_frames p') \<longleftrightarrow> j \<noteq> k \<and> int j \<in> set (free_frames p)"
      using ff ks by auto
    show "data_off (frames p' ! j) = j * capacity p'" using old new A(5) by simp
    show "0 \<le> refcount (frames p' ! j)" using old new by simp
    show "(int j \<in> set (free_frames p')) = (refcount (frames p' ! j) = 0)"
      using old new mem by auto
    show "pool_index (frames p' ! j) = int j" if "0 < refcount (frames p' ! j)"
      using old new that by (auto split: if_splits)
  qed (use A(5) S in auto)
qed

lemma ref_inv:
  assumes inv: "pool_inv p" and k: "0 < refs p k"
  shows "pool_inv (frame_ref p k)" "refs (frame_ref p k) = (refs p)(k := Suc (refs p k))"
proof -
  from k have kc: "k < fcount p" and pos: "0 < refcount (frames p ! k)"
    by (auto simp: refs_def split: if_splits)
  note S = pool_inv_simps [OF inv]
  show "refs (frame_ref p k) = (refs p)(k := Suc (refs p k))"
    using kc pos S(1) by (auto simp: refs_def frame_ref_def fun_eq_iff)
  have ff: "free_frames (frame_ref p k) = free_frames p" by (simp add: free_frames_def frame_ref_def)
  show "pool_inv (frame_ref p k)"
    using inv kc pos S(1) unfolding pool_inv_def pool_shape_def ff
    by (auto simp: frame_ref_def nth_list_update)
qed

lemma unref_zero: "refs p k = 0 \<Longrightarrow> k < fcount p \<Longrightarrow> frame_unref p k = p"
  by (simp add: frame_unref_def refs_def)

text \<open>Releasing the last reference pushes the frame back: there is always room for it.\<close>

lemma free_count_lt:
  assumes inv: "pool_inv p" and k: "0 < refs p k"
  shows "free_count p < fcount p"
proof -
  from k have kc: "k < fcount p" by (cases "k < fcount p") auto
  have kf: "int k \<notin> set (free_frames p)" using refs_zero_free [OF inv kc] k by simp
  have "set (free_frames p) \<subseteq> int ` {..<fcount p} - {int k}"
  proof
    fix x assume x: "x \<in> set (free_frames p)"
    then have "0 \<le> x" "x < int (fcount p)" using inv by (auto simp: pool_inv_def)
    then have "x = int (nat x)" and "nat x \<in> {..<fcount p}" by auto
    then have "x \<in> int ` {..<fcount p}" by (rule image_eqI)
    then show "x \<in> int ` {..<fcount p} - {int k}" using x kf by auto
  qed
  then have "card (set (free_frames p)) \<le> card (int ` {..<fcount p} - {int k})"
    by (rule card_mono [rotated]) simp
  also have "\<dots> < fcount p" using kc by (simp add: card_Diff_singleton card_image)
  finally show ?thesis
    using pool_inv_simps [OF inv] by (simp add: distinct_card free_frames_def)
qed

lemma unref_eq:
  assumes inv: "pool_inv p" and k: "0 < refs p k"
  shows "frame_unref p k =
     (if refs p k = 1
      then p\<lparr>free_list := (free_list p)[free_count p := int k], free_count := free_count p + 1,
             frames := (frames p)[k := (frames p ! k)\<lparr>refcount := 0, pool_index := - 1\<rparr>]\<rparr>
      else p\<lparr>frames := (frames p)[k := (frames p ! k)\<lparr>refcount := int (refs p k) - 1\<rparr>]\<rparr>)"
proof -
  from k have kc: "k < fcount p" by (cases "k < fcount p") auto
  then have "refcount (frames p ! k) = int (refs p k)" "pool_index (frames p ! k) = int k"
    using inv k by (auto simp: refs_def pool_inv_def)
  then show ?thesis
    using free_count_lt [OF inv k] k by (auto simp: frame_unref_def Let_def)
qed

lemma free_frames_push:
  "free_count p < length (free_list p) \<Longrightarrow>
   take (Suc (free_count p)) ((free_list p)[free_count p := x]) = free_frames p @ [x]"
  by (simp add: free_frames_def take_Suc_conv_app_nth)

lemma unref_inv:
  assumes inv: "pool_inv p" and k: "0 < refs p k"
  shows "pool_inv (frame_unref p k)" "refs (frame_unref p k) = (refs p)(k := refs p k - 1)"
proof -
  from k have kc: "k < fcount p" by (cases "k < fcount p") auto
  note S = pool_inv_simps [OF inv]
  have rc: "refcount (frames p ! k) = int (refs p k)" using kc inv by (auto simp: refs_def pool_inv_def)
  show "refs (frame_unref p k) = (refs p)(k := refs p k - 1)"
    unfolding unref_eq [OF inv k] using kc S(1) by (auto simp: refs_def fun_eq_iff nth_list_update)
  have kf: "int k \<notin> set (free_frames p)" using refs_zero_free [OF inv kc] k by simp
  show "pool_inv (frame_unref p k)"
  proof (cases "refs p k = 1")
    case True
    have ff: "free_frames (frame_unref p k) = free_frames p @ [int k]"
      unfolding unref_eq [OF inv k] using True free_frames_push [of p "int k"] free_count_lt [OF inv k] S(2)
      by (simp add: free_frames_def)
    have fr: "frames (frame_unref p k) = (frames p)[k := (frames p ! k)\<lparr>refcount := 0, pool_index := - 1\<rparr>]"
      "fcount (frame_unref p k) = fcount p" "capacity (frame_unref p k) = capacity p"
      unfolding unref_eq [OF inv k] using True by simp_all
    have "pool_shape (frame_unref p k)"
      unfolding unref_eq [OF inv k] using True S free_count_lt [OF inv k] by (simp add: pool_shape_def)
    then show ?thesis
      using inv kc kf S(1) unfolding pool_inv_def ff fr by (auto simp: nth_list_update)
  next
    case False
    have ff: "free_frames (frame_unref p k) = free_frames p"
      unfolding unref_eq [OF inv k] using False by (simp add: free_frames_def)
    have fr: "frames (frame_unref p k) = (frames p)[k := (frames p ! k)\<lparr>refcount := int (refs p k) - 1\<rparr>]"
      "fcount (frame_unref p k) = fcount p" "capacity (frame_unref p k) = capacity p"
      unfolding unref_eq [OF inv k] using False by simp_all
    have "pool_shape (frame_unref p k)"
      unfolding unref_eq [OF inv k] using False S by (simp add: pool_shape_def)
    then show ?thesis
      using inv kc kf S(1) False k rc unfolding pool_inv_def ff fr by (auto simp: nth_list_update)
  qed
qed

section \<open>The interface of the pool\<close>

text \<open>
  A client sees the pool as a set of reference counts: acquiring gives a frame nobody refers to and
  counts one reference to it, and the other two operations count up and down. \<open>acquire\<close> fails only
  when every frame is referred to.
\<close>

locale ref_pool =
  fixes acquire :: "'p \<Rightarrow> 'p \<times> nat option"
    and ref :: "'p \<Rightarrow> nat \<Rightarrow> 'p"
    and unref :: "'p \<Rightarrow> nat \<Rightarrow> 'p"
    and refcnt :: "'p \<Rightarrow> nat \<Rightarrow> nat"
    and frames_in :: "'p \<Rightarrow> nat"
    and invar :: "'p \<Rightarrow> bool"
  assumes acquire_fresh: "invar p \<Longrightarrow> acquire p = (p', Some k) \<Longrightarrow>
      invar p' \<and> k < frames_in p \<and> refcnt p k = 0 \<and> refcnt p' = (refcnt p)(k := 1)"
    and acquire_empty: "invar p \<Longrightarrow> acquire p = (p', None) \<Longrightarrow> p' = p \<and> (\<forall>k < frames_in p. 0 < refcnt p k)"
    and ref_counts: "invar p \<Longrightarrow> 0 < refcnt p k \<Longrightarrow>
      invar (ref p k) \<and> refcnt (ref p k) = (refcnt p)(k := Suc (refcnt p k))"
    and unref_counts: "invar p \<Longrightarrow> 0 < refcnt p k \<Longrightarrow>
      invar (unref p k) \<and> refcnt (unref p k) = (refcnt p)(k := refcnt p k - 1)"
begin

lemma ref_unref_counts:
  assumes "invar p" "0 < refcnt p k"
  shows "refcnt (unref (ref p k) k) = refcnt p"
  using assms ref_counts [of p k] unref_counts [of "ref p k" k] by auto

lemma acquire_total:
  assumes "invar p" "\<exists>k < frames_in p. refcnt p k = 0"
  shows "\<exists>p' k. acquire p = (p', Some k)"
  using assms acquire_empty [of p] by (cases "acquire p"; cases "snd (acquire p)") auto

end

lemma empty_all_referenced:
  assumes inv: "pool_inv p" and e: "free_count p = 0" and k: "k < fcount p"
  shows "0 < refs p k"
  using refs_zero_free [OF inv k] e by (auto simp: free_frames_def)

interpretation fpool: ref_pool frame_pool_acquire frame_ref frame_unref refs fcount pool_inv
proof unfold_locales
  fix p p' :: frame_pool and k :: nat
  show "pool_inv p \<Longrightarrow> frame_pool_acquire p = (p', Some k) \<Longrightarrow>
      pool_inv p' \<and> k < fcount p \<and> refs p k = 0 \<and> refs p' = (refs p)(k := 1)"
    using acquire_inv [of p p' k] acquire_Some [of p p' k] by simp
  show "pool_inv p \<Longrightarrow> frame_pool_acquire p = (p', None) \<Longrightarrow> p' = p \<and> (\<forall>k<fcount p. 0 < refs p k)"
    using empty_all_referenced by (simp add: acquire_None)
  show "pool_inv p \<Longrightarrow> 0 < refs p k \<Longrightarrow>
      pool_inv (frame_ref p k) \<and> refs (frame_ref p k) = (refs p)(k := Suc (refs p k))"
    using ref_inv by blast
  show "pool_inv p \<Longrightarrow> 0 < refs p k \<Longrightarrow>
      pool_inv (frame_unref p k) \<and> refs (frame_unref p k) = (refs p)(k := refs p k - 1)"
    using unref_inv by blast
qed

section \<open>What the operations leave alone\<close>

lemma acquire_frame:
  "pool_inv p \<Longrightarrow> frame_pool_acquire p = (p', Some k) \<Longrightarrow>
   fcount p' = fcount p \<and> capacity p' = capacity p \<and> backing p' = backing p \<and>
   (\<forall>j. j \<noteq> k \<longrightarrow> frames p' ! j = frames p ! j)"
  using acquire_Some(5) [of p p' k] by auto

lemma ref_frame [simp]:
  "fcount (frame_ref p k) = fcount p" "capacity (frame_ref p k) = capacity p"
  "backing (frame_ref p k) = backing p"
  by (simp_all add: frame_ref_def)

lemma unref_frame [simp]:
  "fcount (frame_unref p k) = fcount p" "capacity (frame_unref p k) = capacity p"
  "backing (frame_unref p k) = backing p"
  by (simp_all add: frame_unref_def Let_def)

text \<open>The part of a frame that its consumers read: everything except the pool's bookkeeping.\<close>

definition frame_meta :: "frame_pool \<Rightarrow> nat \<Rightarrow> u32 \<times> u32 \<times> u32 \<times> u32 \<times> nat \<times> u64 \<times> u64" where
  "frame_meta p k = (let f = frames p ! k in
     (width f, height f, format f, stride f, fsize f, sequence f, timestamp_us f))"

definition frame_bytes :: "frame_pool \<Rightarrow> nat \<Rightarrow> bytes" where
  "frame_bytes p k = take (fsize (frames p ! k)) (drop (k * capacity p) (backing p))"

lemma meta_ref [simp]: "frame_meta (frame_ref p j) k = frame_meta p k"
  by (cases "k = j"; cases "j < length (frames p)")
     (simp_all add: frame_meta_def frame_ref_def Let_def list_update_beyond)

lemma meta_unref [simp]: "frame_meta (frame_unref p j) k = frame_meta p k"
  by (cases "k = j"; cases "j < length (frames p)")
     (simp_all add: frame_meta_def frame_unref_def Let_def list_update_beyond)

lemma bytes_of_meta: "frame_meta p k = frame_meta q k \<Longrightarrow> backing p = backing q \<Longrightarrow>
    capacity p = capacity q \<Longrightarrow> frame_bytes p k = frame_bytes q k"
  by (simp add: frame_meta_def frame_bytes_def Let_def)

end
