(* ===== verification/Frame_Hub.thy ===== *)
theory Frame_Hub
  imports Frame_Pool
begin

text \<open>
  The frame hub of \<^verbatim>\<open>src/media/frame_hub.c\<close>: one producer publishes pooled frames, every consumer
  owns a mailbox of one slot that always holds the newest frame. The doubly linked list of consumers
  is the list \<open>consumers\<close>, newest first as the code pushes at the head; a \<^verbatim>\<open>FrameHubConsumer *\<close> is
  the number \<open>cid\<close> of its record (the allocator gives each new one a fresh number, \<open>next_cid\<close>).
  The list and the mailboxes are guarded by the hub and consumer mutexes, so each operation is one
  step here. The reference count itself is the exception: \<^verbatim>\<open>frame_ref\<close> changes it under the hub's
  mutex and \<^verbatim>\<open>frame_unref\<close> under the pool's, so that the two do not exclude each other. The section on
  the race shows what that can do; everything else holds for counts that are changed atomically.

  The delivery loop is written over any pool operations, and its accounting is proved once for every
  pool that satisfies the interface \<open>ref_pool\<close>.
\<close>

section \<open>State and operations\<close>

record consumer =
  cid :: nat
  slot :: "nat option"
  active :: bool

record frame_hub =
  pool :: frame_pool
  consumers :: "consumer list"
  next_cid :: nat

definition frame_hub_create :: "bool \<Rightarrow> nat \<Rightarrow> nat \<Rightarrow> frame_hub option" where
  "frame_hub_create alloc_ok buffer_capacity pool_count =
     (if \<not> alloc_ok then None
      else case frame_pool_create alloc_ok buffer_capacity pool_count of
        None \<Rightarrow> None
      | Some p \<Rightarrow> Some \<lparr>pool = p, consumers = [], next_cid = 0\<rparr>)"

definition frame_hub_subscribe :: "bool \<Rightarrow> frame_hub \<Rightarrow> frame_hub \<times> nat option" where
  "frame_hub_subscribe alloc_ok h =
     (if \<not> alloc_ok then (h, None)
      else (h\<lparr>consumers := \<lparr>cid = next_cid h, slot = None, active = True\<rparr> # consumers h,
              next_cid := next_cid h + 1\<rparr>, Some (next_cid h)))"

definition find_consumer :: "frame_hub \<Rightarrow> nat \<Rightarrow> consumer option" where
  "find_consumer h c = find (\<lambda>x. cid x = c) (consumers h)"

definition frame_hub_unsubscribe :: "frame_hub \<Rightarrow> nat \<Rightarrow> frame_hub" where
  "frame_hub_unsubscribe h c =
     (case find_consumer h c of
        None \<Rightarrow> h
      | Some x \<Rightarrow>
          let h1 = (if active x then h\<lparr>consumers := filter (\<lambda>y. cid y \<noteq> c) (consumers h)\<rparr> else h)
          in (case slot x of
                None \<Rightarrow> h1
              | Some k \<Rightarrow> h1\<lparr>pool := frame_unref (pool h1) k\<rparr>))"

text \<open>
  The delivery loop: skip an inactive consumer; otherwise take a reference for its mailbox, drop the
  frame it has not taken yet, and put the new one in.
\<close>

fun deliver_with :: "('p \<Rightarrow> nat \<Rightarrow> 'p) \<Rightarrow> ('p \<Rightarrow> nat \<Rightarrow> 'p) \<Rightarrow> nat \<Rightarrow> consumer list \<Rightarrow> 'p \<Rightarrow>
    consumer list \<times> 'p" where
  "deliver_with rf un f [] p = ([], p)"
| "deliver_with rf un f (c # cs) p =
     (if \<not> active c then (let (cs', p') = deliver_with rf un f cs p in (c # cs', p'))
      else
        let p1 = rf p f;
            p2 = (case slot c of None \<Rightarrow> p1 | Some k \<Rightarrow> un p1 k);
            (cs', p') = deliver_with rf un f cs p2
        in (c\<lparr>slot := Some f\<rparr> # cs', p'))"

abbreviation deliver :: "nat \<Rightarrow> consumer list \<Rightarrow> frame_pool \<Rightarrow> consumer list \<times> frame_pool" where
  "deliver \<equiv> deliver_with frame_ref frame_unref"

text \<open>
  \<open>data = None\<close> is the null pointer and the size is the number of bytes given. The result is the
  return code and the new hub, or \<open>None\<close> when the copy runs past the pool's memory: the code does
  not compare the size with the capacity of a frame.
\<close>

definition fill_frame :: "frame_pool \<Rightarrow> nat \<Rightarrow> bytes \<Rightarrow> u32 \<Rightarrow> u32 \<Rightarrow> u32 \<Rightarrow> u32 \<Rightarrow> u64 \<Rightarrow> u64 \<Rightarrow>
    frame_pool option" where
  "fill_frame p k data w hgt fmt str sq ts =
     do {
       mem \<leftarrow> wr (backing p) (data_off (frames p ! k)) data;
       Some (p\<lparr>backing := mem,
               frames := (frames p)[k := (frames p ! k)\<lparr>width := w, height := hgt, format := fmt,
                  stride := str, fsize := length data, sequence := sq, timestamp_us := ts\<rparr>]\<rparr>)
     }"

definition frame_hub_publish :: "frame_hub \<Rightarrow> bytes option \<Rightarrow> u32 \<Rightarrow> u32 \<Rightarrow> u32 \<Rightarrow> u32 \<Rightarrow> u64 \<Rightarrow> u64 \<Rightarrow>
    (int \<times> frame_hub) option" where
  "frame_hub_publish h data w hgt fmt str sq ts =
     (case data of
        None \<Rightarrow> Some (- 1, h)
      | Some d \<Rightarrow>
          if length d = 0 then Some (- 1, h)
          else case frame_pool_acquire (pool h) of
            (_, None) \<Rightarrow> Some (- 1, h)
          | (p1, Some k) \<Rightarrow>
              do {
                p2 \<leftarrow> fill_frame p1 k d w hgt fmt str sq ts;
                let (cs, p3) = deliver k (consumers h) p2;
                Some (0, h\<lparr>pool := frame_unref p3 k, consumers := cs\<rparr>)
              })"

definition frame_hub_take :: "frame_hub \<Rightarrow> nat \<Rightarrow> frame_hub \<times> nat option" where
  "frame_hub_take h c =
     (case find_consumer h c of
        None \<Rightarrow> (h, None)
      | Some x \<Rightarrow> (h\<lparr>consumers := map (\<lambda>y. if cid y = c then y\<lparr>slot := None\<rparr> else y) (consumers h)\<rparr>,
                   slot x))"

text \<open>Destruction unsubscribes the head of the list until the list is empty.\<close>

function hub_drain :: "frame_hub \<Rightarrow> frame_hub" where
  "hub_drain h =
     (case consumers h of
        [] \<Rightarrow> h
      | x # _ \<Rightarrow> if active x then hub_drain (frame_hub_unsubscribe h (cid x)) else h)"
  by pat_completeness auto
termination
proof (relation "measure (\<lambda>h. length (consumers h))")
  fix h :: frame_hub and x cs
  assume c: "consumers h = x # cs" and a: "active x"
  have "length (filter (\<lambda>y. cid y \<noteq> cid x) cs) \<le> length cs" by (rule length_filter_le)
  then show "(frame_hub_unsubscribe h (cid x), h) \<in> measure (\<lambda>h. length (consumers h))"
    using c a
    by (auto simp: frame_hub_unsubscribe_def find_consumer_def Let_def less_Suc_eq_le split: option.splits)
qed simp

section \<open>Accounting for references\<close>

text \<open>
  \<open>slot_refs\<close> counts the mailboxes that hold a frame. The hub's invariant says that every reference
  is either a mailbox or a frame some consumer took and has not released (\<open>held\<close>).
\<close>

definition slot_refs :: "consumer list \<Rightarrow> nat \<Rightarrow> nat" where
  "slot_refs cs k = length (filter (\<lambda>c. slot c = Some k) cs)"

lemma slot_refs_simps [simp]:
  "slot_refs [] k = 0"
  "slot_refs (c # cs) k = (if slot c = Some k then 1 else 0) + slot_refs cs k"
  by (simp_all add: slot_refs_def)

definition hub_inv :: "(nat \<Rightarrow> nat) \<Rightarrow> frame_hub \<Rightarrow> bool" where
  "hub_inv held h \<longleftrightarrow> pool_inv (pool h) \<and> (\<forall>k. refs (pool h) k = slot_refs (consumers h) k + held k) \<and>
     distinct (map cid (consumers h)) \<and> (\<forall>c \<in> set (consumers h). active c \<and> cid c < next_cid h)"

context ref_pool
begin

lemma deliver_counts:
  assumes "invar p" "\<And>k. refcnt p k = slot_refs cs k + rest k" "0 < rest f"
    and "deliver_with ref unref f cs p = (cs', p')"
  shows "invar p' \<and> (\<forall>k. refcnt p' k = slot_refs cs' k + rest k)"
  using assms
proof (induction cs arbitrary: p rest cs' p')
  case Nil
  then show ?case by simp
next
  case (Cons c cs)
  show ?case
  proof (cases "active c")
    case False
    then obtain ds where d: "deliver_with ref unref f cs p = (ds, p')" and cs': "cs' = c # ds"
      using Cons.prems(4) by (auto split: prod.splits)
    define rest' where "rest' k = (if slot c = Some k then 1 else 0) + rest k" for k
    have "invar p' \<and> (\<forall>k. refcnt p' k = slot_refs ds k + rest' k)"
      by (rule Cons.IH [OF Cons.prems(1) _ _ d]) (use Cons.prems in \<open>auto simp: rest'_def\<close>)
    then show ?thesis by (auto simp: cs' rest'_def)
  next
    case True
    define p1 where "p1 = ref p f"
    define p2 where "p2 = (case slot c of None \<Rightarrow> p1 | Some k \<Rightarrow> unref p1 k)"
    obtain ds q where d0: "deliver_with ref unref f cs p2 = (ds, q)" by fastforce
    have "deliver_with ref unref f (c # cs) p = (c\<lparr>slot := Some f\<rparr> # ds, q)"
      using True d0 by (simp add: Let_def flip: p1_def p2_def)
    then have cs': "cs' = c\<lparr>slot := Some f\<rparr> # ds" and d: "deliver_with ref unref f cs p2 = (ds, p')"
      using Cons.prems(4) d0 by auto
    have f: "0 < refcnt p f" using Cons.prems by auto
    have p1: "invar p1 \<and> refcnt p1 = (refcnt p)(f := Suc (refcnt p f))"
      unfolding p1_def using ref_counts Cons.prems(1) f by blast
    have p2: "invar p2 \<and> (\<forall>k. refcnt p2 k = slot_refs cs k + (rest(f := Suc (rest f))) k)"
    proof (cases "slot c")
      case None
      then show ?thesis using p1 Cons.prems(2) by (auto simp: p2_def)
    next
      case (Some j)
      then have "0 < refcnt p1 j" using p1 Cons.prems(2) by auto
      with Some p1 have "invar p2 \<and> refcnt p2 = (refcnt p1)(j := refcnt p1 j - 1)"
        by (auto simp: p2_def dest: unref_counts)
      then show ?thesis using p1 Cons.prems(2) Some by auto
    qed
    have "invar p' \<and> (\<forall>k. refcnt p' k = slot_refs ds k + (rest(f := Suc (rest f))) k)"
      by (rule Cons.IH [OF _ _ _ d]) (use p2 in auto)
    then show ?thesis by (auto simp: cs')
  qed
qed

end

lemma deliver_slots:
  "deliver_with rf un f cs p = (cs', p') \<Longrightarrow>
   cs' = map (\<lambda>c. if active c then c\<lparr>slot := Some f\<rparr> else c) cs"
  by (induction cs arbitrary: p cs' p') (auto simp: Let_def split: prod.splits if_splits)

lemma deliver_pool_frame:
  "deliver f cs p = (cs', p') \<Longrightarrow>
   fcount p' = fcount p \<and> capacity p' = capacity p \<and> backing p' = backing p \<and>
   (\<forall>k. frame_meta p' k = frame_meta p k)"
proof (induction cs arbitrary: p cs' p')
  case (Cons c cs)
  then show ?case
    by (cases "active c"; cases "slot c") (fastforce simp: Let_def split: prod.splits)+
qed simp

lemma fill_frame_spec:
  assumes inv: "pool_inv p" and k: "k < fcount p" and cap: "length d \<le> capacity p"
  obtains p' where "fill_frame p k d w hgt fmt str sq ts = Some p'"
    "pool_inv p'" "refs p' = refs p" "fcount p' = fcount p" "capacity p' = capacity p"
    "frame_meta p' k = (w, hgt, fmt, str, length d, sq, ts)" "frame_bytes p' k = d"
    "\<And>j. j < fcount p \<Longrightarrow> j \<noteq> k \<Longrightarrow> fsize (frames p ! j) \<le> capacity p \<Longrightarrow>
      frame_meta p' j = frame_meta p j \<and> frame_bytes p' j = frame_bytes p j"
proof -
  note S = pool_inv_simps [OF inv]
  have off: "data_off (frames p ! k) = k * capacity p" using inv k by (auto simp: pool_inv_def)
  have "Suc k * capacity p \<le> fcount p * capacity p" using k by (intro mult_le_mono1) simp
  then have room: "k * capacity p + length d \<le> length (backing p)" using cap S(3) by simp
  then obtain mem where mem: "wr (backing p) (k * capacity p) d = Some mem"
    using wr_defined by blast
  define p' where "p' = p\<lparr>backing := mem,
               frames := (frames p)[k := (frames p ! k)\<lparr>width := w, height := hgt, format := fmt,
                  stride := str, fsize := length d, sequence := sq, timestamp_us := ts\<rparr>]\<rparr>"
  have ff: "free_frames p' = free_frames p" by (simp add: p'_def free_frames_def)
  have "pool_inv p'"
    using inv k S(1) wr_length [OF mem] unfolding pool_inv_def pool_shape_def ff
    by (auto simp: p'_def nth_list_update)
  moreover have "refs p' = refs p" using k S(1) by (auto simp: p'_def refs_def fun_eq_iff nth_list_update)
  moreover have "frame_meta p' k = (w, hgt, fmt, str, length d, sq, ts)"
    using k S(1) by (simp add: p'_def frame_meta_def Let_def)
  moreover have "frame_bytes p' k = d"
    using k S(1) wr_read_same [OF mem] by (simp add: p'_def frame_bytes_def)
  moreover have "frame_meta p' j = frame_meta p j \<and> frame_bytes p' j = frame_bytes p j"
    if j: "j < fcount p" "j \<noteq> k" "fsize (frames p ! j) \<le> capacity p" for j
  proof -
    have "j * capacity p + fsize (frames p ! j) \<le> k * capacity p \<or>
        k * capacity p + length d \<le> j * capacity p"
    proof (cases "j < k")
      case True
      then have "Suc j * capacity p \<le> k * capacity p" by (intro mult_le_mono1) simp
      with j(3) show ?thesis by simp
    next
      case False
      then have "Suc k * capacity p \<le> j * capacity p" using j(2) by (intro mult_le_mono1) simp
      with cap show ?thesis by simp
    qed
    with j(2) wr_read_other [OF mem] show ?thesis
      by (simp add: p'_def frame_meta_def frame_bytes_def)
  qed
  ultimately show thesis
    using mem off by (intro that [of p']) (auto simp: p'_def fill_frame_def)
qed

section \<open>The invariant is kept\<close>

text \<open>Every frame a reader can see fits its buffer; \<open>publish\<close> keeps this when its caller does.\<close>

definition hub_fits :: "frame_hub \<Rightarrow> bool" where
  "hub_fits h \<longleftrightarrow> (\<forall>k < fcount (pool h). fsize (frames (pool h) ! k) \<le> capacity (pool h))"

lemma find_consumer_Some: "find_consumer h c = Some x \<Longrightarrow> x \<in> set (consumers h) \<and> cid x = c"
  by (auto simp: find_consumer_def find_Some_iff)

lemma slot_refs_remove:
  "distinct (map cid cs) \<Longrightarrow> x \<in> set cs \<Longrightarrow>
   slot_refs cs k = (if slot x = Some k then 1 else 0) + slot_refs (filter (\<lambda>y. cid y \<noteq> cid x) cs) k"
proof (induction cs)
  case (Cons a cs)
  show ?case
  proof (cases "a = x")
    case True
    then have "filter (\<lambda>y. cid y \<noteq> cid x) cs = cs"
      using Cons.prems(1) by (intro filter_True) (auto simp: image_iff)
    with True show ?thesis by simp
  next
    case False
    then have "x \<in> set cs" "cid a \<noteq> cid x" using Cons.prems by auto
    with Cons show ?thesis by simp
  qed
qed simp

lemma slot_refs_clear:
  "distinct (map cid cs) \<Longrightarrow> x \<in> set cs \<Longrightarrow>
   slot_refs cs k = (if slot x = Some k then 1 else 0) +
     slot_refs (map (\<lambda>y. if cid y = cid x then y\<lparr>slot := None\<rparr> else y) cs) k"
proof (induction cs)
  case (Cons a cs)
  show ?case
  proof (cases "a = x")
    case True
    then have "map (\<lambda>y. if cid y = cid x then y\<lparr>slot := None\<rparr> else y) cs = cs"
      using Cons.prems(1) by (intro map_idI) (auto simp: image_iff)
    with True show ?thesis by simp
  next
    case False
    then have "x \<in> set cs" "cid a \<noteq> cid x" using Cons.prems by auto
    with Cons show ?thesis by simp
  qed
qed simp

lemma create_hub_inv: "frame_hub_create ok cap n = Some h \<Longrightarrow> hub_inv (\<lambda>_. 0) h \<and> hub_fits h"
  by (auto simp: frame_hub_create_def hub_inv_def hub_fits_def create_inv frame_pool_create_def zero_frame_def
      split: if_splits option.splits)
     (auto simp: refs_def pool_inv_def pool_shape_def free_frames_def zero_frame_def distinct_map)

lemma subscribe_hub_inv:
  "hub_inv held h \<Longrightarrow> hub_inv held (fst (frame_hub_subscribe ok h))"
  by (auto simp: hub_inv_def frame_hub_subscribe_def less_Suc_eq)

lemma take_hub_inv:
  assumes inv: "hub_inv held h" and t: "frame_hub_take h c = (h', Some k)"
  shows "hub_inv (held(k := Suc (held k))) h'"
proof -
  obtain x where f: "find_consumer h c = Some x" and s: "slot x = Some k"
    and h': "h' = h\<lparr>consumers := map (\<lambda>y. if cid y = c then y\<lparr>slot := None\<rparr> else y) (consumers h)\<rparr>"
    using t by (auto simp: frame_hub_take_def split: option.splits)
  note X = find_consumer_Some [OF f]
  have ids: "map cid (map (\<lambda>y. if cid y = c then y\<lparr>slot := None\<rparr> else y) (consumers h)) = map cid (consumers h)"
    by simp
  have "slot_refs (consumers h) j = (if j = k then 1 else 0) + slot_refs (consumers h') j" for j
    using slot_refs_clear [of "consumers h" x j] inv X s h' by (auto simp: hub_inv_def)
  moreover have "map cid (consumers h') = map cid (consumers h)" using ids h' by simp
  moreover have "pool h' = pool h" "next_cid h' = next_cid h" using h' by simp_all
  moreover have "\<forall>y \<in> set (consumers h'). active y \<and> cid y < next_cid h"
    using inv h' by (auto simp: hub_inv_def)
  ultimately show ?thesis using inv unfolding hub_inv_def by simp
qed

lemma take_None:
  assumes inv: "hub_inv held h" and t: "frame_hub_take h c = (h', None)"
  shows "h' = h"
proof (cases "find_consumer h c")
  case (Some x)
  have "map (\<lambda>y. if cid y = c then y\<lparr>slot := None\<rparr> else y) (consumers h) = consumers h"
  proof (rule map_idI)
    fix y assume y: "y \<in> set (consumers h)"
    have "y = x" if "cid y = c"
      using inv y find_consumer_Some [OF Some] that by (auto simp: hub_inv_def distinct_map inj_on_def)
    then show "(if cid y = c then y\<lparr>slot := None\<rparr> else y) = y"
      using t Some by (auto simp: frame_hub_take_def)
  qed
  then show ?thesis using t Some by (simp add: frame_hub_take_def)
qed (use t in \<open>simp add: frame_hub_take_def\<close>)

lemma unsubscribe_hub_inv:
  assumes inv: "hub_inv held h"
  shows "hub_inv held (frame_hub_unsubscribe h c)"
proof (cases "find_consumer h c")
  case (Some x)
  note X = find_consumer_Some [OF Some]
  let ?cs = "filter (\<lambda>y. cid y \<noteq> c) (consumers h)"
  have act: "active x" using inv X by (auto simp: hub_inv_def)
  have cnt: "slot_refs (consumers h) j = (if slot x = Some j then 1 else 0) + slot_refs ?cs j" for j
    using slot_refs_remove [of "consumers h" x j] inv X by (simp add: hub_inv_def)
  have rest: "distinct (map cid ?cs)" "\<forall>y \<in> set ?cs. active y \<and> cid y < next_cid h"
    using inv by (auto simp: hub_inv_def distinct_map_filter)
  show ?thesis
  proof (cases "slot x")
    case None
    then show ?thesis using inv act cnt rest \<open>find_consumer h c = Some x\<close>
      by (auto simp: frame_hub_unsubscribe_def hub_inv_def Let_def)
  next
    case (Some k)
    have pos: "0 < refs (pool h) k" using inv cnt [of k] Some by (simp add: hub_inv_def)
    have "pool_inv (frame_unref (pool h) k)"
      "refs (frame_unref (pool h) k) = (refs (pool h))(k := refs (pool h) k - 1)"
      using fpool.unref_counts [OF _ pos] inv by (auto simp: hub_inv_def)
    then show ?thesis using inv act cnt rest \<open>find_consumer h c = Some x\<close> Some
      by (auto simp: frame_hub_unsubscribe_def hub_inv_def Let_def)
  qed
qed (use inv in \<open>simp add: frame_hub_unsubscribe_def\<close>)

definition hub_release :: "frame_hub \<Rightarrow> nat \<Rightarrow> frame_hub" where
  "hub_release h k = h\<lparr>pool := frame_unref (pool h) k\<rparr>"

lemma release_hub_inv:
  assumes inv: "hub_inv held h" and k: "0 < held k"
  shows "hub_inv (held(k := held k - 1)) (hub_release h k)"
proof -
  have "0 < refs (pool h) k" using inv k by (simp add: hub_inv_def)
  from fpool.unref_counts [OF _ this] inv k show ?thesis
    by (auto simp: hub_inv_def hub_release_def)
qed

text \<open>The whole of \<open>publish\<close>, given a free frame and a picture that fits.\<close>

lemma publish_spec:
  assumes inv: "hub_inv held h" and fits: "hub_fits h" and d: "0 < length d" "length d \<le> capacity (pool h)"
    and acq: "frame_pool_acquire (pool h) = (p1, Some k)"
  obtains h' where "frame_hub_publish h (Some d) w hgt fmt str sq ts = Some (0, h')"
    "hub_inv held h'" "hub_fits h'" "refs (pool h) k = 0" "k < fcount (pool h)"
    "fcount (pool h') = fcount (pool h)" "capacity (pool h') = capacity (pool h)"
    "consumers h' = map (\<lambda>c. c\<lparr>slot := Some k\<rparr>) (consumers h)"
    "frame_meta (pool h') k = (w, hgt, fmt, str, length d, sq, ts)" "frame_bytes (pool h') k = d"
    "\<forall>j < fcount (pool h). j \<noteq> k \<longrightarrow>
       frame_meta (pool h') j = frame_meta (pool h) j \<and> frame_bytes (pool h') j = frame_bytes (pool h) j"
proof -
  have pinv: "pool_inv (pool h)" using inv by (simp add: hub_inv_def)
  from fpool.acquire_fresh [OF pinv acq] have A: "pool_inv p1" "k < fcount (pool h)" "refs (pool h) k = 0"
    "refs p1 = (refs (pool h))(k := 1)" by auto
  note F = acquire_frame [OF pinv acq]
  obtain p2 where P2: "fill_frame p1 k d w hgt fmt str sq ts = Some p2" "pool_inv p2" "refs p2 = refs p1"
    "fcount p2 = fcount p1" "capacity p2 = capacity p1"
    "frame_meta p2 k = (w, hgt, fmt, str, length d, sq, ts)" "frame_bytes p2 k = d"
    and oth: "\<And>j. j < fcount p1 \<Longrightarrow> j \<noteq> k \<Longrightarrow> fsize (frames p1 ! j) \<le> capacity p1 \<Longrightarrow>
      frame_meta p2 j = frame_meta p1 j \<and> frame_bytes p2 j = frame_bytes p1 j"
    using fill_frame_spec [OF A(1), of k d] A(2) d(2) F by metis
  obtain cs p3 where D: "deliver k (consumers h) p2 = (cs, p3)" by fastforce
  have none: "slot_refs (consumers h) k = 0" "held k = 0" using inv A(3) by (auto simp: hub_inv_def)
  have "pool_inv p3 \<and> (\<forall>j. refs p3 j = slot_refs cs j + (held(k := 1)) j)"
    by (rule fpool.deliver_counts [OF P2(2) _ _ D]) (use inv none A P2 in \<open>auto simp: hub_inv_def\<close>)
  then have R3: "pool_inv p3" "\<And>j. refs p3 j = slot_refs cs j + (held(k := 1)) j" by auto
  have pos: "0 < refs p3 k" using R3(2) [of k] by simp
  note U = fpool.unref_counts [OF R3(1) pos]
  have act: "\<forall>c \<in> set (consumers h). active c" using inv by (simp add: hub_inv_def)
  have cs: "cs = map (\<lambda>c. c\<lparr>slot := Some k\<rparr>) (consumers h)"
    using deliver_slots [OF D] act by (auto intro: map_cong)
  note PF = deliver_pool_frame [OF D]
  define h' where "h' = h\<lparr>pool := frame_unref p3 k, consumers := cs\<rparr>"
  have run: "frame_hub_publish h (Some d) w hgt fmt str sq ts = Some (0, h')"
    using d(1) acq P2(1) D by (simp add: frame_hub_publish_def h'_def)
  have meta: "frame_meta (pool h') j = frame_meta p2 j" "frame_bytes (pool h') j = frame_bytes p2 j" for j
    using PF by (auto simp: h'_def intro!: bytes_of_meta)
  have dims: "fcount (pool h') = fcount (pool h)" "capacity (pool h') = capacity (pool h)"
    using PF P2(4,5) F by (auto simp: h'_def)
  have same: "frame_meta (pool h') j = frame_meta (pool h) j \<and> frame_bytes (pool h') j = frame_bytes (pool h) j"
    if j: "j < fcount (pool h)" "j \<noteq> k" for j
  proof -
    have "frames p1 ! j = frames (pool h) ! j" using F j by auto
    moreover have "fsize (frames (pool h) ! j) \<le> capacity (pool h)" using fits j by (simp add: hub_fits_def)
    ultimately show ?thesis
      using oth [of j] j F by (simp add: meta) (simp add: frame_meta_def frame_bytes_def)
  qed
  have size_meta: "fsize (frames q ! j) = (case frame_meta q j of (_, _, _, _, z, _, _) \<Rightarrow> z)" for q j
    by (simp add: frame_meta_def Let_def)
  have "fsize (frames (pool h') ! j) \<le> capacity (pool h')" if j: "j < fcount (pool h')" for j
  proof (cases "j = k")
    case True
    then show ?thesis using meta(1) [of k] P2(6) d(2) dims by (simp add: size_meta)
  next
    case False
    then have "frame_meta (pool h') j = frame_meta (pool h) j" using same [of j] j dims by simp
    then have "fsize (frames (pool h') ! j) = fsize (frames (pool h) ! j)" unfolding size_meta by simp
    then show ?thesis using j dims fits by (simp add: hub_fits_def)
  qed
  then have fits': "hub_fits h'" by (simp add: hub_fits_def)
  have ids: "map cid cs = map cid (consumers h)" by (simp add: cs)
  have "hub_inv held h'"
    using inv U R3(2) none act unfolding hub_inv_def h'_def
    by (auto simp: ids) (auto simp: cs)
  then show thesis
    using that [OF run _ fits' A(3,2) dims] same cs meta [of k] P2(6,7) by (simp add: h'_def)
qed

section \<open>Runs of the hub\<close>

text \<open>
  The producer and the consumers interleave their calls in any order; each call is atomic under the
  hub's mutexes. \<open>held k\<close> counts the references consumers took and have not released yet. The only
  duties of the callers are that a publisher respects the buffer capacity it asked for and that a
  consumer releases a frame it holds.
\<close>

type_synonym hub_state = "frame_hub \<times> (nat \<Rightarrow> nat)"

inductive hub_step :: "hub_state \<Rightarrow> hub_state \<Rightarrow> bool" where
  subscribe: "hub_step (h, held) (fst (frame_hub_subscribe ok h), held)"
| unsubscribe: "hub_step (h, held) (frame_hub_unsubscribe h c, held)"
| publish: "length d \<le> capacity (pool h) \<Longrightarrow>
    frame_hub_publish h (Some d) w hgt fmt str sq ts = Some (rc, h') \<Longrightarrow> hub_step (h, held) (h', held)"
| take_none: "frame_hub_take h c = (h', None) \<Longrightarrow> hub_step (h, held) (h', held)"
| take_some: "frame_hub_take h c = (h', Some k) \<Longrightarrow>
    hub_step (h, held) (h', held(k := Suc (held k)))"
| release: "0 < held k \<Longrightarrow> hub_step (h, held) (hub_release h k, held(k := held k - 1))"

inductive hub_run :: "hub_state \<Rightarrow> hub_state \<Rightarrow> bool" where
  hub_refl: "hub_run s s"
| hub_more: "hub_run s t \<Longrightarrow> hub_step t u \<Longrightarrow> hub_run s u"

inductive_cases hub_stepE [elim]: "hub_step (h, held) (h', held')"

definition hub_ok :: "hub_state \<Rightarrow> bool" where
  "hub_ok s \<longleftrightarrow> hub_inv (snd s) (fst s) \<and> hub_fits (fst s)"

text \<open>What a consumer that holds frame \<open>k\<close> can see of it.\<close>

definition frame_view :: "frame_hub \<Rightarrow> nat \<Rightarrow> (u32 \<times> u32 \<times> u32 \<times> u32 \<times> nat \<times> u64 \<times> u64) \<times> bytes" where
  "frame_view h k = (frame_meta (pool h) k, frame_bytes (pool h) k)"

lemma view_unref [simp]: "frame_meta (frame_unref p j) k = frame_meta p k \<and>
    frame_bytes (frame_unref p j) k = frame_bytes p k"
  by (auto intro!: bytes_of_meta)

lemma fits_view: "hub_fits h \<Longrightarrow> fcount (pool h') = fcount (pool h) \<Longrightarrow> capacity (pool h') = capacity (pool h) \<Longrightarrow>
   (\<And>k. frame_meta (pool h') k = frame_meta (pool h) k) \<Longrightarrow> hub_fits h'"
  by (auto simp: hub_fits_def frame_meta_def Let_def)

lemma publish_cases:
  assumes "frame_hub_publish h (Some d) w hgt fmt str sq ts = Some (rc, h')"
  obtains "rc = - 1" "h' = h"
  | p1 k where "0 < length d" "frame_pool_acquire (pool h) = (p1, Some k)"
  using assms by (cases "frame_pool_acquire (pool h)"; cases "snd (frame_pool_acquire (pool h))")
    (auto simp: frame_hub_publish_def split: if_splits)

lemma unsubscribe_pool:
  "pool (frame_hub_unsubscribe h c) = pool h \<or> (\<exists>k. pool (frame_hub_unsubscribe h c) = frame_unref (pool h) k)"
  by (auto simp: frame_hub_unsubscribe_def Let_def split: option.splits)

lemma take_pool: "frame_hub_take h c = (h', r) \<Longrightarrow> pool h' = pool h"
  by (auto simp: frame_hub_take_def split: option.splits)

lemma quiet_view:
  assumes "pool h' = pool h \<or> (\<exists>k. pool h' = frame_unref (pool h) k)"
  shows "fcount (pool h') = fcount (pool h) \<and> capacity (pool h') = capacity (pool h) \<and>
    (\<forall>k. frame_meta (pool h') k = frame_meta (pool h) k) \<and> (\<forall>k. frame_view h' k = frame_view h k)"
  using assms by (auto simp: frame_view_def)

text \<open>One step keeps the invariant, and changes no frame that is held before it.\<close>

lemma hub_step_safe:
  assumes st: "hub_step (h, held) (h', held')" and ok: "hub_ok (h, held)"
  shows "hub_ok (h', held') \<and> fcount (pool h') = fcount (pool h) \<and> capacity (pool h') = capacity (pool h) \<and>
    (\<forall>k. 0 < held k \<longrightarrow> frame_view h' k = frame_view h k)"
proof -
  have inv: "hub_inv held h" and fits: "hub_fits h" using ok by (simp_all add: hub_ok_def)
  have quiet: ?thesis
    if "hub_inv held' h'" and "pool h' = pool h \<or> (\<exists>k. pool h' = frame_unref (pool h) k)"
    using that quiet_view [OF that(2)] fits_view [OF fits, of h'] by (simp add: hub_ok_def)
  from st show ?thesis
  proof cases
    case (subscribe ok)
    then show ?thesis using quiet subscribe_hub_inv [OF inv] by (auto simp: frame_hub_subscribe_def)
  next
    case (unsubscribe c)
    then show ?thesis using quiet unsubscribe_hub_inv [OF inv] unsubscribe_pool by blast
  next
    case (publish d w hgt fmt str sq ts rc)
    from publish(3) show ?thesis
    proof (cases rule: publish_cases)
      case 1
      then show ?thesis using ok publish by simp
    next
      case (2 p1 k)
      have "held k = 0" using fpool.acquire_fresh [OF _ 2(2)] inv by (auto simp: hub_inv_def)
      moreover have "k' < fcount (pool h)" if "0 < held k'" for k'
      proof (rule ccontr)
        assume "\<not> ?thesis"
        then have "refs (pool h) k' = 0" by simp
        with that inv show False by (simp add: hub_inv_def)
      qed
      ultimately have other: "k' < fcount (pool h) \<and> k' \<noteq> k" if "0 < held k'" for k'
        using that by (cases "k' = k") auto
      obtain h'' where P: "frame_hub_publish h (Some d) w hgt fmt str sq ts = Some (0, h'')"
        "hub_inv held h''" "hub_fits h''" "fcount (pool h'') = fcount (pool h)"
        "capacity (pool h'') = capacity (pool h)"
        and same: "\<forall>j < fcount (pool h). j \<noteq> k \<longrightarrow>
          frame_meta (pool h'') j = frame_meta (pool h) j \<and> frame_bytes (pool h'') j = frame_bytes (pool h) j"
        by (rule publish_spec [OF inv fits 2(1) publish(2) 2(2), of w hgt fmt str sq ts]) (rule that)
      have "h'' = h'" using P(1) publish(3) by simp
      then show ?thesis using P publish(1) same other by (simp add: hub_ok_def frame_view_def)
    qed
  next
    case (take_none c)
    then show ?thesis using take_None [OF inv] ok by auto
  next
    case (take_some c k)
    then show ?thesis using quiet take_hub_inv [OF inv] take_pool by blast
  next
    case (release k)
    then show ?thesis using quiet release_hub_inv [OF inv] by (auto simp: hub_release_def)
  qed
qed

lemma hub_run_safe: "hub_run s t \<Longrightarrow> hub_ok s \<Longrightarrow> hub_ok t \<and> fcount (pool (fst t)) = fcount (pool (fst s)) \<and>
    capacity (pool (fst t)) = capacity (pool (fst s))"
proof (induction rule: hub_run.induct)
  case (hub_more s t u)
  then show ?case using hub_step_safe [of "fst t" "snd t" "fst u" "snd u"] by simp
qed simp

inductive hub_hold :: "nat \<Rightarrow> hub_state \<Rightarrow> hub_state \<Rightarrow> bool" for k where
  hold_refl: "0 < snd s k \<Longrightarrow> hub_hold k s s"
| hold_more: "hub_hold k s t \<Longrightarrow> hub_step t u \<Longrightarrow> 0 < snd u k \<Longrightarrow> hub_hold k s u"

lemma hub_hold_safe: "hub_hold k s t \<Longrightarrow> hub_ok s \<Longrightarrow>
    hub_ok t \<and> 0 < snd t k \<and> frame_view (fst t) k = frame_view (fst s) k"
proof (induction rule: hub_hold.induct)
  case (hold_more s t u)
  then show ?case using hub_step_safe [of "fst t" "snd t" "fst u" "snd u"] by simp
qed simp

lemma slot_refs_pos: "0 < slot_refs cs k \<longleftrightarrow> (\<exists>c \<in> set cs. slot c = Some k)"
  by (induction cs) auto

lemma referenced_few:
  assumes inv: "hub_inv held h" and room: "length (consumers h) + card {k. 0 < held k} < fcount (pool h)"
  shows "\<exists>k < fcount (pool h). refs (pool h) k = 0"
proof (rule ccontr)
  assume "\<not> ?thesis"
  then have all: "\<And>k. k < fcount (pool h) \<Longrightarrow> 0 < refs (pool h) k" by auto
  have cnt: "\<And>k. refs (pool h) k = slot_refs (consumers h) k + held k" using inv by (simp add: hub_inv_def)
  have fin: "finite {k. 0 < held k}"
  proof (rule finite_subset)
    show "{k. 0 < held k} \<subseteq> {..<fcount (pool h)}"
    proof
      fix k assume "k \<in> {k. 0 < held k}"
      then have "refs (pool h) k \<noteq> 0" using cnt [of k] by simp
      then show "k \<in> {..<fcount (pool h)}" using refs_outside [of "pool h" k] by (cases "k < fcount (pool h)") auto
    qed
  qed simp
  have "{..<fcount (pool h)} \<subseteq> (\<lambda>c. the (slot c)) ` set (consumers h) \<union> {k. 0 < held k}"
  proof
    fix k assume "k \<in> {..<fcount (pool h)}"
    then have "0 < slot_refs (consumers h) k + held k" using all cnt by force
    then show "k \<in> (\<lambda>c. the (slot c)) ` set (consumers h) \<union> {k. 0 < held k}"
      using slot_refs_pos [of "consumers h" k] by (force simp: image_iff)
  qed
  then have "fcount (pool h) \<le> card ((\<lambda>c. the (slot c)) ` set (consumers h) \<union> {k. 0 < held k})"
    using fin by (metis card_lessThan card_mono finite_UnI finite_imageI finite_set)
  also have "\<dots> \<le> card ((\<lambda>c. the (slot c)) ` set (consumers h)) + card {k. 0 < held k}" by (rule card_Un_le)
  also have "\<dots> \<le> length (consumers h) + card {k. 0 < held k}"
    using card_image_le [of "set (consumers h)" "\<lambda>c. the (slot c)"] card_length [of "consumers h"] by simp
  finally show False using room by simp
qed

lemma hub_drain_spec:
  "hub_inv held h \<Longrightarrow> consumers (hub_drain h) = [] \<and> hub_inv held (hub_drain h)"
proof (induction h rule: hub_drain.induct)
  case (1 h)
  show ?case
  proof (cases "consumers h")
    case (Cons x cs)
    then have "active x" using 1 by (simp add: hub_inv_def)
    then have "hub_drain h = hub_drain (frame_hub_unsubscribe h (cid x))" using Cons by (subst hub_drain.simps) simp
    then show ?thesis using 1(1) [OF Cons \<open>active x\<close>] unsubscribe_hub_inv [OF 1(2)] by simp
  qed (use 1 in \<open>simp add: hub_drain.simps [of h]\<close>)
qed

lemma find_map_slot:
  "find (\<lambda>x. cid x = c) (map (\<lambda>c. c\<lparr>slot := r\<rparr>) cs) =
   map_option (\<lambda>c. c\<lparr>slot := r\<rparr>) (find (\<lambda>x. cid x = c) cs)"
  by (induction cs) auto

section \<open>The reference count is not guarded by one lock\<close>

text \<open>
  \<^verbatim>\<open>refcount++\<close> in \<^verbatim>\<open>frame_ref\<close> and \<^verbatim>\<open>refcount--\<close> in \<^verbatim>\<open>frame_unref\<close> are a load and a store each. The
  publisher runs the first under the hub's mutex while a consumer that already took the frame runs
  the second under the pool's. One interleaving of the four accesses is enough to lose an update.
\<close>

datatype rc_access = RefLoad | RefStore | UnrefLoad | UnrefStore

record rc_state =
  rc_count :: int
  rc_ref_reg :: int
  rc_unref_reg :: int

definition rc_do :: "rc_state \<Rightarrow> rc_access \<Rightarrow> rc_state" where
  "rc_do s a = (case a of
     RefLoad \<Rightarrow> s\<lparr>rc_ref_reg := rc_count s\<rparr>
   | RefStore \<Rightarrow> s\<lparr>rc_count := rc_ref_reg s + 1\<rparr>
   | UnrefLoad \<Rightarrow> s\<lparr>rc_unref_reg := rc_count s\<rparr>
   | UnrefStore \<Rightarrow> s\<lparr>rc_count := rc_unref_reg s - 1\<rparr>)"

lemma refcount_lost_update:
  "rc_count (foldl rc_do s [RefLoad, RefStore, UnrefLoad, UnrefStore]) = rc_count s"
  "rc_count (foldl rc_do s [RefLoad, UnrefLoad, UnrefStore, RefStore]) = rc_count s + 1"
  "rc_count (foldl rc_do s [RefLoad, UnrefLoad, RefStore, UnrefStore]) = rc_count s - 1"
  by (simp_all add: rc_do_def)

section \<open>Properties\<close>

text \<open>A small hub to evaluate: two buffers of four bytes, one consumer, one published picture, taken.\<close>

definition demo_hub :: frame_hub where
  "demo_hub = the (frame_hub_create True 4 2)"

definition demo_sub :: frame_hub where
  "demo_sub = fst (frame_hub_subscribe True demo_hub)"

definition demo_pub :: frame_hub where
  "demo_pub = snd (the (frame_hub_publish demo_sub (Some [1, 2, 3]) 2 1 7 2 9 100))"

lemmas demo_defs = demo_hub_def demo_sub_def demo_pub_def frame_hub_create_def frame_pool_create_def
  frame_hub_subscribe_def frame_hub_publish_def frame_pool_acquire_def fill_frame_def wr_def
  frame_ref_def frame_unref_def frame_hub_take_def find_consumer_def zero_frame_def upt_rec

lemma demo_start: "frame_hub_create True 4 2 = Some demo_hub" "hub_ok (demo_hub, \<lambda>_. 0)"
proof -
  show c: "frame_hub_create True 4 2 = Some demo_hub" by (simp add: demo_defs)
  show "hub_ok (demo_hub, \<lambda>_. 0)" using create_hub_inv [OF c] by (simp add: hub_ok_def)
qed

lemma demo_published: "frame_hub_publish demo_sub (Some [1, 2, 3]) 2 1 7 2 9 100 = Some (0, demo_pub)"
  "capacity (pool demo_sub) = 4" "fcount (pool demo_sub) = 2"
  by (simp_all add: demo_defs Let_def numeral_2_eq_2)

lemma demo_run: "hub_run (demo_hub, \<lambda>_. 0) (demo_pub, \<lambda>_. 0)"
proof (rule hub_more [OF hub_more [OF hub_refl]])
  show "hub_step (demo_hub, \<lambda>_. 0) (demo_sub, \<lambda>_. 0)"
    unfolding demo_sub_def by (rule hub_step.subscribe)
  show "hub_step (demo_sub, \<lambda>_. 0) (demo_pub, \<lambda>_. 0)"
    by (rule hub_step.publish [OF _ demo_published(1)]) (simp add: demo_published)
qed

text \<open>
  C2. In every state a hub reaches, however the calls of its producer and consumers interleave, the
  reference count of every frame is the number of mailboxes that hold it plus the number of
  references consumers took and have not released, and a frame is on the free list exactly when
  both are zero. So no frame leaks and none is recycled while someone can read it.
\<close>

theorem hub_reference_accounting:
  assumes "frame_hub_create ok cap n = Some h0" and "hub_run (h0, \<lambda>_. 0) (h, held)" and "k < n"
  shows "refcount (frames (pool h) ! k) = int (slot_refs (consumers h) k + held k) \<and>
    (int k \<in> set (free_frames (pool h)) \<longleftrightarrow> slot_refs (consumers h) k = 0 \<and> held k = 0)"
proof -
  have "fcount (pool h0) = n" using assms(1) create_inv(2)
    by (auto simp: frame_hub_create_def split: if_splits option.splits)
  moreover have "hub_ok (h, held) \<and> fcount (pool h) = fcount (pool h0)"
    using hub_run_safe [OF assms(2)] create_hub_inv [OF assms(1)] by (simp add: hub_ok_def)
  ultimately have P: "pool_inv (pool h)" "k < fcount (pool h)"
    "refs (pool h) k = slot_refs (consumers h) k + held k"
    using assms(3) by (auto simp: hub_ok_def hub_inv_def)
  then show ?thesis using refs_zero_free [OF P(1,2)] by (auto simp: refs_def pool_inv_def)
qed

lemma hub_reference_accounting_witness:
  "refcount (frames (pool demo_pub) ! 1) = int (slot_refs (consumers demo_pub) 1 + 0) \<and>
   (int 1 \<in> set (free_frames (pool demo_pub)) \<longleftrightarrow> slot_refs (consumers demo_pub) 1 = 0 \<and> (0::nat) = 0)"
  using hub_reference_accounting [OF demo_start(1) demo_run, of 1] by simp

text \<open>
  Publishing a picture that fits puts it in the mailbox of every consumer: each of them takes
  the same frame next, its metadata is the one given and its bytes are the picture's, whatever older
  frame the consumer had not taken.
\<close>

lemma publish_delivers_newest:
  assumes "hub_ok (h, held)" and "0 < length d" and "length d \<le> capacity (pool h)"
    and "\<exists>k < fcount (pool h). refs (pool h) k = 0"
  shows "\<exists>h' k. frame_hub_publish h (Some d) w hgt fmt str sq ts = Some (0, h') \<and> refs (pool h) k = 0 \<and>
    frame_view h' k = ((w, hgt, fmt, str, length d, sq, ts), d) \<and>
    (\<forall>c. find_consumer h c \<noteq> None \<longrightarrow> snd (frame_hub_take h' c) = Some k)"
proof -
  have inv: "hub_inv held h" and fits: "hub_fits h" using assms(1) by (simp_all add: hub_ok_def)
  have "pool_inv (pool h)" using inv by (simp add: hub_inv_def)
  from fpool.acquire_total [OF this assms(4)] obtain p1 k where acq: "frame_pool_acquire (pool h) = (p1, Some k)"
    by blast
  obtain h' where P: "frame_hub_publish h (Some d) w hgt fmt str sq ts = Some (0, h')" "refs (pool h) k = 0"
    "consumers h' = map (\<lambda>c. c\<lparr>slot := Some k\<rparr>) (consumers h)"
    "frame_meta (pool h') k = (w, hgt, fmt, str, length d, sq, ts)" "frame_bytes (pool h') k = d"
    by (rule publish_spec [OF inv fits assms(2,3) acq])
  have "find_consumer h' c = map_option (\<lambda>c. c\<lparr>slot := Some k\<rparr>) (find_consumer h c)" for c
    unfolding find_consumer_def P(3) by (rule find_map_slot)
  then show ?thesis using P by (auto simp: frame_view_def frame_hub_take_def)
qed

lemma publish_delivers_newest_witness:
  "\<exists>h' k. frame_hub_publish demo_hub (Some [5, 6]) 1 1 7 2 0 50 = Some (0, h') \<and> refs (pool demo_hub) k = 0 \<and>
    frame_view h' k = ((1, 1, 7, 2, length [5, 6 :: u8], 0, 50), [5, 6]) \<and>
    (\<forall>c. find_consumer demo_hub c \<noteq> None \<longrightarrow> snd (frame_hub_take h' c) = Some k)"
proof (rule publish_delivers_newest [OF demo_start(2)])
  have "fcount (pool demo_hub) = 2" "refs (pool demo_hub) 0 = 0" by (simp_all add: demo_defs refs_def)
  then show "\<exists>k < fcount (pool demo_hub). refs (pool demo_hub) k = 0" by (intro exI [of _ 0]) simp
qed (simp_all add: demo_defs)

text \<open>
  C1. A consumer that has taken a frame reads the same bytes and the same metadata until it
  releases it, whatever the producer and the other consumers do meanwhile: its memory is not reused.
\<close>

theorem held_frame_is_stable:
  assumes "frame_hub_create ok cap n = Some h0" and "hub_run (h0, \<lambda>_. 0) s" and "hub_hold k s t"
  shows "frame_view (fst t) k = frame_view (fst s) k \<and> int k \<notin> set (free_frames (pool (fst t)))"
proof -
  have ok: "hub_ok s" using hub_run_safe [OF assms(2)] create_hub_inv [OF assms(1)] by (simp add: hub_ok_def)
  from hub_hold_safe [OF assms(3) ok] have T: "hub_ok t" "0 < snd t k"
    "frame_view (fst t) k = frame_view (fst s) k" by auto
  then have r: "0 < refs (pool (fst t)) k" and i: "pool_inv (pool (fst t))"
    by (auto simp: hub_ok_def hub_inv_def)
  then have "k < fcount (pool (fst t))" by (cases "k < fcount (pool (fst t))") auto
  with refs_zero_free [OF i this] r T(3) show ?thesis by simp
qed

lemma held_frame_is_stable_witness:
  "let s = (fst (frame_hub_take demo_pub 0), (\<lambda>_. 0)(1 := Suc 0));
       t = (frame_hub_unsubscribe (fst s) 0, snd s)
   in frame_view (fst t) 1 = frame_view (fst s) 1 \<and> int 1 \<notin> set (free_frames (pool (fst t)))"
proof -
  have tk: "frame_hub_take demo_pub 0 = (fst (frame_hub_take demo_pub 0), Some 1)"
    by (simp add: demo_defs Let_def numeral_2_eq_2)
  have run: "hub_run (demo_hub, \<lambda>_. 0) (fst (frame_hub_take demo_pub 0), (\<lambda>_. 0)(1 := Suc 0))"
    by (rule hub_more [OF demo_run hub_step.take_some [OF tk]])
  have "hub_hold 1 (fst (frame_hub_take demo_pub 0), (\<lambda>_. 0)(1 := Suc 0))
      (frame_hub_unsubscribe (fst (frame_hub_take demo_pub 0)) 0, (\<lambda>_. 0)(1 := Suc 0))"
    by (rule hold_more [OF hold_refl hub_step.unsubscribe]) simp_all
  from held_frame_is_stable [OF demo_start(1) run this] show ?thesis by (simp add: Let_def)
qed

text \<open>
  C3. The producer is never starved by slow readers: as long as the pool has more frames than there
  are consumers plus frames held, publishing a picture that fits succeeds, and it keeps the
  invariant of the hub.
\<close>

theorem publish_never_starves:
  assumes "hub_ok (h, held)" and "0 < length d" and "length d \<le> capacity (pool h)"
    and "length (consumers h) + card {k. 0 < held k} < fcount (pool h)"
  shows "\<exists>h'. frame_hub_publish h (Some d) w hgt fmt str sq ts = Some (0, h') \<and> hub_ok (h', held)"
proof -
  have inv: "hub_inv held h" and fits: "hub_fits h" using assms(1) by (simp_all add: hub_ok_def)
  then have p: "pool_inv (pool h)" by (simp add: hub_inv_def)
  obtain p1 k where acq: "frame_pool_acquire (pool h) = (p1, Some k)"
    using fpool.acquire_total [OF p referenced_few [OF inv assms(4)]] by blast
  obtain h' where P: "frame_hub_publish h (Some d) w hgt fmt str sq ts = Some (0, h')" "hub_inv held h'"
      "hub_fits h'"
    by (rule publish_spec [OF inv fits assms(2,3) acq])
  then show ?thesis by (auto simp: hub_ok_def)
qed

lemma publish_never_starves_witness:
  "\<exists>h'. frame_hub_publish demo_sub (Some [1, 2, 3]) 2 1 7 2 9 100 = Some (0, h') \<and> hub_ok (h', \<lambda>_. 0)"
proof (rule publish_never_starves)
  show "hub_ok (demo_sub, \<lambda>_. 0)"
    using hub_run_safe [OF hub_more [OF hub_refl hub_step.subscribe] demo_start(2)] by (simp add: demo_sub_def)
qed (simp_all add: demo_defs)

text \<open>
  C4. Destroying a hub unsubscribes every consumer, ends, and leaves references only on the frames
  that readers still hold.
\<close>

theorem destroy_releases_mailboxes:
  assumes "hub_ok (h, held)"
  shows "consumers (hub_drain h) = [] \<and> refs (pool (hub_drain h)) = held \<and> pool_inv (pool (hub_drain h))"
  using hub_drain_spec [of held h] assms by (auto simp: hub_ok_def hub_inv_def)

lemma destroy_releases_mailboxes_witness:
  "consumers (hub_drain demo_pub) = [] \<and> refs (pool (hub_drain demo_pub)) = (\<lambda>_. 0) \<and>
   pool_inv (pool (hub_drain demo_pub))"
  by (rule destroy_releases_mailboxes) (use hub_run_safe [OF demo_run demo_start(2)] in simp)

end
