(* ===== verification/Newest_Queue.thy ===== *)
theory Newest_Queue
  imports Prelude
begin

text \<open>
  The contract two components of the program share: a bounded queue that, when it is full, drops its
  oldest item to make room for a new one. The ring of access units (\<^verbatim>\<open>src/media/au_ring.c\<close>) and the
  receive queue of the DTLS engine (\<^verbatim>\<open>src/webrtc/dtls_srtp.c\<close>) both implement it.
\<close>

section \<open>A bounded queue that keeps the newest items\<close>

definition push_newest :: "nat \<Rightarrow> 'a list \<Rightarrow> 'a \<Rightarrow> 'a list" where
  "push_newest n q x = (if length q = n then tl q else q) @ [x]"

definition keep_last :: "nat \<Rightarrow> 'a list \<Rightarrow> 'a list" where
  "keep_last n xs = drop (length xs - n) xs"

lemma keep_last_short: "length xs \<le> n \<Longrightarrow> keep_last n xs = xs"
  by (simp add: keep_last_def)

lemma push_newest_keep:
  assumes "0 < n" "length q \<le> n"
  shows "push_newest n q x = keep_last n (q @ [x])"
  using assms by (auto simp: push_newest_def keep_last_def drop_Suc)

lemma keep_last_twice: "keep_last n (keep_last n xs @ ys) = keep_last n (xs @ ys)"
  by (cases "length xs \<le> n") (simp_all add: keep_last_def add.commute)

locale newest_queue =
  fixes contents :: "'s \<Rightarrow> 'a list"
    and bound :: "'s \<Rightarrow> nat"
    and fits :: "'s \<Rightarrow> 'a \<Rightarrow> bool"
    and push :: "'s \<Rightarrow> 'a \<Rightarrow> 's"
    and pop :: "'s \<Rightarrow> 's"
    and invar :: "'s \<Rightarrow> bool"
  assumes bounded: "invar s \<Longrightarrow> 0 < bound s \<and> length (contents s) \<le> bound s"
    and push_law: "invar s \<Longrightarrow> fits s x \<Longrightarrow> invar (push s x) \<and> bound (push s x) = bound s \<and>
      fits (push s x) = fits s \<and> contents (push s x) = push_newest (bound s) (contents s) x"
    and pop_law: "invar s \<Longrightarrow> contents s \<noteq> [] \<Longrightarrow> invar (pop s) \<and> bound (pop s) = bound s \<and>
      fits (pop s) = fits s \<and> contents (pop s) = tl (contents s)"
begin

text \<open>Pushing a run of items leaves the newest ones, in order.\<close>

lemma push_all:
  assumes "invar s" "\<forall>x \<in> set xs. fits s x"
  shows "invar (foldl push s xs) \<and> bound (foldl push s xs) = bound s \<and>
    contents (foldl push s xs) = keep_last (bound s) (contents s @ xs)"
  using assms
proof (induction xs arbitrary: s)
  case Nil
  then show ?case using bounded [of s] by (simp add: keep_last_short)
next
  case (Cons x xs)
  then have P: "invar (push s x)" "bound (push s x) = bound s" "fits (push s x) = fits s"
    "contents (push s x) = keep_last (bound s) (contents s @ [x])"
    using push_law [of s x] push_newest_keep [of "bound s" "contents s" x] bounded [of s] by auto
  have "keep_last (bound s) (keep_last (bound s) (contents s @ [x]) @ xs) =
      keep_last (bound s) (contents s @ x # xs)"
    using keep_last_twice [of "bound s" "contents s @ [x]" xs] by simp
  then show ?case using Cons.IH [of "push s x"] Cons.prems P by simp
qed

lemma pop_all:
  assumes "invar s" "n \<le> length (contents s)"
  shows "invar ((pop ^^ n) s) \<and> contents ((pop ^^ n) s) = drop n (contents s)"
  using assms
proof (induction n)
  case (Suc n)
  then have "invar ((pop ^^ n) s)" "contents ((pop ^^ n) s) = drop n (contents s)" by auto
  moreover have "drop n (contents s) \<noteq> []" using Suc.prems by simp
  ultimately show ?case using pop_law [of "(pop ^^ n) s"] by (simp add: drop_Suc tl_drop)
qed simp

end

section \<open>Ring indices\<close>

lemma mod_add_distinct:
  assumes "i < n" "j < n" "(a + i) mod n = (a + j) mod n"
  shows "i = (j::nat)"
proof -
  have "x = y" if "x \<le> y" "y < n" "(a + y) mod n = (a + x) mod n" for x y
  proof -
    from that have "n dvd (a + y) - (a + x)" by (simp add: mod_eq_dvd_iff_nat)
    then show ?thesis using that by (auto dest: dvd_imp_le)
  qed
  from this [of i j] this [of j i] assms show ?thesis by (metis nat_le_linear)
qed

end
