(* ===== verification/Au_Ring.thy ===== *)
theory Au_Ring
  imports Newest_Queue
begin

text \<open>
  The ring of encoded access units of \<^verbatim>\<open>src/media/au_ring.c\<close>: a flat block of \<open>slot_count\<close> slots,
  a read index, a write index, a fill count and two counters. The producer overwrites the oldest
  access unit when the ring is full. \<open>au_contents\<close> is the abstract queue the ring stands for, and
  the ring is an interpretation of the locale \<open>newest_queue\<close>.
\<close>

section \<open>State and operations\<close>

record au_meta =
  au_pts :: u64
  au_seq :: u64
  au_idr :: int
  au_size :: nat

record au_ring =
  ring_backing :: bytes
  ring_meta :: "au_meta list"
  slot_capacity :: nat
  slot_count :: nat
  ring_head :: nat
  ring_tail :: nat
  ring_count :: nat
  ring_dropped :: u64
  ring_sequence :: u64

text \<open>\<open>junk\<close> is the uninitialised memory \<^verbatim>\<open>malloc\<close> returns.\<close>

definition au_ring_create :: "bool \<Rightarrow> (nat \<Rightarrow> u8) \<Rightarrow> nat \<Rightarrow> nat \<Rightarrow> au_ring option" where
  "au_ring_create alloc_ok junk cap n =
     (if cap = 0 \<or> n = 0 then None
      else if \<not> alloc_ok then None
      else Some \<lparr>ring_backing = map junk [0..<cap * n],
                 ring_meta = replicate n \<lparr>au_pts = 0, au_seq = 0, au_idr = 0, au_size = 0\<rparr>,
                 slot_capacity = cap, slot_count = n, ring_head = 0, ring_tail = 0, ring_count = 0,
                 ring_dropped = 0, ring_sequence = 0\<rparr>)"

definition ring_make_room :: "au_ring \<Rightarrow> au_ring" where
  "ring_make_room r =
     (if ring_count r = slot_count r
      then r\<lparr>ring_head := (ring_head r + 1) mod slot_count r, ring_count := ring_count r - 1,
             ring_dropped := ring_dropped r + 1\<rparr>
      else r)"

definition au_ring_push :: "au_ring \<Rightarrow> bytes option \<Rightarrow> u64 \<Rightarrow> int \<Rightarrow> (int \<times> au_ring) option" where
  "au_ring_push r data pts idr =
     (case data of
        None \<Rightarrow> Some (- 1, r)
      | Some d \<Rightarrow>
          if length d = 0 \<or> length d > slot_capacity r then Some (- 1, r)
          else
            let r1 = ring_make_room r; tail = ring_tail r1 in
            do {
              mem \<leftarrow> wr (ring_backing r1) (tail * slot_capacity r1) d;
              Some (0, r1\<lparr>ring_backing := mem,
                          ring_meta := (ring_meta r1)[tail :=
                            \<lparr>au_pts = pts, au_seq = ring_sequence r1, au_idr = idr, au_size = length d\<rparr>],
                          ring_sequence := ring_sequence r1 + 1,
                          ring_tail := (tail + 1) mod slot_count r1,
                          ring_count := ring_count r1 + 1\<rparr>)
            })"

text \<open>
  \<open>buffer\<close> is the destination and \<open>cap\<close> the capacity the caller declares for it. The result carries
  the return code, the ring, the buffer and the metadata written, if any.
\<close>

definition ring_advance :: "au_ring \<Rightarrow> au_ring" where
  "ring_advance r = r\<lparr>ring_head := (ring_head r + 1) mod slot_count r, ring_count := ring_count r - 1\<rparr>"

definition au_ring_pop :: "au_ring \<Rightarrow> bytes \<Rightarrow> nat \<Rightarrow> (int \<times> au_ring \<times> bytes \<times> au_meta option) option" where
  "au_ring_pop r buffer cap =
     (if ring_count r = 0 then Some (0, r, buffer, None)
      else
        let head = ring_head r; m = ring_meta r ! head in
        if au_size m \<le> cap then
          do {
            d \<leftarrow> rdn (ring_backing r) (head * slot_capacity r) (au_size m);
            buffer' \<leftarrow> wr buffer 0 d;
            Some (1, ring_advance r, buffer', Some m)
          }
        else Some (0, ring_advance r, buffer, None))"

section \<open>The queue a ring stands for\<close>

definition slot_item :: "au_ring \<Rightarrow> nat \<Rightarrow> bytes \<times> u64 \<times> int" where
  "slot_item r j = (let m = ring_meta r ! j in
     (take (au_size m) (drop (j * slot_capacity r) (ring_backing r)), au_pts m, au_idr m))"

definition slot_at :: "au_ring \<Rightarrow> nat \<Rightarrow> nat" where
  "slot_at r i = (ring_head r + i) mod slot_count r"

definition au_contents :: "au_ring \<Rightarrow> (bytes \<times> u64 \<times> int) list" where
  "au_contents r = map (\<lambda>i. slot_item r (slot_at r i)) [0..<ring_count r]"

text \<open>
  Besides the shape of the ring, the sequence numbers of the access units in it are consecutive and
  end right below the next one.
\<close>

definition ring_inv :: "au_ring \<Rightarrow> bool" where
  "ring_inv r \<longleftrightarrow> 0 < slot_capacity r \<and> 0 < slot_count r \<and>
     length (ring_backing r) = slot_capacity r * slot_count r \<and> length (ring_meta r) = slot_count r \<and>
     ring_head r < slot_count r \<and> ring_count r \<le> slot_count r \<and>
     ring_tail r = (ring_head r + ring_count r) mod slot_count r \<and>
     (\<forall>i < ring_count r. au_size (ring_meta r ! slot_at r i) \<le> slot_capacity r \<and>
        au_seq (ring_meta r ! slot_at r i) = ring_sequence r - of_nat (ring_count r - i))"

definition au_fits :: "au_ring \<Rightarrow> bytes \<times> u64 \<times> int \<Rightarrow> bool" where
  "au_fits r x = (0 < length (fst x) \<and> length (fst x) \<le> slot_capacity r)"

definition au_push :: "au_ring \<Rightarrow> bytes \<times> u64 \<times> int \<Rightarrow> au_ring" where
  "au_push r x = (case x of (d, pts, idr) \<Rightarrow> snd (the (au_ring_push r (Some d) pts idr)))"

lemma slot_at_less: "ring_inv r \<Longrightarrow> slot_at r i < slot_count r"
  by (simp add: ring_inv_def slot_at_def)

lemma slot_at_Suc: "slot_at r (Suc i) = (Suc (ring_head r) mod slot_count r + i) mod slot_count r"
  by (simp add: slot_at_def mod_simps)

lemma contents_length [simp]: "length (au_contents r) = ring_count r"
  by (simp add: au_contents_def)

lemma contents_nonempty: "au_contents r \<noteq> [] \<longleftrightarrow> ring_count r \<noteq> 0"
  by (simp add: au_contents_def)

lemma advance_frame:
  "slot_count (ring_advance r) = slot_count r" "slot_capacity (ring_advance r) = slot_capacity r"
  by (simp_all add: ring_advance_def)

lemma advance_inv:
  assumes inv: "ring_inv r" and ne: "ring_count r \<noteq> 0"
  shows "ring_inv (ring_advance r) \<and> au_contents (ring_advance r) = tl (au_contents r)"
proof -
  have at: "slot_at (ring_advance r) i = slot_at r (Suc i)" for i
    unfolding slot_at_Suc by (simp add: slot_at_def ring_advance_def)
  obtain c where c: "ring_count r = Suc c" using ne by (cases "ring_count r") auto
  have "(ring_head r + ring_count r) mod slot_count r =
      (Suc (ring_head r) mod slot_count r + (ring_count r - 1)) mod slot_count r"
    using c by (simp add: mod_simps)
  then have "ring_inv (ring_advance r)"
    using inv c unfolding ring_inv_def at by (auto simp: ring_advance_def)
  moreover have "[0..<ring_count r] = 0 # map Suc [0..<c]" using c by (simp add: map_Suc_upt upt_conv_Cons)
  then have "au_contents (ring_advance r) = tl (au_contents r)"
    using c unfolding au_contents_def at by (simp add: ring_advance_def slot_item_def o_def)
  ultimately show ?thesis by simp
qed

lemma make_room_inv:
  assumes inv: "ring_inv r"
  shows "ring_inv (ring_make_room r) \<and> ring_count (ring_make_room r) < slot_count r \<and>
    au_contents (ring_make_room r) =
      (if length (au_contents r) = slot_count r then tl (au_contents r) else au_contents r)"
proof (cases "ring_count r = slot_count r")
  case True
  have eq: "ring_make_room r = (ring_advance r)\<lparr>ring_dropped := ring_dropped r + 1\<rparr>"
    using True by (simp add: ring_make_room_def ring_advance_def)
  have "0 < slot_count r" using inv by (simp add: ring_inv_def)
  with advance_inv [OF inv] True show ?thesis
    unfolding eq by (auto simp: ring_inv_def au_contents_def slot_item_def slot_at_def ring_advance_def)
qed (use inv in \<open>auto simp: ring_make_room_def ring_inv_def\<close>)

lemma make_room_frame [simp]:
  "slot_capacity (ring_make_room r) = slot_capacity r" "slot_count (ring_make_room r) = slot_count r"
  "ring_sequence (ring_make_room r) = ring_sequence r"
  by (simp_all add: ring_make_room_def)

text \<open>Writing one access unit behind the last one of a ring that has room.\<close>

lemma ring_store:
  assumes inv: "ring_inv r" and room: "ring_count r < slot_count r"
    and d: "length d \<le> slot_capacity r"
  obtains mem where "wr (ring_backing r) (ring_tail r * slot_capacity r) d = Some mem"
    and "let r' = r\<lparr>ring_backing := mem,
           ring_meta := (ring_meta r)[ring_tail r :=
             \<lparr>au_pts = pts, au_seq = ring_sequence r, au_idr = idr, au_size = length d\<rparr>],
           ring_sequence := ring_sequence r + 1,
           ring_tail := (ring_tail r + 1) mod slot_count r, ring_count := ring_count r + 1\<rparr>
         in ring_inv r' \<and> au_contents r' = au_contents r @ [(d, pts, idr)]"
proof -
  have I: "0 < slot_count r" "length (ring_backing r) = slot_capacity r * slot_count r"
    "length (ring_meta r) = slot_count r" "ring_tail r = slot_at r (ring_count r)"
    using inv by (auto simp: ring_inv_def slot_at_def)
  have t: "ring_tail r < slot_count r" using I(4) slot_at_less [OF inv] by simp
  then have "Suc (ring_tail r) * slot_capacity r \<le> slot_count r * slot_capacity r"
    by (intro mult_le_mono1) simp
  then have "ring_tail r * slot_capacity r + length d \<le> length (ring_backing r)"
    using I(2) d by (simp add: mult.commute)
  then obtain mem where mem: "wr (ring_backing r) (ring_tail r * slot_capacity r) d = Some mem"
    using wr_defined by blast
  define r' where "r' = r\<lparr>ring_backing := mem,
           ring_meta := (ring_meta r)[ring_tail r :=
             \<lparr>au_pts = pts, au_seq = ring_sequence r, au_idr = idr, au_size = length d\<rparr>],
           ring_sequence := ring_sequence r + 1,
           ring_tail := (ring_tail r + 1) mod slot_count r, ring_count := ring_count r + 1\<rparr>"
  have at: "slot_at r' i = slot_at r i" for i by (simp add: r'_def slot_at_def)
  have ne: "slot_at r i \<noteq> ring_tail r" if "i < ring_count r" for i
    using that room mod_add_distinct [of i "slot_count r" "ring_count r" "ring_head r"] I(4)
    by (auto simp: slot_at_def)
  have old: "slot_item r' j = slot_item r j"
    if j: "j \<noteq> ring_tail r" "au_size (ring_meta r ! j) \<le> slot_capacity r" for j
  proof -
    have "j * slot_capacity r + au_size (ring_meta r ! j) \<le> ring_tail r * slot_capacity r \<or>
        ring_tail r * slot_capacity r + length d \<le> j * slot_capacity r"
    proof (cases "j < ring_tail r")
      case True
      then have "Suc j * slot_capacity r \<le> ring_tail r * slot_capacity r" by (intro mult_le_mono1) simp
      with j show ?thesis by simp
    next
      case False
      then have "Suc (ring_tail r) * slot_capacity r \<le> j * slot_capacity r" using j by (intro mult_le_mono1) simp
      with d show ?thesis by simp
    qed
    then show ?thesis using j(1) wr_read_other [OF mem] by (simp add: slot_item_def r'_def Let_def)
  qed
  have new: "slot_item r' (ring_tail r) = (d, pts, idr)"
    using t I(3) wr_read_same [OF mem] by (simp add: slot_item_def r'_def)
  have "au_contents r' = au_contents r @ [(d, pts, idr)]"
    using ne old new inv I(4) unfolding au_contents_def at
    by (auto simp: r'_def ring_inv_def)
  moreover have "ring_inv r'"
    unfolding ring_inv_def
  proof (intro conjI allI impI)
    fix i assume i: "i < ring_count r'"
    show "au_size (ring_meta r' ! slot_at r' i) \<le> slot_capacity r'"
      using i t inv I(3,4) d ne [of i] unfolding at
      by (cases "i = ring_count r") (auto simp: r'_def ring_inv_def)
    show "au_seq (ring_meta r' ! slot_at r' i) = ring_sequence r' - of_nat (ring_count r' - i)"
      using i t inv I(3,4) ne [of i] unfolding at
      by (cases "i = ring_count r") (auto simp: r'_def ring_inv_def Suc_diff_le)
  qed (use inv room I wr_length [OF mem] in \<open>auto simp: r'_def ring_inv_def mod_simps\<close>)
  ultimately show thesis using that [OF mem] by (simp add: Let_def r'_def)
qed

lemma push_ring:
  assumes inv: "ring_inv r" and d: "0 < length d" "length d \<le> slot_capacity r"
  obtains r' where "au_ring_push r (Some d) pts idr = Some (0, r')" "ring_inv r'"
    "au_contents r' = push_newest (slot_count r) (au_contents r) (d, pts, idr)"
    "slot_count r' = slot_count r" "slot_capacity r' = slot_capacity r"
proof -
  note R = make_room_inv [OF inv]
  let ?r = "ring_make_room r"
  obtain mem where mem: "wr (ring_backing ?r) (ring_tail ?r * slot_capacity ?r) d = Some mem"
    and S: "let r' = ?r\<lparr>ring_backing := mem,
           ring_meta := (ring_meta ?r)[ring_tail ?r :=
             \<lparr>au_pts = pts, au_seq = ring_sequence ?r, au_idr = idr, au_size = length d\<rparr>],
           ring_sequence := ring_sequence ?r + 1,
           ring_tail := (ring_tail ?r + 1) mod slot_count ?r, ring_count := ring_count ?r + 1\<rparr>
         in ring_inv r' \<and> au_contents r' = au_contents ?r @ [(d, pts, idr)]"
    by (rule ring_store [of ?r d pts idr]) (use R d in auto)
  define r' where "r' = ?r\<lparr>ring_backing := mem,
           ring_meta := (ring_meta ?r)[ring_tail ?r :=
             \<lparr>au_pts = pts, au_seq = ring_sequence ?r, au_idr = idr, au_size = length d\<rparr>],
           ring_sequence := ring_sequence ?r + 1,
           ring_tail := (ring_tail ?r + 1) mod slot_count ?r, ring_count := ring_count ?r + 1\<rparr>"
  have S': "ring_inv r'" "au_contents r' = au_contents ?r @ [(d, pts, idr)]"
    using S by (simp_all only: Let_def r'_def)
  have "au_ring_push r (Some d) pts idr = Some (0, r')"
    using mem d by (simp add: au_ring_push_def Let_def r'_def)
  then show thesis
    by (rule that) (use S' R in \<open>auto simp: push_newest_def r'_def\<close>)
qed

lemma au_push_eq: "au_ring_push r (Some d) pts idr = Some (rc, r') \<Longrightarrow> au_push r (d, pts, idr) = r'"
  by (simp add: au_push_def)

interpretation auq: newest_queue au_contents slot_count au_fits au_push ring_advance ring_inv
proof unfold_locales
  fix s :: au_ring and x :: "bytes \<times> u64 \<times> int"
  show "ring_inv s \<Longrightarrow> 0 < slot_count s \<and> length (au_contents s) \<le> slot_count s"
    by (simp add: ring_inv_def)
  show "ring_inv s \<Longrightarrow> au_contents s \<noteq> [] \<Longrightarrow> ring_inv (ring_advance s) \<and>
      slot_count (ring_advance s) = slot_count s \<and> au_fits (ring_advance s) = au_fits s \<and>
      au_contents (ring_advance s) = tl (au_contents s)"
    using advance_inv [of s] contents_nonempty [of s] by (simp add: advance_frame fun_eq_iff au_fits_def)
  obtain d pts idr where x: "x = (d, pts, idr)" by (cases x)
  assume inv: "ring_inv s" and f: "au_fits s x"
  then have d: "0 < length d" "length d \<le> slot_capacity s" by (auto simp: au_fits_def x)
  obtain r' where "au_ring_push s (Some d) pts idr = Some (0, r')" "ring_inv r'"
    "au_contents r' = push_newest (slot_count s) (au_contents s) (d, pts, idr)"
    "slot_count r' = slot_count s" "slot_capacity r' = slot_capacity s"
    by (rule push_ring [OF inv d])
  then show "ring_inv (au_push s x) \<and> slot_count (au_push s x) = slot_count s \<and>
      au_fits (au_push s x) = au_fits s \<and> au_contents (au_push s x) = push_newest (slot_count s) (au_contents s) x"
    by (simp add: x au_push_eq au_fits_def fun_eq_iff)
qed

lemma create_ring_inv: "au_ring_create ok junk cap n = Some r \<Longrightarrow>
    ring_inv r \<and> au_contents r = [] \<and> slot_count r = n \<and> slot_capacity r = cap"
  by (auto simp: au_ring_create_def ring_inv_def au_contents_def split: if_splits)

lemma create_counts: "au_ring_create ok junk cap n = Some r \<Longrightarrow>
    ring_sequence r = 0 \<and> ring_dropped r = 0 \<and> ring_count r = 0"
  by (auto simp: au_ring_create_def split: if_splits)

lemma pop_slot:
  assumes inv: "ring_inv r" and ne: "au_contents r \<noteq> []"
  shows "rdn (ring_backing r) (ring_head r * slot_capacity r) (au_size (ring_meta r ! ring_head r))
      = Some (fst (hd (au_contents r)))"
    and "length (fst (hd (au_contents r))) = au_size (ring_meta r ! ring_head r)"
    and "hd (au_contents r) = slot_item r (ring_head r)"
proof -
  have c: "0 < ring_count r" using ne contents_nonempty [of r] by simp
  have h: "ring_head r < slot_count r" "slot_at r 0 = ring_head r" using inv by (auto simp: ring_inv_def slot_at_def)
  then have sz: "au_size (ring_meta r ! ring_head r) \<le> slot_capacity r"
    using inv c by (auto simp: ring_inv_def)
  have "Suc (ring_head r) * slot_capacity r \<le> slot_count r * slot_capacity r"
    using h by (intro mult_le_mono1) simp
  then have b: "ring_head r * slot_capacity r + au_size (ring_meta r ! ring_head r) \<le> length (ring_backing r)"
    using sz inv by (simp add: ring_inv_def mult.commute)
  show hd: "hd (au_contents r) = slot_item r (ring_head r)"
    using c h by (simp add: au_contents_def upt_conv_Cons)
  show "rdn (ring_backing r) (ring_head r * slot_capacity r) (au_size (ring_meta r ! ring_head r))
      = Some (fst (hd (au_contents r)))"
    using b by (simp add: hd slot_item_def Let_def)
  show "length (fst (hd (au_contents r))) = au_size (ring_meta r ! ring_head r)"
    using b by (simp add: hd slot_item_def Let_def)
qed

text \<open>What the callers rely on: a push stores its unit or changes nothing, a pop into a large enough buffer succeeds.\<close>

lemma push_outcome:
  assumes "ring_inv r" "au_ring_push r data pts idr = Some (rc, r')"
  shows "ring_inv r' \<and> slot_capacity r' = slot_capacity r \<and>
    (if rc = 0 then \<exists>d. data = Some d \<and> d \<noteq> [] \<and> au_contents r' = push_newest (slot_count r) (au_contents r) (d, pts, idr)
     else r' = r)"
proof (cases "\<exists>d. data = Some d \<and> 0 < length d \<and> length d \<le> slot_capacity r")
  case True
  then obtain d where d: "data = Some d" "0 < length d" "length d \<le> slot_capacity r" by blast
  show ?thesis by (rule push_ring [OF assms(1) d(2,3), of pts idr]) (use assms(2) d(1,2) in auto)
next
  case False
  then have "r' = r \<and> rc = - 1" using assms(2) by (auto simp: au_ring_push_def split: option.splits if_splits)
  then show ?thesis using assms(1) by simp
qed

lemma pop_empty: "au_contents r = [] \<Longrightarrow> au_ring_pop r buffer cap = Some (0, r, buffer, None)"
  using contents_nonempty [of r] by (simp add: au_ring_pop_def)

lemma pop_into:
  assumes "ring_inv r" "slot_capacity r \<le> cap" "cap \<le> length buffer" "au_contents r = (d, pts, idr) # q"
  obtains r' m where "au_ring_pop r buffer cap = Some (1, r', d @ drop (length d) buffer,
      Some \<lparr>au_pts = pts, au_seq = m, au_idr = idr, au_size = length d\<rparr>)"
    "ring_inv r'" "au_contents r' = q" "slot_capacity r' = slot_capacity r" "length d \<le> cap"
proof -
  have ne: "au_contents r \<noteq> []" and c: "ring_count r \<noteq> 0" using assms(4) contents_nonempty [of r] by auto
  note P = pop_slot [OF assms(1) ne]
  from advance_inv [OF assms(1) c] assms(4) have A: "ring_inv (ring_advance r)" "au_contents (ring_advance r) = q" by auto
  have m: "au_size (ring_meta r ! ring_head r) = length d" "au_pts (ring_meta r ! ring_head r) = pts"
    "au_idr (ring_meta r ! ring_head r) = idr"
    using P assms(4) by (auto simp: slot_item_def Let_def)
  have "slot_at r 0 = ring_head r" using assms(1) by (simp add: ring_inv_def slot_at_def)
  then have d: "length d \<le> cap" using assms(1,2) c m(1) by (auto simp: ring_inv_def)
  have "ring_meta r ! ring_head r = \<lparr>au_pts = pts, au_seq = au_seq (ring_meta r ! ring_head r), au_idr = idr, au_size = length d\<rparr>"
    using m by simp
  then have "au_ring_pop r buffer cap = Some (1, ring_advance r, d @ drop (length d) buffer,
      Some \<lparr>au_pts = pts, au_seq = au_seq (ring_meta r ! ring_head r), au_idr = idr, au_size = length d\<rparr>)"
    using P(1) assms(3,4) c d m by (simp add: au_ring_pop_def Let_def wr_in)
  from that [OF this A _ d] show thesis by (simp add: advance_frame)
qed

section \<open>Properties\<close>

text \<open>
  C5. Pushing a run of access units into a ring, starting from any state it reaches, leaves in it
  exactly the newest \<open>slot_count\<close> of all access units not yet popped, oldest first: the bytes, the
  presentation time and the IDR flag of each are the ones pushed.
\<close>

theorem ring_keeps_newest:
  assumes "ring_inv r" and "\<forall>x \<in> set xs. 0 < length (fst x) \<and> length (fst x) \<le> slot_capacity r"
  shows "ring_inv (foldl au_push r xs) \<and>
    au_contents (foldl au_push r xs) = keep_last (slot_count r) (au_contents r @ xs)"
  using auq.push_all [of r xs] assms by (simp add: au_fits_def)

definition demo_ring :: au_ring where
  "demo_ring = the (au_ring_create True (\<lambda>_. 0) 3 2)"

lemma demo_ring: "au_ring_create True (\<lambda>_. 0) 3 2 = Some demo_ring" "ring_inv demo_ring"
  "slot_capacity demo_ring = 3" "slot_count demo_ring = 2" "au_contents demo_ring = []"
proof -
  show c: "au_ring_create True (\<lambda>_. 0) 3 2 = Some demo_ring"
    by (simp add: demo_ring_def au_ring_create_def)
  from create_ring_inv [OF c] show "ring_inv demo_ring" "slot_capacity demo_ring = 3"
    "slot_count demo_ring = 2" "au_contents demo_ring = []" by auto
qed

lemma ring_keeps_newest_witness:
  "au_contents (foldl au_push demo_ring [([1], 10, 1), ([2, 3], 20, 0), ([4, 5, 6], 30, 0)]) =
     [([2, 3], 20, 0), ([4, 5, 6], 30, 0)]"
  using ring_keeps_newest [OF demo_ring(2), of "[([1], 10, 1), ([2, 3], 20, 0), ([4, 5, 6], 30, 0)]"]
  by (simp add: demo_ring(3-5) keep_last_def)

text \<open>
  Popping returns the oldest access unit, byte for byte at the start of the caller's buffer with
  its metadata, and removes it. When the access unit is larger than the buffer it is removed all the
  same and the result is 0, the value the header documents for an empty ring. No call reads or
  writes out of bounds when the caller's buffer has the capacity it declares.
\<close>

lemma pop_returns_oldest:
  assumes inv: "ring_inv r" and buf: "cap \<le> length buffer" and q: "au_contents r = (d, pts, idr) # q"
  shows "\<exists>r'. ring_inv r' \<and> au_contents r' = q \<and>
    au_ring_pop r buffer cap =
      (if length d \<le> cap
       then Some (1, r', d @ drop (length d) buffer,
              Some \<lparr>au_pts = pts, au_seq = ring_sequence r - of_nat (length (au_contents r)),
                    au_idr = idr, au_size = length d\<rparr>)
       else Some (0, r', buffer, None))"
proof -
  have ne: "au_contents r \<noteq> []" using q by simp
  note P = pop_slot [OF inv ne]
  have c: "ring_count r \<noteq> 0" using ne contents_nonempty by blast
  from advance_inv [OF inv c] q have A: "ring_inv (ring_advance r)" "au_contents (ring_advance r) = q" by auto
  have m: "au_size (ring_meta r ! ring_head r) = length d" "au_pts (ring_meta r ! ring_head r) = pts"
    "au_idr (ring_meta r ! ring_head r) = idr"
    using P q by (auto simp: slot_item_def Let_def)
  have "slot_at r 0 = ring_head r" using inv by (simp add: ring_inv_def slot_at_def)
  then have "au_seq (ring_meta r ! ring_head r) = ring_sequence r - of_nat (ring_count r)"
    using inv c by (auto simp: ring_inv_def)
  then have meta: "ring_meta r ! ring_head r = \<lparr>au_pts = pts,
      au_seq = ring_sequence r - of_nat (length (au_contents r)), au_idr = idr, au_size = length d\<rparr>"
    using m by simp
  show ?thesis
  proof (intro exI [of _ "ring_advance r"] conjI A)
    show "au_ring_pop r buffer cap =
      (if length d \<le> cap
       then Some (1, ring_advance r, d @ drop (length d) buffer,
              Some \<lparr>au_pts = pts, au_seq = ring_sequence r - of_nat (length (au_contents r)),
                    au_idr = idr, au_size = length d\<rparr>)
       else Some (0, ring_advance r, buffer, None))"
      using P(1) q c buf m by (simp add: au_ring_pop_def Let_def wr_in meta)
  qed
qed

lemma pop_example:
  "\<exists>r'. ring_inv r' \<and> au_contents r' = [] \<and>
    au_ring_pop (au_push demo_ring ([7, 8], 5, 1)) [0, 0, 0] 3 =
      Some (1, r', [7, 8, 0], Some \<lparr>au_pts = 5, au_seq = 0, au_idr = 1, au_size = 2\<rparr>)"
proof -
  have "ring_inv (au_push demo_ring ([7, 8], 5, 1)) \<and> au_contents (au_push demo_ring ([7, 8], 5, 1)) = [([7, 8], 5, 1)]"
    using auq.push_law [of demo_ring "([7, 8], 5, 1)"] demo_ring by (simp add: au_fits_def push_newest_def)
  then have i: "ring_inv (au_push demo_ring ([7, 8], 5, 1))"
    and q: "au_contents (au_push demo_ring ([7, 8], 5, 1)) = [([7, 8], 5, 1)]" by auto
  have s: "ring_sequence (au_push demo_ring ([7, 8], 5, 1)) = 1"
    by (simp add: au_push_def au_ring_push_def ring_make_room_def demo_ring_def au_ring_create_def
        wr_def upt_rec)
  show ?thesis using pop_returns_oldest [OF i, of 3 "[0, 0, 0]", OF _ q] by (simp add: q s numeral_2_eq_2)
qed

datatype ring_op = Push bytes u64 int | Pop bytes nat

definition ring_do :: "au_ring \<times> u64 \<Rightarrow> ring_op \<Rightarrow> au_ring \<times> u64" where
  "ring_do s op = (case op of
     Push d pts idr \<Rightarrow> (snd (the (au_ring_push (fst s) (Some d) pts idr)), snd s)
   | Pop buffer cap \<Rightarrow> (fst (snd (the (au_ring_pop (fst s) buffer cap))),
                        if ring_count (fst s) = 0 then snd s else snd s + 1))"

definition op_ok :: "ring_op \<Rightarrow> bool" where
  "op_ok op = (case op of Push d pts idr \<Rightarrow> True | Pop buffer cap \<Rightarrow> cap \<le> length buffer)"

definition accounted :: "au_ring \<times> u64 \<Rightarrow> bool" where
  "accounted s \<longleftrightarrow> ring_inv (fst s) \<and>
     ring_sequence (fst s) = ring_dropped (fst s) + snd s + of_nat (ring_count (fst s))"

lemma pop_state:
  assumes "ring_inv r" "cap \<le> length buffer" "ring_count r \<noteq> 0"
  shows "fst (snd (the (au_ring_pop r buffer cap))) = ring_advance r"
proof -
  have ne: "au_contents r \<noteq> []" using assms(3) contents_nonempty by blast
  show ?thesis using pop_slot [OF assms(1) ne] assms by (auto simp: au_ring_pop_def Let_def wr_in)
qed

lemma push_counts:
  assumes inv: "ring_inv r" and d: "0 < length d" "length d \<le> slot_capacity r"
    and r: "au_ring_push r (Some d) pts idr = Some (0, r')"
  shows "ring_sequence r' = ring_sequence r + 1 \<and>
    ring_dropped r' + of_nat (ring_count r') = ring_dropped r + of_nat (ring_count r) + 1"
proof -
  have "0 < slot_count r" using inv by (simp add: ring_inv_def)
  then have "ring_dropped (ring_make_room r) + of_nat (ring_count (ring_make_room r)) =
      ring_dropped r + of_nat (ring_count r)"
    by (auto simp: ring_make_room_def of_nat_diff)
  moreover have "ring_sequence r' = ring_sequence (ring_make_room r) + 1 \<and>
      ring_dropped r' = ring_dropped (ring_make_room r) \<and> ring_count r' = ring_count (ring_make_room r) + 1"
    using r d by (auto simp: au_ring_push_def Let_def split: bind_splits)
  ultimately show ?thesis by simp
qed

lemma ring_do_accounted: "accounted s \<Longrightarrow> op_ok op \<Longrightarrow> accounted (ring_do s op)"
proof (cases op)
  case (Push d pts idr)
  assume a: "accounted s"
  then have inv: "ring_inv (fst s)" by (simp add: accounted_def)
  show ?thesis
  proof (cases "0 < length d \<and> length d \<le> slot_capacity (fst s)")
    case True
    then obtain r' where R: "au_ring_push (fst s) (Some d) pts idr = Some (0, r')" "ring_inv r'"
      using push_ring [OF inv, of d pts idr] by blast
    have "ring_sequence r' = ring_sequence (fst s) + 1 \<and>
      ring_dropped r' + of_nat (ring_count r') = ring_dropped (fst s) + of_nat (ring_count (fst s)) + 1"
      by (rule push_counts [OF inv _ _ R(1)]) (use True in auto)
    then show ?thesis using a R by (simp add: ring_do_def Push accounted_def algebra_simps)
  next
    case False
    then show ?thesis using a by (auto simp: ring_do_def Push au_ring_push_def)
  qed
next
  case (Pop buffer cap)
  assume a: "accounted s" and ok: "op_ok op"
  then have inv: "ring_inv (fst s)" by (simp add: accounted_def)
  show ?thesis
  proof (cases "ring_count (fst s) = 0")
    case True
    then show ?thesis using a by (simp add: ring_do_def Pop au_ring_pop_def)
  next
    case False
    have "ring_do s op = (ring_advance (fst s), snd s + 1)"
      using pop_state [OF inv _ False, of cap buffer] ok False by (simp add: ring_do_def Pop op_ok_def)
    moreover obtain c where "ring_count (fst s) = Suc c" using False by (cases "ring_count (fst s)") auto
    ultimately show ?thesis using a advance_inv [OF inv False]
      by (simp add: accounted_def ring_advance_def)
  qed
qed

text \<open>
  The counters of the ring account for every access unit that was ever pushed: the number
  pushed equals the number dropped plus the number popped plus the number in the ring, modulo
  \<open>2 ^ 64\<close> as the counters are.
\<close>

lemma ring_counters_account:
  assumes "au_ring_create ok junk cap n = Some r0" and "\<forall>op \<in> set ops. op_ok op"
    and "foldl ring_do (r0, 0) ops = (r, popped)"
  shows "ring_sequence r = ring_dropped r + popped + of_nat (length (au_contents r))"
proof -
  have "accounted (foldl ring_do s ops)" if "accounted s" "\<forall>op \<in> set ops. op_ok op" for s ops
    using that by (induction ops arbitrary: s) (auto simp: ring_do_accounted)
  moreover have "accounted (r0, 0)"
    using create_counts [OF assms(1)] create_ring_inv [OF assms(1)] by (simp add: accounted_def)
  ultimately have "accounted (r, popped)" using assms(2,3) by metis
  then show ?thesis by (simp add: accounted_def)
qed

lemma ring_counters_account_witness:
  "let s = foldl ring_do (demo_ring, 0) [Push [1] 1 1, Push [2] 2 0, Push [3] 3 0, Pop [0, 0, 0] 3]
   in ring_sequence (fst s) = ring_dropped (fst s) + snd s + of_nat (length (au_contents (fst s)))"
  unfolding Let_def
  by (rule ring_counters_account [OF demo_ring(1) _ surjective_pairing]) (simp add: op_ok_def)

end
