(* ===== verification/Rtp_H264.thy ===== *)
theory Rtp_H264
  imports Prelude
begin

text \<open>
  The RFC 6184 packetizer of \<^verbatim>\<open>src/webrtc/rtp_h264.c\<close>: the Annex-B scanner, single NAL unit packets,
  FU-A fragments, and the counters of the sender reports. The packet sink, a C callback with a
  \<^verbatim>\<open>void *\<close>, is a function on a user state of any type, so that the theorems hold for the sinks of
  the WebRTC session and of the Janus sender alike.

  The 1200 byte buffer on the stack is rebuilt for every packet (bytes 0 and 4 to 11 once per access
  unit, the rest before each call of the sink); a packet is the list of the bytes handed to the sink,
  and that it fits the buffer is \<open>emitted_fit\<close>.
\<close>

section \<open>The Annex-B scanner\<close>

definition sc3 :: "bytes \<Rightarrow> nat \<Rightarrow> bool" where
  "sc3 d i \<longleftrightarrow> i + 3 \<le> length d \<and> d ! i = 0 \<and> d ! (i + 1) = 0 \<and> d ! (i + 2) = 1"

definition sc4 :: "bytes \<Rightarrow> nat \<Rightarrow> bool" where
  "sc4 d i \<longleftrightarrow> i + 4 \<le> length d \<and> d ! i = 0 \<and> d ! (i + 1) = 0 \<and> d ! (i + 2) = 0 \<and> d ! (i + 3) = 1"

text \<open>The two loops of \<^verbatim>\<open>next_nal\<close>: the next start code with its length, and the end of the unit.\<close>

function find_start :: "bytes \<Rightarrow> nat \<Rightarrow> (nat \<times> nat) option" where
  "find_start d i =
     (if i + 3 \<le> length d then
        if sc3 d i then Some (i, 3) else if sc4 d i then Some (i, 4) else find_start d (i + 1)
      else None)"
  by pat_completeness auto
termination by (relation "measure (\<lambda>(d, i). length d - i)") auto

function find_end :: "bytes \<Rightarrow> nat \<Rightarrow> nat" where
  "find_end d e =
     (if e + 3 \<le> length d then
        if sc3 d e then e else if sc4 d e then e else find_end d (e + 1)
      else length d)"
  by pat_completeness auto
termination by (relation "measure (\<lambda>(d, e). length d - e)") auto

declare find_start.simps [simp del] find_end.simps [simp del]

definition next_nal :: "bytes \<Rightarrow> nat \<Rightarrow> (nat \<times> nat) option" where
  "next_nal d cursor =
     (case find_start d cursor of
        None \<Rightarrow> None
      | Some (start, code_len) \<Rightarrow>
          let body = start + code_len; e = find_end d body in Some (body, e - body))"

section \<open>The packetizer\<close>

record rtp_h264 =
  rtp_ssrc :: u32
  rtp_pt :: u32
  rtp_seq :: u16
  rtp_base_pts :: u64
  rtp_have_base :: bool
  rtp_last_ts :: u32
  rtp_packets :: u32
  rtp_octets :: u32

definition rtp_h264_create :: "bool \<Rightarrow> rtp_h264 option" where
  "rtp_h264_create alloc_ok =
     (if alloc_ok then Some \<lparr>rtp_ssrc = 0, rtp_pt = 0, rtp_seq = 0, rtp_base_pts = 0,
        rtp_have_base = False, rtp_last_ts = 0, rtp_packets = 0, rtp_octets = 0\<rparr> else None)"

definition rtp_h264_reset :: "rtp_h264 \<Rightarrow> u32 \<Rightarrow> u32 \<Rightarrow> rtp_h264" where
  "rtp_h264_reset p ssrc pt =
     p\<lparr>rtp_ssrc := ssrc, rtp_pt := pt, rtp_have_base := False, rtp_packets := 0, rtp_octets := 0\<rparr>"

definition RTP_HEADER_SIZE :: nat where "RTP_HEADER_SIZE = 12"
definition RTP_MAX_PACKET :: nat where "RTP_MAX_PACKET = 1200"

definition payload_budget :: nat where
  "payload_budget = RTP_MAX_PACKET - RTP_HEADER_SIZE"

definition rtp_header :: "rtp_h264 \<Rightarrow> u32 \<Rightarrow> bool \<Rightarrow> bytes" where
  "rtp_header p ts marker =
     [0x80, (if marker then 0x80 else 0) OR ucast (rtp_pt p AND 0x7F)] @
     be16 (rtp_seq p) @ be32 ts @ be32 (rtp_ssrc p)"

type_synonym 'u packet_sink = "'u \<Rightarrow> bytes \<Rightarrow> bool \<Rightarrow> u16 \<Rightarrow> 'u"

text \<open>
  One packet: the sequence number is advanced first, the packet is handed to the sink, then the
  counters are advanced.
\<close>

definition emit_packet :: "'u packet_sink \<Rightarrow> u32 \<Rightarrow> bool \<Rightarrow> bytes \<Rightarrow> rtp_h264 \<times> 'u \<Rightarrow> rtp_h264 \<times> 'u" where
  "emit_packet sink ts marker payload s =
     (let p = fst s; p1 = p\<lparr>rtp_seq := rtp_seq p + 1\<rparr>;
          u = sink (snd s) (rtp_header p1 ts marker @ payload) marker (rtp_seq p1)
      in (p1\<lparr>rtp_packets := rtp_packets p1 + 1,
             rtp_octets := rtp_octets p1 + of_nat (length payload)\<rparr>, u))"

definition fu_indicator :: "u8 \<Rightarrow> u8" where
  "fu_indicator h = (h AND 0x60) OR 28"

definition fu_header :: "u8 \<Rightarrow> bool \<Rightarrow> bool \<Rightarrow> u8" where
  "fu_header h first fin = (if first then 0x80 else 0) OR (if fin then 0x40 else 0) OR (h AND 0x1F)"

text \<open>The FU-A loop over the bytes of one NAL unit, from \<open>offset\<close> (1: the header byte is skipped).\<close>

function fu_loop :: "'u packet_sink \<Rightarrow> u32 \<Rightarrow> bytes \<Rightarrow> bool \<Rightarrow> nat \<Rightarrow> nat \<Rightarrow> rtp_h264 \<times> 'u \<Rightarrow>
    nat \<times> rtp_h264 \<times> 'u" where
  "fu_loop sink ts nal has_more offset emitted s =
     (if offset < length nal then
        let chunk = payload_budget - 2;
            rest = length nal - offset;
            (n, fin) = (if rest > chunk then (chunk, False) else (rest, True));
            payload = [fu_indicator (nal ! 0), fu_header (nal ! 0) (offset = 1) fin] @
                      take n (drop offset nal)
        in fu_loop sink ts nal has_more (offset + n) (emitted + 1)
             (emit_packet sink ts (fin \<and> \<not> has_more) payload s)
      else (emitted, s))"
  by pat_completeness auto
termination
  by (relation "measure (\<lambda>(sink, ts, nal, m, offset, n, s). length nal - offset)")
     (auto simp: payload_budget_def RTP_MAX_PACKET_def RTP_HEADER_SIZE_def split: if_splits)

declare fu_loop.simps [simp del]

definition nal_slice :: "bytes \<Rightarrow> nat \<times> nat \<Rightarrow> bytes" where
  "nal_slice d x = take (snd x) (drop (fst x) d)"

definition send_nal :: "'u packet_sink \<Rightarrow> u32 \<Rightarrow> bytes \<Rightarrow> bool \<Rightarrow> nat \<Rightarrow> rtp_h264 \<times> 'u \<Rightarrow> nat \<times> rtp_h264 \<times> 'u" where
  "send_nal sink ts nal has_more emitted s =
     (if length nal \<le> payload_budget
      then (emitted + 1, emit_packet sink ts (\<not> has_more) nal s)
      else fu_loop sink ts nal has_more 1 emitted s)"

definition has_more_at :: "bytes \<Rightarrow> nat \<Rightarrow> bool" where
  "has_more_at d after = (case next_nal d after of None \<Rightarrow> False | Some (_, l) \<Rightarrow> l > 0)"

lemma find_start_Some:
  "find_start d i = Some (s, c) \<Longrightarrow> i \<le> s \<and> s + c \<le> length d \<and> 3 \<le> c"
  by (induction d i rule: find_start.induct)
     (subst (asm) (2) find_start.simps, auto simp: sc3_def sc4_def split: if_splits)

lemma find_end_bound: "e \<le> length d \<Longrightarrow> e \<le> find_end d e \<and> find_end d e \<le> length d"
  by (induction d e rule: find_end.induct) (subst (1 2) find_end.simps, auto)

lemma next_nal_Some:
  "next_nal d c = Some (off, l) \<Longrightarrow> c + 3 \<le> off \<and> off + l \<le> length d"
  using find_end_bound by (force simp: next_nal_def Let_def split: option.splits dest!: find_start_Some)

text \<open>The main loop of \<^verbatim>\<open>rtp_h264_packetize\<close>.\<close>

function packetize_loop :: "'u packet_sink \<Rightarrow> u32 \<Rightarrow> bytes \<Rightarrow> nat \<Rightarrow> nat \<Rightarrow> rtp_h264 \<times> 'u \<Rightarrow>
    nat \<times> rtp_h264 \<times> 'u" where
  "packetize_loop sink ts d cursor emitted s =
     (case next_nal d cursor of
        None \<Rightarrow> (emitted, s)
      | Some (off, l) \<Rightarrow>
          if l = 0 then packetize_loop sink ts d off emitted s
          else
            let (emitted', s') = send_nal sink ts (nal_slice d (off, l)) (has_more_at d (off + l)) emitted s
            in packetize_loop sink ts d (off + l) emitted' s')"
  by pat_completeness auto
termination
  by (relation "measure (\<lambda>(sink, ts, d, cursor, n, s). length d - cursor)")
     (auto dest!: next_nal_Some)

declare packetize_loop.simps [simp del]

definition rtp_timestamp :: "u64 \<Rightarrow> u64 \<Rightarrow> u32" where
  "rtp_timestamp base pts =
     (let delta = (if pts \<ge> base then pts - base else 0) in ucast (delta * 90000 div 1000000))"

definition rtp_prepare :: "rtp_h264 \<Rightarrow> u64 \<Rightarrow> rtp_h264" where
  "rtp_prepare p pts =
     (let p1 = (if rtp_have_base p then p else p\<lparr>rtp_base_pts := pts, rtp_have_base := True\<rparr>)
      in p1\<lparr>rtp_last_ts := rtp_timestamp (rtp_base_pts p1) pts\<rparr>)"

definition rtp_h264_packetize :: "rtp_h264 \<Rightarrow> bytes option \<Rightarrow> u64 \<Rightarrow> 'u packet_sink \<Rightarrow> 'u \<Rightarrow>
    int \<times> rtp_h264 \<times> 'u" where
  "rtp_h264_packetize p access_unit pts sink u =
     (case access_unit of
        None \<Rightarrow> (- 1, p, u)
      | Some d \<Rightarrow>
          if length d = 0 then (- 1, p, u)
          else
            let p1 = rtp_prepare p pts;
                (n, p2, u2) = packetize_loop sink (rtp_last_ts p1) d 0 0 (p1, u)
            in (int n, p2, u2))"

section \<open>What the loops send\<close>

text \<open>
  The same walk as plain lists: the fragments of a NAL unit, the NAL units of an access unit (empty
  ones included), the payloads with their marker bits, and the packets on the wire.
\<close>

function fu_chunks :: "bytes \<Rightarrow> nat \<Rightarrow> (bytes \<times> bool) list" where
  "fu_chunks nal offset =
     (if offset < length nal then
        let rest = length nal - offset; fin = (rest \<le> payload_budget - 2);
            n = (if fin then rest else payload_budget - 2)
        in ([fu_indicator (nal ! 0), fu_header (nal ! 0) (offset = 1) fin] @ take n (drop offset nal), fin)
           # fu_chunks nal (offset + n)
      else [])"
  by pat_completeness auto
termination
  by (relation "measure (\<lambda>(nal, offset). length nal - offset)")
     (auto simp: payload_budget_def RTP_MAX_PACKET_def RTP_HEADER_SIZE_def)

declare fu_chunks.simps [simp del]

definition nal_payloads :: "bytes \<Rightarrow> (bytes \<times> bool) list" where
  "nal_payloads nal = (if length nal \<le> payload_budget then [(nal, True)] else fu_chunks nal 1)"

function nals_from :: "bytes \<Rightarrow> nat \<Rightarrow> (bytes \<times> bool) list" where
  "nals_from d c = (case next_nal d c of
      None \<Rightarrow> []
    | Some (off, l) \<Rightarrow> (nal_slice d (off, l), has_more_at d (off + l)) # nals_from d (off + l))"
  by pat_completeness auto
termination by (relation "measure (\<lambda>(d, c). length d - c)") (auto dest!: next_nal_Some)

declare nals_from.simps [simp del]

definition mark_last :: "bool \<Rightarrow> (bytes \<times> bool) list \<Rightarrow> (bytes \<times> bool) list" where
  "mark_last hm ps = map (\<lambda>x. (fst x, snd x \<and> \<not> hm)) ps"

definition au_payloads :: "bytes \<Rightarrow> nat \<Rightarrow> (bytes \<times> bool) list" where
  "au_payloads d c = concat (map (\<lambda>x. mark_last (snd x) (nal_payloads (fst x)))
     (filter (\<lambda>x. fst x \<noteq> []) (nals_from d c)))"

definition emit_all :: "'u packet_sink \<Rightarrow> u32 \<Rightarrow> (bytes \<times> bool) list \<Rightarrow> rtp_h264 \<times> 'u \<Rightarrow> rtp_h264 \<times> 'u" where
  "emit_all sink ts ps s = foldl (\<lambda>s x. emit_packet sink ts (snd x) (fst x) s) s ps"

lemma emit_all_append:
  "emit_all sink ts (xs @ ys) s = emit_all sink ts ys (emit_all sink ts xs s)"
  by (simp add: emit_all_def)

lemma fu_loop_eq:
  "fu_loop sink ts nal hm off n s =
   (n + length (fu_chunks nal off), emit_all sink ts (mark_last hm (fu_chunks nal off)) s)"
proof (induction nal off arbitrary: n s rule: fu_chunks.induct)
  case (1 nal off)
  show ?case
  proof (cases "off < length nal")
    case True
    define m where "m = (if length nal - off \<le> payload_budget - 2 then length nal - off else payload_budget - 2)"
    have IH: "fu_loop sink ts nal hm (off + m) n s =
        (n + length (fu_chunks nal (off + m)), emit_all sink ts (mark_last hm (fu_chunks nal (off + m))) s)"
      for n s
      unfolding m_def by (rule 1 [OF True refl refl refl])
    show ?thesis
    proof (cases "length nal - off \<le> payload_budget - 2")
      case fin: True
      then have "off + m = length nal" using True by (simp add: m_def)
      with fin True IH show ?thesis
        by (subst fu_loop.simps, subst (1 2) fu_chunks.simps) (simp add: Let_def emit_all_def mark_last_def)
    next
      case False
      then have "m = payload_budget - 2" by (simp add: m_def)
      with False True IH show ?thesis
        by (subst fu_loop.simps, subst (1 2) fu_chunks.simps) (simp add: Let_def emit_all_def mark_last_def)
    qed
  next
    case False
    then show ?thesis
      by (subst fu_loop.simps, subst (1 2) fu_chunks.simps) (simp add: emit_all_def mark_last_def)
  qed
qed

lemma send_nal_eq:
  "send_nal sink ts nal hm n s =
   (n + length (nal_payloads nal), emit_all sink ts (mark_last hm (nal_payloads nal)) s)"
  by (simp add: send_nal_def nal_payloads_def fu_loop_eq emit_all_def mark_last_def)

lemma nal_slice_length: "next_nal d c = Some (off, l) \<Longrightarrow> length (nal_slice d (off, l)) = l"
  by (auto dest!: next_nal_Some simp: nal_slice_def min_def)

lemma nal_slice_empty: "next_nal d c = Some (off, l) \<Longrightarrow> nal_slice d (off, l) = [] \<longleftrightarrow> l = 0"
  using nal_slice_length [of d c off l] by (cases "nal_slice d (off, l)") auto

lemma au_payloads_rec:
  "au_payloads d c = (case next_nal d c of
      None \<Rightarrow> []
    | Some (off, l) \<Rightarrow>
        (if l = 0 then [] else mark_last (has_more_at d (off + l)) (nal_payloads (nal_slice d (off, l))))
        @ au_payloads d (off + l))"
  unfolding au_payloads_def
  by (subst nals_from.simps) (auto split: option.splits simp: nal_slice_empty)

lemma packetize_loop_eq:
  "packetize_loop sink ts d c n s =
   (n + length (au_payloads d c), emit_all sink ts (au_payloads d c) s)"
proof (induction d c arbitrary: n s rule: nals_from.induct)
  case (1 d c)
  show ?case
  proof (cases "next_nal d c")
    case None
    then show ?thesis by (subst packetize_loop.simps, subst (1 2) au_payloads_rec) (simp add: emit_all_def)
  next
    case (Some x)
    obtain off l where x: "x = (off, l)" by (cases x)
    have IH: "packetize_loop sink ts d (off + l) n s =
        (n + length (au_payloads d (off + l)), emit_all sink ts (au_payloads d (off + l)) s)" for n s
      using 1 [OF Some] x by simp
    show ?thesis
    proof (cases "l = 0")
      case True
      then show ?thesis using IH [of n s] Some x
        by (subst packetize_loop.simps, subst (1 2) au_payloads_rec) simp
    next
      case False
      then show ?thesis using Some x
        by (subst packetize_loop.simps, subst (1 2) au_payloads_rec)
           (simp add: send_nal_eq IH emit_all_append mark_last_def)
    qed
  qed
qed

text \<open>The packets on the wire, with the arguments of each call of the sink.\<close>

fun wire :: "rtp_h264 \<Rightarrow> u32 \<Rightarrow> (bytes \<times> bool) list \<Rightarrow> (bytes \<times> bool \<times> u16) list" where
  "wire p ts [] = []"
| "wire p ts (x # ps) =
     (let p1 = p\<lparr>rtp_seq := rtp_seq p + 1\<rparr>
      in (rtp_header p1 ts (snd x) @ fst x, snd x, rtp_seq p1) # wire p1 ts ps)"

definition sink_all :: "'u packet_sink \<Rightarrow> (bytes \<times> bool \<times> u16) list \<Rightarrow> 'u \<Rightarrow> 'u" where
  "sink_all sink ws u = foldl (\<lambda>u w. sink u (fst w) (fst (snd w)) (snd (snd w))) u ws"

definition after_sending :: "rtp_h264 \<Rightarrow> (bytes \<times> bool) list \<Rightarrow> rtp_h264" where
  "after_sending p ps = p\<lparr>rtp_seq := rtp_seq p + of_nat (length ps),
     rtp_packets := rtp_packets p + of_nat (length ps),
     rtp_octets := rtp_octets p + of_nat (sum_list (map (length \<circ> fst) ps))\<rparr>"

lemma wire_cong:
  "rtp_seq p = rtp_seq q \<Longrightarrow> rtp_ssrc p = rtp_ssrc q \<Longrightarrow> rtp_pt p = rtp_pt q \<Longrightarrow> wire p ts ps = wire q ts ps"
proof (induction ps arbitrary: p q)
  case (Cons x ps)
  have "wire (p\<lparr>rtp_seq := rtp_seq p + 1\<rparr>) ts ps = wire (q\<lparr>rtp_seq := rtp_seq q + 1\<rparr>) ts ps"
    by (rule Cons.IH) (use Cons.prems in simp_all)
  then show ?case using Cons.prems by (simp add: rtp_header_def Let_def)
qed simp

lemma wire_ignores [simp]: "wire (p\<lparr>rtp_packets := a, rtp_octets := b\<rparr>) ts ps = wire p ts ps"
  by (rule wire_cong) simp_all

lemma emit_all_wire:
  "emit_all sink ts ps (p, u) = (after_sending p ps, sink_all sink (wire p ts ps) u)"
proof (induction ps arbitrary: p u)
  case Nil
  then show ?case by (simp add: emit_all_def after_sending_def sink_all_def)
next
  case (Cons x ps)
  have "emit_all sink ts (x # ps) (p, u) = emit_all sink ts ps (emit_packet sink ts (snd x) (fst x) (p, u))"
    by (simp add: emit_all_def)
  then show ?case
    by (simp add: emit_packet_def Let_def Cons.IH sink_all_def after_sending_def algebra_simps)
qed

lemma wire_length [simp]: "length (wire p ts ps) = length ps"
  by (induction ps arbitrary: p) (auto simp: Let_def)

lemma wire_nth: "i < length ps \<Longrightarrow> wire p ts ps ! i =
   (rtp_header (p\<lparr>rtp_seq := rtp_seq p + of_nat (i + 1)\<rparr>) ts (snd (ps ! i)) @ fst (ps ! i),
    snd (ps ! i), rtp_seq p + of_nat (i + 1))"
proof (induction ps arbitrary: p i)
  case (Cons x ps)
  show ?case
  proof (cases i)
    case (Suc j)
    have "(rtp_seq p + 1) + of_nat (j + 1) = rtp_seq p + of_nat (Suc j + 1)" by simp
    then show ?thesis using Cons.IH [of j "p\<lparr>rtp_seq := rtp_seq p + 1\<rparr>"] Cons.prems Suc
      by (simp only: wire.simps Let_def nth_Cons_Suc length_Cons Suc_less_eq) (simp add: add.assoc)
  qed (simp add: Let_def)
qed simp

lemma header_length [simp]: "length (rtp_header p ts m) = RTP_HEADER_SIZE"
  by (simp add: rtp_header_def RTP_HEADER_SIZE_def)

lemma packetize_eq:
  "d \<noteq> [] \<Longrightarrow> rtp_h264_packetize p (Some d) pts sink u =
     (int (length (au_payloads d 0)), after_sending (rtp_prepare p pts) (au_payloads d 0),
      sink_all sink (wire (rtp_prepare p pts) (rtp_last_ts (rtp_prepare p pts)) (au_payloads d 0)) u)"
  by (simp add: rtp_h264_packetize_def packetize_loop_eq emit_all_wire Let_def)

section \<open>Sizes and markers\<close>

lemma budget: "payload_budget = 1188"
  by (simp add: payload_budget_def RTP_MAX_PACKET_def RTP_HEADER_SIZE_def)

lemma fu_chunks_sizes: "x \<in> set (fu_chunks nal off) \<Longrightarrow> 2 < length (fst x) \<and> length (fst x) \<le> payload_budget"
  by (induction nal off rule: fu_chunks.induct)
     (subst (asm) (2) fu_chunks.simps, auto simp: Let_def budget split: if_splits)

lemma nal_payloads_sizes:
  "nal \<noteq> [] \<Longrightarrow> x \<in> set (nal_payloads nal) \<Longrightarrow> 0 < length (fst x) \<and> length (fst x) \<le> payload_budget"
  using fu_chunks_sizes [of x nal 1] by (auto simp: nal_payloads_def split: if_splits)

lemma au_payloads_sizes:
  "x \<in> set (au_payloads d c) \<Longrightarrow> 0 < length (fst x) \<and> length (fst x) \<le> payload_budget"
  by (force simp: au_payloads_def mark_last_def dest: nal_payloads_sizes)

text \<open>A list of flags of which the last one is set.\<close>

fun last_only :: "bool list \<Rightarrow> bool" where
  "last_only [] \<longleftrightarrow> False"
| "last_only (b # bs) \<longleftrightarrow> (if bs = [] then b else \<not> b \<and> last_only bs)"

lemma last_only_False [simp]: "last_only (False # bs) \<longleftrightarrow> last_only bs"
  by auto

lemma last_only_falses: "last_only bs \<Longrightarrow> last_only (replicate n False @ bs)"
  by (induction n) auto

lemma last_only_nth: "last_only bs \<Longrightarrow> i < length bs \<Longrightarrow> bs ! i \<longleftrightarrow> i + 1 = length bs"
  by (induction bs arbitrary: i) (auto simp: nth_Cons' split: if_splits)

lemma fu_chunks_flags: "off < length nal \<Longrightarrow> last_only (map snd (fu_chunks nal off))"
proof (induction nal off rule: fu_chunks.induct)
  case (1 nal off)
  show ?case
  proof (cases "length nal - off \<le> payload_budget - 2")
    case True
    then have "fu_chunks nal (length nal) = []" by (subst fu_chunks.simps) simp
    with True 1(2) show ?thesis by (subst fu_chunks.simps) (simp add: Let_def)
  next
    case False
    then have "off + (payload_budget - 2) < length nal" by (simp add: budget)
    then show ?thesis using 1(1) [OF 1(2) refl refl refl] False 1(2)
      by (subst fu_chunks.simps) (auto simp: Let_def)
  qed
qed

lemma nal_payloads_flags: "last_only (map snd (nal_payloads nal))"
  using fu_chunks_flags [of 1 nal] by (auto simp: nal_payloads_def budget)

lemma mark_last_flags:
  "map snd (mark_last False ps) = map snd ps"
  "map snd (mark_last True ps) = replicate (length ps) False"
  by (induction ps) (simp_all add: mark_last_def)

lemma nals_from_Nil: "nals_from d c = [] \<longleftrightarrow> next_nal d c = None"
  by (subst nals_from.simps) (auto split: option.splits)

lemma au_payloads_flags:
  "\<forall>x \<in> set (nals_from d c). fst x \<noteq> [] \<Longrightarrow> nals_from d c \<noteq> [] \<Longrightarrow> last_only (map snd (au_payloads d c))"
proof (induction d c rule: nals_from.induct)
  case (1 d c)
  then obtain off l where n: "next_nal d c = Some (off, l)" by (auto simp: nals_from_Nil)
  have nf: "nals_from d c = (nal_slice d (off, l), has_more_at d (off + l)) # nals_from d (off + l)"
    using n by (subst nals_from.simps) simp
  have l: "l \<noteq> 0" using 1(2) nal_slice_empty [OF n] nf by auto
  have ne: "\<forall>x \<in> set (nals_from d (off + l)). fst x \<noteq> []" using 1(2) nf by simp
  have hm: "has_more_at d (off + l) \<longleftrightarrow> nals_from d (off + l) \<noteq> []"
  proof (cases "next_nal d (off + l)")
    case (Some y)
    obtain off' l' where y: "y = (off', l')" by (cases y)
    have "nal_slice d (off', l') \<in> fst ` set (nals_from d (off + l))"
      using Some y by (subst nals_from.simps) simp
    then have "l' \<noteq> 0" using ne nal_slice_empty [of d "off + l" off' l'] Some y by auto
    then show ?thesis using Some y by (simp add: has_more_at_def nals_from_Nil)
  qed (simp add: has_more_at_def nals_from_Nil)
  show ?case
  proof (cases "nals_from d (off + l) = []")
    case True
    then have "au_payloads d (off + l) = []" by (simp add: au_payloads_def)
    with True hm l n show ?thesis by (subst au_payloads_rec) (simp add: mark_last_flags nal_payloads_flags)
  next
    case False
    then have "last_only (map snd (au_payloads d (off + l)))" using 1(1) [OF n refl ne] by simp
    with False hm l n show ?thesis by (subst au_payloads_rec) (simp add: mark_last_flags last_only_falses)
  qed
qed

section \<open>A receiver\<close>

text \<open>
  Section 5.6 and 5.8 of RFC 6184, from the receiver's side: a payload of type 28 is a fragment, its
  start bit opens a NAL unit whose header is put together from the two fragment bytes, its end bit
  closes it; any other payload is a NAL unit. It is the specification the packetizer is checked
  against, not code of this program.
\<close>

fun receive :: "bytes \<Rightarrow> bytes list \<Rightarrow> bytes list" where
  "receive cur [] = []"
| "receive cur (pl # pls) =
     (if pl ! 0 AND 0x1F = 28 then
        let acc = (if pl ! 1 AND 0x80 \<noteq> 0 then [(pl ! 0 AND 0xE0) OR (pl ! 1 AND 0x1F)] else cur) @ drop 2 pl
        in if pl ! 1 AND 0x40 \<noteq> 0 then acc # receive [] pls else receive acc pls
      else pl # receive cur pls)"

lemma word8_eqI: "(\<And>n. n < 8 \<Longrightarrow> bit a n = bit b n) \<Longrightarrow> a = (b :: u8)"
  by (rule bit_word_eqI) simp

lemma less8: "n < 8 \<Longrightarrow> n = 0 \<or> n = 1 \<or> n = 2 \<or> n = 3 \<or> n = 4 \<or> n = 5 \<or> n = 6 \<or> n = (7::nat)"
  by arith

lemma fu_indicator_type: "fu_indicator h AND 0x1F = 28"
  by (rule word8_eqI) (auto simp: fu_indicator_def bit_simps dest!: less8)

lemma fu_header_start: "fu_header h first fin AND 0x80 \<noteq> 0 \<longleftrightarrow> first"
proof -
  have "fu_header h first fin AND 0x80 = (if first then 0x80 else 0)"
    by (rule word8_eqI) (auto simp: fu_header_def bit_simps dest!: less8)
  then show ?thesis by simp
qed

lemma fu_header_end: "fu_header h first fin AND 0x40 \<noteq> 0 \<longleftrightarrow> fin"
proof -
  have "fu_header h first fin AND 0x40 = (if fin then 0x40 else 0)"
    by (rule word8_eqI) (auto simp: fu_header_def bit_simps dest!: less8)
  then show ?thesis by simp
qed

lemma fu_rebuild: "h AND 0x80 = 0 \<Longrightarrow> (fu_indicator h AND 0xE0) OR (fu_header h first fin AND 0x1F) = h"
proof (rule word8_eqI)
  fix n :: nat assume h: "h AND 0x80 = 0" and n: "n < 8"
  have "\<not> bit h 7"
  proof
    assume "bit h 7"
    then have "bit (h AND 0x80) 7" by (simp add: bit_simps)
    with h show False by simp
  qed
  then show "bit ((fu_indicator h AND 0xE0) OR (fu_header h first fin AND 0x1F)) n = bit h n"
    using n by (auto simp: fu_indicator_def fu_header_def bit_simps dest!: less8)
qed

text \<open>The fragments of one NAL unit put it together again, whatever follows.\<close>

lemma receive_chunks:
  "1 \<le> off \<Longrightarrow> off < length nal \<Longrightarrow> (hd nal) AND 0x80 = 0 \<Longrightarrow> (off = 1 \<or> cur = take off nal) \<Longrightarrow>
   receive cur (map fst (fu_chunks nal off) @ pls) = nal # receive [] pls"
proof (induction nal off arbitrary: cur rule: fu_chunks.induct)
  case (1 nal off)
  have h: "hd nal = nal ! 0" using 1(3) by (intro hd_conv_nth) auto
  let ?h = "nal ! 0"
  have pre: "(if off = 1 then [?h] else cur) = take off nal"
  proof (cases "off = 1")
    case True
    then show ?thesis using 1(3) by (cases nal) auto
  qed (use 1(5) in simp)
  have pre': "(if fu_header ?h (off = 1) fin AND 0x80 \<noteq> 0
      then [(fu_indicator ?h AND 0xE0) OR (fu_header ?h (off = 1) fin AND 0x1F)] else cur) = take off nal" for fin
    using pre 1(4) h by (simp only: fu_header_start fu_rebuild)
  show ?case
  proof (cases "length nal - off \<le> payload_budget - 2")
    case True
    then have "fu_chunks nal (length nal) = []" by (subst fu_chunks.simps) simp
    then have "fu_chunks nal off = [([fu_indicator ?h, fu_header ?h (off = 1) True] @ drop off nal, True)]"
      using True 1(3) by (subst fu_chunks.simps) (simp add: Let_def)
    then show ?thesis
      by (simp only: list.map fst_conv append_Cons append_Nil receive.simps nth_Cons_0 fu_indicator_type
          Let_def if_True One_nat_def nth_Cons_Suc fu_header_end pre' [unfolded One_nat_def]) simp
  next
    case False
    let ?n = "payload_budget - 2"
    have lt: "off + ?n < length nal" using False by (simp add: budget)
    have c: "fu_chunks nal off =
        ([fu_indicator ?h, fu_header ?h (off = 1) False] @ take ?n (drop off nal), False) # fu_chunks nal (off + ?n)"
      using False 1(3) by (subst fu_chunks.simps) (simp add: Let_def)
    have IH: "receive (take (off + ?n) nal) (map fst (fu_chunks nal (off + ?n)) @ pls) = nal # receive [] pls"
      using 1(1) [OF 1(3) refl refl refl] False lt 1(2,4) by simp
    have join: "take off nal @ take ?n (drop off nal) = take (off + ?n) nal" by (simp add: take_add)
    show ?thesis unfolding c
      by (simp only: list.map fst_conv append_Cons append_Nil receive.simps nth_Cons_0 fu_indicator_type
          Let_def if_True if_False One_nat_def nth_Cons_Suc fu_header_end pre' [unfolded One_nat_def])
         (simp add: join IH)
  qed
qed

definition nal_ok :: "bytes \<Rightarrow> bool" where
  "nal_ok nal \<longleftrightarrow> nal \<noteq> [] \<and> hd nal AND 0x80 = 0 \<and> hd nal AND 0x1F \<noteq> 28"

lemma receive_nal: "nal_ok nal \<Longrightarrow> receive [] (map fst (nal_payloads nal) @ pls) = nal # receive [] pls"
  using receive_chunks [of 1 nal "[]" pls]
  by (auto simp: nal_payloads_def nal_ok_def hd_conv_nth budget)

lemma receive_au:
  "\<forall>x \<in> set (nals_from d c). nal_ok (fst x) \<Longrightarrow>
   receive [] (map fst (au_payloads d c) @ pls) = map fst (nals_from d c) @ receive [] pls"
proof (induction d c rule: nals_from.induct)
  case (1 d c)
  show ?case
  proof (cases "next_nal d c")
    case None
    then show ?thesis by (subst au_payloads_rec, subst nals_from.simps) simp
  next
    case (Some x)
    obtain off l where x: "x = (off, l)" by (cases x)
    have nf: "nals_from d c = (nal_slice d (off, l), has_more_at d (off + l)) # nals_from d (off + l)"
      using Some x by (subst nals_from.simps) simp
    have ok: "nal_ok (nal_slice d (off, l))" and rest: "\<forall>x \<in> set (nals_from d (off + l)). nal_ok (fst x)"
      using 1(2) nf by auto
    have "l \<noteq> 0" using ok nal_slice_empty [of d c off l] Some x by (auto simp: nal_ok_def)
    moreover have "map fst (mark_last hm ps) = map fst ps" for hm and ps :: "(bytes \<times> bool) list"
      by (simp add: mark_last_def)
    ultimately show ?thesis
      using 1(1) [OF Some x [symmetric] rest] Some x ok nf receive_nal by (subst au_payloads_rec) simp
  qed
qed

section \<open>Annex B\<close>

definition annexb :: "bytes list \<Rightarrow> bytes" where
  "annexb nals = concat (map (\<lambda>n. [0, 0, 0, 1] @ n) nals)"

text \<open>No start code inside: what emulation prevention in the encoder guarantees.\<close>

definition clean_nal :: "bytes \<Rightarrow> bool" where
  "clean_nal nal \<longleftrightarrow> (\<forall>i < length nal. \<not> sc3 nal i)"

lemma find_end_eq:
  "e \<le> k \<Longrightarrow> k \<le> length d \<Longrightarrow> \<forall>j. e \<le> j \<and> j < k \<longrightarrow> \<not> sc3 d j \<and> \<not> sc4 d j \<Longrightarrow>
   sc3 d k \<or> sc4 d k \<or> k = length d \<Longrightarrow> find_end d e = k"
proof (induction "k - e" arbitrary: e)
  case 0
  then have "e = k" by simp
  with 0 show ?case by (subst find_end.simps) (auto simp: sc3_def sc4_def)
next
  case (Suc n)
  then have e: "e < k" "\<not> sc3 d e" "\<not> sc4 d e" by auto
  then have "find_end d (e + 1) = k" using Suc by (intro Suc.hyps(1)) auto
  show ?case
  proof (cases "e + 3 \<le> length d")
    case True
    with e \<open>find_end d (e + 1) = k\<close> show ?thesis by (subst find_end.simps) simp
  next
    case False
    then have "\<not> sc3 d k" "\<not> sc4 d k" using e by (auto simp: sc3_def sc4_def)
    with Suc.prems(4) False show ?thesis by (subst find_end.simps) simp
  qed
qed

lemma sc4_sc3: "sc4 d i \<Longrightarrow> sc3 d (Suc i)"
  by (simp add: sc3_def sc4_def numeral_eq_Suc)

lemma annexb_next:
  assumes clean: "clean_nal n" and d: "d = pre @ annexb (n # ns)"
  shows "next_nal d (length pre) = Some (length pre + 4, length n)"
proof -
  define k where "k = length pre + 4 + length n"
  have d': "d = pre @ [0, 0, 0, 1] @ n @ annexb ns" using d by (simp add: annexb_def)
  have at: "d ! (length pre + j) = ([0, 0, 0, 1] @ n @ annexb ns) ! j" for j by (simp add: d')
  have body: "d ! (length pre + 4 + j) = (n @ annexb ns) ! j" for j
    using at [of "4 + j"] by (simp add: nth_append numeral_eq_Suc)
  have fs: "find_start d (length pre) = Some (length pre, 4)"
    using at [of 0] at [of 1] at [of 2] at [of 3]
    by (subst find_start.simps) (simp add: sc3_def sc4_def d' numeral_eq_Suc)
  have tail: "annexb ns = [] \<or> (\<exists>r. annexb ns = [0, 0, 0, 1] @ r)" by (cases ns) (auto simp: annexb_def)
  have no3: "\<not> sc3 d (length pre + 4 + j)" if j: "j < length n" for j
  proof
    assume s: "sc3 d (length pre + 4 + j)"
    then have b: "(n @ annexb ns) ! j = 0" "(n @ annexb ns) ! (j + 1) = 0" "(n @ annexb ns) ! (j + 2) = 1"
      "j + 3 \<le> length n + length (annexb ns)"
      using body [of j] body [of "j + 1"] body [of "j + 2"] by (auto simp: sc3_def d' add.assoc)
    show False
    proof (cases "j + 3 \<le> length n")
      case True
      then show ?thesis using b clean j by (auto simp: clean_nal_def sc3_def nth_append)
    next
      case False
      then have "(n @ annexb ns) ! (j + 2) = 0"
        using tail b(4) j by (auto simp: nth_append numeral_eq_Suc not_less nth_Cons' less_Suc_eq_le)
      with b(3) show ?thesis by simp
    qed
  qed
  have no4: "\<not> sc4 d (length pre + 4 + j)" if j: "j < length n" for j
  proof
    assume s: "sc4 d (length pre + 4 + j)"
    show False
    proof (cases "j + 1 < length n")
      case True
      then show ?thesis using no3 [of "j + 1"] sc4_sc3 [OF s] by simp
    next
      case False
      have "(n @ annexb ns) ! (j + 3) = 1" "j + 4 \<le> length n + length (annexb ns)"
        using s body [of "j + 3"] by (auto simp: sc4_def d' add.assoc)
      moreover have "j + 1 = length n" using False j by simp
      ultimately show ?thesis using tail by (auto simp: nth_append numeral_eq_Suc)
    qed
  qed
  have "find_end d (length pre + 4) = k"
  proof (rule find_end_eq)
    show "\<forall>j. length pre + 4 \<le> j \<and> j < k \<longrightarrow> \<not> sc3 d j \<and> \<not> sc4 d j"
    proof (intro allI impI)
      fix j assume "length pre + 4 \<le> j \<and> j < k"
      then have "j = length pre + 4 + (j - (length pre + 4))" "j - (length pre + 4) < length n"
        by (auto simp: k_def)
      then show "\<not> sc3 d j \<and> \<not> sc4 d j" using no3 no4 by metis
    qed
    show "sc3 d k \<or> sc4 d k \<or> k = length d"
      using tail body [of "length n"] body [of "length n + 1"] body [of "length n + 2"] body [of "length n + 3"]
      by (auto simp: k_def sc4_def d' nth_append add.assoc)
  qed (simp_all add: k_def d')
  then show ?thesis using fs by (simp add: next_nal_def Let_def k_def)
qed

lemma annexb_scan:
  "\<forall>n \<in> set nals. clean_nal n \<Longrightarrow> map fst (nals_from (pre @ annexb nals) (length pre)) = nals"
proof (induction nals arbitrary: pre)
  case Nil
  have "next_nal pre (length pre) = None" by (subst next_nal_def, subst find_start.simps) simp
  then show ?case by (subst nals_from.simps) (simp add: annexb_def)
next
  case (Cons n ns)
  define d where "d = pre @ annexb (n # ns)"
  have nx: "next_nal d (length pre) = Some (length pre + 4, length n)"
    by (rule annexb_next [OF _ d_def]) (use Cons.prems in simp)
  have split: "d = (pre @ [0, 0, 0, 1] @ n) @ annexb ns" by (simp add: d_def annexb_def)
  have sl: "nal_slice d (length pre + 4, length n) = n" by (simp add: nal_slice_def split)
  have "map fst (nals_from ((pre @ [0, 0, 0, 1] @ n) @ annexb ns) (length (pre @ [0, 0, 0, 1] @ n))) = ns"
    by (rule Cons.IH) (use Cons.prems in simp)
  moreover have eqlen: "length (pre @ [0, 0, 0, 1] @ n) = length pre + 4 + length n" by simp
  ultimately have "map fst (nals_from d (length pre + 4 + length n)) = ns" by (simp only: split eqlen)
  then show ?case unfolding d_def [symmetric] using nx sl by (subst nals_from.simps) simp
qed

section \<open>The interface of a packet sink\<close>

text \<open>
  What a sink may rely on: every call carries one complete packet of at most \<^verbatim>\<open>RTP_MAX_PACKET\<close>
  bytes. A state invariant that such calls keep is kept by a whole access unit.
\<close>

locale rtp_sink =
  fixes sink :: "'u packet_sink"
    and sink_inv :: "'u \<Rightarrow> bool"
  assumes sink_keeps: "sink_inv u \<Longrightarrow> RTP_HEADER_SIZE < length pkt \<Longrightarrow> length pkt \<le> RTP_MAX_PACKET \<Longrightarrow>
    sink_inv (sink u pkt marker q)"
begin

lemma sink_all_keeps:
  "sink_inv u \<Longrightarrow> \<forall>w \<in> set ws. RTP_HEADER_SIZE < length (fst w) \<and> length (fst w) \<le> RTP_MAX_PACKET \<Longrightarrow>
   sink_inv (sink_all sink ws u)"
  unfolding sink_all_def by (induction ws arbitrary: u) (auto intro: sink_keeps)

end

lemma emitted_fit:
  assumes "w \<in> set (wire p ts (au_payloads d c))"
  shows "RTP_HEADER_SIZE < length (fst w) \<and> length (fst w) \<le> RTP_MAX_PACKET"
proof -
  obtain i where i: "i < length (au_payloads d c)" "w = wire p ts (au_payloads d c) ! i"
    using assms by (auto simp: in_set_conv_nth)
  then have "0 < length (fst (au_payloads d c ! i)) \<and> length (fst (au_payloads d c ! i)) \<le> payload_budget"
    using au_payloads_sizes [of "au_payloads d c ! i" d c] by simp
  then show ?thesis
    using i by (auto simp: wire_nth payload_budget_def RTP_HEADER_SIZE_def RTP_MAX_PACKET_def)
qed

context rtp_sink
begin

lemma packetize_keeps:
  assumes "sink_inv u"
  shows "sink_inv (snd (snd (rtp_h264_packetize p access_unit pts sink u)))"
proof (cases "access_unit = None \<or> access_unit = Some []")
  case True
  then show ?thesis using assms by (auto simp: rtp_h264_packetize_def)
next
  case False
  then obtain d where d: "access_unit = Some d" "d \<noteq> []" by auto
  show ?thesis using sink_all_keeps [OF assms] emitted_fit d by (simp add: packetize_eq)
qed

end

text \<open>A sink that records its calls.\<close>

definition log_sink :: "(bytes \<times> bool \<times> u16) list packet_sink" where
  "log_sink log pkt marker q = log @ [(pkt, marker, q)]"

lemma sink_all_log: "sink_all log_sink ws log = log @ ws"
  by (induction ws arbitrary: log) (auto simp: sink_all_def log_sink_def)

interpretation log_s: rtp_sink log_sink
  "\<lambda>log. \<forall>w \<in> set log. RTP_HEADER_SIZE < length (fst w) \<and> length (fst w) \<le> RTP_MAX_PACKET"
  by unfold_locales (auto simp: log_sink_def)

lemma packetize_log:
  assumes "d \<noteq> []" "rtp_h264_packetize p (Some d) pts log_sink [] = (n, p', log)"
  shows "n = int (length (au_payloads d 0))" "p' = after_sending (rtp_prepare p pts) (au_payloads d 0)"
    "log = wire (rtp_prepare p pts) (rtp_last_ts (rtp_prepare p pts)) (au_payloads d 0)"
  using assms by (auto simp: packetize_eq sink_all_log)

lemma prepare_keeps [simp]:
  "rtp_seq (rtp_prepare p pts) = rtp_seq p" "rtp_ssrc (rtp_prepare p pts) = rtp_ssrc p"
  "rtp_pt (rtp_prepare p pts) = rtp_pt p" "rtp_packets (rtp_prepare p pts) = rtp_packets p"
  "rtp_octets (rtp_prepare p pts) = rtp_octets p"
  by (simp_all add: rtp_prepare_def Let_def)

lemma wire_payloads: "map (\<lambda>w. drop RTP_HEADER_SIZE (fst w)) (wire p ts ps) = map fst ps"
  by (induction ps arbitrary: p) (auto simp: Let_def)

lemma wire_markers: "map (\<lambda>w. fst (snd w)) (wire p ts ps) = map snd ps"
  by (induction ps arbitrary: p) (auto simp: Let_def)

lemma wire_Nil [simp]: "wire p ts ps = [] \<longleftrightarrow> ps = []"
  by (cases ps) (auto simp: Let_def)

lemma packetize_triple: "rtp_h264_packetize p a pts sink u =
   (fst (rtp_h264_packetize p a pts sink u), fst (snd (rtp_h264_packetize p a pts sink u)),
    snd (snd (rtp_h264_packetize p a pts sink u)))"
  by simp

lemma unat_mult_exact: "unat a * unat b < 2 ^ 64 \<Longrightarrow> unat (a * b :: u64) = unat a * unat b"
  by (simp add: unat_word_ariths)

section \<open>Properties\<close>

definition demo_rtp :: rtp_h264 where
  "demo_rtp = \<lparr>rtp_ssrc = 7, rtp_pt = 102, rtp_seq = 65535, rtp_base_pts = 0, rtp_have_base = False,
     rtp_last_ts = 0, rtp_packets = 0, rtp_octets = 0\<rparr>"

definition demo_au :: bytes where
  "demo_au = annexb [[0x67, 1], [0x65, 2, 3]]"

lemma demo_au: "demo_au \<noteq> []" "\<forall>n \<in> set [[0x67, 1], [0x65, 2, 3]]. clean_nal n \<and> nal_ok n"
  by (auto simp: demo_au_def annexb_def clean_nal_def nal_ok_def sc3_def less_Suc_eq)

text \<open>
  C7. Every packet of an access unit is well formed: at most 1200 bytes and at least one byte of
  payload, the sequence numbers count up by one from the packetizer's last one (modulo \<open>2 ^ 16\<close>), and
  the header carries version 2, the marker, the payload type, the sequence number, one timestamp for
  the whole access unit and the SSRC. The result is the number of packets, and the packet and octet
  counters of the sender report advance by what was sent.
\<close>

theorem rtp_packets_well_formed:
  assumes "d \<noteq> []" and "rtp_h264_packetize p (Some d) pts log_sink [] = (n, p', log)"
  shows "n = int (length log) \<and> rtp_seq p' = rtp_seq p + of_nat (length log) \<and>
    rtp_packets p' = rtp_packets p + of_nat (length log) \<and>
    rtp_octets p' = rtp_octets p + of_nat (sum_list (map (\<lambda>w. length (fst w) - 12) log)) \<and>
    (\<forall>i < length log. case log ! i of (pkt, marker, q) \<Rightarrow>
       12 < length pkt \<and> length pkt \<le> 1200 \<and> q = rtp_seq p + of_nat (i + 1) \<and>
       take 12 pkt = [0x80, (if marker then 0x80 else 0) OR ucast (rtp_pt p AND 0x7F)] @
         be16 q @ be32 (rtp_last_ts p') @ be32 (rtp_ssrc p))"
proof -
  let ?p = "rtp_prepare p pts" and ?ps = "au_payloads d 0"
  note L = packetize_log [OF assms]
  have "map (\<lambda>w. length (fst w) - 12) log = map (length \<circ> fst) ?ps"
    using arg_cong [OF wire_payloads [of ?p "rtp_last_ts ?p" ?ps], of "map length"]
    by (simp add: L(3) RTP_HEADER_SIZE_def o_def)
  moreover have "case log ! i of (pkt, marker, q) \<Rightarrow>
       12 < length pkt \<and> length pkt \<le> 1200 \<and> q = rtp_seq p + of_nat (i + 1) \<and>
       take 12 pkt = [0x80, (if marker then 0x80 else 0) OR ucast (rtp_pt p AND 0x7F)] @
         be16 q @ be32 (rtp_last_ts p') @ be32 (rtp_ssrc p)" if i: "i < length log" for i
  proof -
    have "log ! i \<in> set (wire ?p (rtp_last_ts ?p) ?ps)" using i L(3) by simp
    from emitted_fit [OF this] i show ?thesis
      by (simp add: L wire_nth rtp_header_def after_sending_def RTP_HEADER_SIZE_def RTP_MAX_PACKET_def)
  qed
  ultimately show ?thesis using L by (simp add: after_sending_def)
qed

lemma rtp_packets_well_formed_witness:
  "rtp_seq (fst (snd (rtp_h264_packetize demo_rtp (Some demo_au) 5 log_sink []))) =
   rtp_seq demo_rtp + of_nat (length (snd (snd (rtp_h264_packetize demo_rtp (Some demo_au) 5 log_sink []))))"
  using rtp_packets_well_formed [OF demo_au(1) packetize_triple, of demo_rtp 5] by blast

text \<open>
  C6. Nothing is lost on the wire: for an access unit made of NAL units with four byte start codes,
  none of which contains a start code itself (emulation prevention), has the forbidden bit set or
  the reserved type 28, a receiver that follows RFC 6184 rebuilds exactly these NAL units, in order,
  from the payloads of the packets, whether they travel whole or in fragments.
\<close>

theorem rtp_roundtrip:
  assumes "nals \<noteq> []" and "\<forall>n \<in> set nals. clean_nal n \<and> nal_ok n"
    and "rtp_h264_packetize p (Some (annexb nals)) pts log_sink [] = (n, p', log)"
  shows "receive [] (map (\<lambda>w. drop RTP_HEADER_SIZE (fst w)) log) = nals"
proof -
  have ne: "annexb nals \<noteq> []" using assms(1) by (cases nals) (auto simp: annexb_def)
  have sc: "map fst (nals_from (annexb nals) 0) = nals" using annexb_scan [of nals "[]"] assms(2) by simp
  then have "\<forall>x \<in> set (nals_from (annexb nals) 0). nal_ok (fst x)"
    using assms(2) by (metis (no_types, lifting) image_eqI list.set_map)
  then have "receive [] (map fst (au_payloads (annexb nals) 0)) = nals" using receive_au [where pls = "[]"] sc by simp
  then show ?thesis using packetize_log(3) [OF ne assms(3)] by (simp add: wire_payloads)
qed

lemma rtp_roundtrip_witness:
  "receive [] (map (\<lambda>w. drop RTP_HEADER_SIZE (fst w))
     (snd (snd (rtp_h264_packetize demo_rtp (Some (annexb [[0x67, 1], [0x65, 2, 3]])) 5 log_sink [])))) =
   [[0x67, 1], [0x65, 2, 3]]"
  by (rule rtp_roundtrip [OF _ demo_au(2) packetize_triple]) simp

text \<open>
  The marker bit is set on the last packet of the access unit and on no other, as RFC 6184 asks,
  provided the access unit has no empty NAL unit (two start codes in a row).
\<close>

lemma rtp_marker_on_last:
  assumes "nals \<noteq> []" and "\<forall>n \<in> set nals. clean_nal n \<and> n \<noteq> []"
    and "rtp_h264_packetize p (Some (annexb nals)) pts log_sink [] = (n, p', log)"
  shows "log \<noteq> [] \<and> (\<forall>i < length log. fst (snd (log ! i)) \<longleftrightarrow> i + 1 = length log)"
proof -
  have ne: "annexb nals \<noteq> []" using assms(1) by (cases nals) (auto simp: annexb_def)
  have sc: "map fst (nals_from (annexb nals) 0) = nals" using annexb_scan [of nals "[]"] assms(2) by simp
  then have "\<forall>x \<in> set (nals_from (annexb nals) 0). fst x \<noteq> []" "nals_from (annexb nals) 0 \<noteq> []"
    using assms(1,2) by (metis (no_types, lifting) image_eqI list.set_map, auto)
  then have last: "last_only (map snd (au_payloads (annexb nals) 0))" by (rule au_payloads_flags)
  let ?ps = "au_payloads (annexb nals) 0"
  have L: "log = wire (rtp_prepare p pts) (rtp_last_ts (rtp_prepare p pts)) ?ps"
    using packetize_log(3) [OF ne assms(3)] .
  have "?ps \<noteq> []" using last by auto
  moreover have "snd (?ps ! i) \<longleftrightarrow> i + 1 = length ?ps" if "i < length ?ps" for i
    using last_only_nth [OF last, of i] that by simp
  ultimately show ?thesis unfolding L by (simp add: wire_nth)
qed

lemma rtp_marker_on_last_witness:
  "let log = snd (snd (rtp_h264_packetize demo_rtp (Some (annexb [[0x67, 1], [0x65, 2, 3]])) 5 log_sink []))
   in log \<noteq> [] \<and> (\<forall>i < length log. fst (snd (log ! i)) \<longleftrightarrow> i + 1 = length log)"
  unfolding Let_def
  by (rule rtp_marker_on_last [OF _ _ packetize_triple]) (use demo_au(2) in \<open>auto simp: nal_ok_def\<close>)

text \<open>
  The lookahead for the marker stops at an empty NAL unit: when two start codes follow each
  other the packet before them gets the marker although another packet of the access unit follows.
\<close>

lemma rtp_marker_early_on_empty_nal:
  "map (\<lambda>w. fst (snd w)) (snd (snd (rtp_h264_packetize demo_rtp
     (Some (annexb [[0x67], [], [0x65]])) 0 log_sink []))) = [True, True]"
  by code_simp

text \<open>
  The first access unit of a stream has timestamp 0 and later ones are at 90 kHz from it: for
  every presentation time up to six years after the first one the timestamp is the elapsed time in
  units of 1/90000 s, rounded down, modulo \<open>2 ^ 32\<close>; a time before the first one gives 0.
\<close>

lemma rtp_clock_90khz:
  assumes "rtp_have_base p" and "unat pts - unat (rtp_base_pts p) < 200000000000000"
  shows "rtp_last_ts (rtp_prepare p pts) =
    of_nat ((unat pts - unat (rtp_base_pts p)) * 90000 div 1000000)"
proof (cases "rtp_base_pts p \<le> pts")
  case True
  have d: "unat (pts - rtp_base_pts p) = unat pts - unat (rtp_base_pts p)"
    using True by (simp add: unat_sub)
  have "unat (pts - rtp_base_pts p) * 90000 < 2 ^ 64" using assms(2) d by simp
  then have "unat ((pts - rtp_base_pts p) * 90000) = unat (pts - rtp_base_pts p) * 90000"
    using unat_mult_exact [of "pts - rtp_base_pts p" 90000] by simp
  then have "unat ((pts - rtp_base_pts p) * 90000 div 1000000) =
      (unat pts - unat (rtp_base_pts p)) * 90000 div 1000000"
    using d by (simp add: unat_div)
  moreover have "ucast w = (of_nat (unat w) :: u32)" for w :: u64 by simp
  ultimately have "ucast ((pts - rtp_base_pts p) * 90000 div 1000000) =
      (of_nat ((unat pts - unat (rtp_base_pts p)) * 90000 div 1000000) :: u32)" by metis
  with True assms(1) show ?thesis by (simp only: rtp_prepare_def rtp_timestamp_def Let_def) simp
next
  case False
  then have "unat pts - unat (rtp_base_pts p) = 0" by (simp add: word_le_nat_alt)
  with False assms(1) show ?thesis by (simp add: rtp_prepare_def rtp_timestamp_def Let_def)
qed

lemma rtp_clock_90khz_witness:
  "rtp_last_ts (rtp_prepare (demo_rtp\<lparr>rtp_have_base := True, rtp_base_pts := 1000000\<rparr>) 2000000) =
   of_nat ((unat (2000000 :: u64) - unat (1000000 :: u64)) * 90000 div 1000000)"
  using rtp_clock_90khz [of "demo_rtp\<lparr>rtp_have_base := True, rtp_base_pts := 1000000\<rparr>" 2000000] by simp

end
