(* ===== verification/Rtcp.thy ===== *)
theory Rtcp
  imports Prelude
begin

text \<open>
  The RTCP code of \<^verbatim>\<open>src/webrtc/rtcp.c\<close>: building sender reports and parsing the feedback of the
  browser. The parser reads the datagram through faulting reads, so that its memory safety is the
  theorem that the result is not \<open>None\<close>. The array \<open>nack_seq[128]\<close> with its fill count
  \<open>nack_seqs\<close> is one list; its length is the count.
\<close>

section \<open>Sender reports\<close>

definition RTCP_SR_SIZE :: nat where "RTCP_SR_SIZE = 28"

definition ntp_seconds :: "u64 \<Rightarrow> u64" where
  "ntp_seconds wall_us = wall_us div 1000000 + 2208988800"

definition ntp_fraction :: "u64 \<Rightarrow> u32" where
  "ntp_fraction wall_us = ucast (push_bit 32 (wall_us mod 1000000) div 1000000)"

definition rtcp_build_sender_report :: "bytes \<Rightarrow> u32 \<Rightarrow> u64 \<Rightarrow> u32 \<Rightarrow> u32 \<Rightarrow> u32 \<Rightarrow> (nat \<times> bytes) option" where
  "rtcp_build_sender_report out ssrc wall_us rtp_ts packet_count octet_count =
     do {
       b0 \<leftarrow> wr out 0 [0x80];
       b1 \<leftarrow> wr b0 1 [200];
       b2 \<leftarrow> write_be16 b1 2 6;
       b3 \<leftarrow> write_be32 b2 4 ssrc;
       b4 \<leftarrow> write_be32 b3 8 (ucast (ntp_seconds wall_us AND 0xFFFFFFFF));
       b5 \<leftarrow> write_be32 b4 12 (ntp_fraction wall_us);
       b6 \<leftarrow> write_be32 b5 16 rtp_ts;
       b7 \<leftarrow> write_be32 b6 20 packet_count;
       b8 \<leftarrow> write_be32 b7 24 octet_count;
       Some (RTCP_SR_SIZE, b8)
     }"

section \<open>Feedback\<close>

record rtcp_feedback =
  fb_pli :: int
  fb_fir :: int
  fb_bye :: bool
  fb_nack :: "u16 list"
  fb_has_rr :: bool
  fb_fraction_lost :: u8
  fb_jitter :: u32
  fb_highest_seq :: u32

definition no_feedback :: rtcp_feedback where
  "no_feedback = \<lparr>fb_pli = 0, fb_fir = 0, fb_bye = False, fb_nack = [], fb_has_rr = False,
     fb_fraction_lost = 0, fb_jitter = 0, fb_highest_seq = 0\<rparr>"

text \<open>The bitmask loop: bit \<open>b\<close> of the mask asks for \<open>pid + b + 1\<close>, as long as there is room.\<close>

function nack_bits :: "u16 \<Rightarrow> u16 \<Rightarrow> nat \<Rightarrow> u16 list \<Rightarrow> u16 list" where
  "nack_bits pid blp b seqs =
     (if b < 16 \<and> length seqs < 128 then
        nack_bits pid blp (b + 1) (if bit blp b then seqs @ [pid + of_nat b + 1] else seqs)
      else seqs)"
  by pat_completeness auto
termination by (relation "measure (\<lambda>(pid, blp, b, seqs). 16 - b)") auto

declare nack_bits.simps [simp del]

function nack_loop :: "bytes \<Rightarrow> nat \<Rightarrow> nat \<Rightarrow> u16 list \<Rightarrow> u16 list option" where
  "nack_loop buf limit i seqs =
     (if i + 4 \<le> limit \<and> length seqs < 128 then
        do {
          pid \<leftarrow> read_be16 buf i;
          blp \<leftarrow> read_be16 buf (i + 2);
          nack_loop buf limit (i + 4)
            (nack_bits pid blp 0 (if length seqs < 128 then seqs @ [pid] else seqs))
        }
      else Some seqs)"
  by pat_completeness auto
termination by (relation "measure (\<lambda>(buf, limit, i, seqs). limit - i)") auto

declare nack_loop.simps [simp del]

text \<open>One packet of the compound: the \<^verbatim>\<open>switch\<close> on the packet type.\<close>

definition rtcp_packet :: "bytes \<Rightarrow> nat \<Rightarrow> nat \<Rightarrow> u8 \<Rightarrow> u8 \<Rightarrow> rtcp_feedback \<Rightarrow> rtcp_feedback option" where
  "rtcp_packet buf offset packet_len count_or_fmt packet_type fb =
     (if packet_type = 205 then
        (if count_or_fmt = 1 then
           do {
             seqs \<leftarrow> nack_loop buf (offset + packet_len) (offset + 12) (fb_nack fb);
             Some (fb\<lparr>fb_nack := seqs\<rparr>)
           }
         else Some fb)
      else if packet_type = 201 then
        (if count_or_fmt \<ge> 1 \<and> packet_len \<ge> 8 + 24 then
           do {
             lost \<leftarrow> rd8 buf (offset + 12);
             high \<leftarrow> read_be32 buf (offset + 16);
             jit \<leftarrow> read_be32 buf (offset + 20);
             Some (fb\<lparr>fb_has_rr := True, fb_fraction_lost := lost, fb_highest_seq := high, fb_jitter := jit\<rparr>)
           }
         else Some fb)
      else if packet_type = 203 then Some (fb\<lparr>fb_bye := True\<rparr>)
      else if packet_type = 206 then
        (if count_or_fmt = 1 then Some (fb\<lparr>fb_pli := fb_pli fb + 1\<rparr>)
         else if count_or_fmt = 4 then Some (fb\<lparr>fb_fir := fb_fir fb + 1\<rparr>)
         else Some fb)
      else Some fb)"

function rtcp_walk :: "bytes \<Rightarrow> nat \<Rightarrow> nat \<Rightarrow> rtcp_feedback \<Rightarrow> rtcp_feedback option" where
  "rtcp_walk buf n offset fb =
     (if offset + 4 \<le> n then
        do {
          b0 \<leftarrow> rd8 buf offset;
          if drop_bit 6 b0 \<noteq> 2 then Some fb
          else do {
            packet_type \<leftarrow> rd8 buf (offset + 1);
            len \<leftarrow> read_be16 buf (offset + 2);
            let packet_len = (unat len + 1) * 4 in
            if offset + packet_len > n \<or> packet_len = 0 then Some fb
            else do {
              fb' \<leftarrow> rtcp_packet buf offset packet_len (b0 AND 0x1F) packet_type fb;
              rtcp_walk buf n (offset + packet_len) fb'
            }
          }
        }
      else Some fb)"
  by pat_completeness auto
termination by (relation "measure (\<lambda>(buf, n, offset, fb). n - offset)") auto

declare rtcp_walk.simps [simp del]

definition rtcp_parse :: "bytes \<Rightarrow> nat \<Rightarrow> rtcp_feedback option" where
  "rtcp_parse buf n = rtcp_walk buf n 0 no_feedback"

section \<open>Lemmas\<close>

lemma nack_bits_bound: "length seqs \<le> 128 \<Longrightarrow> length (nack_bits pid blp b seqs) \<le> 128"
  by (induction pid blp b seqs rule: nack_bits.induct) (subst nack_bits.simps, auto)

lemma nack_loop_step:
  assumes "i + 4 \<le> limit" "limit \<le> length buf" "length seqs < 128"
  shows "nack_loop buf limit i seqs =
    nack_loop buf limit (i + 4) (nack_bits (be16_at buf i) (be16_at buf (i + 2)) 0 (seqs @ [be16_at buf i]))"
  using assms by (subst nack_loop.simps) (simp add: be16_at_def)

lemma nack_loop_stop: "\<not> (i + 4 \<le> limit \<and> length seqs < 128) \<Longrightarrow> nack_loop buf limit i seqs = Some seqs"
  by (subst nack_loop.simps) (simp only: if_False)

lemma nack_loop_safe:
  "limit \<le> length buf \<Longrightarrow> length seqs \<le> 128 \<Longrightarrow>
   \<exists>seqs'. nack_loop buf limit i seqs = Some seqs' \<and> length seqs' \<le> 128"
proof (induction "limit - i" arbitrary: i seqs rule: less_induct)
  case less
  show ?case
  proof (cases "i + 4 \<le> limit \<and> length seqs < 128")
    case True
    then have "length (nack_bits (be16_at buf i) (be16_at buf (i + 2)) 0 (seqs @ [be16_at buf i])) \<le> 128"
      by (intro nack_bits_bound) simp
    moreover have "limit - (i + 4) < limit - i" using True by linarith
    ultimately show ?thesis using less.hyps [of "i + 4"] True less.prems by (simp add: nack_loop_step)
  next
    case False
    with less.prems show ?thesis by (simp add: nack_loop_stop)
  qed
qed

lemma rtcp_packet_safe:
  assumes "offset + packet_len \<le> length buf" "length (fb_nack fb) \<le> 128"
  shows "\<exists>fb'. rtcp_packet buf offset packet_len cf pt fb = Some fb' \<and> length (fb_nack fb') \<le> 128"
  using nack_loop_safe [OF assms, of "offset + 12"] assms by (auto simp: rtcp_packet_def)

text \<open>One round of the outer loop, once the reads are known to be inside the buffer.\<close>

definition packet_len_at :: "bytes \<Rightarrow> nat \<Rightarrow> nat" where
  "packet_len_at buf i = (unat (be16_at buf (i + 2)) + 1) * 4"

lemma rtcp_walk_step:
  assumes "offset + 4 \<le> n" "n \<le> length buf"
  shows "rtcp_walk buf n offset fb =
    (if drop_bit 6 (buf ! offset) \<noteq> 2 \<or> offset + packet_len_at buf offset > n then Some fb
     else Option.bind (rtcp_packet buf offset (packet_len_at buf offset) (buf ! offset AND 0x1F)
            (buf ! (offset + 1)) fb)
          (rtcp_walk buf n (offset + packet_len_at buf offset)))"
  using assms
  by (subst rtcp_walk.simps) (simp add: be16_at_def packet_len_at_def Let_def)

lemma rtcp_walk_stop: "\<not> offset + 4 \<le> n \<Longrightarrow> rtcp_walk buf n offset fb = Some fb"
  by (subst rtcp_walk.simps) simp

lemma rtcp_walk_safe:
  "n \<le> length buf \<Longrightarrow> length (fb_nack fb) \<le> 128 \<Longrightarrow>
   \<exists>fb'. rtcp_walk buf n offset fb = Some fb' \<and> length (fb_nack fb') \<le> 128"
proof (induction "n - offset" arbitrary: offset fb rule: less_induct)
  case less
  show ?case
  proof (cases "offset + 4 \<le> n \<and> drop_bit 6 (buf ! offset) = 2 \<and> offset + packet_len_at buf offset \<le> n")
    case True
    then have len: "offset + packet_len_at buf offset \<le> length buf" "0 < packet_len_at buf offset"
      using less.prems(1) by (auto simp: packet_len_at_def)
    from rtcp_packet_safe [OF len(1) less.prems(2)] obtain fb' where
      "rtcp_packet buf offset (packet_len_at buf offset) (buf ! offset AND 0x1F) (buf ! (offset + 1)) fb = Some fb'"
      "length (fb_nack fb') \<le> 128" by blast
    moreover have "n - (offset + packet_len_at buf offset) < n - offset" using True len(2) by arith
    ultimately show ?thesis
      using less.hyps [of "offset + packet_len_at buf offset" fb'] True less.prems(1) by (simp add: rtcp_walk_step)
  next
    case False
    with less.prems show ?thesis by (cases "offset + 4 \<le> n") (auto simp: rtcp_walk_step rtcp_walk_stop)
  qed
qed

text \<open>Parsing looks at nothing but the first \<open>n\<close> bytes.\<close>

lemma nack_loop_prefix:
  "limit \<le> n \<Longrightarrow> n \<le> length b \<Longrightarrow> nack_loop (take n b) limit i seqs = nack_loop b limit i seqs"
proof (induction "limit - i" arbitrary: i seqs rule: less_induct)
  case less
  show ?case
  proof (cases "i + 4 \<le> limit \<and> length seqs < 128")
    case True
    then have "limit - (i + 4) < limit - i" by linarith
    then show ?thesis using less.hyps [of "i + 4"] True less.prems by (simp add: nack_loop_step be16_at_def)
  next
    case False
    then show ?thesis by (simp add: nack_loop_stop)
  qed
qed

lemma rtcp_packet_prefix:
  assumes "offset + packet_len \<le> n" "n \<le> length b"
  shows "rtcp_packet (take n b) offset packet_len cf pt fb = rtcp_packet b offset packet_len cf pt fb"
  using nack_loop_prefix [OF assms] assms by (simp add: rtcp_packet_def)

lemma rtcp_walk_prefix: "n \<le> length b \<Longrightarrow> rtcp_walk (take n b) n offset fb = rtcp_walk b n offset fb"
proof (induction "n - offset" arbitrary: offset fb rule: less_induct)
  case less
  show ?case
  proof (cases "offset + 4 \<le> n")
    case True
    have len: "packet_len_at (take n b) offset = packet_len_at b offset" "0 < packet_len_at b offset"
      using True by (simp_all add: packet_len_at_def be16_at_def)
    have IH: "rtcp_walk (take n b) n (offset + packet_len_at b offset) = rtcp_walk b n (offset + packet_len_at b offset)"
      using less.hyps [of "offset + packet_len_at b offset"] less.prems True len(2) by (intro ext) simp
    have "rtcp_packet (take n b) offset (packet_len_at b offset) (b ! offset AND 0x1F) (b ! (offset + 1)) fb =
        rtcp_packet b offset (packet_len_at b offset) (b ! offset AND 0x1F) (b ! (offset + 1)) fb"
      if "offset + packet_len_at b offset \<le> n" using rtcp_packet_prefix [OF that less.prems] .
    then show ?thesis
      using True less.prems len(1) IH by (cases "offset + packet_len_at b offset \<le> n") (simp_all add: rtcp_walk_step)
  next
    case False
    then show ?thesis by (simp add: rtcp_walk_stop)
  qed
qed

lemma rtcp_parse_prefix: "n \<le> length b \<Longrightarrow> rtcp_parse b n = rtcp_parse (take n b) n"
  by (simp add: rtcp_parse_def rtcp_walk_prefix)

section \<open>What a NACK asks for\<close>

text \<open>
  The sequence numbers RFC 4585 gives to one entry: the packet id, then the ones of the sixteen that
  follow it whose bit is set. And the bytes of a generic NACK packet.
\<close>

definition fci_seqs :: "u16 \<times> u16 \<Rightarrow> u16 list" where
  "fci_seqs e = fst e # map (\<lambda>j. fst e + of_nat j + 1) (filter (bit (snd e)) [0..<16])"

definition fci_bytes :: "(u16 \<times> u16) list \<Rightarrow> bytes" where
  "fci_bytes es = concat (map (\<lambda>e. be16 (fst e) @ be16 (snd e)) es)"

definition nack_packet :: "u32 \<Rightarrow> u32 \<Rightarrow> (u16 \<times> u16) list \<Rightarrow> bytes" where
  "nack_packet sender media es =
     [0x81, 205] @ be16 (of_nat (length es + 2)) @ be32 sender @ be32 media @ fci_bytes es"

lemma fci_bytes_length [simp]: "length (fci_bytes es) = 4 * length es"
  by (induction es) (auto simp: fci_bytes_def)

lemma nack_bits_eq:
  "length seqs \<le> 128 \<Longrightarrow> b \<le> 16 \<Longrightarrow>
   nack_bits pid m b seqs = take 128 (seqs @ map (\<lambda>j. pid + of_nat j + 1) (filter (bit m) [b..<16]))"
proof (induction "16 - b" arbitrary: b seqs)
  case 0
  then show ?case by (subst nack_bits.simps) simp
next
  case (Suc n)
  then have b: "b < 16" "[b..<16] = b # [b + 1..<16]" "n = 16 - (b + 1)" by (auto simp: upt_conv_Cons)
  show ?case
  proof (cases "length seqs < 128")
    case True
    let ?s = "if bit m b then seqs @ [pid + of_nat b + 1] else seqs"
    have "nack_bits pid m b seqs = nack_bits pid m (b + 1) ?s" using True b(1) by (subst nack_bits.simps) simp
    also have "\<dots> = take 128 (?s @ map (\<lambda>j. pid + of_nat j + 1) (filter (bit m) [b + 1..<16]))"
      by (rule Suc.hyps(1) [OF b(3)]) (use True b in auto)
    finally show ?thesis by (cases "bit m b") (simp_all add: b(1,2) del: take_append)
  next
    case False
    then show ?thesis using Suc.prems by (subst nack_bits.simps) simp
  qed
qed

lemma nack_entry:
  assumes "length seqs < 128"
  shows "nack_bits pid m 0 (seqs @ [pid]) = take 128 (seqs @ fci_seqs (pid, m))"
  using assms by (subst nack_bits_eq) (auto simp: fci_seqs_def)

lemma take_more: "take 128 (take 128 (xs @ ys) @ zs) = take 128 (xs @ ys @ zs)"
  by (cases "128 \<le> length (xs @ ys)") (auto simp: min_def)

lemma nack_loop_eq:
  "length seqs \<le> 128 \<Longrightarrow> i + 4 * length es \<le> length buf \<Longrightarrow>
   take (4 * length es) (drop i buf) = fci_bytes es \<Longrightarrow>
   nack_loop buf (i + 4 * length es) i seqs = Some (take 128 (seqs @ concat (map fci_seqs es)))"
proof (induction es arbitrary: i seqs)
  case Nil
  then show ?case by (subst nack_loop_stop) auto
next
  case (Cons e es)
  obtain pid m where e: "e = (pid, m)" by (cases e)
  have all: "take 4 (drop i buf) @ take (4 * length es) (drop (i + 4) buf) = be16 pid @ be16 m @ fci_bytes es"
    using Cons.prems(3) by (simp add: fci_bytes_def e take_add add.commute)
  then have h: "take 4 (drop i buf) = be16 pid @ be16 m" and t: "take (4 * length es) (drop (i + 4) buf) = fci_bytes es"
    using Cons.prems(2) append_eq_append_conv [of "take 4 (drop i buf)" "be16 pid @ be16 m"] by auto
  have p: "be16_at buf i = pid" "be16_at buf (i + 2) = m"
    using nth_of_take_drop [OF h, of 0] nth_of_take_drop [OF h, of 1] nth_of_take_drop [OF h, of 2]
      nth_of_take_drop [OF h, of 3] Cons.prems(2)
    by (simp_all add: be16_at_def be16_def of_be16_be16 numeral_3_eq_3 numeral_2_eq_2)
  show ?case
  proof (cases "length seqs < 128")
    case True
    have "nack_loop buf (i + 4 * length (e # es)) i seqs =
        nack_loop buf (i + 4 + 4 * length es) (i + 4) (take 128 (seqs @ fci_seqs (pid, m)))"
      using True Cons.prems(2) by (subst nack_loop_step) (auto simp: p [simplified] nack_entry add.assoc)
    also have "\<dots> = Some (take 128 (take 128 (seqs @ fci_seqs (pid, m)) @ concat (map fci_seqs es)))"
      by (rule Cons.IH) (use Cons.prems t in auto)
    finally show ?thesis by (simp only: take_more e) simp
  next
    case False
    then show ?thesis using Cons.prems(1) by (subst nack_loop_stop) auto
  qed
qed

section \<open>Properties\<close>

text \<open>
  Whatever bytes arrive, parsing them reads only inside the datagram, ends, and collects at most
  128 sequence numbers, the size of the array that holds them.
\<close>

lemma rtcp_parse_safe:
  assumes "n \<le> length buf"
  shows "\<exists>fb. rtcp_parse buf n = Some fb \<and> length (fb_nack fb) \<le> 128"
  unfolding rtcp_parse_def by (rule rtcp_walk_safe [OF assms]) (simp add: no_feedback_def)

lemma rtcp_parse_safe_witness: "\<exists>fb. rtcp_parse [0x81, 205, 0, 9, 1] 4 = Some fb \<and> length (fb_nack fb) \<le> 128"
  by (rule rtcp_parse_safe) simp

text \<open>
  A generic NACK is decoded as RFC 4585 defines it: the packet id of every entry and the
  sequence numbers of its bitmask, in order, cut at 128; nothing else is reported.
\<close>

lemma rtcp_nack_decoded:
  assumes "length es < 65000"
  shows "rtcp_parse (nack_packet sender media es) (length (nack_packet sender media es)) =
    Some (no_feedback\<lparr>fb_nack := take 128 (concat (map fci_seqs es))\<rparr>)"
proof -
  let ?p = "nack_packet sender media es"
  have len: "length ?p = 12 + 4 * length es" by (simp add: nack_packet_def)
  have "unat (of_nat (length es + 2) :: u16) = length es + 2"
    using assms by (intro unat_u16) simp
  then have pl: "packet_len_at ?p 0 = 12 + 4 * length es"
    by (simp add: packet_len_at_def be16_at_def nack_packet_def be16_def of_be16_be16 numeral_2_eq_2 del: of_nat_add)
  have b: "?p ! 0 = 0x81" "?p ! 1 = 205" by (simp_all add: nack_packet_def)
  have c: "drop_bit 6 (0x81 :: u8) = 2" "(0x81 :: u8) AND 0x1F = 1" by code_simp+
  have "take (4 * length es) (drop 12 ?p) = fci_bytes es" by (simp add: nack_packet_def be16_def be32_def)
  then have "nack_loop ?p (12 + 4 * length es) 12 [] = Some (take 128 ([] @ concat (map fci_seqs es)))"
    by (intro nack_loop_eq) (simp_all add: len)
  then have pk: "rtcp_packet ?p 0 (12 + 4 * length es) 1 205 no_feedback =
      Some (no_feedback\<lparr>fb_nack := take 128 (concat (map fci_seqs es))\<rparr>)"
    by (simp add: rtcp_packet_def no_feedback_def)
  show ?thesis
    unfolding rtcp_parse_def
    by (subst rtcp_walk_step) (simp_all add: len pl b [simplified] c pk rtcp_walk_stop)
qed

lemma rtcp_nack_decoded_witness:
  "rtcp_parse (nack_packet 1 2 [(65535, 3)]) (length (nack_packet 1 2 [(65535, 3)])) =
   Some (no_feedback\<lparr>fb_nack := [65535, 0, 1]\<rparr>)"
proof -
  have "fci_seqs (65535, 3) = [65535, 0, 1]" by code_simp
  then show ?thesis using rtcp_nack_decoded [of "[(65535, 3)]" 1 2] by simp
qed

text \<open>
  A sender report fills exactly the first 28 bytes of the buffer: version 2 without report
  blocks, packet type 200, length 6 words, then the SSRC, the NTP time, the RTP time and the two
  counters, each big-endian; the rest of the buffer is untouched.
\<close>

lemma sender_report_layout:
  assumes "28 \<le> length out"
  shows "rtcp_build_sender_report out ssrc wall_us rtp_ts packets octets = Some (28,
    [0x80, 200] @ be16 6 @ be32 ssrc @ be32 (ucast (ntp_seconds wall_us AND 0xFFFFFFFF)) @
    be32 (ntp_fraction wall_us) @ be32 rtp_ts @ be32 packets @ be32 octets @ drop 28 out)"
  unfolding rtcp_build_sender_report_def write_be16_def write_be32_def RTCP_SR_SIZE_def
  using assms by (simp add: wr_def be16_def be32_def le_diff_conv2)

lemma sender_report_layout_witness:
  "rtcp_build_sender_report (replicate 32 7) 1 0 2 3 4 = Some (28,
    [0x80, 200] @ be16 6 @ be32 1 @ be32 (ucast (ntp_seconds 0 AND 0xFFFFFFFF)) @
    be32 (ntp_fraction 0) @ be32 2 @ be32 3 @ be32 4 @ drop 28 (replicate 32 7))"
  by (rule sender_report_layout) simp

end
