(* ===== verification/Ice_Lite.thy ===== *)
theory Ice_Lite
  imports Prelude
begin

text \<open>
  The ICE-lite transport helpers of \<^verbatim>\<open>src/webrtc/ice_lite.c\<close>: the RFC 7983 demultiplexer, the STUN
  attribute walk, the checks of a binding request (username and MESSAGE-INTEGRITY) and the two
  responses. Parsing and building go through faulting reads and writes.

  HMAC-SHA1 is OpenSSL's and a parameter: \<open>hmac key data\<close> is the MAC, or \<open>None\<close> when the call fails.
  \<open>junk\<close> is what the uninitialised MAC buffer on the stack holds. Strings are their bytes without the
  terminating zero. \<^verbatim>\<open>udp_socket_create\<close> is in \<open>Rtc_Resources\<close>.
\<close>

definition STUN_HEADER_SIZE :: nat where "STUN_HEADER_SIZE = 20"
definition STUN_MAGIC_COOKIE :: u32 where "STUN_MAGIC_COOKIE = 0x2112A442"

section \<open>Demultiplexing\<close>

datatype rtc_packet_class = RTC_PKT_STUN | RTC_PKT_DTLS | RTC_PKT_RTP | RTC_PKT_OTHER

definition rtc_classify_packet :: "bytes \<Rightarrow> nat \<Rightarrow> rtc_packet_class option" where
  "rtc_classify_packet buf n =
     (if n < 1 then Some RTC_PKT_OTHER
      else do {
        b \<leftarrow> rd8 buf 0;
        Some (if b \<le> 3 then RTC_PKT_STUN
              else if b \<ge> 20 \<and> b \<le> 63 then RTC_PKT_DTLS
              else if b \<ge> 128 then RTC_PKT_RTP
              else RTC_PKT_OTHER)
      })"

section \<open>CRC-32\<close>

definition crc_step :: "u32 \<Rightarrow> u32" where
  "crc_step crc = (if crc AND 1 \<noteq> 0 then drop_bit 1 crc XOR 0xEDB88320 else drop_bit 1 crc)"

definition crc32_table :: "u32 list" where
  "crc32_table = map (\<lambda>i. (crc_step ^^ 8) (of_nat i)) [0..<256]"

definition crc32_stun :: "bytes \<Rightarrow> u32" where
  "crc32_stun data =
     foldl (\<lambda>crc b. (crc32_table ! unat ((crc XOR ucast b) AND 0xFF)) XOR drop_bit 8 crc) 0xFFFFFFFF data
     XOR 0xFFFFFFFF"

section \<open>Attributes\<close>

definition pad4 :: "nat \<Rightarrow> nat" where
  "pad4 n = (n + 3) div 4 * 4"

text \<open>
  The walk over the attributes: \<open>Some None\<close> is the return value 0, \<open>Some (Some (value, len))\<close> the
  offset and length of the attribute's value, \<open>None\<close> a read outside the buffer.
\<close>

function stun_walk :: "bytes \<Rightarrow> nat \<Rightarrow> u16 \<Rightarrow> nat \<Rightarrow> (nat \<times> nat) option option" where
  "stun_walk buf stop wanted offset =
     (if offset + 4 \<le> stop then
        do {
          type \<leftarrow> read_be16 buf offset;
          attr_len \<leftarrow> read_be16 buf (offset + 2);
          if offset + 4 + unat attr_len > stop then Some None
          else if type = wanted then Some (Some (offset + 4, unat attr_len))
          else stun_walk buf stop wanted (offset + (4 + pad4 (unat attr_len)))
        }
      else Some None)"
  by pat_completeness auto
termination by (relation "measure (\<lambda>(buf, stop, wanted, offset). stop - offset)") auto

declare stun_walk.simps [simp del]

definition stun_find_attribute :: "bytes \<Rightarrow> nat \<Rightarrow> u16 \<Rightarrow> (nat \<times> nat) option option" where
  "stun_find_attribute buf n wanted =
     (if n < STUN_HEADER_SIZE then Some None
      else do {
        message_len \<leftarrow> read_be16 buf 2;
        if unat message_len + STUN_HEADER_SIZE > n then Some None
        else stun_walk buf (STUN_HEADER_SIZE + unat message_len) wanted STUN_HEADER_SIZE
      })"

text \<open>The transaction id, or \<open>None\<close> inside when the datagram is not a binding request.\<close>

definition stun_is_binding_request :: "bytes \<Rightarrow> nat \<Rightarrow> bytes option option" where
  "stun_is_binding_request buf n =
     (if n < STUN_HEADER_SIZE then Some None
      else do {
        type \<leftarrow> read_be16 buf 0;
        message_len \<leftarrow> read_be16 buf 2;
        cookie \<leftarrow> read_be32 buf 4;
        if type \<noteq> 1 then Some None
        else if cookie \<noteq> STUN_MAGIC_COOKIE then Some None
        else if unat message_len + STUN_HEADER_SIZE > n then Some None
        else do { tid \<leftarrow> rdn buf 8 12; Some (Some tid) }
      })"

definition stun_copy_username :: "bytes \<Rightarrow> nat \<Rightarrow> bytes \<Rightarrow> nat \<Rightarrow> (int \<times> bytes) option" where
  "stun_copy_username buf n out out_size =
     (if out_size = 0 then Some (- 1, out)
      else do {
        out0 \<leftarrow> wr out 0 [0];
        found \<leftarrow> stun_find_attribute buf n 6;
        case found of
          None \<Rightarrow> Some (- 1, out0)
        | Some (off, l) \<Rightarrow>
            do {
              let m = (if l \<ge> out_size then out_size - 1 else l);
              name \<leftarrow> rdn buf off m;
              out1 \<leftarrow> wr out0 0 name;
              out2 \<leftarrow> wr out1 m [0];
              Some (0, out2)
            }
      })"

text \<open>\<open>58\<close> is the colon. The second test is the one a browser's check passes: our name comes last.\<close>

definition username_ok :: "bytes \<Rightarrow> bytes \<Rightarrow> bool" where
  "username_ok username local_ufrag =
     ((length username > length local_ufrag \<and> username ! length local_ufrag = 58 \<and>
       take (length local_ufrag) username = local_ufrag) \<or>
      (case dropWhile (\<lambda>c. c \<noteq> 58) username of [] \<Rightarrow> False | _ # second \<Rightarrow> second = local_ufrag))"

definition stun_username_matches :: "bytes \<Rightarrow> nat \<Rightarrow> bytes \<Rightarrow> bool option" where
  "stun_username_matches buf n local_ufrag =
     (if local_ufrag = [] then Some False
      else do {
        found \<leftarrow> stun_find_attribute buf n 6;
        case found of
          None \<Rightarrow> Some False
        | Some (off, l) \<Rightarrow> do { username \<leftarrow> rdn buf off l; Some (username_ok username local_ufrag) }
      })"

section \<open>Message integrity\<close>

definition stun_verify_mi :: "bool \<Rightarrow> (bytes \<Rightarrow> bytes \<Rightarrow> bytes option) \<Rightarrow> bytes \<Rightarrow> nat \<Rightarrow> bytes \<Rightarrow> bool option" where
  "stun_verify_mi alloc_ok hmac buf n password =
     (if password = [] \<or> n < STUN_HEADER_SIZE + 24 then Some False
      else do {
        found \<leftarrow> stun_find_attribute buf n 8;
        case found of
          None \<Rightarrow> Some False
        | Some (off, l) \<Rightarrow>
            let mi_header = off - 4 in
            if l \<noteq> 20 then Some False
            else if mi_header < STUN_HEADER_SIZE \<or> mi_header + 24 > n then Some False
            else if \<not> alloc_ok then Some False
            else do {
              mi \<leftarrow> rdn buf off 20;
              copy \<leftarrow> rdn buf 0 mi_header;
              scratch \<leftarrow> write_be16 copy 2 (of_nat (mi_header + 24 - STUN_HEADER_SIZE));
              case hmac password scratch of
                None \<Rightarrow> Some False
              | Some mac \<Rightarrow> Some (length mac = 20 \<and> mac = mi)
            }
      })"

section \<open>Responses\<close>

datatype peer_addr = Inet u32 u16 | Inet6 bytes u16

definition put_header :: "bytes \<Rightarrow> bytes \<Rightarrow> bytes option" where
  "put_header request out =
     do {
       b \<leftarrow> wr out 0 [0x01, 0x01];
       r \<leftarrow> rdn request 4 16;
       wr b 4 r
     }"

text \<open>
  XOR-MAPPED-ADDRESS at the end of the header. Both branches are counted as eight bytes of value,
  although the IPv6 branch writes twenty.
\<close>

definition put_xor_mapped :: "bytes \<Rightarrow> peer_addr \<Rightarrow> bytes \<Rightarrow> bytes option" where
  "put_xor_mapped request peer out =
     do {
       let attr = STUN_HEADER_SIZE;
       b1 \<leftarrow> write_be16 out attr 0x0020;
       b2 \<leftarrow> write_be16 b1 (attr + 2) 8;
       b3 \<leftarrow> wr b2 (attr + 4) [0];
       case peer of
         Inet6 addr port \<Rightarrow>
           do {
             b4 \<leftarrow> wr b3 (attr + 5) [0x02];
             b5 \<leftarrow> write_be16 b4 (attr + 6) (port XOR 0x2112);
             tid \<leftarrow> rdn request 8 12;
             wr b5 (attr + 8) (map2 (XOR) addr ([0x21, 0x12, 0xA4, 0x42] @ tid))
           }
       | Inet addr port \<Rightarrow>
           do {
             b4 \<leftarrow> wr b3 (attr + 5) [0x01];
             b5 \<leftarrow> write_be16 b4 (attr + 6) (port XOR 0x2112);
             write_be32 b5 (attr + 8) (addr XOR STUN_MAGIC_COOKIE)
           }
     }"

definition mac_buffer :: "bytes option \<Rightarrow> bytes \<Rightarrow> bytes" where
  "mac_buffer m junk = (case m of None \<Rightarrow> junk | Some mac \<Rightarrow> mac @ drop (length mac) junk)"

definition put_integrity :: "(bytes \<Rightarrow> bytes \<Rightarrow> bytes option) \<Rightarrow> bytes \<Rightarrow> bytes \<Rightarrow> nat \<Rightarrow> bytes \<Rightarrow> bytes option" where
  "put_integrity hmac junk pwd payload out =
     do {
       let attr = STUN_HEADER_SIZE + payload;
       b1 \<leftarrow> write_be16 out attr 0x0008;
       b2 \<leftarrow> write_be16 b1 (attr + 2) 20;
       b3 \<leftarrow> write_be16 b2 2 (of_nat (payload + 24));
       covered \<leftarrow> rdn b3 0 (STUN_HEADER_SIZE + payload);
       mac \<leftarrow> rdn (mac_buffer (hmac pwd covered) junk) 0 20;
       wr b3 (attr + 4) mac
     }"

definition put_fingerprint :: "nat \<Rightarrow> bytes \<Rightarrow> bytes option" where
  "put_fingerprint payload out =
     do {
       let attr = STUN_HEADER_SIZE + payload;
       b1 \<leftarrow> write_be16 out attr 0x8028;
       b2 \<leftarrow> write_be16 b1 (attr + 2) 4;
       b3 \<leftarrow> write_be16 b2 2 (of_nat (payload + 8));
       covered \<leftarrow> rdn b3 0 (STUN_HEADER_SIZE + payload);
       write_be32 b3 (attr + 4) (crc32_stun covered XOR 0x5354554E)
     }"

definition stun_build_binding_response :: "(bytes \<Rightarrow> bytes \<Rightarrow> bytes option) \<Rightarrow> bytes \<Rightarrow> bytes \<Rightarrow> bytes \<Rightarrow>
    nat \<Rightarrow> peer_addr \<Rightarrow> bytes \<Rightarrow> nat \<Rightarrow> (int \<times> bytes \<times> nat) option" where
  "stun_build_binding_response hmac junk pwd request request_len peer out cap =
     (if request_len < STUN_HEADER_SIZE \<or> cap < 128 then Some (- 1, out, 0)
      else do {
        b0 \<leftarrow> put_header request out;
        b1 \<leftarrow> put_xor_mapped request peer b0;
        b2 \<leftarrow> put_integrity hmac junk pwd 12 b1;
        b3 \<leftarrow> put_fingerprint 36 b2;
        Some (0, b3, STUN_HEADER_SIZE + 44)
      })"

text \<open>\<open>[99, 97, ...]\<close> is \<^verbatim>\<open>"camstream"\<close>.\<close>

definition stun_build_error_response :: "bytes option \<Rightarrow> u16 \<Rightarrow> bytes \<Rightarrow> nat \<Rightarrow> (int \<times> bytes \<times> nat) option" where
  "stun_build_error_response tid error_code out cap =
     (if cap < 44 then Some (- 1, out, 0)
      else do {
        b0 \<leftarrow> wr out 0 (replicate 44 0);
        b1 \<leftarrow> wr b0 0 [0x01, 0x11];
        b2 \<leftarrow> wr b1 4 [0x21, 0x12, 0xA4, 0x42];
        b3 \<leftarrow> (case tid of None \<Rightarrow> Some b2 | Some t \<Rightarrow> wr b2 8 t);
        let sw = [99, 97, 109, 115, 116, 114, 101, 97, 109];
        b4 \<leftarrow> write_be16 b3 20 0x8022;
        b5 \<leftarrow> write_be16 b4 22 (of_nat (length sw));
        b6 \<leftarrow> wr b5 24 sw;
        let payload = 4 + pad4 (length sw);
        let attr = STUN_HEADER_SIZE + payload;
        b7 \<leftarrow> write_be16 b6 attr 0x0009;
        b8 \<leftarrow> write_be16 b7 (attr + 2) 8;
        b9 \<leftarrow> wr b8 (attr + 4) [0];
        b10 \<leftarrow> wr b9 (attr + 5) [ucast (error_code div 100)];
        b11 \<leftarrow> write_be16 b10 (attr + 6) (error_code mod 100);
        b12 \<leftarrow> write_be16 b11 2 (of_nat (payload + 12));
        Some (0, b12, STUN_HEADER_SIZE + (payload + 12))
      })"

section \<open>The CRC table\<close>

text \<open>The bit-by-bit CRC-32 (reflected polynomial \<open>EDB88320\<close>) that the table speeds up.\<close>

definition crc32_ref :: "bytes \<Rightarrow> u32" where
  "crc32_ref data = foldl (\<lambda>crc b. (crc_step ^^ 8) (crc XOR ucast b)) 0xFFFFFFFF data XOR 0xFFFFFFFF"

lemma low_bit: "(x AND 1 \<noteq> 0) \<longleftrightarrow> bit (x :: u32) 0"
  by (simp add: and_one_eq mod_2_eq_odd bit_0)

lemma crc_step_xor: "crc_step (a XOR b) = crc_step a XOR crc_step b"
  unfolding crc_step_def low_bit by (rule bit_word_eqI) (auto simp: bit_simps)

lemma crc_steps_xor: "(crc_step ^^ k) (a XOR b) = (crc_step ^^ k) a XOR (crc_step ^^ k) b"
  by (induction k) (simp_all add: crc_step_xor)

lemma crc_steps_shift: "(\<And>i. i < k \<Longrightarrow> \<not> bit x i) \<Longrightarrow> (crc_step ^^ k) x = drop_bit k x"
proof (induction k)
  case (Suc k)
  then have "(crc_step ^^ k) x = drop_bit k x" by simp
  moreover have "\<not> bit (drop_bit k x) 0" using Suc.prems [of k] by (simp add: bit_drop_bit_eq)
  ultimately have "crc_step ((crc_step ^^ k) x) = drop_bit 1 (drop_bit k x)"
    by (simp only: crc_step_def low_bit if_False)
  then show ?case by (simp add: drop_bit_drop_bit add.commute)
qed simp

lemma and_255: "x AND 0xFF = take_bit 8 (x :: u32)"
  by (simp add: take_bit_eq_mask mask_eq_exp_minus_1)

lemma table_entry: "crc32_table ! unat (x AND 0xFF) = (crc_step ^^ 8) (take_bit 8 x)"
proof -
  have "unat (take_bit 8 x) < 256"
    unfolding unsigned_take_bit_eq using take_bit_nat_less_exp [of 8 "unat x"] by simp
  then show ?thesis by (simp add: crc32_table_def and_255)
qed

lemma crc_byte:
  "(crc32_table ! unat ((crc XOR ucast b) AND 0xFF)) XOR drop_bit 8 crc = (crc_step ^^ 8) (crc XOR ucast (b :: u8))"
proof -
  let ?x = "crc XOR ucast b"
  have x: "?x = take_bit 8 ?x XOR push_bit 8 (drop_bit 8 ?x)"
  proof (rule bit_word_eqI)
    fix n assume n: "n < LENGTH(32)"
    show "bit ?x n = bit (take_bit 8 ?x XOR push_bit 8 (drop_bit 8 ?x)) n"
    proof (cases "n < 8")
      case False
      then have "8 + (n - 8) = n" by simp
      with False n show ?thesis by (simp add: bit_simps)
    qed (use n in \<open>simp add: bit_simps\<close>)
  qed
  have "drop_bit 8 (push_bit 8 (drop_bit 8 ?x)) = drop_bit 8 crc"
    by (rule bit_word_eqI) (auto simp: bit_simps dest: bit_imp_le_length)
  moreover have "(crc_step ^^ 8) (push_bit 8 (drop_bit 8 ?x)) = drop_bit 8 (push_bit 8 (drop_bit 8 ?x))"
    by (rule crc_steps_shift) (simp add: bit_simps)
  ultimately have "(crc_step ^^ 8) ?x = (crc_step ^^ 8) (take_bit 8 ?x) XOR drop_bit 8 crc"
    using crc_steps_xor [of 8 "take_bit 8 ?x" "push_bit 8 (drop_bit 8 ?x)"] x by metis
  then show ?thesis by (simp add: table_entry)
qed

section \<open>The attribute walk\<close>

lemma stun_walk_step:
  assumes "offset + 4 \<le> stop" "stop \<le> length buf"
  shows "stun_walk buf stop wanted offset =
    (if offset + 4 + unat (be16_at buf (offset + 2)) > stop then Some None
     else if be16_at buf offset = wanted then Some (Some (offset + 4, unat (be16_at buf (offset + 2))))
     else stun_walk buf stop wanted (offset + (4 + pad4 (unat (be16_at buf (offset + 2))))))"
  using assms by (subst stun_walk.simps) (simp add: be16_at_def)

lemma stun_walk_stop: "\<not> offset + 4 \<le> stop \<Longrightarrow> stun_walk buf stop wanted offset = Some None"
  by (subst stun_walk.simps) simp

text \<open>What a successful search gives: an attribute of the type asked for, inside the message.\<close>

definition attr_inside :: "bytes \<Rightarrow> nat \<Rightarrow> u16 \<Rightarrow> nat \<Rightarrow> nat \<Rightarrow> bool" where
  "attr_inside buf stop wanted off l \<longleftrightarrow> STUN_HEADER_SIZE + 4 \<le> off \<and> off + l \<le> stop \<and>
     be16_at buf (off - 4) = wanted \<and> l = unat (be16_at buf (off - 2))"

lemma stun_walk_safe:
  "STUN_HEADER_SIZE \<le> offset \<Longrightarrow> stop \<le> length buf \<Longrightarrow>
   \<exists>r. stun_walk buf stop wanted offset = Some r \<and>
     (\<forall>off l. r = Some (off, l) \<longrightarrow> attr_inside buf stop wanted off l)"
proof (induction "stop - offset" arbitrary: offset rule: less_induct)
  case less
  show ?case
  proof (cases "offset + 4 \<le> stop")
    case True
    let ?next = "offset + (4 + pad4 (unat (be16_at buf (offset + 2))))"
    have "stop - ?next < stop - offset" using True by arith
    from less.hyps [OF this _ less.prems(2)] less.prems(1) True show ?thesis
      by (simp add: stun_walk_step [OF True less.prems(2)] attr_inside_def)
  qed (simp add: stun_walk_stop)
qed

lemma stun_find_safe:
  assumes "n \<le> length buf"
  shows "\<exists>r. stun_find_attribute buf n wanted = Some r \<and>
    (\<forall>off l. r = Some (off, l) \<longrightarrow> attr_inside buf n wanted off l)"
proof (cases "n < STUN_HEADER_SIZE")
  case False
  then have r: "read_be16 buf 2 = Some (be16_at buf 2)"
    using assms by (simp add: be16_at_def STUN_HEADER_SIZE_def)
  let ?m = "unat (be16_at buf 2)"
  show ?thesis
  proof (cases "?m + STUN_HEADER_SIZE > n")
    case True
    then show ?thesis using False r by (simp add: stun_find_attribute_def)
  next
    case inside: False
    then have "STUN_HEADER_SIZE + ?m \<le> length buf" using assms by simp
    from stun_walk_safe [OF order_refl this, of wanted] obtain res where
      w: "stun_walk buf (STUN_HEADER_SIZE + ?m) wanted STUN_HEADER_SIZE = Some res"
      "\<forall>off l. res = Some (off, l) \<longrightarrow> attr_inside buf (STUN_HEADER_SIZE + ?m) wanted off l" by blast
    then show ?thesis using False inside r by (auto simp: stun_find_attribute_def attr_inside_def)
  qed
qed (simp add: stun_find_attribute_def)

text \<open>Messages as RFC 5389 writes them: each attribute padded to a multiple of four bytes.\<close>

definition attr_bytes :: "u16 \<times> bytes \<Rightarrow> bytes" where
  "attr_bytes a = be16 (fst a) @ be16 (of_nat (length (snd a))) @ snd a @
     replicate (pad4 (length (snd a)) - length (snd a)) 0"

definition attrs_bytes :: "(u16 \<times> bytes) list \<Rightarrow> bytes" where
  "attrs_bytes as = concat (map attr_bytes as)"

definition stun_message :: "u16 \<Rightarrow> bytes \<Rightarrow> (u16 \<times> bytes) list \<Rightarrow> bytes" where
  "stun_message type ct as = be16 type @ be16 (of_nat (length (attrs_bytes as))) @ ct @ attrs_bytes as"

fun find_attr :: "(u16 \<times> bytes) list \<Rightarrow> u16 \<Rightarrow> nat \<Rightarrow> (nat \<times> nat) option" where
  "find_attr [] wanted offset = None"
| "find_attr (a # as) wanted offset =
     (if fst a = wanted then Some (offset + 4, length (snd a))
      else find_attr as wanted (offset + length (attr_bytes a)))"

lemma pad4_ge: "n \<le> pad4 n"
  unfolding pad4_def by arith

lemma attr_bytes_length: "length (attr_bytes a) = 4 + pad4 (length (snd a))"
  using pad4_ge by (simp add: attr_bytes_def)

lemma stun_walk_attrs:
  "\<forall>a \<in> set as. length (snd a) < 65536 \<Longrightarrow> buf = pre @ attrs_bytes as @ post \<Longrightarrow>
   stun_walk buf (length pre + length (attrs_bytes as)) wanted (length pre) = Some (find_attr as wanted (length pre))"
proof (induction as arbitrary: pre)
  case Nil
  then show ?case by (simp add: stun_walk_stop attrs_bytes_def)
next
  case (Cons a as)
  have buf: "buf = (pre @ attr_bytes a) @ attrs_bytes as @ post" using Cons.prems(2) by (simp add: attrs_bytes_def)
  have f: "be16_at buf (length pre) = fst a" "be16_at buf (length pre + 2) = of_nat (length (snd a))"
    by (rule be16_at_field; simp add: buf attr_bytes_def be16_def)+
  have u: "unat (of_nat (length (snd a)) :: u16) = length (snd a)" using Cons.prems(1) by (simp add: unat_u16)
  have len: "length (attrs_bytes (a # as)) = 4 + pad4 (length (snd a)) + length (attrs_bytes as)"
    by (simp add: attrs_bytes_def attr_bytes_length)
  have blen: "length buf = length pre + (4 + pad4 (length (snd a))) + length (attrs_bytes as) + length post"
    by (simp add: buf attr_bytes_length)
  have IH: "stun_walk buf (length (pre @ attr_bytes a) + length (attrs_bytes as)) wanted (length (pre @ attr_bytes a)) =
      Some (find_attr as wanted (length (pre @ attr_bytes a)))"
    by (rule Cons.IH [OF _ buf]) (use Cons.prems(1) in simp)
  have "stun_walk buf (length pre + length (attrs_bytes (a # as))) wanted (length pre) =
      (if fst a = wanted then Some (Some (length pre + 4, length (snd a)))
       else stun_walk buf (length pre + length (attrs_bytes (a # as))) wanted (length pre + (4 + pad4 (length (snd a)))))"
    by (subst stun_walk_step) (use pad4_ge [of "length (snd a)"] blen in \<open>simp_all add: f [simplified] u len\<close>)
  then show ?case using IH by (simp add: len attr_bytes_length add.assoc)
qed

section \<open>The binding response as a message\<close>

lemma put_header_eq:
  assumes "20 \<le> length out" "20 \<le> length request"
  shows "put_header request out =
    Some ([1, 1] @ take 2 (drop 2 out) @ take 16 (drop 4 request) @ drop 20 out)"
proof -
  have "out = take 2 out @ drop 2 out" by simp
  then have "wr out 0 [1, 1] = Some ([1, 1] @ drop 2 out)" using assms by (simp add: wr_def numeral_2_eq_2)
  moreover have "wr ([1, 1] @ drop 2 out) 4 r = Some ([1, 1] @ take 2 (drop 2 out) @ r @ drop 20 out)"
    if "length r = 16" for r
    using that assms by (simp add: wr_def numeral_2_eq_2)
  ultimately show ?thesis using assms by (simp add: put_header_def)
qed

definition xor_mapped4 :: "u32 \<Rightarrow> u16 \<Rightarrow> bytes" where
  "xor_mapped4 addr port = [0, 1] @ be16 (port XOR 0x2112) @ be32 (addr XOR STUN_MAGIC_COOKIE)"

lemma xor_mapped4_length [simp]: "length (xor_mapped4 addr port) = 8"
  by (simp add: xor_mapped4_def)

lemma put_xor_mapped_eq:
  assumes "length hdr = 20" "12 \<le> length ys"
  shows "put_xor_mapped request (Inet addr port) (hdr @ ys) =
    Some (hdr @ be16 0x0020 @ be16 8 @ xor_mapped4 addr port @ drop 12 ys)"
  using assms
  by (simp add: put_xor_mapped_def write_be16_def write_be32_def wr_def STUN_HEADER_SIZE_def le_diff_conv2
      xor_mapped4_def be16_def be32_def)

lemma put_integrity_eq:
  assumes "length t = 2" "length l = 2" "length body = 16 + payload" "24 \<le> length ys"
    and "hmac pwd (t @ be16 (of_nat (payload + 24)) @ body) = Some mac" "length mac = 20"
  shows "put_integrity hmac junk pwd payload (t @ l @ body @ ys) =
    Some (t @ be16 (of_nat (payload + 24)) @ body @ be16 8 @ be16 20 @ mac @ drop 24 ys)"
proof -
  have "wr (t @ l @ body @ ys) (20 + payload) (be16 8) = Some ((t @ l @ body) @ be16 8 @ drop 2 ys)"
    using wr_at [of "20 + payload" "t @ l @ body" "be16 8" ys] assms by simp
  moreover have "wr ((t @ l @ body) @ be16 8 @ drop 2 ys) (20 + payload + 2) (be16 20) =
      Some ((t @ l @ body @ be16 8) @ be16 20 @ drop 4 ys)"
    using wr_at [of "20 + payload + 2" "t @ l @ body @ be16 8" "be16 20" "drop 2 ys"] assms by simp
  moreover have "wr ((t @ l @ body @ be16 8) @ be16 20 @ drop 4 ys) 2 (be16 (of_nat (payload + 24))) =
      Some (t @ be16 (of_nat (payload + 24)) @ body @ be16 8 @ be16 20 @ drop 4 ys)"
    using wr_at [of 2 t "be16 (of_nat (payload + 24))" "l @ body @ be16 8 @ be16 20 @ drop 4 ys"] assms by simp
  moreover have "rdn (t @ be16 (of_nat (payload + 24)) @ body @ be16 8 @ be16 20 @ drop 4 ys) 0 (20 + payload) =
      Some (t @ be16 (of_nat (payload + 24)) @ body)"
    using assms by (simp add: rdn_def)
  moreover have "wr (t @ be16 (of_nat (payload + 24)) @ body @ be16 8 @ be16 20 @ drop 4 ys) (20 + payload + 4) mac =
      Some (t @ be16 (of_nat (payload + 24)) @ body @ be16 8 @ be16 20 @ mac @ drop 24 ys)"
    using wr_at [of "20 + payload + 4" "t @ be16 (of_nat (payload + 24)) @ body @ be16 8 @ be16 20" mac "drop 4 ys"]
      assms by simp
  moreover have "rdn (mac_buffer (Some mac) junk) 0 20 = Some mac" using assms by (simp add: mac_buffer_def rdn_def)
  ultimately show ?thesis
    using assms(5) by (simp add: put_integrity_def write_be16_def STUN_HEADER_SIZE_def)
qed

definition fingerprint :: "bytes \<Rightarrow> bytes" where
  "fingerprint covered = be32 (crc32_stun covered XOR 0x5354554E)"

lemma put_fingerprint_eq:
  assumes "length t = 2" "length l = 2" "length body = 16 + payload" "8 \<le> length ys"
  shows "put_fingerprint payload (t @ l @ body @ ys) =
    Some (t @ be16 (of_nat (payload + 8)) @ body @ be16 0x8028 @ be16 4 @
          fingerprint (t @ be16 (of_nat (payload + 8)) @ body) @ drop 8 ys)"
proof -
  have "wr (t @ l @ body @ ys) (20 + payload) (be16 0x8028) = Some ((t @ l @ body) @ be16 0x8028 @ drop 2 ys)"
    using wr_at [of "20 + payload" "t @ l @ body" "be16 0x8028" ys] assms by simp
  moreover have "wr ((t @ l @ body) @ be16 0x8028 @ drop 2 ys) (20 + payload + 2) (be16 4) =
      Some ((t @ l @ body @ be16 0x8028) @ be16 4 @ drop 4 ys)"
    using wr_at [of "20 + payload + 2" "t @ l @ body @ be16 0x8028" "be16 4" "drop 2 ys"] assms by simp
  moreover have "wr ((t @ l @ body @ be16 0x8028) @ be16 4 @ drop 4 ys) 2 (be16 (of_nat (payload + 8))) =
      Some (t @ be16 (of_nat (payload + 8)) @ body @ be16 0x8028 @ be16 4 @ drop 4 ys)"
    using wr_at [of 2 t "be16 (of_nat (payload + 8))" "l @ body @ be16 0x8028 @ be16 4 @ drop 4 ys"] assms by simp
  moreover have "rdn (t @ be16 (of_nat (payload + 8)) @ body @ be16 0x8028 @ be16 4 @ drop 4 ys) 0 (20 + payload) =
      Some (t @ be16 (of_nat (payload + 8)) @ body)"
    using assms by (simp add: rdn_def)
  moreover have "wr (t @ be16 (of_nat (payload + 8)) @ body @ be16 0x8028 @ be16 4 @ drop 4 ys) (20 + payload + 4) (be32 v) =
      Some (t @ be16 (of_nat (payload + 8)) @ body @ be16 0x8028 @ be16 4 @ be32 v @ drop 8 ys)" for v
    using wr_at [of "20 + payload + 4" "t @ be16 (of_nat (payload + 8)) @ body @ be16 0x8028 @ be16 4" "be32 v" "drop 4 ys"]
      assms by simp
  ultimately show ?thesis
    by (simp add: put_fingerprint_def write_be16_def write_be32_def STUN_HEADER_SIZE_def fingerprint_def)
qed

text \<open>
  The parts of the response to an IPv4 peer: what MESSAGE-INTEGRITY covers and what FINGERPRINT
  covers, as RFC 5389 defines them (the length field counts the attribute itself in both).
\<close>

definition response_ct :: "bytes \<Rightarrow> bytes" where
  "response_ct request = take 16 (drop 4 request)"

definition mi_covered :: "bytes \<Rightarrow> u32 \<Rightarrow> u16 \<Rightarrow> bytes" where
  "mi_covered request addr port =
     be16 0x0101 @ be16 36 @ response_ct request @ attrs_bytes [(0x0020, xor_mapped4 addr port)]"

definition response_of :: "bytes \<Rightarrow> u32 \<Rightarrow> u16 \<Rightarrow> bytes \<Rightarrow> bytes" where
  "response_of request addr port mac =
     stun_message 0x0101 (response_ct request)
       [(0x0020, xor_mapped4 addr port), (0x0008, mac),
        (0x8028, fingerprint (be16 0x0101 @ be16 44 @ response_ct request @
           attrs_bytes [(0x0020, xor_mapped4 addr port), (0x0008, mac)]))]"

lemma fingerprint_length [simp]: "length (fingerprint c) = 4"
  by (simp add: fingerprint_def)

lemma pad4_exact: "pad4 4 = 4" "pad4 8 = 8" "pad4 20 = 20"
  by (simp_all add: pad4_def)

lemma be16_0101: "be16 0x0101 = [1, 1]"
  by code_simp

lemma binding_response_eq:
  assumes req: "20 \<le> length request" "20 \<le> request_len" and out: "128 \<le> cap" "cap \<le> length out"
    and mac: "hmac pwd (mi_covered request addr port) = Some mac" "length mac = 20"
  shows "stun_build_binding_response hmac junk pwd request request_len (Inet addr port) out cap =
    Some (0, response_of request addr port mac @ drop 64 out, 64)"
proof -
  let ?ct = "response_ct request" and ?x = "xor_mapped4 addr port"
  have len: "length ?ct = 16" using req by (simp add: response_ct_def)
  have l2: "length (take 2 (drop 2 out)) = 2" using out by simp
  have one: "attr_bytes (t, v) = be16 t @ be16 (of_nat (length v)) @ v" if "pad4 (length v) = length v" for t v
    using that by (simp add: attr_bytes_def)
  have h: "put_header request out = Some ([1, 1] @ take 2 (drop 2 out) @ ?ct @ drop 20 out)"
    using put_header_eq [of out request] req out by (simp add: response_ct_def)
  let ?b1 = "[1, 1] @ take 2 (drop 2 out) @ (?ct @ be16 0x0020 @ be16 8 @ ?x) @ drop 32 out"
  have x: "put_xor_mapped request (Inet addr port) ([1, 1] @ take 2 (drop 2 out) @ ?ct @ drop 20 out) = Some ?b1"
    using put_xor_mapped_eq [of "[1, 1] @ take 2 (drop 2 out) @ ?ct" "drop 20 out"] out len by simp
  let ?body = "?ct @ be16 0x0020 @ be16 8 @ ?x"
  have cov: "mi_covered request addr port = [1, 1] @ be16 (of_nat (12 + 24)) @ ?body"
    by (simp add: mi_covered_def attrs_bytes_def one pad4_exact be16_0101)
  have m: "put_integrity hmac junk pwd 12 ?b1 =
      Some ([1, 1] @ be16 36 @ (?body @ be16 8 @ be16 20 @ mac) @ drop 56 out)"
    using put_integrity_eq [of "[1, 1]" "take 2 (drop 2 out)" ?body 12 "drop 32 out" hmac pwd mac junk]
      mac cov l2 len out by simp
  let ?body2 = "?body @ be16 8 @ be16 20 @ mac"
  have f: "put_fingerprint 36 ([1, 1] @ be16 36 @ ?body2 @ drop 56 out) =
      Some ([1, 1] @ be16 44 @ ?body2 @ be16 0x8028 @ be16 4 @ fingerprint ([1, 1] @ be16 44 @ ?body2) @ drop 64 out)"
    using put_fingerprint_eq [of "[1, 1]" "be16 36" ?body2 36 "drop 56 out"] len mac(2) out by simp
  have r: "response_of request addr port mac =
      [1, 1] @ be16 44 @ ?body2 @ be16 0x8028 @ be16 4 @ fingerprint ([1, 1] @ be16 44 @ ?body2)"
    by (simp add: response_of_def stun_message_def attrs_bytes_def one pad4_exact mac(2) be16_0101)
  show ?thesis
    using req out h x m f r by (simp add: stun_build_binding_response_def STUN_HEADER_SIZE_def)
qed

section \<open>Searching a well-formed message\<close>

lemma stun_find_message:
  assumes "\<forall>a \<in> set as. length (snd a) < 65536" "length (attrs_bytes as) < 65536" "length ct = 16"
    and "length (stun_message type ct as) \<le> n"
  shows "stun_find_attribute (stun_message type ct as @ rest) n wanted = Some (find_attr as wanted 20)"
proof -
  let ?b = "stun_message type ct as @ rest" and ?len = "length (attrs_bytes as)"
  have l: "length (stun_message type ct as) = 20 + ?len" using assms(3) by (simp add: stun_message_def)
  have m: "read_be16 ?b 2 = Some (of_nat ?len)"
    by (rule read_be16_field) (simp_all add: stun_message_def be16_def)
  have u: "unat (of_nat ?len :: u16) = ?len" using assms(2) by (rule unat_u16)
  have "stun_walk ?b (20 + ?len) wanted 20 = Some (find_attr as wanted 20)"
    using stun_walk_attrs [of as ?b "be16 type @ be16 (of_nat ?len) @ ct" rest wanted] assms(1,3)
    by (simp add: stun_message_def)
  then show ?thesis
    using m u assms(4) l by (simp add: stun_find_attribute_def STUN_HEADER_SIZE_def)
qed

lemma response_find:
  assumes "20 \<le> length request" "length mac = 20"
  shows "stun_find_attribute (response_of request addr port mac @ rest) 64 wanted =
    Some (if wanted = 0x0020 then Some (24, 8) else if wanted = 0x0008 then Some (36, 20)
          else if wanted = 0x8028 then Some (60, 4) else None)"
proof -
  let ?fp = "fingerprint (be16 0x0101 @ be16 44 @ response_ct request @
           attrs_bytes [(0x0020, xor_mapped4 addr port), (0x0008, mac)])"
  let ?as = "[(0x0020, xor_mapped4 addr port), (0x0008, mac), (0x8028, ?fp)]"
  have l: "length (attrs_bytes ?as) = 44"
    using assms(2) by (simp add: attrs_bytes_def attr_bytes_length pad4_exact)
  have c: "length (response_ct request) = 16" using assms(1) by (simp add: response_ct_def)
  then have "length (stun_message 0x0101 (response_ct request) ?as) = 64" using l by (simp add: stun_message_def)
  then have "stun_find_attribute (response_of request addr port mac @ rest) 64 wanted =
      Some (find_attr ?as wanted 20)"
    unfolding response_of_def by (intro stun_find_message) (use assms(2) l c in auto)
  then show ?thesis using assms(2) by (auto simp: attr_bytes_length pad4_exact)
qed

lemma response_parts:
  assumes "20 \<le> length request" "length mac = 20"
  shows "response_of request addr port mac =
    be16 0x0101 @ be16 44 @ response_ct request @ be16 0x0020 @ be16 8 @ xor_mapped4 addr port @
    be16 8 @ be16 20 @ mac @ be16 0x8028 @ be16 4 @
    fingerprint (be16 0x0101 @ be16 44 @ response_ct request @
           attrs_bytes [(0x0020, xor_mapped4 addr port), (0x0008, mac)])"
  using assms by (simp add: response_of_def stun_message_def attrs_bytes_def attr_bytes_def pad4_exact)

lemma response_length [simp]:
  assumes "20 \<le> length request" "length mac = 20"
  shows "length (response_of request addr port mac) = 64"
  unfolding response_parts [OF assms] using assms by (simp add: response_ct_def)

lemma put_xor_mapped6:
  assumes "length hdr = 20" "24 \<le> length ys" "length request \<ge> 20" "length addr = 16"
  shows "put_xor_mapped request (Inet6 addr port) (hdr @ ys) =
    Some (hdr @ be16 0x0020 @ be16 8 @ [0, 2] @ be16 (port XOR 0x2112) @
      map2 (XOR) addr ([0x21, 0x12, 0xA4, 0x42] @ take 12 (drop 8 request)) @ drop 24 ys)"
  using assms
  by (simp add: put_xor_mapped_def write_be16_def wr_def STUN_HEADER_SIZE_def le_diff_conv2 be16_def)

lemma find_attr_slice:
  "map_of as wanted = Some v \<Longrightarrow>
   \<exists>off. find_attr as wanted (length pre) = Some (off, length v) \<and> off + length v \<le> length (pre @ attrs_bytes as) \<and>
     take (length v) (drop off (pre @ attrs_bytes as @ post)) = v"
proof (induction as arbitrary: pre)
  case (Cons a as)
  show ?case
  proof (cases "fst a = wanted")
    case True
    then have "snd a = v" using Cons.prems by (cases a) simp
    then show ?thesis using True by (simp add: attrs_bytes_def attr_bytes_def)
  next
    case False
    then have "map_of as wanted = Some v" using Cons.prems by (cases a) simp
    from Cons.IH [OF this, of "pre @ attr_bytes a"] show ?thesis
      using False by (simp add: attrs_bytes_def add.assoc)
  qed
qed simp

lemma drop_colon: "(case dropWhile (\<lambda>c. c \<noteq> 58) xs of [] \<Rightarrow> False | _ # second \<Rightarrow> second = u) \<longleftrightarrow>
    (\<exists>l. xs = l @ [58] @ u \<and> (58 :: u8) \<notin> set l)"
proof
  assume a: "case dropWhile (\<lambda>c. c \<noteq> 58) xs of [] \<Rightarrow> False | _ # second \<Rightarrow> second = u"
  then obtain c where d: "dropWhile (\<lambda>c. c \<noteq> 58) xs = c # u" by (auto split: list.splits)
  then have "c = 58" by (metis (full_types) dropWhile_eq_Cons_conv)
  with d have "xs = takeWhile (\<lambda>c. c \<noteq> 58) xs @ [58] @ u" by (metis append_Cons append_Nil takeWhile_dropWhile_id)
  moreover have "58 \<notin> set (takeWhile (\<lambda>c. c \<noteq> 58) xs)" by (auto dest: set_takeWhileD)
  ultimately show "\<exists>l. xs = l @ [58] @ u \<and> 58 \<notin> set l" by blast
next
  assume "\<exists>l. xs = l @ [58] @ u \<and> 58 \<notin> set l"
  then obtain l where x: "xs = l @ [58] @ u" "58 \<notin> set l" by blast
  have "dropWhile (\<lambda>c. c \<noteq> 58) (l @ [58] @ u) = 58 # u"
    using x(2) by (induction l) auto
  then show "case dropWhile (\<lambda>c. c \<noteq> 58) xs of [] \<Rightarrow> False | _ # second \<Rightarrow> second = u"
    using x by simp
qed

lemma username_prefix: "(length name > length u \<and> name ! length u = c \<and> take (length u) name = u) \<longleftrightarrow>
    (\<exists>r. name = u @ [c] @ r)"
  by (auto simp: nth_append) (metis append_take_drop_id id_take_nth_drop append.assoc append_Cons append_Nil)

section \<open>Properties\<close>

text \<open>A stand-in for HMAC-SHA1 to evaluate with: twenty bytes of the key and the data.\<close>

definition demo_hmac :: "bytes \<Rightarrow> bytes \<Rightarrow> bytes option" where
  "demo_hmac k d = Some (take 20 (k @ rev d @ replicate 20 0))"

lemma demo_hmac: "\<exists>m. demo_hmac k d = Some m \<and> length m = 20"
  by (simp add: demo_hmac_def)

text \<open>The table-driven checksum of FINGERPRINT is CRC-32 computed bit by bit.\<close>

lemma crc32_table_correct: "crc32_stun data = crc32_ref data"
  by (simp add: crc32_stun_def crc32_ref_def crc_byte)



text \<open>
  In a message laid out as RFC 5389 says (header, then attributes padded to four bytes, the
  length field counting them) the search finds exactly the first attribute of the wanted type.
\<close>

lemma stun_attribute_lookup:
  assumes "\<forall>a \<in> set as. length (snd a) < 65536" and "length (attrs_bytes as) < 65536" and "length ct = 16"
    and "length (stun_message type ct as) \<le> n"
  shows "stun_find_attribute (stun_message type ct as @ rest) n wanted = Some (find_attr as wanted 20)"
  by (rule stun_find_message [OF assms])

lemma stun_attribute_lookup_witness:
  "stun_find_attribute (stun_message 1 (replicate 16 0) [(0x8022, [1, 2, 3]), (6, [97, 58, 98])] @ [9]) 36 6 =
   Some (find_attr [(0x8022, [1, 2, 3]), (6, [97, 58, 98])] 6 20)"
  by (rule stun_attribute_lookup) (simp_all add: attrs_bytes_def attr_bytes_length pad4_def stun_message_def)

text \<open>
  C9. The answer to a binding request of an IPv4 peer is 64 bytes long, the browser that holds the
  same password accepts it (the code's own verification of MESSAGE-INTEGRITY succeeds on it), and
  its XOR-MAPPED-ADDRESS, read back as RFC 5389 says, is the peer's address and port.
\<close>

theorem binding_response_accepted:
  assumes "20 \<le> length request" and "20 \<le> request_len" and "128 \<le> cap" and "cap \<le> length out"
    and "\<And>k d. \<exists>m. hmac k d = Some m \<and> length m = 20" and "pwd \<noteq> []"
  shows "\<exists>out'. stun_build_binding_response hmac junk pwd request request_len (Inet addr port) out cap =
      Some (0, out', 64) \<and> stun_verify_mi True hmac out' 64 pwd = Some True \<and>
    stun_find_attribute out' 64 0x0020 = Some (Some (24, 8)) \<and>
    read_be16 out' 26 = Some (port XOR 0x2112) \<and> read_be32 out' 28 = Some (addr XOR STUN_MAGIC_COOKIE)"
proof -
  obtain mac where mac: "hmac pwd (mi_covered request addr port) = Some mac" "length mac = 20"
    using assms(5) by blast
  let ?r = "response_of request addr port mac" and ?out = "response_of request addr port mac @ drop 64 out"
  have len: "length (response_ct request) = 16" using assms(1) by (simp add: response_ct_def)
  note P = response_parts [OF assms(1) mac(2), of addr port]
  have f8: "stun_find_attribute ?out 64 8 = Some (Some (36, 20))" and
    f20: "stun_find_attribute ?out 64 0x0020 = Some (Some (24, 8))"
    using response_find [OF assms(1) mac(2)] by simp_all
  have rl: "length ?r = 64" by (rule response_length [OF assms(1) mac(2)])
  have a: "rdn ?out 36 20 = Some mac" using len mac(2) rl by (simp add: rdn_def) (simp add: P)
  have c: "rdn ?out 0 32 = Some (be16 0x0101 @ be16 44 @ response_ct request @ be16 0x0020 @ be16 8 @ xor_mapped4 addr port)"
    using len rl by (simp add: rdn_def) (simp add: P)
  have w: "write_be16 (be16 0x0101 @ be16 44 @ response_ct request @ be16 0x0020 @ be16 8 @ xor_mapped4 addr port) 2 36 =
      Some (mi_covered request addr port)"
    using len by (simp add: write_be16_def wr_def mi_covered_def attrs_bytes_def attr_bytes_def pad4_exact)
  have v: "stun_verify_mi True hmac ?out 64 pwd = Some True"
    using assms(6) f8 a c w mac by (simp add: stun_verify_mi_def STUN_HEADER_SIZE_def)
  have ol: "64 \<le> length ?out" using rl by simp
  have p: "read_be16 ?out 26 = Some (port XOR 0x2112)"
    by (rule read_be16_field) (use len rl in \<open>simp_all add: P xor_mapped4_def\<close>)
  have ad: "read_be32 ?out 28 = Some (addr XOR STUN_MAGIC_COOKIE)"
    by (rule read_be32_field) (use len rl in \<open>simp_all add: P xor_mapped4_def\<close>)
  show ?thesis
    using binding_response_eq [OF assms(1-4), of hmac pwd addr port mac junk] mac v f20 p ad by blast
qed

lemma binding_response_accepted_witness:
  "\<exists>out'. stun_build_binding_response demo_hmac [] [115] (replicate 20 1) 20 (Inet 5 6) (replicate 128 0) 128 =
      Some (0, out', 64) \<and> stun_verify_mi True demo_hmac out' 64 [115] = Some True \<and>
    stun_find_attribute out' 64 0x0020 = Some (Some (24, 8)) \<and>
    read_be16 out' 26 = Some (6 XOR 0x2112) \<and> read_be32 out' 28 = Some (5 XOR STUN_MAGIC_COOKIE)"
  by (rule binding_response_accepted [OF _ _ _ _ demo_hmac]) simp_all

lemma binding_response6_eq:
  assumes "20 \<le> length request" "20 \<le> request_len" "128 \<le> cap" "cap \<le> length out" "length addr = 16"
    and "hmac pwd (be16 0x0101 @ be16 36 @ response_ct request @ be16 0x0020 @ be16 8 @ [0, 2] @
      be16 (port XOR 0x2112) @ map2 (XOR) (take 4 addr) [0x21, 0x12, 0xA4, 0x42]) = Some mac" "length mac = 20"
  shows "\<exists>r. (\<forall>junk. stun_build_binding_response hmac junk pwd request request_len (Inet6 addr port) out cap =
    Some (0, r @ drop 64 out, 64)) \<and>
    r = (let b = response_ct request @ be16 0x0020 @ be16 8 @ [0, 2] @ be16 (port XOR 0x2112) @
            map2 (XOR) (take 4 addr) [0x21, 0x12, 0xA4, 0x42] @ be16 8 @ be16 20 @ mac
         in [1, 1] @ be16 44 @ b @ be16 0x8028 @ be16 4 @ fingerprint ([1, 1] @ be16 44 @ b))"
proof -
  let ?ct = "response_ct request"
  let ?x = "map2 (XOR) addr ([0x21, 0x12, 0xA4, 0x42] @ take 12 (drop 8 request))"
  let ?x4 = "map2 (XOR) (take 4 addr) [0x21, 0x12, 0xA4, 0x42]"
  have len: "length ?ct = 16" using assms(1) by (simp add: response_ct_def)
  have x4: "take 4 ?x = ?x4" "length ?x = 16" "length ?x4 = 4"
    using assms(1,5) by (simp_all add: take_map take_zip)
  define d where "d = drop 4 ?x"
  have xs: "?x = ?x4 @ d" by (metis append_take_drop_id d_def x4(1))
  have ld: "length d = 12" using x4 by (simp add: d_def)
  have l2: "length (take 2 (drop 2 out)) = 2" using assms by simp
  have h: "put_header request out = Some ([1, 1] @ take 2 (drop 2 out) @ ?ct @ drop 20 out)"
    using put_header_eq [of out request] assms by (simp add: response_ct_def)
  let ?body = "?ct @ be16 0x0020 @ be16 8 @ [0, 2] @ be16 (port XOR 0x2112) @ ?x4"
  let ?b1 = "[1, 1] @ take 2 (drop 2 out) @ ?body @ (d @ drop 44 out)"
  have "put_xor_mapped request (Inet6 addr port) (([1, 1] @ take 2 (drop 2 out) @ ?ct) @ drop 20 out) =
      Some (([1, 1] @ take 2 (drop 2 out) @ ?ct) @ be16 0x0020 @ be16 8 @ [0, 2] @ be16 (port XOR 0x2112) @
        ?x @ drop 24 (drop 20 out))"
    by (rule put_xor_mapped6) (use assms len l2 in simp_all)
  then have x: "put_xor_mapped request (Inet6 addr port) ([1, 1] @ take 2 (drop 2 out) @ ?ct @ drop 20 out) = Some ?b1"
    unfolding xs by simp
  have m: "put_integrity hmac junk pwd 12 ?b1 =
      Some ([1, 1] @ be16 36 @ (?body @ be16 8 @ be16 20 @ mac) @ drop 56 out)" for junk
    using put_integrity_eq [of "[1, 1]" "take 2 (drop 2 out)" ?body 12 "d @ drop 44 out" hmac pwd mac junk]
      assms l2 len x4 be16_0101 ld by simp
  let ?body2 = "?body @ be16 8 @ be16 20 @ mac"
  have f: "put_fingerprint 36 ([1, 1] @ be16 36 @ ?body2 @ drop 56 out) =
      Some ([1, 1] @ be16 44 @ ?body2 @ be16 0x8028 @ be16 4 @ fingerprint ([1, 1] @ be16 44 @ ?body2) @ drop 64 out)"
    using put_fingerprint_eq [of "[1, 1]" "be16 36" ?body2 36 "drop 56 out"] len x4 assms by simp
  let ?r = "[1, 1] @ be16 44 @ ?body2 @ be16 0x8028 @ be16 4 @ fingerprint ([1, 1] @ be16 44 @ ?body2)"
  have "stun_build_binding_response hmac junk pwd request request_len (Inet6 addr port) out cap =
    Some (0, ?r @ drop 64 out, 64)" for junk
    using assms h x m f by (simp add: stun_build_binding_response_def STUN_HEADER_SIZE_def)
  then show ?thesis by (intro exI [of _ ?r] conjI allI) (simp_all add: Let_def)
qed

text \<open>
  For an IPv6 peer the response does not carry the address: its XOR-MAPPED-ADDRESS keeps the
  length 8 of an IPv4 one and everything after the first four address bytes is overwritten by
  MESSAGE-INTEGRITY, so that peers that differ only there get the same answer.
\<close>

lemma ipv6_address_lost:
  assumes "20 \<le> length request" and "20 \<le> request_len" and "128 \<le> cap" and "cap \<le> length out"
    and "\<And>k d. \<exists>m. hmac k d = Some m \<and> length m = 20"
    and "length a = 16" and "length b = 16" and "take 4 a = take 4 b"
  shows "stun_build_binding_response hmac junk pwd request request_len (Inet6 a port) out cap =
    stun_build_binding_response hmac junk pwd request request_len (Inet6 b port) out cap"
proof -
  obtain mac where mac: "hmac pwd (be16 0x0101 @ be16 36 @ response_ct request @ be16 0x0020 @ be16 8 @ [0, 2] @
      be16 (port XOR 0x2112) @ map2 (XOR) (take 4 b) [0x21, 0x12, 0xA4, 0x42]) = Some mac" "length mac = 20"
    using assms(5) by blast
  show ?thesis
    using binding_response6_eq [OF assms(1-4,6), of hmac pwd port mac] binding_response6_eq [OF assms(1-4,7), of hmac pwd port mac]
      mac assms(8) by auto
qed

lemma ipv6_address_lost_witness:
  "stun_build_binding_response demo_hmac [] [115] (replicate 20 1) 20 (Inet6 (replicate 16 9) 6) (replicate 128 0) 128 =
   stun_build_binding_response demo_hmac [] [115] (replicate 20 1) 20 (Inet6 (replicate 4 9 @ replicate 12 7) 6) (replicate 128 0) 128"
  by (rule ipv6_address_lost [OF _ _ _ _ demo_hmac]) simp_all

text \<open>
  The error response declares 48 bytes but writes 44 of them: the last four, the reason phrase's
  place in ERROR-CODE, keep what the caller's buffer held, and with the smallest buffer the function
  accepts (44 bytes) they lie behind its end. The hundreds digit of the code goes where RFC 5389 has
  reserved bits (third byte zero, class in byte 2): byte 1 of the value.
\<close>

lemma error_response_layout:
  assumes "44 \<le> cap" and "cap \<le> length out" and "length tid = 12"
  shows "stun_build_error_response (Some tid) code out cap = Some (0,
    [0x01, 0x11] @ be16 28 @ [0x21, 0x12, 0xA4, 0x42] @ tid @
    be16 0x8022 @ be16 9 @ [99, 97, 109, 115, 116, 114, 101, 97, 109, 0, 0, 0] @
    be16 9 @ be16 8 @ [0, ucast (code div 100)] @ be16 (code mod 100) @ drop 44 out, 48)"
proof -
  let ?D = "drop 44 out" and ?C = "[0x21, 0x12, 0xA4, 0x42] :: bytes"
  define sw :: bytes where "sw = [99, 97, 109, 115, 116, 114, 101, 97, 109]"
  have sw: "length sw = 9" by (simp add: sw_def)
  have s0: "wr out 0 (replicate 44 0) = Some (replicate 44 0 @ ?D)" using assms by (simp add: wr_def)
  have s1: "wr (replicate 44 0 @ ?D) 0 [1, 0x11] = Some ([1, 0x11] @ replicate 42 0 @ ?D)" by (simp add: wr_def)
  have s2: "wr ([1, 0x11] @ replicate 42 0 @ ?D) 4 ?C = Some ([1, 0x11] @ replicate 2 0 @ ?C @ replicate 36 0 @ ?D)"
    using wr_at [of 4 "[1, 0x11] @ replicate 2 0" ?C "replicate 40 0 @ ?D"] by (simp add: replicate_add [symmetric] flip: append_assoc)
  let ?h = "[1, 0x11] @ replicate 2 0 @ ?C @ tid"
  have s3: "wr ([1, 0x11] @ replicate 2 0 @ ?C @ replicate 36 0 @ ?D) 8 tid = Some (?h @ replicate 24 0 @ ?D)"
    using wr_at [of 8 "[1, 0x11] @ replicate 2 0 @ ?C" tid "replicate 36 0 @ ?D"] assms(3) by simp
  have s4: "wr (?h @ replicate 24 0 @ ?D) 20 (be16 0x8022) = Some (?h @ be16 0x8022 @ replicate 22 0 @ ?D)"
    using wr_at [of 20 ?h "be16 0x8022" "replicate 24 0 @ ?D"] assms(3) by simp
  have s5: "wr (?h @ be16 0x8022 @ replicate 22 0 @ ?D) 22 (be16 9) = Some (?h @ be16 0x8022 @ be16 9 @ replicate 20 0 @ ?D)"
    using wr_at [of 22 "?h @ be16 0x8022" "be16 9" "replicate 22 0 @ ?D"] assms(3) by simp
  have s6: "wr (?h @ be16 0x8022 @ be16 9 @ replicate 20 0 @ ?D) 24 sw =
      Some (?h @ be16 0x8022 @ be16 9 @ sw @ replicate 11 0 @ ?D)"
    using wr_at [of 24 "?h @ be16 0x8022 @ be16 9" sw "replicate 20 0 @ ?D"] assms(3) sw by simp
  let ?g = "?h @ be16 0x8022 @ be16 9 @ sw @ replicate 3 0"
  have rep: "replicate 11 0 @ ?D = replicate 3 0 @ replicate 8 0 @ ?D" by (simp add: numeral_eq_Suc)
  have s7: "wr (?h @ be16 0x8022 @ be16 9 @ sw @ replicate 11 0 @ ?D) 36 (be16 9) = Some (?g @ be16 9 @ replicate 6 0 @ ?D)"
    unfolding rep using wr_at [of 36 ?g "be16 9" "replicate 8 0 @ ?D"] assms(3) sw by simp
  have s8: "wr (?g @ be16 9 @ replicate 6 0 @ ?D) 38 (be16 8) = Some (?g @ be16 9 @ be16 8 @ replicate 4 0 @ ?D)"
    using wr_at [of 38 "?g @ be16 9" "be16 8" "replicate 6 0 @ ?D"] assms(3) sw by simp
  have s9: "wr (?g @ be16 9 @ be16 8 @ replicate 4 0 @ ?D) 40 [0] = Some (?g @ be16 9 @ be16 8 @ [0] @ replicate 3 0 @ ?D)"
    using wr_at [of 40 "?g @ be16 9 @ be16 8" "[0]" "replicate 4 0 @ ?D"] assms(3) sw by simp
  have s10: "wr (?g @ be16 9 @ be16 8 @ [0] @ replicate 3 0 @ ?D) 41 [c] =
      Some (?g @ be16 9 @ be16 8 @ [0, c] @ replicate 2 0 @ ?D)" for c
    using wr_at [of 41 "?g @ be16 9 @ be16 8 @ [0]" "[c]" "replicate 3 0 @ ?D"] assms(3) sw by simp
  have s11: "wr (?g @ be16 9 @ be16 8 @ [0, c] @ replicate 2 0 @ ?D) 42 (be16 v) =
      Some (?g @ be16 9 @ be16 8 @ [0, c] @ be16 v @ ?D)" for c v
    using wr_at [of 42 "?g @ be16 9 @ be16 8 @ [0, c]" "be16 v" "replicate 2 0 @ ?D"] assms(3) sw by simp
  have s12: "wr (?g @ r) 2 (be16 28) = Some ([1, 0x11] @ be16 28 @ ?C @ tid @ be16 0x8022 @ be16 9 @ sw @ replicate 3 0 @ r)" for r
    using wr_at [of 2 "[1, 0x11]" "be16 28" "replicate 2 0 @ ?C @ tid @ be16 0x8022 @ be16 9 @ sw @ replicate 3 0 @ r"] by simp
  have pay: "pad4 9 = 12" by (simp add: pad4_def)
  have nums: "20 + (4 + 12) = (36 :: nat)" "36 + 2 = (38 :: nat)" "36 + 4 = (40 :: nat)" "36 + 5 = (41 :: nat)"
    "36 + 6 = (42 :: nat)" "of_nat 9 = (9 :: u16)" "of_nat (4 + 12 + 12) = (28 :: u16)" by simp_all
  show ?thesis
    using assms(1) unfolding stun_build_error_response_def write_be16_def sw_def [symmetric] Let_def sw pay STUN_HEADER_SIZE_def
    by (simp only: nums s0 s1 s2 s3 s4 s5 s6 s7 s8 s9 s10 s11 s12 option.case bind.bind_lunit)
       (simp add: sw_def numeral_3_eq_3)
qed

lemma error_response_layout_witness:
  "stun_build_error_response (Some (replicate 12 5)) 401 (replicate 44 7) 44 = Some (0,
    [0x01, 0x11] @ be16 28 @ [0x21, 0x12, 0xA4, 0x42] @ replicate 12 5 @
    be16 0x8022 @ be16 9 @ [99, 97, 109, 115, 116, 114, 101, 97, 109, 0, 0, 0] @
    be16 9 @ be16 8 @ [0, ucast (401 div 100 :: u16)] @ be16 (401 mod 100) @ drop 44 (replicate 44 7), 48)"
  by (rule error_response_layout) simp_all

text \<open>
  A binding request is taken to be meant for this agent exactly when its USERNAME starts with the
  local fragment and a colon, or when what follows its first colon is the local fragment.
\<close>

lemma username_check_exact:
  assumes "\<forall>a \<in> set as. length (snd a) < 65536" and "length (attrs_bytes as) < 65536" and "length ct = 16"
    and "map_of as 6 = Some name" and "ufrag \<noteq> []"
  shows "stun_username_matches (stun_message type ct as @ rest) (length (stun_message type ct as)) ufrag =
    Some ((\<exists>r. name = ufrag @ [58] @ r) \<or> (\<exists>l. name = l @ [58] @ ufrag \<and> 58 \<notin> set l))"
proof -
  let ?m = "stun_message type ct as" and ?pre = "be16 type @ be16 (of_nat (length (attrs_bytes as))) @ ct"
  have find: "stun_find_attribute (?m @ rest) (length ?m) 6 = Some (find_attr as 6 20)"
    by (rule stun_find_message [OF assms(1-3) order_refl])
  have pre: "length ?pre = 20" using assms(3) by simp
  obtain off where off: "find_attr as 6 20 = Some (off, length name)" "off + length name \<le> length (?pre @ attrs_bytes as)"
    "take (length name) (drop off (?pre @ attrs_bytes as @ rest)) = name"
    using find_attr_slice [OF assms(4), of ?pre rest] pre by auto
  have "rdn (?m @ rest) off (length name) = Some name"
    using off(2,3) by (simp add: rdn_def stun_message_def)
  then show ?thesis
    using find off(1) assms(5) by (simp add: stun_username_matches_def username_ok_def username_prefix drop_colon)
qed

lemma username_check_exact_witness:
  "stun_username_matches (stun_message 1 (replicate 16 0) [(6, [98, 58, 97])] @ [])
     (length (stun_message 1 (replicate 16 0) [(6, [98, 58, 97])])) [97] =
   Some ((\<exists>r. [98, 58, 97] = [97 :: u8] @ [58] @ r) \<or> (\<exists>l. [98, 58, 97] = l @ [58] @ [97 :: u8] \<and> 58 \<notin> set l))"
  by (rule username_check_exact) (simp_all add: attrs_bytes_def attr_bytes_length pad4_def)

end
