(* ===== verification/Dtls_Srtp.thy ===== *)
theory Dtls_Srtp
  imports Newest_Queue
begin

text \<open>
  The DTLS-SRTP engine of \<^verbatim>\<open>src/webrtc/dtls_srtp.c\<close>: the receive queue behind the custom BIO, the
  state machine that drives the handshake, the derivation of the SRTP keys with the check of the
  peer's certificate, and the protected send and receive calls.

  OpenSSL and libsrtp are parameters, collected in the record \<open>dtls_lib\<close> over abstract types \<open>'ssl\<close> and
  \<open>'srtp\<close> of their states. A call into OpenSSL reads and writes datagrams through the BIO callbacks
  in any order; it is a tree \<open>'ssl io\<close> of such accesses that ends with a result and a new state, and
  \<open>run_io\<close> plays it against the queue. Every callback to the owner of the engine (a datagram to
  send, a state change, the handshake done) is recorded in \<open>dtls_out\<close>, in order; the owner handles
  them when the operation returns. The callbacks that call back into the engine (the ones for
  \<^verbatim>\<open>FAILED\<close> and \<^verbatim>\<open>CLOSED\<close>) are made last, right before the C function returns, so the order of effects
  is the same.

  The certificate and the \<^verbatim>\<open>SSL_CTX\<close> of the process are in \<open>Dtls_Context\<close>; the text of the fingerprint is here.
\<close>

section \<open>The library calls\<close>

datatype 'ssl io =
    IoRet int 'ssl
  | IoRead nat "bytes option \<Rightarrow> 'ssl io"
  | IoWrite bytes "int \<Rightarrow> 'ssl io"
  | IoPending "bool \<Rightarrow> 'ssl io"

datatype ssl_error = SSL_ERROR_WANT_READ | SSL_ERROR_WANT_WRITE | SSL_ERROR_OTHER

record ('ssl, 'srtp) dtls_lib =
  SSL_accept :: "'ssl \<Rightarrow> 'ssl io"
  SSL_read :: "'ssl \<Rightarrow> 'ssl io"
  SSL_shutdown :: "'ssl \<Rightarrow> 'ssl io"
  DTLSv1_handle_timeout :: "'ssl \<Rightarrow> 'ssl io"
  SSL_get_error :: "'ssl \<Rightarrow> int \<Rightarrow> ssl_error"
  SSL_is_init_finished :: "'ssl \<Rightarrow> bool"
  DTLSv1_get_timeout :: "'ssl \<Rightarrow> (nat \<times> nat) option"
  export_keying_material :: "'ssl \<Rightarrow> bytes option"
  peer_certificate_digest :: "'ssl \<Rightarrow> bytes option option"
  srtp_create :: "bool \<Rightarrow> bytes \<Rightarrow> 'srtp option"
  srtp_protect :: "'srtp \<Rightarrow> bytes \<Rightarrow> ('srtp \<times> bytes) option"
  srtp_protect_rtcp :: "'srtp \<Rightarrow> bytes \<Rightarrow> ('srtp \<times> bytes) option"
  srtp_unprotect_rtcp :: "'srtp \<Rightarrow> bytes \<Rightarrow> ('srtp \<times> bytes) option"

section \<open>State\<close>

datatype dtls_srtp_state = DTLS_SRTP_INIT | DTLS_SRTP_HANDSHAKING | DTLS_SRTP_CONNECTED
  | DTLS_SRTP_FAILED | DTLS_SRTP_CLOSED

datatype dtls_event = DtlsSend bytes | DtlsState dtls_srtp_state | DtlsConnected

record ('ssl, 'srtp) dtls_srtp =
  dtls_ssl :: 'ssl
  dtls_state :: dtls_srtp_state
  rxq :: "bytes option list"
  rx_head :: nat
  rx_tail :: nat
  rx_count :: nat
  srtp_out :: "'srtp option"
  srtp_in :: "'srtp option"
  srtp_ready :: bool
  expected_fingerprint :: string
  handshake_started :: bool
  fingerprint_ok :: bool
  dtls_out :: "dtls_event list"

definition DTLS_RX_QUEUE :: nat where "DTLS_RX_QUEUE = 64"

definition dtls_emit :: "dtls_event \<Rightarrow> ('ssl, 'srtp) dtls_srtp \<Rightarrow> ('ssl, 'srtp) dtls_srtp" where
  "dtls_emit e s = s\<lparr>dtls_out := dtls_out s @ [e]\<rparr>"

definition dtls_srtp_session_create :: "bool \<Rightarrow> 'ssl option \<Rightarrow> ('ssl, 'srtp) dtls_srtp option" where
  "dtls_srtp_session_create ready ssl =
     (case ssl of
        None \<Rightarrow> None
      | Some c \<Rightarrow> if \<not> ready then None else
          Some \<lparr>dtls_ssl = c, dtls_state = DTLS_SRTP_INIT, rxq = replicate DTLS_RX_QUEUE None,
                rx_head = 0, rx_tail = 0, rx_count = 0, srtp_out = None, srtp_in = None,
                srtp_ready = False, expected_fingerprint = [], handshake_started = False,
                fingerprint_ok = False, dtls_out = []\<rparr>)"

definition dtls_srtp_set_expected_fingerprint :: "string \<Rightarrow> ('ssl, 'srtp) dtls_srtp \<Rightarrow> ('ssl, 'srtp) dtls_srtp" where
  "dtls_srtp_set_expected_fingerprint fp s = s\<lparr>expected_fingerprint := take 127 fp\<rparr>"

section \<open>The BIO callbacks\<close>

definition rx_advance :: "('ssl, 'srtp) dtls_srtp \<Rightarrow> ('ssl, 'srtp) dtls_srtp" where
  "rx_advance s = s\<lparr>rxq := (rxq s)[rx_head s := None], rx_count := rx_count s - 1,
                    rx_head := (rx_head s + 1) mod DTLS_RX_QUEUE\<rparr>"

text \<open>
  A read takes one datagram; one that does not fit the buffer is dropped. A slot of the queue whose
  data pointer is null would be a null dereference and reads as an empty datagram here; the queue's
  invariant excludes it.
\<close>

definition bio_rx_read :: "nat \<Rightarrow> ('ssl, 'srtp) dtls_srtp \<Rightarrow> bytes option \<times> ('ssl, 'srtp) dtls_srtp" where
  "bio_rx_read cap s =
     (if rx_count s = 0 then (None, s)
      else
        let pkt = (case rxq s ! rx_head s of Some d \<Rightarrow> d | None \<Rightarrow> [])
        in if cap < length pkt then (None, rx_advance s) else (Some pkt, rx_advance s))"

definition bio_rx_ctrl_pending :: "('ssl, 'srtp) dtls_srtp \<Rightarrow> bool" where
  "bio_rx_ctrl_pending s \<longleftrightarrow> rx_count s > 0"

definition bio_tx_write :: "bytes \<Rightarrow> ('ssl, 'srtp) dtls_srtp \<Rightarrow> int \<times> ('ssl, 'srtp) dtls_srtp" where
  "bio_tx_write buf s =
     (if length buf = 0 then (- 1, s) else (int (length buf), dtls_emit (DtlsSend buf) s))"

text \<open>One call into OpenSSL: its datagram reads and writes, then its result and new state.\<close>

primrec run_io :: "'ssl io \<Rightarrow> ('ssl, 'srtp) dtls_srtp \<Rightarrow> int \<times> ('ssl, 'srtp) dtls_srtp" where
  "run_io (IoRet rc ssl) s = (rc, s\<lparr>dtls_ssl := ssl\<rparr>)"
| "run_io (IoRead cap k) s = (case bio_rx_read cap s of (r, s') \<Rightarrow> run_io (k r) s')"
| "run_io (IoWrite buf k) s = (case bio_tx_write buf s of (r, s') \<Rightarrow> run_io (k r) s')"
| "run_io (IoPending k) s = run_io (k (bio_rx_ctrl_pending s)) s"

section \<open>State changes and the fingerprint\<close>

definition dtls_set_state :: "dtls_srtp_state \<Rightarrow> ('ssl, 'srtp) dtls_srtp \<Rightarrow> ('ssl, 'srtp) dtls_srtp" where
  "dtls_set_state st s =
     (if dtls_state s = st then s else dtls_emit (DtlsState st) (s\<lparr>dtls_state := st\<rparr>))"

definition hex_digit :: "nat \<Rightarrow> char" where
  "hex_digit n = ''0123456789ABCDEF'' ! n"

text \<open>\<^verbatim>\<open>%02X\<close> of a byte.\<close>

definition hex2 :: "u8 \<Rightarrow> string" where
  "hex2 b = [hex_digit (unat b div 16), hex_digit (unat b mod 16)]"

definition fold_hex_case :: "char \<Rightarrow> char" where
  "fold_hex_case c = (if 97 \<le> (of_char c :: nat) \<and> (of_char c :: nat) \<le> 102 then char_of ((of_char c :: nat) - 32) else c)"

definition skip_algorithm :: "string \<Rightarrow> string" where
  "skip_algorithm p = (case dropWhile (\<lambda>c. c \<noteq> CHR 0x20) p of [] \<Rightarrow> p | _ # rest \<Rightarrow> rest)"

definition fingerprint_hex_equal :: "string \<Rightarrow> bytes \<Rightarrow> bool" where
  "fingerprint_hex_equal sdp_value md \<longleftrightarrow>
     take 127 (map fold_hex_case (filter (\<lambda>c. c \<noteq> CHR 0x3A) (skip_algorithm sdp_value))) = concat (map hex2 md)"

text \<open>The attribute value \<^verbatim>\<open>generate_certificate\<close> makes of the digest of the local certificate.\<close>

fun colon_hex :: "bytes \<Rightarrow> string" where
  "colon_hex [] = []"
| "colon_hex [b] = hex2 b"
| "colon_hex (b # bs) = hex2 b @ CHR 0x3A # colon_hex bs"

definition fingerprint_text :: "bytes \<Rightarrow> string" where
  "fingerprint_text md = ''sha-256 '' @ colon_hex md"

section \<open>Key derivation\<close>

definition client_key_of :: "bytes \<Rightarrow> bytes" where
  "client_key_of material = take 16 material @ take 14 (drop 32 material)"

definition server_key_of :: "bytes \<Rightarrow> bytes" where
  "server_key_of material = take 16 (drop 16 material) @ take 14 (drop 46 material)"

text \<open>The flag of \<open>srtp_create\<close> is the direction: true for the outbound policy.\<close>

definition derive_srtp_keys :: "('ssl, 'srtp) dtls_lib \<Rightarrow> ('ssl, 'srtp) dtls_srtp \<Rightarrow> int \<times> ('ssl, 'srtp) dtls_srtp" where
  "derive_srtp_keys lib s =
     (case export_keying_material lib (dtls_ssl s) of
        None \<Rightarrow> (- 1, s)
      | Some material \<Rightarrow>
          case srtp_create lib True (server_key_of material) of
            None \<Rightarrow> (- 1, s)
          | Some out \<Rightarrow>
              let s1 = s\<lparr>srtp_out := Some out\<rparr> in
              case srtp_create lib False (client_key_of material) of
                None \<Rightarrow> (- 1, s1)
              | Some inp \<Rightarrow>
                  let s2 = s1\<lparr>srtp_in := Some inp\<rparr>;
                      ok = (if expected_fingerprint s = [] then True
                            else case peer_certificate_digest lib (dtls_ssl s) of
                              None \<Rightarrow> False
                            | Some None \<Rightarrow> False
                            | Some (Some md) \<Rightarrow> fingerprint_hex_equal (expected_fingerprint s) md)
                  in if \<not> ok then (- 1, s2) else (0, s2\<lparr>fingerprint_ok := True, srtp_ready := True\<rparr>))"

section \<open>Driving the handshake\<close>

definition pump_failed :: "('ssl, 'srtp) dtls_lib \<Rightarrow> int \<Rightarrow> ('ssl, 'srtp) dtls_srtp \<Rightarrow> bool" where
  "pump_failed lib rc s \<longleftrightarrow> SSL_get_error lib (dtls_ssl s) rc = SSL_ERROR_OTHER"

text \<open>The end of \<^verbatim>\<open>pump_ssl\<close>: the handshake may just have finished.\<close>

definition pump_finish :: "('ssl, 'srtp) dtls_lib \<Rightarrow> ('ssl, 'srtp) dtls_srtp \<Rightarrow> ('ssl, 'srtp) dtls_srtp" where
  "pump_finish lib s =
     (if \<not> srtp_ready s \<and> SSL_is_init_finished lib (dtls_ssl s) then
        case derive_srtp_keys lib s of
          (rc, s1) \<Rightarrow>
            if rc \<noteq> 0 then dtls_set_state DTLS_SRTP_FAILED s1
            else dtls_emit DtlsConnected (dtls_set_state DTLS_SRTP_CONNECTED s1)
      else s)"

definition pump_ssl :: "('ssl, 'srtp) dtls_lib \<Rightarrow> ('ssl, 'srtp) dtls_srtp \<Rightarrow> ('ssl, 'srtp) dtls_srtp" where
  "pump_ssl lib s =
     (if dtls_state s = DTLS_SRTP_CLOSED \<or> dtls_state s = DTLS_SRTP_FAILED then s
      else if \<not> handshake_started s then
        let s1 = dtls_set_state DTLS_SRTP_HANDSHAKING (s\<lparr>handshake_started := True\<rparr>) in
        case run_io (SSL_accept lib (dtls_ssl s1)) s1 of
          (rc, s2) \<Rightarrow>
            if rc \<noteq> 1 \<and> pump_failed lib rc s2 then dtls_set_state DTLS_SRTP_FAILED s2
            else pump_finish lib s2
      else
        case run_io (SSL_read lib (dtls_ssl s)) s of
          (rc, s2) \<Rightarrow>
            if rc < 0 then
              (if pump_failed lib rc s2 then dtls_set_state DTLS_SRTP_FAILED s2 else pump_finish lib s2)
            else if rc = 0 then dtls_set_state DTLS_SRTP_CLOSED s2
            else pump_finish lib s2)"

definition rx_make_room :: "('ssl, 'srtp) dtls_srtp \<Rightarrow> ('ssl, 'srtp) dtls_srtp" where
  "rx_make_room s = (if rx_count s \<ge> DTLS_RX_QUEUE then rx_advance s else s)"

definition rx_store :: "bytes \<Rightarrow> ('ssl, 'srtp) dtls_srtp \<Rightarrow> ('ssl, 'srtp) dtls_srtp" where
  "rx_store packet s = s\<lparr>rxq := (rxq s)[rx_tail s := Some packet],
     rx_tail := (rx_tail s + 1) mod DTLS_RX_QUEUE, rx_count := rx_count s + 1\<rparr>"

definition dtls_srtp_on_udp :: "('ssl, 'srtp) dtls_lib \<Rightarrow> bool \<Rightarrow> bytes \<Rightarrow> ('ssl, 'srtp) dtls_srtp \<Rightarrow> ('ssl, 'srtp) dtls_srtp" where
  "dtls_srtp_on_udp lib alloc_ok packet s =
     (if dtls_state s = DTLS_SRTP_FAILED then s
      else if \<not> alloc_ok then rx_make_room s
      else pump_ssl lib (rx_store packet (rx_make_room s)))"

definition dtls_srtp_tick :: "('ssl, 'srtp) dtls_lib \<Rightarrow> ('ssl, 'srtp) dtls_srtp \<Rightarrow> ('ssl, 'srtp) dtls_srtp" where
  "dtls_srtp_tick lib s =
     (if dtls_state s \<noteq> DTLS_SRTP_HANDSHAKING then s
      else
        let s1 = (if DTLSv1_get_timeout lib (dtls_ssl s) = Some (0, 0)
                  then snd (run_io (DTLSv1_handle_timeout lib (dtls_ssl s)) s) else s)
        in pump_ssl lib s1)"

definition dtls_srtp_next_timeout_ms :: "('ssl, 'srtp) dtls_lib \<Rightarrow> ('ssl, 'srtp) dtls_srtp \<Rightarrow> int" where
  "dtls_srtp_next_timeout_ms lib s =
     (if dtls_state s \<noteq> DTLS_SRTP_HANDSHAKING \<and> dtls_state s \<noteq> DTLS_SRTP_INIT then - 1
      else case DTLSv1_get_timeout lib (dtls_ssl s) of
        None \<Rightarrow> - 1
      | Some (sec, usec) \<Rightarrow> int (sec * 1000 + usec div 1000))"

section \<open>Protected traffic\<close>

text \<open>The result carries the protected packet, or \<open>None\<close> for the return value -1.\<close>

definition dtls_srtp_send_rtp :: "('ssl, 'srtp) dtls_lib \<Rightarrow> bytes \<Rightarrow> ('ssl, 'srtp) dtls_srtp \<Rightarrow>
    bytes option \<times> ('ssl, 'srtp) dtls_srtp" where
  "dtls_srtp_send_rtp lib pkt s =
     (if \<not> srtp_ready s then (None, s)
      else case srtp_out s of
        None \<Rightarrow> (None, s)
      | Some ctx \<Rightarrow>
          case srtp_protect lib ctx pkt of
            None \<Rightarrow> (None, s)
          | Some (ctx', out) \<Rightarrow> (Some out, dtls_emit (DtlsSend out) (s\<lparr>srtp_out := Some ctx'\<rparr>)))"

definition dtls_srtp_send_rtcp :: "('ssl, 'srtp) dtls_lib \<Rightarrow> bytes \<Rightarrow> ('ssl, 'srtp) dtls_srtp \<Rightarrow>
    bytes option \<times> ('ssl, 'srtp) dtls_srtp" where
  "dtls_srtp_send_rtcp lib pkt s =
     (if \<not> srtp_ready s then (None, s)
      else case srtp_out s of
        None \<Rightarrow> (None, s)
      | Some ctx \<Rightarrow>
          case srtp_protect_rtcp lib ctx pkt of
            None \<Rightarrow> (None, s)
          | Some (ctx', out) \<Rightarrow> (Some out, dtls_emit (DtlsSend out) (s\<lparr>srtp_out := Some ctx'\<rparr>)))"

definition dtls_srtp_unprotect_rtcp :: "('ssl, 'srtp) dtls_lib \<Rightarrow> bytes \<Rightarrow> ('ssl, 'srtp) dtls_srtp \<Rightarrow>
    bytes option \<times> ('ssl, 'srtp) dtls_srtp" where
  "dtls_srtp_unprotect_rtcp lib pkt s =
     (if \<not> srtp_ready s then (None, s)
      else case srtp_in s of
        None \<Rightarrow> (None, s)
      | Some ctx \<Rightarrow>
          case srtp_unprotect_rtcp lib ctx pkt of
            None \<Rightarrow> (None, s)
          | Some (ctx', plain) \<Rightarrow> (Some plain, s\<lparr>srtp_in := Some ctx'\<rparr>))"

definition dtls_srtp_close :: "('ssl, 'srtp) dtls_lib \<Rightarrow> ('ssl, 'srtp) dtls_srtp \<Rightarrow> ('ssl, 'srtp) dtls_srtp" where
  "dtls_srtp_close lib s =
     dtls_set_state DTLS_SRTP_CLOSED
       (if dtls_state s = DTLS_SRTP_CONNECTED then snd (run_io (SSL_shutdown lib (dtls_ssl s)) s) else s)"

section \<open>The receive queue\<close>

definition rx_slot :: "('ssl, 'srtp) dtls_srtp \<Rightarrow> nat \<Rightarrow> nat" where
  "rx_slot s i = (rx_head s + i) mod DTLS_RX_QUEUE"

definition rx_contents :: "('ssl, 'srtp) dtls_srtp \<Rightarrow> bytes list" where
  "rx_contents s = map (\<lambda>i. the (rxq s ! rx_slot s i)) [0..<rx_count s]"

text \<open>A slot holds a buffer exactly when it is in use: no null dereference, no buffer lost.\<close>

definition rx_inv :: "('ssl, 'srtp) dtls_srtp \<Rightarrow> bool" where
  "rx_inv s \<longleftrightarrow> length (rxq s) = DTLS_RX_QUEUE \<and> rx_head s < DTLS_RX_QUEUE \<and> rx_count s \<le> DTLS_RX_QUEUE \<and>
     rx_tail s = (rx_head s + rx_count s) mod DTLS_RX_QUEUE \<and>
     (\<forall>j < DTLS_RX_QUEUE. rxq s ! j \<noteq> None \<longleftrightarrow> (\<exists>i < rx_count s. j = rx_slot s i))"

lemma queue_pos [simp]: "0 < DTLS_RX_QUEUE"
  by (simp add: DTLS_RX_QUEUE_def)

lemma rx_slot_less [simp]: "rx_slot s i < DTLS_RX_QUEUE"
  by (simp add: rx_slot_def)

lemma rx_slot_inj: "i < DTLS_RX_QUEUE \<Longrightarrow> j < DTLS_RX_QUEUE \<Longrightarrow> rx_slot s i = rx_slot s j \<longleftrightarrow> i = j"
  using mod_add_distinct by (auto simp: rx_slot_def)

lemma rx_slot_advance: "rx_slot (rx_advance s) i = rx_slot s (Suc i)"
  by (simp add: rx_slot_def rx_advance_def mod_simps)

lemma rx_slot_0: "rx_inv s \<Longrightarrow> rx_slot s 0 = rx_head s"
  by (simp add: rx_slot_def rx_inv_def)

lemma rx_advance_inv:
  assumes inv: "rx_inv s" and ne: "rx_count s \<noteq> 0"
  shows "rx_inv (rx_advance s) \<and> rx_contents (rx_advance s) = tl (rx_contents s)"
proof -
  obtain c where c: "rx_count s = Suc c" using ne by (cases "rx_count s") auto
  have cb: "Suc c \<le> DTLS_RX_QUEUE" using inv c by (simp add: rx_inv_def)
  have upd: "rxq (rx_advance s) ! j = (if j = rx_head s then None else rxq s ! j)" if "j < DTLS_RX_QUEUE" for j
    using that inv by (simp add: rx_advance_def rx_inv_def)
  have hd: "rx_slot s (Suc i) \<noteq> rx_head s" if "i < c" for i
    using rx_slot_inj [of "Suc i" 0 s] rx_slot_0 [OF inv] that cb by auto
  have occ: "rxq (rx_advance s) ! j \<noteq> None \<longleftrightarrow> (\<exists>i < c. j = rx_slot s (Suc i))" if j: "j < DTLS_RX_QUEUE" for j
  proof -
    have "rxq s ! j \<noteq> None \<longleftrightarrow> (\<exists>i < Suc c. j = rx_slot s i)" using inv j c by (simp add: rx_inv_def)
    moreover have "(\<exists>i < Suc c. j = rx_slot s i) \<longleftrightarrow> j = rx_head s \<or> (\<exists>i < c. j = rx_slot s (Suc i))"
      using rx_slot_0 [OF inv] by (auto simp: less_Suc_eq_0_disj)
    moreover have "\<forall>i < c. rx_slot s (Suc i) \<noteq> rx_head s" using hd by blast
    ultimately show ?thesis using upd [OF j] by (cases "j = rx_head s") auto
  qed
  have "rx_inv (rx_advance s)"
    using inv c occ unfolding rx_inv_def rx_slot_advance
    by (auto simp: rx_advance_def mod_simps)
  moreover have "rx_contents (rx_advance s) = tl (rx_contents s)"
  proof -
    have "[0..<rx_count s] = 0 # map Suc [0..<c]" using c by (simp add: map_Suc_upt upt_conv_Cons)
    then have "tl (rx_contents s) = map (\<lambda>i. the (rxq s ! rx_slot s (Suc i))) [0..<c]"
      by (simp add: rx_contents_def o_def)
    moreover have "rx_contents (rx_advance s) = map (\<lambda>i. the (rxq s ! rx_slot s (Suc i))) [0..<c]"
      unfolding rx_contents_def rx_slot_advance using c upd hd by (auto simp: rx_advance_def)
    ultimately show ?thesis by simp
  qed
  ultimately show ?thesis by simp
qed

lemma rx_store_inv:
  assumes inv: "rx_inv s" and room: "rx_count s < DTLS_RX_QUEUE"
  shows "rx_inv (rx_store p s) \<and> rx_contents (rx_store p s) = rx_contents s @ [p]"
proof -
  have t: "rx_tail s = rx_slot s (rx_count s)" using inv by (simp add: rx_inv_def rx_slot_def)
  have at: "rx_slot (rx_store p s) i = rx_slot s i" for i by (simp add: rx_slot_def rx_store_def)
  have upd: "rxq (rx_store p s) ! j = (if j = rx_tail s then Some p else rxq s ! j)" if "j < DTLS_RX_QUEUE" for j
    using that inv t by (simp add: rx_store_def rx_inv_def)
  have ne: "rx_slot s i \<noteq> rx_tail s" if "i < rx_count s" for i
    using that room rx_slot_inj [of i "rx_count s" s] t by auto
  have "rx_inv (rx_store p s)"
    unfolding rx_inv_def at
  proof (intro conjI allI impI)
    fix j assume j: "j < DTLS_RX_QUEUE"
    have "rxq s ! j \<noteq> None \<longleftrightarrow> (\<exists>i < rx_count s. j = rx_slot s i)" using inv j by (simp add: rx_inv_def)
    then show "rxq (rx_store p s) ! j \<noteq> None \<longleftrightarrow> (\<exists>i < rx_count (rx_store p s). j = rx_slot s i)"
      using upd [OF j] t by (auto simp: rx_store_def less_Suc_eq)
  qed (use inv room in \<open>auto simp: rx_inv_def rx_store_def mod_simps\<close>)
  moreover have "rx_contents (rx_store p s) = rx_contents s @ [p]"
    unfolding rx_contents_def at using upd ne t by (auto simp: rx_store_def)
  ultimately show ?thesis by simp
qed

definition rx_push :: "('ssl, 'srtp) dtls_srtp \<Rightarrow> bytes \<Rightarrow> ('ssl, 'srtp) dtls_srtp" where
  "rx_push s p = rx_store p (rx_make_room s)"

lemma rx_contents_length [simp]: "length (rx_contents s) = rx_count s"
  by (simp add: rx_contents_def)

lemma rx_make_room_inv:
  assumes "rx_inv s"
  shows "rx_inv (rx_make_room s) \<and> rx_count (rx_make_room s) < DTLS_RX_QUEUE \<and>
    rx_contents (rx_make_room s) =
      (if length (rx_contents s) = DTLS_RX_QUEUE then tl (rx_contents s) else rx_contents s)"
proof (cases "rx_count s \<ge> DTLS_RX_QUEUE")
  case True
  then have c: "rx_count s = DTLS_RX_QUEUE" using assms by (simp add: rx_inv_def)
  then show ?thesis using rx_advance_inv [OF assms] by (simp add: rx_make_room_def rx_advance_def)
qed (use assms in \<open>auto simp: rx_make_room_def\<close>)

interpretation rxq_i: newest_queue rx_contents "\<lambda>_. DTLS_RX_QUEUE" "\<lambda>_ _. True" rx_push rx_advance rx_inv
proof unfold_locales
  fix s :: "('ssl, 'srtp) dtls_srtp" and x :: bytes
  show "rx_inv s \<Longrightarrow> 0 < DTLS_RX_QUEUE \<and> length (rx_contents s) \<le> DTLS_RX_QUEUE"
    by (simp add: rx_inv_def)
  show "rx_inv s \<Longrightarrow> True \<Longrightarrow> rx_inv (rx_push s x) \<and> DTLS_RX_QUEUE = DTLS_RX_QUEUE \<and>
      (\<lambda>_. True) = (\<lambda>_. True) \<and> rx_contents (rx_push s x) = push_newest DTLS_RX_QUEUE (rx_contents s) x"
    using rx_make_room_inv [of s] rx_store_inv [of "rx_make_room s" x] by (simp add: rx_push_def push_newest_def)
  show "rx_inv s \<Longrightarrow> rx_contents s \<noteq> [] \<Longrightarrow> rx_inv (rx_advance s) \<and> DTLS_RX_QUEUE = DTLS_RX_QUEUE \<and>
      (\<lambda>_. True) = (\<lambda>_. True) \<and> rx_contents (rx_advance s) = tl (rx_contents s)"
    using rx_advance_inv [of s] by (simp add: rx_contents_def)
qed

section \<open>The state machine\<close>

text \<open>
  The events of an operation walk the state machine: which state may follow which, \<^verbatim>\<open>FAILED\<close> and
  \<^verbatim>\<open>CLOSED\<close> come last in an operation, and the owner is told that keys are ready in \<^verbatim>\<open>CONNECTED\<close> only.
\<close>

definition dtls_edge :: "dtls_srtp_state \<Rightarrow> dtls_srtp_state \<Rightarrow> bool" where
  "dtls_edge a b \<longleftrightarrow> (a, b) \<in> {(DTLS_SRTP_INIT, DTLS_SRTP_HANDSHAKING), (DTLS_SRTP_INIT, DTLS_SRTP_CLOSED),
     (DTLS_SRTP_HANDSHAKING, DTLS_SRTP_CONNECTED), (DTLS_SRTP_HANDSHAKING, DTLS_SRTP_FAILED),
     (DTLS_SRTP_HANDSHAKING, DTLS_SRTP_CLOSED), (DTLS_SRTP_CONNECTED, DTLS_SRTP_FAILED),
     (DTLS_SRTP_CONNECTED, DTLS_SRTP_CLOSED), (DTLS_SRTP_FAILED, DTLS_SRTP_CLOSED)}"

fun ev_walk :: "dtls_srtp_state \<Rightarrow> dtls_event list \<Rightarrow> dtls_srtp_state option" where
  "ev_walk st [] = Some st"
| "ev_walk st (DtlsSend _ # es) = (if st \<in> {DTLS_SRTP_FAILED, DTLS_SRTP_CLOSED} then None else ev_walk st es)"
| "ev_walk st (DtlsState st' # es) =
     (if \<not> dtls_edge st st' then None
      else if st' = DTLS_SRTP_CONNECTED then
        (case es of DtlsConnected # es' \<Rightarrow> ev_walk st' es' | _ \<Rightarrow> None)
      else ev_walk st' es)"
| "ev_walk st (DtlsConnected # es) = None"

lemma ev_walk_append: "ev_walk st xs = Some st' \<Longrightarrow> ev_walk st (xs @ ys) = ev_walk st' ys"
  by (induction st xs rule: ev_walk.induct) (auto split: if_splits list.splits dtls_event.splits)

lemma ev_walk_sends: "st \<notin> {DTLS_SRTP_FAILED, DTLS_SRTP_CLOSED} \<Longrightarrow> ev_walk st (map DtlsSend ds) = Some st"
  by (induction ds) auto

definition dtls_inv :: "('ssl, 'srtp) dtls_srtp \<Rightarrow> bool" where
  "dtls_inv s \<longleftrightarrow> rx_inv s \<and>
     (\<not> handshake_started s \<longrightarrow> dtls_state s \<in> {DTLS_SRTP_INIT, DTLS_SRTP_CLOSED}) \<and>
     (dtls_state s = DTLS_SRTP_INIT \<longrightarrow> \<not> handshake_started s) \<and>
     (dtls_state s = DTLS_SRTP_CONNECTED \<longrightarrow> srtp_ready s) \<and>
     (dtls_state s \<in> {DTLS_SRTP_INIT, DTLS_SRTP_HANDSHAKING} \<longrightarrow> \<not> srtp_ready s) \<and>
     (srtp_ready s \<longrightarrow> fingerprint_ok s \<and> srtp_out s \<noteq> None \<and> srtp_in s \<noteq> None)"

text \<open>What an operation may do: new events that walk from the old state to the new one.\<close>

definition dtls_moves :: "('ssl, 'srtp) dtls_srtp \<Rightarrow> ('ssl, 'srtp) dtls_srtp \<Rightarrow> bool" where
  "dtls_moves s s' \<longleftrightarrow> (\<exists>evs. dtls_out s' = dtls_out s @ evs \<and> ev_walk (dtls_state s) evs = Some (dtls_state s'))"

lemma moves_refl [simp]: "dtls_moves s s"
  by (simp add: dtls_moves_def)

lemma moves_trans: "dtls_moves s t \<Longrightarrow> dtls_moves t u \<Longrightarrow> dtls_moves s u"
  unfolding dtls_moves_def by (auto simp: ev_walk_append)

lemma moves_set: "dtls_edge (dtls_state s) st \<Longrightarrow> st \<noteq> DTLS_SRTP_CONNECTED \<Longrightarrow> dtls_moves s (dtls_set_state st s)"
  by (auto simp: dtls_moves_def dtls_set_state_def dtls_emit_def)

lemma rx_inv_update [simp]:
  "rx_inv (s\<lparr>dtls_ssl := x1\<rparr>) = rx_inv s" "rx_inv (s\<lparr>dtls_out := x2\<rparr>) = rx_inv s"
  "rx_inv (s\<lparr>dtls_state := x3\<rparr>) = rx_inv s" "rx_inv (s\<lparr>srtp_out := x4\<rparr>) = rx_inv s"
  "rx_inv (s\<lparr>srtp_in := x5\<rparr>) = rx_inv s" "rx_inv (s\<lparr>srtp_ready := x6\<rparr>) = rx_inv s"
  "rx_inv (s\<lparr>fingerprint_ok := x7\<rparr>) = rx_inv s" "rx_inv (s\<lparr>handshake_started := x8\<rparr>) = rx_inv s"
  "rx_inv (s\<lparr>expected_fingerprint := x9\<rparr>) = rx_inv s"
  by (simp_all add: rx_inv_def rx_slot_def)

text \<open>A call into the library touches the queue, its own state and the events, nothing else.\<close>

definition io_frame :: "('ssl, 'srtp) dtls_srtp \<Rightarrow> ('ssl, 'srtp) dtls_srtp \<Rightarrow> bool" where
  "io_frame s s' \<longleftrightarrow> dtls_state s' = dtls_state s \<and> srtp_ready s' = srtp_ready s \<and> srtp_out s' = srtp_out s \<and>
     srtp_in s' = srtp_in s \<and> expected_fingerprint s' = expected_fingerprint s \<and>
     handshake_started s' = handshake_started s \<and> fingerprint_ok s' = fingerprint_ok s \<and>
     (\<exists>ds. dtls_out s' = dtls_out s @ map DtlsSend ds)"

lemma io_frame_refl [simp]: "io_frame s s"
  by (auto simp: io_frame_def intro: exI [of _ "[]"])

lemma io_frame_trans: "io_frame s t \<Longrightarrow> io_frame t u \<Longrightarrow> io_frame s u"
  by (auto simp: io_frame_def simp flip: map_append)

lemma io_frame_quiet: "dtls_state s' = dtls_state s \<Longrightarrow> srtp_ready s' = srtp_ready s \<Longrightarrow> srtp_out s' = srtp_out s \<Longrightarrow>
   srtp_in s' = srtp_in s \<Longrightarrow> expected_fingerprint s' = expected_fingerprint s \<Longrightarrow>
   handshake_started s' = handshake_started s \<Longrightarrow> fingerprint_ok s' = fingerprint_ok s \<Longrightarrow>
   dtls_out s' = dtls_out s \<Longrightarrow> io_frame s s'"
  by (auto simp: io_frame_def intro: exI [of _ "[]"])

lemma rx_advance_frame: "io_frame s (rx_advance s)"
  by (rule io_frame_quiet) (simp_all add: rx_advance_def)

lemma bio_rx_read_frame:
  assumes "rx_inv s" "bio_rx_read cap s = (r, s')"
  shows "rx_inv s' \<and> io_frame s s'"
  using assms rx_advance_inv [of s] rx_advance_frame [of s]
  by (auto simp: bio_rx_read_def Let_def split: if_splits)

lemma bio_tx_write_frame:
  assumes "bio_tx_write buf s = (r, s')"
  shows "io_frame s s' \<and> (rx_inv s \<longrightarrow> rx_inv s')"
  using assms
  by (auto simp: bio_tx_write_def dtls_emit_def io_frame_def split: if_splits
      intro: exI [of _ "[buf]"] exI [of _ "[]"])

lemma run_io_frame:
  "rx_inv s \<Longrightarrow> run_io t s = (rc, s') \<Longrightarrow> rx_inv s' \<and> io_frame s s'"
proof (induction t arbitrary: s)
  case (IoRet rc' ssl)
  then show ?case by (auto intro!: io_frame_quiet)
next
  case (IoRead cap k)
  obtain r s1 where r: "bio_rx_read cap s = (r, s1)" by fastforce
  with bio_rx_read_frame [OF IoRead.prems(1) r] IoRead.IH [of "k r" s1] IoRead.prems(2)
  show ?case by (auto intro: io_frame_trans)
next
  case (IoWrite buf k)
  obtain r s1 where r: "bio_tx_write buf s = (r, s1)" by fastforce
  with bio_tx_write_frame [OF r] IoWrite.IH [of "k r" s1] IoWrite.prems
  show ?case by (auto intro: io_frame_trans)
next
  case (IoPending k)
  then show ?case by auto
qed

lemma io_frame_moves:
  "io_frame s s' \<Longrightarrow> dtls_state s \<notin> {DTLS_SRTP_FAILED, DTLS_SRTP_CLOSED} \<Longrightarrow> dtls_moves s s'"
  using ev_walk_sends by (fastforce simp: io_frame_def dtls_moves_def)

lemma io_frame_inv: "io_frame s s' \<Longrightarrow> rx_inv s' \<Longrightarrow> dtls_inv s \<Longrightarrow> dtls_inv s'"
  by (auto simp: io_frame_def dtls_inv_def)

lemma set_state_inv:
  assumes "dtls_inv s" "st \<in> {DTLS_SRTP_FAILED, DTLS_SRTP_CLOSED}" "st = DTLS_SRTP_FAILED \<longrightarrow> handshake_started s"
  shows "dtls_inv (dtls_set_state st s)"
  using assms by (auto simp: dtls_set_state_def dtls_emit_def dtls_inv_def)

text \<open>The peer's certificate is the one announced in signalling, or signalling announced none.\<close>

definition peer_verified :: "('ssl, 'srtp) dtls_lib \<Rightarrow> ('ssl, 'srtp) dtls_srtp \<Rightarrow> bool" where
  "peer_verified lib s \<longleftrightarrow> expected_fingerprint s = [] \<or>
     (\<exists>md. peer_certificate_digest lib (dtls_ssl s) = Some (Some md) \<and>
       fingerprint_hex_equal (expected_fingerprint s) md)"

definition keys_from :: "('ssl, 'srtp) dtls_lib \<Rightarrow> ('ssl, 'srtp) dtls_srtp \<Rightarrow> bool" where
  "keys_from lib s \<longleftrightarrow> (\<exists>material out inp. export_keying_material lib (dtls_ssl s) = Some material \<and>
     srtp_create lib True (server_key_of material) = Some out \<and> srtp_out s = Some out \<and>
     srtp_create lib False (client_key_of material) = Some inp \<and> srtp_in s = Some inp)"

lemma derive_ok:
  assumes "derive_srtp_keys lib s = (rc, s')"
  shows "(rc = 0 \<longrightarrow> srtp_ready s' \<and> fingerprint_ok s' \<and> peer_verified lib s' \<and> keys_from lib s') \<and>
    (rc \<noteq> 0 \<longrightarrow> srtp_ready s' = srtp_ready s \<and> fingerprint_ok s' = fingerprint_ok s) \<and>
    dtls_state s' = dtls_state s \<and> dtls_out s' = dtls_out s \<and> handshake_started s' = handshake_started s \<and>
    expected_fingerprint s' = expected_fingerprint s \<and> dtls_ssl s' = dtls_ssl s \<and> (rx_inv s \<longrightarrow> rx_inv s')"
proof (cases "export_keying_material lib (dtls_ssl s)")
  case (Some material)
  show ?thesis
  proof (cases "srtp_create lib True (server_key_of material)")
    case out: (Some out)
    show ?thesis
    proof (cases "srtp_create lib False (client_key_of material)")
      case inp: (Some inp)
      have ok: "(if expected_fingerprint s = [] then True
              else case peer_certificate_digest lib (dtls_ssl s) of
                None \<Rightarrow> False | Some None \<Rightarrow> False
              | Some (Some md) \<Rightarrow> fingerprint_hex_equal (expected_fingerprint s) md) \<longleftrightarrow> peer_verified lib s"
        by (auto simp: peer_verified_def split: option.splits)
      have "derive_srtp_keys lib s =
          (let s2 = s\<lparr>srtp_out := Some out, srtp_in := Some inp\<rparr>
           in if \<not> peer_verified lib s then (- 1, s2) else (0, s2\<lparr>fingerprint_ok := True, srtp_ready := True\<rparr>))"
        by (simp only: derive_srtp_keys_def Some out inp option.case Let_def ok)
      with assms Some out inp show ?thesis
        by (simp add: Let_def keys_from_def peer_verified_def split: if_splits) auto
    qed (use assms Some out in \<open>auto simp: derive_srtp_keys_def Let_def\<close>)
  qed (use assms Some in \<open>auto simp: derive_srtp_keys_def Let_def\<close>)
qed (use assms in \<open>auto simp: derive_srtp_keys_def\<close>)

lemma pump_finish_ok:
  assumes inv: "dtls_inv s" and st: "dtls_state s \<in> {DTLS_SRTP_HANDSHAKING, DTLS_SRTP_CONNECTED}"
  shows "dtls_inv (pump_finish lib s) \<and> dtls_moves s (pump_finish lib s) \<and>
    (\<not> srtp_ready s \<and> srtp_ready (pump_finish lib s) \<longrightarrow>
       peer_verified lib (pump_finish lib s) \<and> keys_from lib (pump_finish lib s))"
proof (cases "\<not> srtp_ready s \<and> SSL_is_init_finished lib (dtls_ssl s)")
  case True
  then have hs: "dtls_state s = DTLS_SRTP_HANDSHAKING" using inv st by (auto simp: dtls_inv_def)
  obtain rc s1 where d: "derive_srtp_keys lib s = (rc, s1)" by fastforce
  note D = derive_ok [OF d]
  show ?thesis
  proof (cases "rc = 0")
    case False
    then have e: "pump_finish lib s = dtls_set_state DTLS_SRTP_FAILED s1" using True d by (simp add: pump_finish_def)
    have "dtls_inv s1" using D False inv hs by (auto simp: dtls_inv_def)
    then have "dtls_inv (dtls_set_state DTLS_SRTP_FAILED s1)"
      using D hs inv by (intro set_state_inv) (auto simp: dtls_inv_def)
    moreover have "dtls_moves s (dtls_set_state DTLS_SRTP_FAILED s1)"
      using D hs by (auto simp: dtls_moves_def dtls_set_state_def dtls_emit_def dtls_edge_def)
    moreover have "\<not> srtp_ready (dtls_set_state DTLS_SRTP_FAILED s1)"
      using D False True by (simp add: dtls_set_state_def dtls_emit_def)
    ultimately show ?thesis by (simp add: e)
  next
    case ok: True
    then have e: "pump_finish lib s = dtls_emit DtlsConnected (dtls_set_state DTLS_SRTP_CONNECTED s1)"
      using True d by (simp add: pump_finish_def)
    then show ?thesis
      using D ok hs inv True
      by (auto simp: dtls_moves_def dtls_set_state_def dtls_emit_def dtls_edge_def dtls_inv_def
          peer_verified_def keys_from_def)
  qed
next
  case False
  then show ?thesis using inv by (auto simp: pump_finish_def)
qed

definition newly_keyed_ok :: "('ssl, 'srtp) dtls_lib \<Rightarrow> ('ssl, 'srtp) dtls_srtp \<Rightarrow> ('ssl, 'srtp) dtls_srtp \<Rightarrow> bool" where
  "newly_keyed_ok lib s s' \<longleftrightarrow> (\<not> srtp_ready s \<and> srtp_ready s' \<longrightarrow> peer_verified lib s' \<and> keys_from lib s')"

definition op_ok :: "('ssl, 'srtp) dtls_lib \<Rightarrow> ('ssl, 'srtp) dtls_srtp \<Rightarrow> ('ssl, 'srtp) dtls_srtp \<Rightarrow> bool" where
  "op_ok lib s s' \<longleftrightarrow> dtls_inv s' \<and> dtls_moves s s' \<and> newly_keyed_ok lib s s'"

lemma op_ok_refl: "dtls_inv s \<Longrightarrow> op_ok lib s s"
  by (simp add: op_ok_def newly_keyed_ok_def)

text \<open>A step that leaves the keys alone, followed by one that keeps the contract.\<close>

lemma op_ok_after:
  "dtls_moves s t \<Longrightarrow> srtp_ready t = srtp_ready s \<Longrightarrow> op_ok lib t u \<Longrightarrow> op_ok lib s u"
  using moves_trans by (auto simp: op_ok_def newly_keyed_ok_def)

lemma op_ok_set_state:
  assumes "dtls_inv s" "st \<in> {DTLS_SRTP_FAILED, DTLS_SRTP_CLOSED}" "st = DTLS_SRTP_FAILED \<longrightarrow> handshake_started s"
    and "dtls_edge (dtls_state s) st"
  shows "op_ok lib s (dtls_set_state st s)"
  using set_state_inv [OF assms(1-3)] moves_set [OF assms(4)] assms(2)
  by (auto simp: op_ok_def newly_keyed_ok_def dtls_set_state_def dtls_emit_def)

lemma pump_ok: "dtls_inv s \<Longrightarrow> op_ok lib s (pump_ssl lib s)"
proof -
  assume inv: "dtls_inv s"
  consider "dtls_state s \<in> {DTLS_SRTP_CLOSED, DTLS_SRTP_FAILED}"
    | "dtls_state s = DTLS_SRTP_INIT" "\<not> handshake_started s"
    | "dtls_state s \<in> {DTLS_SRTP_HANDSHAKING, DTLS_SRTP_CONNECTED}" "handshake_started s"
    using inv by (cases "dtls_state s") (auto simp: dtls_inv_def)
  then show ?thesis
  proof cases
    case 1
    then show ?thesis using inv by (auto simp: pump_ssl_def intro: op_ok_refl)
  next
    case 2
    let ?s1 = "dtls_set_state DTLS_SRTP_HANDSHAKING (s\<lparr>handshake_started := True\<rparr>)"
    have s1: "dtls_inv ?s1" "dtls_moves s ?s1" "srtp_ready ?s1 = srtp_ready s" "dtls_state ?s1 = DTLS_SRTP_HANDSHAKING"
      "handshake_started ?s1"
      using 2 inv by (auto simp: dtls_set_state_def dtls_emit_def dtls_inv_def dtls_moves_def dtls_edge_def)
    obtain rc s2 where r: "run_io (SSL_accept lib (dtls_ssl ?s1)) ?s1 = (rc, s2)" by fastforce
    have F: "rx_inv s2" "io_frame ?s1 s2" using run_io_frame [OF _ r] s1(1) by (auto simp: dtls_inv_def)
    have i2: "dtls_inv s2" by (rule io_frame_inv [OF F(2,1) s1(1)])
    have st: "dtls_state s2 = DTLS_SRTP_HANDSHAKING" "handshake_started s2" "srtp_ready s2 = srtp_ready s"
      using F(2) s1(3-5) unfolding io_frame_def by simp_all
    have m2: "dtls_moves s s2" using moves_trans [OF s1(2) io_frame_moves [OF F(2)]] s1(4) by simp
    have "op_ok lib s2 (dtls_set_state DTLS_SRTP_FAILED s2)"
      using i2 st by (intro op_ok_set_state) (auto simp: dtls_edge_def)
    moreover have "op_ok lib s2 (pump_finish lib s2)"
      using pump_finish_ok [OF i2, of lib] st by (simp add: op_ok_def newly_keyed_ok_def)
    ultimately have "op_ok lib s (dtls_set_state DTLS_SRTP_FAILED s2)" "op_ok lib s (pump_finish lib s2)"
      using op_ok_after [OF m2 st(3)] by auto
    then show ?thesis using 2 r by (simp add: pump_ssl_def Let_def)
  next
    case 3
    obtain rc s2 where r: "run_io (SSL_read lib (dtls_ssl s)) s = (rc, s2)" by fastforce
    have F: "rx_inv s2" "io_frame s s2" using run_io_frame [OF _ r] inv by (auto simp: dtls_inv_def)
    have i2: "dtls_inv s2" by (rule io_frame_inv [OF F(2,1) inv])
    have st: "dtls_state s2 = dtls_state s" "handshake_started s2" "srtp_ready s2 = srtp_ready s"
      using F(2) 3 by (auto simp: io_frame_def)
    have m2: "dtls_moves s s2" using io_frame_moves [OF F(2)] 3 by auto
    have "op_ok lib s2 (dtls_set_state st' s2)" if "st' \<in> {DTLS_SRTP_FAILED, DTLS_SRTP_CLOSED}" for st'
      using i2 st 3 that by (intro op_ok_set_state) (auto simp: dtls_edge_def)
    moreover have "op_ok lib s2 (pump_finish lib s2)"
      using pump_finish_ok [OF i2, of lib] st 3 by (simp add: op_ok_def newly_keyed_ok_def)
    ultimately have "op_ok lib s (dtls_set_state DTLS_SRTP_FAILED s2)" "op_ok lib s (dtls_set_state DTLS_SRTP_CLOSED s2)"
      "op_ok lib s (pump_finish lib s2)"
      using op_ok_after [OF m2 st(3)] by auto
    then show ?thesis using 3 r by (auto simp: pump_ssl_def)
  qed
qed

lemma rx_push_frame:
  assumes "dtls_inv s"
  shows "dtls_inv (rx_make_room s)" "dtls_inv (rx_store p (rx_make_room s))"
    "dtls_out (rx_make_room s) = dtls_out s" "dtls_out (rx_store p (rx_make_room s)) = dtls_out s"
    "dtls_state (rx_make_room s) = dtls_state s" "dtls_state (rx_store p (rx_make_room s)) = dtls_state s"
    "srtp_ready (rx_make_room s) = srtp_ready s" "srtp_ready (rx_store p (rx_make_room s)) = srtp_ready s"
proof -
  have r: "rx_inv s" using assms by (simp add: dtls_inv_def)
  note M = rx_make_room_inv [OF r]
  have S: "rx_inv (rx_store p (rx_make_room s))" using rx_store_inv [of "rx_make_room s" p] M by simp
  show "dtls_inv (rx_make_room s)" using assms M by (auto simp: dtls_inv_def rx_make_room_def rx_advance_def)
  show "dtls_inv (rx_store p (rx_make_room s))" using assms S
    by (auto simp: dtls_inv_def rx_make_room_def rx_advance_def rx_store_def)
qed (auto simp: rx_make_room_def rx_advance_def rx_store_def)

lemma on_udp_ok: "dtls_inv s \<Longrightarrow> op_ok lib s (dtls_srtp_on_udp lib ok p s)"
proof -
  assume inv: "dtls_inv s"
  note R = rx_push_frame [OF inv]
  have m: "dtls_moves s (rx_make_room s)" "dtls_moves s (rx_store p (rx_make_room s))"
    using R by (simp_all add: dtls_moves_def)
  have "op_ok lib s (rx_make_room s)" by (rule op_ok_after [OF m(1) R(7) op_ok_refl [OF R(1)]])
  moreover have "op_ok lib s (pump_ssl lib (rx_store p (rx_make_room s)))"
    by (rule op_ok_after [OF m(2) R(8) pump_ok [OF R(2)]])
  ultimately show ?thesis using inv by (auto simp: dtls_srtp_on_udp_def intro: op_ok_refl)
qed

lemma tick_ok: "dtls_inv s \<Longrightarrow> op_ok lib s (dtls_srtp_tick lib s)"
proof (cases "dtls_state s = DTLS_SRTP_HANDSHAKING")
  case True
  assume inv: "dtls_inv s"
  obtain rc s1 where r: "run_io (DTLSv1_handle_timeout lib (dtls_ssl s)) s = (rc, s1)" by fastforce
  have F: "rx_inv s1" "io_frame s s1" using run_io_frame [OF _ r] inv by (auto simp: dtls_inv_def)
  have "op_ok lib s (pump_ssl lib s1)"
    using op_ok_after [OF io_frame_moves [OF F(2)]] pump_ok [OF io_frame_inv [OF F(2,1) inv]] True F(2)
    by (auto simp: io_frame_def)
  then show ?thesis using True r pump_ok [OF inv] by (simp add: dtls_srtp_tick_def Let_def)
qed (simp add: dtls_srtp_tick_def op_ok_refl)

lemma close_ok: "dtls_inv s \<Longrightarrow> op_ok lib s (dtls_srtp_close lib s) \<and> dtls_state (dtls_srtp_close lib s) = DTLS_SRTP_CLOSED"
proof -
  assume inv: "dtls_inv s"
  obtain rc s1 where r: "run_io (SSL_shutdown lib (dtls_ssl s)) s = (rc, s1)" by fastforce
  have F: "rx_inv s1" "io_frame s s1" using run_io_frame [OF _ r] inv by (auto simp: dtls_inv_def)
  have st: "dtls_state (dtls_set_state DTLS_SRTP_CLOSED t) = DTLS_SRTP_CLOSED" for t :: "('a, 'b) dtls_srtp"
    by (simp add: dtls_set_state_def dtls_emit_def)
  have step: "op_ok lib t (dtls_set_state DTLS_SRTP_CLOSED t)" if "dtls_inv t" for t
  proof (cases "dtls_state t = DTLS_SRTP_CLOSED")
    case True
    then show ?thesis using that by (simp add: dtls_set_state_def op_ok_refl)
  next
    case False
    then show ?thesis using that by (intro op_ok_set_state) (cases "dtls_state t"; auto simp: dtls_edge_def)+
  qed
  have "op_ok lib s (dtls_set_state DTLS_SRTP_CLOSED s1)" if "dtls_state s = DTLS_SRTP_CONNECTED"
    using op_ok_after [OF io_frame_moves [OF F(2)]] step [OF io_frame_inv [OF F(2,1) inv]] that F(2)
    by (auto simp: io_frame_def)
  then show ?thesis using step [OF inv] r by (simp add: dtls_srtp_close_def st)
qed

lemma create_dtls_inv: "dtls_srtp_session_create ready ssl = Some s \<Longrightarrow> dtls_inv s"
  by (auto simp: dtls_srtp_session_create_def dtls_inv_def rx_inv_def rx_slot_def split: option.splits if_splits)

section \<open>The fingerprint text\<close>

lemma hex_digits: "\<forall>n \<in> set [0..<16]. fold_hex_case (hex_digit n) = hex_digit n \<and> hex_digit n \<noteq> CHR 0x3A"
  "distinct (map hex_digit [0..<16])"
  by code_simp+

lemma hex2_chars: "c \<in> set (hex2 b) \<Longrightarrow> fold_hex_case c = c \<and> c \<noteq> CHR 0x3A"
proof -
  have "unat b div 16 < 16" "unat b mod 16 < 16" using unat_u8 [of b] by auto
  then show "c \<in> set (hex2 b) \<Longrightarrow> fold_hex_case c = c \<and> c \<noteq> CHR 0x3A"
    using hex_digits(1) by (auto simp: hex2_def)
qed

lemma hex2_inj: "hex2 a = hex2 b \<longleftrightarrow> a = b"
proof
  assume h: "hex2 a = hex2 b"
  have lt: "unat x div 16 < 16" "unat x mod 16 < 16" for x :: u8 using unat_u8 [of x] by auto
  have inj: "hex_digit m = hex_digit n \<Longrightarrow> m = n" if "m < 16" "n < 16" for m n
    using hex_digits(2) that by (auto simp: distinct_map inj_on_def)
  have "unat a div 16 = unat b div 16" "unat a mod 16 = unat b mod 16"
    using h lt inj by (auto simp: hex2_def)
  then have "unat a = unat b" by (metis div_mult_mod_eq)
  then show "a = b" by (rule unsigned_word_eqI)
qed simp

lemma concat_hex2_inj: "concat (map hex2 a) = concat (map hex2 b) \<longleftrightarrow> a = b"
proof (induction a arbitrary: b)
  case Nil
  then show ?case by (cases b) (auto simp: hex2_def)
next
  case (Cons x a)
  then show ?case using hex2_inj by (cases b) (auto simp: hex2_def)
qed

lemma colon_hex_filter: "filter (\<lambda>c. c \<noteq> CHR 0x3A) (colon_hex md) = concat (map hex2 md)"
proof (induction md rule: colon_hex.induct)
  case (2 b)
  then show ?case using hex2_chars [of _ b] by (auto simp: filter_id_conv)
next
  case (3 b b' bs)
  have "filter (\<lambda>c. c \<noteq> CHR 0x3A) (hex2 b) = hex2 b" using hex2_chars [of _ b] by (auto simp: filter_id_conv)
  then show ?case using 3 by simp
qed simp

lemma concat_hex2_fold: "map fold_hex_case (concat (map hex2 md)) = concat (map hex2 md)"
  using hex2_chars by (intro map_idI) fastforce

lemma concat_hex2_length: "length (concat (map hex2 md)) = 2 * length md"
  by (induction md) (auto simp: hex2_def)

section \<open>Properties\<close>

text \<open>A library to evaluate with: the handshake ends with the first datagram; the keys are copies.\<close>

definition demo_lib :: "(nat, bytes) dtls_lib" where
  "demo_lib = \<lparr>SSL_accept = (\<lambda>n. IoRead 1500 (\<lambda>r. case r of None \<Rightarrow> IoRet (- 1) n
                  | Some d \<Rightarrow> IoWrite [22] (\<lambda>_. IoRet 1 (n + 1)))),
     SSL_read = (\<lambda>n. IoRead 4096 (\<lambda>r. case r of None \<Rightarrow> IoRet (- 1) n | Some d \<Rightarrow> IoRet (int (length d)) n)),
     SSL_shutdown = (\<lambda>n. IoWrite [21] (\<lambda>_. IoRet 1 n)),
     DTLSv1_handle_timeout = (\<lambda>n. IoRet 0 n),
     SSL_get_error = (\<lambda>n rc. SSL_ERROR_WANT_READ),
     SSL_is_init_finished = (\<lambda>n. n > 0),
     DTLSv1_get_timeout = (\<lambda>n. None),
     export_keying_material = (\<lambda>n. Some (map of_nat [0..<60])),
     peer_certificate_digest = (\<lambda>n. Some (Some [0xAB, 0x01])),
     srtp_create = (\<lambda>dir k. Some k),
     srtp_protect = (\<lambda>k p. Some (k, p @ [0])),
     srtp_protect_rtcp = (\<lambda>k p. Some (k, p @ [0])),
     srtp_unprotect_rtcp = (\<lambda>k p. Some (k, p))\<rparr>"

definition demo_dtls :: "(nat, bytes) dtls_srtp" where
  "demo_dtls = dtls_srtp_set_expected_fingerprint (fingerprint_text [0xAB, 0x01])
     (the (dtls_srtp_session_create True (Some 0)))"

lemma demo_dtls: "dtls_inv demo_dtls"
proof -
  have c: "dtls_srtp_session_create True (Some (0 :: nat)) =
      Some (the (dtls_srtp_session_create True (Some 0)) :: (nat, bytes) dtls_srtp)"
    by (simp add: dtls_srtp_session_create_def)
  have "dtls_inv (s\<lparr>expected_fingerprint := fp\<rparr>) = dtls_inv s" for s :: "(nat, bytes) dtls_srtp" and fp
    by (simp add: dtls_inv_def)
  then show ?thesis
    using create_dtls_inv [OF c] by (simp add: demo_dtls_def dtls_srtp_set_expected_fingerprint_def)
qed

text \<open>
  C10. The engine never becomes ready to send or accept SRTP for a peer that is not the announced
  one: when a datagram or a timer makes the keys ready, the certificate the peer presented has the
  digest of the SDP fingerprint (if signalling gave one), outgoing traffic is keyed with the server's
  half of the exported material and incoming traffic with the client's.
\<close>

theorem keys_only_for_announced_peer:
  assumes "dtls_inv s" and "s' = dtls_srtp_on_udp lib ok pkt s \<or> s' = dtls_srtp_tick lib s"
    and "\<not> srtp_ready s" and "srtp_ready s'"
  shows "peer_verified lib s' \<and> keys_from lib s' \<and> dtls_inv s'"
  using on_udp_ok [OF assms(1), of lib ok pkt] tick_ok [OF assms(1), of lib] assms(2-4)
  by (auto simp: op_ok_def newly_keyed_ok_def)

lemma keys_only_for_announced_peer_witness:
  "peer_verified demo_lib (dtls_srtp_on_udp demo_lib True [22, 1] demo_dtls) \<and>
   keys_from demo_lib (dtls_srtp_on_udp demo_lib True [22, 1] demo_dtls) \<and>
   dtls_inv (dtls_srtp_on_udp demo_lib True [22, 1] demo_dtls)"
proof (rule keys_only_for_announced_peer [OF demo_dtls disjI1 [OF refl]])
  show "\<not> srtp_ready demo_dtls" by code_simp
  show "srtp_ready (dtls_srtp_on_udp demo_lib True [22, 1] demo_dtls)" by code_simp
qed

text \<open>
  C11. Whatever the peer sends and however the library behaves, the engine moves only along
  INIT, HANDSHAKING, CONNECTED and from each of these to FAILED or CLOSED: each operation reports
  its state changes in this order, ends with the failing or closing one if there is one, and tells
  its owner that keys are ready right after each report of CONNECTED and at no other time; the
  receive queue stays well formed.
\<close>

theorem dtls_state_machine:
  assumes "dtls_inv s"
    and "s' = dtls_srtp_on_udp lib ok pkt s \<or> s' = dtls_srtp_tick lib s \<or> s' = dtls_srtp_close lib s"
  shows "dtls_inv s' \<and> (\<exists>evs. dtls_out s' = dtls_out s @ evs \<and>
    ev_walk (dtls_state s) evs = Some (dtls_state s'))"
  using on_udp_ok [OF assms(1), of lib ok pkt] tick_ok [OF assms(1), of lib] close_ok [OF assms(1), of lib] assms(2)
  by (auto simp: op_ok_def dtls_moves_def)

lemma dtls_state_machine_witness:
  "dtls_inv (dtls_srtp_close demo_lib demo_dtls) \<and>
   (\<exists>evs. dtls_out (dtls_srtp_close demo_lib demo_dtls) = dtls_out demo_dtls @ evs \<and>
     ev_walk (dtls_state demo_dtls) evs = Some (dtls_state (dtls_srtp_close demo_lib demo_dtls)))"
  by (rule dtls_state_machine [OF demo_dtls disjI2 [OF disjI2 [OF refl]]])

text \<open>
  The comparison with the fingerprint of the SDP identifies the certificate: against the text
  this program itself announces for a digest (algorithm name, upper-case pairs, colons), exactly
  that digest is accepted.
\<close>

lemma fingerprint_identifies_digest:
  assumes "length md \<le> 63"
  shows "fingerprint_hex_equal (fingerprint_text md) md' \<longleftrightarrow> md = md'"
proof -
  have "skip_algorithm (fingerprint_text md) = colon_hex md"
    by (simp add: skip_algorithm_def fingerprint_text_def)
  moreover have "length (concat (map hex2 md)) \<le> 127" using assms by (simp add: concat_hex2_length del: length_concat)
  ultimately show ?thesis
    by (simp add: fingerprint_hex_equal_def colon_hex_filter concat_hex2_fold concat_hex2_inj del: length_concat)
qed

lemma fingerprint_identifies_digest_witness:
  "fingerprint_hex_equal (fingerprint_text [0xAB, 1]) [0xAB, 2] \<longleftrightarrow> [0xAB, 1] = [0xAB, 2 :: u8]"
  by (rule fingerprint_identifies_digest) simp

text \<open>
  The receive queue keeps the newest 64 datagrams in order, and a read by the library takes the
  oldest of them.
\<close>

lemma rx_queue_keeps_newest:
  assumes "rx_inv s"
  shows "rx_inv (foldl rx_push s ps) \<and> rx_contents (foldl rx_push s ps) = keep_last 64 (rx_contents s @ ps)"
  using rxq_i.push_all [OF assms, of ps] by (simp add: DTLS_RX_QUEUE_def)

lemma rx_queue_keeps_newest_witness:
  "rx_inv (foldl rx_push demo_dtls [[1], [2]]) \<and>
   rx_contents (foldl rx_push demo_dtls [[1], [2]]) = keep_last 64 (rx_contents demo_dtls @ [[1], [2]])"
  by (rule rx_queue_keeps_newest) (use demo_dtls in \<open>simp add: dtls_inv_def\<close>)

end
