(* ===== verification/Cstring.thy ===== *)
theory Cstring
  imports Main
begin

text \<open>
  What the program uses of the C string library, on character lists without the terminating zero:
  prefix comparison, substring search, decimal conversion both ways, and bounded copies.
\<close>

definition strncmp_eq :: "string \<Rightarrow> string \<Rightarrow> bool" where
  "strncmp_eq line prefix \<longleftrightarrow> take (length prefix) line = prefix"

fun strstr :: "string \<Rightarrow> string \<Rightarrow> bool" where
  "strstr [] needle = (needle = [])"
| "strstr (c # cs) needle = (strncmp_eq (c # cs) needle \<or> strstr cs needle)"

definition digit_char :: "nat \<Rightarrow> char" where
  "digit_char n = char_of (48 + n)"

definition is_digit :: "char \<Rightarrow> bool" where
  "is_digit c \<longleftrightarrow> 48 \<le> (of_char c :: nat) \<and> (of_char c :: nat) \<le> 57"

definition digit_value :: "char \<Rightarrow> nat" where
  "digit_value c = of_char c - 48"

function dec_nat :: "nat \<Rightarrow> string" where
  "dec_nat n = (if n < 10 then [digit_char n] else dec_nat (n div 10) @ [digit_char (n mod 10)])"
  by pat_completeness auto
termination by (relation "measure id") auto

declare dec_nat.simps [simp del]

definition dec_int :: "int \<Rightarrow> string" where
  "dec_int i = (if i < 0 then ''-'' @ dec_nat (nat (- i)) else dec_nat (nat i))"

definition is_space :: "char \<Rightarrow> bool" where
  "is_space c \<longleftrightarrow> c = CHR 0x20 \<or> (9 \<le> (of_char c :: nat) \<and> (of_char c :: nat) \<le> 13)"

definition digit_of :: "nat \<Rightarrow> char \<Rightarrow> nat option" where
  "digit_of base c =
     (let n = of_char c; d = (if 48 \<le> n \<and> n \<le> 57 then Some (n - 48)
        else if 97 \<le> n \<and> n \<le> 122 then Some (n - 87)
        else if 65 \<le> n \<and> n \<le> 90 then Some (n - 55) else None)
      in case d of Some v \<Rightarrow> if v < base then Some v else None | None \<Rightarrow> None)"

fun read_digits :: "nat \<Rightarrow> nat \<Rightarrow> string \<Rightarrow> nat \<times> string" where
  "read_digits base v [] = (v, [])"
| "read_digits base v (c # cs) =
     (case digit_of base c of None \<Rightarrow> (v, c # cs) | Some d \<Rightarrow> read_digits base (v * base + d) cs)"

definition LONG_MAX :: int where "LONG_MAX = 2 ^ 63 - 1"

text \<open>
  \<^verbatim>\<open>strtol\<close>: white space, a sign, \<^verbatim>\<open>0x\<close> in base 16, then digits; the value (the nearest representable
  number on overflow) and the text behind the number, or \<open>None\<close> when there is no number.
\<close>

definition strtol :: "nat \<Rightarrow> string \<Rightarrow> (int \<times> string) option" where
  "strtol base s =
     (let t = dropWhile is_space s;
          neg = (t \<noteq> [] \<and> hd t = CHR 0x2D);
          u = (if t \<noteq> [] \<and> (hd t = CHR 0x2D \<or> hd t = CHR 0x2B) then tl t else t);
          v = (if base = 16 \<and> (strncmp_eq u ''0x'' \<or> strncmp_eq u ''0X'') \<and> drop 2 u \<noteq> [] \<and>
                 digit_of 16 (u ! 2) \<noteq> None then drop 2 u else u)
      in if v = [] \<or> digit_of base (hd v) = None then None
         else case read_digits base 0 v of (n, rest) \<Rightarrow>
           Some (if neg then max (- LONG_MAX - 1) (- int n) else min LONG_MAX (int n), rest))"

text \<open>\<^verbatim>\<open>atoi\<close> is \<^verbatim>\<open>strtol\<close> converted to \<^verbatim>\<open>int\<close>, as glibc has it.\<close>

definition atoi :: "string \<Rightarrow> int" where
  "atoi s = (case strtol 10 s of None \<Rightarrow> 0 | Some (v, _) \<Rightarrow> signed_take_bit 31 v)"

section \<open>Decimal round trip\<close>

lemma digit_facts: "\<forall>n \<in> set [0..<10]. is_digit (digit_char n) \<and> digit_value (digit_char n) = n \<and>
    \<not> is_space (digit_char n) \<and> digit_char n \<noteq> CHR 0x2D \<and> digit_char n \<noteq> CHR 0x2B \<and>
    digit_char n \<noteq> CHR 0x0D \<and> digit_char n \<noteq> CHR 0x0A \<and> digit_char n \<noteq> CHR 0x00"
  by code_simp

lemma digit_simps [simp]:
  assumes "n < 10"
  shows "is_digit (digit_char n)" "digit_value (digit_char n) = n" "\<not> is_space (digit_char n)"
    "digit_char n \<noteq> CHR 0x2D" "digit_char n \<noteq> CHR 0x2B" "digit_char n \<noteq> CHR 0x0D"
    "digit_char n \<noteq> CHR 0x0A" "digit_char n \<noteq> CHR 0x00"
  using digit_facts assms by auto

lemma dec_nat_digits: "c \<in> set (dec_nat n) \<Longrightarrow> \<exists>d < 10. c = digit_char d"
proof (induction n rule: dec_nat.induct)
  case (1 n)
  show ?case
  proof (cases "n < 10")
    case True
    then show ?thesis using 1(2) by (subst (asm) dec_nat.simps) auto
  next
    case False
    then have "c \<in> set (dec_nat (n div 10)) \<or> c = digit_char (n mod 10)"
      using 1(2) by (subst (asm) dec_nat.simps) auto
    then show ?thesis using 1(1) [OF False] by (auto intro: exI [of _ "n mod 10"])
  qed
qed

lemma dec_nat_nonempty [simp]: "dec_nat n \<noteq> []"
  by (subst dec_nat.simps) simp

lemma fold_dec_nat: "foldl (\<lambda>v c. v * 10 + digit_value c) 0 (dec_nat n) = n"
  by (induction n rule: dec_nat.induct) (subst dec_nat.simps, simp)

lemma dec_nat_all_digits: "\<forall>c \<in> set (dec_nat n). is_digit c"
  using dec_nat_digits by fastforce

lemma dec_nat_bound: "n < 10 ^ k \<Longrightarrow> 0 < k \<Longrightarrow> length (dec_nat n) \<le> k"
proof (induction n arbitrary: k rule: dec_nat.induct)
  case (1 n)
  show ?case
  proof (cases "n < 10")
    case True
    then show ?thesis using 1(3) by (subst dec_nat.simps) simp
  next
    case False
    then obtain j where k: "k = Suc j" "0 < j" using 1(2,3) by (cases k; cases "k - 1") auto
    then have "n div 10 < 10 ^ j" using 1(2) by (simp add: div_less_iff_less_mult mult.commute)
    with 1(1) [OF False _ k(2)] False k show ?thesis by (subst dec_nat.simps) simp
  qed
qed

lemma digit_of_digit: "d < 10 \<Longrightarrow> digit_of 10 (digit_char d) = Some d"
proof -
  have "\<forall>d \<in> set [0..<10]. digit_of 10 (digit_char d) = Some d" by code_simp
  then show "d < 10 \<Longrightarrow> ?thesis" by auto
qed

lemma read_digits_fold:
  "\<forall>c \<in> set ds. \<exists>d < 10. c = digit_char d \<Longrightarrow>
   read_digits 10 v (ds @ rest) = read_digits 10 (foldl (\<lambda>v c. v * 10 + digit_value c) v ds) rest"
  by (induction ds arbitrary: v) (auto simp: digit_of_digit)

lemma strtol_digits:
  assumes "case rest of [] \<Rightarrow> True | c # _ \<Rightarrow> digit_of 10 c = None"
  shows "read_digits 10 0 (dec_nat n @ rest) = (n, rest)"
  using read_digits_fold [of "dec_nat n" 0 rest] dec_nat_digits [of _ n] fold_dec_nat [of n] assms
  by (cases rest) auto

lemma strtol_dec_nat:
  assumes "case rest of [] \<Rightarrow> True | c # _ \<Rightarrow> digit_of 10 c = None" "int n \<le> LONG_MAX"
  shows "strtol 10 (dec_nat n @ rest) = Some (int n, rest)"
proof -
  obtain c cs where c: "dec_nat n = c # cs" by (cases "dec_nat n") auto
  then obtain d where d: "d < 10" "c = digit_char d" using dec_nat_digits [of c n] by auto
  show ?thesis
    using strtol_digits [OF assms(1), of n] c d assms(2) by (simp add: strtol_def digit_of_digit Let_def)
qed

lemma dec_nat_lead: "0 < n \<Longrightarrow> hd (dec_nat n) \<noteq> CHR ''0''"
proof (induction n rule: dec_nat.induct)
  case (1 n)
  have "\<forall>n \<in> set [1..<10]. digit_char n \<noteq> CHR ''0''" by code_simp
  then show ?case using 1 by (subst dec_nat.simps) (auto simp: div_greater_zero_iff)
qed

text \<open>Reading back a number printed in decimal, when what follows is not a digit.\<close>

lemma atoi_dec_nat:
  assumes "case rest of [] \<Rightarrow> True | c # _ \<Rightarrow> digit_of 10 c = None" "n < 2147483648"
  shows "atoi (dec_nat n @ rest) = int n"
proof -
  have "int n \<le> LONG_MAX" using assms(2) by (simp add: LONG_MAX_def)
  then show ?thesis
    using strtol_dec_nat [OF assms(1)] assms(2) by (simp add: atoi_def signed_take_bit_int_eq_self)
qed

lemma atoi_less: "atoi s < 2147483648"
  using signed_take_bit_int_less_exp [of 31] by (auto simp: atoi_def split: option.split)

end
