(* ===== verification/Sdp.thy ===== *)
theory Sdp
  imports Prelude Cstring
begin

text \<open>
  The SDP code of \<^verbatim>\<open>src/webrtc/sdp.c\<close>: the line iterator with its 512 byte line buffer, the visitor
  that collects the offer, and the answer generator with its 8192 byte buffer. Strings are character
  lists; \<^verbatim>\<open>snprintf\<close> at an offset is \<open>sb_put\<close>, which keeps the text that fits, advances by the full
  length as the C code does with the return value, and faults once the offset is past the buffer.
\<close>

section \<open>The offer\<close>

record sdp_offer =
  ice_ufrag :: string
  ice_pwd :: string
  offer_fingerprint :: string
  offer_setup :: string
  video_mid :: string
  audio_mid :: string
  has_audio :: bool
  h264_payload_type :: int
  h264_packetization_mode :: int

record parse_context =
  ctx_offer :: sdp_offer
  have_ufrag :: bool
  have_pwd :: bool
  have_fingerprint :: bool

definition no_offer :: sdp_offer where
  "no_offer = \<lparr>ice_ufrag = [], ice_pwd = [], offer_fingerprint = [], offer_setup = [], video_mid = [],
     audio_mid = [], has_audio = False, h264_payload_type = - 1, h264_packetization_mode = 1\<rparr>"

definition copy_value :: "string \<Rightarrow> string \<Rightarrow> string \<Rightarrow> nat \<Rightarrow> string" where
  "copy_value line prefix out out_size =
     (if \<not> strncmp_eq line prefix then out
      else take (out_size - 1) (takeWhile (\<lambda>c. c \<noteq> CHR 0x0D \<and> c \<noteq> CHR 0x0A) (drop (length prefix) line)))"

text \<open>
  One line: up to the newline, without trailing carriage returns, at most 511 characters. The
  comparisons of the visitor stop at an embedded zero.
\<close>

definition sdp_line :: "string \<Rightarrow> string" where
  "sdp_line raw =
     takeWhile (\<lambda>c. c \<noteq> CHR 0x00)
       (take 511 (rev (dropWhile (\<lambda>c. c = CHR 0x0D \<or> c = CHR 0x0A) (rev raw))))"

definition next_media :: "string \<Rightarrow> string \<Rightarrow> string" where
  "next_media line media =
     (if strncmp_eq line ''m='' then
        if strncmp_eq (drop 2 line) ''audio'' then ''audio''
        else if strncmp_eq (drop 2 line) ''video'' then ''video''
        else []
      else media)"

function sdp_for_each_line :: "(string \<Rightarrow> string \<Rightarrow> 'c \<Rightarrow> 'c) \<Rightarrow> string \<Rightarrow> string \<Rightarrow> 'c \<Rightarrow> 'c" where
  "sdp_for_each_line visit sdp media user =
     (if sdp = [] then user
      else
        let raw = takeWhile (\<lambda>c. c \<noteq> CHR 0x0A) sdp;
            line = sdp_line raw;
            media' = next_media line media
        in sdp_for_each_line visit (drop (length raw + 1) sdp) media' (visit line media' user))"
  by pat_completeness auto
termination by (relation "measure (\<lambda>(visit, sdp, media, user). length sdp)") auto

declare sdp_for_each_line.simps [simp del]

definition parse_visit :: "string \<Rightarrow> string \<Rightarrow> parse_context \<Rightarrow> parse_context" where
  "parse_visit line media ctx =
     (let o1 = ctx_offer ctx in
      if strncmp_eq line ''a=ice-ufrag:'' then
        ctx\<lparr>ctx_offer := o1\<lparr>ice_ufrag := copy_value line ''a=ice-ufrag:'' (ice_ufrag o1) 80\<rparr>, have_ufrag := True\<rparr>
      else if strncmp_eq line ''a=ice-pwd:'' then
        ctx\<lparr>ctx_offer := o1\<lparr>ice_pwd := copy_value line ''a=ice-pwd:'' (ice_pwd o1) 128\<rparr>, have_pwd := True\<rparr>
      else if strncmp_eq line ''a=fingerprint:'' then
        ctx\<lparr>ctx_offer := o1\<lparr>offer_fingerprint := copy_value line ''a=fingerprint:'' (offer_fingerprint o1) 128\<rparr>,
            have_fingerprint := True\<rparr>
      else if strncmp_eq line ''a=setup:'' then
        ctx\<lparr>ctx_offer := o1\<lparr>offer_setup := copy_value line ''a=setup:'' (offer_setup o1) 24\<rparr>\<rparr>
      else if media = ''video'' \<and> strncmp_eq line ''a=mid:'' then
        ctx\<lparr>ctx_offer := o1\<lparr>video_mid := copy_value line ''a=mid:'' (video_mid o1) 24\<rparr>\<rparr>
      else if media = ''audio'' \<and> strncmp_eq line ''a=mid:'' then
        ctx\<lparr>ctx_offer := o1\<lparr>audio_mid := copy_value line ''a=mid:'' (audio_mid o1) 24, has_audio := True\<rparr>\<rparr>
      else if media = ''video'' \<and> strncmp_eq line ''a=rtpmap:'' then
        (if strstr line ''H264/90000'' \<or> strstr line (''H264/90000'' @ [CHR 0x0D]) then
           (if h264_payload_type o1 < 0
            then ctx\<lparr>ctx_offer := o1\<lparr>h264_payload_type := atoi (drop 9 line)\<rparr>\<rparr> else ctx)
         else ctx)
      else if media = ''video'' \<and> strncmp_eq line ''a=fmtp:'' then
        (if atoi (drop 7 line) = h264_payload_type o1 \<and> strstr line ''packetization-mode=0''
         then ctx\<lparr>ctx_offer := o1\<lparr>h264_packetization_mode := 0\<rparr>\<rparr> else ctx)
      else ctx)"

definition empty_context :: parse_context where
  "empty_context = \<lparr>ctx_offer = no_offer, have_ufrag = False, have_pwd = False, have_fingerprint = False\<rparr>"

definition sdp_parse_offer :: "string \<Rightarrow> int \<times> sdp_offer" where
  "sdp_parse_offer sdp =
     (let ctx = sdp_for_each_line parse_visit sdp [] empty_context; o1 = ctx_offer ctx in
      if \<not> have_ufrag ctx \<or> \<not> have_pwd ctx \<or> \<not> have_fingerprint ctx then (- 1, o1)
      else if h264_payload_type o1 < 0 then (- 1, o1)
      else (0, if offer_setup o1 = [] then o1\<lparr>offer_setup := ''actpass''\<rparr> else o1))"

section \<open>The answer\<close>

definition SDP_BUFFER :: nat where "SDP_BUFFER = 8192"

definition sb_put :: "string \<times> nat \<Rightarrow> string \<Rightarrow> (string \<times> nat) option" where
  "sb_put b t = (if snd b > SDP_BUFFER then None
                 else Some (fst b @ take (SDP_BUFFER - 1 - snd b) t, snd b + length t))"

definition crlf :: string where "crlf = [CHR 0x0D, CHR 0x0A]"

definition line_of :: "string list \<Rightarrow> string" where
  "line_of parts = concat parts @ crlf"

definition session_lines :: "string \<Rightarrow> string \<Rightarrow> string \<Rightarrow> string \<Rightarrow> string \<Rightarrow> string list list" where
  "session_lines ip vmid fp ufrag pwd =
     [[''v=0''],
      [''o=- 1 1 IN IP4 '', ip],
      [''s=camstream''],
      [''t=0 0''],
      [''a=ice-lite''],
      [''a=ice-options:trickle''],
      [''a=group:BUNDLE '', vmid],
      [''a=msid-semantic: WMS camstream''],
      [''a=fingerprint:'', fp],
      [''a=setup:passive''],
      [''a=ice-ufrag:'', ufrag],
      [''a=ice-pwd:'', pwd]]"

definition audio_lines :: "string \<Rightarrow> string list list" where
  "audio_lines amid =
     [[''m=audio 0 UDP/TLS/RTP/SAVPF 0''],
      [''c=IN IP4 0.0.0.0''],
      [''a=inactive''],
      [''a=mid:'', amid]]"

definition video_lines :: "int \<Rightarrow> string \<Rightarrow> string \<Rightarrow> string \<Rightarrow> string \<Rightarrow> string \<Rightarrow> u32 \<Rightarrow> string list list" where
  "video_lines pt ip vmid ufrag pwd fp ssrc =
     [[''m=video 9 UDP/TLS/RTP/SAVPF '', dec_int pt],
      [''c=IN IP4 '', ip],
      [''a=mid:'', vmid],
      [''a=ice-ufrag:'', ufrag],
      [''a=ice-pwd:'', pwd],
      [''a=ice-options:trickle''],
      [''a=fingerprint:'', fp],
      [''a=setup:passive''],
      [''a=sendonly''],
      [''a=rtcp-mux''],
      [''a=msid:camstream camstream-video''],
      [''a=ssrc:'', dec_nat (unat ssrc), '' cname:camstream''],
      [''a=ssrc:'', dec_nat (unat ssrc), '' msid:camstream camstream-video''],
      [''a=rtpmap:'', dec_int pt, '' H264/90000''],
      [''a=fmtp:'', dec_int pt, '' packetization-mode=1;profile-level-id=42e01f;level-asymmetry-allowed=1''],
      [''a=rtcp-fb:'', dec_int pt, '' nack''],
      [''a=rtcp-fb:'', dec_int pt, '' nack pli''],
      [''a=rtcp-fb:'', dec_int pt, '' ccm fir'']]"

definition candidate_line :: "nat \<Rightarrow> u32 \<Rightarrow> string \<Rightarrow> u16 \<Rightarrow> string list" where
  "candidate_line foundation prio ip port =
     [''a=candidate:'', dec_nat foundation, '' 1 udp '', dec_nat (unat prio), '' '', ip, '' '',
      dec_nat (unat port), '' typ host generation 0'']"

definition extra_priority :: "nat \<Rightarrow> u32" where
  "extra_priority i = (let prio = 2130706431 - of_nat (i + 1) * 10 in if prio < 1000 then 1000 else prio)"

text \<open>The loop over the extra addresses, with its early exit when the buffer runs low.\<close>

fun extra_loop :: "string \<Rightarrow> u16 \<Rightarrow> nat \<Rightarrow> string list \<Rightarrow> string \<times> nat \<Rightarrow> (string \<times> nat) option" where
  "extra_loop advertise_ip port i [] b = Some b"
| "extra_loop advertise_ip port i (ip # ips) b =
     (if ip = [] \<or> ip = advertise_ip then extra_loop advertise_ip port (i + 1) ips b
      else do {
        b' \<leftarrow> sb_put b (line_of (candidate_line (i + 2) (extra_priority i) ip port));
        if snd b' + 256 > SDP_BUFFER then Some b' else extra_loop advertise_ip port (i + 1) ips b'
      })"

definition put_lines :: "string list list \<Rightarrow> string \<times> nat \<Rightarrow> (string \<times> nat) option" where
  "put_lines ls b = sb_put b (concat (map line_of ls))"

text \<open>
  The result is the length and the text that was copied to \<open>out\<close>; 0 when \<open>out\<close> is too small. \<open>None\<close>
  is a write or a read past the 8192 byte buffer.
\<close>

definition sdp_build_answer_multi :: "sdp_offer \<Rightarrow> string \<Rightarrow> string \<Rightarrow> string \<Rightarrow> string \<Rightarrow> string list \<Rightarrow>
    u16 \<Rightarrow> u32 \<Rightarrow> nat \<Rightarrow> (nat \<times> string) option" where
  "sdp_build_answer_multi offer fp ufrag pwd ip extra_ips port ssrc out_capacity =
     do {
       let vmid = (if video_mid offer = [] then ''video'' else video_mid offer);
       let amid = (if audio_mid offer = [] then ''audio'' else audio_mid offer);
       b1 \<leftarrow> put_lines (session_lines ip vmid fp ufrag pwd) ([], 0);
       b2 \<leftarrow> (if has_audio offer then put_lines (audio_lines amid) b1 else Some b1);
       b3 \<leftarrow> put_lines (video_lines (h264_payload_type offer) ip vmid ufrag pwd fp ssrc) b2;
       b4 \<leftarrow> put_lines [candidate_line 1 2130706431 ip port] b3;
       b5 \<leftarrow> extra_loop ip port 0 extra_ips b4;
       b6 \<leftarrow> put_lines [[''a=end-of-candidates'']] b5;
       if snd b6 + 1 > out_capacity then Some (0, [])
       else if snd b6 + 1 > SDP_BUFFER then None
       else Some (snd b6, fst b6)
     }"

definition sdp_build_answer :: "sdp_offer \<Rightarrow> string \<Rightarrow> string \<Rightarrow> string \<Rightarrow> string \<Rightarrow> u16 \<Rightarrow> u32 \<Rightarrow> nat \<Rightarrow>
    (nat \<times> string) option" where
  "sdp_build_answer offer fp ufrag pwd ip port ssrc out_capacity =
     sdp_build_answer_multi offer fp ufrag pwd ip [] port ssrc out_capacity"

section \<open>The generator never leaves its buffer\<close>

lemma sb_put_fits:
  "length c + length t < SDP_BUFFER \<Longrightarrow> sb_put (c, length c) t = Some (c @ t, length (c @ t))"
  by (simp add: sb_put_def)

definition lines_text :: "string list list \<Rightarrow> string" where
  "lines_text ls = concat (map line_of ls)"

lemma put_lines_fits:
  "length c + length (lines_text ls) < SDP_BUFFER \<Longrightarrow>
   put_lines ls (c, length c) = Some (c @ lines_text ls, length (c @ lines_text ls))"
  unfolding put_lines_def lines_text_def [symmetric] by (rule sb_put_fits)

definition dec_short :: "string \<Rightarrow> bool" where
  "dec_short s \<longleftrightarrow> length s \<le> 11"

text \<open>The strings the session passes: what its fixed buffers can hold, and printable addresses.\<close>

definition fields_fit :: "sdp_offer \<Rightarrow> string \<Rightarrow> string \<Rightarrow> string \<Rightarrow> string \<Rightarrow> bool" where
  "fields_fit offer fp ufrag pwd ip \<longleftrightarrow> length (video_mid offer) \<le> 23 \<and> length (audio_mid offer) \<le> 23 \<and>
     length fp \<le> 127 \<and> length ufrag \<le> 15 \<and> length pwd \<le> 43 \<and> length ip \<le> 63 \<and>
     0 \<le> h264_payload_type offer \<and> h264_payload_type offer < 2147483648"

lemma dec_int_bound: "0 \<le> i \<Longrightarrow> i < 10 ^ 10 \<Longrightarrow> length (dec_int i) \<le> 10"
  using dec_nat_bound [of "nat i" 10] by (simp add: dec_int_def nat_less_iff)

lemma dec_u32_bound: "length (dec_nat (unat (v :: u32))) \<le> 10"
proof -
  have "unat v < 2 ^ LENGTH(32)" by (rule unsigned_less)
  then show ?thesis by (intro dec_nat_bound) auto
qed

lemma dec_u16_bound: "length (dec_nat (unat (v :: u16))) \<le> 5"
proof -
  have "unat v < 2 ^ LENGTH(16)" by (rule unsigned_less)
  then show ?thesis by (intro dec_nat_bound) auto
qed

lemma lines_text_length: "length (lines_text ls) = sum_list (map (\<lambda>ps. sum_list (map length ps) + 2) ls)"
  by (induction ls) (auto simp: lines_text_def line_of_def crlf_def length_concat)

lemma session_lines_bound:
  "length (lines_text (session_lines ip vmid fp ufrag pwd)) \<le>
   250 + length ip + length vmid + length fp + length ufrag + length pwd"
  by (simp add: lines_text_length session_lines_def)

lemma audio_lines_bound: "length (lines_text (audio_lines amid)) \<le> 80 + length amid"
  by (simp add: lines_text_length audio_lines_def)

lemma video_lines_bound:
  "length (lines_text (video_lines pt ip vmid ufrag pwd fp ssrc)) \<le>
   600 + 6 * length (dec_int pt) + length ip + length vmid + length ufrag + length pwd + length fp + 20"
  using dec_u32_bound [of ssrc] by (simp add: lines_text_length video_lines_def)

lemma candidate_line_bound:
  "length (lines_text [candidate_line f prio ip port]) \<le> 70 + length (dec_nat f) + length ip"
  using dec_u32_bound [of prio] dec_u16_bound [of port] by (simp add: lines_text_length candidate_line_def)


lemma cand_extra_bound:
  assumes "f < 10 ^ 10" "length ip \<le> 63"
  shows "length (line_of (candidate_line f prio ip port)) \<le> 143"
  using candidate_line_bound [of f prio ip port] dec_nat_bound [of f 10] assms
  by (simp add: lines_text_def)

lemma extra_loop_fits:
  assumes "\<forall>ip \<in> set ips. length ip \<le> 63" "i + length ips + 2 < 10 ^ 10" "length c + 256 \<le> SDP_BUFFER"
  shows "\<exists>c'. extra_loop adv port i ips (c, length c) = Some (c', length c') \<and>
     length c' + 100 \<le> SDP_BUFFER \<and> take (length c) c' = c"
  using assms
proof (induction ips arbitrary: i c)
  case (Cons ip ips)
  let ?l = "line_of (candidate_line (i + 2) (extra_priority i) ip port)"
  have l: "length ?l \<le> 143" using Cons.prems by (intro cand_extra_bound) auto
  show ?case
  proof (cases "ip = [] \<or> ip = adv")
    case True
    then show ?thesis using Cons.IH [of "i + 1" c] Cons.prems by auto
  next
    case False
    have put: "sb_put (c, length c) ?l = Some (c @ ?l, length (c @ ?l))"
      using l Cons.prems(3) by (intro sb_put_fits) (simp add: SDP_BUFFER_def)
    show ?thesis
    proof (cases "length (c @ ?l) + 256 > SDP_BUFFER")
      case True
      then show ?thesis using False put l Cons.prems(3) by (auto simp: SDP_BUFFER_def)
    next
      case small: False
      obtain c' where "extra_loop adv port (i + 1) ips (c @ ?l, length (c @ ?l)) = Some (c', length c')"
        "length c' + 100 \<le> SDP_BUFFER" and t: "take (length (c @ ?l)) c' = c @ ?l"
        using Cons.IH [of "i + 1" "c @ ?l"] Cons.prems small by auto
      moreover have "take (length c) c' = c"
        using arg_cong [OF t, of "take (length c)"] by simp
      ultimately show ?thesis using False put small by simp
    qed
  qed
qed simp

text \<open>The part of the answer before the extra candidates.\<close>

definition answer_head :: "sdp_offer \<Rightarrow> string \<Rightarrow> string \<Rightarrow> string \<Rightarrow> string \<Rightarrow> u16 \<Rightarrow> u32 \<Rightarrow> string list list" where
  "answer_head offer fp ufrag pwd ip port ssrc =
     (let vmid = (if video_mid offer = [] then ''video'' else video_mid offer);
          amid = (if audio_mid offer = [] then ''audio'' else audio_mid offer) in
      session_lines ip vmid fp ufrag pwd @ (if has_audio offer then audio_lines amid else []) @
      video_lines (h264_payload_type offer) ip vmid ufrag pwd fp ssrc @
      [candidate_line 1 2130706431 ip port])"

lemma lines_text_append [simp]: "lines_text (a @ b) = lines_text a @ lines_text b"
  by (simp add: lines_text_def)

lemma answer_head_bound:
  assumes "fields_fit offer fp ufrag pwd ip"
  shows "length (lines_text (answer_head offer fp ufrag pwd ip port ssrc)) \<le> 2100"
proof -
  let ?v = "if video_mid offer = [] then ''video'' else video_mid offer"
  let ?a = "if audio_mid offer = [] then ''audio'' else audio_mid offer"
  let ?pt = "h264_payload_type offer"
  have f: "length ?v \<le> 23" "length ?a \<le> 23" "length fp \<le> 127" "length ufrag \<le> 15" "length pwd \<le> 43"
    "length ip \<le> 63" "length (dec_int ?pt) \<le> 10"
    using assms dec_int_bound [of ?pt] by (auto simp: fields_fit_def)
  have d: "length (dec_nat 1) \<le> 1" by (rule dec_nat_bound) auto
  have "length (lines_text (if has_audio offer then audio_lines ?a else [])) \<le> 103"
    using audio_lines_bound [of ?a] f by (auto simp: lines_text_def)
  then show ?thesis
    using f d session_lines_bound [of ip ?v fp ufrag pwd] video_lines_bound [of ?pt ip ?v ufrag pwd fp ssrc]
      candidate_line_bound [of 1 2130706431 ip port]
    by (simp add: answer_head_def Let_def)
qed

lemma build_answer_unfold:
  assumes "fields_fit offer fp ufrag pwd ip"
  shows "sdp_build_answer_multi offer fp ufrag pwd ip extra port ssrc cap =
    (let h = lines_text (answer_head offer fp ufrag pwd ip port ssrc) in
     do {
       b5 \<leftarrow> extra_loop ip port 0 extra (h, length h);
       b6 \<leftarrow> put_lines [[''a=end-of-candidates'']] b5;
       if snd b6 + 1 > cap then Some (0, [])
       else if snd b6 + 1 > SDP_BUFFER then None
       else Some (snd b6, fst b6)
     })"
proof -
  let ?v = "if video_mid offer = [] then ''video'' else video_mid offer"
  let ?a = "if audio_mid offer = [] then ''audio'' else audio_mid offer"
  let ?s = "lines_text (session_lines ip ?v fp ufrag pwd)"
  let ?au = "if has_audio offer then lines_text (audio_lines ?a) else []"
  let ?vi = "lines_text (video_lines (h264_payload_type offer) ip ?v ufrag pwd fp ssrc)"
  let ?c = "lines_text [candidate_line 1 2130706431 ip port]"
  have h: "lines_text (answer_head offer fp ufrag pwd ip port ssrc) = ?s @ ?au @ ?vi @ ?c"
    by (auto simp: answer_head_def Let_def lines_text_def)
  then have b: "length ?s + length ?au + length ?vi + length ?c \<le> 2100"
    using answer_head_bound [OF assms, of port ssrc] by simp
  have 1: "put_lines (session_lines ip ?v fp ufrag pwd) ([], 0) = Some (?s, length ?s)"
    using put_lines_fits [of "[]"] b by (simp add: SDP_BUFFER_def)
  have 2: "(if has_audio offer then put_lines (audio_lines ?a) (?s, length ?s) else Some (?s, length ?s)) =
      Some (?s @ ?au, length (?s @ ?au))"
    using put_lines_fits [of ?s "audio_lines ?a"] b by (auto simp: SDP_BUFFER_def)
  have 3: "put_lines (video_lines (h264_payload_type offer) ip ?v ufrag pwd fp ssrc)
      (?s @ ?au, length (?s @ ?au)) = Some (?s @ ?au @ ?vi, length (?s @ ?au @ ?vi))"
    using put_lines_fits [of "?s @ ?au"] b by (simp add: SDP_BUFFER_def del: if_image_distrib)
  have 4: "put_lines [candidate_line 1 2130706431 ip port] (?s @ ?au @ ?vi, length (?s @ ?au @ ?vi)) =
      Some (?s @ ?au @ ?vi @ ?c, length (?s @ ?au @ ?vi @ ?c))"
    using put_lines_fits [of "?s @ ?au @ ?vi"] b by (simp add: SDP_BUFFER_def)
  show ?thesis unfolding sdp_build_answer_multi_def Let_def h 1 option.simps Option.bind.simps 2 3 4 ..
qed

lemma answer_in_buffer:
  assumes "fields_fit offer fp ufrag pwd ip" "\<forall>x \<in> set extra. length x \<le> 63" "length extra < 1000"
  shows "\<exists>n text. sdp_build_answer_multi offer fp ufrag pwd ip extra port ssrc cap = Some (n, text) \<and>
    n < SDP_BUFFER \<and> length text = n \<and> (n = 0 \<or> n < cap) \<and> (SDP_BUFFER \<le> cap \<longrightarrow> 0 < n)"
proof -
  let ?h = "lines_text (answer_head offer fp ufrag pwd ip port ssrc)"
  obtain c where c: "extra_loop ip port 0 extra (?h, length ?h) = Some (c, length c)"
    "length c + 100 \<le> SDP_BUFFER"
    using extra_loop_fits [of extra 0 ?h ip port] assms answer_head_bound [OF assms(1), of port ssrc]
    by (auto simp: SDP_BUFFER_def)
  let ?e = "lines_text [[''a=end-of-candidates'']]"
  have e: "length ?e = 21" by (simp add: lines_text_length)
  have "put_lines [[''a=end-of-candidates'']] (c, length c) = Some (c @ ?e, length (c @ ?e))"
    using c(2) e by (intro put_lines_fits) simp
  then show ?thesis
    using c e by (auto simp: build_answer_unfold [OF assms(1)] Let_def)
qed

text \<open>
  C12. Whatever the browser offered and however many extra addresses the host has, building the answer
  never writes past the 8192 byte buffer and never copies beyond it: the result is 0 when the
  caller's buffer is too small, and otherwise the exact length of the text that was copied.
\<close>
theorem answer_never_overflows:
  assumes "fields_fit offer fp ufrag pwd ip" "\<forall>x \<in> set extra. length x \<le> 63" "length extra < 1000"
  shows "\<exists>n text. sdp_build_answer_multi offer fp ufrag pwd ip extra port ssrc cap = Some (n, text) \<and>
    n < SDP_BUFFER \<and> length text = n \<and> (n = 0 \<or> n < cap) \<and> (SDP_BUFFER \<le> cap \<longrightarrow> 0 < n)"
  by (rule answer_in_buffer [OF assms])

definition demo_offer :: sdp_offer where
  "demo_offer = no_offer\<lparr>video_mid := ''0'', h264_payload_type := 102\<rparr>"

lemma answer_never_overflows_witness:
  "\<exists>n text. sdp_build_answer_multi demo_offer ''sha-256 AA'' ''abcdefgh'' ''pw'' ''10.0.0.1'' [''10.0.0.2''] 7000 5 9000 =
     Some (n, text) \<and> n < SDP_BUFFER \<and> length text = n \<and> (n = 0 \<or> n < 9000) \<and>
     (SDP_BUFFER \<le> (9000::nat) \<longrightarrow> 0 < n)"
  by (rule answer_never_overflows) (auto simp: fields_fit_def demo_offer_def no_offer_def)

section \<open>What the parser reads back\<close>

definition clean :: "string \<Rightarrow> bool" where
  "clean s \<longleftrightarrow> (\<forall>c \<in> set s. c \<noteq> CHR 0x0D \<and> c \<noteq> CHR 0x0A \<and> c \<noteq> CHR 0x00)"

lemma clean_simps [simp]: "clean []" "clean (a @ b) \<longleftrightarrow> clean a \<and> clean b"
  "clean (c # s) \<longleftrightarrow> c \<noteq> CHR 0x0D \<and> c \<noteq> CHR 0x0A \<and> c \<noteq> CHR 0x00 \<and> clean s"
  by (auto simp: clean_def)

lemma clean_dec_nat [simp]: "clean (dec_nat n)"
  unfolding clean_def using dec_nat_digits [of _ n] digit_simps(6-8) by metis

lemma clean_dec_int [simp]: "clean (dec_int i)"
  by (simp add: dec_int_def)

lemma take_while_clean: "clean l \<Longrightarrow> takeWhile (\<lambda>c. c \<noteq> CHR 0x00) l = l"
  "clean l \<Longrightarrow> takeWhile (\<lambda>c. c \<noteq> CHR 0x0D \<and> c \<noteq> CHR 0x0A) l = l"
  "clean l \<Longrightarrow> takeWhile (\<lambda>c. c \<noteq> CHR 0x0A) (l @ [CHR 0x0D, CHR 0x0A] @ rest) = l @ [CHR 0x0D]"
  by (auto simp: clean_def takeWhile_eq_all_conv takeWhile_append2)

lemma sdp_line_clean: "clean l \<Longrightarrow> length l \<le> 511 \<Longrightarrow> sdp_line (l @ [CHR 0x0D]) = l"
  by (cases l rule: rev_cases) (simp_all add: sdp_line_def take_while_clean)

definition visit_line :: "(string \<Rightarrow> string \<Rightarrow> 'c \<Rightarrow> 'c) \<Rightarrow> string \<times> 'c \<Rightarrow> string \<Rightarrow> string \<times> 'c" where
  "visit_line visit mu l = (let m' = next_media l (fst mu) in (m', visit l m' (snd mu)))"

lemma for_each_step:
  assumes "clean l" "length l \<le> 511"
  shows "sdp_for_each_line visit (l @ crlf @ rest) media user =
    sdp_for_each_line visit rest (next_media l media) (visit l (next_media l media) user)"
  by (subst sdp_for_each_line.simps)
    (simp add: crlf_def take_while_clean(3) [OF assms(1), simplified] sdp_line_clean [OF assms] Let_def)

lemma for_each_lines:
  assumes "\<forall>ps \<in> set ls. clean (concat ps) \<and> length (concat ps) \<le> 511"
  shows "sdp_for_each_line visit (lines_text ls) media user =
    snd (foldl (visit_line visit) (media, user) (map concat ls))"
  using assms
proof (induction ls arbitrary: media user)
  case Nil
  then show ?case by (simp add: lines_text_def sdp_for_each_line.simps)
next
  case (Cons ps ls)
  have "lines_text (ps # ls) = concat ps @ crlf @ lines_text ls" by (simp add: lines_text_def line_of_def)
  then show ?case
    using Cons for_each_step [of "concat ps" visit "lines_text ls" media user]
    by (simp add: visit_line_def Let_def)
qed

lemma strstr_skip: "c \<notin> set xs \<Longrightarrow> strstr (xs @ ys) (c # n) = strstr ys (c # n)"
  by (induction xs) (auto simp: strncmp_eq_def)


lemma strstr_found: "strstr (xs @ needle @ ys) needle"
proof (induction xs)
  case Nil
  have "take (length needle) (needle @ ys) = needle" by simp
  then have "strstr (needle @ ys) needle" by (cases "needle @ ys") (simp_all add: strncmp_eq_def)
  then show ?case by simp
qed (simp add: strncmp_eq_def)

lemma copy_clean: "clean v \<Longrightarrow> length v < n \<Longrightarrow> copy_value (pre @ v) pre old n = v"
  by (simp add: copy_value_def strncmp_eq_def take_while_clean(2))

text \<open>What each kind of line does, once its prefix is known.\<close>

lemmas visit_defs = visit_line_def next_media_def parse_visit_def strncmp_eq_def Let_def

lemma visit_ufrag: "clean v \<Longrightarrow> length v < 80 \<Longrightarrow>
   visit_line parse_visit (m, ctx) (''a=ice-ufrag:'' @ v) =
   (m, ctx\<lparr>ctx_offer := (ctx_offer ctx)\<lparr>ice_ufrag := v\<rparr>, have_ufrag := True\<rparr>)"
  using copy_clean [of v 80 "''a=ice-ufrag:''"] by (simp add: visit_defs)

lemma visit_pwd: "clean v \<Longrightarrow> length v < 128 \<Longrightarrow>
   visit_line parse_visit (m, ctx) (''a=ice-pwd:'' @ v) =
   (m, ctx\<lparr>ctx_offer := (ctx_offer ctx)\<lparr>ice_pwd := v\<rparr>, have_pwd := True\<rparr>)"
  using copy_clean [of v 128 "''a=ice-pwd:''"] by (simp add: visit_defs)

lemma visit_fingerprint: "clean v \<Longrightarrow> length v < 128 \<Longrightarrow>
   visit_line parse_visit (m, ctx) (''a=fingerprint:'' @ v) =
   (m, ctx\<lparr>ctx_offer := (ctx_offer ctx)\<lparr>offer_fingerprint := v\<rparr>, have_fingerprint := True\<rparr>)"
  using copy_clean [of v 128 "''a=fingerprint:''"] by (simp add: visit_defs)

lemma visit_setup: "visit_line parse_visit (m, ctx) ''a=setup:passive'' =
   (m, ctx\<lparr>ctx_offer := (ctx_offer ctx)\<lparr>offer_setup := ''passive''\<rparr>\<rparr>)"
  by (simp add: visit_defs copy_value_def)

lemma visit_video_mid: "clean v \<Longrightarrow> length v < 24 \<Longrightarrow>
   visit_line parse_visit (''video'', ctx) (''a=mid:'' @ v) =
   (''video'', ctx\<lparr>ctx_offer := (ctx_offer ctx)\<lparr>video_mid := v\<rparr>\<rparr>)"
  using copy_clean [of v 24 "''a=mid:''"] by (simp add: visit_defs)

lemma visit_audio_mid: "clean v \<Longrightarrow> length v < 24 \<Longrightarrow>
   visit_line parse_visit (''audio'', ctx) (''a=mid:'' @ v) =
   (''audio'', ctx\<lparr>ctx_offer := (ctx_offer ctx)\<lparr>audio_mid := v, has_audio := True\<rparr>\<rparr>)"
  using copy_clean [of v 24 "''a=mid:''"] by (simp add: visit_defs)

lemma atoi_rest: "0 \<le> pt \<Longrightarrow> pt < 2147483648 \<Longrightarrow> atoi (dec_int pt @ CHR 0x20 # rest) = pt"
  using atoi_dec_nat [of "CHR 0x20 # rest" "nat pt"] by (simp add: dec_int_def digit_of_def)

lemma visit_rtpmap: "0 \<le> pt \<Longrightarrow> pt < 2147483648 \<Longrightarrow>
   visit_line parse_visit (''video'', ctx) (''a=rtpmap:'' @ dec_int pt @ '' H264/90000'') =
   (''video'', if h264_payload_type (ctx_offer ctx) < 0
     then ctx\<lparr>ctx_offer := (ctx_offer ctx)\<lparr>h264_payload_type := pt\<rparr>\<rparr> else ctx)"
  using strstr_found [of "''a=rtpmap:'' @ dec_int pt @ '' ''" "''H264/90000''" "[]"] atoi_rest [of pt "''H264/90000''"]
  by (simp add: visit_defs)

lemma no_digit_p: "CHR ''p'' \<notin> set (dec_nat n)"
proof
  assume "CHR ''p'' \<in> set (dec_nat n)"
  then have "is_digit (CHR ''p'')" using dec_nat_all_digits by blast
  then show False by (simp add: is_digit_def)
qed

lemma visit_fmtp: "0 \<le> pt \<Longrightarrow>
   visit_line parse_visit (''video'', ctx)
     (''a=fmtp:'' @ dec_int pt @ '' packetization-mode=1;profile-level-id=42e01f;level-asymmetry-allowed=1'') =
   (''video'', ctx)"
proof -
  assume pt: "0 \<le> pt"
  let ?r = "'' packetization-mode=1;profile-level-id=42e01f;level-asymmetry-allowed=1''"
  have "\<not> strstr ?r ''packetization-mode=0''" by code_simp
  then have "\<not> strstr (dec_int pt @ ?r) ''packetization-mode=0''"
    using strstr_skip [of "CHR ''p''" "dec_int pt" ?r] no_digit_p [of "nat pt"] pt by (simp add: dec_int_def)
  then have "\<not> strstr ((''a=fmt'') @ (''p:'' @ dec_int pt @ ?r)) ''packetization-mode=0''"
    by (subst strstr_skip) (simp_all add: strncmp_eq_def)
  then show ?thesis by (simp add: visit_defs)
qed

definition other_line :: "string \<Rightarrow> bool" where
  "other_line l \<longleftrightarrow> \<not> strncmp_eq l ''m='' \<and>
     (\<forall>p \<in> {''a=ice-ufrag:'', ''a=ice-pwd:'', ''a=fingerprint:'', ''a=setup:'', ''a=mid:'', ''a=rtpmap:'', ''a=fmtp:''}.
        \<not> strncmp_eq l p)"

lemma visit_other: "other_line l \<Longrightarrow> visit_line parse_visit (m, ctx) l = (m, ctx)"
  by (simp add: other_line_def visit_line_def next_media_def parse_visit_def Let_def)

lemma visit_media:
  "visit_line parse_visit (m, ctx) ''m=audio 0 UDP/TLS/RTP/SAVPF 0'' = (''audio'', ctx)"
  "visit_line parse_visit (m, ctx) (''m=video 9 UDP/TLS/RTP/SAVPF '' @ x) = (''video'', ctx)"
  by (simp_all add: visit_defs)

lemmas visit_lines = visit_ufrag visit_pwd visit_fingerprint visit_setup visit_video_mid visit_audio_mid
  visit_rtpmap visit_fmtp visit_media

definition plain_fields :: "sdp_offer \<Rightarrow> string \<Rightarrow> string \<Rightarrow> string \<Rightarrow> string \<Rightarrow> bool" where
  "plain_fields offer fp ufrag pwd ip \<longleftrightarrow> clean (video_mid offer) \<and> clean (audio_mid offer) \<and>
     clean fp \<and> clean ufrag \<and> clean pwd \<and> clean ip"

lemma fold_session:
  assumes "clean fp" "clean ufrag" "clean pwd" "length fp \<le> 127" "length ufrag \<le> 15" "length pwd \<le> 43"
  shows "foldl (visit_line parse_visit) (m, ctx) (map concat (session_lines ip vmid fp ufrag pwd)) =
    (m, ctx\<lparr>ctx_offer := (ctx_offer ctx)\<lparr>offer_fingerprint := fp, offer_setup := ''passive'', ice_ufrag := ufrag,
       ice_pwd := pwd\<rparr>, have_fingerprint := True, have_ufrag := True, have_pwd := True\<rparr>)"
  using assms
  by (simp add: session_lines_def visit_lines [simplified] visit_other other_line_def strncmp_eq_def)


lemma fold_audio:
  assumes "clean amid" "length amid \<le> 23"
  shows "foldl (visit_line parse_visit) (m, ctx) (map concat (audio_lines amid)) =
    (''audio'', ctx\<lparr>ctx_offer := (ctx_offer ctx)\<lparr>audio_mid := amid, has_audio := True\<rparr>\<rparr>)"
  using assms
  by (simp add: audio_lines_def visit_lines [simplified] visit_other other_line_def strncmp_eq_def)

lemma fold_video:
  assumes "clean fp" "clean ufrag" "clean pwd" "clean vmid" "length fp \<le> 127" "length ufrag \<le> 15"
    "length pwd \<le> 43" "length vmid \<le> 23" "0 \<le> pt" "pt < 2147483648" "h264_payload_type (ctx_offer ctx) < 0"
  shows "foldl (visit_line parse_visit) (m, ctx) (map concat (video_lines pt ip vmid ufrag pwd fp ssrc)) =
    (''video'', ctx\<lparr>ctx_offer := (ctx_offer ctx)\<lparr>video_mid := vmid, ice_ufrag := ufrag, ice_pwd := pwd,
       offer_fingerprint := fp, offer_setup := ''passive'', h264_payload_type := pt\<rparr>,
       have_fingerprint := True, have_ufrag := True, have_pwd := True\<rparr>)"
  using assms
  by (simp add: video_lines_def visit_lines [simplified] visit_other other_line_def strncmp_eq_def)

lemma answer_lines_readable:
  assumes "fields_fit offer fp ufrag pwd ip" "plain_fields offer fp ufrag pwd ip"
    "ps \<in> set (answer_head offer fp ufrag pwd ip port ssrc @ [[''a=end-of-candidates'']])"
  shows "clean (concat ps) \<and> length (concat ps) \<le> 511"
  using assms dec_u32_bound [of ssrc] dec_int_bound [of "h264_payload_type offer"] dec_nat_bound [of 1 1]
    dec_u32_bound [of 2130706431] dec_u16_bound [of port]
  by (auto simp: answer_head_def Let_def session_lines_def audio_lines_def video_lines_def candidate_line_def
    fields_fit_def plain_fields_def split: if_splits)


text \<open>What a peer reads from the answer.\<close>

definition answer_offer :: "sdp_offer \<Rightarrow> string \<Rightarrow> string \<Rightarrow> string \<Rightarrow> sdp_offer" where
  "answer_offer offer fp ufrag pwd =
     \<lparr>ice_ufrag = ufrag, ice_pwd = pwd, offer_fingerprint = fp, offer_setup = ''passive'',
      video_mid = (if video_mid offer = [] then ''video'' else video_mid offer),
      audio_mid = (if has_audio offer then if audio_mid offer = [] then ''audio'' else audio_mid offer else []),
      has_audio = has_audio offer, h264_payload_type = h264_payload_type offer, h264_packetization_mode = 1\<rparr>"

lemma fold_answer:
  assumes "fields_fit offer fp ufrag pwd ip" "plain_fields offer fp ufrag pwd ip"
  shows "\<exists>m. foldl (visit_line parse_visit) ([], empty_context)
      (map concat (answer_head offer fp ufrag pwd ip port ssrc @ [[''a=end-of-candidates'']])) =
    (m, \<lparr>ctx_offer = answer_offer offer fp ufrag pwd, have_ufrag = True, have_pwd = True, have_fingerprint = True\<rparr>)"
proof -
  define v where "v = (if video_mid offer = [] then ''video'' else video_mid offer)"
  define a where "a = (if audio_mid offer = [] then ''audio'' else audio_mid offer)"
  let ?s = "\<lparr>ctx_offer = no_offer\<lparr>offer_fingerprint := fp, offer_setup := ''passive'', ice_ufrag := ufrag, ice_pwd := pwd\<rparr>,
      have_ufrag = True, have_pwd = True, have_fingerprint = True\<rparr>"
  have f: "clean fp" "clean ufrag" "clean pwd" "clean v" "clean a" "length fp \<le> 127" "length ufrag \<le> 15"
    "length pwd \<le> 43" "length v \<le> 23" "length a \<le> 23" "0 \<le> h264_payload_type offer"
    "h264_payload_type offer < 2147483648"
    using assms by (auto simp: fields_fit_def plain_fields_def v_def a_def)
  have c: "visit_line parse_visit (m, ctx) (concat (candidate_line 1 2130706431 ip port)) = (m, ctx)" for m ctx
    by (rule visit_other) (simp add: other_line_def strncmp_eq_def candidate_line_def)
  have e: "visit_line parse_visit (m, ctx) ''a=end-of-candidates'' = (m, ctx)" for m ctx
    by (rule visit_other) (simp add: other_line_def strncmp_eq_def)
  show ?thesis
    using fold_session [OF f(1-3,6-8), of "[]" empty_context ip v]
      fold_audio [OF f(5,10), of "[]" ?s]
      fold_video [OF f(1-4,6-9,11,12), of ?s "[]" ip ssrc]
      fold_video [OF f(1-4,6-9,11,12), of "?s\<lparr>ctx_offer := (ctx_offer ?s)\<lparr>audio_mid := a, has_audio := True\<rparr>\<rparr>"
        "''audio''" ip ssrc]
    by (cases "has_audio offer")
      (simp_all add: answer_head_def Let_def c [simplified] e empty_context_def no_offer_def answer_offer_def flip: v_def a_def)
qed

lemma answer_roundtrip:
  assumes "fields_fit offer fp ufrag pwd ip" "plain_fields offer fp ufrag pwd ip" "SDP_BUFFER \<le> cap"
  shows "\<exists>n text. sdp_build_answer offer fp ufrag pwd ip port ssrc cap = Some (n, text) \<and> 0 < n \<and>
    sdp_parse_offer text = (0, answer_offer offer fp ufrag pwd)"
proof -
  let ?h = "lines_text (answer_head offer fp ufrag pwd ip port ssrc)"
  let ?e = "lines_text [[''a=end-of-candidates'']]"
  have b: "length ?h + 21 \<le> 8000" "length ?e = 21"
    using answer_head_bound [OF assms(1), of port ssrc] by (simp_all add: lines_text_length)
  then have "put_lines [[''a=end-of-candidates'']] (?h, length ?h) = Some (?h @ ?e, length (?h @ ?e))"
    by (intro put_lines_fits) (simp add: SDP_BUFFER_def)
  then have 1: "sdp_build_answer offer fp ufrag pwd ip port ssrc cap = Some (length (?h @ ?e), ?h @ ?e)"
    using b assms(3) by (simp add: sdp_build_answer_def build_answer_unfold [OF assms(1)] Let_def SDP_BUFFER_def)
  obtain m where "foldl (visit_line parse_visit) ([], empty_context)
      (map concat (answer_head offer fp ufrag pwd ip port ssrc @ [[''a=end-of-candidates'']])) =
    (m, \<lparr>ctx_offer = answer_offer offer fp ufrag pwd, have_ufrag = True, have_pwd = True, have_fingerprint = True\<rparr>)"
    using fold_answer [OF assms(1,2)] by blast
  moreover have "sdp_for_each_line parse_visit (?h @ ?e) [] empty_context =
      snd (foldl (visit_line parse_visit) ([], empty_context)
        (map concat (answer_head offer fp ufrag pwd ip port ssrc @ [[''a=end-of-candidates'']])))"
    unfolding lines_text_append [symmetric]
    by (rule for_each_lines) (use answer_lines_readable [OF assms(1,2)] in blast)
  ultimately have "sdp_for_each_line parse_visit (?h @ ?e) [] empty_context =
      \<lparr>ctx_offer = answer_offer offer fp ufrag pwd, have_ufrag = True, have_pwd = True, have_fingerprint = True\<rparr>"
    by simp
  then have "sdp_parse_offer (?h @ ?e) = (0, answer_offer offer fp ufrag pwd)"
    using assms(1) by (simp add: sdp_parse_offer_def Let_def answer_offer_def fields_fit_def)
  then show ?thesis using 1 b by auto
qed

text \<open>
  The answer reads back: parsing the text of \<^verbatim>\<open>sdp_build_answer\<close> with the parser of the offers
  succeeds and yields exactly the session's credentials, its fingerprint, the passive DTLS role, the
  media identifiers and the payload type the offer asked for, with packetization mode 1.
\<close>
lemma answer_reads_back:
  assumes "fields_fit offer fp ufrag pwd ip" "plain_fields offer fp ufrag pwd ip" "SDP_BUFFER \<le> cap"
  shows "\<exists>n text. sdp_build_answer offer fp ufrag pwd ip port ssrc cap = Some (n, text) \<and> 0 < n \<and>
    sdp_parse_offer text = (0, answer_offer offer fp ufrag pwd)"
  by (rule answer_roundtrip [OF assms])

lemma answer_reads_back_witness:
  "\<exists>n text. sdp_build_answer (demo_offer\<lparr>has_audio := True, audio_mid := ''1''\<rparr>) ''sha-256 AA'' ''abcdefgh'' ''pw''
     ''10.0.0.1'' 7000 5 9000 = Some (n, text) \<and> 0 < n \<and>
   sdp_parse_offer text = (0, answer_offer (demo_offer\<lparr>has_audio := True, audio_mid := ''1''\<rparr>) ''sha-256 AA'' ''abcdefgh'' ''pw'')"
  by (rule answer_reads_back [where ip = "''10.0.0.1''"])
    (auto simp: fields_fit_def plain_fields_def demo_offer_def no_offer_def SDP_BUFFER_def)

text \<open>A text without zeros.\<close>

definition clean_text :: "string \<Rightarrow> bool" where
  "clean_text t \<longleftrightarrow> CHR 0x00 \<notin> set t"

lemma lines_clean_text: "\<forall>ps \<in> set ls. clean (concat ps) \<Longrightarrow> clean_text (lines_text ls)"
proof (induction ls)
  case (Cons p ls)
  then have "CHR 0x00 \<notin> set (concat p)" unfolding clean_def by fastforce
  then show ?case using Cons by (simp add: clean_text_def lines_text_def line_of_def crlf_def)
qed (simp add: clean_text_def lines_text_def)

text \<open>The same with further candidates: their lines mean nothing to the parser.\<close>

lemma extra_loop_lines:
  assumes "\<forall>ip \<in> set ips. length ip \<le> 63 \<and> clean ip" "i + length ips + 2 < 10 ^ 10" "length c + 256 \<le> SDP_BUFFER"
    "extra_loop adv port i ips (c, length c) = Some b"
  shows "\<exists>ls. b = (c @ lines_text ls, length (c @ lines_text ls)) \<and>
     (\<forall>ps \<in> set ls. clean (concat ps) \<and> length (concat ps) \<le> 511 \<and> other_line (concat ps))"
  using assms
proof (induction ips arbitrary: i c)
  case Nil
  then show ?case by (intro exI [of _ "[]"]) (simp add: lines_text_def)
next
  case (Cons ip ips)
  let ?p = "candidate_line (i + 2) (extra_priority i) ip port"
  let ?l = "line_of ?p"
  have l: "length ?l \<le> 143" using Cons.prems by (intro cand_extra_bound) auto
  have ok: "clean (concat ?p) \<and> length (concat ?p) \<le> 511 \<and> other_line (concat ?p)"
    using l Cons.prems(1) by (auto simp: line_of_def crlf_def) (auto simp: candidate_line_def other_line_def strncmp_eq_def)
  show ?case
  proof (cases "ip = [] \<or> ip = adv")
    case True
    then show ?thesis using Cons.IH [of "i + 1" c] Cons.prems by auto
  next
    case False
    have put: "sb_put (c, length c) ?l = Some (c @ ?l, length (c @ ?l))"
      using l Cons.prems(3) by (intro sb_put_fits) (simp add: SDP_BUFFER_def)
    have one: "lines_text (p # ls) = line_of p @ lines_text ls" for p ls by (simp add: lines_text_def)
    show ?thesis
    proof (cases "length (c @ ?l) + 256 > SDP_BUFFER")
      case True
      then have "b = (c @ lines_text [?p], length (c @ lines_text [?p]))"
        using Cons.prems(4) False put by (simp add: one lines_text_def)
      then show ?thesis using ok by (intro exI [of _ "[?p]"]) auto
    next
      case small: False
      then have "extra_loop adv port (i + 1) ips (c @ ?l, length (c @ ?l)) = Some b"
        using Cons.prems(4) False put by simp
      then obtain ls where "b = ((c @ ?l) @ lines_text ls, length ((c @ ?l) @ lines_text ls))"
        "\<forall>ps \<in> set ls. clean (concat ps) \<and> length (concat ps) \<le> 511 \<and> other_line (concat ps)"
        using Cons.IH [of "i + 1" "c @ ?l"] Cons.prems(1,2) small by auto
      then show ?thesis using ok by (intro exI [of _ "?p # ls"]) (auto simp: one)
    qed
  qed
qed

lemma fold_other: "\<forall>l \<in> set ls. other_line l \<Longrightarrow> foldl (visit_line parse_visit) (m, ctx) ls = (m, ctx)"
  by (induction ls) (auto simp: visit_other)

lemma answer_roundtrip_multi:
  assumes "fields_fit offer fp ufrag pwd ip" "plain_fields offer fp ufrag pwd ip"
    "\<forall>x \<in> set extra. length x \<le> 63 \<and> clean x" "length extra < 1000"
    "sdp_build_answer_multi offer fp ufrag pwd ip extra port ssrc cap = Some (n, text)" "0 < n"
  shows "sdp_parse_offer text = (0, answer_offer offer fp ufrag pwd) \<and> clean_text text"
proof -
  let ?head = "answer_head offer fp ufrag pwd ip port ssrc" and ?eoc = "[[''a=end-of-candidates'']]"
  let ?h = "lines_text ?head"
  have b: "length ?h \<le> 2100" by (rule answer_head_bound [OF assms(1)])
  obtain b5 where b5: "extra_loop ip port 0 extra (?h, length ?h) = Some b5"
    using assms(5) by (auto simp: build_answer_unfold [OF assms(1)] Let_def bind_eq_Some_conv)
  obtain ls where ls: "b5 = (?h @ lines_text ls, length (?h @ lines_text ls))"
    "\<forall>ps \<in> set ls. clean (concat ps) \<and> length (concat ps) \<le> 511 \<and> other_line (concat ps)"
    using extra_loop_lines [OF assms(3) _ _ b5] assms(4) b by (auto simp: SDP_BUFFER_def)
  have len: "length (?h @ lines_text ls) + 100 \<le> SDP_BUFFER"
    using extra_loop_fits [of extra 0 ?h ip port] assms(3,4) b b5 ls(1) by (auto simp: SDP_BUFFER_def)
  have "put_lines ?eoc b5 = Some (?h @ lines_text ls @ lines_text ?eoc, length (?h @ lines_text ls @ lines_text ?eoc))"
    using put_lines_fits [of "?h @ lines_text ls" ?eoc] len ls(1) by (simp add: lines_text_length)
  then have t: "text = lines_text (?head @ ls @ ?eoc)"
    using assms(5,6) b5 by (auto simp: build_answer_unfold [OF assms(1)] Let_def split: if_splits)
  obtain m where m: "foldl (visit_line parse_visit) ([], empty_context) (map concat (?head @ ?eoc)) =
    (m, \<lparr>ctx_offer = answer_offer offer fp ufrag pwd, have_ufrag = True, have_pwd = True, have_fingerprint = True\<rparr>)"
    using fold_answer [OF assms(1,2)] by blast
  obtain m1 c1 where 1: "foldl (visit_line parse_visit) ([], empty_context) (map concat ?head) = (m1, c1)" by fastforce
  have "foldl (visit_line parse_visit) (m1, c1) (map concat ls) = (m1, c1)"
    using ls(2) by (intro fold_other) auto
  then have "snd (foldl (visit_line parse_visit) ([], empty_context) (map concat (?head @ ls @ ?eoc))) =
      \<lparr>ctx_offer = answer_offer offer fp ufrag pwd, have_ufrag = True, have_pwd = True, have_fingerprint = True\<rparr>"
    using m 1 by simp
  moreover have r: "\<forall>ps \<in> set (?head @ ls @ ?eoc). clean (concat ps) \<and> length (concat ps) \<le> 511"
    using answer_lines_readable [OF assms(1,2), of _ port ssrc] ls(2) by fastforce
  moreover have "clean_text text"
    unfolding t by (rule lines_clean_text) (use r in blast)
  ultimately show ?thesis
    using for_each_lines [OF r, of parse_visit "[]" empty_context] assms(1)
    by (simp add: t sdp_parse_offer_def Let_def answer_offer_def fields_fit_def)
qed

text \<open>What the parser collects always fits the fields of an answer.\<close>

definition small_offer :: "sdp_offer \<Rightarrow> bool" where
  "small_offer o1 \<longleftrightarrow> length (video_mid o1) \<le> 23 \<and> length (audio_mid o1) \<le> 23 \<and> clean (video_mid o1) \<and>
     clean (audio_mid o1) \<and> length (offer_fingerprint o1) \<le> 127 \<and> h264_payload_type o1 < 2147483648"

lemma copy_small: "length old \<le> n - 1 \<Longrightarrow> length (copy_value l p old n) \<le> n - 1"
  by (simp add: copy_value_def)

lemma copy_keeps_clean: "CHR 0x00 \<notin> set l \<Longrightarrow> clean old \<Longrightarrow> clean (copy_value l p old n)"
  by (auto simp: copy_value_def clean_def dest!: in_set_takeD in_set_dropD set_takeWhileD)

lemma parse_visit_small:
  assumes "CHR 0x00 \<notin> set l" "small_offer (ctx_offer ctx)"
  shows "small_offer (ctx_offer (parse_visit l m ctx))"
  using assms copy_keeps_clean [OF assms(1)] atoi_less
    copy_small [of _ 24 l] copy_small [of _ 128 l]
  by (simp add: parse_visit_def small_offer_def Let_def)

lemma for_each_small:
  "small_offer (ctx_offer ctx) \<Longrightarrow> small_offer (ctx_offer (sdp_for_each_line parse_visit t m ctx))"
proof (induction "length t" arbitrary: t m ctx rule: less_induct)
  case less
  have "CHR 0x00 \<notin> set (sdp_line raw)" for raw by (auto simp: sdp_line_def dest: set_takeWhileD)
  note step = parse_visit_small [OF this less.prems]
  show ?case
  proof (cases "t = []")
    case True
    then show ?thesis using less.prems by (simp add: sdp_for_each_line.simps)
  next
    case False
    then show ?thesis using less.hyps step by (subst sdp_for_each_line.simps) (simp add: Let_def)
  qed
qed

lemma parsed_offer_small: "sdp_parse_offer t = (r, o1) \<Longrightarrow> small_offer o1 \<and> (r = 0 \<longrightarrow> 0 \<le> h264_payload_type o1)"
  using for_each_small [of empty_context t "[]"]
  by (auto simp: sdp_parse_offer_def Let_def small_offer_def empty_context_def no_offer_def split: if_splits)

section \<open>What the parser accepts\<close>

text \<open>
  An accepted offer need not carry a fingerprint: a line \<^verbatim>\<open>a=fingerprint:\<close> with nothing after the
  colon counts as one, and the offer's fingerprint is then the empty string, which the DTLS engine
  takes as the request to skip the check.
\<close>
lemma empty_fingerprint_accepted:
  "sdp_parse_offer (concat (map line_of [[''a=ice-ufrag:f''], [''a=ice-pwd:p''], [''a=fingerprint:''],
      [''m=video 9 UDP/TLS/RTP/SAVPF 96''], [''a=rtpmap:96 H264/90000'']])) =
   (0, no_offer\<lparr>ice_ufrag := ''f'', ice_pwd := ''p'', offer_setup := ''actpass'', h264_payload_type := 96\<rparr>)"
  by code_simp

end
