(* ===== verification/Rtc_Session.thy ===== *)
theory Rtc_Session
  imports Ice_Lite Rtp_H264 Rtcp Dtls_Srtp Sdp
begin

text \<open>
  One viewer: the session of \<^verbatim>\<open>src/webrtc/webrtc_session.c\<close>. The record \<open>rtc_session\<close> holds the C
  structure with the DTLS engine and the packetizer inside; what leaves the session (datagrams, the
  two callbacks to the server) is appended to \<open>trace\<close>. The callbacks of the DTLS engine are handled
  in the order the engine made them when its operation returns (\<open>dtls_replay\<close>; see \<open>Dtls_Srtp\<close> for
  why this is the same order of effects).

  An operation gets the environment \<open>rtc_env\<close>: the libraries, whether \<^verbatim>\<open>malloc\<close> succeeds, the bytes
  found in uninitialised stack buffers, and the reading of the monotonic and wall clocks during the
  operation. \<open>None\<close> as the result is an access outside a buffer. Log output is left out.
\<close>

section \<open>State\<close>

datatype rtc_state = RTC_NEW | RTC_ICE | RTC_DTLS | RTC_STREAMING | RTC_CLOSED

text \<open>The states are numbered as in the C enumeration and ordered by their numbers.\<close>

primrec state_number :: "rtc_state \<Rightarrow> nat" where
  "state_number RTC_NEW = 0"
| "state_number RTC_ICE = 1"
| "state_number RTC_DTLS = 2"
| "state_number RTC_STREAMING = 3"
| "state_number RTC_CLOSED = 4"

instantiation rtc_state :: linorder
begin

definition less_eq_rtc_state :: "rtc_state \<Rightarrow> rtc_state \<Rightarrow> bool" where
  "less_eq_rtc_state a b \<longleftrightarrow> state_number a \<le> state_number b"

definition less_rtc_state :: "rtc_state \<Rightarrow> rtc_state \<Rightarrow> bool" where
  "less_rtc_state a b \<longleftrightarrow> state_number a < state_number b"

instance
proof
  fix a b :: rtc_state
  assume "a \<le> b" "b \<le> a"
  then show "a = b" by (cases a; cases b) (simp_all add: less_eq_rtc_state_def)
qed (auto simp: less_eq_rtc_state_def less_rtc_state_def)

end

lemmas state_order = less_eq_rtc_state_def less_rtc_state_def

datatype rtc_output = SendTo bytes peer_addr | IdrRequest | OnClosed

record rtc_stats =
  packets_sent :: u64
  bytes_sent :: u64
  pli_received :: u32
  nacks_received :: u32
  retransmissions :: u32
  rtcp_sent :: u32
  stun_rx :: u32
  stun_ok :: u32
  stun_bad_user :: u32
  peer_moved :: u32

definition no_stats :: rtc_stats where
  "no_stats = \<lparr>packets_sent = 0, bytes_sent = 0, pli_received = 0, nacks_received = 0, retransmissions = 0,
     rtcp_sent = 0, stun_rx = 0, stun_ok = 0, stun_bad_user = 0, peer_moved = 0\<rparr>"

record rtc_config =
  cfg_id :: u32
  cfg_udp_port :: u16
  advertise_ip :: string
  extra_ips :: "string list"
  cfg_offer :: sdp_offer
  has_on_idr_request :: bool
  has_on_closed :: bool

record ('ssl, 'srtp) rtc_session =
  config :: rtc_config
  rstate :: rtc_state
  udp_fd :: int
  udp_port :: u16
  local_ufrag :: string
  local_pwd :: string
  remote :: peer_addr
  have_remote :: bool
  sdtls :: "('ssl, 'srtp) dtls_srtp"
  srtp_packetizer :: "rtp_h264 option"
  created_ms :: u64
  last_rx_ms :: u64
  last_idr_ms :: u64
  next_sr_ms :: u64
  idr_requested :: bool
  streaming_announced :: bool
  stats :: rtc_stats
  retx_data :: "bytes list"
  retx_len :: "u16 list"
  trace :: "rtc_output list"

record ('ssl, 'srtp) rtc_env =
  env_lib :: "('ssl, 'srtp) dtls_lib"
  env_hmac :: "bytes \<Rightarrow> bytes \<Rightarrow> bytes option"
  env_alloc :: bool
  env_junk :: "nat \<Rightarrow> u8"
  now_ms :: u64
  wall_us :: u64

definition junk :: "('ssl, 'srtp) rtc_env \<Rightarrow> nat \<Rightarrow> bytes" where
  "junk env n = map (env_junk env) [0..<n]"

definition SESSION_IDLE_TIMEOUT_MS :: u64 where "SESSION_IDLE_TIMEOUT_MS = 15000"
definition SESSION_DTLS_WATCHDOG_MS :: u64 where "SESSION_DTLS_WATCHDOG_MS = 30000"
definition IDR_MIN_INTERVAL_MS :: u64 where "IDR_MIN_INTERVAL_MS = 400"
definition RTCP_SR_INTERVAL_MS :: u64 where "RTCP_SR_INTERVAL_MS = 1000"
definition RETX_CACHE_SIZE :: nat where "RETX_CACHE_SIZE = 512"
definition RETX_SLOT :: nat where "RETX_SLOT = RTP_MAX_PACKET + 64"

definition bytes_of :: "string \<Rightarrow> bytes" where
  "bytes_of s = map of_char s"

definition emit :: "rtc_output \<Rightarrow> ('ssl, 'srtp) rtc_session \<Rightarrow> ('ssl, 'srtp) rtc_session" where
  "emit x s = s\<lparr>trace := trace s @ [x]\<rparr>"

definition set_state :: "rtc_state \<Rightarrow> ('ssl, 'srtp) rtc_session \<Rightarrow> ('ssl, 'srtp) rtc_session" where
  "set_state st s = (if rstate s = st then s else s\<lparr>rstate := st\<rparr>)"

section \<open>Callbacks of the DTLS engine and closing\<close>

definition rtc_session_request_idr :: "('ssl, 'srtp) rtc_env \<Rightarrow> ('ssl, 'srtp) rtc_session \<Rightarrow> ('ssl, 'srtp) rtc_session" where
  "rtc_session_request_idr env s =
     (if \<not> has_on_idr_request (config s) then s
      else if last_idr_ms s \<noteq> 0 \<and> now_ms env - last_idr_ms s < IDR_MIN_INTERVAL_MS then s
      else emit IdrRequest (s\<lparr>last_idr_ms := now_ms env, idr_requested := True\<rparr>))"

definition dtls_send_udp :: "bytes \<Rightarrow> ('ssl, 'srtp) rtc_session \<Rightarrow> ('ssl, 'srtp) rtc_session" where
  "dtls_send_udp packet s =
     (if udp_fd s < 0 \<or> \<not> have_remote s then s else emit (SendTo packet (remote s)) s)"

definition dtls_on_connected :: "('ssl, 'srtp) rtc_env \<Rightarrow> ('ssl, 'srtp) rtc_session \<Rightarrow> ('ssl, 'srtp) rtc_session" where
  "dtls_on_connected env s =
     (let s1 = rtc_session_request_idr env (set_state RTC_STREAMING s)
      in s1\<lparr>next_sr_ms := now_ms env + RTCP_SR_INTERVAL_MS\<rparr>)"

definition dtls_on_state :: "(('ssl, 'srtp) rtc_session \<Rightarrow> ('ssl, 'srtp) rtc_session) \<Rightarrow> dtls_srtp_state \<Rightarrow>
    ('ssl, 'srtp) rtc_session \<Rightarrow> ('ssl, 'srtp) rtc_session" where
  "dtls_on_state close st s =
     (if st = DTLS_SRTP_HANDSHAKING then set_state RTC_DTLS s
      else if st = DTLS_SRTP_FAILED then close s
      else if st = DTLS_SRTP_CLOSED then close s
      else s)"

definition handle_dtls_event :: "('ssl, 'srtp) rtc_env \<Rightarrow> (('ssl, 'srtp) rtc_session \<Rightarrow> ('ssl, 'srtp) rtc_session) \<Rightarrow>
    dtls_event \<Rightarrow> ('ssl, 'srtp) rtc_session \<Rightarrow> ('ssl, 'srtp) rtc_session" where
  "handle_dtls_event env close e s =
     (case e of
        DtlsSend packet \<Rightarrow> dtls_send_udp packet s
      | DtlsState st \<Rightarrow> dtls_on_state close st s
      | DtlsConnected \<Rightarrow> dtls_on_connected env s)"

text \<open>
  Closing tears the engine down, whose state callback closes the session again. \<open>n\<close> bounds the
  depth of this recursion; the state is set first, so the inner call returns at its guard and two
  levels are enough (\<open>close_depth\<close>).
\<close>

primrec close_levels :: "('ssl, 'srtp) rtc_env \<Rightarrow> nat \<Rightarrow> ('ssl, 'srtp) rtc_session \<Rightarrow> ('ssl, 'srtp) rtc_session" where
  "close_levels env 0 s = s"
| "close_levels env (Suc n) s =
     (if rstate s = RTC_CLOSED then s
      else
        let s1 = set_state RTC_CLOSED s;
            d = dtls_srtp_close (env_lib env) (sdtls s1);
            s2 = fold (handle_dtls_event env (close_levels env n)) (dtls_out d) (s1\<lparr>sdtls := d\<lparr>dtls_out := []\<rparr>\<rparr>)
        in if has_on_closed (config s2) then emit OnClosed s2 else s2)"

definition rtc_session_close :: "('ssl, 'srtp) rtc_env \<Rightarrow> ('ssl, 'srtp) rtc_session \<Rightarrow> ('ssl, 'srtp) rtc_session" where
  "rtc_session_close env = close_levels env 2"

text \<open>After an operation of the engine: store it, then handle the callbacks it made.\<close>

definition dtls_replay :: "('ssl, 'srtp) rtc_env \<Rightarrow> ('ssl, 'srtp) dtls_srtp \<Rightarrow> ('ssl, 'srtp) rtc_session \<Rightarrow>
    ('ssl, 'srtp) rtc_session" where
  "dtls_replay env d s = fold (handle_dtls_event env (rtc_session_close env)) (dtls_out d) (s\<lparr>sdtls := d\<lparr>dtls_out := []\<rparr>\<rparr>)"

section \<open>Incoming RTCP\<close>

definition retransmit :: "('ssl, 'srtp) rtc_session \<Rightarrow> u16 \<Rightarrow> ('ssl, 'srtp) rtc_session" where
  "retransmit s seq =
     (let slot = unat seq mod RETX_CACHE_SIZE in
      if retx_len s ! slot > 0 then
        let s1 = dtls_send_udp (take (unat (retx_len s ! slot)) (retx_data s ! slot)) s
        in s1\<lparr>stats := (stats s1)\<lparr>retransmissions := retransmissions (stats s1) + 1\<rparr>\<rparr>
      else s)"

definition dtls_on_rtcp :: "('ssl, 'srtp) rtc_env \<Rightarrow> bytes \<Rightarrow> nat \<Rightarrow> ('ssl, 'srtp) rtc_session \<Rightarrow>
    ('ssl, 'srtp) rtc_session option" where
  "dtls_on_rtcp env packet n s =
     do {
       fb \<leftarrow> rtcp_parse packet n;
       if fb_bye fb then Some (rtc_session_close env s)
       else
         let s1 = (if fb_pli fb > 0 \<or> fb_fir fb > 0
                   then rtc_session_request_idr env (s\<lparr>stats := (stats s)\<lparr>pli_received :=
                          pli_received (stats s) + (of_int (fb_pli fb) + of_int (fb_fir fb))\<rparr>\<rparr>)
                   else s)
         in Some (if length (fb_nack fb) > 0
                  then foldl retransmit (s1\<lparr>stats := (stats s1)\<lparr>nacks_received :=
                         nacks_received (stats s1) + of_nat (length (fb_nack fb))\<rparr>\<rparr>) (fb_nack fb)
                  else s1)
     }"

section \<open>Incoming datagrams\<close>

definition stun_send_error :: "('ssl, 'srtp) rtc_env \<Rightarrow> bytes \<Rightarrow> u16 \<Rightarrow> peer_addr \<Rightarrow> ('ssl, 'srtp) rtc_session \<Rightarrow>
    ('ssl, 'srtp) rtc_session option" where
  "stun_send_error env tid code source s =
     do {
       (rc, err, n) \<leftarrow> stun_build_error_response (Some tid) code (junk env 64) 64;
       if rc = 0 then do { packet \<leftarrow> rdn err 0 n; Some (emit (SendTo packet source) s) } else Some s
     }"

text \<open>
  The comparison of peers reads both addresses as IPv4: the port, and the four bytes that hold the
  IPv4 address or the flow information of an IPv6 one (zero, as the kernel reports it).
\<close>

definition v4_view :: "peer_addr \<Rightarrow> u32 \<times> u16" where
  "v4_view a = (case a of Inet ip port \<Rightarrow> (ip, port) | Inet6 ip port \<Rightarrow> (0, port))"

definition adopt_peer :: "peer_addr \<Rightarrow> ('ssl, 'srtp) rtc_session \<Rightarrow> ('ssl, 'srtp) rtc_session" where
  "adopt_peer source s =
     (if \<not> have_remote s then s\<lparr>remote := source, have_remote := True\<rparr>
      else if v4_view source \<noteq> v4_view (remote s)
      then s\<lparr>remote := source, stats := (stats s)\<lparr>peer_moved := peer_moved (stats s) + 1\<rparr>\<rparr>
      else s)"

definition count_bad :: "('ssl, 'srtp) rtc_session \<Rightarrow> ('ssl, 'srtp) rtc_session" where
  "count_bad s = s\<lparr>stats := (stats s)\<lparr>stun_bad_user := stun_bad_user (stats s) + 1\<rparr>\<rparr>"

definition count_ok :: "('ssl, 'srtp) rtc_session \<Rightarrow> ('ssl, 'srtp) rtc_session" where
  "count_ok s = s\<lparr>stats := (stats s)\<lparr>stun_ok := stun_ok (stats s) + 1\<rparr>\<rparr>"

definition on_stun :: "('ssl, 'srtp) rtc_env \<Rightarrow> bytes \<Rightarrow> nat \<Rightarrow> peer_addr \<Rightarrow> ('ssl, 'srtp) rtc_session \<Rightarrow>
    ('ssl, 'srtp) rtc_session option" where
  "on_stun env buffer n source s0 =
     do {
       let s = s0\<lparr>stats := (stats s0)\<lparr>stun_rx := stun_rx (stats s0) + 1\<rparr>\<rparr>;
       username \<leftarrow> stun_copy_username buffer n (replicate 160 0) 160;
       request \<leftarrow> stun_is_binding_request buffer n;
       case request of
         None \<Rightarrow>
           do {
             stype \<leftarrow> read_be16 buffer 0;
             if stype = 0x0011 \<and> n \<ge> STUN_HEADER_SIZE then Some (count_ok s) else Some s
           }
       | Some tid \<Rightarrow>
           do {
             mi \<leftarrow> stun_verify_mi (env_alloc env) (env_hmac env) buffer n (bytes_of (local_pwd s));
             if \<not> mi then stun_send_error env tid 401 source (count_bad s)
             else do {
               match \<leftarrow> stun_username_matches buffer n (bytes_of (local_ufrag s));
               if \<not> match then stun_send_error env tid 401 source (count_bad s)
               else do {
                 let s1 = adopt_peer source (count_ok s);
                 let s2 = (if rstate s1 = RTC_NEW then set_state RTC_ICE s1 else s1);
                 (rc, response, len) \<leftarrow> stun_build_binding_response (env_hmac env) (junk env 64)
                   (bytes_of (local_pwd s2)) buffer n source (junk env 128) 128;
                 if rc = 0 then do { packet \<leftarrow> rdn response 0 len; Some (emit (SendTo packet source) s2) }
                 else Some s2
               }
             }
           }
     }"

definition on_rtp :: "('ssl, 'srtp) rtc_env \<Rightarrow> bytes \<Rightarrow> nat \<Rightarrow> ('ssl, 'srtp) rtc_session \<Rightarrow>
    ('ssl, 'srtp) rtc_session option" where
  "on_rtp env buffer n s =
     do {
       b \<leftarrow> rd8 buffer 1;
       let pt = b AND 0x7F;
       if pt \<ge> 64 \<and> pt \<le> 95 \<and> rstate s = RTC_STREAMING then
         do {
           datagram \<leftarrow> rdn buffer 0 n;
           case dtls_srtp_unprotect_rtcp (env_lib env) datagram (sdtls s) of
             (None, d) \<Rightarrow> Some (dtls_replay env d s)
           | (Some plain, d) \<Rightarrow> dtls_on_rtcp env plain (length plain) (dtls_replay env d s)
         }
       else Some s
     }"

definition rtc_session_on_udp :: "('ssl, 'srtp) rtc_env \<Rightarrow> bytes \<Rightarrow> nat \<Rightarrow> peer_addr \<Rightarrow> ('ssl, 'srtp) rtc_session \<Rightarrow>
    ('ssl, 'srtp) rtc_session option" where
  "rtc_session_on_udp env buffer n source s0 =
     (if rstate s0 = RTC_CLOSED then Some s0
      else do {
        let s = s0\<lparr>last_rx_ms := now_ms env\<rparr>;
        kind \<leftarrow> rtc_classify_packet buffer n;
        case kind of
          RTC_PKT_STUN \<Rightarrow> on_stun env buffer n source s
        | RTC_PKT_DTLS \<Rightarrow>
            if have_remote s then
              do {
                datagram \<leftarrow> rdn buffer 0 n;
                Some (dtls_replay env (dtls_srtp_on_udp (env_lib env) (env_alloc env) datagram (sdtls s)) s)
              }
            else Some s
        | RTC_PKT_RTP \<Rightarrow> on_rtp env buffer n s
        | RTC_PKT_OTHER \<Rightarrow> Some s
      })"

section \<open>Timers and sender reports\<close>

definition age_since :: "u64 \<Rightarrow> u64 \<Rightarrow> u64" where
  "age_since now t = (if now \<ge> t then now - t else 0)"

text \<open>The sender report is built in a buffer of 44 bytes and protected in place.\<close>

definition send_report :: "('ssl, 'srtp) rtc_env \<Rightarrow> u64 \<Rightarrow> ('ssl, 'srtp) rtc_session \<Rightarrow> ('ssl, 'srtp) rtc_session option" where
  "send_report env now s =
     do {
       let p = srtp_packetizer s;
       (len, sr) \<leftarrow> rtcp_build_sender_report (junk env (RTCP_SR_SIZE + 16))
          (case p of None \<Rightarrow> 0 | Some r \<Rightarrow> rtp_ssrc r) (wall_us env)
          (case p of None \<Rightarrow> 0 | Some r \<Rightarrow> rtp_last_ts r) (case p of None \<Rightarrow> 0 | Some r \<Rightarrow> rtp_packets r)
          (case p of None \<Rightarrow> 0 | Some r \<Rightarrow> rtp_octets r);
       packet \<leftarrow> rdn sr 0 RTCP_SR_SIZE;
       case dtls_srtp_send_rtcp (env_lib env) packet (sdtls s) of
         (None, d) \<Rightarrow> Some ((dtls_replay env d s)\<lparr>next_sr_ms := now + RTCP_SR_INTERVAL_MS\<rparr>)
       | (Some out, d) \<Rightarrow>
           if length out > RTCP_SR_SIZE + 16 then None
           else
             let s1 = dtls_replay env d s
             in Some (s1\<lparr>stats := (stats s1)\<lparr>rtcp_sent := rtcp_sent (stats s1) + 1\<rparr>,
                         next_sr_ms := now + RTCP_SR_INTERVAL_MS\<rparr>)
     }"

definition rtc_session_tick :: "('ssl, 'srtp) rtc_env \<Rightarrow> u64 \<Rightarrow> ('ssl, 'srtp) rtc_session \<Rightarrow>
    ('ssl, 'srtp) rtc_session option" where
  "rtc_session_tick env now s =
     (if rstate s = RTC_CLOSED then Some s
      else if age_since now (last_rx_ms s) > SESSION_IDLE_TIMEOUT_MS then Some (rtc_session_close env s)
      else if rstate s = RTC_ICE \<and> age_since now (created_ms s) > SESSION_DTLS_WATCHDOG_MS
      then Some (rtc_session_close env s)
      else
        let s1 = dtls_replay env (dtls_srtp_tick (env_lib env) (sdtls s)) s in
        if rstate s1 = RTC_STREAMING \<and> now \<ge> next_sr_ms s1 then send_report env now s1 else Some s1)"

section \<open>Sending video\<close>

text \<open>The sink of the packetizer: the session and the flag of its context; \<open>None\<close> after a bad write.\<close>

definition rtp_packet_sink :: "('ssl, 'srtp) rtc_env \<Rightarrow> (('ssl, 'srtp) rtc_session \<times> bool) option packet_sink" where
  "rtp_packet_sink env ctx packet marker sequence =
     (case ctx of
        None \<Rightarrow> None
      | Some (s, ok) \<Rightarrow>
          if length packet > RETX_SLOT then Some (s, False)
          else
            case dtls_srtp_send_rtp (env_lib env) packet (sdtls s) of
              (None, d) \<Rightarrow> Some (dtls_replay env d s, False)
            | (Some protected, d) \<Rightarrow>
                let s1 = dtls_replay env d s; slot = unat sequence mod RETX_CACHE_SIZE in
                do {
                  cached \<leftarrow> wr (retx_data s1 ! slot) 0 protected;
                  Some (s1\<lparr>retx_data := (retx_data s1)[slot := cached],
                           retx_len := (retx_len s1)[slot := of_nat (length protected)],
                           stats := (stats s1)\<lparr>packets_sent := packets_sent (stats s1) + 1,
                             bytes_sent := bytes_sent (stats s1) + of_nat (length packet)\<rparr>\<rparr>, ok)
                })"

definition clear_idr :: "bool \<Rightarrow> ('ssl, 'srtp) rtc_session \<Rightarrow> ('ssl, 'srtp) rtc_session" where
  "clear_idr is_idr s = (if is_idr \<and> idr_requested s then s\<lparr>idr_requested := False\<rparr> else s)"

definition rtc_session_send_access_unit :: "('ssl, 'srtp) rtc_env \<Rightarrow> bytes option \<Rightarrow> u64 \<Rightarrow> bool \<Rightarrow>
    ('ssl, 'srtp) rtc_session \<Rightarrow> (int \<times> ('ssl, 'srtp) rtc_session) option" where
  "rtc_session_send_access_unit env access_unit pts is_idr s0 =
     (let s = clear_idr is_idr s0 in
      if rstate s \<noteq> RTC_STREAMING then Some (0, s)
      else
        case srtp_packetizer s of
          None \<Rightarrow> Some (- 1, s)
        | Some p \<Rightarrow>
            (case rtp_h264_packetize p access_unit pts (rtp_packet_sink env) (Some (s, True)) of
               (packets, p', ctx) \<Rightarrow>
                 do {
                   (s1, ok) \<leftarrow> ctx;
                   Some (packets, s1\<lparr>srtp_packetizer := Some p',
                     streaming_announced := streaming_announced s1 \<or> packets > 0\<rparr>)
                 }))"

section \<open>Creating a session\<close>

definition credential_alphabet :: string where
  "credential_alphabet = ''abcdefghijklmnopqrstuvwxyzABCDEFGHIJKLMNOPQRSTUVWXYZ0123456789''"

text \<open>\<open>raw\<close>: the 32 bytes of the random source or of one of its fallbacks.\<close>

definition generate_credentials :: "bytes \<Rightarrow> string \<times> string" where
  "generate_credentials raw =
     (map (\<lambda>i. credential_alphabet ! (unat (raw ! i) mod 52)) [0..<8],
      map (\<lambda>i. credential_alphabet ! (unat (raw ! (8 + i)) mod 52)) [0..<24])"

record 'ssl rtc_create_env =
  ce_allocs :: "bool \<times> bool \<times> bool"
  ce_raw :: bytes
  ce_socket :: "(int \<times> u16) option"
  ce_dtls_ready :: bool
  ce_ssl :: "'ssl option"
  ce_ssrc :: u32
  ce_fingerprint :: string

text \<open>The session as it stands when its answer is built.\<close>

definition session_ssrc :: "'ssl rtc_create_env \<Rightarrow> u32" where
  "session_ssrc ce = (if ce_ssrc ce = 0 then 0x1234ABCD else ce_ssrc ce)"

definition fresh_session :: "('ssl, 'srtp) rtc_env \<Rightarrow> 'ssl rtc_create_env \<Rightarrow> rtc_config \<Rightarrow> int \<Rightarrow> u16 \<Rightarrow>
    ('ssl, 'srtp) dtls_srtp \<Rightarrow> ('ssl, 'srtp) rtc_session" where
  "fresh_session env ce cfg fd port d =
     \<lparr>config = cfg, rstate = RTC_NEW, udp_fd = fd, udp_port = port,
      local_ufrag = fst (generate_credentials (ce_raw ce)), local_pwd = snd (generate_credentials (ce_raw ce)),
      remote = Inet 0 0, have_remote = False,
      sdtls = dtls_srtp_set_expected_fingerprint (offer_fingerprint (cfg_offer cfg)) d,
      srtp_packetizer = (case rtp_h264_create (snd (snd (ce_allocs ce))) of None \<Rightarrow> None
        | Some p \<Rightarrow> Some (rtp_h264_reset p (session_ssrc ce) (of_int (h264_payload_type (cfg_offer cfg))))),
      created_ms = now_ms env, last_rx_ms = now_ms env, last_idr_ms = 0, next_sr_ms = 0,
      idr_requested = False, streaming_announced = False, stats = no_stats,
      retx_data = replicate RETX_CACHE_SIZE (junk env RETX_SLOT),
      retx_len = replicate RETX_CACHE_SIZE 0, trace = []\<rparr>"

text \<open>
  Success carries the session and the answer; failure the outputs of the session that is destroyed.
  The three allocations are the session, its retransmission cache and the packetizer.
\<close>

definition rtc_session_create :: "('ssl, 'srtp) rtc_env \<Rightarrow> 'ssl rtc_create_env \<Rightarrow> rtc_config \<Rightarrow> nat \<Rightarrow>
    (rtc_output list + (('ssl, 'srtp) rtc_session \<times> string)) option" where
  "rtc_session_create env ce cfg answer_capacity =
     (if \<not> fst (ce_allocs ce) \<or> \<not> fst (snd (ce_allocs ce)) then Some (Inl [])
      else
        case ce_socket ce of
          None \<Rightarrow> Some (Inl [])
        | Some (fd, port) \<Rightarrow>
            case dtls_srtp_session_create (ce_dtls_ready ce) (ce_ssl ce) of
              None \<Rightarrow> Some (Inl [])
            | Some d \<Rightarrow>
                let s = fresh_session env ce cfg fd port d in do {
                  (built, answer) \<leftarrow>
                    (if extra_ips cfg \<noteq> []
                     then sdp_build_answer_multi (cfg_offer cfg) (ce_fingerprint ce) (local_ufrag s) (local_pwd s)
                            (advertise_ip cfg) (extra_ips cfg) port (session_ssrc ce) answer_capacity
                     else sdp_build_answer (cfg_offer cfg) (ce_fingerprint ce) (local_ufrag s) (local_pwd s)
                            (advertise_ip cfg) port (session_ssrc ce) answer_capacity);
                  if built = 0 then Some (Inl (trace (rtc_session_close env s)))
                  else Some (Inr (s\<lparr>config := cfg\<lparr>extra_ips := []\<rparr>\<rparr>, answer))
                })"

definition rtc_session_dtls_timeout_ms :: "('ssl, 'srtp) rtc_env \<Rightarrow> ('ssl, 'srtp) rtc_session \<Rightarrow> int" where
  "rtc_session_dtls_timeout_ms env s = dtls_srtp_next_timeout_ms (env_lib env) (sdtls s)"

end
