(* ===== verification/Rtc_Safety.thy ===== *)
theory Rtc_Safety
  imports Rtc_Session
begin

text \<open>
  What holds of a session whatever arrives and whatever OpenSSL and libsrtp do: the invariant that
  ties the session's state to the state of its DTLS engine, kept by every operation, and the order in
  which the states are passed through.
\<close>

section \<open>Closing\<close>

definition sends :: "dtls_event list \<Rightarrow> bytes list" where
  "sends evs = concat (map (\<lambda>e. case e of DtlsSend p \<Rightarrow> [p] | _ \<Rightarrow> []) evs)"

lemma sends_simps [simp]: "sends [] = []" "sends (DtlsSend p # es) = p # sends es"
  "sends (DtlsState st # es) = sends es" "sends (DtlsConnected # es) = sends es"
  "sends (a @ b) = sends a @ sends b" "sends (map DtlsSend ps) = ps"
  by (auto simp: sends_def o_def)

definition to_peer :: "('ssl, 'srtp) rtc_session \<Rightarrow> bytes list \<Rightarrow> rtc_output list" where
  "to_peer s ps = (if udp_fd s < 0 \<or> \<not> have_remote s then [] else map (\<lambda>p. SendTo p (remote s)) ps)"

lemma to_peer_simps [simp]: "to_peer s [] = []"
  "to_peer (s\<lparr>trace := t\<rparr>) ps = to_peer s ps" "to_peer (s\<lparr>rstate := st\<rparr>) ps = to_peer s ps"
  "to_peer (s\<lparr>sdtls := d\<rparr>) ps = to_peer s ps"
  by (auto simp: to_peer_def)

lemma dtls_send_udp_eq: "dtls_send_udp p s = s\<lparr>trace := trace s @ to_peer s [p]\<rparr>"
  by (simp add: dtls_send_udp_def to_peer_def emit_def)

lemma to_peer_Cons: "to_peer s (p # ps) = to_peer s [p] @ to_peer s ps"
  by (simp add: to_peer_def)

lemma to_peer_no_close [simp]: "count_list (to_peer s ps) OnClosed = 0"
  by (auto simp: to_peer_def count_list_0_iff)

lemma run_io_sends: "\<exists>ds. dtls_out (snd (run_io t s)) = dtls_out s @ map DtlsSend ds"
proof (induction t arbitrary: s)
  case (IoRet rc ssl)
  then show ?case by (auto intro: exI [of _ "[]"])
next
  case (IoRead cap k)
  obtain r s1 where r: "bio_rx_read cap s = (r, s1)" by fastforce
  then have "dtls_out s1 = dtls_out s" by (auto simp: bio_rx_read_def rx_advance_def Let_def split: if_splits)
  then show ?case using IoRead [of "k r" s1] r by auto
next
  case (IoWrite buf k)
  obtain r s1 where r: "bio_tx_write buf s = (r, s1)" by fastforce
  then have "\<exists>ds. dtls_out s1 = dtls_out s @ map DtlsSend ds"
    by (auto simp: bio_tx_write_def dtls_emit_def split: if_splits intro: exI [of _ "[]"] exI [of _ "[buf]"])
  then show ?case using IoWrite [of "k r" s1] r by (auto simp flip: map_append)
next
  case (IoPending k)
  then show ?case by simp
qed

lemma close_events:
  assumes "dtls_out d = []"
  shows "\<exists>ds es. dtls_out (dtls_srtp_close lib d) = map DtlsSend ds @ es \<and> set es \<subseteq> {DtlsState DTLS_SRTP_CLOSED}"
proof -
  obtain ds where ds: "dtls_out (snd (run_io (SSL_shutdown lib (dtls_ssl d)) d)) = map DtlsSend ds"
    using run_io_sends [of "SSL_shutdown lib (dtls_ssl d)" d] assms by auto
  then have "dtls_out (if dtls_state d = DTLS_SRTP_CONNECTED then snd (run_io (SSL_shutdown lib (dtls_ssl d)) d) else d) =
      map DtlsSend (if dtls_state d = DTLS_SRTP_CONNECTED then ds else [])"
    using assms by simp
  moreover have "\<exists>es. dtls_out (dtls_set_state DTLS_SRTP_CLOSED t) = dtls_out t @ es \<and>
      set es \<subseteq> {DtlsState DTLS_SRTP_CLOSED}" for t :: "('a, 'b) dtls_srtp"
    by (auto simp: dtls_set_state_def dtls_emit_def)
  ultimately show ?thesis unfolding dtls_srtp_close_def by metis
qed

text \<open>On a closed session the callbacks of a closing engine only send.\<close>

lemma fold_closed:
  assumes "\<And>x. rstate x = RTC_CLOSED \<Longrightarrow> close x = x" "rstate s = RTC_CLOSED"
    "\<forall>e \<in> set evs. (\<exists>p. e = DtlsSend p) \<or> e = DtlsState DTLS_SRTP_CLOSED"
  shows "fold (handle_dtls_event env close) evs s = s\<lparr>trace := trace s @ to_peer s (sends evs)\<rparr>"
  using assms(2,3)
proof (induction evs arbitrary: s)
  case (Cons e es)
  from Cons.prems(2) consider p where "e = DtlsSend p" | "e = DtlsState DTLS_SRTP_CLOSED" by auto
  then show ?case
  proof cases
    case 1
    then show ?thesis
      using Cons.IH [of "s\<lparr>trace := trace s @ to_peer s [p]\<rparr>"] Cons.prems to_peer_Cons [of s p "sends es"]
      by (simp add: handle_dtls_event_def dtls_send_udp_eq)
  next
    case 2
    then show ?thesis using Cons assms(1) by (simp add: handle_dtls_event_def dtls_on_state_def)
  qed
qed simp

lemma close_levels_closed [simp]: "rstate s = RTC_CLOSED \<Longrightarrow> close_levels env n s = s"
  by (cases n) simp_all

text \<open>The recursion of closing stops at its second level: more levels change nothing.\<close>

lemma close_levels_eq:
  assumes "rstate s \<noteq> RTC_CLOSED" "dtls_out (sdtls s) = []"
  shows "close_levels env (Suc n) s =
    (let d = dtls_srtp_close (env_lib env) (sdtls s)
     in s\<lparr>rstate := RTC_CLOSED, sdtls := d\<lparr>dtls_out := []\<rparr>,
          trace := trace s @ to_peer s (sends (dtls_out d)) @ (if has_on_closed (config s) then [OnClosed] else [])\<rparr>)"
proof -
  let ?d = "dtls_srtp_close (env_lib env) (sdtls s)"
  let ?s1 = "s\<lparr>rstate := RTC_CLOSED, sdtls := ?d\<lparr>dtls_out := []\<rparr>\<rparr>"
  obtain ds es where "dtls_out ?d = map DtlsSend ds @ es" "set es \<subseteq> {DtlsState DTLS_SRTP_CLOSED}"
    using close_events [OF assms(2)] by blast
  then have "fold (handle_dtls_event env (close_levels env n)) (dtls_out ?d) ?s1 =
      ?s1\<lparr>trace := trace ?s1 @ to_peer ?s1 (sends (dtls_out ?d))\<rparr>"
    by (intro fold_closed) auto
  then show ?thesis using assms(1) by (simp add: set_state_def emit_def Let_def)
qed

declare close_levels.simps(2) [simp del]

lemma close_depth:
  assumes "dtls_out (sdtls s) = []"
  shows "close_levels env (Suc n) s = rtc_session_close env s"
  using close_levels_eq [OF _ assms, of env] 
  by (cases "rstate s = RTC_CLOSED") (simp_all add: rtc_session_close_def numeral_2_eq_2)

lemma close_closed [simp]: "rstate s = RTC_CLOSED \<Longrightarrow> rtc_session_close env s = s"
  by (simp add: rtc_session_close_def)

lemma close_eq:
  assumes "rstate s \<noteq> RTC_CLOSED" "dtls_out (sdtls s) = []"
  shows "rtc_session_close env s =
    (let d = dtls_srtp_close (env_lib env) (sdtls s)
     in s\<lparr>rstate := RTC_CLOSED, sdtls := d\<lparr>dtls_out := []\<rparr>,
          trace := trace s @ to_peer s (sends (dtls_out d)) @ (if has_on_closed (config s) then [OnClosed] else [])\<rparr>)"
  unfolding rtc_session_close_def numeral_2_eq_2 by (rule close_levels_eq [OF assms])

section \<open>The invariant\<close>

definition link :: "rtc_state \<Rightarrow> bool \<Rightarrow> dtls_srtp_state \<Rightarrow> bool" where
  "link st peer d =
     (case st of
        RTC_NEW \<Rightarrow> \<not> peer \<and> d = DTLS_SRTP_INIT
      | RTC_ICE \<Rightarrow> peer \<and> d = DTLS_SRTP_INIT
      | RTC_DTLS \<Rightarrow> peer \<and> d = DTLS_SRTP_HANDSHAKING
      | RTC_STREAMING \<Rightarrow> peer \<and> d = DTLS_SRTP_CONNECTED
      | RTC_CLOSED \<Rightarrow> d = DTLS_SRTP_CLOSED)"

definition cache_ok :: "bytes list \<Rightarrow> u16 list \<Rightarrow> bool" where
  "cache_ok data lens \<longleftrightarrow> length data = RETX_CACHE_SIZE \<and> length lens = RETX_CACHE_SIZE \<and>
     (\<forall>i < RETX_CACHE_SIZE. length (data ! i) = RETX_SLOT \<and> unat (lens ! i) \<le> RETX_SLOT)"

definition core :: "('ssl, 'srtp) rtc_session \<Rightarrow> bool" where
  "core s \<longleftrightarrow> dtls_inv (sdtls s) \<and> dtls_out (sdtls s) = [] \<and> cache_ok (retx_data s) (retx_len s) \<and>
     count_list (trace s) OnClosed = (if rstate s = RTC_CLOSED \<and> has_on_closed (config s) then 1 else 0)"

definition rtc_inv :: "('ssl, 'srtp) rtc_session \<Rightarrow> bool" where
  "rtc_inv s \<longleftrightarrow> core s \<and> link (rstate s) (have_remote s) (dtls_state (sdtls s))"

text \<open>What every operation keeps, and the only direction in which the state moves.\<close>

definition same_peer :: "('ssl, 'srtp) rtc_session \<Rightarrow> ('ssl, 'srtp) rtc_session \<Rightarrow> bool" where
  "same_peer s s' \<longleftrightarrow> remote s' = remote s \<and> have_remote s' = have_remote s"

definition same_cache :: "('ssl, 'srtp) rtc_session \<Rightarrow> ('ssl, 'srtp) rtc_session \<Rightarrow> bool" where
  "same_cache s s' \<longleftrightarrow> retx_data s' = retx_data s \<and> retx_len s' = retx_len s"

definition grows :: "('ssl, 'srtp) rtc_session \<Rightarrow> ('ssl, 'srtp) rtc_session \<Rightarrow> bool" where
  "grows s s' \<longleftrightarrow> rstate s \<le> rstate s' \<and> (\<exists>outs. trace s' = trace s @ outs) \<and> config s' = config s \<and>
     udp_fd s' = udp_fd s \<and> local_ufrag s' = local_ufrag s \<and> local_pwd s' = local_pwd s"

lemma grows_refl [simp]: "grows s s"
  by (simp add: grows_def)

lemma grows_trans: "grows s t \<Longrightarrow> grows t u \<Longrightarrow> grows s u"
  by (auto simp: grows_def)

lemma same_peer_trans: "same_peer s t \<Longrightarrow> same_peer t u \<Longrightarrow> same_peer s u"
  by (simp add: same_peer_def)

definition keeps :: "('ssl, 'srtp) rtc_session \<Rightarrow> ('ssl, 'srtp) rtc_session \<Rightarrow> bool" where
  "keeps s s' \<longleftrightarrow> rtc_inv s' \<and> grows s s' \<and> same_peer s s' \<and> same_cache s s'"

lemma same_cache_trans: "same_cache s t \<Longrightarrow> same_cache t u \<Longrightarrow> same_cache s u"
  by (simp add: same_cache_def)

lemma keeps_refl: "rtc_inv s \<Longrightarrow> keeps s s"
  by (simp add: keeps_def same_peer_def same_cache_def)

lemma keeps_trans: "keeps s t \<Longrightarrow> keeps t u \<Longrightarrow> keeps s u"
  using grows_trans same_peer_trans same_cache_trans by (auto simp: keeps_def)

lemma keeps_from: "keeps t u \<Longrightarrow> grows s t \<Longrightarrow> same_peer s t \<Longrightarrow> same_cache s t \<Longrightarrow> keeps s u"
  using grows_trans same_peer_trans same_cache_trans by (auto simp: keeps_def)

text \<open>Updates of the other fields do not matter.\<close>

lemma grows_update [simp]:
  "grows s (s\<lparr>trace := trace s @ outs\<rparr>)" "grows s (s\<lparr>sdtls := d\<rparr>)" "grows s (s\<lparr>last_rx_ms := t\<rparr>)"
  "grows s (s\<lparr>next_sr_ms := t\<rparr>)" "grows s (s\<lparr>stats := x\<rparr>)" "rstate s \<le> st \<Longrightarrow> grows s (s\<lparr>rstate := st\<rparr>)"
  by (simp_all add: grows_def)

lemma same_update [simp]:
  "same_peer s (s\<lparr>trace := t\<rparr>)" "same_peer s (s\<lparr>sdtls := d\<rparr>)" "same_peer s (s\<lparr>last_rx_ms := n\<rparr>)"
  "same_peer s (s\<lparr>next_sr_ms := n\<rparr>)" "same_peer s (s\<lparr>stats := x\<rparr>)" "same_peer s (s\<lparr>rstate := st\<rparr>)"
  "same_cache s (s\<lparr>trace := t\<rparr>)" "same_cache s (s\<lparr>sdtls := d\<rparr>)" "same_cache s (s\<lparr>last_rx_ms := n\<rparr>)"
  "same_cache s (s\<lparr>next_sr_ms := n\<rparr>)" "same_cache s (s\<lparr>stats := x\<rparr>)" "same_cache s (s\<lparr>rstate := st\<rparr>)"
  by (simp_all add: same_peer_def same_cache_def)

lemma handle_dtls_event_simps [simp]:
  "handle_dtls_event env close (DtlsSend p) s = dtls_send_udp p s"
  "handle_dtls_event env close (DtlsState st) s = dtls_on_state close st s"
  "handle_dtls_event env close DtlsConnected s = dtls_on_connected env s"
  by (simp_all add: handle_dtls_event_def)

lemma dtls_inv_out [simp]: "dtls_inv (d\<lparr>dtls_out := x\<rparr>) = dtls_inv d"
  by (simp add: dtls_inv_def)

lemma closed_top [simp]: "st \<le> RTC_CLOSED"
  by (cases st) (simp_all add: less_eq_rtc_state_def)

lemma close_keeps:
  assumes "core s"
  shows "core (rtc_session_close env s)" "rstate (rtc_session_close env s) = RTC_CLOSED"
    "rstate s \<noteq> RTC_CLOSED \<or> rtc_inv s \<Longrightarrow> keeps s (rtc_session_close env s)"
proof -
  have c: "rtc_inv (rtc_session_close env s) \<and> grows s (rtc_session_close env s) \<and>
      same_peer s (rtc_session_close env s) \<and> same_cache s (rtc_session_close env s) \<and> rstate (rtc_session_close env s) = RTC_CLOSED"
    if n: "rstate s \<noteq> RTC_CLOSED"
  proof -
    have d: "dtls_inv (sdtls s)" "dtls_out (sdtls s) = []" using assms by (simp_all add: core_def)
    show ?thesis
      using close_ok [OF d(1), of "env_lib env"] assms n close_eq [OF n d(2), of env]
      by (auto simp: Let_def op_ok_def rtc_inv_def core_def link_def grows_def same_peer_def same_cache_def)
  qed
  show "core (rtc_session_close env s)" "rstate (rtc_session_close env s) = RTC_CLOSED"
    using c assms by (cases "rstate s = RTC_CLOSED"; simp add: rtc_inv_def)+
  show "rstate s \<noteq> RTC_CLOSED \<or> rtc_inv s \<Longrightarrow> keeps s (rtc_session_close env s)"
    using c by (cases "rstate s = RTC_CLOSED") (auto simp: keeps_def same_peer_def same_cache_def)
qed


section \<open>Replaying the callbacks\<close>

text \<open>An operation that only appends to the trace, without closing.\<close>

lemma core_trace: "core s \<Longrightarrow> count_list outs OnClosed = 0 \<Longrightarrow> core (s\<lparr>trace := trace s @ outs\<rparr>)"
  by (simp add: core_def)

lemma count_OnClosed: "core s \<Longrightarrow> rstate s \<noteq> RTC_CLOSED \<Longrightarrow> count_list (trace s) OnClosed = 0"
  by (simp add: core_def)

definition steady :: "('ssl, 'srtp) rtc_session \<Rightarrow> ('ssl, 'srtp) rtc_session \<Rightarrow> bool" where
  "steady s s' \<longleftrightarrow> core s' \<and> rstate s' = rstate s \<and> sdtls s' = sdtls s \<and> grows s s' \<and> same_peer s s' \<and> same_cache s s'"

lemma emit_idr_steady: "core s \<Longrightarrow> steady s (emit IdrRequest (s\<lparr>last_idr_ms := t, idr_requested := r\<rparr>))"
  unfolding steady_def core_def grows_def same_peer_def same_cache_def emit_def by simp

lemma steady_refl: "core s \<Longrightarrow> steady s s"
  by (simp add: steady_def same_peer_def same_cache_def)

lemma idr_steady: "core s \<Longrightarrow> steady s (rtc_session_request_idr env s)"
  unfolding rtc_session_request_idr_def by (simp add: emit_idr_steady steady_refl)

lemmas idr_core = idr_steady [unfolded steady_def, THEN conjunct1]
  idr_steady [unfolded steady_def, THEN conjunct2, THEN conjunct1]
  idr_steady [unfolded steady_def, THEN conjunct2, THEN conjunct2, THEN conjunct1]
  idr_steady [unfolded steady_def, THEN conjunct2, THEN conjunct2, THEN conjunct2, THEN conjunct1]
  idr_steady [unfolded steady_def, THEN conjunct2, THEN conjunct2, THEN conjunct2, THEN conjunct2, THEN conjunct1]
  idr_steady [unfolded steady_def, THEN conjunct2, THEN conjunct2, THEN conjunct2, THEN conjunct2, THEN conjunct2]

lemma connected_core:
  assumes "core s" "rstate s = RTC_DTLS"
  shows "core (dtls_on_connected env s)" "rstate (dtls_on_connected env s) = RTC_STREAMING"
    "sdtls (dtls_on_connected env s) = sdtls s" "grows s (dtls_on_connected env s)"
    "same_peer s (dtls_on_connected env s)" "same_cache s (dtls_on_connected env s)"
proof -
  let ?s = "s\<lparr>rstate := RTC_STREAMING\<rparr>"
  have "core ?s" using assms by (simp add: core_def)
  note I = idr_core [OF this, of env]
  have e: "dtls_on_connected env s = (rtc_session_request_idr env ?s)\<lparr>next_sr_ms := now_ms env + RTCP_SR_INTERVAL_MS\<rparr>"
    using assms(2) by (simp add: dtls_on_connected_def set_state_def Let_def)
  have g: "grows s ?s" using assms(2) by (intro grows_update) (simp add: state_order)
  show "core (dtls_on_connected env s)" using I(1) by (simp add: e core_def)
  show "rstate (dtls_on_connected env s) = RTC_STREAMING" "sdtls (dtls_on_connected env s) = sdtls s"
    using I(2,3) by (simp_all add: e)
  show "grows s (dtls_on_connected env s)" using grows_trans [OF g grows_trans [OF I(4) grows_update(4)]] by (simp add: e)
  show "same_peer s (dtls_on_connected env s)" using I(5) by (simp add: e same_peer_def)
  show "same_cache s (dtls_on_connected env s)" using I(6) by (simp add: e same_cache_def)
qed

lemma walk_after_closed: "ev_walk st es = Some x \<Longrightarrow> st \<in> {DTLS_SRTP_FAILED, DTLS_SRTP_CLOSED} \<Longrightarrow>
    \<forall>e \<in> set es. e = DtlsState DTLS_SRTP_CLOSED"
  by (induction st es rule: ev_walk.induct) (auto simp: dtls_edge_def split: if_splits)

lemma replay_closing:
  assumes "core s" "rstate s \<noteq> RTC_CLOSED" "\<forall>e \<in> set es. e = DtlsState DTLS_SRTP_CLOSED"
  shows "keeps s (fold (handle_dtls_event env (rtc_session_close env)) es (rtc_session_close env s))"
proof -
  have "sends es = []" using assms(3) by (induction es) auto
  then have "fold (handle_dtls_event env (rtc_session_close env)) es (rtc_session_close env s) = rtc_session_close env s"
    using fold_closed [of "rtc_session_close env" "rtc_session_close env s" es env] close_keeps(2) [OF assms(1)] assms(3)
    by simp
  then show ?thesis using close_keeps(3) [OF assms(1)] assms(2) by simp
qed

lemma replay_walk:
  assumes "ev_walk st evs = Some (dtls_state (sdtls s))" "core s" "have_remote s" "rstate s \<noteq> RTC_CLOSED"
    "link (rstate s) True st"
  shows "keeps s (fold (handle_dtls_event env (rtc_session_close env)) evs s)"
  using assms
proof (induction st evs arbitrary: s rule: ev_walk.induct)
  case (1 st)
  then show ?case by (auto simp: rtc_inv_def intro: keeps_refl)
next
  case (2 st p es)
  let ?s = "dtls_send_udp p s"
  have st: "st \<notin> {DTLS_SRTP_FAILED, DTLS_SRTP_CLOSED}" using 2(2) by (auto split: if_splits)
  have c: "core ?s" using core_trace [OF 2(3)] by (simp add: dtls_send_udp_eq)
  have "keeps ?s (fold (handle_dtls_event env (rtc_session_close env)) es ?s)"
    using 2(2,4-6) c st by (intro 2(1)) (auto simp: dtls_send_udp_eq)
  then show ?case by (auto simp: dtls_send_udp_eq intro: keeps_from)
next
  case (3 st st' es)
  have e: "dtls_edge st st'" using 3(3) by (auto split: if_splits)
  show ?case
  proof (cases "st' \<in> {DTLS_SRTP_FAILED, DTLS_SRTP_CLOSED}")
    case True
    then have "\<forall>e \<in> set es. e = DtlsState DTLS_SRTP_CLOSED"
      using walk_after_closed [of st' es] 3(3) e by (auto split: if_splits)
    then show ?thesis
      using replay_closing [OF 3(4,6)] True by (auto simp: dtls_on_state_def)
  next
    case alive: False
    show ?thesis
    proof (cases "st' = DTLS_SRTP_CONNECTED")
      case True
      then have d: "rstate s = RTC_DTLS" using 3(6,7) e by (auto simp: dtls_edge_def link_def split: rtc_state.splits)
      obtain es' where es: "es = DtlsConnected # es'"
        using 3(3) e True by (auto split: list.splits dtls_event.splits)
      note C = connected_core [OF 3(4) d, of env]
      have "keeps (dtls_on_connected env s) (fold (handle_dtls_event env (rtc_session_close env)) es' (dtls_on_connected env s))"
        using 3(3,5) e True es C by (intro 3(1) [OF _ True es refl]) (auto simp: same_peer_def link_def)
      then have "keeps s (fold (handle_dtls_event env (rtc_session_close env)) es' (dtls_on_connected env s))"
        using C(4-6) by (rule keeps_from)
      then show ?thesis using True es by (simp add: dtls_on_state_def)
    next
      case False
      then have h: "st' = DTLS_SRTP_HANDSHAKING" "rstate s = RTC_ICE"
        using 3(6,7) e alive by (auto simp: dtls_edge_def link_def split: rtc_state.splits)
      let ?s = "s\<lparr>rstate := RTC_DTLS\<rparr>"
      have "core ?s" using 3(4) h by (simp add: core_def)
      then have "keeps ?s (fold (handle_dtls_event env (rtc_session_close env)) es ?s)"
        using 3(3,5) e h by (intro 3(2)) (auto simp: link_def)
      then show ?thesis using h
        by (auto simp: dtls_on_state_def set_state_def state_order intro!: keeps_from [of ?s])
    qed
  qed
next
  case (4 st es)
  then show ?case by simp
qed

text \<open>An operation of the engine that keeps its contract keeps the session's invariant.\<close>

lemma dtls_op_keeps:
  assumes "rtc_inv s" "have_remote s" "rstate s \<noteq> RTC_CLOSED" "op_ok lib (sdtls s) d"
  shows "keeps s (dtls_replay env d s)"
proof -
  have w: "ev_walk (dtls_state (sdtls s)) (dtls_out d) = Some (dtls_state d)" "dtls_inv d"
    using assms(1,4) by (auto simp: op_ok_def dtls_moves_def rtc_inv_def core_def)
  let ?s = "s\<lparr>sdtls := d\<lparr>dtls_out := []\<rparr>\<rparr>"
  have "keeps ?s (fold (handle_dtls_event env (rtc_session_close env)) (dtls_out d) ?s)"
    using w assms by (intro replay_walk) (auto simp: rtc_inv_def core_def)
  then show ?thesis by (auto simp: dtls_replay_def intro: keeps_from)
qed


lemma steady_keeps: "rtc_inv s \<Longrightarrow> steady s t \<Longrightarrow> keeps s t"
  by (simp add: steady_def keeps_def rtc_inv_def same_peer_def)

lemma steady_trans: "steady s t \<Longrightarrow> steady t u \<Longrightarrow> steady s u"
  using grows_trans same_peer_trans same_cache_trans by (auto simp: steady_def)

section \<open>Operations of the engine that only send\<close>

definition calm :: "('ssl, 'srtp) dtls_srtp \<Rightarrow> ('ssl, 'srtp) dtls_srtp \<Rightarrow> bytes list \<Rightarrow> bool" where
  "calm d d' ps \<longleftrightarrow> dtls_inv d' \<and> dtls_state d' = dtls_state d \<and> dtls_out d' = dtls_out d @ map DtlsSend ps"

lemma send_rtp_calm: "dtls_inv d \<Longrightarrow> dtls_srtp_send_rtp lib pkt d = (r, d') \<Longrightarrow>
    calm d d' (case r of None \<Rightarrow> [] | Some out \<Rightarrow> [out])"
  by (auto simp: dtls_srtp_send_rtp_def calm_def dtls_emit_def dtls_inv_def split: if_splits option.splits)

lemma send_rtcp_calm: "dtls_inv d \<Longrightarrow> dtls_srtp_send_rtcp lib pkt d = (r, d') \<Longrightarrow>
    calm d d' (case r of None \<Rightarrow> [] | Some out \<Rightarrow> [out])"
  by (auto simp: dtls_srtp_send_rtcp_def calm_def dtls_emit_def dtls_inv_def split: if_splits option.splits)

lemma unprotect_calm: "dtls_inv d \<Longrightarrow> dtls_srtp_unprotect_rtcp lib pkt d = (r, d') \<Longrightarrow> calm d d' []"
  by (auto simp: dtls_srtp_unprotect_rtcp_def calm_def dtls_inv_def split: if_splits option.splits)

lemma fold_sends: "fold (handle_dtls_event env close) (map DtlsSend ps) s = s\<lparr>trace := trace s @ to_peer s ps\<rparr>"
proof (induction ps arbitrary: s)
  case (Cons p ps)
  then show ?case using to_peer_Cons [of s p ps] by (simp add: dtls_send_udp_eq)
qed simp

lemma calm_replay:
  assumes "core s" "calm (sdtls s) d ps"
  shows "dtls_replay env d s = s\<lparr>sdtls := d\<lparr>dtls_out := []\<rparr>, trace := trace s @ to_peer s ps\<rparr>"
proof -
  have "dtls_out d = map DtlsSend ps" using assms by (simp add: core_def calm_def)
  then show ?thesis by (simp add: dtls_replay_def fold_sends)
qed

lemma calm_keeps:
  assumes "rtc_inv s" "calm (sdtls s) d ps"
  shows "keeps s (dtls_replay env d s)" "rstate (dtls_replay env d s) = rstate s"
  using assms
  by (auto simp: calm_replay rtc_inv_def core_def calm_def keeps_def grows_def same_peer_def same_cache_def)

section \<open>Handlers\<close>

lemma stats_steady: "core s \<Longrightarrow> steady s (s\<lparr>stats := x\<rparr>)"
  by (simp add: steady_def core_def)

lemma send_steady: "core s \<Longrightarrow> steady s (s\<lparr>trace := trace s @ to_peer s ps\<rparr>)"
  by (simp add: steady_def core_def)

lemma retransmit_steady:
  assumes "core s"
  shows "steady s (retransmit s q)"
proof -
  let ?p = "take (unat (retx_len s ! (unat q mod RETX_CACHE_SIZE))) (retx_data s ! (unat q mod RETX_CACHE_SIZE))"
  let ?s = "s\<lparr>trace := trace s @ to_peer s [?p]\<rparr>"
  have 1: "steady s ?s" by (rule send_steady [OF assms])
  then have "core ?s" by (simp add: steady_def)
  from steady_trans [OF 1 stats_steady [OF this]] show ?thesis
    using steady_refl [OF assms] by (simp add: retransmit_def Let_def dtls_send_udp_eq)
qed

lemma retransmits_steady: "core s \<Longrightarrow> steady s (foldl retransmit s qs)"
proof (induction qs arbitrary: s)
  case (Cons q qs)
  have "core (retransmit s q)" using retransmit_steady [OF Cons.prems, of q] by (simp add: steady_def)
  from steady_trans [OF retransmit_steady [OF Cons.prems] Cons.IH [OF this]] show ?case by simp
qed (simp add: steady_refl)

definition rtcp_counted :: "('ssl, 'srtp) rtc_env \<Rightarrow> rtcp_feedback \<Rightarrow> ('ssl, 'srtp) rtc_session \<Rightarrow> ('ssl, 'srtp) rtc_session" where
  "rtcp_counted env fb s =
     (if fb_pli fb > 0 \<or> fb_fir fb > 0
      then rtc_session_request_idr env (s\<lparr>stats := (stats s)\<lparr>pli_received :=
             pli_received (stats s) + (of_int (fb_pli fb) + of_int (fb_fir fb))\<rparr>\<rparr>)
      else s)"

lemma rtcp_counted_steady: "core s \<Longrightarrow> steady s (rtcp_counted env fb s)"
proof -
  assume c: "core s"
  have "steady s (rtc_session_request_idr env (s\<lparr>stats := x\<rparr>))" for x
    using steady_trans [OF stats_steady [OF c] idr_steady] stats_steady [OF c] by (simp add: steady_def)
  then show ?thesis using steady_refl [OF c] by (simp add: rtcp_counted_def)
qed

lemma on_rtcp_eq:
  "dtls_on_rtcp env p n s = map_option (\<lambda>fb.
     if fb_bye fb then rtc_session_close env s
     else let s1 = rtcp_counted env fb s in
       if length (fb_nack fb) > 0
       then foldl retransmit (s1\<lparr>stats := (stats s1)\<lparr>nacks_received :=
              nacks_received (stats s1) + of_nat (length (fb_nack fb))\<rparr>\<rparr>) (fb_nack fb)
       else s1) (rtcp_parse p n)"
  by (cases "rtcp_parse p n") (simp_all add: dtls_on_rtcp_def rtcp_counted_def Let_def)

lemma on_rtcp_keeps:
  assumes "rtc_inv s" "dtls_on_rtcp env p n s = Some s'"
  shows "keeps s s'"
proof -
  have c: "core s" using assms(1) by (simp add: rtc_inv_def)
  obtain fb where fb: "rtcp_parse p n = Some fb" using assms(2) by (auto simp: on_rtcp_eq)
  let ?s1 = "rtcp_counted env fb s"
  have s1: "steady s ?s1" "core ?s1" using rtcp_counted_steady [OF c, of env fb] by (simp_all add: steady_def)
  have "steady s (?s1\<lparr>stats := x\<rparr>)" "core (?s1\<lparr>stats := x\<rparr>)" for x
    using steady_trans [OF s1(1) stats_steady [OF s1(2), of x]] by (simp_all add: steady_def)
  then have "steady s (foldl retransmit (?s1\<lparr>stats := x\<rparr>) qs)" for x qs
    using steady_trans retransmits_steady by blast
  with s1(1) have "keeps s (rtc_session_close env s)" "keeps s ?s1" "keeps s (foldl retransmit (?s1\<lparr>stats := x\<rparr>) qs)" for x qs
    using close_keeps(3) [OF c] assms(1) steady_keeps by blast+
  then show ?thesis using assms(2) fb by (auto simp: on_rtcp_eq Let_def split: if_splits)
qed

lemma on_rtp_keeps:
  assumes "rtc_inv s" "on_rtp env buffer n s = Some s'"
  shows "keeps s s'"
proof -
  have d: "dtls_inv (sdtls s)" using assms(1) by (simp add: rtc_inv_def core_def)
  obtain b where b: "rd8 buffer 1 = Some b" using assms(2) by (auto simp: on_rtp_def bind_eq_Some_conv)
  show ?thesis
  proof (cases "b AND 0x7F \<ge> 64 \<and> b AND 0x7F \<le> 95 \<and> rstate s = RTC_STREAMING")
    case False
    then show ?thesis using assms b by (auto simp: on_rtp_def Let_def intro: keeps_refl)
  next
    case True
    then obtain g0 where "rdn buffer 0 n = Some g0"
      using assms(2) b by (auto simp: on_rtp_def Let_def bind_eq_Some_conv)
    then obtain g r e where g: "rdn buffer 0 n = Some g" "dtls_srtp_unprotect_rtcp (env_lib env) g (sdtls s) = (r, e)"
      by (cases "dtls_srtp_unprotect_rtcp (env_lib env) g0 (sdtls s)") blast
    note K = calm_keeps [OF assms(1) unprotect_calm [OF d g(2)]]
    have "rtc_inv (dtls_replay env e s)" using K(1) by (simp add: keeps_def)
    note R = keeps_trans [OF K(1) on_rtcp_keeps [OF this]]
    show ?thesis
      using assms(2) b g True K(1) R by (auto simp: on_rtp_def Let_def split: option.splits)
  qed
qed


text \<open>A datagram that may claim the peer slot.\<close>

definition authenticated :: "('ssl, 'srtp) rtc_env \<Rightarrow> bytes \<Rightarrow> nat \<Rightarrow> ('ssl, 'srtp) rtc_session \<Rightarrow> bool" where
  "authenticated env buffer n s \<longleftrightarrow>
     (\<exists>tid. stun_is_binding_request buffer n = Some (Some tid)) \<and>
     stun_verify_mi (env_alloc env) (env_hmac env) buffer n (bytes_of (local_pwd s)) = Some True \<and>
     stun_username_matches buffer n (bytes_of (local_ufrag s)) = Some True"

definition stun_keeps :: "('ssl, 'srtp) rtc_env \<Rightarrow> bytes \<Rightarrow> nat \<Rightarrow> peer_addr \<Rightarrow> ('ssl, 'srtp) rtc_session \<Rightarrow>
    ('ssl, 'srtp) rtc_session \<Rightarrow> bool" where
  "stun_keeps env buffer n source s s' \<longleftrightarrow> rtc_inv s' \<and> grows s s' \<and> same_cache s s' \<and>
     (same_peer s s' \<or> authenticated env buffer n s \<and> have_remote s' \<and> remote s' = source)"

lemma keeps_stun: "keeps s s' \<Longrightarrow> stun_keeps env buffer n source s s'"
  by (simp add: keeps_def stun_keeps_def)

lemma emit_steady: "core s \<Longrightarrow> steady s (emit (SendTo p a) s)"
  by (simp add: steady_def core_def emit_def)

lemma send_error_steady:
  assumes "core s" "stun_send_error env tid code source s = Some s'"
  shows "steady s s'"
  using assms emit_steady [OF assms(1)] steady_refl [OF assms(1)]
  by (auto simp: stun_send_error_def bind_eq_Some_conv split: if_splits)

text \<open>Adopting the peer of a valid check: the state moves to ICE when it was new.\<close>

definition checked :: "peer_addr \<Rightarrow> ('ssl, 'srtp) rtc_session \<Rightarrow> ('ssl, 'srtp) rtc_session" where
  "checked source s =
     (let s1 = adopt_peer source (count_ok s) in if rstate s1 = RTC_NEW then set_state RTC_ICE s1 else s1)"

lemma checked_keeps:
  assumes "rtc_inv s"
  shows "rtc_inv (checked source s)" "grows s (checked source s)" "same_cache s (checked source s)"
    "have_remote (checked source s)" "rstate (checked source s) \<noteq> RTC_NEW"
    "remote (checked source s) = (if have_remote s \<and> v4_view source = v4_view (remote s) then remote s else source)"
proof -
  have a: "rstate (adopt_peer source (count_ok s)) = rstate s"
    by (simp add: adopt_peer_def count_ok_def)
  have l: "link (rstate s) (have_remote s) (dtls_state (sdtls s))" "core s"
    using assms by (simp_all add: rtc_inv_def)
  show "rtc_inv (checked source s)"
    using l by (cases "rstate s")
      (auto simp: checked_def Let_def adopt_peer_def count_ok_def set_state_def rtc_inv_def core_def link_def)
  show "grows s (checked source s)" "same_cache s (checked source s)"
    using l by (auto simp: checked_def Let_def adopt_peer_def count_ok_def set_state_def grows_def same_cache_def
        state_order)
  show "have_remote (checked source s)" "rstate (checked source s) \<noteq> RTC_NEW"
    "remote (checked source s) = (if have_remote s \<and> v4_view source = v4_view (remote s) then remote s else source)"
    by (auto simp: checked_def Let_def adopt_peer_def count_ok_def set_state_def)
qed

lemma checked_stun:
  assumes "rtc_inv s" "authenticated env buffer n s"
  shows "stun_keeps env buffer n source s (checked source (s\<lparr>stats := x\<rparr>))"
proof -
  let ?s = "s\<lparr>stats := x\<rparr>"
  have "rtc_inv ?s" using assms(1) by (simp add: rtc_inv_def core_def)
  note C = checked_keeps [OF this, of source]
  have "grows s (checked source ?s)" using grows_trans [OF grows_update(5) C(2)] .
  moreover have "same_cache s (checked source ?s)" using same_cache_trans [OF same_update(11) C(3)] .
  moreover have "same_peer s (checked source ?s) \<or> remote (checked source ?s) = source"
    using C(4,6) by (simp add: same_peer_def split: if_splits)
  ultimately show ?thesis using C(1,4) assms(2) by (auto simp: stun_keeps_def)
qed

lemma emit_stun: "stun_keeps env buffer n source s t \<Longrightarrow> stun_keeps env buffer n source s (emit (SendTo p a) t)"
  using grows_trans [OF _ grows_update(1)]
  by (auto simp: stun_keeps_def emit_def rtc_inv_def core_def same_cache_def same_peer_def)

lemma on_stun_keeps:
  assumes "rtc_inv s" "on_stun env buffer n source s = Some s'"
  shows "stun_keeps env buffer n source s s'"
proof -
  let ?s = "s\<lparr>stats := (stats s)\<lparr>stun_rx := stun_rx (stats s) + 1\<rparr>\<rparr>"
  have c: "core s" "steady s ?s" using assms(1) stats_steady by (auto simp: rtc_inv_def)
  have up: "steady s (?s\<lparr>stats := x\<rparr>)" "core (?s\<lparr>stats := x\<rparr>)" for x
    using c steady_trans [OF c(2) stats_steady] by (auto simp: steady_def)
  have I: "rtc_inv ?s" using steady_keeps [OF assms(1) c(2)] by (simp add: keeps_def)
  obtain u r where r: "stun_is_binding_request buffer n = Some r"
    using assms(2) by (auto simp: on_stun_def Let_def bind_eq_Some_conv)
  show ?thesis
  proof (cases r)
    case None
    then have "s' = count_ok ?s \<or> s' = ?s"
      using assms(2) r by (auto simp: on_stun_def Let_def bind_eq_Some_conv split: if_splits)
    then have "steady s s'" using c(2) up by (auto simp: count_ok_def)
    then show ?thesis using steady_keeps [OF assms(1)] keeps_stun by blast
  next
    case (Some tid)
    then obtain mi where mi: "stun_verify_mi (env_alloc env) (env_hmac env) buffer n (bytes_of (local_pwd s)) = Some mi"
      using assms(2) r by (auto simp: on_stun_def Let_def bind_eq_Some_conv)
    have err: "stun_keeps env buffer n source s s'" if "stun_send_error env tid 401 source (count_bad ?s) = Some s'"
    proof -
      have "stun_send_error env tid 401 source (?s\<lparr>stats := (stats ?s)\<lparr>stun_bad_user := stun_bad_user (stats ?s) + 1\<rparr>\<rparr>) = Some s'"
        using that by (simp add: count_bad_def)
      from steady_trans [OF up(1) send_error_steady [OF up(2) this]] show ?thesis
        using steady_keeps [OF assms(1)] keeps_stun by blast
    qed
    show ?thesis
    proof (cases mi)
      case False
      then show ?thesis using assms(2) r Some mi err by (auto simp: on_stun_def Let_def bind_eq_Some_conv)
    next
      case ok: True
      then obtain m where m: "stun_username_matches buffer n (bytes_of (local_ufrag s)) = Some m"
        using assms(2) r Some mi by (auto simp: on_stun_def Let_def bind_eq_Some_conv)
      show ?thesis
      proof (cases m)
        case False
        then show ?thesis using assms(2) r Some mi ok m err by (auto simp: on_stun_def Let_def bind_eq_Some_conv)
      next
        case True
        then have auth: "authenticated env buffer n s" using r Some mi ok m by (simp add: authenticated_def)
        have "s' = checked source ?s \<or> (\<exists>p. s' = emit (SendTo p source) (checked source ?s))"
          using assms(2) r Some mi ok m True
          by (auto simp: on_stun_def checked_def Let_def bind_eq_Some_conv split: if_splits)
        then show ?thesis using checked_stun [OF assms(1) auth, of source] emit_stun by blast
      qed
    qed
  qed
qed


lemma on_udp_keeps:
  assumes "rtc_inv s" "rtc_session_on_udp env buffer n source s = Some s'"
  shows "stun_keeps env buffer n source s s'"
proof (cases "rstate s = RTC_CLOSED")
  case True
  then show ?thesis using assms keeps_stun [OF keeps_refl] by (simp add: rtc_session_on_udp_def)
next
  case False
  let ?s = "s\<lparr>last_rx_ms := now_ms env\<rparr>"
  have I: "rtc_inv ?s" using assms(1) by (simp add: rtc_inv_def core_def)
  have K: "keeps s s'" if "keeps ?s s'" using that by (rule keeps_from) simp_all
  have S: "stun_keeps env buffer n source s s'" if "stun_keeps env buffer n source ?s s'"
    using that by (auto simp: stun_keeps_def grows_def same_cache_def same_peer_def authenticated_def)
  obtain k where k: "rtc_classify_packet buffer n = Some k"
    using assms(2) False by (auto simp: rtc_session_on_udp_def Let_def bind_eq_Some_conv)
  show ?thesis
  proof (cases k)
    case RTC_PKT_STUN
    then have "on_stun env buffer n source ?s = Some s'" using assms(2) False k by (simp add: rtc_session_on_udp_def)
    then show ?thesis using on_stun_keeps [OF I] S by blast
  next
    case RTC_PKT_DTLS
    have D: "keeps ?s (dtls_replay env (dtls_srtp_on_udp (env_lib env) (env_alloc env) g (sdtls ?s)) ?s)"
      if "have_remote s" for g
      using I that False by (intro dtls_op_keeps [OF I _ _ on_udp_ok]) (auto simp: rtc_inv_def core_def)
    then have "keeps ?s s'"
      using assms(2) False k RTC_PKT_DTLS keeps_refl [OF I]
      by (auto simp: rtc_session_on_udp_def Let_def bind_eq_Some_conv split: if_splits)
    then show ?thesis using K keeps_stun by blast
  next
    case RTC_PKT_RTP
    then have "on_rtp env buffer n ?s = Some s'" using assms(2) False k by (simp add: rtc_session_on_udp_def)
    then show ?thesis using on_rtp_keeps [OF I] K keeps_stun by blast
  next
    case RTC_PKT_OTHER
    then have "s' = ?s" using assms(2) False k by (simp add: rtc_session_on_udp_def)
    then show ?thesis using K [of ] keeps_refl [OF I] keeps_stun by blast
  qed
qed

lemma timing_keeps: "rtc_inv t \<Longrightarrow> keeps t (t\<lparr>stats := x, next_sr_ms := n\<rparr>)"
  by (simp add: keeps_def rtc_inv_def core_def grows_def same_peer_def same_cache_def)

lemma report_keeps:
  assumes "rtc_inv s" "send_report env now s = Some s'"
  shows "keeps s s'" "rstate s' = rstate s"
proof -
  have d: "dtls_inv (sdtls s)" using assms(1) by (simp add: rtc_inv_def core_def)
  obtain g r e where g: "dtls_srtp_send_rtcp (env_lib env) g (sdtls s) = (r, e)"
    and s': "\<exists>x. s' = (dtls_replay env e s)\<lparr>stats := x, next_sr_ms := now + RTCP_SR_INTERVAL_MS\<rparr>"
  proof -
    obtain sr g where "rdn sr 0 RTCP_SR_SIZE = Some g" and
      c: "(case dtls_srtp_send_rtcp (env_lib env) g (sdtls s) of
         (None, d) \<Rightarrow> Some ((dtls_replay env d s)\<lparr>next_sr_ms := now + RTCP_SR_INTERVAL_MS\<rparr>)
       | (Some out, d) \<Rightarrow> if length out > RTCP_SR_SIZE + 16 then None
           else let s1 = dtls_replay env d s
             in Some (s1\<lparr>stats := (stats s1)\<lparr>rtcp_sent := rtcp_sent (stats s1) + 1\<rparr>,
                         next_sr_ms := now + RTCP_SR_INTERVAL_MS\<rparr>)) = Some s'"
      using assms(2) by (auto simp: send_report_def Let_def bind_eq_Some_conv)
    obtain r e where "dtls_srtp_send_rtcp (env_lib env) g (sdtls s) = (r, e)" by fastforce
    moreover from this c have "\<exists>x. s' = (dtls_replay env e s)\<lparr>stats := x, next_sr_ms := now + RTCP_SR_INTERVAL_MS\<rparr>"
      by (auto simp: Let_def split: option.splits if_splits intro: exI [of _ "stats (dtls_replay env e s)"])
    ultimately show thesis by (rule that)
  qed
  note K = calm_keeps [OF assms(1) send_rtcp_calm [OF d g]]
  have "rtc_inv (dtls_replay env e s)" using K(1) [of env] by (simp add: keeps_def)
  then show "keeps s s'" using s' keeps_trans [OF K(1) timing_keeps] by blast
  show "rstate s' = rstate s" using s' K(2) by auto
qed

lemma replay_tick_keeps:
  assumes "rtc_inv s" "rstate s \<noteq> RTC_CLOSED"
  shows "keeps s (dtls_replay env (dtls_srtp_tick (env_lib env) (sdtls s)) s)"
proof (cases "have_remote s")
  case True
  then show ?thesis using assms by (intro dtls_op_keeps [OF assms(1) _ _ tick_ok]) (auto simp: rtc_inv_def core_def)
next
  case False
  then have "dtls_state (sdtls s) = DTLS_SRTP_INIT" "dtls_out (sdtls s) = []"
    using assms by (auto simp: rtc_inv_def core_def link_def split: rtc_state.splits)
  then have "dtls_replay env (dtls_srtp_tick (env_lib env) (sdtls s)) s = s"
    by (simp add: dtls_srtp_tick_def dtls_replay_def)
  then show ?thesis using keeps_refl [OF assms(1)] by simp
qed

lemma tick_keeps:
  assumes "rtc_inv s" "rtc_session_tick env now s = Some s'"
  shows "keeps s s'"
proof (cases "rstate s = RTC_CLOSED")
  case True
  then show ?thesis using assms keeps_refl by (simp add: rtc_session_tick_def)
next
  case False
  have c: "core s" using assms(1) by (simp add: rtc_inv_def)
  let ?t = "dtls_replay env (dtls_srtp_tick (env_lib env) (sdtls s)) s"
  have T: "keeps s ?t" "rtc_inv ?t" using replay_tick_keeps [OF assms(1) False] by (auto simp: keeps_def)
  have "s' = rtc_session_close env s \<or> s' = ?t \<or> send_report env now ?t = Some s'"
    using assms(2) False unfolding rtc_session_tick_def Let_def by (simp split: if_split_asm)
  then show ?thesis
    using close_keeps(3) [OF c] assms(1) T(1) keeps_trans [OF T(1) report_keeps(1) [OF T(2)]] by blast
qed


section \<open>Sending video\<close>

text \<open>
  What libsrtp promises and the buffers rely on: protecting adds at most 64 bytes to an RTP packet
  and at most 16 to an RTCP packet.
\<close>

definition small_growth :: "('ssl, 'srtp) dtls_lib \<Rightarrow> bool" where
  "small_growth lib \<longleftrightarrow>
     (\<forall>c p c' out. srtp_protect lib c p = Some (c', out) \<longrightarrow> length out \<le> length p + 64) \<and>
     (\<forall>c p c' out. srtp_protect_rtcp lib c p = Some (c', out) \<longrightarrow> length out \<le> length p + 16)"

definition sink_ok :: "('ssl, 'srtp) rtc_env \<Rightarrow> ('ssl, 'srtp) rtc_session \<Rightarrow>
    (('ssl, 'srtp) rtc_session \<times> bool) option \<Rightarrow> bool" where
  "sink_ok env s0 ctx \<longleftrightarrow> (small_growth (env_lib env) \<longrightarrow> ctx \<noteq> None) \<and>
     (\<forall>s ok. ctx = Some (s, ok) \<longrightarrow> rtc_inv s \<and> rstate s = rstate s0 \<and> grows s0 s \<and> same_peer s0 s \<and>
        srtp_packetizer s = srtp_packetizer s0)"

lemma cache_store:
  assumes "cache_ok data lens" "slot < RETX_CACHE_SIZE" "wr (data ! slot) 0 p = Some cached"
  shows "cache_ok (data[slot := cached]) (lens[slot := of_nat (length p)])"
proof -
  have "length cached = RETX_SLOT" "length p \<le> RETX_SLOT"
    using assms by (auto simp: wr_def cache_ok_def split: if_splits)
  have "unat (of_nat n :: u16) \<le> n" for n
    by (simp add: unat_of_nat)
  then have "unat (of_nat (length p) :: u16) \<le> RETX_SLOT"
    using \<open>length p \<le> RETX_SLOT\<close> le_trans by blast
  then show ?thesis
    using assms(1,2) \<open>length cached = RETX_SLOT\<close> by (auto simp: cache_ok_def nth_list_update)
qed

lemma send_rtp_bound: "dtls_srtp_send_rtp lib pkt d = (Some out, d') \<Longrightarrow> small_growth lib \<Longrightarrow> length out \<le> length pkt + 64"
  by (auto simp: dtls_srtp_send_rtp_def small_growth_def split: if_splits option.splits)

lemma send_rtcp_bound: "dtls_srtp_send_rtcp lib pkt d = (Some out, d') \<Longrightarrow> small_growth lib \<Longrightarrow> length out \<le> length pkt + 16"
  by (auto simp: dtls_srtp_send_rtcp_def small_growth_def split: if_splits option.splits)

lemma sink_step:
  assumes "sink_ok env s0 ctx" "length pkt \<le> RTP_MAX_PACKET"
  shows "sink_ok env s0 (rtp_packet_sink env ctx pkt marker q)"
proof (cases ctx)
  case None
  then show ?thesis using assms by (simp add: sink_ok_def rtp_packet_sink_def)
next
  case (Some a)
  then obtain s ok where c: "ctx = Some (s, ok)" by (cases a) auto
  have I: "rtc_inv s" "rstate s = rstate s0" "grows s0 s" "same_peer s0 s" "srtp_packetizer s = srtp_packetizer s0"
    using assms(1) c by (auto simp: sink_ok_def)
  obtain r e where g: "dtls_srtp_send_rtp (env_lib env) pkt (sdtls s) = (r, e)" by fastforce
  have d: "core s" "dtls_inv (sdtls s)" using I(1) by (simp_all add: rtc_inv_def core_def)
  note C = send_rtp_calm [OF d(2) g]
  let ?t = "dtls_replay env e s"
  have T: "rtc_inv ?t" "rstate ?t = rstate s0" "grows s0 ?t" "same_peer s0 ?t" "same_cache s ?t"
    using calm_keeps [OF I(1) C, of env] I(2) grows_trans [OF I(3)] same_peer_trans [OF I(4)] by (auto simp: keeps_def)
  have P: "srtp_packetizer ?t = srtp_packetizer s0" using I(5) by (simp add: calm_replay [OF d(1) C])
  show ?thesis
  proof (cases r)
    case None
    then show ?thesis using c g I T P by (auto simp: rtp_packet_sink_def sink_ok_def)
  next
    case (Some out)
    let ?slot = "unat q mod RETX_CACHE_SIZE"
    have sl: "?slot < RETX_CACHE_SIZE" by (simp add: RETX_CACHE_SIZE_def)
    have co: "cache_ok (retx_data ?t) (retx_len ?t)" using T(1) by (simp add: rtc_inv_def core_def)
    have le: "\<not> length pkt > RETX_SLOT" using assms(2) by (simp add: RETX_SLOT_def)
    show ?thesis
    proof (cases "wr (retx_data ?t ! ?slot) 0 out")
      case None
      have "length (retx_data ?t ! ?slot) = RETX_SLOT" using co sl by (simp add: cache_ok_def)
      then have "length out > RETX_SLOT" using None by (auto simp: wr_def split: if_splits)
      then have "\<not> small_growth (env_lib env)"
        using send_rtp_bound [of "env_lib env" pkt "sdtls s" out e] g Some assms(2) by (auto simp: RETX_SLOT_def)
      then show ?thesis using c g Some None le by (simp add: rtp_packet_sink_def sink_ok_def Let_def)
    next
      case w: (Some cached)
      note K = cache_store [OF co sl w]
      show ?thesis using c g Some w le T P K
        by (simp add: rtp_packet_sink_def sink_ok_def Let_def rtc_inv_def core_def grows_def same_peer_def)
    qed
  qed
qed

interpretation session_sink: rtp_sink "rtp_packet_sink env" "sink_ok env s0"
  for env :: "('ssl, 'srtp) rtc_env" and s0 :: "('ssl, 'srtp) rtc_session"
  by unfold_locales (rule sink_step)

lemma clear_idr_keeps: "rtc_inv s \<Longrightarrow> keeps s (clear_idr i s)"
  "srtp_packetizer (clear_idr i s) = srtp_packetizer s" "rstate (clear_idr i s) = rstate s"
  by (auto simp: clear_idr_def rtc_inv_def core_def keeps_def grows_def same_peer_def same_cache_def)

lemma sink_start: "rtc_inv s \<Longrightarrow> sink_ok env s (Some (s, True))"
  by (simp add: sink_ok_def same_peer_def)

lemma send_au_cases:
  assumes "rtc_session_send_access_unit env au pts idr s = Some (n, s')"
  shows "s' = clear_idr idr s \<or> (\<exists>p p' t f x. rtp_h264_packetize p au pts (rtp_packet_sink env) (Some (clear_idr idr s, True)) =
      (n, p', Some (t, f)) \<and> s' = t\<lparr>srtp_packetizer := Some p', streaming_announced := x\<rparr>)"
proof (cases "rstate s = RTC_STREAMING \<and> srtp_packetizer s \<noteq> None")
  case False
  then show ?thesis using assms
    by (auto simp: rtc_session_send_access_unit_def Let_def clear_idr_keeps(2,3) split: option.splits if_splits)
next
  case True
  then obtain p where p: "srtp_packetizer s = Some p" by auto
  obtain k p' ctx where r: "rtp_h264_packetize p au pts (rtp_packet_sink env) (Some (clear_idr idr s, True)) = (k, p', ctx)"
    by (metis prod_cases3)
  have "(do { (s1, ok) \<leftarrow> ctx; Some (k, s1\<lparr>srtp_packetizer := Some p',
       streaming_announced := streaming_announced s1 \<or> k > 0\<rparr>) }) = Some (n, s')"
    using assms True p r by (simp add: rtc_session_send_access_unit_def Let_def clear_idr_keeps(2,3))
  then obtain t f where "ctx = Some (t, f)" "k = n" "s' = t\<lparr>srtp_packetizer := Some p',
       streaming_announced := streaming_announced t \<or> k > 0\<rparr>"
    by (cases ctx) auto
  then show ?thesis using r by blast
qed

lemma send_au_keeps:
  assumes "rtc_inv s" "rtc_session_send_access_unit env au pts idr s = Some (n, s')"
  shows "rtc_inv s' \<and> rstate s' = rstate s \<and> grows s s' \<and> same_peer s s'"
proof -
  let ?s = "clear_idr idr s"
  have S: "rtc_inv ?s" "grows s ?s" "same_peer s ?s" "rstate ?s = rstate s"
    using clear_idr_keeps(1) [OF assms(1), of idr] clear_idr_keeps(3) by (auto simp: keeps_def)
  from send_au_cases [OF assms(2)] show ?thesis
  proof (elim disjE exE conjE)
    fix p p' t f x
    assume r: "rtp_h264_packetize p au pts (rtp_packet_sink env) (Some (?s, True)) = (n, p', Some (t, f))"
      and s': "s' = t\<lparr>srtp_packetizer := Some p', streaming_announced := x\<rparr>"
    have "sink_ok env ?s (Some (t, f))"
      using session_sink.packetize_keeps [OF sink_start [OF S(1)], of env p au pts] r by simp
    then have "rtc_inv t" "rstate t = rstate s" "grows s t" "same_peer s t"
      using S grows_trans same_peer_trans by (auto simp: sink_ok_def)
    then show ?thesis unfolding s' by (simp add: rtc_inv_def core_def grows_def same_peer_def)
  qed (use S in simp)
qed

lemma send_au_no_fault:
  assumes "rtc_inv s" "small_growth (env_lib env)"
  shows "rtc_session_send_access_unit env au pts idr s \<noteq> None"
proof (cases "rstate s = RTC_STREAMING \<and> srtp_packetizer s \<noteq> None")
  case False
  then show ?thesis
    by (auto simp: rtc_session_send_access_unit_def Let_def clear_idr_keeps(2,3) split: option.splits)
next
  case True
  then obtain p where p: "srtp_packetizer s = Some p" by auto
  obtain k p' ctx where r: "rtp_h264_packetize p au pts (rtp_packet_sink env) (Some (clear_idr idr s, True)) = (k, p', ctx)"
    by (metis prod_cases3)
  have "rtc_inv (clear_idr idr s)" using clear_idr_keeps(1) [OF assms(1)] by (simp add: keeps_def)
  from session_sink.packetize_keeps [OF sink_start [OF this], of env p au pts] r
  have "sink_ok env (clear_idr idr s) ctx" by simp
  then obtain t f where "ctx = Some (t, f)" using assms(2) by (auto simp: sink_ok_def)
  then show ?thesis using True p r
    by (simp add: rtc_session_send_access_unit_def Let_def clear_idr_keeps(2,3))
qed


section \<open>No access outside a buffer\<close>

lemma wr_ok: "length b = n \<Longrightarrow> i + length bs \<le> n \<Longrightarrow> \<exists>b'. wr b i bs = Some b' \<and> length b' = n"
  by (auto simp: wr_def)

lemma be_length [simp]: "length (be16 v) = 2" "length (be32 w) = 4"
  by (simp_all add: be16_def be32_def)

lemma write_ok: "length b = n \<Longrightarrow> i + 2 \<le> n \<Longrightarrow> \<exists>b'. write_be16 b i v = Some b' \<and> length b' = n"
  "length b = n \<Longrightarrow> i + 4 \<le> n \<Longrightarrow> \<exists>b'. write_be32 b i w = Some b' \<and> length b' = n"
  unfolding write_be16_def write_be32_def by (rule wr_ok; simp)+

text \<open>A step of a builder that succeeds and keeps the length of the buffer.\<close>

lemma bind_ok:
  assumes "\<exists>b'. m = Some b' \<and> length b' = n" "\<And>b'. length b' = n \<Longrightarrow> \<exists>b''. f b' = Some b'' \<and> length b'' = n"
  shows "\<exists>b''. Option.bind m f = Some b'' \<and> length b'' = n"
  using assms by auto

lemma bind_ok':
  assumes "\<exists>b'. m = Some b' \<and> length b' = n" "\<And>b'. length b' = n \<Longrightarrow> \<exists>r. f b' = Some r \<and> P r"
  shows "\<exists>r. Option.bind m f = Some r \<and> P r"
  using assms by auto

lemma rdn_bind_ok: "i + n \<le> length b \<Longrightarrow> (\<And>x. length x = n \<Longrightarrow> \<exists>b'. f x = Some b' \<and> length b' = k) \<Longrightarrow>
    \<exists>b'. Option.bind (rdn b i n) f = Some b' \<and> length b' = k"
  by (simp add: rdn_def)

lemma put_header_ok: "20 \<le> length req \<Longrightarrow> 128 \<le> length out \<Longrightarrow>
    \<exists>b. put_header req out = Some b \<and> length b = length out"
  unfolding put_header_def by (intro bind_ok rdn_bind_ok wr_ok) auto

lemma put_xor_mapped_ok: "20 \<le> length req \<Longrightarrow> 128 \<le> length out \<Longrightarrow>
    \<exists>b. put_xor_mapped req (Inet a p) out = Some b \<and> length b = length out"
  unfolding put_xor_mapped_def Let_def peer_addr.case
  by (intro bind_ok write_ok wr_ok) (auto simp: STUN_HEADER_SIZE_def)

lemma mac_ok: "20 \<le> length j \<Longrightarrow> \<exists>m. rdn (mac_buffer h j) 0 20 = Some m \<and> length m = 20"
  by (cases h) (auto simp: mac_buffer_def rdn_def)

lemma mac_bind_ok: "20 \<le> length j \<Longrightarrow> (\<And>m. length m = 20 \<Longrightarrow> \<exists>b'. f m = Some b' \<and> length b' = k) \<Longrightarrow>
    \<exists>b'. Option.bind (rdn (mac_buffer h j) 0 20) f = Some b' \<and> length b' = k"
  using mac_ok [of j h] by auto

lemma put_integrity_ok: "128 \<le> length out \<Longrightarrow> 20 \<le> length j \<Longrightarrow>
    \<exists>b. put_integrity hmac j pwd 12 out = Some b \<and> length b = length out"
  unfolding put_integrity_def Let_def
  by (intro bind_ok mac_bind_ok rdn_bind_ok write_ok wr_ok) (auto simp: STUN_HEADER_SIZE_def)

lemma put_fingerprint_ok: "128 \<le> length out \<Longrightarrow>
    \<exists>b. put_fingerprint 36 out = Some b \<and> length b = length out"
  unfolding put_fingerprint_def Let_def
  by (intro bind_ok rdn_bind_ok write_ok) (auto simp: STUN_HEADER_SIZE_def)

lemma binding_response_ok:
  assumes "20 \<le> length req" "128 \<le> length out" "20 \<le> length j"
  shows "\<exists>rc b k. stun_build_binding_response hmac j pwd req n (Inet a p) out 128 = Some (rc, b, k) \<and>
    (rc = 0 \<longrightarrow> k \<le> length b)"
proof -
  obtain b0 where 0: "put_header req out = Some b0" "length b0 = length out"
    using put_header_ok assms(1,2) by blast
  obtain b1 where 1: "put_xor_mapped req (Inet a p) b0 = Some b1" "length b1 = length out"
    using put_xor_mapped_ok [of req b0] assms(1,2) 0(2) by auto
  obtain b2 where 2: "put_integrity hmac j pwd 12 b1 = Some b2" "length b2 = length out"
    using put_integrity_ok [of b1 j] assms(2,3) 1(2) by auto
  obtain b3 where 3: "put_fingerprint 36 b2 = Some b3" "length b3 = length out"
    using put_fingerprint_ok [of b2] assms(2) 2(2) by auto
  show ?thesis using 0 1 2 3 assms(2) by (simp add: stun_build_binding_response_def STUN_HEADER_SIZE_def)
qed

lemma error_response_ok:
  assumes "64 \<le> length out" "length tid = 12"
  shows "\<exists>rc b k. stun_build_error_response (Some tid) code out 64 = Some (rc, b, k) \<and> (rc = 0 \<longrightarrow> k \<le> length b)"
proof -
  have "\<exists>r. stun_build_error_response (Some tid) code out 64 = Some r \<and> snd (snd r) \<le> length (fst (snd r))"
    unfolding stun_build_error_response_def Let_def option.case
    by (subst if_not_P, simp, intro bind_ok' [where n = "length out"] wr_ok write_ok)
      (use assms in \<open>auto simp: STUN_HEADER_SIZE_def pad4_def\<close>)
  then show ?thesis by auto
qed

lemma copy_username_ok:
  assumes "n \<le> length buf"
  shows "stun_copy_username buf n (replicate 160 0) 160 \<noteq> None"
proof -
  obtain r where r: "stun_find_attribute buf n 6 = Some r" "\<forall>off l. r = Some (off, l) \<longrightarrow> attr_inside buf n 6 off l"
    using stun_find_safe [OF assms, of 6] by blast
  obtain o0 where o0: "wr (replicate 160 0) 0 [0] = Some o0" "length o0 = 160" by (simp add: wr_def)
  show ?thesis
  proof (cases r)
    case None
    then show ?thesis using r o0 by (simp add: stun_copy_username_def)
  next
    case (Some a)
    then obtain off l where a: "r = Some (off, l)" by (cases a) auto
    define m where "m = (if l \<ge> 160 then 159 else l)"
    have m: "off + m \<le> length buf" "m \<le> 159" using r(2) a assms by (auto simp: attr_inside_def m_def)
    obtain o1 where 1: "wr o0 0 (take m (drop off buf)) = Some o1" "length o1 = 160"
      using wr_ok [of o0 160 0 "take m (drop off buf)"] o0 m by auto
    obtain o2 where 2: "wr o1 m [0] = Some o2" using wr_ok [of o1 160 m "[0]"] 1 m by auto
    have "stun_copy_username buf n (replicate 160 0) 160 = Some (0, o2)"
      using r(1) a o0 m 1 2 by (cases "l \<ge> 160") (simp_all add: stun_copy_username_def Let_def m_def)
    then show ?thesis by simp
  qed
qed


lemma junk_length [simp]: "length (junk env n) = n"
  by (simp add: junk_def)

lemma send_error_ok: "length tid = 12 \<Longrightarrow> stun_send_error env tid code source s \<noteq> None"
  using error_response_ok [of "junk env 64" tid code] by (auto simp: stun_send_error_def)

lemma request_tid: "n \<le> length buf \<Longrightarrow> stun_is_binding_request buf n = Some (Some tid) \<Longrightarrow> length tid = 12 \<and> 20 \<le> n"
  by (auto simp: stun_is_binding_request_def STUN_HEADER_SIZE_def bind_eq_Some_conv rdn_def split: if_splits)

lemma stun_checks_ok:
  assumes "n \<le> length buf"
  shows "stun_is_binding_request buf n \<noteq> None" "stun_username_matches buf n u \<noteq> None"
    "stun_verify_mi ok hmac buf n pwd \<noteq> None"
proof -
  show "stun_is_binding_request buf n \<noteq> None"
    using assms by (auto simp: stun_is_binding_request_def STUN_HEADER_SIZE_def)
  obtain r where "stun_find_attribute buf n 6 = Some r"
    "\<forall>off l. r = Some (off, l) \<longrightarrow> attr_inside buf n 6 off l"
    using stun_find_safe [OF assms, of 6] by blast
  then show "stun_username_matches buf n u \<noteq> None"
    using assms by (auto simp: stun_username_matches_def attr_inside_def split: option.split)
  obtain r where "stun_find_attribute buf n 8 = Some r"
    "\<forall>off l. r = Some (off, l) \<longrightarrow> attr_inside buf n 8 off l"
    using stun_find_safe [OF assms, of 8] by blast
  then show "stun_verify_mi ok hmac buf n pwd \<noteq> None"
    using assms
    by (auto simp: stun_verify_mi_def attr_inside_def Let_def write_be16_def wr_def STUN_HEADER_SIZE_def
        split: option.split)
qed

lemma on_stun_ok:
  assumes "n \<le> length buf" "2 \<le> length buf" "source = Inet ip port"
  shows "on_stun env buf n source s \<noteq> None"
proof -
  let ?s = "s\<lparr>stats := (stats s)\<lparr>stun_rx := stun_rx (stats s) + 1\<rparr>\<rparr>"
  obtain un where un: "stun_copy_username buf n (replicate 160 0) 160 = Some un"
    using copy_username_ok [OF assms(1)] by auto
  obtain r where r: "stun_is_binding_request buf n = Some r" using stun_checks_ok(1) [OF assms(1)] by auto
  show ?thesis
  proof (cases r)
    case None
    have "buf \<noteq> []" using assms(2) by auto
    then show ?thesis using un r None assms(2) by (simp add: on_stun_def Let_def read_be16_def)
  next
    case (Some tid)
    then have t: "length tid = 12" "20 \<le> n" using request_tid [OF assms(1)] r by auto
    obtain mi where mi: "stun_verify_mi (env_alloc env) (env_hmac env) buf n (bytes_of (local_pwd s)) = Some mi"
      using stun_checks_ok(3) [OF assms(1)] by blast
    obtain m where m: "stun_username_matches buf n (bytes_of (local_ufrag s)) = Some m"
      using stun_checks_ok(2) [OF assms(1)] by blast
    obtain rc b k where resp: "stun_build_binding_response (env_hmac env) (junk env 64) p buf n source (junk env 128) 128 =
        Some (rc, b, k)" "rc = 0 \<longrightarrow> k \<le> length b" if "p = bytes_of (local_pwd s)" for p
      using binding_response_ok [of buf "junk env 128" "junk env 64" "env_hmac env" "bytes_of (local_pwd s)" n ip port] t assms
      by auto
    have pw: "local_pwd (if x then set_state st (adopt_peer a (count_ok ?s)) else adopt_peer a (count_ok ?s)) = local_pwd s" for x st a
      by (simp add: set_state_def adopt_peer_def count_ok_def)
    have e: "stun_send_error env tid 401 source (count_bad ?s) \<noteq> None" by (rule send_error_ok [OF t(1)])
    show ?thesis
      using un r Some mi m e resp
      by (cases mi; cases m) (auto simp: on_stun_def Let_def pw)
  qed
qed

lemma on_udp_ok_session:
  assumes "n \<le> length buf" "2 \<le> length buf" "source = Inet ip port"
  shows "rtc_session_on_udp env buf n source s \<noteq> None"
proof -
  have "buf \<noteq> []" using assms(2) by auto
  then obtain k where k: "rtc_classify_packet buf n = Some k" by (cases "n < 1") (auto simp: rtc_classify_packet_def)
  have rtp: "on_rtp env buf n t \<noteq> None" for t
  proof -
    have "dtls_on_rtcp env p (length p) x \<noteq> None" for p x
      using rtcp_walk_safe [of "length p" p no_feedback 0] by (auto simp: on_rtcp_eq rtcp_parse_def no_feedback_def)
    then show ?thesis using assms(1,2) by (auto simp: on_rtp_def Let_def split: prod.split option.split)
  qed
  show ?thesis
    using k rtp on_stun_ok [OF assms] assms(1)
    by (cases k) (auto simp: rtc_session_on_udp_def Let_def)
qed

lemma tick_no_fault:
  assumes "small_growth (env_lib env)"
  shows "rtc_session_tick env now s \<noteq> None"
proof -
  have "send_report env now t \<noteq> None" for t
  proof -
    have "\<exists>r. rtcp_build_sender_report (junk env (RTCP_SR_SIZE + 16)) a b c d e = Some r \<and> length (snd r) = 44" for a b c d e
      unfolding rtcp_build_sender_report_def Let_def RTCP_SR_SIZE_def
      by (intro bind_ok' [where n = 44] wr_ok write_ok) auto
    then obtain len sr where sr: "rtcp_build_sender_report (junk env (RTCP_SR_SIZE + 16))
          (case srtp_packetizer t of None \<Rightarrow> 0 | Some r \<Rightarrow> rtp_ssrc r) (wall_us env)
          (case srtp_packetizer t of None \<Rightarrow> 0 | Some r \<Rightarrow> rtp_last_ts r)
          (case srtp_packetizer t of None \<Rightarrow> 0 | Some r \<Rightarrow> rtp_packets r)
          (case srtp_packetizer t of None \<Rightarrow> 0 | Some r \<Rightarrow> rtp_octets r) = Some (len, sr)" "length sr = 44"
      by fastforce
    let ?p = "take RTCP_SR_SIZE sr"
    obtain r e where e: "dtls_srtp_send_rtcp (env_lib env) ?p (sdtls t) = (r, e)" by fastforce
    have "length out \<le> RTCP_SR_SIZE + 16" if "r = Some out" for out
    proof -
      have "length out \<le> length ?p + 16"
        using e that assms send_rtcp_bound by blast
      then show ?thesis using sr(2) by (simp add: RTCP_SR_SIZE_def)
    qed
    then show ?thesis using sr e by (cases r) (auto simp: send_report_def Let_def RTCP_SR_SIZE_def not_less)
  qed
  then show ?thesis by (auto simp: rtc_session_tick_def Let_def)
qed

end
