(* ===== verification/Rtc_Props.thy ===== *)
theory Rtc_Props
  imports Rtc_Safety
begin

text \<open>
  The life of a session as a step relation (every call the server makes is an event) and the
  properties of the session.
\<close>

section \<open>The life of a session\<close>

datatype rtc_event = EvUdp bytes nat peer_addr | EvTick u64 | EvSend "bytes option" u64 bool | EvIdr | EvClose

fun rtc_step :: "('ssl, 'srtp) rtc_env \<Rightarrow> rtc_event \<Rightarrow> ('ssl, 'srtp) rtc_session \<Rightarrow> ('ssl, 'srtp) rtc_session option" where
  "rtc_step env (EvUdp buf n source) s = rtc_session_on_udp env buf n source s"
| "rtc_step env (EvTick now) s = rtc_session_tick env now s"
| "rtc_step env (EvSend au pts idr) s = map_option snd (rtc_session_send_access_unit env au pts idr s)"
| "rtc_step env EvIdr s = Some (rtc_session_request_idr env s)"
| "rtc_step env EvClose s = Some (rtc_session_close env s)"

inductive rtc_reach :: "('ssl, 'srtp) rtc_session \<Rightarrow> bool" where
  created: "rtc_session_create env ce cfg cap = Some (Inr (s, answer)) \<Longrightarrow> rtc_reach s"
| stepped: "rtc_reach s \<Longrightarrow> rtc_step env e s = Some s' \<Longrightarrow> rtc_reach s'"

lemma fresh_inv:
  assumes "dtls_srtp_session_create r ssl = Some d"
  shows "rtc_inv (fresh_session env ce cfg fd port d)"
proof -
  have d: "dtls_inv d" "dtls_out d = []" "dtls_state d = DTLS_SRTP_INIT"
    using create_dtls_inv [OF assms] assms by (auto simp: dtls_srtp_session_create_def split: option.splits if_splits)
  have "cache_ok (replicate RETX_CACHE_SIZE (junk env RETX_SLOT)) (replicate RETX_CACHE_SIZE 0)"
    by (simp add: cache_ok_def)
  then show ?thesis
    using d by (simp add: rtc_inv_def core_def fresh_session_def link_def dtls_srtp_set_expected_fingerprint_def dtls_inv_def)
qed

lemma create_cases:
  assumes "rtc_session_create env ce cfg cap = Some (Inr (s, answer))"
  shows "\<exists>fd port d n. ce_socket ce = Some (fd, port) \<and> dtls_srtp_session_create (ce_dtls_ready ce) (ce_ssl ce) = Some d \<and>
    s = (fresh_session env ce cfg fd port d)\<lparr>config := cfg\<lparr>extra_ips := []\<rparr>\<rparr> \<and> 0 < n \<and>
    (if extra_ips cfg \<noteq> []
     then sdp_build_answer_multi (cfg_offer cfg) (ce_fingerprint ce) (local_ufrag s) (local_pwd s)
            (advertise_ip cfg) (extra_ips cfg) port (session_ssrc ce) cap
     else sdp_build_answer (cfg_offer cfg) (ce_fingerprint ce) (local_ufrag s) (local_pwd s)
            (advertise_ip cfg) port (session_ssrc ce) cap) = Some (n, answer)"
  using assms by (auto simp: rtc_session_create_def Let_def bind_eq_Some_conv split: if_splits option.splits)

lemma session_create_inv:
  assumes "rtc_session_create env ce cfg cap = Some (Inr (s, answer))"
  shows "rtc_inv s" "rstate s = RTC_NEW" "trace s = []"
proof -
  obtain fd port d n where d: "dtls_srtp_session_create (ce_dtls_ready ce) (ce_ssl ce) = Some d"
    and s: "s = (fresh_session env ce cfg fd port d)\<lparr>config := cfg\<lparr>extra_ips := []\<rparr>\<rparr>"
    using create_cases [OF assms] by blast
  show "rtc_inv s" "rstate s = RTC_NEW" "trace s = []"
    using fresh_inv [OF d, of env ce cfg fd port] s by (simp_all add: rtc_inv_def core_def fresh_session_def)
qed

text \<open>What one step does, whichever it is.\<close>

lemma step_keeps:
  assumes "rtc_inv s" "rtc_step env e s = Some s'"
  shows "rtc_inv s' \<and> grows s s'"
proof (cases e)
  case (EvUdp b n a)
  then show ?thesis using on_udp_keeps [OF assms(1), of env b n a s'] assms(2) by (simp add: stun_keeps_def)
next
  case (EvTick t)
  then show ?thesis using tick_keeps [OF assms(1), of env t s'] assms(2) by (simp add: keeps_def)
next
  case (EvSend au pts idr)
  then obtain n where "rtc_session_send_access_unit env au pts idr s = Some (n, s')" using assms(2) by auto
  then show ?thesis using send_au_keeps [OF assms(1)] by blast
next
  case EvIdr
  have "core s" using assms(1) by (simp add: rtc_inv_def)
  then show ?thesis using EvIdr steady_keeps [OF assms(1) idr_steady] assms(2) by (auto simp: keeps_def)
next
  case EvClose
  have "core s" using assms(1) by (simp add: rtc_inv_def)
  then show ?thesis using EvClose close_keeps(3) assms by (auto simp: keeps_def)
qed

lemma reach_inv: "rtc_reach s \<Longrightarrow> rtc_inv s"
proof (induction rule: rtc_reach.induct)
  case (created env ce cfg cap s answer)
  then show ?case by (rule session_create_inv)
next
  case (stepped s env e s')
  then show ?case using step_keeps by blast
qed

section \<open>Credentials\<close>

lemma alphabet_clean: "\<forall>i \<in> set [0..<52]. credential_alphabet ! i \<notin> {CHR 0x0D, CHR 0x0A, CHR 0x00}"
  by code_simp

lemma credentials_shape:
  "length (fst (generate_credentials raw)) = 8" "length (snd (generate_credentials raw)) = 24"
  "clean (fst (generate_credentials raw))" "clean (snd (generate_credentials raw))"
proof -
  have "credential_alphabet ! (k mod 52) \<notin> {CHR 0x0D, CHR 0x0A, CHR 0x00}" for k
    using alphabet_clean by (auto simp: atLeast0LessThan)
  then show "clean (fst (generate_credentials raw))" "clean (snd (generate_credentials raw))"
    by (auto simp: generate_credentials_def clean_def)
qed (simp_all add: generate_credentials_def)

text \<open>What creating a session needs: resources, an offer that was parsed, printable addresses.\<close>

definition can_create :: "'ssl rtc_create_env \<Rightarrow> rtc_config \<Rightarrow> nat \<Rightarrow> bool" where
  "can_create ce cfg cap \<longleftrightarrow> fst (ce_allocs ce) \<and> fst (snd (ce_allocs ce)) \<and> ce_socket ce \<noteq> None \<and>
     ce_dtls_ready ce \<and> ce_ssl ce \<noteq> None \<and> SDP_BUFFER \<le> cap \<and>
     (\<forall>x \<in> set (extra_ips cfg). length x \<le> 63) \<and> length (extra_ips cfg) < 1000 \<and>
     fields_fit (cfg_offer cfg) (ce_fingerprint ce) [] [] (advertise_ip cfg)"

lemma create_succeeds:
  assumes "can_create ce cfg cap" "ce_socket ce = Some (fd, port)"
    "dtls_srtp_session_create (ce_dtls_ready ce) (ce_ssl ce) = Some d"
  shows "\<exists>answer. rtc_session_create env ce cfg cap =
    Some (Inr ((fresh_session env ce cfg fd port d)\<lparr>config := cfg\<lparr>extra_ips := []\<rparr>\<rparr>, answer))"
proof -
  let ?c = "generate_credentials (ce_raw ce)"
  have r: "fst (ce_allocs ce)" "fst (snd (ce_allocs ce))"
    using assms(1) by (auto simp: can_create_def)
  have f: "fields_fit (cfg_offer cfg) (ce_fingerprint ce) (fst ?c) (snd ?c) (advertise_ip cfg)"
    using assms(1) credentials_shape by (auto simp: can_create_def fields_fit_def)
  have c: "\<forall>x \<in> set (extra_ips cfg). length x \<le> 63" "length (extra_ips cfg) < 1000" "SDP_BUFFER \<le> cap"
    using assms(1) by (auto simp: can_create_def)
  obtain n t where 1: "sdp_build_answer_multi (cfg_offer cfg) (ce_fingerprint ce) (fst ?c) (snd ?c)
      (advertise_ip cfg) (extra_ips cfg) port (session_ssrc ce) cap = Some (n, t)" "0 < n"
    using answer_in_buffer [OF f c(1,2), of port "session_ssrc ce" cap] c(3) by auto
  obtain n' t' where 2: "sdp_build_answer (cfg_offer cfg) (ce_fingerprint ce) (fst ?c) (snd ?c)
      (advertise_ip cfg) port (session_ssrc ce) cap = Some (n', t')" "0 < n'"
    using answer_in_buffer [OF f, of "[]" port "session_ssrc ce" cap] c(3) by (auto simp: sdp_build_answer_def)
  have "local_ufrag (fresh_session env ce cfg fd port d) = fst ?c" "local_pwd (fresh_session env ce cfg fd port d) = snd ?c"
    by (simp_all add: fresh_session_def)
  then show ?thesis using r assms(2,3) 1 2 by (simp add: rtc_session_create_def Let_def)
qed

section \<open>A session to evaluate with\<close>

definition demo_env :: "u64 \<Rightarrow> (nat, bytes) rtc_env" where
  "demo_env t = \<lparr>env_lib = demo_lib, env_hmac = demo_hmac, env_alloc = True, env_junk = (\<lambda>_. 0), now_ms = t, wall_us = 0\<rparr>"

definition demo_config :: rtc_config where
  "demo_config = \<lparr>cfg_id = 1, cfg_udp_port = 0, advertise_ip = ''10.0.0.1'', extra_ips = [],
     cfg_offer = demo_offer, has_on_idr_request = True, has_on_closed = True\<rparr>"

definition demo_create :: "nat rtc_create_env" where
  "demo_create = \<lparr>ce_allocs = (True, True, True), ce_raw = map of_nat [0..<32], ce_socket = Some (5, 7000),
     ce_dtls_ready = True, ce_ssl = Some 0, ce_ssrc = 9, ce_fingerprint = ''sha-256 AA''\<rparr>"

lemma demo_can_create: "can_create demo_create demo_config 9000"
  by (simp add: can_create_def demo_create_def demo_config_def SDP_BUFFER_def fields_fit_def demo_offer_def no_offer_def)

definition demo_engine :: "(nat, bytes) dtls_srtp" where
  "demo_engine = the (dtls_srtp_session_create True (Some 0))"

definition demo_session :: "(nat, bytes) rtc_session" where
  "demo_session = (fresh_session (demo_env 100) demo_create demo_config 5 7000 demo_engine)\<lparr>config := demo_config\<lparr>extra_ips := []\<rparr>\<rparr>"

lemma demo_created: "\<exists>answer. rtc_session_create (demo_env 100) demo_create demo_config 9000 = Some (Inr (demo_session, answer))"
  unfolding demo_session_def
  by (rule create_succeeds [OF demo_can_create])
    (simp_all add: demo_create_def demo_engine_def dtls_srtp_session_create_def)

lemma demo_reach: "rtc_reach demo_session"
  using demo_created created by blast

text \<open>The same session after its first valid check.\<close>

definition demo_checked :: "(nat, bytes) rtc_session" where
  "demo_checked = checked (Inet 7 8) demo_session"

lemma demo_inv: "rtc_inv demo_session" "rtc_inv demo_checked"
proof -
  show "rtc_inv demo_session" by (rule reach_inv [OF demo_reach])
  then show "rtc_inv demo_checked" unfolding demo_checked_def by (rule checked_keeps)
qed

section \<open>Properties\<close>

text \<open>
  C13. In every session the server can ever hold, whatever arrived on its socket and however OpenSSL
  behaved, the session's state and its DTLS engine agree: new and ICE with an engine that has not
  started, DTLS with one that is shaking hands, streaming with one that is connected, closed with one
  that is closed; a peer address is known from ICE on. Video can only flow with keys derived and the
  peer's certificate checked, and the server has been told of the closing exactly once when the
  session is closed, and not before.
\<close>

theorem session_invariant:
  assumes "rtc_reach s"
  shows "link (rstate s) (have_remote s) (dtls_state (sdtls s)) \<and>
    (rstate s = RTC_STREAMING \<longrightarrow> srtp_ready (sdtls s) \<and> fingerprint_ok (sdtls s)) \<and>
    count_list (trace s) OnClosed = (if rstate s = RTC_CLOSED \<and> has_on_closed (config s) then 1 else 0)"
  using reach_inv [OF assms] by (auto simp: rtc_inv_def core_def link_def dtls_inv_def)

lemma session_invariant_witness:
  "link (rstate demo_session) (have_remote demo_session) (dtls_state (sdtls demo_session)) \<and>
   count_list (trace demo_session) OnClosed =
     (if rstate demo_session = RTC_CLOSED \<and> has_on_closed (config demo_session) then 1 else 0)"
  using session_invariant [OF demo_reach] by blast

text \<open>
  States are only passed forward, in the order new, ICE, DTLS, streaming, closed, and nothing
  that was sent or reported is taken back; a closed session stays closed and does not send another
  datagram, whatever is done with it.
\<close>

lemma session_moves_forward:
  assumes "rtc_reach s" "rtc_step env e s = Some s'"
  shows "rstate s \<le> rstate s' \<and> (\<exists>outs. trace s' = trace s @ outs \<and>
    (rstate s = RTC_CLOSED \<longrightarrow> rstate s' = RTC_CLOSED \<and> set outs \<subseteq> {IdrRequest}))"
proof -
  have g: "grows s s'" using step_keeps [OF reach_inv [OF assms(1)] assms(2)] by blast
  have c: "\<exists>outs. trace s' = trace s @ outs \<and> rstate s' = RTC_CLOSED \<and> set outs \<subseteq> {IdrRequest}"
    if "rstate s = RTC_CLOSED"
    using assms(2) that
    by (cases e) (auto simp: rtc_session_on_udp_def rtc_session_tick_def rtc_session_send_access_unit_def Let_def
        clear_idr_def rtc_session_request_idr_def emit_def split: if_splits)
  show ?thesis
  proof (cases "rstate s = RTC_CLOSED")
    case True
    then show ?thesis using c g by (auto simp: grows_def)
  next
    case False
    then show ?thesis using g by (auto simp: grows_def)
  qed
qed

lemma session_moves_forward_witness:
  "rstate demo_session \<le> rstate (rtc_session_close (demo_env 200) demo_session) \<and>
   (\<exists>outs. trace (rtc_session_close (demo_env 200) demo_session) = trace demo_session @ outs \<and>
     (rstate demo_session = RTC_CLOSED \<longrightarrow> rstate (rtc_session_close (demo_env 200) demo_session) = RTC_CLOSED \<and>
       set outs \<subseteq> {IdrRequest}))"
  by (rule session_moves_forward [OF demo_reach, where e = EvClose and env = "demo_env 200"]) simp

text \<open>
  C14. Nobody takes the peer's place without the session's password: a datagram changes the address
  media is sent to only when it is a binding request whose MESSAGE-INTEGRITY verifies under the
  session's password and whose USERNAME names the session, and then the new address is the one this
  datagram came from. Anything else leaves the peer as it was.
\<close>

theorem peer_needs_integrity:
  assumes "rtc_reach s" "rtc_session_on_udp env buf n source s = Some s'"
  shows "remote s' = remote s \<and> have_remote s' = have_remote s \<or>
    (\<exists>tid. stun_is_binding_request buf n = Some (Some tid)) \<and>
    stun_verify_mi (env_alloc env) (env_hmac env) buf n (bytes_of (local_pwd s)) = Some True \<and>
    stun_username_matches buf n (bytes_of (local_ufrag s)) = Some True \<and>
    have_remote s' \<and> remote s' = source"
  using on_udp_keeps [OF reach_inv [OF assms(1)] assms(2)]
  by (auto simp: stun_keeps_def same_peer_def authenticated_def)

lemma demo_udp: "rtc_session_on_udp (demo_env 200) [255, 0] 2 (Inet 1 2) demo_session = Some (demo_session\<lparr>last_rx_ms := 200\<rparr>)"
proof -
  have "rtc_classify_packet [255, 0] 2 = Some RTC_PKT_RTP" by code_simp
  moreover have "rstate demo_session = RTC_NEW" by (simp add: demo_session_def fresh_session_def)
  ultimately show ?thesis
    by (simp add: rtc_session_on_udp_def on_rtp_def demo_env_def)
qed

lemma peer_needs_integrity_witness:
  "remote (demo_session\<lparr>last_rx_ms := 200\<rparr>) = remote demo_session \<and>
     have_remote (demo_session\<lparr>last_rx_ms := 200\<rparr>) = have_remote demo_session \<or>
   (\<exists>tid. stun_is_binding_request [255, 0] 2 = Some (Some tid)) \<and>
   stun_verify_mi (env_alloc (demo_env 200)) (env_hmac (demo_env 200)) [255, 0] 2 (bytes_of (local_pwd demo_session)) = Some True \<and>
   stun_username_matches [255, 0] 2 (bytes_of (local_ufrag demo_session)) = Some True \<and>
   have_remote (demo_session\<lparr>last_rx_ms := 200\<rparr>) \<and> remote (demo_session\<lparr>last_rx_ms := 200\<rparr>) = Inet 1 2"
  by (rule peer_needs_integrity [OF demo_reach demo_udp])




text \<open>
  A viewer that went away does not keep its session: a tick later than 15 seconds after the last
  datagram, or later than 30 seconds after the creation while the handshake has not begun, closes the
  session, and the server is told.
\<close>

lemma deadlines_close:
  assumes "rtc_reach s" "rstate s \<noteq> RTC_CLOSED"
    "age_since now (last_rx_ms s) > 15000 \<or> rstate s = RTC_ICE \<and> age_since now (created_ms s) > 30000"
  shows "\<exists>s'. rtc_session_tick env now s = Some s' \<and> rstate s' = RTC_CLOSED \<and>
    (has_on_closed (config s) \<longrightarrow> OnClosed \<in> set (trace s'))"
proof -
  have c: "core s" using reach_inv [OF assms(1)] by (simp add: rtc_inv_def)
  have t: "rtc_session_tick env now s = Some (rtc_session_close env s)"
    using assms(2,3) by (auto simp: rtc_session_tick_def SESSION_IDLE_TIMEOUT_MS_def SESSION_DTLS_WATCHDOG_MS_def)
  have o: "dtls_out (sdtls s) = []" using c by (simp add: core_def)
  show ?thesis using t close_keeps(2) [OF c] close_eq [OF assms(2) o] by (simp add: Let_def)
qed

lemma deadlines_close_witness:
  "\<exists>s'. rtc_session_tick (demo_env 16000) 16000 demo_session = Some s' \<and> rstate s' = RTC_CLOSED \<and>
    (has_on_closed (config demo_session) \<longrightarrow> OnClosed \<in> set (trace s'))"
  by (rule deadlines_close [OF demo_reach])
    (simp_all add: demo_session_def fresh_session_def age_since_def demo_env_def)

text \<open>
  Only the idle timer can remove a session that never sees a valid check, and any datagram resets
  it: one that is not even STUN, DTLS or RTP, from an address nobody knows, is ignored except that
  the session counts as alive from then on.
\<close>

lemma garbage_keeps_session_alive:
  assumes "rstate s \<noteq> RTC_CLOSED" "rtc_classify_packet buf n = Some RTC_PKT_OTHER"
  shows "rtc_session_on_udp env buf n source s = Some (s\<lparr>last_rx_ms := now_ms env\<rparr>)"
  using assms by (simp add: rtc_session_on_udp_def)

lemma garbage_keeps_session_alive_witness:
  "rtc_session_on_udp (demo_env 9) [70] 1 (Inet 1 2) demo_session = Some (demo_session\<lparr>last_rx_ms := now_ms (demo_env 9)\<rparr>)"
proof (rule garbage_keeps_session_alive)
  show "rstate demo_session \<noteq> RTC_CLOSED" by (simp add: demo_session_def fresh_session_def)
  show "rtc_classify_packet [70] 1 = Some RTC_PKT_OTHER" by code_simp
qed

section \<open>Keyframe requests\<close>

text \<open>Requests at the clock readings of a list, one after the other.\<close>

definition request_at :: "('ssl, 'srtp) rtc_env \<Rightarrow> u64 list \<Rightarrow> ('ssl, 'srtp) rtc_session \<Rightarrow> ('ssl, 'srtp) rtc_session" where
  "request_at env ts s = fold (\<lambda>t. rtc_session_request_idr (env\<lparr>now_ms := t\<rparr>)) ts s"

definition idrs :: "('ssl, 'srtp) rtc_session \<Rightarrow> nat" where
  "idrs s = count_list (trace s) IdrRequest"

lemma request_idr_cases:
  obtains (ignored) "rtc_session_request_idr env s = s" "\<not> has_on_idr_request (config s)"
  | (limited) "rtc_session_request_idr env s = s" "last_idr_ms s \<noteq> 0" "now_ms env - last_idr_ms s < 400"
  | (granted) "idrs (rtc_session_request_idr env s) = idrs s + 1"
      "last_idr_ms (rtc_session_request_idr env s) = now_ms env"
      "has_on_idr_request (config (rtc_session_request_idr env s)) = has_on_idr_request (config s)"
proof (cases "has_on_idr_request (config s)")
  case False
  then show thesis by (intro ignored) (simp_all add: rtc_session_request_idr_def)
next
  case True
  show thesis
  proof (cases "last_idr_ms s \<noteq> 0 \<and> now_ms env - last_idr_ms s < 400")
    case True
    then show thesis by (intro limited) (simp_all add: rtc_session_request_idr_def IDR_MIN_INTERVAL_MS_def)
  next
    case False
    then have "rtc_session_request_idr env s = emit IdrRequest (s\<lparr>last_idr_ms := now_ms env, idr_requested := True\<rparr>)"
      unfolding rtc_session_request_idr_def IDR_MIN_INTERVAL_MS_def if_not_P [OF False] using True by simp
    then show thesis by (intro granted) (simp_all add: idrs_def emit_def)
  qed
qed

lemma request_ignored: "\<not> has_on_idr_request (config s) \<Longrightarrow> request_at env ts s = s"
  by (induction ts) (simp_all add: request_at_def rtc_session_request_idr_def)

lemma request_at_Cons: "request_at env (t # ts) s = request_at env ts (rtc_session_request_idr (env\<lparr>now_ms := t\<rparr>) s)"
  by (simp add: request_at_def)

lemma request_bound_from:
  assumes "last_idr_ms s \<noteq> 0" "sorted (map unat (last_idr_ms s # ts))"
  shows "idrs (request_at env ts s) \<le> idrs s + (unat (last (last_idr_ms s # ts)) - unat (last_idr_ms s)) div 400"
  using assms
proof (induction ts arbitrary: s)
  case Nil
  then show ?case by (simp add: request_at_def)
next
  case (Cons t ts)
  let ?L = "last_idr_ms s" and ?e = "last (t # ts)"
  have le: "unat ?L \<le> unat t" using Cons.prems(2) by simp
  then have sub: "unat (t - ?L) = unat t - unat ?L" by (simp add: unat_sub word_le_nat_alt)
  have srt: "sorted (map unat (t # ts))" "sorted (map unat (?L # ts))" using Cons.prems(2) by auto
  have e: "unat t \<le> unat ?e" using srt(1) by (cases ts rule: rev_cases) (auto simp: sorted_append)
  have pos: "t \<noteq> 0" using Cons.prems(1) le by (metis le_zero_eq unat_0 unat_eq_zero)
  show ?case
  proof (cases rule: request_idr_cases [of "env\<lparr>now_ms := t\<rparr>" s])
    case ignored
    then show ?thesis using request_ignored [OF ignored(2)] by (simp add: request_at_Cons)
  next
    case limited
    have "unat (last (?L # ts)) \<le> unat ?e" using le by (cases ts) auto
    then have "(unat (last (?L # ts)) - unat ?L) div 400 \<le> (unat ?e - unat ?L) div 400"
      by (intro div_le_mono) simp
    then show ?thesis using Cons.IH [OF Cons.prems(1) srt(2)] limited(1) by (simp add: request_at_Cons)
  next
    case granted
    let ?s = "rtc_session_request_idr (env\<lparr>now_ms := t\<rparr>) s"
    have L: "last_idr_ms ?s = t" using granted(2) by simp
    have IH: "idrs (request_at env ts ?s) \<le> idrs ?s + (unat ?e - unat t) div 400"
      using Cons.IH [of ?s] L pos srt(1) by simp
    show ?thesis
    proof (cases "unat t - unat ?L < 400 \<and> has_on_idr_request (config s)")
      case True
      have "t - ?L < 400" using True sub by (simp add: word_less_nat_alt)
      then have "?s = s" using Cons.prems(1) True
        by (simp add: rtc_session_request_idr_def IDR_MIN_INTERVAL_MS_def)
      then show ?thesis using granted(1) by simp
    next
      case False
      have "has_on_idr_request (config s)"
        using granted(1) by (cases "has_on_idr_request (config s)") (auto simp: rtc_session_request_idr_def)
      then have "400 \<le> unat t - unat ?L" using False by simp
      then have "(unat ?e - unat t) div 400 + 1 \<le> (unat ?e - unat ?L) div 400"
        using e by (simp add: le_div_geq)  
      then show ?thesis using IH granted(1) by (simp add: request_at_Cons)
    qed
  qed
qed

text \<open>
  Keyframe requests are rate limited: however often viewers, losses and reconnects ask, between two
  requests passed to the encoder at least 400 ms go by, so over a span of clock readings at most one
  request more than the number of whole 400 ms intervals in it reaches the encoder.
\<close>

lemma idr_rate_limited:
  assumes "ts \<noteq> []" "sorted (map unat ts)" "\<forall>t \<in> set ts. t \<noteq> 0" "last_idr_ms s \<le> hd ts"
  shows "idrs (request_at env ts s) \<le> idrs s + 1 + (unat (last ts) - unat (hd ts)) div 400"
proof -
  obtain t us where ts: "ts = t # us" using assms(1) by (cases ts) auto
  let ?s = "rtc_session_request_idr (env\<lparr>now_ms := t\<rparr>) s"
  show ?thesis
  proof (cases rule: request_idr_cases [of "env\<lparr>now_ms := t\<rparr>" s])
    case ignored
    then show ?thesis using request_ignored [OF ignored(2)] by (simp add: ts request_at_Cons)
  next
    case granted
    have "last_idr_ms ?s = t" using granted(2) by simp
    then show ?thesis using request_bound_from [of ?s us env] granted(1) assms(2,3) by (simp add: ts request_at_Cons)
  next
    case limited
    let ?L = "last_idr_ms s"
    have d: "unat t - unat ?L < 400" "unat ?L \<le> unat t"
      using limited(3) assms(4) ts by (simp_all add: word_less_nat_alt unat_sub word_le_nat_alt)
    have srt: "sorted (map unat (?L # us))" using assms(2) d(2) ts by auto
    have e: "unat t \<le> unat (last ts)" using assms(2) ts by (cases us rule: rev_cases) (auto simp: sorted_append)
    have "unat (last (?L # us)) \<le> unat (last ts)" using d(2) ts by (cases us) auto
    then have "(unat (last (?L # us)) - unat ?L) div 400 \<le> (unat (last ts) - unat t + 400) div 400"
      using d e by (intro div_le_mono) simp
    then show ?thesis using request_bound_from [OF limited(2) srt, of env] limited(1) ts
      by (simp add: request_at_Cons)
  qed
qed

lemma idr_rate_limited_witness:
  "idrs (request_at (demo_env 0) [100, 200, 300, 600] demo_session) \<le>
   idrs demo_session + 1 + (unat (last [100, 200, 300, 600 :: u64]) - unat (hd [100, 200, 300, 600 :: u64])) div 400"
  by (rule idr_rate_limited) (simp_all add: demo_session_def fresh_session_def)


section \<open>Retransmission\<close>

lemma sink_stores:
  assumes "rtc_inv s" "length pkt \<le> RTP_MAX_PACKET" "dtls_srtp_send_rtp (env_lib env) pkt (sdtls s) = (Some out, d)"
    "length out \<le> RETX_SLOT"
  shows "\<exists>s'. rtp_packet_sink env (Some (s, ok)) pkt m q = Some (s', ok) \<and>
    udp_fd s' = udp_fd s \<and> have_remote s' = have_remote s \<and> remote s' = remote s \<and>
    trace s' = trace s @ to_peer s [out] \<and> unat (retx_len s' ! (unat q mod 512)) = length out \<and>
    take (length out) (retx_data s' ! (unat q mod 512)) = out"
proof -
  have d: "core s" "dtls_inv (sdtls s)" using assms(1) by (simp_all add: rtc_inv_def core_def)
  note C = send_rtp_calm [OF d(2) assms(3)]
  note R = calm_replay [OF d(1) C, of env]
  let ?k = "unat q mod RETX_CACHE_SIZE"
  have k: "?k < RETX_CACHE_SIZE" by (simp add: RETX_CACHE_SIZE_def)
  have co: "length (retx_data s) = RETX_CACHE_SIZE" "length (retx_len s) = RETX_CACHE_SIZE"
    "length (retx_data s ! ?k) = RETX_SLOT"
    using d(1) k by (simp_all add: core_def cache_ok_def)
  obtain cached where w: "wr (retx_data s ! ?k) 0 out = Some cached" using assms(4) co(3) by (auto simp: wr_def)
  have t: "take (length out) cached = out" using wr_read_same [OF w] by simp
  have "length out < 2 ^ 16" using assms(4) by (simp add: RETX_SLOT_def RTP_MAX_PACKET_def)
  then have u: "unat (of_nat (length out) :: u16) = length out" by (simp add: unat_of_nat)
  have "\<not> length pkt > RETX_SLOT" using assms(2) by (simp add: RETX_SLOT_def)
  then show ?thesis
    using assms(3) R w t u k co by (simp add: rtp_packet_sink_def Let_def RETX_CACHE_SIZE_def)
qed

text \<open>
  A lost packet is sent again exactly as it was: after a packet with sequence number \<open>q\<close> went out,
  a negative acknowledgement for \<open>q\<close> sends the same protected bytes to the peer once more. The slot is
  the number modulo 512 and nothing else is checked, so the same bytes also answer a request for any
  other packet that shares the slot, one 512 numbers later or earlier, which is a different packet
  than the viewer asked for.
\<close>

lemma nack_resends_slot:
  assumes "rtc_inv s" "length pkt \<le> RTP_MAX_PACKET" "have_remote s" "0 \<le> udp_fd s"
    "dtls_srtp_send_rtp (env_lib env) pkt (sdtls s) = (Some out, d)" "length out \<le> RTP_MAX_PACKET + 64" "out \<noteq> []"
    "unat q' mod 512 = unat q mod 512"
  shows "\<exists>s'. rtp_packet_sink env (Some (s, ok)) pkt m q = Some (s', ok) \<and>
    trace s' = trace s @ [SendTo out (remote s)] \<and>
    trace (retransmit s' q') = trace s' @ [SendTo out (remote s)]"
proof -
  have b: "length out \<le> RETX_SLOT" using assms(6) by (simp add: RETX_SLOT_def)
  obtain s' where s': "rtp_packet_sink env (Some (s, ok)) pkt m q = Some (s', ok)" "udp_fd s' = udp_fd s"
    "have_remote s' = have_remote s" "remote s' = remote s" "trace s' = trace s @ to_peer s [out]"
    "unat (retx_len s' ! (unat q mod 512)) = length out" "take (length out) (retx_data s' ! (unat q mod 512)) = out"
    using sink_stores [OF assms(1,2,5) b] by blast
  have "retx_len s' ! (unat q mod 512) \<noteq> 0" using s'(6) assms(7) by auto
  then have "retx_len s' ! (unat q mod 512) > 0" by (simp add: word_neq_0_conv)
  then have "trace (retransmit s' q') = trace s' @ [SendTo out (remote s)]"
    using s' assms(3,4,8) by (simp add: retransmit_def Let_def RETX_CACHE_SIZE_def dtls_send_udp_eq to_peer_def)
  then show ?thesis using s' assms(3,4) by (auto simp: to_peer_def)
qed

definition demo_ready :: "(nat, bytes) dtls_srtp" where
  "demo_ready = (dtls_srtp_on_udp demo_lib True [22, 1] demo_dtls)\<lparr>dtls_out := []\<rparr>"

definition demo_streaming :: "(nat, bytes) rtc_session" where
  "demo_streaming = demo_checked\<lparr>rstate := RTC_STREAMING, sdtls := demo_ready\<rparr>"

lemma demo_streaming:
  "rtc_inv demo_streaming" "have_remote demo_streaming" "udp_fd demo_streaming = 5" "sdtls demo_streaming = demo_ready"
proof -
  have st: "dtls_state demo_ready = DTLS_SRTP_CONNECTED" by code_simp
  have "dtls_inv demo_ready"
    using on_udp_ok [OF demo_dtls, of demo_lib True "[22, 1]"] by (simp add: demo_ready_def op_ok_def)
  moreover have "rstate demo_checked \<noteq> RTC_CLOSED"
    by (simp add: demo_checked_def checked_def Let_def adopt_peer_def count_ok_def set_state_def demo_session_def fresh_session_def)
  ultimately show "rtc_inv demo_streaming" "have_remote demo_streaming" "sdtls demo_streaming = demo_ready"
    using demo_inv(2) checked_keeps(4) [OF demo_inv(1), of "Inet 7 8"] st
    by (auto simp: demo_streaming_def rtc_inv_def core_def link_def demo_ready_def demo_checked_def)
  show "udp_fd demo_streaming = 5"
    by (simp add: demo_streaming_def demo_checked_def checked_def Let_def adopt_peer_def count_ok_def set_state_def
        demo_session_def fresh_session_def)
qed

lemma demo_send: "dtls_srtp_send_rtp (env_lib (demo_env 1)) [1, 2, 3] (sdtls demo_streaming) =
    (Some [1, 2, 3, 0], snd (dtls_srtp_send_rtp demo_lib [1, 2, 3] demo_ready))"
proof -
  have "fst (dtls_srtp_send_rtp demo_lib [1, 2, 3] demo_ready) = Some [1, 2, 3, 0]" by code_simp
  then show ?thesis by (simp add: demo_env_def demo_streaming(4) prod_eq_iff)
qed

lemma nack_resends_slot_witness:
  "\<exists>s'. rtp_packet_sink (demo_env 1) (Some (demo_streaming, True)) [1, 2, 3] False 5 = Some (s', True) \<and>
    trace s' = trace demo_streaming @ [SendTo [1, 2, 3, 0] (remote demo_streaming)] \<and>
    trace (retransmit s' 517) = trace s' @ [SendTo [1, 2, 3, 0] (remote demo_streaming)]"
  by (rule nack_resends_slot [OF demo_streaming(1) _ demo_streaming(2) _ demo_send])
    (simp_all add: demo_streaming(3) RTP_MAX_PACKET_def)

section \<open>Creation\<close>

text \<open>
  Creating a session succeeds whenever its resources are there and the browser's offer was
  accepted, and the answer the server returns is the session's own: reading it back gives the ICE
  credentials the session will check, the fingerprint of the local certificate and the payload type
  of the offer. The session starts new, without a peer, expecting the offer's fingerprint.
\<close>

lemma create_answers:
  assumes "can_create ce cfg cap" "extra_ips cfg = []"
    "plain_fields (cfg_offer cfg) (ce_fingerprint ce) [] [] (advertise_ip cfg)"
  shows "\<exists>s answer. rtc_session_create env ce cfg cap = Some (Inr (s, answer)) \<and>
    sdp_parse_offer answer = (0, answer_offer (cfg_offer cfg) (ce_fingerprint ce) (local_ufrag s) (local_pwd s)) \<and>
    length (local_ufrag s) = 8 \<and> length (local_pwd s) = 24 \<and> rstate s = RTC_NEW \<and> \<not> have_remote s \<and>
    expected_fingerprint (sdtls s) = take 127 (offer_fingerprint (cfg_offer cfg))"
proof -
  obtain fd port ssl where r: "ce_socket ce = Some (fd, port)" "ce_ssl ce = Some ssl" "ce_dtls_ready ce"
    using assms(1) by (auto simp: can_create_def)
  then obtain d :: "('a, 'b) dtls_srtp" where d: "dtls_srtp_session_create (ce_dtls_ready ce) (ce_ssl ce) = Some d"
    by (simp add: dtls_srtp_session_create_def)
  let ?s = "(fresh_session env ce cfg fd port d)\<lparr>config := cfg\<lparr>extra_ips := []\<rparr>\<rparr>"
  obtain answer where a: "rtc_session_create env ce cfg cap = Some (Inr (?s, answer))"
    using create_succeeds [OF assms(1) r(1) d] by blast
  obtain n port' where n: "sdp_build_answer (cfg_offer cfg) (ce_fingerprint ce) (local_ufrag ?s) (local_pwd ?s)
            (advertise_ip cfg) port' (session_ssrc ce) cap = Some (n, answer)"
    using create_cases [OF a] assms(2) by auto
  have f: "fields_fit (cfg_offer cfg) (ce_fingerprint ce) (local_ufrag ?s) (local_pwd ?s) (advertise_ip cfg)"
    "plain_fields (cfg_offer cfg) (ce_fingerprint ce) (local_ufrag ?s) (local_pwd ?s) (advertise_ip cfg)"
    "SDP_BUFFER \<le> cap"
    using assms credentials_shape by (auto simp: can_create_def fields_fit_def plain_fields_def fresh_session_def)
  have "sdp_parse_offer answer = (0, answer_offer (cfg_offer cfg) (ce_fingerprint ce) (local_ufrag ?s) (local_pwd ?s))"
    using answer_roundtrip [OF f, of port' "session_ssrc ce"] n by auto
  then show ?thesis
    using a credentials_shape(1,2) by (auto simp: fresh_session_def dtls_srtp_set_expected_fingerprint_def)
qed

lemma create_answers_witness:
  "\<exists>s answer. rtc_session_create (demo_env 100) demo_create demo_config 9000 = Some (Inr (s, answer)) \<and>
    sdp_parse_offer answer = (0, answer_offer (cfg_offer demo_config) (ce_fingerprint demo_create) (local_ufrag s) (local_pwd s)) \<and>
    length (local_ufrag s) = 8 \<and> length (local_pwd s) = 24 \<and> rstate s = RTC_NEW \<and> \<not> have_remote s \<and>
    expected_fingerprint (sdtls s) = take 127 (offer_fingerprint (cfg_offer demo_config))"
  by (rule create_answers [OF demo_can_create])
    (simp_all add: demo_config_def demo_create_def plain_fields_def demo_offer_def no_offer_def)

end
