(* ===== verification/App_Config.thy ===== *)
theory App_Config
  imports Prelude Cstring
begin

text \<open>
  The command line of \<^verbatim>\<open>src/app/app_config.c\<close>. The same source is compiled three times, once per
  transport; \<open>build\<close> says which preprocessor symbols are set (\<^verbatim>\<open>USE_JANUS_TRANSPORT\<close>,
  \<^verbatim>\<open>USE_LIBPEER\<close> or none). The arguments that are still to be read are a list, so the index of the
  loop and its bound are the list itself. \<^verbatim>\<open>exit\<close> is a result of its own. Messages are left out.
\<close>

section \<open>State\<close>

datatype build = Native | Libpeer | Janus

record app_config =
  ac_device :: string
  ac_use_test_source :: bool
  ac_width :: u32
  ac_height :: u32
  ac_fps :: u32
  ac_listen :: string
  ac_http_port :: u16
  ac_udp_base_port :: u16
  ac_bitrate_kbps :: u32
  ac_keyframe_seconds :: u32
  ac_webrtc_backend :: string
  ac_janus_host :: string
  ac_janus_rtp_port :: u16
  ac_janus_rtcp_port :: u16
  ac_janus_rtcp_listen :: u16
  ac_encoder :: string
  ac_verbose :: bool

definition backend_name :: "build \<Rightarrow> string" where
  "backend_name b = (case b of Native \<Rightarrow> ''native'' | Libpeer \<Rightarrow> ''libpeer'' | Janus \<Rightarrow> ''janus'')"

text \<open>The Janus fields are only set in the Janus build; otherwise they keep what the memory held.\<close>

definition app_config_defaults :: "build \<Rightarrow> app_config \<Rightarrow> app_config" where
  "app_config_defaults b c0 =
     (let c = c0\<lparr>ac_device := ''/dev/video0'', ac_use_test_source := False, ac_width := 640, ac_height := 480,
            ac_fps := 30, ac_listen := ''0.0.0.0'', ac_http_port := (if b = Libpeer then 8000 else 8080),
            ac_udp_base_port := 50000, ac_webrtc_backend := backend_name b, ac_bitrate_kbps := 2500,
            ac_keyframe_seconds := 2, ac_encoder := ''auto'', ac_verbose := False\<rparr>
      in if b = Janus
         then c\<lparr>ac_janus_host := ''127.0.0.1'', ac_janus_rtp_port := 5004, ac_janus_rtcp_port := 5005,
                ac_janus_rtcp_listen := 5006\<rparr>
         else c)"

section \<open>One option\<close>

text \<open>\<open>Matched\<close> carries the value and the arguments behind it; \<open>Missing\<close> is \<^verbatim>\<open>exit(2)\<close>.\<close>

datatype matched = NoMatch | Missing | Matched string "string list"

definition match_opt :: "string \<Rightarrow> string option \<Rightarrow> string \<Rightarrow> string list \<Rightarrow> matched" where
  "match_opt arg short_name long_name rest =
     (let head = takeWhile (\<lambda>c. c \<noteq> CHR 0x3D) arg; eq = drop (length head) arg in
      if length head \<ge> 64 then NoMatch
      else if short_name \<noteq> Some head \<and> long_name \<noteq> head then NoMatch
      else if eq \<noteq> [] then Matched (tl eq) rest
      else case rest of [] \<Rightarrow> Missing | v # vs \<Rightarrow> Matched v vs)"

definition parse_long :: "string \<Rightarrow> int option" where
  "parse_long value =
     (case strtol 10 value of
        None \<Rightarrow> if value \<noteq> [] then None else Some 0
      | Some (result, end) \<Rightarrow> if end \<noteq> [] \<or> result < 0 then None else Some result)"

datatype opt = Device | Width | Height | Fps | Listen | Http_Port | Udp_Port | Webrtc | Janus_Host
  | Janus_Rtp_Port | Janus_Rtcp_Port | Janus_Rtcp_Listen | Bitrate | Keyframe | Encoder

text \<open>The options in the order the loop tries them.\<close>

definition options :: "(string option \<times> string \<times> opt) list" where
  "options =
     [(Some ''-d'', ''--device'', Device), (Some ''-W'', ''--width'', Width), (Some ''-H'', ''--height'', Height),
      (Some ''-F'', ''--fps'', Fps), (Some ''-l'', ''--listen'', Listen), (Some ''-p'', ''--http-port'', Http_Port),
      (Some ''-u'', ''--udp-port'', Udp_Port), (None, ''--webrtc'', Webrtc), (None, ''--janus-host'', Janus_Host),
      (None, ''--janus-rtp-port'', Janus_Rtp_Port), (None, ''--janus-rtcp-port'', Janus_Rtcp_Port),
      (None, ''--janus-rtcp-listen'', Janus_Rtcp_Listen), (Some ''-b'', ''--bitrate'', Bitrate),
      (Some ''-K'', ''--keyframe'', Keyframe), (Some ''-e'', ''--encoder'', Encoder)]"

text \<open>\<open>Return\<close> is a return of the parser with its code, \<open>Exit\<close> the end of the process.\<close>

datatype parse_result = Return int app_config | Exit int

definition numeric :: "string \<Rightarrow> (int \<Rightarrow> app_config) \<Rightarrow> parse_result + app_config" where
  "numeric value f = (case parse_long value of None \<Rightarrow> Inl (Exit 2) | Some n \<Rightarrow> Inr (f n))"

definition apply_opt :: "opt \<Rightarrow> string \<Rightarrow> app_config \<Rightarrow> parse_result + app_config" where
  "apply_opt opt v c =
     (case opt of
        Device \<Rightarrow> Inr (c\<lparr>ac_device := v\<rparr>)
      | Width \<Rightarrow> numeric v (\<lambda>n. c\<lparr>ac_width := of_int n\<rparr>)
      | Height \<Rightarrow> numeric v (\<lambda>n. c\<lparr>ac_height := of_int n\<rparr>)
      | Fps \<Rightarrow> numeric v (\<lambda>n. c\<lparr>ac_fps := of_int n\<rparr>)
      | Listen \<Rightarrow> Inr (c\<lparr>ac_listen := v\<rparr>)
      | Http_Port \<Rightarrow> numeric v (\<lambda>n. c\<lparr>ac_http_port := of_int n\<rparr>)
      | Udp_Port \<Rightarrow> numeric v (\<lambda>n. c\<lparr>ac_udp_base_port := of_int n\<rparr>)
      | Webrtc \<Rightarrow> if v \<noteq> ''native'' \<and> v \<noteq> ''libpeer'' \<and> v \<noteq> ''janus'' then Inl (Return (- 1) c)
                  else Inr (c\<lparr>ac_webrtc_backend := v\<rparr>)
      | Janus_Host \<Rightarrow> Inr (c\<lparr>ac_janus_host := v\<rparr>)
      | Janus_Rtp_Port \<Rightarrow> numeric v (\<lambda>n. c\<lparr>ac_janus_rtp_port := of_int n\<rparr>)
      | Janus_Rtcp_Port \<Rightarrow> numeric v (\<lambda>n. c\<lparr>ac_janus_rtcp_port := of_int n\<rparr>)
      | Janus_Rtcp_Listen \<Rightarrow> numeric v (\<lambda>n. c\<lparr>ac_janus_rtcp_listen := of_int n\<rparr>)
      | Bitrate \<Rightarrow> numeric v (\<lambda>n. c\<lparr>ac_bitrate_kbps := of_int n\<rparr>)
      | Keyframe \<Rightarrow> numeric v (\<lambda>n. c\<lparr>ac_keyframe_seconds := of_int n\<rparr>)
      | Encoder \<Rightarrow> Inr (c\<lparr>ac_encoder := v\<rparr>))"

fun find_opt :: "(string option \<times> string \<times> opt) list \<Rightarrow> string \<Rightarrow> string list \<Rightarrow> (opt \<times> matched) option" where
  "find_opt [] arg rest = None"
| "find_opt ((short_name, long_name, opt) # os) arg rest =
     (case match_opt arg short_name long_name rest of
        NoMatch \<Rightarrow> find_opt os arg rest
      | r \<Rightarrow> Some (opt, r))"

section \<open>The command line\<close>

lemma match_opt_shorter: "match_opt arg s l rest = Matched v rest' \<Longrightarrow> length rest' \<le> length rest"
  by (auto simp: match_opt_def Let_def split: if_splits list.splits)

lemma find_opt_shorter: "find_opt os arg rest = Some (opt, Matched v rest') \<Longrightarrow> length rest' \<le> length rest"
  by (induction os arg rest rule: find_opt.induct) (auto split: matched.splits dest: match_opt_shorter)

function parse_args :: "app_config \<Rightarrow> string list \<Rightarrow> parse_result + app_config" where
  "parse_args c [] = Inr c"
| "parse_args c (arg # rest) =
     (if arg = ''-h'' \<or> arg = ''--help'' then Inl (Return 1 c)
      else if arg = ''-V'' \<or> arg = ''--version'' then Inl (Exit 0)
      else if arg = ''-t'' \<or> arg = ''--test'' then parse_args (c\<lparr>ac_use_test_source := True\<rparr>) rest
      else if arg = ''-v'' \<or> arg = ''--verbose'' then parse_args (c\<lparr>ac_verbose := True\<rparr>) rest
      else
        case find_opt options arg rest of
          Some (opt, Matched value rest') \<Rightarrow>
            (case apply_opt opt value c of Inl r \<Rightarrow> Inl r | Inr c' \<Rightarrow> parse_args c' rest')
        | Some (opt, _) \<Rightarrow> Inl (Exit 2)
        | None \<Rightarrow> Inl (Return (- 1) c))"
  by pat_completeness auto
termination
  by (relation "measure (\<lambda>(c, args). length args)") (auto dest: find_opt_shorter)

definition out_of_range :: "app_config \<Rightarrow> bool" where
  "out_of_range c \<longleftrightarrow> ac_width c < 2 \<or> ac_width c > 4096 \<or> ac_height c < 2 \<or> ac_height c > 4096 \<or>
     ac_fps c = 0 \<or> ac_fps c > 120 \<or> ac_http_port c = 0 \<or> ac_udp_base_port c = 0 \<or>
     ac_bitrate_kbps c = 0 \<or> ac_keyframe_seconds c = 0"

text \<open>\<open>argv\<close> includes the name of the program.\<close>

definition app_config_parse :: "build \<Rightarrow> app_config \<Rightarrow> string list \<Rightarrow> parse_result" where
  "app_config_parse b c0 argv =
     (case parse_args c0 (tl argv) of
        Inl r \<Rightarrow> r
      | Inr c \<Rightarrow>
          if out_of_range c then Return (- 1) c
          else if ac_webrtc_backend c \<noteq> backend_name b then Return (- 1) c
          else if b = Janus \<and> (ac_janus_rtp_port c = 0 \<or> ac_janus_rtcp_port c = 0 \<or> ac_janus_rtcp_listen c = 0)
          then Return (- 1) c
          else Return 0 c)"

section \<open>Lemmas\<close>

lemma apply_opt_stops: "apply_opt opt v c \<noteq> Inl (Return 0 c')"
  by (cases opt) (auto simp: apply_opt_def numeric_def split: if_splits option.splits)

lemma parse_args_stops: "parse_args c args \<noteq> Inl (Return 0 c')"
proof (induction c args rule: parse_args.induct)
  case (2 c arg rest)
  then show ?case
    using apply_opt_stops [of _ _ c c'] 
    by (simp split: option.split matched.split sum.split) (metis (no_types, lifting))
qed simp

text \<open>An argument with its value behind an equals sign.\<close>

definition assign :: "string \<Rightarrow> string \<Rightarrow> string" where
  "assign name value = name @ CHR 0x3D # value"

lemma match_assign:
  assumes "CHR 0x3D \<notin> set name" "length name < 64"
  shows "match_opt (assign name value) s l rest =
    (if s \<noteq> Some name \<and> l \<noteq> name then NoMatch else Matched value rest)"
proof -
  have "takeWhile (\<lambda>c. c \<noteq> CHR 0x3D) (assign name value) = name"
    using assms(1) by (induction name) (auto simp: assign_def)
  moreover have "drop (length name) (assign name value) = CHR 0x3D # value" by (simp add: assign_def)
  ultimately show ?thesis using assms(2) by (simp add: match_opt_def Let_def)
qed

lemma find_assign:
  assumes "CHR 0x3D \<notin> set name" "length name < 64"
  shows "find_opt os (assign name value) rest =
    map_option (\<lambda>(_, _, opt). (opt, Matched value rest))
      (find (\<lambda>(s, l, opt). s = Some name \<or> l = name) os)"
  by (induction os) (auto simp: match_assign [OF assms] split: if_splits)

lemma parse_assign:
  assumes "find (\<lambda>(s, l, opt). s = Some name \<or> l = name) options = Some (s, l, opt)"
    "CHR 0x3D \<notin> set name" "length name < 64"
  shows "parse_args c (assign name value # rest) =
    (case apply_opt opt value c of Inl r \<Rightarrow> Inl r | Inr c' \<Rightarrow> parse_args c' rest)"
proof -
  have "CHR 0x3D \<in> set (assign name value)" by (simp add: assign_def)
  then have "(assign name value = arg) = False" if "CHR 0x3D \<notin> set arg" for arg using that by auto
  then show ?thesis using assms find_assign [OF assms(2,3), of options "value" rest] by simp
qed

lemma parse_long_dec [simp]: "int n \<le> LONG_MAX \<Longrightarrow> parse_long (dec_nat n) = Some (int n)"
  using strtol_dec_nat [of "[]" n] by (simp add: parse_long_def)

lemma numeric_dec: "int n \<le> LONG_MAX \<Longrightarrow> numeric (dec_nat n) f = Inr (f (int n))"
  by (simp add: numeric_def)

text \<open>The command line that asks for a configuration, one argument per field.\<close>

definition num :: "'a :: len word \<Rightarrow> string" where
  "num w = dec_nat (unat w)"

definition command_line :: "app_config \<Rightarrow> string list" where
  "command_line c =
     [assign ''--device'' (ac_device c), assign ''-W'' (num (ac_width c)), assign ''--height'' (num (ac_height c)),
      assign ''--fps'' (num (ac_fps c)), assign ''--listen'' (ac_listen c), assign ''-p'' (num (ac_http_port c)),
      assign ''--udp-port'' (num (ac_udp_base_port c)), assign ''--webrtc'' (ac_webrtc_backend c),
      assign ''--janus-host'' (ac_janus_host c), assign ''--janus-rtp-port'' (num (ac_janus_rtp_port c)),
      assign ''--janus-rtcp-port'' (num (ac_janus_rtcp_port c)),
      assign ''--janus-rtcp-listen'' (num (ac_janus_rtcp_listen c)), assign ''-b'' (num (ac_bitrate_kbps c)),
      assign ''--keyframe'' (num (ac_keyframe_seconds c)), assign ''-e'' (ac_encoder c)] @
     (if ac_use_test_source c then [''--test''] else []) @ (if ac_verbose c then [''-v''] else [])"

lemma num_32: "numeric (num (w :: u32)) f = Inr (f (uint w))"
proof -
  have "uint w < 2 ^ LENGTH(32)" by (rule unsigned_less)
  then have "int (unat w) \<le> LONG_MAX" by (simp add: LONG_MAX_def)
  from numeric_dec [OF this] show ?thesis by (simp add: num_def)
qed

lemma num_16: "numeric (num (w :: u16)) f = Inr (f (uint w))"
proof -
  have "uint w < 2 ^ LENGTH(16)" by (rule unsigned_less)
  then have "int (unat w) \<le> LONG_MAX" by (simp add: LONG_MAX_def)
  from numeric_dec [OF this] show ?thesis by (simp add: num_def)
qed

lemma parse_flags: "parse_args c0 ((if t then [''--test''] else []) @ (if v then [''-v''] else [])) =
    Inr (c0\<lparr>ac_use_test_source := t \<or> ac_use_test_source c0, ac_verbose := v \<or> ac_verbose c0\<rparr>)"
  by (cases t; cases v) simp_all

lemma parse_command_line:
  assumes "ac_webrtc_backend c \<in> {''native'', ''libpeer'', ''janus''}"
    "\<not> ac_use_test_source c0" "\<not> ac_verbose c0"
  shows "parse_args c0 (command_line c) = Inr c"
proof -
  have w: "\<not> (ac_webrtc_backend c \<noteq> ''native'' \<and> ac_webrtc_backend c \<noteq> ''libpeer'' \<and> ac_webrtc_backend c \<noteq> ''janus'')"
    using assms(1) by blast
  show ?thesis
    using assms(2,3) unfolding command_line_def append_Cons append_Nil
    by (subst parse_assign, (simp add: options_def; fail), (simp; fail), (simp; fail),
        simp only: apply_opt_def opt.case num_32 num_16 sum.case if_not_P [OF w])+
      (simp add: parse_flags)
qed

lemma accepted_range:
  assumes "app_config_parse b c0 argv = Return 0 c"
  shows "\<not> out_of_range c \<and> ac_webrtc_backend c = backend_name b \<and>
    \<not> (b = Janus \<and> (ac_janus_rtp_port c = 0 \<or> ac_janus_rtcp_port c = 0 \<or> ac_janus_rtcp_listen c = 0))"
proof -
  obtain c1 where p: "parse_args c0 (tl argv) = Inr c1"
    using assms parse_args_stops [of c0 "tl argv"] by (auto simp: app_config_parse_def split: sum.splits)
  then show ?thesis using assms by (auto simp: app_config_parse_def split: if_splits)
qed

section \<open>Properties\<close>

text \<open>
  C26. A configuration the parser accepts is well formed, whatever the command line was: dimensions,
  frame rate, ports, bit rate and keyframe interval are in range and the transport is the one this
  binary was built for (with nonzero ports in the Janus build).
\<close>

theorem accepted_config_in_range:
  assumes "app_config_parse b c0 argv = Return 0 c"
  shows "2 \<le> unat (ac_width c) \<and> unat (ac_width c) \<le> 4096 \<and> 2 \<le> unat (ac_height c) \<and> unat (ac_height c) \<le> 4096 \<and>
    1 \<le> unat (ac_fps c) \<and> unat (ac_fps c) \<le> 120 \<and> 1 \<le> unat (ac_http_port c) \<and> 1 \<le> unat (ac_udp_base_port c) \<and>
    1 \<le> unat (ac_bitrate_kbps c) \<and> 1 \<le> unat (ac_keyframe_seconds c) \<and> ac_webrtc_backend c = backend_name b \<and>
    (b = Janus \<longrightarrow> ac_janus_rtp_port c \<noteq> 0 \<and> ac_janus_rtcp_port c \<noteq> 0 \<and> ac_janus_rtcp_listen c \<noteq> 0)"
proof -
  have "1 \<le> unat w" if "w \<noteq> 0" for w :: u16 using that by (simp add: Suc_le_eq unat_gt_0)
  moreover have "1 \<le> unat w" if "w \<noteq> 0" for w :: u32 using that by (simp add: Suc_le_eq unat_gt_0)
  ultimately show ?thesis
    using accepted_range [OF assms] by (simp add: out_of_range_def word_less_nat_alt not_less)
qed

definition demo_app_config :: app_config where
  "demo_app_config = \<lparr>ac_device = ''/dev/video2'', ac_use_test_source = True, ac_width = 1280, ac_height = 720,
     ac_fps = 25, ac_listen = ''10.0.0.1'', ac_http_port = 8081, ac_udp_base_port = 40000, ac_bitrate_kbps = 4000,
     ac_keyframe_seconds = 1, ac_webrtc_backend = ''native'', ac_janus_host = ''localhost'', ac_janus_rtp_port = 1,
     ac_janus_rtcp_port = 2, ac_janus_rtcp_listen = 3, ac_encoder = ''sw'', ac_verbose = False\<rparr>"

lemma demo_parsed: "app_config_parse Native demo_app_config [''camstream'', ''-W'', ''640'', ''--height=480'', ''-t''] =
    Return 0 (demo_app_config\<lparr>ac_width := 640, ac_height := 480\<rparr>)"
  by code_simp

lemma accepted_config_in_range_witness:
  "2 \<le> unat (640 :: u32) \<and> ac_webrtc_backend (demo_app_config\<lparr>ac_width := 640, ac_height := 480\<rparr>) = backend_name Native"
  using accepted_config_in_range [OF demo_parsed] by simp

text \<open>
  C27. Every configuration can be asked for: the command line written from a configuration, one option
  per field in its short or long form, is read back as exactly this configuration, and accepted when
  it is in range and for this build, whatever the fields held before (the two flags can only be
  switched on).
\<close>

theorem command_line_read_back:
  assumes "\<not> out_of_range c" "ac_webrtc_backend c = backend_name b"
    "b = Janus \<Longrightarrow> ac_janus_rtp_port c \<noteq> 0 \<and> ac_janus_rtcp_port c \<noteq> 0 \<and> ac_janus_rtcp_listen c \<noteq> 0"
    "\<not> ac_use_test_source c0" "\<not> ac_verbose c0"
  shows "app_config_parse b c0 (program # command_line c) = Return 0 c"
proof -
  have "ac_webrtc_backend c \<in> {''native'', ''libpeer'', ''janus''}"
    using assms(2) by (cases b) (simp_all add: backend_name_def)
  then show ?thesis using parse_command_line [of c c0] assms by (auto simp: app_config_parse_def)
qed

lemma command_line_read_back_witness:
  "app_config_parse Native (app_config_defaults Native demo_app_config) (''camstream'' # command_line demo_app_config) =
   Return 0 demo_app_config"
  by (rule command_line_read_back)
    (simp_all add: demo_app_config_def app_config_defaults_def out_of_range_def backend_name_def)

text \<open>
  A number is reduced to the width of its field before it is checked: a port above 65535 is not
  refused but taken modulo 65536, so a server asked to listen on port 65536 + p listens on p.
\<close>

lemma port_wraps_before_check:
  assumes "n < 9223372036854775808" "n mod 65536 \<noteq> 0" "app_config_parse b c [program] = Return 0 c"
  shows "app_config_parse b c [program, assign ''--http-port'' (dec_nat n)] =
    Return 0 (c\<lparr>ac_http_port := of_nat (n mod 65536)\<rparr>)"
proof -
  have w: "(of_nat n :: u16) = of_nat (n mod 65536)" by (simp add: word_unat_eq_iff unat_of_nat)
  have "unat (of_nat n :: u16) = n mod 65536" by (simp add: unat_of_nat)
  then have nz: "(of_nat n :: u16) \<noteq> 0" using assms(2) by auto
  have "int n \<le> LONG_MAX" using assms(1) by (simp add: LONG_MAX_def)
  then have "parse_args c (assign ''--http-port'' (dec_nat n) # []) = Inr (c\<lparr>ac_http_port := of_nat n\<rparr>)"
    by (subst parse_assign, simp add: options_def) (simp_all add: apply_opt_def numeric_dec)
  then show ?thesis using assms(3) nz w
    by (auto simp: app_config_parse_def out_of_range_def split: if_splits)
qed

lemma port_wraps_before_check_witness:
  "app_config_parse Native demo_app_config [''camstream'', assign ''--http-port'' (dec_nat 73616)] =
    Return 0 (demo_app_config\<lparr>ac_http_port := of_nat (73616 mod 65536)\<rparr>)"
  by (rule port_wraps_before_check)
    (simp_all add: demo_app_config_def app_config_parse_def out_of_range_def backend_name_def)

end
