(* ===== verification/Json.thy ===== *)
theory Json
  imports Cstring "HOL-Library.Monad_Syntax"
begin

text \<open>
  The JSON helpers of \<^verbatim>\<open>src/app/app_server.c\<close>. The text they read is \<open>mem\<close>, the memory from the start
  of the request buffer to its end: the body, its terminating zero and whatever the buffer holds
  behind it. Reading past the end of \<open>mem\<close> is the result \<open>None\<close>.
\<close>

abbreviation NUL :: char where "NUL \<equiv> CHR 0x00"
abbreviation QUOTE :: char where "QUOTE \<equiv> CHR 0x22"
abbreviation BACKSLASH :: char where "BACKSLASH \<equiv> CHR 0x5C"

text \<open>The C string at the start of some memory.\<close>

definition c_string :: "string \<Rightarrow> string" where
  "c_string mem = takeWhile (\<lambda>c. c \<noteq> NUL) mem"

section \<open>Library functions\<close>

fun strstr_at :: "string \<Rightarrow> string \<Rightarrow> nat option" where
  "strstr_at [] needle = (if needle = [] then Some 0 else None)"
| "strstr_at (c # cs) needle =
     (if strncmp_eq (c # cs) needle then Some 0 else map_option Suc (strstr_at cs needle))"

section \<open>Reading a field\<close>

definition escape_char :: "char \<Rightarrow> char" where
  "escape_char e =
     (if e = CHR ''n'' then CHR 0x0A else if e = CHR ''r'' then CHR 0x0D else if e = CHR ''t'' then CHR 0x09
      else if e = CHR ''b'' then CHR 0x08 else if e = CHR ''f'' then CHR 0x0C else e)"

text \<open>The hexadecimal digits of a \<^verbatim>\<open>\u\<close> escape: at most four characters, not past a zero.\<close>

fun take_hex :: "nat \<Rightarrow> string \<Rightarrow> (string \<times> string) option" where
  "take_hex 0 mem = Some ([], mem)"
| "take_hex (Suc n) [] = None"
| "take_hex (Suc n) (c # cs) =
     (if c = NUL then Some ([], c # cs) else map_option (\<lambda>(h, r). (c # h, r)) (take_hex n cs))"

definition hex_char :: "string \<Rightarrow> char" where
  "hex_char hex =
     (let code = (case strtol 16 hex of None \<Rightarrow> 0 | Some (v, _) \<Rightarrow> v)
      in if code < 128 then char_of (nat (code mod 256)) else CHR ''?'')"

lemma take_hex_shorter: "take_hex n mem = Some (h, r) \<Longrightarrow> length r \<le> length mem"
  by (induction n mem arbitrary: h r rule: take_hex.induct) (fastforce split: if_splits)+

text \<open>The copy loop: \<open>room\<close> is what is left of the output, without its terminating zero.\<close>

function json_copy :: "string \<Rightarrow> nat \<Rightarrow> string \<Rightarrow> (string \<times> string) option" where
  "json_copy mem room out =
     (case mem of
        [] \<Rightarrow> None
      | c # cs \<Rightarrow>
          if c = NUL \<or> c = QUOTE \<or> room = 0 then Some (out, mem)
          else if c = BACKSLASH then
            (case cs of
               [] \<Rightarrow> None
             | e # es \<Rightarrow>
                 if e = CHR ''u'' then
                   (case take_hex 4 es of
                      None \<Rightarrow> None
                    | Some (hex, rest) \<Rightarrow> json_copy rest (room - 1) (out @ [hex_char hex]))
                 else json_copy es (room - 1) (out @ [escape_char e]))
          else json_copy cs (room - 1) (out @ [c]))"
  by pat_completeness auto
termination
  by (relation "measure (\<lambda>(mem, room, out). length mem)") (auto dest: take_hex_shorter)

declare json_copy.simps [simp del]

text \<open>The memory behind the field's name, its spaces and its colon.\<close>

definition json_field :: "string \<Rightarrow> string \<Rightarrow> string option" where
  "json_field mem field =
     (let pattern = take 63 ([QUOTE] @ field @ [QUOTE]) in
      map_option (\<lambda>i. dropWhile (\<lambda>c. c = CHR 0x20 \<or> c = CHR 0x3A) (drop (i + length pattern) mem))
        (strstr_at (c_string mem) pattern))"

text \<open>\<open>Some None\<close> is the return value -1.\<close>

definition json_get_string :: "string \<Rightarrow> string \<Rightarrow> nat \<Rightarrow> string option option" where
  "json_get_string mem field out_size =
     (case json_field mem field of
        None \<Rightarrow> Some None
      | Some [] \<Rightarrow> None
      | Some (c # cs) \<Rightarrow>
          if c \<noteq> QUOTE then Some None
          else
            case json_copy cs (out_size - 1) [] of
              None \<Rightarrow> None
            | Some (out, rest) \<Rightarrow> Some (if hd rest = QUOTE then Some out else None))"

definition json_get_int :: "string \<Rightarrow> string \<Rightarrow> int option" where
  "json_get_int mem field =
     (case json_field mem field of
        None \<Rightarrow> None
      | Some rest \<Rightarrow> map_option fst (strtol 10 (c_string rest)))"

section \<open>Writing a field\<close>

definition json_escape :: "char \<Rightarrow> string" where
  "json_escape c =
     (if c = QUOTE then [BACKSLASH, QUOTE]
      else if c = BACKSLASH then [BACKSLASH, BACKSLASH]
      else if c = CHR 0x0D then [BACKSLASH, CHR ''r'']
      else if c = CHR 0x0A then [BACKSLASH, CHR ''n'']
      else if c = CHR 0x09 then [BACKSLASH, CHR ''t'']
      else [c])"

fun json_escape_append :: "string \<Rightarrow> nat \<Rightarrow> string" where
  "json_escape_append [] room = []"
| "json_escape_append (c # cs) room =
     (if length (json_escape c) + 1 > room then []
      else json_escape c @ json_escape_append cs (room - length (json_escape c)))"

section \<open>Lemmas\<close>

definition json_text :: "string \<Rightarrow> string" where
  "json_text s = concat (map json_escape s)"

lemma json_escape_length: "length (json_escape c) \<le> 2" "0 < length (json_escape c)"
  by (simp_all add: json_escape_def)

lemma json_text_length: "length (json_text s) \<le> 2 * length s"
proof (induction s)
  case (Cons c s)
  then show ?case using json_escape_length(1) [of c] by (simp add: json_text_def)
qed (simp add: json_text_def)

lemma escape_append_fits: "length (json_text s) < room \<Longrightarrow> json_escape_append s room = json_text s"
proof (induction s arbitrary: room)
  case (Cons c s)
  then show ?case by (simp add: json_text_def)
qed (simp add: json_text_def)

lemma json_copy_plain:
  "c \<noteq> NUL \<Longrightarrow> c \<noteq> QUOTE \<Longrightarrow> c \<noteq> BACKSLASH \<Longrightarrow> 0 < room \<Longrightarrow>
   json_copy (c # cs) room out = json_copy cs (room - 1) (out @ [c])"
  by (subst json_copy.simps) simp

lemma json_copy_escape:
  "e \<noteq> CHR ''u'' \<Longrightarrow> 0 < room \<Longrightarrow>
   json_copy (BACKSLASH # e # es) room out = json_copy es (room - 1) (out @ [escape_char e])"
  by (subst json_copy.simps) simp

lemma json_copy_stop: "json_copy (QUOTE # cs) room out = Some (out, QUOTE # cs)"
  by (subst json_copy.simps) simp

lemma json_copy_escaped:
  assumes "c \<noteq> NUL" "0 < room"
  shows "json_copy (json_escape c @ cs) room out = json_copy cs (room - 1) (out @ [c])"
  using assms json_copy_plain [of c room cs out] json_copy_escape [of _ room cs out]
  by (auto simp: json_escape_def escape_char_def)

lemma json_copy_text:
  "NUL \<notin> set s \<Longrightarrow> length s \<le> room \<Longrightarrow>
   json_copy (json_text s @ QUOTE # rest) room out = Some (out @ s, QUOTE # rest)"
proof (induction s arbitrary: room out)
  case Nil
  then show ?case by (simp add: json_text_def json_copy_stop)
next
  case (Cons c s)
  then have "json_copy (json_escape c @ json_text s @ QUOTE # rest) room out =
      json_copy (json_text s @ QUOTE # rest) (room - 1) (out @ [c])"
    by (intro json_copy_escaped) auto
  then show ?case using Cons by (simp add: json_text_def)
qed

lemma json_text_no_nul: "NUL \<notin> set s \<Longrightarrow> NUL \<notin> set (json_text s)"
  by (auto simp: json_text_def json_escape_def)

lemma strstr_at_skip: "c \<notin> set xs \<Longrightarrow> strstr_at (xs @ ys) (c # n) = map_option ((+) (length xs)) (strstr_at ys (c # n))"
proof (induction xs)
  case Nil
  then show ?case by (cases "strstr_at ys (c # n)") simp_all
next
  case (Cons a xs)
  then show ?case by (cases "strstr_at ys (c # n)") (auto simp: strncmp_eq_def)
qed

lemma strstr_at_here: "n \<noteq> [] \<Longrightarrow> strstr_at (n @ ys) n = Some 0"
proof -
  assume n: "n \<noteq> []"
  have "strncmp_eq (n @ ys) n" by (simp add: strncmp_eq_def)
  then show ?thesis using n by (cases "n @ ys") auto
qed

section \<open>Reading stays inside the memory\<close>

text \<open>The body is read as a C string; its last character must not be a backslash.\<close>

definition safe_body :: "string \<Rightarrow> bool" where
  "safe_body body \<longleftrightarrow> (c_string body = [] \<or> last (c_string body) \<noteq> BACKSLASH)"

definition plain_end :: "string \<Rightarrow> bool" where
  "plain_end c \<longleftrightarrow> NUL \<notin> set c \<and> (c = [] \<or> last c \<noteq> BACKSLASH)"

lemma plain_end_tl: "plain_end (x # c) \<Longrightarrow> x \<noteq> BACKSLASH \<or> c \<noteq> [] \<Longrightarrow> plain_end c"
  by (auto simp: plain_end_def split: if_splits)

lemma take_hex_plain:
  "plain_end c \<Longrightarrow> \<exists>h c'. take_hex n (c @ NUL # rest) = Some (h, c' @ NUL # rest) \<and> plain_end c'"
proof (induction n arbitrary: c)
  case (Suc n)
  show ?case
  proof (cases c)
    case (Cons x xs)
    show ?thesis
    proof (cases "xs = []")
      case True
      have "plain_end []" by (simp add: plain_end_def)
      then show ?thesis using Suc.IH [of "[]"] Suc.prems Cons True by (fastforce simp: plain_end_def)
    next
      case False
      then have "plain_end xs" using Suc.prems Cons plain_end_tl by blast
      then show ?thesis using Suc.IH [of xs] Suc.prems Cons by (fastforce simp: plain_end_def)
    qed
  qed (auto simp: plain_end_def)
qed auto

lemma json_copy_plain_end:
  assumes "plain_end c"
  shows "\<exists>t r. json_copy (c @ NUL # rest) room out = Some (t, r)"
  using assms
proof (induction "length c" arbitrary: c room out rule: less_induct)
  case less
  show ?case
  proof (cases c)
    case Nil
    then show ?thesis by (subst json_copy.simps) simp
  next
    case (Cons x xs)
    have IH: "\<exists>t r. json_copy (c' @ NUL # rest) room' out' = Some (t, r)" if "length c' < length c" "plain_end c'" for c' room' out'
      using less.hyps that by blast
    show ?thesis
    proof (cases "x = BACKSLASH")
      case True
      then obtain e es where e: "xs = e # es" using less.prems Cons by (cases xs) (auto simp: plain_end_def)
      have pe: "plain_end es" using less.prems Cons True e by (auto simp: plain_end_def split: if_splits)
      obtain h c' where h: "take_hex 4 (es @ NUL # rest) = Some (h, c' @ NUL # rest)" "plain_end c'"
        using take_hex_plain [OF pe] by blast
      then have "length c' \<le> length es" using take_hex_shorter [OF h(1)] by simp
      then show ?thesis
        using Cons e True h(1) IH [of c' "room - 1" "out @ [hex_char h]"] IH [of es "room - 1" "out @ [escape_char e]"] h(2) pe
        by (subst json_copy.simps) auto
    next
      case False
      then have "plain_end xs" using less.prems Cons plain_end_tl by blast
      then show ?thesis using Cons False IH [of xs "room - 1" "out @ [x]"] by (subst json_copy.simps) auto
    qed
  qed
qed

lemma strstr_at_bound: "strstr_at cs needle = Some i \<Longrightarrow> i + length needle \<le> length cs"
proof (induction cs needle arbitrary: i rule: strstr_at.induct)
  case (2 c cs needle)
  have "length needle \<le> length (c # cs)" if "strncmp_eq (c # cs) needle"
  proof -
    have "length (take (length needle) (c # cs)) = length needle" using that by (simp only: strncmp_eq_def)
    then show ?thesis by (simp only: length_take min_def split: if_splits)
  qed
  then show ?case using 2 by (fastforce split: if_splits)
qed (auto split: if_splits)

lemma plain_end_drop: "plain_end c \<Longrightarrow> plain_end (drop n c)"
  by (cases "n < length c") (auto simp: plain_end_def last_drop dest: in_set_dropD)

lemma plain_end_dropWhile: "plain_end c \<Longrightarrow> plain_end (dropWhile P c)"
  using plain_end_drop [of c "length (takeWhile P c)"] by (simp add: dropWhile_eq_drop)

lemma dropWhile_stop: "\<not> P y \<Longrightarrow> dropWhile P (xs @ y # ys) = dropWhile P xs @ y # ys"
  by (induction xs) auto

lemma json_field_plain:
  assumes "plain_end c" "json_field (c @ NUL # rest) field = Some m"
  shows "\<exists>c'. m = c' @ NUL # rest \<and> plain_end c'"
proof -
  let ?p = "take 63 ([QUOTE] @ field @ [QUOTE])"
  have "c_string (c @ NUL # rest) = c"
    using assms(1) by (simp add: c_string_def plain_end_def takeWhile_tail takeWhile_append)
  then obtain i where i: "strstr_at c ?p = Some i"
    "m = dropWhile (\<lambda>c. c = CHR 0x20 \<or> c = CHR 0x3A) (drop (i + length ?p) (c @ NUL # rest))"
    using assms(2) by (auto simp: json_field_def Let_def)
  have "i + length ?p \<le> length c" by (rule strstr_at_bound [OF i(1)])
  then have "m = dropWhile (\<lambda>c. c = CHR 0x20 \<or> c = CHR 0x3A) (drop (i + length ?p) c) @ NUL # rest"
    unfolding i(2) by (simp add: dropWhile_stop)
  then show ?thesis using plain_end_dropWhile [OF plain_end_drop [OF assms(1)]] by blast
qed

lemma json_get_string_safe:
  assumes "safe_body body"
  shows "json_get_string (body @ NUL # stale) field room \<noteq> None"
proof -
  obtain c rest where c: "body @ NUL # stale = c @ NUL # rest" "plain_end c"
  proof -
    obtain r where r: "dropWhile (\<lambda>c. c \<noteq> NUL) (body @ NUL # stale) = NUL # r"
      using hd_dropWhile [of "\<lambda>c. c \<noteq> NUL" "body @ NUL # stale"]
      by (cases "dropWhile (\<lambda>c. c \<noteq> NUL) (body @ NUL # stale)") (auto simp: dropWhile_eq_Nil_conv)
    have "takeWhile (\<lambda>c. c \<noteq> NUL) (body @ NUL # stale) = c_string body"
      by (induction body) (auto simp: c_string_def)
    then have "body @ NUL # stale = c_string body @ NUL # r"
      using takeWhile_dropWhile_id [of "\<lambda>c. c \<noteq> NUL" "body @ NUL # stale"] r by simp
    moreover have "plain_end (c_string body)"
      using assms by (auto simp: plain_end_def safe_body_def c_string_def dest: set_takeWhileD)
    ultimately show thesis by (rule that)
  qed
  have "json_copy cs (room - 1) [] \<noteq> None" if m: "json_field (c @ NUL # rest) field = Some (QUOTE # cs)" for cs
  proof -
    obtain c' where c': "QUOTE # cs = c' @ NUL # rest" "plain_end c'" using json_field_plain [OF c(2) m] by blast
    then obtain c'' where "c' = QUOTE # c''" by (cases c') auto
    then have "cs = c'' @ NUL # rest" "plain_end c''" using c' plain_end_tl [of QUOTE c''] by auto
    then show ?thesis using json_copy_plain_end [of c'' rest "room - 1" "[]"] by auto
  qed
  then show ?thesis
    using json_field_plain [OF c(2)] unfolding json_get_string_def c(1)
    by (auto split: option.split list.split)
qed

end
