(* ===== verification/App_Net.thy ===== *)
theory App_Net
  imports Prelude Cstring
begin

text \<open>
  The network helpers of \<^verbatim>\<open>src/app/app_server.c\<close>: which addresses the host has, which of them is
  advertised to a viewer, and the list of the other ones. The list \<^verbatim>\<open>getifaddrs\<close> returns is an
  argument (\<open>None\<close> when the call fails); the text form of IPv4 addresses is the one of \<^verbatim>\<open>inet_ntop\<close>
  and \<^verbatim>\<open>inet_pton\<close>.
\<close>

section \<open>Addresses as text\<close>

definition octet :: "nat \<Rightarrow> u32 \<Rightarrow> nat" where
  "octet i ip = unat (ucast (drop_bit (8 * i) ip) :: u8)"

definition inet_ntop4 :: "u32 \<Rightarrow> string" where
  "inet_ntop4 ip = dec_nat (octet 3 ip) @ CHR 0x2E # dec_nat (octet 2 ip) @ CHR 0x2E # dec_nat (octet 1 ip) @
     CHR 0x2E # dec_nat (octet 0 ip)"

text \<open>One part between the dots: a number up to 255 without leading zeros.\<close>

definition octet_of :: "string \<Rightarrow> nat option" where
  "octet_of t =
     (case read_digits 10 0 t of
        (v, rest) \<Rightarrow> if t = [] \<or> rest \<noteq> [] \<or> v > 255 \<or> length t > 3 \<or> (hd t = CHR ''0'' \<and> length t > 1) then None else Some v)"

fun split_at :: "char \<Rightarrow> string \<Rightarrow> string list" where
  "split_at d [] = [[]]"
| "split_at d (c # cs) = (if c = d then [] # split_at d cs
     else case split_at d cs of [] \<Rightarrow> [[c]] | p # ps \<Rightarrow> (c # p) # ps)"

definition inet_pton4 :: "string \<Rightarrow> u32 option" where
  "inet_pton4 t =
     (case map octet_of (split_at (CHR 0x2E) t) of
        [Some a, Some b, Some c, Some d] \<Rightarrow> Some (of_nat (((a * 256 + b) * 256 + c) * 256 + d))
      | _ \<Rightarrow> None)"

section \<open>The interfaces of the host\<close>

text \<open>\<open>ifa_ip\<close> is the address when there is one and its family is IPv4.\<close>

record if_addr =
  ifa_name :: string
  ifa_ip :: "u32 option"
  ifa_up :: bool
  ifa_loopback :: bool

record interface_info =
  if_name :: string
  if_ip :: string

definition usable :: "if_addr \<Rightarrow> bool" where
  "usable a = (case ifa_ip a of
     None \<Rightarrow> False
   | Some host \<Rightarrow> ifa_up a \<and> \<not> ifa_loopback a \<and> drop_bit 24 host \<noteq> 127)"

fun collect_loop :: "if_addr list \<Rightarrow> interface_info list \<Rightarrow> nat \<Rightarrow> interface_info list" where
  "collect_loop [] out limit = out"
| "collect_loop (a # as) out limit =
     (if length out < limit
      then collect_loop as (if usable a then out @ [\<lparr>if_name = take 16 (ifa_name a), if_ip = inet_ntop4 (the (ifa_ip a))\<rparr>]
                            else out) limit
      else out)"

definition collect_interfaces :: "if_addr list option \<Rightarrow> nat \<Rightarrow> interface_info list" where
  "collect_interfaces addrs limit = (case addrs of None \<Rightarrow> [] | Some as \<Rightarrow> collect_loop as [] limit)"

section \<open>The advertised address\<close>

text \<open>The address part of a Host header, at most 15 characters.\<close>

definition host_address :: "string \<Rightarrow> string" where
  "host_address host = take 15 (takeWhile (\<lambda>c. c \<noteq> CHR 0x3A) host)"

definition private_range :: "u32 \<Rightarrow> bool" where
  "private_range host \<longleftrightarrow> drop_bit 24 host = 10 \<or> drop_bit 20 host = 0xAC1 \<or> drop_bit 16 host = 0xC0A8 \<or>
     drop_bit 16 host = 0xA9FE"

definition is_private :: "string \<Rightarrow> bool" where
  "is_private ip = (case inet_pton4 ip of None \<Rightarrow> False | Some host \<Rightarrow> private_range host)"

definition choose_advertise_ip :: "if_addr list option \<Rightarrow> string \<Rightarrow> string" where
  "choose_advertise_ip addrs host =
     (let ips = map if_ip (collect_interfaces addrs 16); candidate = host_address host in
      if host \<noteq> [] \<and> inet_pton4 candidate \<noteq> None \<and> candidate \<in> set ips then candidate
      else case find is_private ips of
        Some ip \<Rightarrow> ip
      | None \<Rightarrow> (case ips of ip # _ \<Rightarrow> ip | [] \<Rightarrow> ''127.0.0.1''))"

text \<open>The other addresses, without duplicates, at most 16.\<close>

fun extra_ip_loop :: "string \<Rightarrow> string list \<Rightarrow> string list \<Rightarrow> string list" where
  "extra_ip_loop primary [] extra = extra"
| "extra_ip_loop primary (ip # ips) extra =
     (if length extra < 16 then
        if ip = primary then extra_ip_loop primary ips extra
        else if ip \<in> set extra then extra_ip_loop primary ips extra
        else extra_ip_loop primary ips (extra @ [ip])
      else extra)"

definition extra_ip_list :: "string \<Rightarrow> string list \<Rightarrow> string list" where
  "extra_ip_list primary ips = extra_ip_loop primary ips []"

section \<open>Lemmas\<close>

lemma octet_less: "octet i ip < 256"
  using unat_u8 by (simp add: octet_def)

lemma base_256:
  fixes n :: nat
  assumes "n < 2 ^ 32"
  shows "((n div 256 div 256 div 256 mod 256 * 256 + n div 256 div 256 mod 256) * 256 + n div 256 mod 256) * 256 +
      n mod 256 = n"
proof -
  have "n div 256 div 256 div 256 < 256" using assms by (simp add: div_less_iff_less_mult)
  then show ?thesis
    using div_mult_mod_eq [of n 256] div_mult_mod_eq [of "n div 256" 256] div_mult_mod_eq [of "n div 256 div 256" 256]
    by (simp del: div_mult_mod_eq mod_div_mult_eq)
qed

lemma octets: "ip = of_nat (((octet 3 ip * 256 + octet 2 ip) * 256 + octet 1 ip) * 256 + octet 0 ip)"
proof -
  have o: "octet i ip = unat ip div 2 ^ (8 * i) mod 256" for i
    unfolding octet_def unsigned_ucast_eq unat_drop_bit_eq by (simp add: drop_bit_eq_div take_bit_eq_mod)
  have d: "n div 16777216 = n div 256 div 256 div 256" "n div 65536 = n div 256 div 256" for n :: nat
    by (simp_all add: div_mult2_eq [symmetric])
  have "unat ip < 2 ^ LENGTH(32)" by (rule unsigned_less)
  then have "unat ip < 2 ^ 32" by simp
  from base_256 [OF this] show ?thesis unfolding o by (simp add: d)
qed

lemma octet_of_dec: "n < 256 \<Longrightarrow> octet_of (dec_nat n) = Some n"
  using strtol_digits [of "[]" n] dec_nat_bound [of n 3] dec_nat_lead [of n]
  by (cases "n = 0") (auto simp: octet_of_def dec_nat.simps [of 0])

lemma split_at_parts: "d \<notin> set p \<Longrightarrow> split_at d p = [p]" "d \<notin> set p \<Longrightarrow> split_at d (p @ d # rest) = p # split_at d rest"
  by (induction p) auto

lemma no_dot: "CHR 0x2E \<notin> set (dec_nat n)"
  using dec_nat_all_digits [of n] by (auto simp: is_digit_def)

lemma pton_ntop: "inet_pton4 (inet_ntop4 ip) = Some ip"
proof -
  have "map octet_of (split_at (CHR 0x2E) (inet_ntop4 ip)) =
      [Some (octet 3 ip), Some (octet 2 ip), Some (octet 1 ip), Some (octet 0 ip)]"
    by (simp add: inet_ntop4_def split_at_parts no_dot octet_of_dec octet_less)
  then show ?thesis using octets [of ip] by (simp add: inet_pton4_def)
qed

lemma ntop_length: "length (inet_ntop4 ip) \<le> 15"
proof -
  have "length (dec_nat (octet i ip)) \<le> 3" for i
    using dec_nat_bound [of "octet i ip" 3] octet_less [of i ip] by simp
  from this [of 0] this [of 1] this [of 2] this [of 3] show ?thesis by (simp add: inet_ntop4_def)
qed

lemma collect_loop_eq: "length out \<le> limit \<Longrightarrow> collect_loop as out limit =
    take limit (out @ map (\<lambda>a. \<lparr>if_name = take 16 (ifa_name a), if_ip = inet_ntop4 (the (ifa_ip a))\<rparr>) (filter usable as))"
  by (induction as arbitrary: out) (auto simp: not_less take_Cons')

text \<open>The addresses of the first interfaces that qualify, in the order of the system.\<close>

definition local_ips :: "if_addr list option \<Rightarrow> u32 list" where
  "local_ips addrs = (case addrs of None \<Rightarrow> [] | Some as \<Rightarrow> take 16 (map (the \<circ> ifa_ip) (filter usable as)))"

lemma collected_ips: "map if_ip (collect_interfaces addrs 16) = map inet_ntop4 (local_ips addrs)"
  by (cases addrs) (simp_all add: collect_interfaces_def local_ips_def collect_loop_eq take_map)

lemma is_private_ntop: "is_private (inet_ntop4 ip) = private_range ip"
  by (simp add: is_private_def pton_ntop)

lemma extra_loop_props:
  assumes "length extra \<le> 16" "distinct extra" "primary \<notin> set extra"
  shows "length (extra_ip_loop primary ips extra) \<le> 16 \<and> distinct (extra_ip_loop primary ips extra) \<and>
    primary \<notin> set (extra_ip_loop primary ips extra) \<and> set (extra_ip_loop primary ips extra) \<subseteq> set extra \<union> set ips \<and>
    (length extra + length ips \<le> 16 \<longrightarrow> set (extra_ip_loop primary ips extra) = set extra \<union> (set ips - {primary}))"
  using assms
proof (induction ips arbitrary: extra)
  case (Cons ip ips)
  then show ?case
    using Cons.IH [of extra] Cons.IH [of "extra @ [ip]"] by auto
qed simp

lemma advertised_facts: "choose_advertise_ip addrs host \<in> inet_ntop4 ` set (local_ips addrs) \<or>
    local_ips addrs = [] \<and> choose_advertise_ip addrs host = ''127.0.0.1''"
proof -
  let ?ips = "map inet_ntop4 (local_ips addrs)"
  have "find is_private ?ips = Some ip \<Longrightarrow> ip \<in> set ?ips" for ip by (auto simp: find_Some_iff)
  then show ?thesis
    by (cases "local_ips addrs") (auto simp: choose_advertise_ip_def collected_ips Let_def split: option.split)
qed

section \<open>Properties\<close>

text \<open>
  The address a viewer is told to send to is one it can reach: the address it used itself when that
  is one of the host's, otherwise a private address of the host if there is one, otherwise any
  address of the host, and the loopback address only on a host without any. All other addresses of
  the host are offered as further candidates, each once and without the first one.
\<close>

lemma advertised_addresses:
  "let ips = local_ips addrs; r = choose_advertise_ip addrs host;
       extra = extra_ip_list r (map if_ip (collect_interfaces addrs 16)) in
   (r \<in> inet_ntop4 ` set ips \<or> ips = [] \<and> r = ''127.0.0.1'') \<and>
   (host \<noteq> [] \<and> host_address host \<in> inet_ntop4 ` set ips \<longrightarrow> r = host_address host) \<and>
   (host_address host \<notin> inet_ntop4 ` set ips \<and> (\<exists>ip \<in> set ips. private_range ip) \<longrightarrow>
      (\<exists>ip \<in> set ips. private_range ip \<and> r = inet_ntop4 ip)) \<and>
   distinct extra \<and> set extra = inet_ntop4 ` set ips - {r}"
proof -
  let ?ips = "map inet_ntop4 (local_ips addrs)" and ?r = "choose_advertise_ip addrs host"
  have r: "?r = (if host \<noteq> [] \<and> inet_pton4 (host_address host) \<noteq> None \<and> host_address host \<in> set ?ips
      then host_address host
      else case find is_private ?ips of Some ip \<Rightarrow> ip | None \<Rightarrow> (case ?ips of ip # _ \<Rightarrow> ip | [] \<Rightarrow> ''127.0.0.1''))"
    by (simp only: choose_advertise_ip_def collected_ips Let_def)
  have mine: "?r = host_address host" if "host \<noteq> []" "host_address host \<in> inet_ntop4 ` set (local_ips addrs)"
    using that r by (auto simp: pton_ntop)
  have other: "?r = (case find is_private ?ips of Some ip \<Rightarrow> ip | None \<Rightarrow> (case ?ips of ip # _ \<Rightarrow> ip | [] \<Rightarrow> ''127.0.0.1''))"
    if "\<not> (host \<noteq> [] \<and> host_address host \<in> inet_ntop4 ` set (local_ips addrs))"
    using that r by auto
  have found: "ip \<in> set ?ips \<and> is_private ip" if "find is_private ?ips = Some ip" for ip
    using that by (auto simp: find_Some_iff)
  have 2: "\<exists>ip \<in> set (local_ips addrs). private_range ip \<and> ?r = inet_ntop4 ip"
    if "host_address host \<notin> inet_ntop4 ` set (local_ips addrs)" "ip \<in> set (local_ips addrs)" "private_range ip" for ip
  proof -
    have "find is_private ?ips \<noteq> None" using that by (force simp: find_None_iff is_private_ntop)
    then obtain x where x: "find is_private ?ips = Some x" by blast
    then have "?r = x" using other that(1) by simp
    then show ?thesis using found [OF x] is_private_ntop by auto
  qed
  have 3: "host_address host \<notin> inet_ntop4 ` set (local_ips addrs) \<and> (\<exists>ip \<in> set (local_ips addrs). private_range ip) \<longrightarrow>
      (\<exists>ip \<in> set (local_ips addrs). private_range ip \<and> ?r = inet_ntop4 ip)"
    using 2 by blast
  have "length (local_ips addrs) \<le> 16" by (simp add: local_ips_def split: option.split)
  then show ?thesis
    using advertised_facts 3 mine extra_loop_props [of "[]" ?r ?ips] by (simp add: Let_def extra_ip_list_def collected_ips)
qed

definition demo_ifs :: "if_addr list option" where
  "demo_ifs = Some [\<lparr>ifa_name = ''eth0'', ifa_ip = Some 0x08080808, ifa_up = True, ifa_loopback = False\<rparr>,
     \<lparr>ifa_name = ''lo'', ifa_ip = Some 0x7F000001, ifa_up = True, ifa_loopback = True\<rparr>,
     \<lparr>ifa_name = ''wlan0'', ifa_ip = Some 0xC0A80105, ifa_up = True, ifa_loopback = False\<rparr>]"

lemma demo_local_ips: "local_ips demo_ifs = [0x08080808, 0xC0A80105]"
  by (simp add: local_ips_def demo_ifs_def usable_def)

lemma advertised_addresses_witness:
  "choose_advertise_ip demo_ifs ''8.8.8.8:8080'' = ''8.8.8.8''"
proof -
  have "inet_ntop4 0x08080808 = ''8.8.8.8''" by code_simp
  moreover have "host_address ''8.8.8.8:8080'' = ''8.8.8.8''" by code_simp
  ultimately show ?thesis
    using advertised_addresses [of demo_ifs "''8.8.8.8:8080''"] by (simp add: demo_local_ips Let_def)
qed

end
