(* ===== verification/Video_Source.thy ===== *)
theory Video_Source
  imports Prelude
begin

text \<open>
  The interface of a video source (\<^verbatim>\<open>include/media/video_source.h\<close>): the data every source has, its
  operations (function pointers in C, a record of functions on the state of the source here), and, as
  the locale \<open>video_capture\<close>, what the capture path relies on. The test pattern and the V4L2 camera
  interpret it.
\<close>

section \<open>Data and operations\<close>

definition V4L2_PIX_FMT_YUYV :: u32 where "V4L2_PIX_FMT_YUYV = 0x56595559"
definition V4L2_PIX_FMT_YUV420 :: u32 where "V4L2_PIX_FMT_YUV420 = 0x32315559"
definition V4L2_CAP_DEVICE_CAPS :: u32 where "V4L2_CAP_DEVICE_CAPS = 0x80000000"

record video_source =
  vs_name :: string
  vs_width :: u32
  vs_height :: u32
  vs_fps :: u32
  vs_stride :: u32
  vs_format :: u32
  vs_frame_size :: nat

text \<open>What \<^verbatim>\<open>capture\<close> gives: the return code, and the time, the borrowed bytes and the buffer of the frame.\<close>

record captured =
  cap_rc :: int
  cap_timestamp_us :: u64
  cap_data :: "bytes option"
  cap_index :: u32

text \<open>\<open>so_capture\<close> is \<open>None\<close> when the source accesses memory outside a buffer.\<close>

record 'src source_ops =
  so_start :: "'src \<Rightarrow> int \<times> 'src"
  so_capture :: "'src \<Rightarrow> (captured \<times> 'src) option"
  so_release :: "'src \<Rightarrow> u32 \<Rightarrow> 'src"

definition no_frame :: "int \<Rightarrow> captured" where
  "no_frame rc = \<lparr>cap_rc = rc, cap_timestamp_us = 0, cap_data = None, cap_index = 0\<rparr>"

section \<open>The contract\<close>

text \<open>
  \<open>src_ok n s\<close>: the source is well formed and good for \<open>n\<close> more captures. A capture that has a frame
  has at most \<open>vs_frame_size\<close> bytes, and the description of the source never changes.
\<close>

locale video_capture =
  fixes ops :: "'src source_ops"
    and src_ok :: "nat \<Rightarrow> 'src \<Rightarrow> bool"
    and info :: "'src \<Rightarrow> video_source"
  assumes capture_ok: "src_ok (Suc n) s \<Longrightarrow>
      \<exists>c s'. so_capture ops s = Some (c, s') \<and> src_ok n s' \<and> info s' = info s \<and>
        (cap_rc c > 0 \<longrightarrow> (\<exists>d. cap_data c = Some d \<and> length d \<le> vs_frame_size (info s)))"
    and release_ok: "src_ok n s \<Longrightarrow> src_ok n (so_release ops s i) \<and> info (so_release ops s i) = info s"
    and start_ok: "src_ok n s \<Longrightarrow> src_ok n (snd (so_start ops s)) \<and> info (snd (so_start ops s)) = info s"
begin

lemma capture_release:
  assumes "src_ok (Suc n) s"
  shows "\<exists>c s'. so_capture ops s = Some (c, s') \<and> src_ok n s' \<and> info s' = info s \<and>
    src_ok n (so_release ops s' (cap_index c)) \<and> info (so_release ops s' (cap_index c)) = info s \<and>
    (cap_rc c > 0 \<longrightarrow> (\<exists>d. cap_data c = Some d \<and> length d \<le> vs_frame_size (info s)))"
  using capture_ok [OF assms] release_ok by fastforce

end

end
