(* ===== verification/App_Server.thy ===== *)
theory App_Server
  imports Rtc_Props Json Au_Ring App_Config App_Net Video_Source
begin

text \<open>
  The server of \<^verbatim>\<open>src/app/app_server.c\<close> in the native build: the table of viewers, the two signaling
  requests and the status page, and the turns of the main loop.

  A request handler returns its reply and the new server. What comes from outside (random numbers,
  the interfaces of the host, the libraries, the clock) are arguments. \<open>None\<close> is a read or a write
  outside a buffer. The call back \<^verbatim>\<open>session_on_idr_request\<close> of a session sets the flag
  \<open>sv_force_idr\<close>; \<open>put_session\<close> does so for the requests the session has just added to its trace.
\<close>

section \<open>State\<close>

definition MAX_RTC_SESSIONS :: nat where "MAX_RTC_SESSIONS = 8"
definition AU_RING_SLOTS :: nat where "AU_RING_SLOTS = 8"
definition AU_SLOT_CAPACITY :: nat where "AU_SLOT_CAPACITY = 512 * 1024"

record ('ssl, 'srtp) server =
  sv_config :: app_config
  sv_source :: video_source
  sv_encoder_name :: string
  sv_ring :: au_ring
  sv_force_idr :: bool
  sv_rtc_active :: bool
  sv_sessions :: "('ssl, 'srtp) rtc_session option list"
  sv_sessions_total :: u64
  sv_started_ms :: u64

text \<open>The server when the main loop begins.\<close>

definition server_init :: "app_config \<Rightarrow> video_source \<Rightarrow> string \<Rightarrow> au_ring \<Rightarrow> u64 \<Rightarrow> ('ssl, 'srtp) server" where
  "server_init cfg source name ring now =
     \<lparr>sv_config = cfg, sv_source = source, sv_encoder_name = name, sv_ring = ring, sv_force_idr = False,
      sv_rtc_active = False, sv_sessions = replicate MAX_RTC_SESSIONS None, sv_sessions_total = 0, sv_started_ms = now\<rparr>"

definition session_on_idr_request :: "('ssl, 'srtp) server \<Rightarrow> ('ssl, 'srtp) server" where
  "session_on_idr_request sv = sv\<lparr>sv_force_idr := True\<rparr>"

definition new_outputs :: "('ssl, 'srtp) rtc_session \<Rightarrow> ('ssl, 'srtp) rtc_session \<Rightarrow> rtc_output list" where
  "new_outputs s s' = drop (length (trace s)) (trace s')"

definition put_session :: "nat \<Rightarrow> ('ssl, 'srtp) rtc_session \<Rightarrow> ('ssl, 'srtp) rtc_session \<Rightarrow> ('ssl, 'srtp) server \<Rightarrow>
    ('ssl, 'srtp) server" where
  "put_session i s s' sv =
     (let sv1 = sv\<lparr>sv_sessions := (sv_sessions sv)[i := Some s']\<rparr>
      in if IdrRequest \<in> set (new_outputs s s') then session_on_idr_request sv1 else sv1)"

text \<open>A call on the session of a slot, if there is one and \<open>P\<close> holds of it.\<close>

definition on_slot :: "nat \<Rightarrow> (('ssl, 'srtp) rtc_session \<Rightarrow> bool) \<Rightarrow>
    (('ssl, 'srtp) rtc_session \<Rightarrow> ('ssl, 'srtp) rtc_session option) \<Rightarrow> ('ssl, 'srtp) server \<Rightarrow> ('ssl, 'srtp) server option" where
  "on_slot i P call sv =
     (case sv_sessions sv ! i of
        None \<Rightarrow> Some sv
      | Some s \<Rightarrow> if P s then map_option (\<lambda>s'. put_session i s s' sv) (call s) else Some sv)"

section \<open>The offer of a viewer\<close>

datatype http_reply = Reply nat string string

text \<open>Texts with quotes are written with backquotes.\<close>

definition js :: "string \<Rightarrow> string" where
  "js t = map (\<lambda>c. if c = CHR 0x60 then QUOTE else c) t"

definition json_type :: string where
  "json_type = ''Content-Type: application/json'' @ crlf"

definition json_error :: "nat \<Rightarrow> string \<Rightarrow> http_reply" where
  "json_error code message = Reply code json_type (js (''{`error`:`'' @ message @ ''`}''))"

record http_message =
  msg_uri :: string
  msg_host :: "string option"
  msg_body :: string

text \<open>
  What the handler gets from outside: the interfaces at its two looks at them, the random sources of
  the session's number (zero when they fail), the resources of the new session.
\<close>

record 'ssl offer_env =
  oe_ifs :: "if_addr list option"
  oe_all_ifs :: "if_addr list option"
  oe_urandom :: u32
  oe_rand_bytes :: u32
  oe_time_mix :: u32
  oe_create :: "'ssl rtc_create_env"

text \<open>The request buffer: the body, a zero, and what the stack held before.\<close>

definition request_memory :: "('ssl, 'srtp) rtc_env \<Rightarrow> nat \<Rightarrow> string \<Rightarrow> string" where
  "request_memory env capacity body = body @ NUL # map (\<lambda>b. char_of (unat b)) (junk env (capacity - length body - 1))"

definition session_number :: "'ssl offer_env \<Rightarrow> u32" where
  "session_number oe =
     (let id1 = oe_urandom oe;
          id2 = (if id1 = 0 then oe_rand_bytes oe else id1);
          id3 = (if id2 = 0 then oe_time_mix oe * 2654435761 else id2)
      in if id3 = 0 then 1 else id3)"

definition free_slot :: "('ssl, 'srtp) rtc_session option list \<Rightarrow> nat option" where
  "free_slot ss = find (\<lambda>i. ss ! i = None) [0..<MAX_RTC_SESSIONS]"

definition offer_config :: "'ssl offer_env \<Rightarrow> app_config \<Rightarrow> nat \<Rightarrow> string \<Rightarrow> sdp_offer \<Rightarrow> rtc_config" where
  "offer_config oe cfg slot host offer =
     (let ip = choose_advertise_ip (oe_ifs oe) host in
      \<lparr>cfg_id = session_number oe, cfg_udp_port = of_nat (unat (ac_udp_base_port cfg) + slot),
       advertise_ip = ip, extra_ips = extra_ip_list ip (map if_ip (collect_interfaces (oe_all_ifs oe) 16)),
       cfg_offer = offer, has_on_idr_request = True, has_on_closed = True\<rparr>)"

definition PAYLOAD :: nat where "PAYLOAD = 24576"

definition answer_prefix :: "u32 \<Rightarrow> u16 \<Rightarrow> string" where
  "answer_prefix number port =
     js (''{`type`:`answer`,`session_id`:'' @ dec_nat (unat number) @ '',`udp_port`:'' @ dec_nat (unat port) @ '',`sdp`:`'')"

definition answer_suffix :: string where
  "answer_suffix = js ''`}''"

text \<open>The payload, or the error of the first part that does not fit.\<close>

definition answer_payload :: "u32 \<Rightarrow> u16 \<Rightarrow> string \<Rightarrow> string + string" where
  "answer_payload number port answer =
     (let head = answer_prefix number port in
      if length head \<ge> PAYLOAD then Inl ''answer too large''
      else
        let esc = json_escape_append answer (PAYLOAD - length head) in
        if esc = [] \<and> answer \<noteq> [] then Inl ''SDP escape overflow''
        else if length answer_suffix \<ge> PAYLOAD - (length head + length esc) then Inl ''payload overflow''
        else Inr (head @ esc @ answer_suffix))"

text \<open>Taking a session that has just been created back out of the table.\<close>

definition rollback :: "nat \<Rightarrow> ('ssl, 'srtp) server \<Rightarrow> ('ssl, 'srtp) server" where
  "rollback slot sv = sv\<lparr>sv_sessions := (sv_sessions sv)[slot := None],
     sv_sessions_total := sv_sessions_total sv - 1, sv_rtc_active := False\<rparr>"

text \<open>The second half of the handler: an offer that was understood, for a free slot.\<close>

definition accept_offer :: "('ssl, 'srtp) rtc_env \<Rightarrow> 'ssl offer_env \<Rightarrow> string \<Rightarrow> sdp_offer \<Rightarrow> nat \<Rightarrow> ('ssl, 'srtp) server \<Rightarrow>
    (http_reply \<times> ('ssl, 'srtp) server) option" where
  "accept_offer env oe host offer slot sv =
     (let cfg = offer_config oe (sv_config sv) slot host offer in
      case rtc_session_create env (oe_create oe) cfg 8192 of
        None \<Rightarrow> None
      | Some (Inl _) \<Rightarrow> Some (json_error 500 ''session create failed (UDP port busy?)'', sv)
      | Some (Inr (s, answer)) \<Rightarrow>
          let sv1 = sv\<lparr>sv_sessions := (sv_sessions sv)[slot := Some s],
                       sv_sessions_total := sv_sessions_total sv + 1,
                       sv_rtc_active := True, sv_force_idr := True\<rparr>
          in Some (case answer_payload (session_number oe) (cfg_udp_port cfg) (c_string answer) of
                     Inl message \<Rightarrow> (json_error 500 message, rollback slot sv1)
                   | Inr payload \<Rightarrow> (Reply 200 json_type payload, sv1)))"

definition host_header :: "http_message \<Rightarrow> string" where
  "host_header message = c_string (take 255 (case msg_host message of None \<Rightarrow> [] | Some h \<Rightarrow> h))"

definition handle_rtc_offer :: "('ssl, 'srtp) rtc_env \<Rightarrow> 'ssl offer_env \<Rightarrow> http_message \<Rightarrow> ('ssl, 'srtp) server \<Rightarrow>
    (http_reply \<times> ('ssl, 'srtp) server) option" where
  "handle_rtc_offer env oe message sv =
     (if length (msg_body message) \<ge> 16384 then Some (json_error 413 ''signaling request is too large'', sv)
      else
        case json_get_string (request_memory env 16384 (msg_body message)) ''sdp'' 8192 of
          None \<Rightarrow> None
        | Some None \<Rightarrow> Some (json_error 400 ''missing sdp field'', sv)
        | Some (Some text) \<Rightarrow>
            (case sdp_parse_offer (c_string text) of (rc, offer) \<Rightarrow>
              if rc \<noteq> 0 then
                Some (json_error 400 ''offer is missing ICE credentials, fingerprint or H264 codec'', sv)
              else
                case free_slot (sv_sessions sv) of
                  None \<Rightarrow> Some (json_error 503 ''session limit reached'', sv)
                | Some slot \<Rightarrow> accept_offer env oe (host_header message) offer slot sv))"

text \<open>The first session with the number in the request is closed, if there is one.\<close>

fun close_numbered :: "('ssl, 'srtp) rtc_env \<Rightarrow> u32 \<Rightarrow> nat list \<Rightarrow> ('ssl, 'srtp) server \<Rightarrow> ('ssl, 'srtp) server" where
  "close_numbered env number [] sv = sv"
| "close_numbered env number (i # is) sv =
     (case sv_sessions sv ! i of
        None \<Rightarrow> close_numbered env number is sv
      | Some s \<Rightarrow>
          if cfg_id (config s) = number then put_session i s (rtc_session_close env s) sv
          else close_numbered env number is sv)"

definition handle_rtc_close :: "('ssl, 'srtp) rtc_env \<Rightarrow> http_message \<Rightarrow> ('ssl, 'srtp) server \<Rightarrow>
    http_reply \<times> ('ssl, 'srtp) server" where
  "handle_rtc_close env message sv =
     (if length (msg_body message) \<ge> 512 then (json_error 413 ''close request is too large'', sv)
      else
        case json_get_int (request_memory env 512 (msg_body message)) ''session_id'' of
          None \<Rightarrow> (json_error 400 ''missing session_id'', sv)
        | Some number \<Rightarrow>
            (Reply 200 json_type (js ''{`closed`:true}''), close_numbered env (of_int number) [0..<MAX_RTC_SESSIONS] sv))"

section \<open>The status page\<close>

text \<open>\<^verbatim>\<open>snprintf\<close> at an offset, as in \<^theory_text>\<open>Sdp\<close>, for a buffer of any size.\<close>

definition put_at :: "nat \<Rightarrow> string \<Rightarrow> string \<times> nat \<Rightarrow> (string \<times> nat) option" where
  "put_at capacity t b =
     (if snd b > capacity then None else Some (fst b @ take (capacity - 1 - snd b) t, snd b + length t))"

record status_env =
  se_now_ms :: u64
  se_ifs :: "if_addr list option"
  se_captured :: u64
  se_encoded :: u64
  se_frames_seen :: u64
  se_skipped_idle :: u64
  se_skipped_mismatch :: u64
  se_skipped_bad_size :: u64
  se_no_output :: u64

definition u64_text :: "u64 \<Rightarrow> string" where
  "u64_text v = dec_nat (unat v)"

definition u32_text :: "u32 \<Rightarrow> string" where
  "u32_text v = dec_nat (unat v)"

definition u16_text :: "u16 \<Rightarrow> string" where
  "u16_text v = dec_nat (unat v)"

definition status_head :: "status_env \<Rightarrow> ('ssl, 'srtp) server \<Rightarrow> string" where
  "status_head se sv =
     (let cfg = sv_config sv; src = sv_source sv in
      js ''{`version`:`2.0.0`,`uptime_sec`:'' @ u64_text ((se_now_ms se - sv_started_ms sv) div 1000) @
      js '',`source`:{`name`:`'' @ vs_name src @ js ''`,`kind`:`'' @ (if ac_use_test_source cfg then ''test'' else ''v4l2'') @
      js ''`,`width`:'' @ u32_text (vs_width src) @ js '',`height`:'' @ u32_text (vs_height src) @
      js '',`fps`:'' @ u32_text (vs_fps src) @
      js ''},`encoder`:{`name`:`'' @ (if sv_encoder_name sv \<noteq> [] then sv_encoder_name sv else ''none'') @
      js ''`,`preference`:`'' @ ac_encoder cfg @ js ''`,`bitrate_kbps`:'' @ u32_text (ac_bitrate_kbps cfg) @
      js '',`keyframe_seconds`:'' @ u32_text (ac_keyframe_seconds cfg) @
      js ''},`http_port`:'' @ u16_text (ac_http_port cfg) @ js '',`udp_port`:'' @ u16_text (ac_udp_base_port cfg) @
      js '',`transport`:`webrtc`,`captured_frames`:'' @ u64_text (se_captured se) @
      js '',`encoded_frames`:'' @ u64_text (se_encoded se) @ js '',`au_dropped`:'' @ u64_text (ring_dropped (sv_ring sv)) @
      js '',`encoder_active`:'' @ (if sv_rtc_active sv then ''1'' else ''0'') @
      js '',`sessions_total`:'' @ u64_text (sv_sessions_total sv) @
      js '',`encoder_frames_seen`:'' @ u64_text (se_frames_seen se) @
      js '',`encoder_skipped_idle`:'' @ u64_text (se_skipped_idle se) @
      js '',`encoder_skipped_mismatch`:'' @ u64_text (se_skipped_mismatch se) @
      js '',`encoder_skipped_bad_size`:'' @ u64_text (se_skipped_bad_size se) @
      js '',`encoder_no_output`:'' @ u64_text (se_no_output se) @ js '',`sessions`:['')"

definition rtc_session_state_name :: "rtc_state \<Rightarrow> string" where
  "rtc_session_state_name st =
     (case st of RTC_NEW \<Rightarrow> ''new'' | RTC_ICE \<Rightarrow> ''ice'' | RTC_DTLS \<Rightarrow> ''dtls'' | RTC_STREAMING \<Rightarrow> ''streaming''
      | RTC_CLOSED \<Rightarrow> ''closed'')"

definition status_session :: "u16 \<Rightarrow> nat \<Rightarrow> bool \<Rightarrow> ('ssl, 'srtp) rtc_session \<Rightarrow> string" where
  "status_session base i later s =
     (let st = stats s in
      (if later then '','' else []) @ js ''{`id`:'' @ u32_text (cfg_id (config s)) @
      js '',`state`:`'' @ rtc_session_state_name (rstate s) @ js ''`,`udp_port`:'' @ u32_text (ucast base + of_nat i) @
      js '',`packets_sent`:'' @ u64_text (packets_sent st) @ js '',`bytes_sent`:'' @ u64_text (bytes_sent st) @
      js '',`pli`:'' @ u32_text (pli_received st) @ js '',`nacks`:'' @ u32_text (nacks_received st) @
      js '',`retx`:'' @ u32_text (retransmissions st) @ ''}'')"

text \<open>\<open>later\<close>: an entry has been written before.\<close>

fun status_sessions :: "u16 \<Rightarrow> nat \<Rightarrow> bool \<Rightarrow> ('ssl, 'srtp) rtc_session option list \<Rightarrow> string \<times> nat \<Rightarrow> (string \<times> nat) option" where
  "status_sessions base i later [] b = Some b"
| "status_sessions base i later (None # ss) b = status_sessions base (i + 1) later ss b"
| "status_sessions base i later (Some s # ss) b =
     do { b' \<leftarrow> put_at 8192 (status_session base i later s) b; status_sessions base (i + 1) True ss b' }"

fun status_interfaces :: "bool \<Rightarrow> interface_info list \<Rightarrow> string \<times> nat \<Rightarrow> (string \<times> nat) option" where
  "status_interfaces later [] b = Some b"
| "status_interfaces later (x # xs) b =
     do {
       b' \<leftarrow> put_at 8192 ((if later then '','' else []) @ js ''{`name`:`'' @ if_name x @ js ''`,`ip`:`'' @ if_ip x @ js ''`}'') b;
       status_interfaces True xs b'
     }"

definition handle_status :: "status_env \<Rightarrow> ('ssl, 'srtp) server \<Rightarrow> http_reply option" where
  "handle_status se sv =
     do {
       b1 \<leftarrow> put_at 8192 (status_head se sv) ([], 0);
       b2 \<leftarrow> status_sessions (ac_udp_base_port (sv_config sv)) 0 False (sv_sessions sv) b1;
       b3 \<leftarrow> put_at 8192 (js ''],`interfaces`:['') b2;
       b4 \<leftarrow> status_interfaces False (collect_interfaces (se_ifs se) 16) b3;
       b5 \<leftarrow> put_at 8192 ('']}'' @ [CHR 0x0A]) b4;
       Some (Reply 200 json_type (fst b5))
     }"

section \<open>Requests\<close>

text \<open>What a request needs from outside; \<open>rq_page\<close> is the embedded web page.\<close>

record ('ssl, 'srtp) request =
  rq_message :: http_message
  rq_env :: "('ssl, 'srtp) rtc_env"
  rq_offer :: "'ssl offer_env"
  rq_status :: status_env
  rq_page :: string

definition http_event_handler :: "('ssl, 'srtp) request \<Rightarrow> ('ssl, 'srtp) server \<Rightarrow> (http_reply \<times> ('ssl, 'srtp) server) option" where
  "http_event_handler rq sv =
     (let m = rq_message rq in
      if msg_uri m = ''/rtc/offer'' then handle_rtc_offer (rq_env rq) (rq_offer rq) m sv
      else if msg_uri m = ''/rtc/close'' then Some (handle_rtc_close (rq_env rq) m sv)
      else if msg_uri m = ''/status'' then map_option (\<lambda>r. (r, sv)) (handle_status (rq_status rq) sv)
      else if msg_uri m = ''/'' then
        Some (Reply 200 (''Content-Type: text/html; charset=utf-8'' @ crlf @ ''Cache-Control: no-store'' @ crlf) (rq_page rq), sv)
      else Some (Reply 404 (''Content-Type: text/plain'' @ crlf) (''404 Not Found'' @ [CHR 0x0A]), sv))"

section \<open>One turn of the main loop\<close>

text \<open>Step 1: the sockets to poll and how long to wait.\<close>

fun poll_set :: "('ssl, 'srtp) rtc_env \<Rightarrow> ('ssl, 'srtp) rtc_session option list \<Rightarrow> int list \<times> int \<times> bool \<Rightarrow>
    int list \<times> int \<times> bool" where
  "poll_set env [] acc = acc"
| "poll_set env (None # ss) acc = poll_set env ss acc"
| "poll_set env (Some s # ss) (fds, timeout, has_sessions) =
     (if rstate s = RTC_CLOSED then poll_set env ss (fds, timeout, has_sessions)
      else
        let fds' = (if udp_fd s \<ge> 0 then fds @ [udp_fd s] else fds);
            t = rtc_session_dtls_timeout_ms env s
        in poll_set env ss (fds', if 0 \<le> t \<and> t < timeout then t else timeout, True))"

definition poll_request :: "('ssl, 'srtp) rtc_env \<Rightarrow> ('ssl, 'srtp) server \<Rightarrow> int list \<times> int" where
  "poll_request env sv =
     (case poll_set env (sv_sessions sv) ([], 10, False) of
        (fds, timeout, has_sessions) \<Rightarrow> (fds, if has_sessions then timeout else 100))"

text \<open>
  A datagram: the receive buffer of 2048 bytes, its first \<open>n\<close> bytes received, and the sender. \<open>rx fd i\<close>
  is what \<^verbatim>\<open>recvfrom\<close> delivers on \<open>fd\<close> for the session of slot \<open>i\<close> until it has nothing more.
\<close>

type_synonym ('ssl, 'srtp) datagram = "('ssl, 'srtp) rtc_env \<times> bytes \<times> nat \<times> peer_addr"

definition deliver :: "nat \<Rightarrow> ('ssl, 'srtp) datagram list \<Rightarrow> ('ssl, 'srtp) server \<Rightarrow> ('ssl, 'srtp) server option" where
  "deliver i = foldo (\<lambda>(env, buf, n, source). on_slot i (\<lambda>_. True) (rtc_session_on_udp env buf n source))"

definition receive_fd :: "(int \<Rightarrow> nat \<Rightarrow> ('ssl, 'srtp) datagram list) \<Rightarrow> int \<Rightarrow> ('ssl, 'srtp) server \<Rightarrow>
    ('ssl, 'srtp) server option" where
  "receive_fd rx fd =
     foldo (\<lambda>i sv. case sv_sessions sv ! i of
         None \<Rightarrow> Some sv
       | Some s \<Rightarrow> if udp_fd s = fd then deliver i (rx fd i) sv else Some sv) [0..<MAX_RTC_SESSIONS]"

text \<open>Step 4: the ring is drained through the buffer; every access unit goes to every streaming session.\<close>

definition fan_out_one :: "(nat \<Rightarrow> ('ssl, 'srtp) rtc_env) \<Rightarrow> bytes \<Rightarrow> u64 \<Rightarrow> bool \<Rightarrow> ('ssl, 'srtp) server \<Rightarrow>
    ('ssl, 'srtp) server option" where
  "fan_out_one envs au pts idr =
     foldo (\<lambda>i. on_slot i (\<lambda>s. rstate s = RTC_STREAMING)
         (\<lambda>s. map_option snd (rtc_session_send_access_unit (envs i) (Some au) pts idr s))) [0..<MAX_RTC_SESSIONS]"

lemma pop_less: "au_ring_pop r buf cap = Some (rc, r', buf', m) \<Longrightarrow> rc \<noteq> 0 \<Longrightarrow> ring_count r' < ring_count r"
  by (auto simp: au_ring_pop_def ring_advance_def Let_def bind_eq_Some_conv split: if_splits)

function fan_out :: "(nat \<Rightarrow> nat \<Rightarrow> ('ssl, 'srtp) rtc_env) \<Rightarrow> au_ring \<Rightarrow> bytes \<Rightarrow> ('ssl, 'srtp) server \<Rightarrow>
    (bytes \<times> ('ssl, 'srtp) server) option" where
  "fan_out envs ring buffer sv =
     (case au_ring_pop ring buffer AU_SLOT_CAPACITY of
        None \<Rightarrow> None
      | Some (rc, ring', buffer', m) \<Rightarrow>
          if rc = 0 then Some (buffer', sv\<lparr>sv_ring := ring'\<rparr>)
          else
            case m of
              None \<Rightarrow> None
            | Some am \<Rightarrow>
                (case fan_out_one (envs (ring_count ring)) (take (au_size am) buffer') (au_pts am) (au_idr am \<noteq> 0) sv of
                   None \<Rightarrow> None
                 | Some sv' \<Rightarrow> fan_out envs ring' buffer' sv'))"
  by pat_completeness auto
termination
  by (relation "measure (\<lambda>(envs, ring, buffer, sv). ring_count ring)") (auto dest: pop_less)

declare fan_out.simps [simp del]

text \<open>Step 5: closed sessions leave the table, and the encoder is told whether anyone watches.\<close>

definition reap :: "('ssl, 'srtp) server \<Rightarrow> ('ssl, 'srtp) server" where
  "reap sv =
     (let ss = map (\<lambda>o1. case o1 of None \<Rightarrow> None | Some s \<Rightarrow> if rstate s = RTC_CLOSED then None else Some s) (sv_sessions sv);
          live_sessions = length (filter (\<lambda>o1. o1 \<noteq> None) ss)
      in sv\<lparr>sv_sessions := ss, sv_rtc_active := live_sessions > 0\<rparr>)"

text \<open>What happens outside during one turn: readiness, datagrams, requests, clocks.\<close>

record ('ssl, 'srtp) turn =
  tn_poll_env :: "('ssl, 'srtp) rtc_env"
  tn_ready :: "int \<Rightarrow> bool"
  tn_rx :: "int \<Rightarrow> nat \<Rightarrow> ('ssl, 'srtp) datagram list"
  tn_requests :: "('ssl, 'srtp) request list"
  tn_now :: u64
  tn_tick_env :: "nat \<Rightarrow> ('ssl, 'srtp) rtc_env"
  tn_send_env :: "nat \<Rightarrow> nat \<Rightarrow> ('ssl, 'srtp) rtc_env"
  tn_buffer :: bytes

definition receive_all :: "('ssl, 'srtp) turn \<Rightarrow> ('ssl, 'srtp) server \<Rightarrow> ('ssl, 'srtp) server option" where
  "receive_all tn sv = foldo (receive_fd (tn_rx tn)) (filter (tn_ready tn) (fst (poll_request (tn_poll_env tn) sv))) sv"

definition serve_http :: "('ssl, 'srtp) request list \<Rightarrow> http_reply list \<times> ('ssl, 'srtp) server \<Rightarrow>
    (http_reply list \<times> ('ssl, 'srtp) server) option" where
  "serve_http =
     foldo (\<lambda>rq (replies, sv). map_option (\<lambda>(r, sv'). (replies @ [r], sv')) (http_event_handler rq sv))"

definition tick_all :: "('ssl, 'srtp) turn \<Rightarrow> ('ssl, 'srtp) server \<Rightarrow> ('ssl, 'srtp) server option" where
  "tick_all tn =
     foldo (\<lambda>i. on_slot i (\<lambda>_. True) (rtc_session_tick (tn_tick_env tn i) (tn_now tn))) [0..<MAX_RTC_SESSIONS]"

definition server_turn :: "('ssl, 'srtp) turn \<Rightarrow> ('ssl, 'srtp) server \<Rightarrow> (http_reply list \<times> ('ssl, 'srtp) server) option" where
  "server_turn tn sv =
     do {
       sv1 \<leftarrow> receive_all tn sv;
       (replies, sv2) \<leftarrow> serve_http (tn_requests tn) ([], sv1);
       sv3 \<leftarrow> tick_all tn sv2;
       (_, sv4) \<leftarrow> fan_out (tn_send_env tn) (sv_ring sv3) (tn_buffer tn) sv3;
       Some (replies, reap sv4)
     }"

end
