(* ===== verification/App_Table.thy ===== *)
theory App_Table
  imports App_Server
begin

text \<open>
  The table of sessions of the server as an interface: whatever the server calls on a session, the
  table only holds sessions that were created and driven by these calls. On it rest the lemmas on the
  phases of a turn of the main loop: receiving, signaling, timers and the fan out.
\<close>

section \<open>The table of sessions\<close>

definition table_ok :: "('ssl, 'srtp) server \<Rightarrow> bool" where
  "table_ok sv \<longleftrightarrow> length (sv_sessions sv) = MAX_RTC_SESSIONS \<and> (\<forall>s. Some s \<in> set (sv_sessions sv) \<longrightarrow> rtc_reach s)"

text \<open>What a call on a session leaves alone: everything but the table and the keyframe flag.\<close>

definition same_rest :: "('ssl, 'srtp) server \<Rightarrow> ('ssl, 'srtp) server \<Rightarrow> bool" where
  "same_rest sv sv' \<longleftrightarrow> sv_config sv' = sv_config sv \<and> sv_source sv' = sv_source sv \<and>
     sv_encoder_name sv' = sv_encoder_name sv \<and> sv_ring sv' = sv_ring sv \<and> sv_rtc_active sv' = sv_rtc_active sv \<and>
     sv_sessions_total sv' = sv_sessions_total sv \<and> sv_started_ms sv' = sv_started_ms sv \<and>
     length (sv_sessions sv') = length (sv_sessions sv) \<and> (sv_force_idr sv \<longrightarrow> sv_force_idr sv')"

lemma same_rest_refl [simp]: "same_rest sv sv"
  by (simp add: same_rest_def)

lemma same_rest_trans: "same_rest a b \<Longrightarrow> same_rest b c \<Longrightarrow> same_rest a c"
  by (simp add: same_rest_def)

lemma table_reach: "table_ok sv \<Longrightarrow> i < MAX_RTC_SESSIONS \<Longrightarrow> sv_sessions sv ! i = Some s \<Longrightarrow> rtc_reach s"
  by (metis nth_mem table_ok_def)

text \<open>What a pass over the table does to one entry.\<close>

definition called :: "(('ssl, 'srtp) rtc_session \<Rightarrow> bool) \<Rightarrow> (('ssl, 'srtp) rtc_session \<Rightarrow> ('ssl, 'srtp) rtc_session option) \<Rightarrow>
    ('ssl, 'srtp) rtc_session option \<Rightarrow> ('ssl, 'srtp) rtc_session option" where
  "called P c entry = (case entry of None \<Rightarrow> None | Some s \<Rightarrow> if P s then c s else Some s)"

lemma put_session_sessions [simp]: "sv_sessions (put_session i s s' sv) = (sv_sessions sv)[i := Some s']"
  by (simp add: put_session_def session_on_idr_request_def Let_def)

lemma put_session_rest: "same_rest sv (put_session i s s' sv)"
  by (simp add: put_session_def session_on_idr_request_def same_rest_def Let_def)

text \<open>
  The interface between the table and a call of the session: it leads from reachable sessions to
  reachable sessions and, with valid arguments, it never faults.
\<close>

locale session_call =
  fixes call :: "'x \<Rightarrow> ('ssl, 'srtp) rtc_session \<Rightarrow> ('ssl, 'srtp) rtc_session option"
    and valid :: "'x \<Rightarrow> bool"
  assumes reaches: "rtc_reach s \<Longrightarrow> call x s = Some s' \<Longrightarrow> rtc_reach s'"
    and total: "valid x \<Longrightarrow> rtc_reach s \<Longrightarrow> call x s \<noteq> None"
begin

lemma slot_keeps:
  assumes "table_ok sv" "on_slot i P (call x) sv = Some sv'" "i < MAX_RTC_SESSIONS"
  shows "table_ok sv' \<and> same_rest sv sv'"
proof (cases "sv_sessions sv ! i")
  case None
  then show ?thesis using assms by (simp add: on_slot_def)
next
  case (Some s)
  then have r: "rtc_reach s" using table_reach assms(1,3) by blast
  show ?thesis
  proof (cases "P s")
    case True
    then obtain s' where s': "call x s = Some s'" "sv' = put_session i s s' sv"
      using assms(2) Some by (auto simp: on_slot_def)
    have "rtc_reach s'" by (rule reaches [OF r s'(1)])
    then show ?thesis using assms(1) s'(2) put_session_rest by (auto simp: table_ok_def dest!: set_update_subset_insert [THEN subsetD])
  next
    case False
    then show ?thesis using Some assms by (simp add: on_slot_def)
  qed
qed

lemma slot_total:
  assumes "table_ok sv" "i < MAX_RTC_SESSIONS" "valid x"
  shows "\<exists>sv'. on_slot i P (call x) sv = Some sv'"
proof (cases "sv_sessions sv ! i")
  case (Some s)
  then have "rtc_reach s" using table_reach assms(1,2) by blast
  then show ?thesis using total [OF assms(3)] Some by (auto simp: on_slot_def)
qed (simp add: on_slot_def)

lemma slot_only:
  assumes "on_slot i P (call x) sv = Some sv'"
  shows "sv_sessions sv' = (sv_sessions sv)[i := called P (call x) (sv_sessions sv ! i)]"
proof (cases "sv_sessions sv ! i")
  case None
  then show ?thesis using assms by (simp add: on_slot_def called_def) (metis list_update_id)
next
  case (Some s)
  then show ?thesis using assms
    by (cases "P s") (auto simp: on_slot_def called_def, metis list_update_id)
qed

lemma slots_keep:
  assumes "table_ok sv" "foldo (\<lambda>i. on_slot i P (call (x i))) is sv = Some sv'" "set is \<subseteq> {..<MAX_RTC_SESSIONS}"
  shows "table_ok sv' \<and> same_rest sv sv'"
  using assms
proof (induction "is" arbitrary: sv)
  case (Cons i "is")
  then obtain sv1 where 1: "on_slot i P (call (x i)) sv = Some sv1" "foldo (\<lambda>i. on_slot i P (call (x i))) is sv1 = Some sv'"
    by (auto split: option.splits)
  have "table_ok sv1 \<and> same_rest sv sv1" using Cons.prems 1 by (intro slot_keeps) auto
  then show ?case using Cons.IH [of sv1] 1(2) Cons.prems same_rest_trans by auto
qed simp

lemma slots_total:
  assumes "table_ok sv" "set is \<subseteq> {..<MAX_RTC_SESSIONS}" "\<And>i. valid (x i)"
  shows "\<exists>sv'. foldo (\<lambda>i. on_slot i P (call (x i))) is sv = Some sv'"
proof -
  have "\<exists>sv'. foldo (\<lambda>i. on_slot i P (call (x i))) is sv = Some sv' \<and> table_ok sv'"
  proof (rule foldo_defined [where P = table_ok, OF assms(1)])
    fix i and y :: "('ssl, 'srtp) server"
    assume i: "i \<in> set is" "table_ok y"
    then have "i < MAX_RTC_SESSIONS" using assms(2) by auto
    then show "\<exists>z. on_slot i P (call (x i)) y = Some z \<and> table_ok z"
      using slot_total [OF i(2) _ assms(3)] slot_keeps [OF i(2)] by blast
  qed
  then show ?thesis by blast
qed

text \<open>A pass over distinct slots calls every session it covers exactly once.\<close>

lemma slots_result:
  assumes "foldo (\<lambda>i. on_slot i P (call (x i))) is sv = Some sv'" "distinct is" "j < length (sv_sessions sv)"
  shows "sv_sessions sv' ! j = (if j \<in> set is then called P (call (x j)) (sv_sessions sv ! j) else sv_sessions sv ! j)"
  using assms
proof (induction "is" arbitrary: sv)
  case (Cons i "is")
  then obtain sv1 where 1: "on_slot i P (call (x i)) sv = Some sv1" "foldo (\<lambda>i. on_slot i P (call (x i))) is sv1 = Some sv'"
    by (auto split: option.splits)
  have "length (sv_sessions sv1) = length (sv_sessions sv)" using slot_only [OF 1(1)] by simp
  then show ?case using Cons.IH [OF 1(2)] Cons.prems slot_only [OF 1(1)] by (cases "j = i") auto
qed simp

end

definition valid_datagram :: "('ssl, 'srtp) datagram \<Rightarrow> bool" where
  "valid_datagram d \<longleftrightarrow> (case d of (env, buf, n, source) \<Rightarrow>
     length buf = 2048 \<and> n \<le> 2048 \<and> (\<exists>ip port. source = Inet ip port) \<and> small_growth (env_lib env))"

definition udp_call :: "('ssl, 'srtp) datagram \<Rightarrow> ('ssl, 'srtp) rtc_session \<Rightarrow> ('ssl, 'srtp) rtc_session option" where
  "udp_call d = (case d of (env, buf, n, source) \<Rightarrow> rtc_session_on_udp env buf n source)"

definition tick_call :: "('ssl, 'srtp) rtc_env \<times> u64 \<Rightarrow> ('ssl, 'srtp) rtc_session \<Rightarrow> ('ssl, 'srtp) rtc_session option" where
  "tick_call x = rtc_session_tick (fst x) (snd x)"

definition send_call :: "('ssl, 'srtp) rtc_env \<times> bytes \<times> u64 \<times> bool \<Rightarrow> ('ssl, 'srtp) rtc_session \<Rightarrow>
    ('ssl, 'srtp) rtc_session option" where
  "send_call x s = (case x of (env, au, pts, idr) \<Rightarrow> map_option snd (rtc_session_send_access_unit env (Some au) pts idr s))"

lemma session_ops_defined:
  assumes "rtc_reach s" "small_growth (env_lib env)"
  shows "n \<le> length buf \<Longrightarrow> 2 \<le> length buf \<Longrightarrow> rtc_session_on_udp env buf n (Inet ip port) s \<noteq> None"
    "rtc_session_tick env now s \<noteq> None" "rtc_session_send_access_unit env au pts idr s \<noteq> None"
  using on_udp_ok_session [of n buf "Inet ip port" ip port env s] tick_no_fault [OF assms(2)]
    send_au_no_fault [OF reach_inv [OF assms(1)] assms(2)] by auto

interpretation udp: session_call udp_call valid_datagram
proof
  fix x :: "('ssl, 'srtp) datagram" and s s' :: "('ssl, 'srtp) rtc_session"
  assume r: "rtc_reach s"
  obtain env buf n source where x: "x = (env, buf, n, source)" by (cases x)
  show "udp_call x s = Some s' \<Longrightarrow> rtc_reach s'"
    using stepped [OF r, where e = "EvUdp buf n source" and env = env] by (simp add: udp_call_def x)
  show "valid_datagram x \<Longrightarrow> udp_call x s \<noteq> None"
    using session_ops_defined(1) [OF r] by (auto simp: udp_call_def x valid_datagram_def)
qed

interpretation tick: session_call tick_call "\<lambda>x. small_growth (env_lib (fst x))"
proof
  fix x :: "('ssl, 'srtp) rtc_env \<times> u64" and s s' :: "('ssl, 'srtp) rtc_session"
  assume r: "rtc_reach s"
  show "tick_call x s = Some s' \<Longrightarrow> rtc_reach s'"
    using stepped [OF r, where e = "EvTick (snd x)" and env = "fst x"] by (simp add: tick_call_def)
  show "small_growth (env_lib (fst x)) \<Longrightarrow> tick_call x s \<noteq> None"
    using session_ops_defined(2) [OF r] by (simp add: tick_call_def)
qed

interpretation send: session_call send_call "\<lambda>x. small_growth (env_lib (fst x))"
proof
  fix x :: "('ssl, 'srtp) rtc_env \<times> bytes \<times> u64 \<times> bool" and s s' :: "('ssl, 'srtp) rtc_session"
  assume r: "rtc_reach s"
  obtain env au pts idr where x: "x = (env, au, pts, idr)" by (cases x)
  show "send_call x s = Some s' \<Longrightarrow> rtc_reach s'"
    using stepped [OF r, where e = "EvSend (Some au) pts idr" and env = env] by (simp add: send_call_def x)
  show "small_growth (env_lib (fst x)) \<Longrightarrow> send_call x s \<noteq> None"
    using session_ops_defined(3) [OF r] by (auto simp: send_call_def x)
qed

section \<open>The phases of a turn keep the table\<close>

text \<open>What the whole turn leaves alone, the ring apart.\<close>

definition same_setup :: "('ssl, 'srtp) server \<Rightarrow> ('ssl, 'srtp) server \<Rightarrow> bool" where
  "same_setup sv sv' \<longleftrightarrow> sv_config sv' = sv_config sv \<and> sv_source sv' = sv_source sv \<and>
     sv_encoder_name sv' = sv_encoder_name sv \<and> sv_started_ms sv' = sv_started_ms sv"

lemma same_setup_refl [simp]: "same_setup sv sv"
  by (simp add: same_setup_def)

lemma same_setup_trans: "same_setup a b \<Longrightarrow> same_setup b c \<Longrightarrow> same_setup a c"
  by (simp add: same_setup_def)

lemma rest_setup: "same_rest a b \<Longrightarrow> same_setup a b"
  by (simp add: same_rest_def same_setup_def)

lemma deliver_eq: "deliver i = foldo (\<lambda>d. on_slot i (\<lambda>_. True) (udp_call d))"
  by (simp add: deliver_def udp_call_def case_prod_unfold)

lemma fan_out_one_eq: "fan_out_one envs au pts idr =
    foldo (\<lambda>i. on_slot i (\<lambda>s. rstate s = RTC_STREAMING) (send_call (envs i, au, pts, idr))) [0..<MAX_RTC_SESSIONS]"
  by (simp add: fan_out_one_def send_call_def [abs_def])

lemma tick_all_eq: "tick_all tn =
    foldo (\<lambda>i. on_slot i (\<lambda>_. True) (tick_call (tn_tick_env tn i, tn_now tn))) [0..<MAX_RTC_SESSIONS]"
  by (simp add: tick_all_def tick_call_def)

lemma all_slots: "set [0..<MAX_RTC_SESSIONS] \<subseteq> {..<MAX_RTC_SESSIONS}"
  by auto

lemma tick_all_keeps: "table_ok sv \<Longrightarrow> tick_all tn sv = Some sv' \<Longrightarrow> table_ok sv' \<and> same_rest sv sv'"
  unfolding tick_all_eq by (erule tick.slots_keep [OF _ _ all_slots])

lemma fan_out_one_keeps: "table_ok sv \<Longrightarrow> fan_out_one envs au pts idr sv = Some sv' \<Longrightarrow> table_ok sv' \<and> same_rest sv sv'"
  unfolding fan_out_one_eq by (erule send.slots_keep [OF _ _ all_slots])

lemma deliver_keeps:
  assumes "table_ok sv" "deliver i ds sv = Some sv'" "i < MAX_RTC_SESSIONS"
  shows "table_ok sv' \<and> same_rest sv sv'"
  using assms(2) unfolding deliver_eq
  by (rule foldo_keeps) (use assms(1,3) udp.slot_keeps same_rest_trans in \<open>auto, blast+\<close>)

lemma receive_fd_keeps:
  assumes "table_ok sv" "receive_fd rx fd sv = Some sv'"
  shows "table_ok sv' \<and> same_rest sv sv'"
  using assms(2) unfolding receive_fd_def
proof (rule foldo_keeps [where P = "\<lambda>x. table_ok x \<and> same_rest sv x"])
  show "table_ok sv \<and> same_rest sv sv" using assms(1) by simp
  fix i x y
  assume i: "i \<in> set [0..<MAX_RTC_SESSIONS]" "table_ok x \<and> same_rest sv x"
    and y: "(case sv_sessions x ! i of None \<Rightarrow> Some x | Some s \<Rightarrow> if udp_fd s = fd then deliver i (rx fd i) x else Some x) = Some y"
  then have "y = x \<or> deliver i (rx fd i) x = Some y" by (auto split: option.splits if_splits)
  then show "table_ok y \<and> same_rest sv y" using deliver_keeps [of x i "rx fd i" y] i same_rest_trans by auto
qed

lemma receive_all_keeps:
  assumes "table_ok sv" "receive_all tn sv = Some sv'"
  shows "table_ok sv' \<and> same_rest sv sv'"
  using assms(2) unfolding receive_all_def
  by (rule foldo_keeps [where P = "\<lambda>x. table_ok x \<and> same_rest sv x"])
    (use assms(1) receive_fd_keeps same_rest_trans in \<open>auto, blast+\<close>)

lemma table_update: "table_ok sv \<Longrightarrow> rtc_reach s \<Longrightarrow> sv_sessions sv' = (sv_sessions sv)[i := Some s] \<Longrightarrow> table_ok sv'"
  by (auto simp: table_ok_def dest!: set_update_subset_insert [THEN subsetD])

lemma close_numbered_keeps:
  assumes "table_ok sv" "set is \<subseteq> {..<MAX_RTC_SESSIONS}"
  shows "table_ok (close_numbered env number is sv) \<and> same_rest sv (close_numbered env number is sv)"
  using assms(2)
proof (induction "is")
  case (Cons i "is")
  show ?case
  proof (cases "sv_sessions sv ! i")
    case None
    then show ?thesis using Cons by simp
  next
    case (Some s)
    then have "rtc_reach s" using table_reach [OF assms(1)] Cons.prems by auto
    then have "rtc_reach (rtc_session_close env s)" using stepped [of s env EvClose] by simp
    then show ?thesis using Cons Some table_update [OF assms(1)] put_session_rest by auto
  qed
qed (simp add: assms(1))

lemma free_slot_Some: "free_slot ss = Some i \<Longrightarrow> i < MAX_RTC_SESSIONS \<and> ss ! i = None \<and> (\<forall>j < i. ss ! j \<noteq> None)"
  by (auto simp: free_slot_def find_Some_iff)

section \<open>The answer fits\<close>

lemma sb_put_length: "sb_put b t = Some b' \<Longrightarrow> length (fst b) \<le> snd b \<Longrightarrow> length (fst b') \<le> snd b'"
  by (auto simp: sb_put_def split: if_splits)

lemma extra_loop_length: "extra_loop adv port i ips b = Some b' \<Longrightarrow> length (fst b) \<le> snd b \<Longrightarrow> length (fst b') \<le> snd b'"
proof (induction adv port i ips b rule: extra_loop.induct)
  case (2 adv port i ip ips b)
  let ?l = "line_of (candidate_line (i + 2) (extra_priority i) ip port)"
  show ?case
  proof (cases "ip = [] \<or> ip = adv")
    case False
    then obtain b1 where b1: "sb_put b ?l = Some b1" using 2 by (auto simp: bind_eq_Some_conv simp del: One_nat_def)
    then have "length (fst b1) \<le> snd b1" using sb_put_length 2 by blast
    then show ?thesis using 2 b1 False by (auto split: if_splits)
  qed (use 2 in \<open>simp\<close>)
qed simp

lemma build_answer_length:
  assumes "sdp_build_answer_multi offer fp ufrag pwd ip extra port ssrc cap = Some (n, text)" "0 < n"
  shows "length text < cap"
proof -
  note lens = sb_put_length [folded put_lines_def] extra_loop_length
  show ?thesis
    using assms unfolding sdp_build_answer_multi_def Let_def put_lines_def
    by (auto simp: bind_eq_Some_conv split: if_split_asm dest!: sb_put_length extra_loop_length)
qed

lemma created_answer_length:
  assumes "rtc_session_create env ce cfg cap = Some (Inr (s, answer))"
  shows "length answer < cap"
  using create_cases [OF assms] build_answer_length by (auto simp: sdp_build_answer_def split: if_splits)

lemma c_string_length: "length (c_string t) \<le> length t"
  by (simp add: c_string_def length_takeWhile_le)

lemma js_length [simp]: "length (js t) = length t"
  by (simp add: js_def)

lemma payload_fits:
  assumes "length answer < 8192"
  shows "answer_payload number port answer = Inr (answer_prefix number port @ json_text answer @ answer_suffix)"
proof -
  have h: "length (answer_prefix number port) \<le> 70"
    using dec_u32_bound [of number] dec_u16_bound [of port] by (simp add: answer_prefix_def)
  have t: "length (json_text answer) \<le> 16382" using json_text_length [of answer] assms by simp
  then have "json_escape_append answer (PAYLOAD - length (answer_prefix number port)) = json_text answer"
    using h by (intro escape_append_fits) (simp add: PAYLOAD_def)
  moreover have "json_text answer \<noteq> []" if "answer \<noteq> []"
    using that json_escape_length(2) by (cases answer) (auto simp: json_text_def)
  ultimately show ?thesis using h t by (auto simp: answer_payload_def Let_def PAYLOAD_def answer_suffix_def)
qed

section \<open>What an offer does\<close>

text \<open>The server with one more viewer.\<close>

definition joined :: "nat \<Rightarrow> ('ssl, 'srtp) rtc_session \<Rightarrow> ('ssl, 'srtp) server \<Rightarrow> ('ssl, 'srtp) server" where
  "joined slot s sv = sv\<lparr>sv_sessions := (sv_sessions sv)[slot := Some s],
     sv_sessions_total := sv_sessions_total sv + 1, sv_rtc_active := True, sv_force_idr := True\<rparr>"

lemma accept_cases:
  assumes "accept_offer env oe host offer slot sv = Some (r, sv')"
  shows "r = json_error 500 ''session create failed (UDP port busy?)'' \<and> sv' = sv \<or>
    (\<exists>s answer. rtc_session_create env (oe_create oe) (offer_config oe (sv_config sv) slot host offer) 8192 = Some (Inr (s, answer)) \<and>
      sv' = joined slot s sv \<and>
      r = Reply 200 json_type (answer_prefix (session_number oe) (cfg_udp_port (offer_config oe (sv_config sv) slot host offer)) @
        json_text (c_string answer) @ answer_suffix))"
proof -
  let ?cfg = "offer_config oe (sv_config sv) slot host offer"
  have p: "answer_payload number port (c_string answer) = Inr (answer_prefix number port @ json_text (c_string answer) @ answer_suffix)"
    if "rtc_session_create env (oe_create oe) ?cfg 8192 = Some (Inr (s, answer))" for s answer number port
    using created_answer_length [OF that] c_string_length [of answer] by (intro payload_fits) simp
  consider "rtc_session_create env (oe_create oe) ?cfg 8192 = None"
    | outs where "rtc_session_create env (oe_create oe) ?cfg 8192 = Some (Inl outs)"
    | s answer where "rtc_session_create env (oe_create oe) ?cfg 8192 = Some (Inr (s, answer))"
    by (cases "rtc_session_create env (oe_create oe) ?cfg 8192" rule: option.exhaust) (metis sum.exhaust surj_pair)+
  then show ?thesis
    using assms p by cases (simp_all add: accept_offer_def Let_def joined_def)
qed

lemma offer_cases:
  assumes "handle_rtc_offer env oe m sv = Some (r, sv')"
  shows "(\<exists>code message. code \<in> {400, 413, 500, 503} \<and> r = json_error code message \<and> sv' = sv) \<or>
    (\<exists>text offer slot s answer. json_get_string (request_memory env 16384 (msg_body m)) ''sdp'' 8192 = Some (Some text) \<and>
      sdp_parse_offer (c_string text) = (0, offer) \<and> free_slot (sv_sessions sv) = Some slot \<and>
      rtc_session_create env (oe_create oe) (offer_config oe (sv_config sv) slot (host_header m) offer) 8192 = Some (Inr (s, answer)) \<and>
      sv' = joined slot s sv \<and>
      r = Reply 200 json_type (answer_prefix (session_number oe) (cfg_udp_port (offer_config oe (sv_config sv) slot (host_header m) offer)) @
        json_text (c_string answer) @ answer_suffix))"
proof -
  have a: ?thesis if "json_get_string (request_memory env 16384 (msg_body m)) ''sdp'' 8192 = Some (Some t)"
    "sdp_parse_offer (c_string t) = (0, offer)" "free_slot (sv_sessions sv) = Some slot"
    "accept_offer env oe (host_header m) offer slot sv = Some (r, sv')" for t offer slot
    using accept_cases [OF that(4)] that(1-3) by auto
  show ?thesis
    using assms a unfolding handle_rtc_offer_def
    by (auto split: if_split_asm option.split_asm prod.split_asm)
qed

lemma offer_keeps:
  assumes "table_ok sv" "handle_rtc_offer env oe m sv = Some (r, sv')"
  shows "table_ok sv' \<and> same_setup sv sv' \<and> sv_ring sv' = sv_ring sv"
  using offer_cases [OF assms(2)]
proof (elim disjE exE conjE)
  fix slot s answer offer
  assume c: "rtc_session_create env (oe_create oe) (offer_config oe (sv_config sv) slot (host_header m) offer) 8192 = Some (Inr (s, answer))"
    and sv': "sv' = joined slot s sv"
  have "table_ok sv'" using table_update [OF assms(1) created [OF c]] sv' by (simp add: joined_def)
  then show ?thesis using sv' by (simp add: joined_def same_setup_def)
qed (use assms in \<open>auto\<close>)

section \<open>The fan out\<close>

text \<open>What the fan out does to one viewer: the access units in order, for as long as it is streaming.\<close>

fun send_units :: "(nat \<Rightarrow> ('ssl, 'srtp) rtc_env) \<Rightarrow> (bytes \<times> u64 \<times> int) list \<Rightarrow> ('ssl, 'srtp) rtc_session option \<Rightarrow>
    ('ssl, 'srtp) rtc_session option" where
  "send_units envs [] entry = entry"
| "send_units envs ((d, pts, idr) # q) entry =
     send_units envs q (called (\<lambda>s. rstate s = RTC_STREAMING) (send_call (envs (length q + 1), d, pts, idr \<noteq> 0)) entry)"

lemma fan_out_empty: "ring_inv ring \<Longrightarrow> au_contents ring = [] \<Longrightarrow>
    fan_out envs ring buffer sv = Some (buffer, sv\<lparr>sv_ring := ring\<rparr>)"
  using contents_nonempty [of ring] by (subst fan_out.simps) (simp add: au_ring_pop_def)

lemma fan_out_step:
  assumes "ring_inv ring" "slot_capacity ring \<le> AU_SLOT_CAPACITY" "length buffer = AU_SLOT_CAPACITY"
    "au_contents ring = (d, pts, idr) # q"
  obtains ring' buffer' where "ring_inv ring'" "slot_capacity ring' \<le> AU_SLOT_CAPACITY" "length buffer' = AU_SLOT_CAPACITY"
    "au_contents ring' = q"
    "\<And>envs sv. fan_out envs ring buffer sv =
      (case fan_out_one (envs (length q + 1)) d pts (idr \<noteq> 0) sv of None \<Rightarrow> None | Some sv' \<Rightarrow> fan_out envs ring' buffer' sv')"
proof -
  obtain ring' m where p: "au_ring_pop ring buffer AU_SLOT_CAPACITY = Some (1, ring', d @ drop (length d) buffer,
       Some \<lparr>au_pts = pts, au_seq = m, au_idr = idr, au_size = length d\<rparr>)"
    "ring_inv ring'" "au_contents ring' = q" "slot_capacity ring' = slot_capacity ring" "length d \<le> AU_SLOT_CAPACITY"
    by (rule pop_into [OF assms(1,2) _ assms(4), of buffer]) (use assms(3) in auto)
  have n: "ring_count ring = length q + 1" using assms(4) contents_length [of ring] by simp
  have "fan_out envs ring buffer sv =
      (case fan_out_one (envs (length q + 1)) d pts (idr \<noteq> 0) sv of None \<Rightarrow> None
       | Some sv' \<Rightarrow> fan_out envs ring' (d @ drop (length d) buffer) sv')" for envs sv
    by (subst fan_out.simps) (simp add: p(1) n)
  from that [OF p(2) _ _ p(3) this] show thesis using p(4,5) assms(2,3) by simp
qed

lemma fan_out_result:
  fixes sv :: "('ssl, 'srtp) server"
  assumes "ring_inv ring" "slot_capacity ring \<le> AU_SLOT_CAPACITY" "length buffer = AU_SLOT_CAPACITY"
    "table_ok sv" "fan_out envs ring buffer sv = Some (buffer', sv')"
  shows "table_ok sv' \<and> same_setup sv sv' \<and> sv_sessions_total sv' = sv_sessions_total sv \<and>
    ring_inv (sv_ring sv') \<and> au_contents (sv_ring sv') = [] \<and> slot_capacity (sv_ring sv') \<le> AU_SLOT_CAPACITY \<and>
    (\<forall>j < MAX_RTC_SESSIONS. sv_sessions sv' ! j = send_units (\<lambda>k. envs k j) (au_contents ring) (sv_sessions sv ! j))"
  using assms
proof (induction "au_contents ring" arbitrary: ring buffer sv)
  case Nil
  then show ?case using fan_out_empty [of ring envs buffer sv] by (auto simp: table_ok_def same_setup_def)
next
  case (Cons x q)
  obtain d pts idr where x: "x = (d, pts, idr)" by (cases x)
  obtain ring1 buffer1 where s: "ring_inv ring1" "slot_capacity ring1 \<le> AU_SLOT_CAPACITY" "length buffer1 = AU_SLOT_CAPACITY"
    "au_contents ring1 = q"
    and f: "\<And>envs (sv :: ('ssl, 'srtp) server). fan_out envs ring buffer sv =
      (case fan_out_one (envs (length q + 1)) d pts (idr \<noteq> 0) sv of None \<Rightarrow> None | Some sv' \<Rightarrow> fan_out envs ring1 buffer1 sv')"
    using fan_out_step [OF Cons.prems(1-3)] Cons.hyps(2) x by metis
  obtain sv1 where sv1: "fan_out_one (envs (length q + 1)) d pts (idr \<noteq> 0) sv = Some sv1"
    "fan_out envs ring1 buffer1 sv1 = Some (buffer', sv')"
    using Cons.prems(5) f [of envs sv] by (auto split: option.splits)
  note k = fan_out_one_keeps [OF Cons.prems(4) sv1(1)]
  have r: "sv_sessions sv1 ! j = called (\<lambda>s. rstate s = RTC_STREAMING)
      (send_call (envs (length q + 1) j, d, pts, idr \<noteq> 0)) (sv_sessions sv ! j)" if "j < MAX_RTC_SESSIONS" for j
    using send.slots_result [OF sv1(1) [unfolded fan_out_one_eq]] that Cons.prems(4) by (simp add: table_ok_def)
  note IH = Cons.hyps(1) [of ring1 buffer1 sv1, OF s(4) [symmetric] s(1-3) _ sv1(2)]
  show ?case
    using IH k r s(4) Cons.hyps(2) [symmetric] x by (auto simp: same_rest_def same_setup_def)
qed

lemma fan_out_total:
  fixes sv :: "('ssl, 'srtp) server"
  assumes "ring_inv ring" "slot_capacity ring \<le> AU_SLOT_CAPACITY" "length buffer = AU_SLOT_CAPACITY"
    "table_ok sv" "\<And>k j. small_growth (env_lib (envs k j))"
  shows "\<exists>b sv'. fan_out envs ring buffer sv = Some (b, sv')"
  using assms(1-4)
proof (induction "au_contents ring" arbitrary: ring buffer sv)
  case Nil
  then show ?case using fan_out_empty [of ring envs buffer sv] by simp
next
  case (Cons x q)
  obtain d pts idr where x: "x = (d, pts, idr)" by (cases x)
  obtain ring1 buffer1 where s: "ring_inv ring1" "slot_capacity ring1 \<le> AU_SLOT_CAPACITY" "length buffer1 = AU_SLOT_CAPACITY"
    "au_contents ring1 = q"
    and f: "\<And>envs (sv :: ('ssl, 'srtp) server). fan_out envs ring buffer sv =
      (case fan_out_one (envs (length q + 1)) d pts (idr \<noteq> 0) sv of None \<Rightarrow> None | Some sv' \<Rightarrow> fan_out envs ring1 buffer1 sv')"
    using fan_out_step [OF Cons.prems(1-3)] Cons.hyps(2) x by metis
  obtain sv1 where sv1: "fan_out_one (envs (length q + 1)) d pts (idr \<noteq> 0) sv = Some sv1"
    using send.slots_total [OF Cons.prems(4) all_slots, of "\<lambda>i. (envs (length q + 1) i, d, pts, idr \<noteq> 0)"] assms(5)
    unfolding fan_out_one_eq fst_conv by blast
  then show ?case
    using Cons.hyps(1) [of ring1 buffer1 sv1] s f [of envs sv] fan_out_one_keeps [OF Cons.prems(4) sv1] by simp
qed

end
