(* ===== verification/App_Turn.thy ===== *)
theory App_Turn
  imports App_Table
begin

text \<open>
  A turn of the main loop of \<^verbatim>\<open>src/app/app_server.c\<close> as a whole: the requests are answered without
  leaving a buffer (an offer, the status page), and the phases of the turn take the server from one
  state that satisfies \<open>server_ok\<close> to another.
\<close>

section \<open>Requests that get their answer\<close>

lemma create_total:
  assumes "small_offer (cfg_offer cfg)" "0 \<le> h264_payload_type (cfg_offer cfg)" "length (ce_fingerprint ce) \<le> 127"
    "length (advertise_ip cfg) \<le> 63" "\<forall>x \<in> set (extra_ips cfg). length x \<le> 63" "length (extra_ips cfg) < 1000"
  shows "rtc_session_create env ce cfg cap \<noteq> None"
proof -
  let ?c = "generate_credentials (ce_raw ce)"
  have f: "fields_fit (cfg_offer cfg) (ce_fingerprint ce) (fst ?c) (snd ?c) (advertise_ip cfg)"
    using assms credentials_shape by (auto simp: fields_fit_def small_offer_def)
  have 1: "sdp_build_answer_multi (cfg_offer cfg) (ce_fingerprint ce) (fst ?c) (snd ?c)
      (advertise_ip cfg) (extra_ips cfg) port (session_ssrc ce) cap \<noteq> None" for port
    using answer_in_buffer [OF f assms(5,6), of port "session_ssrc ce" cap] by auto
  have 2: "sdp_build_answer (cfg_offer cfg) (ce_fingerprint ce) (fst ?c) (snd ?c)
      (advertise_ip cfg) port (session_ssrc ce) cap \<noteq> None" for port
    using answer_in_buffer [OF f, of "[]" port "session_ssrc ce" cap] by (auto simp: sdp_build_answer_def)
  have "local_ufrag (fresh_session env ce cfg fd port d) = fst ?c"
    "local_pwd (fresh_session env ce cfg fd port d) = snd ?c" for fd port d
    by (simp_all add: fresh_session_def)
  then show ?thesis using 1 2 unfolding rtc_session_create_def Let_def
    by (simp split: option.split prod.split add: Option.bind_eq_None_conv del: not_None_eq)
qed

lemma advertise_length: "length (choose_advertise_ip addrs host) \<le> 63"
  using advertised_facts [of addrs host] ntop_length by (fastforce intro: order_trans)

lemma extra_short:
  "x \<in> set (extra_ip_list r (map if_ip (collect_interfaces addrs 16))) \<Longrightarrow> length x \<le> 63"
  "length (extra_ip_list r (map if_ip (collect_interfaces addrs 16))) < 1000"
proof -
  note e = extra_loop_props [of "[]" r "map inet_ntop4 (local_ips addrs)"]
  show "length (extra_ip_list r (map if_ip (collect_interfaces addrs 16))) < 1000"
    using e by (simp add: extra_ip_list_def collected_ips)
  assume "x \<in> set (extra_ip_list r (map if_ip (collect_interfaces addrs 16)))"
  then obtain ip where "x = inet_ntop4 ip" using e by (auto simp: extra_ip_list_def collected_ips)
  then show "length x \<le> 63" using ntop_length [of ip] by simp
qed

lemma offer_total:
  assumes "safe_body (msg_body m)" "length (ce_fingerprint (oe_create oe)) \<le> 127"
  shows "handle_rtc_offer env oe m sv \<noteq> None"
proof -
  have a: "accept_offer env oe host offer slot sv \<noteq> None" if "sdp_parse_offer t = (0, offer)" for host offer slot t
  proof -
    let ?cfg = "offer_config oe (sv_config sv) slot host offer"
    have "rtc_session_create env (oe_create oe) ?cfg 8192 \<noteq> None"
      using parsed_offer_small [OF that] assms(2) advertise_length extra_short
      by (intro create_total) (auto simp: offer_config_def Let_def)
    then show ?thesis by (auto simp: accept_offer_def Let_def split: option.split sum.split)
  qed
  have j: "json_get_string (request_memory env 16384 (msg_body m)) ''sdp'' 8192 \<noteq> None"
    unfolding request_memory_def by (rule json_get_string_safe [OF assms(1)])
  show ?thesis
    using j a by (auto simp: handle_rtc_offer_def split: option.split prod.split simp del: not_None_eq)
qed

section \<open>The status page\<close>

text \<open>The whole text of the page.\<close>

fun sessions_text :: "u16 \<Rightarrow> nat \<Rightarrow> bool \<Rightarrow> ('ssl, 'srtp) rtc_session option list \<Rightarrow> string" where
  "sessions_text base i later [] = []"
| "sessions_text base i later (None # ss) = sessions_text base (i + 1) later ss"
| "sessions_text base i later (Some s # ss) = status_session base i later s @ sessions_text base (i + 1) True ss"

fun interfaces_text :: "bool \<Rightarrow> interface_info list \<Rightarrow> string" where
  "interfaces_text later [] = []"
| "interfaces_text later (x # xs) =
     (if later then '','' else []) @ js ''{`name`:`'' @ if_name x @ js ''`,`ip`:`'' @ if_ip x @ js ''`}'' @
     interfaces_text True xs"

definition status_text :: "status_env \<Rightarrow> ('ssl, 'srtp) server \<Rightarrow> string" where
  "status_text se sv =
     status_head se sv @ sessions_text (ac_udp_base_port (sv_config sv)) 0 False (sv_sessions sv) @
     js ''],`interfaces`:['' @ interfaces_text False (collect_interfaces (se_ifs se) 16) @ '']}'' @ [CHR 0x0A]"

lemma put_at_fits: "length b + length t < cap \<Longrightarrow> put_at cap t (b, length b) = Some (b @ t, length (b @ t))"
  by (simp add: put_at_def)

lemma u64_text_length: "length (u64_text v) \<le> 20"
proof -
  have "unat v < 2 ^ LENGTH(64)" by (rule unsigned_less)
  then show ?thesis unfolding u64_text_def by (intro dec_nat_bound) auto
qed

lemma number_lengths [simp]: "length (u32_text v) \<le> 10" "length (u16_text w) \<le> 5"
  using dec_u32_bound dec_u16_bound by (simp_all add: u32_text_def u16_text_def)

lemma status_session_length: "length (status_session base i later s) \<le> 210"
proof -
  have "length (rtc_session_state_name (rstate s)) \<le> 9" by (cases "rstate s") (simp_all add: rtc_session_state_name_def)
  moreover note number_lengths(1) [of "cfg_id (config s)"] number_lengths(1) [of "ucast base + of_nat i"]
    number_lengths(1) [of "pli_received (stats s)"] number_lengths(1) [of "nacks_received (stats s)"]
    number_lengths(1) [of "retransmissions (stats s)"] u64_text_length [of "packets_sent (stats s)"]
    u64_text_length [of "bytes_sent (stats s)"]
  ultimately show ?thesis by (simp add: status_session_def Let_def del: number_lengths)
qed

lemma status_sessions_fit:
  "length b + 210 * length ss < 8192 \<Longrightarrow>
   status_sessions base i later ss (b, length b) =
     Some (b @ sessions_text base i later ss, length (b @ sessions_text base i later ss)) \<and>
   length (sessions_text base i later ss) \<le> 210 * length ss"
proof (induction ss arbitrary: b i later)
  case (Cons o1 ss)
  show ?case
  proof (cases o1)
    case None
    then show ?thesis using Cons.IH [of b "i + 1" later] Cons.prems by simp
  next
    case (Some s)
    have l: "length (status_session base i later s) \<le> 210" by (rule status_session_length)
    have p: "put_at 8192 (status_session base i later s) (b, length b) =
        Some (b @ status_session base i later s, length (b @ status_session base i later s))"
      using l Cons.prems by (intro put_at_fits) simp
    show ?thesis using Cons.IH [of "b @ status_session base i later s" "i + 1" True] Cons.prems l p Some by simp
  qed
qed simp

lemma interfaces_fit:
  assumes "\<forall>x \<in> set xs. length (if_name x) \<le> 16 \<and> length (if_ip x) \<le> 15" "length b + 60 * length xs < 8192"
  shows "status_interfaces later xs (b, length b) =
     Some (b @ interfaces_text later xs, length (b @ interfaces_text later xs)) \<and>
   length (interfaces_text later xs) \<le> 60 * length xs"
  using assms
proof (induction xs arbitrary: b later)
  case (Cons x xs)
  let ?t = "(if later then '','' else []) @ js ''{`name`:`'' @ if_name x @ js ''`,`ip`:`'' @ if_ip x @ js ''`}''"
  have l: "length ?t \<le> 60" using Cons.prems by auto
  have p: "put_at 8192 ?t (b, length b) = Some (b @ ?t, length (b @ ?t))"
    using l Cons.prems(2) by (intro put_at_fits) simp
  have "interfaces_text later (x # xs) = ?t @ interfaces_text True xs" by simp
  then show ?case using Cons.IH [of "b @ ?t" True] Cons.prems l p by (simp del: interfaces_text.simps)
qed simp

lemma status_head_length: "length (status_head se sv) \<le>
    850 + length (vs_name (sv_source sv)) + length (sv_encoder_name sv) + length (ac_encoder (sv_config sv))"
proof -
  note u64_text_length [of "(se_now_ms se - sv_started_ms sv) div 1000"] u64_text_length [of "se_captured se"]
    u64_text_length [of "se_encoded se"] u64_text_length [of "ring_dropped (sv_ring sv)"]
    u64_text_length [of "sv_sessions_total sv"] u64_text_length [of "se_frames_seen se"]
    u64_text_length [of "se_skipped_idle se"] u64_text_length [of "se_skipped_mismatch se"]
    u64_text_length [of "se_skipped_bad_size se"] u64_text_length [of "se_no_output se"]
    number_lengths(1) [of "vs_width (sv_source sv)"] number_lengths(1) [of "vs_height (sv_source sv)"]
    number_lengths(1) [of "vs_fps (sv_source sv)"] number_lengths(1) [of "ac_bitrate_kbps (sv_config sv)"]
    number_lengths(1) [of "ac_keyframe_seconds (sv_config sv)"] number_lengths(2) [of "ac_http_port (sv_config sv)"]
    number_lengths(2) [of "ac_udp_base_port (sv_config sv)"]
  then show ?thesis by (simp add: status_head_def Let_def del: number_lengths)
qed

lemma collected_short:
  "x \<in> set (collect_interfaces addrs 16) \<Longrightarrow> length (if_name x) \<le> 16 \<and> length (if_ip x) \<le> 15"
  "length (collect_interfaces addrs 16) \<le> 16"
proof -
  show "length (collect_interfaces addrs 16) \<le> 16"
    by (cases addrs) (simp_all add: collect_interfaces_def collect_loop_eq)
  assume "x \<in> set (collect_interfaces addrs 16)"
  then show "length (if_name x) \<le> 16 \<and> length (if_ip x) \<le> 15"
    by (cases addrs) (auto simp: collect_interfaces_def collect_loop_eq ntop_length dest!: in_set_takeD)
qed

lemma status_fits:
  assumes "length (sv_sessions sv) = MAX_RTC_SESSIONS"
    "length (vs_name (sv_source sv)) + length (sv_encoder_name sv) + length (ac_encoder (sv_config sv)) \<le> 4600"
  shows "handle_status se sv = Some (Reply 200 json_type (status_text se sv))"
proof -
  let ?h = "status_head se sv" and ?ss = "sessions_text (ac_udp_base_port (sv_config sv)) 0 False (sv_sessions sv)"
  let ?m = "js ''],`interfaces`:[''" and ?is = "interfaces_text False (collect_interfaces (se_ifs se) 16)"
  let ?e = "'']}'' @ [CHR 0x0A]"
  have h: "length ?h \<le> 5450" using status_head_length [of se sv] assms(2) by simp
  have 1: "put_at 8192 ?h ([], 0) = Some (?h, length ?h)" using put_at_fits [of "[]" ?h 8192] h by simp
  have 2: "status_sessions (ac_udp_base_port (sv_config sv)) 0 False (sv_sessions sv) (?h, length ?h) =
      Some (?h @ ?ss, length (?h @ ?ss))" and l2: "length ?ss \<le> 1680"
    using status_sessions_fit [of ?h "sv_sessions sv"] h assms(1) by (simp_all add: MAX_RTC_SESSIONS_def)
  have 3: "put_at 8192 ?m (?h @ ?ss, length (?h @ ?ss)) = Some (?h @ ?ss @ ?m, length (?h @ ?ss @ ?m))"
    using put_at_fits [of "?h @ ?ss" ?m 8192] h l2 by simp
  have 4: "status_interfaces False (collect_interfaces (se_ifs se) 16) (?h @ ?ss @ ?m, length (?h @ ?ss @ ?m)) =
      Some (?h @ ?ss @ ?m @ ?is, length (?h @ ?ss @ ?m @ ?is))" and l4: "length ?is \<le> 960"
    using interfaces_fit [of "collect_interfaces (se_ifs se) 16" "?h @ ?ss @ ?m" False]
      collected_short(1) [of _ "se_ifs se"] collected_short(2) [of "se_ifs se"] h l2 by auto
  have 5: "put_at 8192 ?e (?h @ ?ss @ ?m @ ?is, length (?h @ ?ss @ ?m @ ?is)) =
      Some (?h @ ?ss @ ?m @ ?is @ ?e, length (?h @ ?ss @ ?m @ ?is @ ?e))"
    using put_at_fits [of "?h @ ?ss @ ?m @ ?is" ?e 8192] h l2 l4 by simp
  show ?thesis unfolding handle_status_def 1 2 3 4 5 Option.bind.simps status_text_def fst_conv ..
qed

section \<open>A whole turn\<close>

definition small_names :: "('ssl, 'srtp) server \<Rightarrow> bool" where
  "small_names sv \<longleftrightarrow> length (vs_name (sv_source sv)) + length (sv_encoder_name sv) + length (ac_encoder (sv_config sv)) \<le> 4600"

definition valid_request :: "('ssl, 'srtp) request \<Rightarrow> bool" where
  "valid_request rq \<longleftrightarrow> safe_body (msg_body (rq_message rq)) \<and> length (ce_fingerprint (oe_create (rq_offer rq))) \<le> 127"

definition valid_turn :: "('ssl, 'srtp) turn \<Rightarrow> bool" where
  "valid_turn tn \<longleftrightarrow> (\<forall>fd i. \<forall>d \<in> set (tn_rx tn fd i). valid_datagram d) \<and> (\<forall>rq \<in> set (tn_requests tn). valid_request rq) \<and>
     (\<forall>i. small_growth (env_lib (tn_tick_env tn i))) \<and> (\<forall>k i. small_growth (env_lib (tn_send_env tn k i))) \<and>
     length (tn_buffer tn) = AU_SLOT_CAPACITY"

lemma http_cases:
  assumes "http_event_handler rq sv = Some (r, sv')"
  shows "handle_rtc_offer (rq_env rq) (rq_offer rq) (rq_message rq) sv = Some (r, sv') \<or>
    handle_rtc_close (rq_env rq) (rq_message rq) sv = (r, sv') \<or> sv' = sv"
  using assms by (auto simp: http_event_handler_def Let_def split: if_split_asm)

lemma request_keeps:
  assumes "table_ok sv" "http_event_handler rq sv = Some (r, sv')"
  shows "table_ok sv' \<and> same_setup sv sv' \<and> sv_ring sv' = sv_ring sv"
proof -
  have "table_ok (snd (handle_rtc_close env m sv)) \<and> same_rest sv (snd (handle_rtc_close env m sv))" for env m
    using close_numbered_keeps [OF assms(1) all_slots] assms(1)
    by (simp add: handle_rtc_close_def split: option.split)
  then have c: "table_ok (snd (handle_rtc_close env m sv)) \<and> same_setup sv (snd (handle_rtc_close env m sv)) \<and>
      sv_ring (snd (handle_rtc_close env m sv)) = sv_ring sv" for env m
    using rest_setup [of sv] by (auto simp: same_rest_def)
  show ?thesis
    using assms offer_keeps [OF assms(1)] c
    by (auto simp: http_event_handler_def Let_def split: if_split_asm) (metis snd_conv)+
qed

lemma request_total:
  assumes "table_ok sv" "small_names sv" "valid_request rq"
  shows "http_event_handler rq sv \<noteq> None"
  using assms offer_total status_fits [of sv]
  by (auto simp: http_event_handler_def Let_def valid_request_def small_names_def table_ok_def)

lemma serve_http_keeps:
  assumes "table_ok sv" "serve_http rqs (rs, sv) = Some (rs', sv')"
  shows "table_ok sv' \<and> same_setup sv sv' \<and> sv_ring sv' = sv_ring sv"
proof -
  have "table_ok (snd (rs', sv')) \<and> same_setup sv (snd (rs', sv')) \<and> sv_ring (snd (rs', sv')) = sv_ring sv"
    using assms(2) unfolding serve_http_def
  proof (rule foldo_keeps [where P = "\<lambda>x. table_ok (snd x) \<and> same_setup sv (snd x) \<and> sv_ring (snd x) = sv_ring sv"])
    fix rq and x y :: "http_reply list \<times> ('a, 'b) server"
    assume x: "table_ok (snd x) \<and> same_setup sv (snd x) \<and> sv_ring (snd x) = sv_ring sv"
      and y: "(case x of (replies, sv) \<Rightarrow> map_option (\<lambda>(r, sv'). (replies @ [r], sv')) (http_event_handler rq sv)) = Some y"
    obtain r sv1 where "http_event_handler rq (snd x) = Some (r, sv1)" "snd y = sv1"
      using y by (auto simp: case_prod_unfold)
    then show "table_ok (snd y) \<and> same_setup sv (snd y) \<and> sv_ring (snd y) = sv_ring sv"
      using x request_keeps [of "snd x" rq r sv1] same_setup_trans by auto
  qed (use assms(1) in \<open>simp\<close>)
  then show ?thesis by simp
qed

lemma serve_http_total:
  assumes "table_ok sv" "small_names sv" "\<forall>rq \<in> set rqs. valid_request rq"
  shows "\<exists>rs' sv'. serve_http rqs (rs, sv) = Some (rs', sv')"
proof -
  have "\<exists>b. serve_http rqs (rs, sv) = Some b \<and> table_ok (snd b) \<and> small_names (snd b)"
    unfolding serve_http_def
  proof (rule foldo_defined)
    fix rq and x :: "http_reply list \<times> ('a, 'b) server"
    assume rq: "rq \<in> set rqs" and x: "table_ok (snd x) \<and> small_names (snd x)"
    obtain r sv1 where s: "http_event_handler rq (snd x) = Some (r, sv1)"
      using request_total [of "snd x" rq] rq x assms(3) by fastforce
    have "table_ok sv1 \<and> small_names sv1"
      using request_keeps [OF _ s] x by (auto simp: same_setup_def small_names_def)
    then show "\<exists>y. (case x of (replies, sv) \<Rightarrow> map_option (\<lambda>(r, sv'). (replies @ [r], sv')) (http_event_handler rq sv)) = Some y \<and>
        table_ok (snd y) \<and> small_names (snd y)"
      using s by (simp add: case_prod_unfold)
  qed (use assms in \<open>simp\<close>)
  then show ?thesis by auto
qed

lemma deliver_total:
  assumes "table_ok sv" "\<forall>d \<in> set ds. valid_datagram d" "i < MAX_RTC_SESSIONS"
  shows "\<exists>sv'. deliver i ds sv = Some sv'"
proof -
  have "\<exists>sv'. deliver i ds sv = Some sv' \<and> table_ok sv'"
    unfolding deliver_eq
  proof (rule foldo_defined [where P = table_ok, OF assms(1)])
    fix d and x :: "('a, 'b) server"
    assume d: "d \<in> set ds" "table_ok x"
    then obtain y where "on_slot i (\<lambda>_. True) (udp_call d) x = Some y" using udp.slot_total assms(2,3) by blast
    then show "\<exists>y. on_slot i (\<lambda>_. True) (udp_call d) x = Some y \<and> table_ok y"
      using udp.slot_keeps [OF d(2) _ assms(3)] by blast
  qed
  then show ?thesis by blast
qed

lemma receive_all_total:
  assumes "table_ok sv" "valid_turn tn"
  shows "\<exists>sv'. receive_all tn sv = Some sv'"
proof -
  have f: "\<exists>y. receive_fd (tn_rx tn) fd x = Some y \<and> table_ok y" if "table_ok x" for fd and x :: "('a, 'b) server"
    unfolding receive_fd_def
  proof (rule foldo_defined [where P = table_ok, OF that])
    fix i and z :: "('a, 'b) server"
    assume i: "i \<in> set [0..<MAX_RTC_SESSIONS]" "table_ok z"
    then obtain y where y: "deliver i (tn_rx tn fd i) z = Some y"
      using deliver_total [of z "tn_rx tn fd i" i] assms(2) by (auto simp: valid_turn_def)
    then have "table_ok y" using deliver_keeps [OF i(2) y] i(1) by simp
    then show "\<exists>y. (case sv_sessions z ! i of None \<Rightarrow> Some z | Some s \<Rightarrow> if udp_fd s = fd then deliver i (tn_rx tn fd i) z else Some z) = Some y \<and>
        table_ok y"
      using y i(2) by (auto split: option.split)
  qed
  then have "\<exists>sv'. receive_all tn sv = Some sv' \<and> table_ok sv'"
    unfolding receive_all_def by (intro foldo_defined [where P = table_ok, OF assms(1)])
  then show ?thesis by blast
qed

text \<open>The server between two turns.\<close>

definition server_ok :: "('ssl, 'srtp) server \<Rightarrow> bool" where
  "server_ok sv \<longleftrightarrow> table_ok sv \<and> ring_inv (sv_ring sv) \<and> slot_capacity (sv_ring sv) \<le> AU_SLOT_CAPACITY \<and>
     (\<forall>s. Some s \<in> set (sv_sessions sv) \<longrightarrow> rstate s \<noteq> RTC_CLOSED) \<and>
     (sv_rtc_active sv \<longleftrightarrow> (\<exists>s. Some s \<in> set (sv_sessions sv)))"

lemma turn_phases:
  assumes "server_turn tn sv = Some (rs, sv')"
  obtains sv1 sv2 sv3 b sv4 where "receive_all tn sv = Some sv1" "serve_http (tn_requests tn) ([], sv1) = Some (rs, sv2)"
    "tick_all tn sv2 = Some sv3" "fan_out (tn_send_env tn) (sv_ring sv3) (tn_buffer tn) sv3 = Some (b, sv4)" "sv' = reap sv4"
  using assms by (auto simp: server_turn_def bind_eq_Some_conv)

lemma reap_ok:
  assumes "table_ok sv" "ring_inv (sv_ring sv)" "slot_capacity (sv_ring sv) \<le> AU_SLOT_CAPACITY"
  shows "server_ok (reap sv) \<and> same_setup sv (reap sv)"
proof -
  let ?f = "\<lambda>o1. case o1 of None \<Rightarrow> None | Some s \<Rightarrow> if rstate s = RTC_CLOSED then None else Some s"
  have m: "Some s \<in> set (map ?f ss) \<Longrightarrow> Some s \<in> set ss \<and> rstate s \<noteq> RTC_CLOSED" for s ss
    by (auto split: option.splits if_splits)
  have "0 < length (filter (\<lambda>o1. o1 \<noteq> None) ss) \<longleftrightarrow> (\<exists>s. Some s \<in> set ss)" for ss :: "('a, 'b) rtc_session option list"
    by (induction ss) auto
  then show ?thesis using assms m [of _ "sv_sessions sv"]
    by (auto simp: reap_def server_ok_def table_ok_def same_setup_def Let_def simp del: set_map)
qed

lemma turn_keeps:
  assumes "server_ok sv" "server_turn tn sv = Some (rs, sv')" "length (tn_buffer tn) = AU_SLOT_CAPACITY"
  shows "server_ok sv' \<and> same_setup sv sv'"
proof (rule turn_phases [OF assms(2)])
  fix sv1 sv2 sv3 b sv4
  assume 1: "receive_all tn sv = Some sv1" and 2: "serve_http (tn_requests tn) ([], sv1) = Some (rs, sv2)"
    and 3: "tick_all tn sv2 = Some sv3" and 4: "fan_out (tn_send_env tn) (sv_ring sv3) (tn_buffer tn) sv3 = Some (b, sv4)"
    and r: "sv' = reap sv4"
  have o: "table_ok sv" "ring_inv (sv_ring sv)" "slot_capacity (sv_ring sv) \<le> AU_SLOT_CAPACITY"
    using assms(1) by (simp_all add: server_ok_def)
  note k1 = receive_all_keeps [OF o(1) 1]
  note k2 = serve_http_keeps [OF _ 2]
  note k3 = tick_all_keeps [OF _ 3]
  have t3: "table_ok sv3" "sv_ring sv3 = sv_ring sv" "same_setup sv sv3"
    using k1 k2 k3 by (auto simp: same_rest_def same_setup_def)
  note k4 = fan_out_result [OF _ _ assms(3) t3(1) 4]
  show ?thesis using k4 t3 o r reap_ok [of sv4] by (auto simp: same_setup_def)
qed

lemma turn_total:
  assumes "server_ok sv" "small_names sv" "valid_turn tn"
  shows "server_turn tn sv \<noteq> None"
proof -
  have o: "table_ok sv" "ring_inv (sv_ring sv)" "slot_capacity (sv_ring sv) \<le> AU_SLOT_CAPACITY"
    using assms(1) by (simp_all add: server_ok_def)
  obtain sv1 where 1: "receive_all tn sv = Some sv1" using receive_all_total [OF o(1) assms(3)] by blast
  note k1 = receive_all_keeps [OF o(1) 1]
  have n1: "small_names sv1" using k1 assms(2) by (simp add: same_rest_def small_names_def)
  obtain rs sv2 where 2: "serve_http (tn_requests tn) ([], sv1) = Some (rs, sv2)"
    using serve_http_total [of sv1 "tn_requests tn" "[]"] k1 n1 assms(3) by (auto simp: valid_turn_def)
  note k2 = serve_http_keeps [OF _ 2]
  obtain sv3 where 3: "tick_all tn sv2 = Some sv3"
    using tick.slots_total [of sv2 "[0..<MAX_RTC_SESSIONS]" "\<lambda>i. (tn_tick_env tn i, tn_now tn)" "\<lambda>_. True"] k1 k2 assms(3)
    by (auto simp: valid_turn_def tick_all_eq atLeast0LessThan)
  note k3 = tick_all_keeps [OF _ 3]
  have t3: "table_ok sv3" "sv_ring sv3 = sv_ring sv" using k1 k2 k3 by (auto simp: same_rest_def)
  have "\<exists>b sv4. fan_out (tn_send_env tn) (sv_ring sv3) (tn_buffer tn) sv3 = Some (b, sv4)"
    by (rule fan_out_total) (use o t3 assms(3) in \<open>simp_all add: valid_turn_def\<close>)
  then show ?thesis using 1 2 3 by (auto simp: server_turn_def)
qed

end
