(* ===== verification/App_Props.thy ===== *)
theory App_Props
  imports App_Turn
begin

text \<open>
  The life of the server as a step relation (turns of the main loop interleaved with what the encoder
  thread does to the ring and the keyframe flag), its invariant, and what an offer and its reply do.
\<close>

section \<open>The life of the server\<close>

inductive server_reach :: "('ssl, 'srtp) server \<Rightarrow> bool" where
  started: "au_ring_create True memory AU_SLOT_CAPACITY AU_RING_SLOTS = Some ring \<Longrightarrow>
    server_reach (server_init cfg source name ring now)"
| turned: "server_reach sv \<Longrightarrow> length (tn_buffer tn) = AU_SLOT_CAPACITY \<Longrightarrow> server_turn tn sv = Some (replies, sv') \<Longrightarrow>
    server_reach sv'"
| encoded: "server_reach sv \<Longrightarrow> au_ring_push (sv_ring sv) data pts idr = Some (rc, ring) \<Longrightarrow>
    server_reach (sv\<lparr>sv_ring := ring\<rparr>)"
| keyed: "server_reach sv \<Longrightarrow> server_reach (sv\<lparr>sv_force_idr := False\<rparr>)"

lemma reach_ok: "server_reach sv \<Longrightarrow> server_ok sv"
proof (induction rule: server_reach.induct)
  case (started memory ring cfg source name now)
  then show ?case using create_ring_inv [OF started]
    by (simp add: server_ok_def table_ok_def server_init_def)
next
  case (turned sv tn replies sv')
  then show ?case using turn_keeps by blast
next
  case (encoded sv data pts idr rc ring)
  then show ?case using push_outcome [OF _ encoded(2)] by (simp add: server_ok_def table_ok_def)
next
  case (keyed sv)
  then show ?case by (simp add: server_ok_def table_ok_def)
qed

section \<open>A server to evaluate with\<close>

definition demo_memory :: "nat \<Rightarrow> u8" where
  "demo_memory = (\<lambda>_. 0)"

definition demo_big_ring :: au_ring where
  "demo_big_ring = the (au_ring_create True demo_memory AU_SLOT_CAPACITY AU_RING_SLOTS)"

lemma demo_big_ring: "au_ring_create True demo_memory AU_SLOT_CAPACITY AU_RING_SLOTS = Some demo_big_ring"
  by (simp add: demo_big_ring_def au_ring_create_def AU_SLOT_CAPACITY_def AU_RING_SLOTS_def)

definition demo_source :: video_source where
  "demo_source = \<lparr>vs_name = ''test pattern'', vs_width = 640, vs_height = 480, vs_fps = 30, vs_stride = 1280,
     vs_format = 0, vs_frame_size = 614400\<rparr>"

definition demo_server :: "(nat, bytes) server" where
  "demo_server = server_init demo_app_config demo_source ''x264'' demo_big_ring 0"

lemma demo_server_reach: "server_reach demo_server"
  unfolding demo_server_def by (rule started [OF demo_big_ring])

definition quiet_turn :: "u64 \<Rightarrow> (nat, bytes) turn" where
  "quiet_turn now = \<lparr>tn_poll_env = demo_env now, tn_ready = (\<lambda>_. False), tn_rx = (\<lambda>_ _. []), tn_requests = [],
     tn_now = now, tn_tick_env = (\<lambda>_. demo_env now), tn_send_env = (\<lambda>_ _. demo_env now),
     tn_buffer = replicate AU_SLOT_CAPACITY 0\<rparr>"

lemma demo_growth: "small_growth (env_lib (demo_env t))"
  by (simp add: small_growth_def demo_env_def demo_lib_def)

lemma quiet_valid: "valid_turn (quiet_turn now)"
  by (simp add: valid_turn_def quiet_turn_def demo_growth)

section \<open>Properties\<close>

text \<open>
  C28. In every state the server can reach, whatever viewers sent and requested, its table has eight
  entries, each empty or a session that was created by an offer and driven only by the session's own
  operations; between two turns none of them is closed, and the encoder is told to work exactly when
  there is a viewer.
\<close>

theorem server_invariant:
  assumes "server_reach sv"
  shows "length (sv_sessions sv) = 8 \<and>
    (\<forall>s. Some s \<in> set (sv_sessions sv) \<longrightarrow> rtc_reach s \<and> rstate s \<noteq> RTC_CLOSED) \<and>
    (sv_rtc_active sv \<longleftrightarrow> (\<exists>s. Some s \<in> set (sv_sessions sv))) \<and> ring_inv (sv_ring sv)"
  using reach_ok [OF assms] by (simp add: server_ok_def table_ok_def MAX_RTC_SESSIONS_def)

lemma server_invariant_witness:
  "length (sv_sessions demo_server) = 8 \<and>
    (sv_rtc_active demo_server \<longleftrightarrow> (\<exists>s. Some s \<in> set (sv_sessions demo_server)))"
  using server_invariant [OF demo_server_reach] by blast



text \<open>
  C30. A viewer's offer is answered with an error and changes nothing, or it is accepted: then exactly
  one session is added, in the first free place of the table, made for this offer with the session
  number and the UDP port of that place; every other viewer keeps its session, the encoder is told to
  work and a keyframe is asked for. A new session is never taken back because its answer would not fit
  into the reply.
\<close>

theorem offer_outcome:
  assumes "handle_rtc_offer env oe m sv = Some (r, sv')" "length (sv_sessions sv) = 8"
  shows "(\<exists>code message. r = json_error code message \<and> code \<in> {400, 413, 500, 503} \<and> sv' = sv) \<or>
    (\<exists>slot s body. slot < 8 \<and> sv_sessions sv ! slot = None \<and> (\<forall>j < slot. sv_sessions sv ! j \<noteq> None) \<and>
       sv_sessions sv' = (sv_sessions sv)[slot := Some s] \<and> rstate s = RTC_NEW \<and> cfg_id (config s) = session_number oe \<and>
       cfg_udp_port (config s) = of_nat (unat (ac_udp_base_port (sv_config sv)) + slot) \<and>
       r = Reply 200 json_type body \<and> sv_rtc_active sv' \<and> sv_force_idr sv' \<and>
       sv_sessions_total sv' = sv_sessions_total sv + 1)"
  using offer_cases [OF assms(1)]
proof (elim disjE exE conjE)
  fix offer slot s answer
  assume f: "free_slot (sv_sessions sv) = Some slot" and sv': "sv' = joined slot s sv"
    and c: "rtc_session_create env (oe_create oe) (offer_config oe (sv_config sv) slot (host_header m) offer) 8192 = Some (Inr (s, answer))"
    and r: "r = Reply 200 json_type (answer_prefix (session_number oe) (cfg_udp_port (offer_config oe (sv_config sv) slot (host_header m) offer)) @
        json_text (c_string answer) @ answer_suffix)"
  have s: "rstate s = RTC_NEW" "cfg_id (config s) = session_number oe"
    "cfg_udp_port (config s) = of_nat (unat (ac_udp_base_port (sv_config sv)) + slot)"
    using create_cases [OF c] by (auto simp: fresh_session_def offer_config_def Let_def)
  then show ?thesis using free_slot_Some [OF f] sv' r by (auto simp: joined_def MAX_RTC_SESSIONS_def)
qed auto

section \<open>Reading the reply\<close>

lemma json_field_found:
  assumes "strstr_at (xs @ pat @ ys) pat = Some (length xs)" "NUL \<notin> set (xs @ pat @ ys)"
    "pat = QUOTE # field @ [QUOTE]" "length field \<le> 61"
  shows "json_field ((xs @ pat @ ys) @ NUL # rest) field =
    Some (dropWhile (\<lambda>c. c = CHR 0x20 \<or> c = CHR 0x3A) (ys @ NUL # rest))"
proof -
  have c: "c_string ((xs @ pat @ ys) @ NUL # rest) = xs @ pat @ ys"
    using assms(2) by (simp add: c_string_def takeWhile_append takeWhile_tail)
  have p: "take 63 ([QUOTE] @ field @ [QUOTE]) = pat" using assms(3,4) by simp
  have d: "drop (length xs + length pat) ((xs @ pat @ ys) @ NUL # rest) = ys @ NUL # rest" by simp
  show ?thesis unfolding json_field_def Let_def p c assms(1) option.map d ..
qed

lemma json_string_found:
  assumes "strstr_at (xs @ pat @ CHR 0x3A # QUOTE # json_text v @ QUOTE # zs) pat = Some (length xs)"
    "NUL \<notin> set (xs @ pat @ zs)" "NUL \<notin> set v" "pat = QUOTE # field @ [QUOTE]" "length field \<le> 61" "length v < room"
  shows "json_get_string ((xs @ pat @ CHR 0x3A # QUOTE # json_text v @ QUOTE # zs) @ NUL # rest) field room = Some (Some v)"
proof -
  have n: "NUL \<notin> set (xs @ pat @ CHR 0x3A # QUOTE # json_text v @ QUOTE # zs)"
    using assms(2) json_text_no_nul [OF assms(3)] by auto
  have c: "json_copy (json_text v @ QUOTE # zs @ NUL # rest) (room - 1) [] = Some (v, QUOTE # zs @ NUL # rest)"
    using json_copy_text [OF assms(3), of "room - 1" "zs @ NUL # rest" "[]"] assms(6) by simp
  show ?thesis
    using json_field_found [OF assms(1) n assms(4,5), of rest] c by (simp add: json_get_string_def)
qed

lemma json_int_found:
  assumes "strstr_at (xs @ pat @ CHR 0x3A # dec_nat n @ CHR '','' # zs) pat = Some (length xs)"
    "NUL \<notin> set (xs @ pat @ zs)" "pat = QUOTE # field @ [QUOTE]" "length field \<le> 61" "int n \<le> LONG_MAX"
  shows "json_get_int ((xs @ pat @ CHR 0x3A # dec_nat n @ CHR '','' # zs) @ NUL # rest) field = Some (int n)"
proof -
  have d: "NUL \<notin> set (dec_nat n)" using dec_nat_all_digits [of n] by (auto simp: is_digit_def)
  then have m: "NUL \<notin> set (xs @ pat @ CHR 0x3A # dec_nat n @ CHR '','' # zs)" using assms(2) by auto
  obtain c cs where cs: "dec_nat n = c # cs" by (cases "dec_nat n") auto
  then have "is_digit c" using dec_nat_all_digits [of n] by simp
  then have nc: "c \<noteq> CHR 0x20" "c \<noteq> CHR 0x3A" by (auto simp: is_digit_def)
  have t: "c_string (dec_nat n @ CHR '','' # zs @ NUL # rest) = dec_nat n @ CHR '','' # zs"
    using d assms(2) by (simp add: c_string_def takeWhile_append takeWhile_tail)
  have "strtol 10 (dec_nat n @ CHR '','' # zs) = Some (int n, CHR '','' # zs)"
    using assms(5) by (intro strtol_dec_nat) (simp_all add: digit_of_def)
  then show ?thesis
    using json_field_found [OF assms(1) m assms(3,4), of rest] nc t by (simp add: json_get_int_def cs)
qed

text \<open>Where the two fields stand in a reply.\<close>

lemma js_append [simp]: "js (a @ b) = js a @ js b"
  by (simp add: js_def)

lemma js_dec [simp]: "js (dec_nat n) = dec_nat n"
proof -
  have "CHR 0x60 \<notin> set (dec_nat n)" using dec_nat_all_digits [of n] by (auto simp: is_digit_def)
  then show ?thesis unfolding js_def by (intro map_idI) auto
qed

lemma no_quote_dec: "QUOTE \<notin> set (dec_nat n)"
  using dec_nat_all_digits [of n] by (auto simp: is_digit_def)

lemma js_simps [simp]: "js [] = []" "js (c # cs) = (if c = CHR 0x60 then QUOTE else c) # js cs"
  by (simp_all add: js_def)

definition before_sdp :: "u32 \<Rightarrow> u16 \<Rightarrow> string" where
  "before_sdp number port =
     js ''{`type`:`answer`,`session_id`:'' @ dec_nat (unat number) @ js '',`udp_port`:'' @ dec_nat (unat port) @ '',''"

lemma answer_layout:
  "answer_prefix number port @ t @ answer_suffix =
     before_sdp number port @ js ''`sdp`'' @ CHR 0x3A # QUOTE # t @ QUOTE # ''}''"
  "answer_prefix number port @ t @ answer_suffix =
     js ''{`type`:`answer`,'' @ js ''`session_id`'' @ CHR 0x3A # dec_nat (unat number) @
     CHR '','' # js ''`udp_port`:'' @ dec_nat (unat port) @ js '',`sdp`:`'' @ t @ js ''`}''"
  by (simp_all add: answer_prefix_def before_sdp_def answer_suffix_def)

lemma find_sdp: "strstr_at (before_sdp number port @ js ''`sdp`'' @ ys) (js ''`sdp`'') = Some (length (before_sdp number port))"
  by (simp add: before_sdp_def strncmp_eq_def strstr_at_skip no_quote_dec)

lemma find_number: "strstr_at (js ''{`type`:`answer`,'' @ js ''`session_id`'' @ ys) (js ''`session_id`'') =
    Some (length (js ''{`type`:`answer`,''))"
  by (simp add: strncmp_eq_def)

lemma no_nul_dec: "NUL \<notin> set (dec_nat n)"
  using dec_nat_all_digits [of n] by (auto simp: is_digit_def)

lemma reply_fields:
  assumes "NUL \<notin> set answer" "length answer < 8192"
  shows "json_get_string ((answer_prefix number port @ json_text answer @ answer_suffix) @ NUL # rest) ''sdp'' 8192 = Some (Some answer)"
    "json_get_int ((answer_prefix number port @ json_text answer @ answer_suffix) @ NUL # rest) ''session_id'' = Some (uint number)"
proof -
  show "json_get_string ((answer_prefix number port @ json_text answer @ answer_suffix) @ NUL # rest) ''sdp'' 8192 = Some (Some answer)"
    unfolding answer_layout(1)
    by (rule json_string_found [OF find_sdp]) (use assms in \<open>simp_all add: before_sdp_def no_nul_dec\<close>)
  have "uint number < 2 ^ LENGTH(32)" by (rule unsigned_less)
  then have "int (unat number) \<le> LONG_MAX" by (simp add: LONG_MAX_def)
  then show "json_get_int ((answer_prefix number port @ json_text answer @ answer_suffix) @ NUL # rest) ''session_id'' = Some (uint number)"
    unfolding answer_layout(2)
    by (subst json_int_found [OF find_number]) (simp_all add: no_nul_dec json_text_no_nul assms)
qed

lemma clean_ntop: "clean (inet_ntop4 ip)"
proof -
  have d: "clean (c # x) \<longleftrightarrow> clean [c] \<and> clean x" for c x by (simp add: clean_def)
  have "clean ''.''" by (simp add: clean_def)
  then show ?thesis by (simp add: inet_ntop4_def d)
qed

lemma advertised_clean: "clean (choose_advertise_ip addrs host)"
proof -
  have "clean ''127.0.0.1''" by (simp add: clean_def)
  then show ?thesis using advertised_facts [of addrs host] clean_ntop by (elim disjE imageE conjE) simp_all
qed

lemma extra_clean: "x \<in> set (extra_ip_list r (map if_ip (collect_interfaces addrs 16))) \<Longrightarrow> clean x"
  using extra_loop_props [of "[]" r "map inet_ntop4 (local_ips addrs)"] clean_ntop
  by (auto simp: extra_ip_list_def collected_ips)

lemma created_answer_reads:
  assumes c: "rtc_session_create env ce cfg cap = Some (Inr (s, answer))"
    and o: "small_offer (cfg_offer cfg)" "0 \<le> h264_payload_type (cfg_offer cfg)"
    and fp: "length (ce_fingerprint ce) \<le> 127" "clean (ce_fingerprint ce)"
    and ip: "length (advertise_ip cfg) \<le> 63" "clean (advertise_ip cfg)"
    and ex: "\<forall>x \<in> set (extra_ips cfg). length x \<le> 63 \<and> clean x" "length (extra_ips cfg) < 1000"
  shows "sdp_parse_offer answer = (0, answer_offer (cfg_offer cfg) (ce_fingerprint ce) (local_ufrag s) (local_pwd s)) \<and>
    NUL \<notin> set answer"
proof -
  obtain fd port d n where s: "s = (fresh_session env ce cfg fd port d)\<lparr>config := cfg\<lparr>extra_ips := []\<rparr>\<rparr>" and n: "0 < n"
    and a: "(if extra_ips cfg \<noteq> []
     then sdp_build_answer_multi (cfg_offer cfg) (ce_fingerprint ce) (local_ufrag s) (local_pwd s)
            (advertise_ip cfg) (extra_ips cfg) port (session_ssrc ce) cap
     else sdp_build_answer (cfg_offer cfg) (ce_fingerprint ce) (local_ufrag s) (local_pwd s)
            (advertise_ip cfg) port (session_ssrc ce) cap) = Some (n, answer)"
    using create_cases [OF c] by blast
  then have m: "sdp_build_answer_multi (cfg_offer cfg) (ce_fingerprint ce) (local_ufrag s) (local_pwd s)
            (advertise_ip cfg) (extra_ips cfg) port (session_ssrc ce) cap = Some (n, answer)"
    by (auto simp: sdp_build_answer_def split: if_splits)
  have f: "fields_fit (cfg_offer cfg) (ce_fingerprint ce) (local_ufrag s) (local_pwd s) (advertise_ip cfg)"
    "plain_fields (cfg_offer cfg) (ce_fingerprint ce) (local_ufrag s) (local_pwd s) (advertise_ip cfg)"
    using o fp ip credentials_shape s by (auto simp: fields_fit_def plain_fields_def small_offer_def fresh_session_def)
  show ?thesis using answer_roundtrip_multi [OF f ex m n] by (simp add: clean_text_def)
qed

text \<open>An offer the demo server accepts.\<close>

definition demo_text :: string where
  "demo_text = concat (map line_of [[''a=ice-ufrag:f''], [''a=ice-pwd:p''], [''a=fingerprint:sha-256 AA''],
     [''m=video 9 UDP/TLS/RTP/SAVPF 96''], [''a=rtpmap:96 H264/90000'']])"

definition demo_message :: http_message where
  "demo_message = \<lparr>msg_uri = ''/rtc/offer'', msg_host = Some ''8.8.8.8:8080'',
     msg_body = js ''{`sdp`:`'' @ json_text demo_text @ js ''`}''\<rparr>"

definition demo_offer_env :: "nat offer_env" where
  "demo_offer_env = \<lparr>oe_ifs = demo_ifs, oe_all_ifs = demo_ifs, oe_urandom = 7, oe_rand_bytes = 0, oe_time_mix = 0,
     oe_create = demo_create\<rparr>"

definition demo_parsed_offer :: sdp_offer where
  "demo_parsed_offer = no_offer\<lparr>ice_ufrag := ''f'', ice_pwd := ''p'', offer_fingerprint := ''sha-256 AA'',
     offer_setup := ''actpass'', h264_payload_type := 96\<rparr>"

lemma demo_offer_read:
  "json_get_string (request_memory env 16384 (msg_body demo_message)) ''sdp'' 8192 = Some (Some demo_text)"
  "sdp_parse_offer (c_string demo_text) = (0, demo_parsed_offer)" "length (msg_body demo_message) < 16384"
proof -
  have n: "NUL \<notin> set demo_text" "length demo_text < 8192" by code_simp+
  have "strstr_at (''{'' @ js ''`sdp`'' @ ys) (js ''`sdp`'') = Some (length ''{'')" for ys
    by (simp add: strncmp_eq_def)
  note j = json_string_found [OF this _ n(1) _ _ n(2)]
  have m: "msg_body demo_message = ''{'' @ js ''`sdp`'' @ CHR 0x3A # QUOTE # json_text demo_text @ QUOTE # ''}''"
    by (simp add: demo_message_def)
  show "json_get_string (request_memory env 16384 (msg_body demo_message)) ''sdp'' 8192 = Some (Some demo_text)"
    unfolding request_memory_def m by (rule j) simp_all
  show "sdp_parse_offer (c_string demo_text) = (0, demo_parsed_offer)" by code_simp
  show "length (msg_body demo_message) < 16384" by code_simp
qed

definition demo_viewer :: "(nat, bytes) rtc_session" where
  "demo_viewer = (let cfg = offer_config demo_offer_env demo_app_config 0 (host_header demo_message) demo_parsed_offer in
     (fresh_session (demo_env 100) demo_create cfg 5 7000 demo_engine)\<lparr>config := cfg\<lparr>extra_ips := []\<rparr>\<rparr>)"

lemma demo_accepted:
  "\<exists>body. handle_rtc_offer (demo_env 100) demo_offer_env demo_message demo_server =
     Some (Reply 200 json_type body, joined 0 demo_viewer demo_server)"
proof -
  let ?cfg = "offer_config demo_offer_env demo_app_config 0 (host_header demo_message) demo_parsed_offer"
  have f: "free_slot (sv_sessions demo_server) = Some 0"
    by (simp add: free_slot_def demo_server_def server_init_def MAX_RTC_SESSIONS_def upt_rec)
  have "can_create demo_create ?cfg 8192"
    using extra_short advertise_length
    by (simp add: can_create_def demo_create_def offer_config_def Let_def SDP_BUFFER_def fields_fit_def demo_parsed_offer_def
        no_offer_def)
  then obtain answer where c: "rtc_session_create (demo_env 100) demo_create ?cfg 8192 =
      Some (Inr ((fresh_session (demo_env 100) demo_create ?cfg 5 7000 demo_engine)\<lparr>config := ?cfg\<lparr>extra_ips := []\<rparr>\<rparr>, answer))"
    using create_succeeds [of demo_create ?cfg 8192 5 7000 demo_engine "demo_env 100"]
    by (auto simp: demo_create_def demo_engine_def dtls_srtp_session_create_def)
  have "length (c_string answer) < 8192" using created_answer_length [OF c] c_string_length [of answer] by simp
  note p = payload_fits [OF this]
  have "\<exists>body. accept_offer (demo_env 100) demo_offer_env (host_header demo_message) demo_parsed_offer 0 demo_server =
      Some (Reply 200 json_type body, joined 0 demo_viewer demo_server)"
    using c p by (simp add: accept_offer_def Let_def demo_server_def server_init_def demo_offer_env_def joined_def demo_viewer_def)
  then show ?thesis
    using demo_offer_read(1) [of "demo_env 100"] demo_offer_read(2,3) f by (simp add: handle_rtc_offer_def)
qed

text \<open>
  C31. The viewer can use the reply of an accepted offer: reading its fields as JSON gives the number of
  the new session, under which it can be closed later, and an SDP answer; and this answer read by
  the offer parser carries exactly the ICE credentials the session will check, the fingerprint of the
  local certificate and the media lines of the offer, whatever addresses the host has.
\<close>

theorem reply_reads_back:
  assumes "handle_rtc_offer env oe m sv = Some (Reply 200 h body, sv')" "length (sv_sessions sv) = 8"
    "length (ce_fingerprint (oe_create oe)) \<le> 127" "clean (ce_fingerprint (oe_create oe))"
  shows "\<exists>slot s answer. sv_sessions sv' ! slot = Some s \<and>
    json_get_string (body @ NUL # rest) ''sdp'' 8192 = Some (Some answer) \<and>
    json_get_int (body @ NUL # rest) ''session_id'' = Some (uint (cfg_id (config s))) \<and>
    sdp_parse_offer answer =
      (0, answer_offer (cfg_offer (config s)) (ce_fingerprint (oe_create oe)) (local_ufrag s) (local_pwd s))"
  using offer_cases [OF assms(1)]
proof (elim disjE exE conjE)
  fix t offer slot s answer
  let ?cfg = "offer_config oe (sv_config sv) slot (host_header m) offer"
  assume p: "sdp_parse_offer (c_string t) = (0, offer)"
    and f: "free_slot (sv_sessions sv) = Some slot" and sv': "sv' = joined slot s sv"
    and c: "rtc_session_create env (oe_create oe) ?cfg 8192 = Some (Inr (s, answer))"
    and r: "Reply 200 h body = Reply 200 json_type (answer_prefix (session_number oe) (cfg_udp_port ?cfg) @
        json_text (c_string answer) @ answer_suffix)"
  have o: "cfg_offer ?cfg = offer" by (simp add: offer_config_def Let_def)
  have a: "sdp_parse_offer answer = (0, answer_offer (cfg_offer ?cfg) (ce_fingerprint (oe_create oe)) (local_ufrag s) (local_pwd s)) \<and>
      NUL \<notin> set answer"
    using created_answer_reads [OF c] parsed_offer_small [OF p] assms(3,4) advertise_length advertised_clean
      extra_short extra_clean o by (simp add: offer_config_def Let_def)
  then have cs: "c_string answer = answer" unfolding c_string_def takeWhile_eq_all_conv by blast
  have "config s = ?cfg\<lparr>extra_ips := []\<rparr>" using create_cases [OF c] by auto
  then have s: "cfg_offer (config s) = cfg_offer ?cfg" "cfg_id (config s) = session_number oe"
    by (simp_all add: offer_config_def Let_def)
  have "sv_sessions sv' ! slot = Some s"
    using free_slot_Some [OF f] assms(2) sv' by (simp add: joined_def MAX_RTC_SESSIONS_def)
  then show ?thesis
    using reply_fields [of answer] a created_answer_length [OF c] r cs s
    by (intro exI [of _ slot] exI [of _ s] exI [of _ answer]) simp
qed (auto simp: json_error_def)

lemma demo_fingerprint: "length (ce_fingerprint (oe_create demo_offer_env)) \<le> 127" "clean (ce_fingerprint (oe_create demo_offer_env))"
  by (simp_all add: demo_offer_env_def demo_create_def clean_def)

lemma demo_table: "length (sv_sessions demo_server) = 8"
  by (simp add: demo_server_def server_init_def MAX_RTC_SESSIONS_def)

lemma reply_reads_back_witness:
  "\<exists>h body sv' slot s answer. handle_rtc_offer (demo_env 100) demo_offer_env demo_message demo_server = Some (Reply 200 h body, sv') \<and>
    sv_sessions sv' ! slot = Some s \<and> json_get_string (body @ NUL # []) ''sdp'' 8192 = Some (Some answer) \<and>
    json_get_int (body @ NUL # []) ''session_id'' = Some (uint (cfg_id (config s)))"
  using demo_accepted reply_reads_back [OF _ demo_table demo_fingerprint, of "demo_env 100" demo_message] by blast

lemma offer_outcome_witness:
  "\<exists>body sv' slot s. handle_rtc_offer (demo_env 100) demo_offer_env demo_message demo_server = Some (Reply 200 json_type body, sv') \<and>
    slot < 8 \<and> sv_sessions sv' = (sv_sessions demo_server)[slot := Some s] \<and> rstate s = RTC_NEW"
proof -
  obtain body sv' where h: "handle_rtc_offer (demo_env 100) demo_offer_env demo_message demo_server = Some (Reply 200 json_type body, sv')"
    using demo_accepted by blast
  show ?thesis using h offer_outcome [OF h demo_table] by (auto simp: json_error_def)
qed

end
