(* ===== verification/App_Viewers.thy ===== *)
theory App_Viewers
  imports App_Props
begin

text \<open>
  What the server of \<^verbatim>\<open>src/app/app_server.c\<close> does for its viewers over their life: the fan out of
  access units, the removal of viewers that went away, close requests, the time the loop sleeps, and
  the request body that is read past its end.
\<close>

section \<open>Access units for every viewer\<close>

text \<open>
  C32. The fan out drains the ring and gives every access unit in it, oldest first, to every viewer that is
  streaming when its turn comes, exactly once; what one viewer gets does not depend on the other
  viewers, although the loop sends each access unit to all of them before it takes the next.
\<close>

theorem fan_out_delivers:
  assumes "server_reach sv" "length buffer = AU_SLOT_CAPACITY" "\<forall>k i. small_growth (env_lib (envs k i))"
  shows "\<exists>buffer' sv'. fan_out envs (sv_ring sv) buffer sv = Some (buffer', sv') \<and> au_contents (sv_ring sv') = [] \<and>
    (\<forall>j < 8. sv_sessions sv' ! j = send_units (\<lambda>k. envs k j) (au_contents (sv_ring sv)) (sv_sessions sv ! j))"
proof -
  have o: "table_ok sv" "ring_inv (sv_ring sv)" "slot_capacity (sv_ring sv) \<le> AU_SLOT_CAPACITY"
    using reach_ok [OF assms(1)] by (simp_all add: server_ok_def)
  obtain b sv' where f: "fan_out envs (sv_ring sv) buffer sv = Some (b, sv')"
    using fan_out_total [OF o(2,3) assms(2) o(1)] assms(3) by blast
  show ?thesis using f fan_out_result [OF o(2,3) assms(2) o(1) f] by (simp add: MAX_RTC_SESSIONS_def)
qed

lemma fan_out_delivers_witness:
  "\<exists>buffer' sv'. fan_out (\<lambda>_ _. demo_env 1) (sv_ring demo_server) (replicate AU_SLOT_CAPACITY 0) demo_server = Some (buffer', sv') \<and>
    au_contents (sv_ring sv') = []"
  using fan_out_delivers [OF demo_server_reach, of "replicate AU_SLOT_CAPACITY 0" "\<lambda>_ _. demo_env 1"] demo_growth by auto

section \<open>Viewers leave\<close>

text \<open>The session \<open>s\<close> of a slot, or one that has been closed.\<close>

definition is_or_closed :: "('ssl, 'srtp) rtc_session \<Rightarrow> ('ssl, 'srtp) rtc_session option \<Rightarrow> bool" where
  "is_or_closed s entry \<longleftrightarrow> entry = Some s \<or> (\<exists>t. entry = Some t \<and> rstate t = RTC_CLOSED)"

lemma on_slot_other: "on_slot j P c sv = Some sv' \<Longrightarrow> i \<noteq> j \<Longrightarrow> sv_sessions sv' ! i = sv_sessions sv ! i"
  by (auto simp: on_slot_def split: option.splits if_splits)

lemma deliver_other: "deliver j ds sv = Some sv' \<Longrightarrow> i \<noteq> j \<or> ds = [] \<Longrightarrow> sv_sessions sv' ! i = sv_sessions sv ! i"
proof (induction ds arbitrary: sv)
  case (Cons d ds)
  then obtain sv1 where "on_slot j (\<lambda>_. True) (udp_call d) sv = Some sv1" "deliver j ds sv1 = Some sv'"
    by (auto simp: deliver_eq split: option.splits)
  then show ?case using on_slot_other [of j _ "udp_call d" sv sv1 i] Cons by simp
qed (simp add: deliver_eq)

lemma receive_all_other:
  assumes "receive_all tn sv = Some sv'" "\<forall>fd. tn_rx tn fd i = []"
  shows "sv_sessions sv' ! i = sv_sessions sv ! i"
  using assms(1) unfolding receive_all_def
proof (rule foldo_keeps [where P = "\<lambda>x. sv_sessions x ! i = sv_sessions sv ! i"])
  fix fd and x y :: "('a, 'b) server"
  assume x: "sv_sessions x ! i = sv_sessions sv ! i" and y: "receive_fd (tn_rx tn) fd x = Some y"
  show "sv_sessions y ! i = sv_sessions sv ! i"
    using y unfolding receive_fd_def
  proof (rule foldo_keeps [where P = "\<lambda>x. sv_sessions x ! i = sv_sessions sv ! i"])
    fix j and z w :: "('a, 'b) server"
    assume z: "sv_sessions z ! i = sv_sessions sv ! i"
      and w: "(case sv_sessions z ! j of None \<Rightarrow> Some z | Some s \<Rightarrow> if udp_fd s = fd then deliver j (tn_rx tn fd j) z else Some z) = Some w"
    then show "sv_sessions w ! i = sv_sessions sv ! i"
      using deliver_other [of j "tn_rx tn fd j" z w i] assms(2) by (cases "j = i") (auto split: option.splits if_splits)
  qed (rule x)
qed simp

lemma close_entry:
  assumes "is_or_closed s (Some t)" "rtc_reach s"
  shows "rstate (rtc_session_close env t) = RTC_CLOSED"
proof (cases "rstate t = RTC_CLOSED")
  case False
  then have "t = s" using assms(1) by (auto simp: is_or_closed_def)
  then show ?thesis using close_keeps(2) [of s env] reach_inv [OF assms(2)] by (simp add: rtc_inv_def)
qed simp

lemma close_numbered_slot:
  assumes "is_or_closed s (sv_sessions sv ! i)" "rtc_reach s" "i < length (sv_sessions sv)"
  shows "is_or_closed s (sv_sessions (close_numbered env number is sv) ! i)"
proof (induction "is")
  case Nil
  then show ?case using assms(1) by simp
next
  case (Cons j "is")
  show ?case
  proof (cases "sv_sessions sv ! j")
    case (Some t)
    have "is_or_closed s (sv_sessions (put_session j t (rtc_session_close env t) sv) ! i)"
    proof (cases "j = i")
      case True
      then have "rstate (rtc_session_close env t) = RTC_CLOSED" using close_entry [OF _ assms(2)] assms(1) Some by simp
      then show ?thesis using True assms(3) by (simp add: is_or_closed_def)
    qed (use assms(1) in \<open>simp\<close>)
    then show ?thesis using Some Cons by simp
  qed (use Cons in \<open>simp\<close>)
qed

lemma offer_slot:
  assumes "handle_rtc_offer env oe m sv = Some (r, sv')" "is_or_closed s (sv_sessions sv ! i)"
  shows "is_or_closed s (sv_sessions sv' ! i)"
  using offer_cases [OF assms(1)]
proof (elim disjE exE conjE)
  fix slot t
  assume f: "free_slot (sv_sessions sv) = Some slot" and sv': "sv' = joined slot t sv"
  have "slot \<noteq> i" using free_slot_Some [OF f] assms(2) by (auto simp: is_or_closed_def)
  then show ?thesis using assms(2) sv' by (simp add: joined_def)
qed (use assms(2) in \<open>simp\<close>)

lemma request_slot:
  assumes "is_or_closed s (sv_sessions sv ! i)" "rtc_reach s" "i < length (sv_sessions sv)"
    "http_event_handler rq sv = Some (r, sv')"
  shows "is_or_closed s (sv_sessions sv' ! i)"
proof -
  have c: "is_or_closed s (sv_sessions (snd (handle_rtc_close env m sv)) ! i)" for env m
    using close_numbered_slot [OF assms(1-3)] assms(1) by (simp add: handle_rtc_close_def split: option.split)
  show ?thesis using http_cases [OF assms(4)] offer_slot [OF _ assms(1)] c assms(1) by (metis snd_conv)
qed

lemma serve_http_slot:
  assumes "serve_http rqs (rs, sv) = Some (rs', sv')" "is_or_closed s (sv_sessions sv ! i)" "rtc_reach s"
    "table_ok sv" "i < MAX_RTC_SESSIONS"
  shows "is_or_closed s (sv_sessions sv' ! i)"
proof -
  have "table_ok (snd (rs', sv')) \<and> is_or_closed s (sv_sessions (snd (rs', sv')) ! i)"
    using assms(1) unfolding serve_http_def
  proof (rule foldo_keeps [where P = "\<lambda>x. table_ok (snd x) \<and> is_or_closed s (sv_sessions (snd x) ! i)"])
    fix rq and x y :: "http_reply list \<times> ('a, 'b) server"
    assume x: "table_ok (snd x) \<and> is_or_closed s (sv_sessions (snd x) ! i)"
      and y: "(case x of (replies, sv) \<Rightarrow> map_option (\<lambda>(r, sv'). (replies @ [r], sv')) (http_event_handler rq sv)) = Some y"
    obtain r sv1 where h: "http_event_handler rq (snd x) = Some (r, sv1)" "snd y = sv1"
      using y by (auto simp: case_prod_unfold)
    have "i < length (sv_sessions (snd x))" using x assms(5) by (simp add: table_ok_def)
    then show "table_ok (snd y) \<and> is_or_closed s (sv_sessions (snd y) ! i)"
      using x request_keeps [OF _ h(1)] request_slot [OF _ assms(3) _ h(1)] h(2) by blast
  qed (use assms in \<open>simp\<close>)
  then show ?thesis by simp
qed

lemma send_units_closed: "rstate s = RTC_CLOSED \<Longrightarrow> send_units envs q (Some s) = Some s"
  by (induction q) (auto simp: called_def)

text \<open>
  C33. A viewer that went away frees its place: if no datagram arrives for its session and its last one is
  more than 15 seconds old, then after one more turn of the main loop its place in the table is
  empty, whatever the other viewers do and whatever is requested in that turn.
\<close>

theorem silent_viewer_leaves:
  assumes "server_reach sv" "i < 8" "sv_sessions sv ! i = Some s" "\<forall>fd. tn_rx tn fd i = []"
    "age_since (tn_now tn) (last_rx_ms s) > 15000" "length (tn_buffer tn) = AU_SLOT_CAPACITY"
    "server_turn tn sv = Some (replies, sv')"
  shows "sv_sessions sv' ! i = None"
proof (rule turn_phases [OF assms(7)])
  fix sv1 sv2 sv3 b sv4
  assume 1: "receive_all tn sv = Some sv1" and 2: "serve_http (tn_requests tn) ([], sv1) = Some (replies, sv2)"
    and 3: "tick_all tn sv2 = Some sv3" and 4: "fan_out (tn_send_env tn) (sv_ring sv3) (tn_buffer tn) sv3 = Some (b, sv4)"
    and r: "sv' = reap sv4"
  have o: "table_ok sv" "ring_inv (sv_ring sv)" "slot_capacity (sv_ring sv) \<le> AU_SLOT_CAPACITY"
    using reach_ok [OF assms(1)] by (simp_all add: server_ok_def)
  have i: "i < MAX_RTC_SESSIONS" using assms(2) by (simp add: MAX_RTC_SESSIONS_def)
  have s: "rtc_reach s" by (rule table_reach [OF o(1) i assms(3)])
  have k1: "table_ok sv1 \<and> same_rest sv sv1" by (rule receive_all_keeps [OF o(1) 1])
  have k2: "table_ok sv2 \<and> same_setup sv1 sv2 \<and> sv_ring sv2 = sv_ring sv1" using serve_http_keeps [OF _ 2] k1 by blast
  have k3: "table_ok sv3 \<and> same_rest sv2 sv3" using tick_all_keeps [OF _ 3] k2 by blast
  have "sv_sessions sv1 ! i = Some s" using receive_all_other [OF 1 assms(4)] assms(3) by simp
  then have 5: "is_or_closed s (sv_sessions sv2 ! i)"
    using serve_http_slot [OF 2 _ s _ i] k1 by (simp add: is_or_closed_def)
  have t: "tick_call x s = Some (rtc_session_close (fst x) s)" if "rstate s \<noteq> RTC_CLOSED" "snd x = tn_now tn" for x
    using assms(5) that by (simp add: tick_call_def rtc_session_tick_def SESSION_IDLE_TIMEOUT_MS_def)
  have cl: "rstate (rtc_session_close env s) = RTC_CLOSED" for env
    using close_keeps(2) [of s env] reach_inv [OF s] by (simp add: rtc_inv_def)
  have n: "i < length (sv_sessions sv2)" using k2 i by (simp add: table_ok_def)
  have "sv_sessions sv3 ! i = called (\<lambda>_. True) (tick_call (tn_tick_env tn i, tn_now tn)) (sv_sessions sv2 ! i)"
    using tick.slots_result [OF 3 [unfolded tick_all_eq] _ n] i by simp
  moreover have "tick_call (tn_tick_env tn i, tn_now tn) v = Some v" if "rstate v = RTC_CLOSED" for v
    using that by (simp add: tick_call_def rtc_session_tick_def)
  ultimately obtain u where u: "sv_sessions sv3 ! i = Some u" "rstate u = RTC_CLOSED"
    using 5 t cl by (cases "rstate s = RTC_CLOSED") (auto simp: is_or_closed_def called_def)
  have "sv_sessions sv4 ! i = Some u"
    using fan_out_result [OF _ _ assms(6) _ 4] k1 k2 k3 o u i send_units_closed [OF u(2)] by (simp add: same_rest_def)
  moreover have "length (sv_sessions sv4) = MAX_RTC_SESSIONS"
    using fan_out_result [OF _ _ assms(6) _ 4] k1 k2 k3 o by (simp add: same_rest_def table_ok_def)
  ultimately show ?thesis using r u(2) i by (simp add: reap_def Let_def)
qed

text \<open>The demo server after a turn that accepts an offer.\<close>

definition offer_turn :: "(nat, bytes) turn" where
  "offer_turn = (quiet_turn 100)\<lparr>tn_requests := [\<lparr>rq_message = demo_message, rq_env = demo_env 100,
     rq_offer = demo_offer_env, rq_status = undefined, rq_page = []\<rparr>]\<rparr>"

lemma demo_viewer_tick:
  "\<exists>s. tick_call (demo_env 100, 100) demo_viewer = Some s \<and> last_rx_ms s = 100 \<and> rstate s = RTC_NEW"
proof -
  let ?d = "dtls_srtp_tick demo_lib (sdtls demo_viewer)"
  have "dtls_out ?d = [] \<and> dtls_state (sdtls demo_viewer) = DTLS_SRTP_INIT"
    by (simp add: demo_viewer_def Let_def fresh_session_def dtls_srtp_tick_def demo_engine_def dtls_srtp_session_create_def
        dtls_srtp_set_expected_fingerprint_def)
  then show ?thesis
    by (simp add: tick_call_def rtc_session_tick_def demo_viewer_def Let_def fresh_session_def age_since_def demo_env_def
        dtls_replay_def SESSION_IDLE_TIMEOUT_MS_def)
qed

lemma demo_busy: "\<exists>(sv :: (nat, bytes) server) s. server_reach sv \<and> sv_sessions sv ! 0 = Some s \<and> last_rx_ms s = 100 \<and> small_names sv"
proof -
  have v: "valid_turn offer_turn"
    by (simp add: valid_turn_def offer_turn_def quiet_turn_def demo_growth valid_request_def demo_offer_env_def demo_create_def)
      (unfold safe_body_def demo_message_def demo_text_def, code_simp)
  have n: "small_names demo_server"
    by (simp add: small_names_def demo_server_def server_init_def demo_source_def demo_app_config_def)
  obtain replies sv' where t: "server_turn offer_turn demo_server = Some (replies, sv')"
    using turn_total [OF reach_ok [OF demo_server_reach] n v] by fastforce
  have l: "length (tn_buffer offer_turn) = AU_SLOT_CAPACITY" using v by (simp add: valid_turn_def)
  have o: "table_ok demo_server" "ring_inv (sv_ring demo_server)" "slot_capacity (sv_ring demo_server) \<le> AU_SLOT_CAPACITY"
    using reach_ok [OF demo_server_reach] by (simp_all add: server_ok_def)
  show ?thesis
  proof (rule turn_phases [OF t])
    fix sv1 sv2 sv3 b sv4
    assume 1: "receive_all offer_turn demo_server = Some sv1"
      and 2: "serve_http (tn_requests offer_turn) ([], sv1) = Some (replies, sv2)"
      and 3: "tick_all offer_turn sv2 = Some sv3"
      and 4: "fan_out (tn_send_env offer_turn) (sv_ring sv3) (tn_buffer offer_turn) sv3 = Some (b, sv4)" and r: "sv' = reap sv4"
    have "sv1 = demo_server" using 1 by (simp add: receive_all_def offer_turn_def quiet_turn_def)
    then have sv2: "sv2 = joined 0 demo_viewer demo_server"
      using 2 demo_accepted by (auto simp: serve_http_def offer_turn_def http_event_handler_def demo_message_def [symmetric])
        (simp add: demo_message_def)
    have k2: "table_ok sv2" "sv_ring sv2 = sv_ring demo_server"
      using serve_http_keeps [OF _ 2] receive_all_keeps [OF o(1) 1] by (auto simp: same_rest_def)
    have k3: "table_ok sv3" "sv_ring sv3 = sv_ring demo_server" using tick_all_keeps [OF k2(1) 3] k2(2) by (auto simp: same_rest_def)
    have e: "au_contents (sv_ring demo_server) = []"
      using create_ring_inv [OF demo_big_ring] by (simp add: demo_server_def server_init_def)
    obtain s where s: "tick_call (demo_env 100, 100) demo_viewer = Some s" "last_rx_ms s = 100" "rstate s = RTC_NEW"
      using demo_viewer_tick by blast
    have "sv_sessions sv2 ! 0 = Some demo_viewer" by (simp add: sv2 joined_def demo_server_def server_init_def MAX_RTC_SESSIONS_def)
    moreover have "0 < length (sv_sessions sv2)" using k2(1) by (simp add: table_ok_def MAX_RTC_SESSIONS_def)
    ultimately have "sv_sessions sv3 ! 0 = Some s"
      using tick.slots_result [OF 3 [unfolded tick_all_eq] distinct_upt, of 0] s(1)
      by (auto simp: called_def offer_turn_def quiet_turn_def table_ok_def MAX_RTC_SESSIONS_def)
    then have "sv_sessions sv4 ! 0 = Some s \<and> length (sv_sessions sv4) = 8"
      using fan_out_result [OF _ _ l k3(1) 4] k3(2) o e by (simp add: table_ok_def MAX_RTC_SESSIONS_def)
    then have "sv_sessions sv' ! 0 = Some s" using r s(3) by (simp add: reap_def Let_def)
    moreover have "server_reach sv'" by (rule turned [OF demo_server_reach l t])
    moreover have "small_names sv'" using turn_keeps [OF reach_ok [OF demo_server_reach] t l] n
      by (simp add: same_setup_def small_names_def)
    ultimately show ?thesis using s(2) by blast
  qed
qed

lemma silent_viewer_leaves_witness:
  "\<exists>(sv :: (nat, bytes) server) s replies sv'. sv_sessions sv ! 0 = Some s \<and>
    server_turn (quiet_turn 20000) sv = Some (replies, sv') \<and> sv_sessions sv' ! 0 = None"
proof -
  obtain sv :: "(nat, bytes) server" and s where s: "server_reach sv" "sv_sessions sv ! 0 = Some s" "last_rx_ms s = 100"
    "small_names sv"
    using demo_busy by blast
  obtain replies sv' where t: "server_turn (quiet_turn 20000) sv = Some (replies, sv')"
    using turn_total [OF reach_ok [OF s(1)] s(4) quiet_valid, of 20000] by fastforce
  have "sv_sessions sv' ! 0 = None"
    by (rule silent_viewer_leaves [OF s(1) _ s(2) _ _ _ t]) (simp_all add: quiet_turn_def age_since_def s(3))
  then show ?thesis using s(2) t by blast
qed

section \<open>Closing requests\<close>

text \<open>
  A close request ends exactly the viewer it names: with the number of a session in the table the
  reply is a success, that session is closed and the server's other sessions stay as they are.
\<close>

lemma close_request_closes:
  assumes "server_reach sv" "length (msg_body m) < 512" "i < 8" "sv_sessions sv ! i = Some s"
    "json_get_int (request_memory env 512 (msg_body m)) ''session_id'' = Some n" "of_int n = cfg_id (config s)"
    "\<forall>j < i. \<forall>t. sv_sessions sv ! j = Some t \<longrightarrow> cfg_id (config t) \<noteq> cfg_id (config s)"
  shows "\<exists>sv'. handle_rtc_close env m sv = (Reply 200 json_type (js ''{`closed`:true}''), sv') \<and>
    sv_sessions sv' = (sv_sessions sv)[i := Some (rtc_session_close env s)] \<and>
    rstate (rtc_session_close env s) = RTC_CLOSED"
proof -
  have i: "i < MAX_RTC_SESSIONS" using assms(3) by (simp add: MAX_RTC_SESSIONS_def)
  have "rtc_reach s" using table_reach [OF _ i assms(4)] reach_ok [OF assms(1)] by (simp add: server_ok_def)
  then have c: "rstate (rtc_session_close env s) = RTC_CLOSED"
    using close_keeps(2) [of s env] reach_inv [of s] by (simp add: rtc_inv_def)
  have f: "close_numbered env (cfg_id (config s)) [k..<MAX_RTC_SESSIONS] sv = put_session i s (rtc_session_close env s) sv"
    if "k \<le> i" for k
    using that
  proof (induction "i - k" arbitrary: k)
    case 0
    then show ?case using i assms(4) by (simp add: upt_conv_Cons)
  next
    case (Suc d)
    then have "k < i" "k < MAX_RTC_SESSIONS" using i by auto
    then show ?case using Suc assms(7) by (auto simp: upt_conv_Cons split: option.split)
  qed
  show ?thesis using f [of 0] c assms(2,5,6) by (simp add: handle_rtc_close_def)
qed

lemma demo_close_read:
  "json_get_int (request_memory (env :: (nat, bytes) rtc_env) 512 (js ''{`session_id`:'' @ dec_nat n @ '',`x`:0}'')) ''session_id'' = Some (int n)"
  if "int n \<le> LONG_MAX"
proof -
  have m: "js ''{`session_id`:'' @ dec_nat n @ '',`x`:0}'' = ''{'' @ js ''`session_id`'' @ CHR 0x3A # dec_nat n @ CHR '','' # ''`x`:0}''"
    by simp
  have "strstr_at (''{'' @ js ''`session_id`'' @ ys) (js ''`session_id`'') = Some (length ''{'')" for ys
    by (simp add: strncmp_eq_def)
  then show ?thesis unfolding request_memory_def m by (rule json_int_found) (use that in simp_all)
qed

lemma close_request_closes_witness:
  "\<exists>(sv :: (nat, bytes) server) m s sv'. sv_sessions sv ! 0 = Some s \<and>
    handle_rtc_close (demo_env 200) m sv = (Reply 200 json_type (js ''{`closed`:true}''), sv') \<and>
    sv_sessions sv' = (sv_sessions sv)[0 := Some (rtc_session_close (demo_env 200) s)]"
proof -
  obtain sv :: "(nat, bytes) server" and s where s: "server_reach sv" "sv_sessions sv ! 0 = Some s"
    using demo_busy by blast
  define body where "body = js ''{`session_id`:'' @ dec_nat (unat (cfg_id (config s))) @ '',`x`:0}''"
  let ?m = "\<lparr>msg_uri = ''/rtc/close'', msg_host = None, msg_body = body\<rparr>"
  have l: "length (msg_body ?m) < 512" using dec_u32_bound [of "cfg_id (config s)"] by (simp add: body_def)
  have "uint (cfg_id (config s)) < 2 ^ LENGTH(32)" by (rule unsigned_less)
  then have j: "json_get_int (request_memory (demo_env 200) 512 (msg_body ?m)) ''session_id'' = Some (int (unat (cfg_id (config s))))"
    using demo_close_read [of "unat (cfg_id (config s))" "demo_env 200"] by (simp add: body_def LONG_MAX_def)
  show ?thesis using close_request_closes [OF s(1) l _ s(2) j] s(2) by auto
qed

section \<open>A request that is read past its end\<close>

text \<open>
  The JSON reader can be made to leave the request: when the body ends in a backslash inside the
  string, the reader steps over the terminating zero and goes on in whatever the buffer holds behind
  it. Up to the next quote those bytes become part of the SDP text; without a quote or a zero in it
  the read leaves the buffer.
\<close>

lemma json_reads_past_terminator:
  assumes "NUL \<notin> set secret" "QUOTE \<notin> set secret" "BACKSLASH \<notin> set secret" "length secret < room" "1 < room"
  shows "json_get_string ((js ''{`sdp`:`'' @ [BACKSLASH]) @ NUL # secret @ QUOTE # rest) ''sdp'' (room + 1) = Some (Some (NUL # secret)) \<and>
    json_get_string ((js ''{`sdp`:`'' @ [BACKSLASH]) @ NUL # secret) ''sdp'' (room + 1) = None"
proof -
  have plain: "json_copy (secret @ t) k out = json_copy t (k - length secret) (out @ secret)" if "length secret \<le> k" for t k out
    using assms(1-3) that
  proof (induction secret arbitrary: k out)
    case (Cons c cs)
    then show ?case using json_copy_plain [of c k "cs @ t" out] by auto
  qed simp
  have f: "json_field ((js ''{`sdp`:`'' @ [BACKSLASH]) @ NUL # t) ''sdp'' = Some (QUOTE # BACKSLASH # NUL # t)" for t
    by (simp add: json_field_def c_string_def strncmp_eq_def Let_def)
  have e: "json_copy (BACKSLASH # NUL # t) room [] = json_copy t (room - 1) [NUL]" for t
    using json_copy_escape [of NUL room t "[]"] assms(5) by (simp add: escape_char_def)
  have "json_copy (BACKSLASH # NUL # secret @ QUOTE # rest) room [] = Some (NUL # secret, QUOTE # rest)"
    using plain [of "room - 1" "QUOTE # rest"] e [of "secret @ QUOTE # rest"] assms(4) by (simp add: json_copy_stop)
  moreover have "json_copy (BACKSLASH # NUL # secret) room [] = None"
    using plain [of "room - 1" "[]" "[NUL]"] e [of secret] assms(4) by (simp add: json_copy.simps [of "[]"])
  ultimately show ?thesis using f [of "secret @ QUOTE # rest"] f [of secret] by (simp add: json_get_string_def)
qed

lemma json_reads_past_terminator_witness:
  "json_get_string ((js ''{`sdp`:`'' @ [BACKSLASH]) @ NUL # ''key'' @ QUOTE # []) ''sdp'' (8191 + 1) = Some (Some (NUL # ''key'')) \<and>
   json_get_string ((js ''{`sdp`:`'' @ [BACKSLASH]) @ NUL # ''key'') ''sdp'' (8191 + 1) = None"
  by (rule json_reads_past_terminator) simp_all

section \<open>Waiting\<close>

text \<open>
  The loop never sleeps through a viewer: it waits at most 10 ms while there is a session and not
  longer than the DTLS timer of any of them asks for, and 100 ms when there is none. It polls exactly
  the sockets of the sessions that are not closed.
\<close>

lemma poll_is_bounded:
  assumes "poll_request env sv = (fds, timeout)"
  shows "0 \<le> timeout \<and> timeout \<le> 100 \<and>
    ((\<exists>s. Some s \<in> set (sv_sessions sv) \<and> rstate s \<noteq> RTC_CLOSED) \<longrightarrow> timeout \<le> 10) \<and>
    (\<forall>s. Some s \<in> set (sv_sessions sv) \<and> rstate s \<noteq> RTC_CLOSED \<longrightarrow>
       (0 \<le> rtc_session_dtls_timeout_ms env s \<longrightarrow> timeout \<le> rtc_session_dtls_timeout_ms env s) \<and>
       (0 \<le> udp_fd s \<longrightarrow> udp_fd s \<in> set fds))"
proof -
  let ?P = "\<lambda>ss. \<exists>s. Some s \<in> set ss \<and> rstate s \<noteq> RTC_CLOSED"
  have g: "\<exists>fds' t' h'. poll_set env ss (fds, t, h) = (fds', t', h') \<and> h' = (h \<or> ?P ss) \<and> 0 \<le> t' \<and> t' \<le> t \<and>
     set fds \<subseteq> set fds' \<and>
     (\<forall>s. Some s \<in> set ss \<and> rstate s \<noteq> RTC_CLOSED \<longrightarrow>
       (0 \<le> rtc_session_dtls_timeout_ms env s \<longrightarrow> t' \<le> rtc_session_dtls_timeout_ms env s) \<and> (0 \<le> udp_fd s \<longrightarrow> udp_fd s \<in> set fds'))"
    if "0 \<le> t" for ss fds t h
    using that
  proof (induction ss arbitrary: fds t h)
    case (Cons o1 ss)
    show ?case
    proof (cases "\<exists>s. o1 = Some s \<and> rstate s \<noteq> RTC_CLOSED")
      case True
      then obtain s where s: "o1 = Some s" "rstate s \<noteq> RTC_CLOSED" by blast
      let ?fds = "if udp_fd s \<ge> 0 then fds @ [udp_fd s] else fds" and ?d = "rtc_session_dtls_timeout_ms env s"
      let ?t = "if 0 \<le> ?d \<and> ?d < t then ?d else t"
      have "poll_set env (o1 # ss) (fds, t, h) = poll_set env ss (?fds, ?t, True)" using s by (simp add: Let_def)
      moreover have "0 \<le> ?t" using Cons.prems by simp
      ultimately show ?thesis using Cons.IH [of ?t ?fds True] s by (fastforce split: if_splits)
    next
      case False
      then have "poll_set env (o1 # ss) (fds, t, h) = poll_set env ss (fds, t, h)" by (cases o1) auto
      then show ?thesis using Cons.IH [OF Cons.prems, of fds h] False by auto
    qed
  qed simp
  obtain fds' t' h' where "poll_set env (sv_sessions sv) ([], 10, False) = (fds', t', h')" "h' = ?P (sv_sessions sv)"
    "0 \<le> t'" "t' \<le> 10"
    "\<forall>s. Some s \<in> set (sv_sessions sv) \<and> rstate s \<noteq> RTC_CLOSED \<longrightarrow>
       (0 \<le> rtc_session_dtls_timeout_ms env s \<longrightarrow> t' \<le> rtc_session_dtls_timeout_ms env s) \<and> (0 \<le> udp_fd s \<longrightarrow> udp_fd s \<in> set fds')"
    using g [of 10 "sv_sessions sv" "[]" False] by auto
  then show ?thesis using assms by (auto simp: poll_request_def)
qed

lemma poll_is_bounded_witness:
  "snd (poll_request (demo_env 0) demo_server) \<le> 100 \<and> 0 \<le> snd (poll_request (demo_env 0) demo_server)"
  using poll_is_bounded [of "demo_env 0" demo_server "fst (poll_request (demo_env 0) demo_server)"
    "snd (poll_request (demo_env 0) demo_server)"] by simp

end
