(* ===== verification/App_Run.thy ===== *)
theory App_Run
  imports Main
begin

text \<open>
  The frame of \<^verbatim>\<open>app_server_run\<close> in \<^verbatim>\<open>src/app/app_server.c\<close>: what it acquires on its way to the main
  loop, in which order, and what it releases when a step fails and when it shuts down. \<open>janus\<close> is the
  build with \<^verbatim>\<open>USE_JANUS_TRANSPORT\<close>: it does without the DTLS globals and starts the RTP sender. Which
  steps succeed is the record \<open>startup\<close>; the result is the exit status and the actions in order.
\<close>

datatype resource = Server | Dtls_Global | Source | Hub | Source_Worker | Encoder | Ring | Encoder_Worker | Janus_Sender | Http_Manager

datatype action = Acquire resource | Start resource | Stop resource | Release resource | Main_Loop

record startup =
  st_server :: bool
  st_dtls :: bool
  st_source :: bool
  st_hub :: bool
  st_source_worker :: bool
  st_source_started :: bool
  st_encoder :: bool
  st_ring :: bool
  st_encoder_worker :: bool
  st_encoder_started :: bool
  st_janus_sender :: bool
  st_janus_started :: bool
  st_listener :: bool

text \<open>The pointers that are set when the code jumps to \<^verbatim>\<open>fail\<close>.\<close>

record held =
  h_source_worker :: bool
  h_encoder :: bool
  h_ring :: bool
  h_encoder_worker :: bool
  h_janus_sender :: bool

definition dtls_globals :: "bool \<Rightarrow> action \<Rightarrow> action list" where
  "dtls_globals janus a = (if janus then [] else [a])"

text \<open>
  The block behind \<^verbatim>\<open>fail\<close>. The listener is never set there, so the HTTP manager is not freed; the
  hub and the source always are set.
\<close>

definition fail :: "bool \<Rightarrow> held \<Rightarrow> action list" where
  "fail janus h =
     (if janus \<and> h_janus_sender h then [Stop Janus_Sender, Release Janus_Sender] else []) @
     (if h_encoder_worker h then [Stop Encoder_Worker, Release Encoder_Worker] else []) @
     (if h_encoder h then [Release Encoder] else []) @
     (if h_source_worker h then [Stop Source_Worker, Release Source_Worker] else []) @
     (if h_ring h then [Release Ring] else []) @
     [Release Hub, Release Source, Release Server] @ dtls_globals janus (Release Dtls_Global)"

definition shutdown :: "bool \<Rightarrow> action list" where
  "shutdown janus =
     (if janus then [Stop Janus_Sender, Release Janus_Sender] else []) @
     [Release Http_Manager, Stop Encoder_Worker, Release Encoder_Worker, Release Encoder, Stop Source_Worker,
      Release Source_Worker, Release Hub, Release Source, Release Server] @ dtls_globals janus (Release Dtls_Global)"

definition acquired :: "resource \<Rightarrow> bool \<Rightarrow> action list" where
  "acquired r ok = (if ok then [Acquire r] else [])"

definition app_server_run :: "bool \<Rightarrow> startup \<Rightarrow> int \<times> action list" where
  "app_server_run janus st =
     (let a0 = Acquire Server # dtls_globals janus (Acquire Dtls_Global) in
      if \<not> st_server st then (1, [])
      else if \<not> janus \<and> \<not> st_dtls st then (1, [Acquire Server, Release Server])
      else if \<not> st_source st then (1, a0 @ [Release Server])
      else if \<not> st_hub st then (1, a0 @ [Acquire Source, Release Source, Release Server])
      else
        let a1 = a0 @ [Acquire Source, Acquire Hub] @ acquired Source_Worker (st_source_worker st) in
        if \<not> st_source_worker st \<or> \<not> st_source_started st then
          (1, a1 @ fail janus \<lparr>h_source_worker = st_source_worker st, h_encoder = False, h_ring = False, h_encoder_worker = False,
                 h_janus_sender = False\<rparr>)
        else
          let a2 = a1 @ [Start Source_Worker] @ acquired Encoder (st_encoder st) in
          if \<not> st_encoder st then
            (1, a2 @ fail janus \<lparr>h_source_worker = True, h_encoder = False, h_ring = False, h_encoder_worker = False,
                   h_janus_sender = False\<rparr>)
          else
            let a3 = a2 @ acquired Ring (st_ring st) @ acquired Encoder_Worker (st_encoder_worker st) in
            if \<not> st_ring st \<or> \<not> st_encoder_worker st \<or> \<not> st_encoder_started st then
              (1, a3 @ fail janus \<lparr>h_source_worker = True, h_encoder = True, h_ring = st_ring st,
                     h_encoder_worker = st_encoder_worker st, h_janus_sender = False\<rparr>)
            else
              let a4 = a3 @ [Start Encoder_Worker] @ (if janus then acquired Janus_Sender (st_janus_sender st) else []) in
              if janus \<and> (\<not> st_janus_sender st \<or> \<not> st_janus_started st) then
                (1, a4 @ fail janus \<lparr>h_source_worker = True, h_encoder = True, h_ring = True, h_encoder_worker = True,
                       h_janus_sender = st_janus_sender st\<rparr>)
              else
                let a5 = a4 @ (if janus then [Start Janus_Sender] else []) @ [Acquire Http_Manager] in
                if \<not> st_listener st then
                  (1, a5 @ fail janus \<lparr>h_source_worker = True, h_encoder = True, h_ring = True, h_encoder_worker = True,
                         h_janus_sender = janus\<rparr>)
                else (0, a5 @ [Main_Loop] @ shutdown janus))"

section \<open>Properties\<close>

text \<open>A resource is used correctly: acquired at most once, then released at most once, never without being held.\<close>

fun walk :: "resource set \<Rightarrow> action list \<Rightarrow> resource set option" where
  "walk H [] = Some H"
| "walk H (Acquire r # as) = (if r \<in> H then None else walk (insert r H) as)"
| "walk H (Start r # as) = (if r \<in> H then walk H as else None)"
| "walk H (Stop r # as) = (if r \<in> H then walk H as else None)"
| "walk H (Release r # as) = (if r \<in> H then walk (H - {r}) as else None)"
| "walk H (Main_Loop # as) = walk H as"

text \<open>
  However far the start of the server gets, nothing is used before it exists or after it is gone and
  nothing is released twice. What stays behind when the function returns: nothing but the DTLS
  globals (of a build without Janus) when the source or the hub cannot be made, nothing at all on the failures after that until
  the listener, the HTTP manager when the port is taken, and the ring after a normal run, which is the
  only way the function returns 0.
\<close>

lemma run_releases:
  "\<exists>rc actions H. app_server_run janus st = (rc, actions) \<and> walk {} actions = Some H \<and>
    H = (if \<not> (st_server st \<and> (if janus then True else st_dtls st)) then {}
         else if \<not> (st_source st \<and> st_hub st) then (if janus then {} else {Dtls_Global})
         else if rc = 0 then {Ring}
         else if st_source_worker st \<and> st_source_started st \<and> st_encoder st \<and> st_ring st \<and> st_encoder_worker st \<and>
           st_encoder_started st \<and> (if janus then st_janus_sender st \<and> st_janus_started st else True) then {Http_Manager}
         else {}) \<and>
    (rc = 0 \<longleftrightarrow> Main_Loop \<in> set actions)"
  by (cases janus) (auto simp: app_server_run_def Let_def acquired_def fail_def shutdown_def dtls_globals_def)

end
