(* ===== verification/Test_Source.thy ===== *)
theory Test_Source
  imports Video_Source Cstring
begin

text \<open>
  The synthetic camera of \<^verbatim>\<open>src/media/test_source.c\<close>: color bars, a moving marker and a frame counter,
  drawn into one of three buffers in turn. \<^verbatim>\<open>monotonic_us\<close> reads the next value of a clock that is part of
  the state; sleeping has no effect but on that clock.
\<close>

section \<open>Definitions\<close>

definition TEST_BUFFER_COUNT :: nat where "TEST_BUFFER_COUNT = 3"

definition DIGIT_GLYPHS :: "u8 list list" where
  "DIGIT_GLYPHS =
    [[0x07, 0x05, 0x05, 0x05, 0x07],
     [0x02, 0x06, 0x02, 0x02, 0x07],
     [0x07, 0x01, 0x07, 0x04, 0x07],
     [0x07, 0x01, 0x07, 0x01, 0x07],
     [0x05, 0x05, 0x07, 0x01, 0x01],
     [0x07, 0x04, 0x07, 0x01, 0x07],
     [0x07, 0x04, 0x07, 0x05, 0x07],
     [0x07, 0x01, 0x02, 0x02, 0x02],
     [0x07, 0x05, 0x07, 0x05, 0x07],
     [0x07, 0x05, 0x07, 0x01, 0x07]]"

record test_source =
  ts_width :: u32
  ts_height :: u32
  ts_fps :: u32
  ts_frame_size :: nat
  ts_buffers :: "bytes list"
  ts_current :: nat
  ts_next_deadline_us :: u64
  ts_sequence :: u64
  ts_clock :: "nat \<Rightarrow> u64"
  ts_reads :: nat

definition ts_monotonic_us :: "test_source \<Rightarrow> u64 \<times> test_source" where
  "ts_monotonic_us s = (ts_clock s (ts_reads s), s\<lparr>ts_reads := Suc (ts_reads s)\<rparr>)"

text \<open>One pixel of a digit: its luma, and the chroma it shares with its neighbour.\<close>

definition draw_dot :: "u32 \<Rightarrow> u32 \<Rightarrow> u32 \<Rightarrow> bytes \<Rightarrow> bytes option" where
  "draw_dot stride row_y x d =
     (if x \<ge> stride div 2 then Some d
      else let mac = unat row_y * unat stride + unat (x div 2) * 4 in
        do {
          d1 \<leftarrow> wr d (if x AND 1 = 0 then mac else mac + 2) [235];
          d2 \<leftarrow> wr d1 (mac + 1) [128];
          wr d2 (mac + 3) [128]
        })"

definition draw_cell :: "u32 \<Rightarrow> u32 \<Rightarrow> u32 \<Rightarrow> u32 \<Rightarrow> bytes \<Rightarrow> bytes option" where
  "draw_cell stride x y scale =
     foldo (\<lambda>sy d. let row_y = y + of_nat sy in
              if row_y \<ge> 10000 then Some d
              else foldo (\<lambda>sx. draw_dot stride row_y (x + of_nat sx)) [0..<unat scale] d)
       [0..<unat scale]"

definition draw_digit :: "u32 \<Rightarrow> u32 \<Rightarrow> u32 \<Rightarrow> u32 \<Rightarrow> nat \<Rightarrow> bytes \<Rightarrow> bytes option" where
  "draw_digit stride x0 y0 scale digit =
     foldo (\<lambda>gy. let glyph = DIGIT_GLYPHS ! digit ! gy in
              foldo (\<lambda>gx d. if drop_bit (2 - gx) glyph AND 1 = 0 then Some d
                            else draw_cell stride (x0 + of_nat gx * scale) (y0 + of_nat gy * scale) scale d)
                [0..<3])
       [0..<5]"

definition BARS :: "(u8 \<times> u8 \<times> u8) list" where
  "BARS = [(180, 128, 128), (168, 44, 136), (145, 72, 54), (133, 84, 72),
           (63, 172, 72), (51, 184, 54), (28, 212, 114), (16, 128, 128)]"

text \<open>One row of macropixels; \<open>px x\<close> are the four bytes of the \<open>x\<close>-th one.\<close>

definition fill_row :: "nat \<Rightarrow> (nat \<Rightarrow> bytes) \<Rightarrow> nat \<Rightarrow> bytes \<Rightarrow> bytes option" where
  "fill_row out px n = foldo (\<lambda>x d. wr d (out + x * 4) (px x)) [0..<n]"

definition bar_pixel :: "u32 \<Rightarrow> nat \<Rightarrow> bytes" where
  "bar_pixel bar_w x =
     (let bar = unat ((of_nat x * 2) div bar_w); idx = (if bar < 8 then bar else 7)
      in case BARS ! idx of (y, u, v) \<Rightarrow> [y, u, y, v])"

definition strip_pixel :: bytes where "strip_pixel = [32, 128, 32, 128]"

text \<open>The two loops of the marker also end at the edge of the picture.\<close>

definition draw_marker :: "test_source \<Rightarrow> u32 \<Rightarrow> u32 \<Rightarrow> bytes \<Rightarrow> bytes option" where
  "draw_marker s stride bars_h =
     (let width = ts_width s; height = ts_height s;
          marker_size = height div 12;
          marker_row = bars_h + (height - bars_h) div 2 - marker_size div 2;
          sweep_steps = (if ts_fps s > 1 then ts_fps s - 1 else 1);
          marker_x = ucast (((ts_sequence s mod ucast (ts_fps s)) * ucast (width - marker_size)) div ucast sweep_steps) AND NOT (1 :: u32)
      in foldo (\<lambda>row.
           foldo (\<lambda>x d. wr d (unat (marker_row + of_nat row) * unat stride + unat (marker_x + of_nat x) * 2) [235, 128, 235, 128])
             (takeWhile (\<lambda>x. marker_x + of_nat x + 1 < width) (map ((*) 2) [0..<(unat marker_size + 1) div 2])))
         (takeWhile (\<lambda>row. marker_row + of_nat row < height) [0..<unat marker_size]))"

text \<open>
  Character \<open>i\<close> of \<^verbatim>\<open>char digits[12]\<close> after \<^verbatim>\<open>snprintf\<close>, which returns the untruncated length.
\<close>

definition counter_char :: "string \<Rightarrow> nat \<Rightarrow> char option" where
  "counter_char digits i =
     (if i \<ge> 12 then None else if i < 11 \<and> i < length digits then Some (digits ! i) else Some (CHR 0x00))"

definition draw_counter :: "test_source \<Rightarrow> u32 \<Rightarrow> u32 \<Rightarrow> bytes \<Rightarrow> bytes option" where
  "draw_counter s stride bars_h =
     (let digits = dec_nat (unat (ts_sequence s)); n = length digits;
          scale = ts_height s div 96;
          glyph_w = 3 * scale + scale;
          x0 = ts_width s - of_nat n * glyph_w - scale * 2;
          y0 = bars_h + (ts_height s - bars_h - 5 * scale) div 2
      in foldo (\<lambda>i d. do {
           c \<leftarrow> counter_char digits i;
           if is_digit c then draw_digit stride (x0 + of_nat i * glyph_w) y0 scale (digit_value c) d
           else Some d
         }) [0..<n])"

text \<open>A picture less than eight pixels wide, or a rate of zero, divides by zero.\<close>

definition render_frame :: "test_source \<Rightarrow> bytes \<Rightarrow> bytes option" where
  "render_frame s d =
     (let width = ts_width s; height = ts_height s; stride = width * 2;
          bar_w = width div 8; bars_h = height * 3 div 4
      in if bar_w = 0 \<or> ts_fps s = 0 then None
         else do {
           d1 \<leftarrow> foldo (\<lambda>row. fill_row (row * unat stride) (bar_pixel bar_w) (unat (width div 2))) [0..<unat bars_h] d;
           d2 \<leftarrow> foldo (\<lambda>row. fill_row (row * unat stride) (\<lambda>_. strip_pixel) (unat (width div 2)))
                  [unat bars_h..<unat height] d1;
           d3 \<leftarrow> draw_marker s stride bars_h d2;
           draw_counter s stride bars_h d3
         })"

definition test_start :: "test_source \<Rightarrow> int \<times> test_source" where
  "test_start s = (case ts_monotonic_us s of (t, s') \<Rightarrow> (0, s'\<lparr>ts_next_deadline_us := t\<rparr>))"

definition test_capture :: "test_source \<Rightarrow> (captured \<times> test_source) option" where
  "test_capture s =
     (if ts_fps s = 0 then None
      else
        let period_us = 1000000 div ucast (ts_fps s);
            deadline = ts_next_deadline_us s + period_us;
            (now, s1) = ts_monotonic_us s;
            s2 = s1\<lparr>ts_next_deadline_us := (if deadline < now then now + period_us else deadline),
                    ts_current := (ts_current s + 1) mod TEST_BUFFER_COUNT\<rparr>;
            k = ts_current s2
        in do {
          buffer \<leftarrow> (if k < length (ts_buffers s2) then render_frame s2 (ts_buffers s2 ! k) else None);
          let (t, s3) = ts_monotonic_us s2;
          data \<leftarrow> rdn buffer 0 (ts_frame_size s3);
          Some (\<lparr>cap_rc = 1, cap_timestamp_us = t, cap_data = Some data, cap_index = of_nat k\<rparr>,
                s3\<lparr>ts_buffers := (ts_buffers s3)[k := buffer], ts_sequence := ts_sequence s3 + 1\<rparr>)
        })"

definition test_release :: "test_source \<Rightarrow> u32 \<Rightarrow> test_source" where
  "test_release s buffer_index = s"

definition test_ops :: "test_source source_ops" where
  "test_ops = \<lparr>so_start = test_start, so_capture = test_capture, so_release = test_release\<rparr>"

text \<open>
  \<open>alloc_ok i\<close> is whether the \<open>i\<close>-th allocation succeeds, \<open>junk i\<close> what the \<open>i\<close>-th buffer holds; \<^verbatim>\<open>& ~1u\<close>
  makes the size even.
\<close>

definition test_source_create :: "(nat \<Rightarrow> bool) \<Rightarrow> (nat \<Rightarrow> nat \<Rightarrow> u8) \<Rightarrow> (nat \<Rightarrow> u64) \<Rightarrow> u32 \<Rightarrow> u32 \<Rightarrow> u32 \<Rightarrow> test_source option" where
  "test_source_create alloc_ok junk clock width height fps =
     (if width < 64 \<or> height < 48 \<or> fps = 0 then None
      else if \<not> alloc_ok 0 \<or> \<not> alloc_ok 1 then None
      else
        let w = width AND NOT 1; h = height AND NOT 1;
            frame_size = (unat w * unat h * 2) mod 2 ^ 64
        in if \<exists>i < TEST_BUFFER_COUNT. \<not> alloc_ok (2 + i) then None
           else Some \<lparr>ts_width = w, ts_height = h, ts_fps = fps, ts_frame_size = frame_size,
                  ts_buffers = map (\<lambda>i. map (junk i) [0..<frame_size]) [0..<TEST_BUFFER_COUNT],
                  ts_current = 0, ts_next_deadline_us = 0, ts_sequence = 0, ts_clock = clock, ts_reads = 0\<rparr>)"

definition test_info :: "test_source \<Rightarrow> video_source" where
  "test_info s = \<lparr>vs_name = ''test pattern'', vs_width = ts_width s, vs_height = ts_height s, vs_fps = ts_fps s,
     vs_stride = ts_width s * 2, vs_format = V4L2_PIX_FMT_YUYV, vs_frame_size = ts_frame_size s\<rparr>"

section \<open>Drawing stays in the buffer\<close>

text \<open>What stays: the length of the buffer and everything below offset \<open>b\<close>.\<close>

definition below :: "nat \<Rightarrow> bytes \<Rightarrow> bytes \<Rightarrow> bool" where
  "below b d0 d \<longleftrightarrow> length d = length d0 \<and> take b d = take b d0"

lemma below_wr: "below b d0 d \<Longrightarrow> b \<le> i \<Longrightarrow> i + length xs \<le> length d0 \<Longrightarrow> \<exists>d'. wr d i xs = Some d' \<and> below b d0 d'"
  by (auto simp: below_def wr_def)

lemma draw_dot_ok:
  assumes d: "below b d0 d" and st: "unat stride = 2 * w" "even w" and row: "b \<le> unat row_y * (2 * w)" "(unat row_y + 1) * (2 * w) \<le> length d0"
  shows "\<exists>d'. draw_dot stride row_y x d = Some d' \<and> below b d0 d'"
proof (cases "x \<ge> stride div 2")
  case False
  define m where "m = unat row_y * unat stride + unat (x div 2) * 4"
  define j where "j = (if x AND 1 = 0 then m else m + 2)"
  have "unat x < w" using False st(1) by (simp add: word_le_nat_alt unat_div not_le)
  moreover obtain v where "w = 2 * v" using st(2) by (elim evenE)
  ultimately have "unat x div 2 < v" by (simp add: less_mult_imp_div_less)
  then have "unat x div 2 * 4 + 4 \<le> 2 * w" unfolding \<open>w = 2 * v\<close> by linarith
  then have fits: "b \<le> m" "m + 4 \<le> length d0" using row st(1) by (simp_all add: m_def unat_div)
  then have "b \<le> j" "j + 1 \<le> length d0" by (simp_all add: j_def)
  then obtain d1 where 1: "wr d j [235] = Some d1" "below b d0 d1" using below_wr [OF d, of j "[235]"] by auto
  obtain d2 where 2: "wr d1 (m + 1) [128] = Some d2" "below b d0 d2"
    using below_wr [OF 1(2), of "m + 1" "[128]"] fits by auto
  obtain d3 where 3: "wr d2 (m + 3) [128] = Some d3" "below b d0 d3"
    using below_wr [OF 2(2), of "m + 3" "[128]"] fits by auto
  show ?thesis using False 1 2 3 by (simp add: draw_dot_def m_def [symmetric] j_def [symmetric])
qed (use d in \<open>simp add: draw_dot_def\<close>)

lemma draw_cell_ok:
  assumes d: "below b d0 d" and st: "unat stride = 2 * w" "even w" and b: "b = bars * (2 * w)" and len: "length d0 = h * (2 * w)"
    and y: "bars \<le> unat y" "unat y + unat scale \<le> h" and h: "h < 2 ^ 32"
  shows "\<exists>d'. draw_cell stride x y scale d = Some d' \<and> below b d0 d'"
  unfolding draw_cell_def
proof (rule foldo_defined [where P = "below b d0"])
  fix sy d' assume sy: "sy \<in> set [0..<unat scale]" and d': "below b d0 d'"
  have "unat (of_nat sy :: u32) = sy" using sy y(2) h by (intro unat_u32) simp
  then have row: "unat (y + of_nat sy) = unat y + sy" using sy y h by (subst unat_add_lem [THEN iffD1]) auto
  have "b \<le> (unat y + sy) * (2 * w)" unfolding b using y(1) by (intro mult_le_mono1) simp
  moreover have "(unat y + sy + 1) * (2 * w) \<le> h * (2 * w)" using y(2) sy by (intro mult_le_mono1) simp
  ultimately have "\<exists>d''. foldo (\<lambda>sx. draw_dot stride (y + of_nat sy) (x + of_nat sx)) [0..<unat scale] d' = Some d'' \<and> below b d0 d''"
    using row len by (intro foldo_defined [where P = "below b d0", OF d']) (rule draw_dot_ok [OF _ st], auto)
  then show "\<exists>d''. (let row_y = y + of_nat sy in
      if row_y \<ge> 10000 then Some d'
      else foldo (\<lambda>sx. draw_dot stride row_y (x + of_nat sx)) [0..<unat scale] d') = Some d'' \<and> below b d0 d''"
    using d' by (simp add: Let_def)
qed (rule d)

lemma draw_digit_ok:
  assumes d: "below b d0 d" and st: "unat stride = 2 * w" "even w" and b: "b = bars * (2 * w)" and len: "length d0 = h * (2 * w)"
    and y: "bars \<le> unat y0" "unat y0 + 5 * unat scale \<le> h" and h: "h < 2 ^ 32"
  shows "\<exists>d'. draw_digit stride x0 y0 scale digit d = Some d' \<and> below b d0 d'"
  unfolding draw_digit_def Let_def
proof (intro foldo_defined [where P = "below b d0"])
  fix gy gx d' assume g: "gy \<in> set [0..<5]" "gx \<in> set [0..<3]" and d': "below b d0 d'"
  have gn: "gy * unat scale \<le> 4 * unat scale" using g(1) by (intro mult_le_mono1) simp
  have "unat (of_nat gy :: u32) = gy" using g(1) by (intro unat_u32) simp
  moreover have lt: "gy * unat scale < 2 ^ 32" "unat y0 + gy * unat scale < 2 ^ 32" using gn y(2) h by linarith+
  ultimately have m: "unat (of_nat gy * scale) = gy * unat scale" by (subst unat_mult_lem [THEN iffD1]) simp_all
  then have yy: "unat (y0 + of_nat gy * scale) = unat y0 + gy * unat scale"
    using lt by (subst unat_add_lem [THEN iffD1]) simp_all
  have "\<exists>d''. draw_cell stride (x0 + of_nat gx * scale) (y0 + of_nat gy * scale) scale d' = Some d'' \<and> below b d0 d''"
    by (rule draw_cell_ok [OF d' st b len _ _ h]) (use yy y(1) in simp, use yy y(2) gn in linarith)
  then show "\<exists>d''. (if drop_bit (2 - gx) (DIGIT_GLYPHS ! digit ! gy) AND 1 = 0 then Some d'
      else draw_cell stride (x0 + of_nat gx * scale) (y0 + of_nat gy * scale) scale d') = Some d'' \<and> below b d0 d''"
    using d' by simp
qed (use d in auto)

lemma draw_counter_ok:
  assumes d: "below b d0 d" and st: "unat stride = 2 * w" "even w" and b: "b = unat bars_h * (2 * w)" and len: "length d0 = h * (2 * w)"
    and h: "unat (ts_height s) = h" "unat bars_h + h div 4 \<le> h" and seq: "unat (ts_sequence s) < 10 ^ 12"
  shows "\<exists>d'. draw_counter s stride bars_h d = Some d' \<and> below b d0 d'"
proof -
  let ?scale = "ts_height s div 96"
  let ?rest = "ts_height s - bars_h - 5 * ?scale"
  have h32: "h < 2 ^ 32" using h(1) unat_less_u32 [of "ts_height s"] by simp
  have sc: "unat ?scale = h div 96" "5 * (h div 96) \<le> h div 4" using h(1) by (simp_all add: unat_div)
  have le: "bars_h \<le> ts_height s" using h by (simp add: word_le_nat_alt)
  have s5: "unat (5 * ?scale) = 5 * (h div 96)" using sc h32 by (subst unat_mult_lem [THEN iffD1]) simp_all
  have d1: "unat (ts_height s - bars_h) = h - unat bars_h" using le h(1) by (simp add: unat_sub)
  have "5 * ?scale \<le> ts_height s - bars_h" using s5 d1 sc(2) h(2) by (simp add: word_le_nat_alt)
  then have r: "unat ?rest = h - unat bars_h - 5 * (h div 96)" using s5 d1 by (simp add: unat_sub)
  have y: "unat (bars_h + ?rest div 2) = unat bars_h + (h - unat bars_h - 5 * (h div 96)) div 2"
    using r h32 h(2) by (subst unat_add_lem [THEN iffD1]) (simp_all add: unat_div)
  have bounds: "unat bars_h \<le> unat (bars_h + ?rest div 2)" "unat (bars_h + ?rest div 2) + 5 * unat ?scale \<le> h"
    using y sc h(2) by linarith+
  have short: "length (dec_nat (unat (ts_sequence s))) \<le> 12"
    using dec_nat_bound [of "unat (ts_sequence s)" 12] seq by simp
  show ?thesis
    unfolding draw_counter_def Let_def
  proof (rule foldo_defined [where P = "below b d0"])
    fix i d' assume i: "i \<in> set [0..<length (dec_nat (unat (ts_sequence s)))]" and d': "below b d0 d'"
    have "i < 12" using i short by simp
    then obtain c where "counter_char (dec_nat (unat (ts_sequence s))) i = Some c"
      by (cases "i < 11 \<and> i < length (dec_nat (unat (ts_sequence s)))") (auto simp: counter_char_def)
    then show "\<exists>d''. do {
           c \<leftarrow> counter_char (dec_nat (unat (ts_sequence s))) i;
           if is_digit c then draw_digit stride (ts_width s - of_nat (length (dec_nat (unat (ts_sequence s)))) * (3 * ?scale + ?scale) - ?scale * 2 +
               of_nat i * (3 * ?scale + ?scale)) (bars_h + ?rest div 2) ?scale (digit_value c) d'
           else Some d'
         } = Some d'' \<and> below b d0 d''"
      using draw_digit_ok [OF d' st b len bounds h32] d' by simp
  qed (rule d)
qed

text \<open>The marker starts at an even column, so the guard of its inner loop keeps whole macropixels inside.\<close>

lemma even_guard:
  assumes "even (v :: u32)" "v + 1 < width"
  shows "unat v + 2 \<le> unat width"
proof -
  have "v + 1 \<noteq> 0"
  proof
    assume "v + 1 = 0"
    then have "even (v + 1)" by simp
    then show False using assms(1) by simp
  qed
  then have "unat (v + 1) = Suc (unat v)" by (simp add: unatSuc add.commute)
  then show ?thesis using assms(2) by (simp add: word_less_nat_alt)
qed

lemma in_takeWhile: "x \<in> set (takeWhile P xs) \<Longrightarrow> P x \<and> x \<in> set xs"
  by (auto dest: set_takeWhileD)

lemma draw_marker_ok:
  assumes d: "below b d0 d" and st: "unat stride = 2 * w" "unat (ts_width s) = w"
    and b: "b = unat bars_h * (2 * w)" and len: "length d0 = h * (2 * w)"
    and h: "unat (ts_height s) = h" "unat bars_h + h div 4 \<le> h" "h < 2 ^ 31"
  shows "\<exists>d'. draw_marker s stride bars_h d = Some d' \<and> below b d0 d'"
proof -
  let ?height = "ts_height s"
  let ?size = "?height div 12"
  let ?row = "bars_h + (?height - bars_h) div 2 - ?size div 2"
  have h32: "h < 2 ^ 32" using h(3) by simp
  have "bars_h \<le> ?height" using h by (simp add: word_le_nat_alt)
  then have d1: "unat (?height - bars_h) = h - unat bars_h" using h(1) by (simp add: unat_sub)
  have mid: "unat (bars_h + (?height - bars_h) div 2) = unat bars_h + (h - unat bars_h) div 2"
    using d1 h32 h(2) by (subst unat_add_lem [THEN iffD1]) (simp_all add: unat_div)
  have half: "unat (?size div 2) \<le> (h - unat bars_h) div 2" using h by (simp add: unat_div)
  then have "?size div 2 \<le> bars_h + (?height - bars_h) div 2" using mid by (simp add: word_le_nat_alt)
  then have row: "unat ?row = unat bars_h + (h - unat bars_h) div 2 - h div 12 div 2"
    using mid h(1) by (simp add: unat_sub unat_div)
  show ?thesis
    unfolding draw_marker_def Let_def
  proof (intro foldo_defined [where P = "below b d0"])
    fix r x d'
    let ?mx = "ucast (((ts_sequence s mod ucast (ts_fps s)) * ucast (ts_width s - ?size)) div
        ucast (if ts_fps s > 1 then ts_fps s - 1 else 1)) AND NOT (1 :: u32)"
    assume r: "r \<in> set (takeWhile (\<lambda>row. ?row + of_nat row < ?height) [0..<unat ?size])"
      and x: "x \<in> set (takeWhile (\<lambda>x. ?mx + of_nat x + 1 < ts_width s) (map ((*) 2) [0..<(unat ?size + 1) div 2]))"
      and d': "below b d0 d'"
    from in_takeWhile [OF r] have r: "?row + of_nat r < ?height" "r < unat ?size" by auto
    from in_takeWhile [OF x] obtain i where x: "?mx + of_nat x + 1 < ts_width s" "x = 2 * i" by auto
    have "even (?mx + of_nat x)" using x(2) by (simp add: even_and_iff)
    from even_guard [OF this x(1)] have col: "unat (?mx + of_nat x) + 2 \<le> w" using st(2) by simp
    have "unat (of_nat r :: u32) = r" using r(2) h(1) h32 by (intro unat_u32) (simp add: unat_div)
    moreover have "unat ?row + r < 2 ^ 32"
    proof -
      have "r \<le> h" using r(2) h(1) by (simp add: unat_div)
      moreover have "unat ?row \<le> h" using row h(2) by linarith
      ultimately show ?thesis using h(3) by simp
    qed
    ultimately have rr: "unat (?row + of_nat r) = unat ?row + r" by (subst unat_add_lem [THEN iffD1]) simp_all
    have lo: "unat bars_h \<le> unat (?row + of_nat r)"
      using half h(1) unfolding rr row by (simp add: unat_div)
    have hi: "unat (?row + of_nat r) + 1 \<le> h" using r(1) h(1) by (simp add: word_less_nat_alt)
    have "b \<le> unat (?row + of_nat r) * (2 * w)" unfolding b using lo by (intro mult_le_mono1)
    moreover have "(unat (?row + of_nat r) + 1) * (2 * w) \<le> h * (2 * w)" using hi by (intro mult_le_mono1)
    ultimately show "\<exists>d''. wr d' (unat (?row + of_nat r) * unat stride + unat (?mx + of_nat x) * 2) [235, 128, 235, 128] = Some d'' \<and> below b d0 d''"
      using below_wr [OF d', of "unat (?row + of_nat r) * unat stride + unat (?mx + of_nat x) * 2" "[235, 128, 235, 128]"] st(1) len col
      by simp
  qed (use d in auto)
qed

text \<open>The two fills cover the whole picture, so what was in the buffer before does not matter.\<close>

lemma fill_row_spec:
  assumes "\<And>x. x < n \<Longrightarrow> length (px x) = 4" "out + n * 4 \<le> length d"
  shows "fill_row out px n d = Some (put_at d out (concat (map px [0..<n])))"
  unfolding fill_row_def
  by (rule foldo_rows) (use assms in \<open>auto intro!: wr_put_at\<close>)

lemma foldo_shift: "foldo f [a..<a + n] d = foldo (\<lambda>i. f (a + i)) [0..<n] d"
proof (induction n)
  case (Suc n)
  then show ?case by (simp add: foldo_append split: option.split)
qed simp

definition bar_rows :: "u32 \<Rightarrow> nat \<Rightarrow> nat \<Rightarrow> bytes" where
  "bar_rows bar_w n rows = concat (map (\<lambda>_. concat (map (bar_pixel bar_w) [0..<n])) [0..<rows])"

definition strip_rows :: "nat \<Rightarrow> nat \<Rightarrow> bytes" where
  "strip_rows n rows = concat (map (\<lambda>_. concat (map (\<lambda>_. strip_pixel) [0..<n])) [0..<rows])"

lemma pixel_length [simp]: "length (bar_pixel bar_w x) = 4" "length strip_pixel = 4"
  by (simp_all add: bar_pixel_def strip_pixel_def Let_def split: prod.split)

lemma row_lengths: "length (concat (map (bar_pixel bar_w) [0..<n])) = n * 4" "length (concat (map (\<lambda>_. strip_pixel) [0..<n])) = n * 4"
  by (rule length_concat_rows, simp)+

lemma rows_length [simp]: "length (bar_rows bar_w n rows) = rows * (n * 4)" "length (strip_rows n rows) = rows * (n * 4)"
  unfolding bar_rows_def strip_rows_def by (rule length_concat_rows, simp only: row_lengths)+

lemma fill_rows:
  assumes px: "\<And>x. x < n \<Longrightarrow> length (px x) = 4" and fit: "a * (n * 4) + rows * (n * 4) \<le> length d"
  shows "foldo (\<lambda>row. fill_row (row * (n * 4)) px n) [a..<a + rows] d =
    Some (put_at d (a * (n * 4)) (concat (map (\<lambda>_. concat (map px [0..<n])) [0..<rows])))"
  unfolding foldo_shift
proof (rule foldo_rows)
  have len: "length (concat (map px [0..<n])) = n * 4" by (rule length_concat_rows) (use px in simp)
  then show "length (concat (map px [0..<n])) = n * 4" if "i < rows" for i by simp
  fix i and d' :: bytes assume i: "i < rows" "length d' = length d"
  have "Suc i * (n * 4) \<le> rows * (n * 4)" using i by (intro mult_le_mono1) simp
  then have "(a + i) * (n * 4) + n * 4 \<le> length d'" using fit i(2) by (simp add: distrib_right)
  then show "fill_row ((a + i) * (n * 4)) px n d' = Some (put_at d' (a * (n * 4) + i * (n * 4)) (concat (map px [0..<n])))"
    using fill_row_spec [of n px] px by (simp add: distrib_right)
qed (rule fit)

lemma fills:
  assumes "even (unat width)" "bars \<le> h" "length d = h * (2 * unat width)"
  shows "do { d1 \<leftarrow> foldo (\<lambda>row. fill_row (row * (2 * unat width)) (bar_pixel bar_w) (unat width div 2)) [0..<bars] d;
      foldo (\<lambda>row. fill_row (row * (2 * unat width)) (\<lambda>_. strip_pixel) (unat width div 2)) [bars..<h] d1 } =
    Some (bar_rows bar_w (unat width div 2) bars @ strip_rows (unat width div 2) (h - bars))"
proof -
  define n where "n = unat width div 2"
  have st: "2 * unat width = n * 4" using assms(1) by (simp add: n_def)
  have bh: "bars * (n * 4) + (h - bars) * (n * 4) = h * (n * 4)" using assms(2) by (simp add: distrib_right [symmetric])
  have l: "length d = h * (n * 4)" using assms(3) st by simp
  let ?B = "bar_rows bar_w n bars" and ?S = "strip_rows n (h - bars)"
  have 1: "foldo (\<lambda>row. fill_row (row * (n * 4)) (bar_pixel bar_w) n) [0..<bars] d = Some (put_at d 0 ?B)"
    using fill_rows [of n "bar_pixel bar_w" 0 bars d] assms(2) l by (simp add: bar_rows_def)
  have fit: "length ?B + length ?S = length d" using bh l by (simp only: rows_length)
  then have l1: "length (put_at d 0 ?B) = length d" by (intro put_at_length) linarith
  have 2: "foldo (\<lambda>row. fill_row (row * (n * 4)) (\<lambda>_. strip_pixel) n) [bars..<h] (put_at d 0 ?B) =
      Some (put_at (put_at d 0 ?B) (bars * (n * 4)) ?S)"
    using fill_rows [of n "\<lambda>_. strip_pixel" bars "h - bars" "put_at d 0 ?B"] bh l l1 assms(2) by (simp add: strip_rows_def)
  have "put_at (put_at d 0 ?B) (0 + length ?B) ?S = put_at d 0 (?B @ ?S)"
    by (rule put_at_adjacent) (use fit in linarith)
  also have "\<dots> = ?B @ ?S" by (rule put_at_all) (use fit in \<open>simp only: length_append\<close>)
  finally show ?thesis using 1 2 unfolding st n_def [symmetric] by simp
qed

section \<open>The invariant of the source\<close>

text \<open>
  The sizes are those the command line accepts. The counter is printed into twelve characters, so the
  source is good for fewer than \<open>10 ^ 12\<close> frames.
\<close>

definition test_ok :: "nat \<Rightarrow> test_source \<Rightarrow> bool" where
  "test_ok n s \<longleftrightarrow> even (unat (ts_width s)) \<and> 64 \<le> unat (ts_width s) \<and> unat (ts_width s) \<le> 4096 \<and>
     48 \<le> unat (ts_height s) \<and> unat (ts_height s) \<le> 4096 \<and> ts_fps s \<noteq> 0 \<and>
     ts_frame_size s = unat (ts_height s) * (2 * unat (ts_width s)) \<and>
     length (ts_buffers s) = TEST_BUFFER_COUNT \<and> (\<forall>b \<in> set (ts_buffers s). length b = ts_frame_size s) \<and>
     unat (ts_sequence s) + n \<le> 10 ^ 12"

text \<open>The rows with the color bars, and their pixels.\<close>

definition test_bars :: "test_source \<Rightarrow> nat" where
  "test_bars s = unat (ts_height s) * 3 div 4"

lemma render_spec:
  assumes ok: "test_ok (Suc n) s"
  shows "\<exists>pic. (\<forall>d. length d = ts_frame_size s \<longrightarrow> render_frame s d = Some pic) \<and> length pic = ts_frame_size s \<and>
    take (test_bars s * (2 * unat (ts_width s))) pic =
      bar_rows (ts_width s div 8) (unat (ts_width s) div 2) (test_bars s)"
proof -
  define w h where "w = unat (ts_width s)" and "h = unat (ts_height s)"
  have S: "even w" "64 \<le> w" "w \<le> 4096" "48 \<le> h" "h \<le> 4096" "ts_fps s \<noteq> 0" "ts_frame_size s = h * (2 * w)" "unat (ts_sequence s) < 10 ^ 12"
    using ok by (simp_all add: test_ok_def w_def h_def)
  have st: "unat (ts_width s * 2) = 2 * w" using S(3) by (subst unat_mult_lem [THEN iffD1]) (simp_all add: w_def)
  have "unat (ts_height s * 3) = h * 3" using S(5) by (subst unat_mult_lem [THEN iffD1]) (simp_all add: h_def)
  then have bars: "unat (ts_height s * 3 div 4) = test_bars s" by (simp add: test_bars_def unat_div h_def)
  have le: "test_bars s \<le> h" "test_bars s + h div 4 \<le> h" by (simp_all add: test_bars_def h_def)
  have w8: "ts_width s div 8 \<noteq> 0"
  proof
    assume "ts_width s div 8 = 0"
    then have "unat (ts_width s div 8) = 0" by simp
    then show False using S(2) by (simp add: unat_div w_def)
  qed
  define canvas where "canvas = bar_rows (ts_width s div 8) (w div 2) (test_bars s) @ strip_rows (w div 2) (h - test_bars s)"
  have n4: "w div 2 * 4 = 2 * w" using S(1) by simp
  have clen: "length canvas = h * (2 * w)" using le(1) unfolding canvas_def by (simp add: n4 distrib_right [symmetric])
  have b: "below (test_bars s * (2 * w)) canvas canvas" by (simp add: below_def)
  obtain d1 where 1: "draw_marker s (ts_width s * 2) (ts_height s * 3 div 4) canvas = Some d1" "below (test_bars s * (2 * w)) canvas d1"
    using draw_marker_ok [OF b st w_def [symmetric] _ clen, of "ts_height s * 3 div 4"] bars h_def le(2) S(5) by auto
  obtain d2 where 2: "draw_counter s (ts_width s * 2) (ts_height s * 3 div 4) d1 = Some d2" "below (test_bars s * (2 * w)) canvas d2"
    using draw_counter_ok [OF 1(2) st S(1) _ clen, of "ts_height s * 3 div 4"] bars h_def le(2) S(8) by auto
  have run: "render_frame s d = Some d2" if d: "length d = h * (2 * w)" for d
  proof -
    have f: "do { d1 \<leftarrow> foldo (\<lambda>row. fill_row (row * (2 * w)) (bar_pixel (ts_width s div 8)) (w div 2)) [0..<test_bars s] d;
        foldo (\<lambda>row. fill_row (row * (2 * w)) (\<lambda>_. strip_pixel) (w div 2)) [test_bars s..<h] d1 } = Some canvas"
      using fills [of "ts_width s" "test_bars s" h d "ts_width s div 8"] S(1) le(1) d by (simp add: w_def canvas_def)
    have "unat (ts_width s div 2) = w div 2" by (simp add: unat_div w_def)
    then show ?thesis
      using f 1 2 w8 S(6) unfolding render_frame_def Let_def
      by (simp add: st bars h_def [symmetric] Option.bind_eq_Some_conv) blast
  qed
  have "take (test_bars s * (2 * w)) d2 = take (test_bars s * (2 * w)) canvas" using 2(2) by (simp add: below_def)
  also have "\<dots> = bar_rows (ts_width s div 8) (w div 2) (test_bars s)" by (simp add: canvas_def n4)
  finally show ?thesis using run 2(2) clen S(7) by (auto simp: below_def w_def [symmetric])
qed

lemma capture_spec:
  assumes ok: "test_ok (Suc n) s"
  shows "\<exists>d t s'. test_capture s = Some (\<lparr>cap_rc = 1, cap_timestamp_us = t, cap_data = Some d, cap_index = of_nat ((ts_current s + 1) mod 3)\<rparr>, s') \<and>
    length d = ts_frame_size s \<and> test_ok n s' \<and> test_info s' = test_info s \<and> unat (ts_sequence s') = Suc (unat (ts_sequence s)) \<and>
    take (test_bars s * (2 * unat (ts_width s))) d = bar_rows (ts_width s div 8) (unat (ts_width s) div 2) (test_bars s)"
proof -
  obtain now s1 where c1: "ts_monotonic_us s = (now, s1)" by fastforce
  have s1: "s1 = s\<lparr>ts_reads := Suc (ts_reads s)\<rparr>" using c1 by (simp add: ts_monotonic_us_def)
  define dl where "dl = (let deadline = ts_next_deadline_us s + 1000000 div ucast (ts_fps s) in
    if deadline < now then now + 1000000 div ucast (ts_fps s) else deadline)"
  define k where "k = (ts_current s + 1) mod 3"
  define s2 where "s2 = s1\<lparr>ts_next_deadline_us := dl, ts_current := k\<rparr>"
  have ok2: "test_ok (Suc n) s2" using ok by (simp add: test_ok_def s2_def s1)
  have k: "k < length (ts_buffers s2)" using ok by (simp add: k_def s2_def s1 test_ok_def TEST_BUFFER_COUNT_def)
  obtain pic where P: "\<And>d. length d = ts_frame_size s2 \<Longrightarrow> render_frame s2 d = Some pic" "length pic = ts_frame_size s2"
    "take (test_bars s2 * (2 * unat (ts_width s2))) pic = bar_rows (ts_width s2 div 8) (unat (ts_width s2) div 2) (test_bars s2)"
    using render_spec [OF ok2] by blast
  have "ts_buffers s2 ! k \<in> set (ts_buffers s2)" using k by simp
  then have r: "render_frame s2 (ts_buffers s2 ! k) = Some pic" using P(1) ok2 by (simp add: test_ok_def)
  obtain t s3 where c3: "ts_monotonic_us s2 = (t, s3)" by fastforce
  have s3: "s3 = s2\<lparr>ts_reads := Suc (ts_reads s2)\<rparr>" using c3 by (simp add: ts_monotonic_us_def)
  define s4 where "s4 = s3\<lparr>ts_buffers := (ts_buffers s3)[k := pic], ts_sequence := ts_sequence s3 + 1\<rparr>"
  have run: "test_capture s = Some (\<lparr>cap_rc = 1, cap_timestamp_us = t, cap_data = Some pic, cap_index = of_nat k\<rparr>, s4)"
  proof -
    have "ts_fps s \<noteq> 0" using ok by (simp add: test_ok_def)
    then have "test_capture s = do {
        buffer \<leftarrow> (if k < length (ts_buffers s2) then render_frame s2 (ts_buffers s2 ! k) else None);
        let (t, s3) = ts_monotonic_us s2;
        data \<leftarrow> rdn buffer 0 (ts_frame_size s3);
        Some (\<lparr>cap_rc = 1, cap_timestamp_us = t, cap_data = Some data, cap_index = of_nat k\<rparr>,
              s3\<lparr>ts_buffers := (ts_buffers s3)[k := buffer], ts_sequence := ts_sequence s3 + 1\<rparr>)
      }"
      by (simp add: test_capture_def Let_def c1 s2_def dl_def k_def TEST_BUFFER_COUNT_def s1)
    then show ?thesis using k r P(2) c3 s3 by (simp add: s4_def)
  qed
  have "unat (ts_sequence s) + 1 < 2 ^ 64" using ok by (simp add: test_ok_def)
  then have q: "unat (ts_sequence s + 1) = Suc (unat (ts_sequence s))" by (subst unat_add_lem [THEN iffD1]) simp_all
  have "test_ok n s4" using ok k P(2) q by (auto simp: test_ok_def s4_def s3 s2_def s1 dest!: set_update_subset_insert [THEN subsetD])
  then show ?thesis
    using run P(2,3) q by (auto simp: k_def test_info_def s4_def s3 s2_def s1 test_bars_def)
qed

interpretation test_src: video_capture test_ops test_ok test_info
proof unfold_locales
  show "\<exists>c s'. so_capture test_ops s = Some (c, s') \<and> test_ok n s' \<and> test_info s' = test_info s \<and>
      (cap_rc c > 0 \<longrightarrow> (\<exists>d. cap_data c = Some d \<and> length d \<le> vs_frame_size (test_info s)))"
    if "test_ok (Suc n) s" for n s
    using capture_spec [OF that] by (auto simp: test_ops_def test_info_def)
  show "test_ok n (so_release test_ops s i) \<and> test_info (so_release test_ops s i) = test_info s" if "test_ok n s" for n s i
    using that by (simp add: test_ops_def test_release_def)
  show "test_ok n (snd (so_start test_ops s)) \<and> test_info (snd (so_start test_ops s)) = test_info s" if "test_ok n s" for n s
    using that by (simp add: test_ops_def test_start_def ts_monotonic_us_def test_ok_def test_info_def)
qed

lemma even_size: "unat (w AND NOT 1 :: u32) = unat w div 2 * 2"
proof (rule bit_eqI)
  fix n
  have "bit (unat (w AND NOT 1)) n \<longleftrightarrow> n < 32 \<and> bit w n \<and> n \<noteq> 0"
    by (auto simp: bit_unsigned_iff bit_and_iff bit_minus_2_iff)
  moreover have "bit (unat w div 2 * 2) n \<longleftrightarrow> bit (unat w) n \<and> n \<noteq> 0" by (cases n) (simp_all add: bit_Suc bit_0)
  ultimately show "bit (unat (w AND NOT 1)) n = bit (unat w div 2 * 2) n"
    by (auto simp: bit_unsigned_iff dest: bit_imp_le_length)
qed

lemma create_spec:
  assumes "test_source_create alloc_ok junk clock width height fps = Some s" "width \<le> 4096" "height \<le> 4096"
  shows "test_ok (10 ^ 12) s \<and> unat (ts_width s) = unat width div 2 * 2 \<and> unat (ts_height s) = unat height div 2 * 2 \<and>
    unat (ts_sequence s) = 0"
proof -
  define v h where "v = width AND NOT 1" and "h = height AND NOT 1"
  have small: "unat width \<le> 4096" "unat height \<le> 4096" "64 \<le> unat width" "48 \<le> unat height" "fps \<noteq> 0"
    using assms by (auto simp: test_source_create_def word_le_nat_alt word_less_nat_alt not_less split: if_splits)
  have e: "unat v = unat width div 2 * 2" "unat h = unat height div 2 * 2" unfolding v_def h_def by (rule even_size)+
  have "unat v * unat h * 2 \<le> 4096 * 4096 * 2" using small(1,2) unfolding e by (intro mult_le_mono) linarith+
  also have "\<dots> < (2 :: nat) ^ 64" by simp
  finally have fs: "(unat v * unat h * 2) mod 2 ^ 64 = unat v * unat h * 2" by (rule mod_less)
  have "s = \<lparr>ts_width = v, ts_height = h, ts_fps = fps, ts_frame_size = unat v * unat h * 2,
      ts_buffers = map (\<lambda>i. map (junk i) [0..<unat v * unat h * 2]) [0..<TEST_BUFFER_COUNT],
      ts_current = 0, ts_next_deadline_us = 0, ts_sequence = 0, ts_clock = clock, ts_reads = 0\<rparr>"
    using assms(1) unfolding test_source_create_def Let_def v_def [symmetric] h_def [symmetric] fs by (simp split: if_splits)
  moreover have "64 \<le> unat width div 2 * 2" "48 \<le> unat height div 2 * 2" using small(3,4) by presburger+
  ultimately show ?thesis using small e by (auto simp: test_ok_def)
qed

lemma concat_slice:
  assumes "\<And>i. i < k \<Longrightarrow> length (g i) = n" "i < k"
  shows "take n (drop (i * n) (concat (map g [0..<k]))) = g i"
  using assms
proof (induction k)
  case (Suc k)
  have len: "length (concat (map g [0..<k])) = k * n" by (rule length_concat_rows) (use Suc.prems(1) in simp)
  show ?case
  proof (cases "i = k")
    case False
    then have "Suc i * n \<le> k * n" using Suc.prems(2) by (intro mult_le_mono1) simp
    then have "take n (drop (i * n) (concat (map g [0..<k]) @ g k)) = take n (drop (i * n) (concat (map g [0..<k])))"
      using len by simp
    also have "\<dots> = g i" by (rule Suc.IH) (use Suc.prems False in auto)
    finally show ?thesis by simp
  qed (use len Suc.prems(1) in simp)
qed simp

lemma take_slice: "b + k \<le> m \<Longrightarrow> take k (drop b (take m ys)) = take k (drop b ys)"
  by (simp add: drop_take min_def)

lemma bar_rows_pixel:
  assumes "row < rows" "x < n"
  shows "take 4 (drop (row * (n * 4) + x * 4) (bar_rows bar_w n rows)) = bar_pixel bar_w x"
proof -
  let ?row = "concat (map (bar_pixel bar_w) [0..<n])"
  have "take (n * 4) (drop (row * (n * 4)) (bar_rows bar_w n rows)) = ?row"
    unfolding bar_rows_def by (rule concat_slice) (simp_all only: row_lengths assms)
  moreover have "take 4 (drop (x * 4) ?row) = bar_pixel bar_w x" by (rule concat_slice) (simp_all add: assms)
  moreover have "x * 4 + 4 \<le> n * 4" using assms(2) by simp
  ultimately have "take 4 (drop (x * 4) (take (n * 4) (drop (row * (n * 4)) (bar_rows bar_w n rows)))) = bar_pixel bar_w x" by simp
  then show ?thesis unfolding take_slice [OF \<open>x * 4 + 4 \<le> n * 4\<close>] by (simp add: add.commute)
qed

section \<open>Properties\<close>

primrec test_after :: "nat \<Rightarrow> test_source \<Rightarrow> test_source option" where
  "test_after 0 s = Some (snd (test_start s))"
| "test_after (Suc n) s = (case test_after n s of None \<Rightarrow> None | Some s' \<Rightarrow> map_option snd (test_capture s'))"

lemma after_ok:
  assumes "test_ok N s" "unat (ts_sequence s) = 0" "n \<le> N"
  shows "\<exists>s'. test_after n s = Some s' \<and> test_ok (N - n) s' \<and> test_info s' = test_info s \<and> unat (ts_sequence s') = n"
  using assms(3)
proof (induction n)
  case 0
  then show ?case using assms test_src.start_ok [of N s]
    by (simp add: test_ops_def) (simp add: test_start_def ts_monotonic_us_def)
next
  case (Suc n)
  then obtain s' where s': "test_after n s = Some s'" "test_ok (N - n) s'" "test_info s' = test_info s" "unat (ts_sequence s') = n" by auto
  have "N - n = Suc (N - Suc n)" using Suc.prems by simp
  then have "test_ok (Suc (N - Suc n)) s'" using s'(2) by simp
  from capture_spec [OF this] show ?case using s' by auto
qed

text \<open>
  C19. The test pattern is what it says. A source that was created for a size the command line accepts
  delivers a frame on every capture, for the first \<open>10 ^ 12\<close> frames: drawing never leaves the buffer,
  whatever the buffer held before, the frame has two bytes for every pixel, and its upper three
  quarters are the eight color bars, each an eighth of the width.
\<close>

theorem test_pattern_drawn:
  assumes "test_source_create alloc_ok junk clock width height fps = Some s0" and "width \<le> 4096" and "height \<le> 4096"
    and "n < 10 ^ 12"
  shows "\<exists>s c s' d. test_after n s0 = Some s \<and> test_capture s = Some (c, s') \<and> cap_rc c = 1 \<and> cap_data c = Some d \<and>
    length d = unat width div 2 * 2 * (unat height div 2 * 2) * 2 \<and>
    (\<forall>row x. row < unat height div 2 * 2 * 3 div 4 \<longrightarrow> x < unat width div 2 \<longrightarrow>
       take 4 (drop (row * (unat width div 2 * 4) + x * 4) d) = bar_pixel (of_nat (unat width div 2 * 2) div 8) x)"
proof -
  note C = create_spec [OF assms(1-3)]
  obtain s where A: "test_after n s0 = Some s" "test_ok (10 ^ 12 - n) s" "test_info s = test_info s0" "unat (ts_sequence s) = n"
    using after_ok [of "10 ^ 12" s0 n] C assms(4) by auto
  have "10 ^ 12 - n = Suc (10 ^ 12 - n - 1)" using assms(4) by simp
  then have ok: "test_ok (Suc (10 ^ 12 - n - 1)) s" using A(2) by simp
  have w: "unat (ts_width s) = unat width div 2 * 2" "unat (ts_height s) = unat height div 2 * 2"
    using A(3) C by (simp_all add: test_info_def)
  have w': "ts_width s = of_nat (unat width div 2 * 2)" by (simp flip: w(1))
  obtain c s' d where R: "test_capture s = Some (c, s')" "cap_rc c = 1" "cap_data c = Some d" "length d = ts_frame_size s"
    "take (test_bars s * (2 * unat (ts_width s))) d = bar_rows (ts_width s div 8) (unat (ts_width s) div 2) (test_bars s)"
    using capture_spec [OF ok] by auto
  define v where "v = unat width div 2"
  have "take 4 (drop (row * (v * 4) + x * 4) d) = bar_pixel (ts_width s div 8) x"
    if rx: "row < test_bars s" "x < v" for row x
  proof -
    have "Suc row * (v * 4) \<le> test_bars s * (v * 4)" using rx(1) by (intro mult_le_mono1) simp
    then have "row * (v * 4) + x * 4 + 4 \<le> test_bars s * (v * 4)" using rx(2) by simp
    moreover have "take 4 (drop (row * (v * 4) + x * 4) (take (test_bars s * (v * 4)) d)) = bar_pixel (ts_width s div 8) x"
      using R(5) bar_rows_pixel [OF rx, of "ts_width s div 8"] w(1) by (simp add: v_def mult.commute mult.left_commute)
    ultimately show ?thesis by (simp only: take_slice)
  qed
  then show ?thesis
    using A(1) R(1-4) w ok w' by (auto simp: test_ok_def test_bars_def v_def mult.commute)
qed

definition demo_camera :: test_source where
  "demo_camera = the (test_source_create (\<lambda>_. True) (\<lambda>_ _. 0) (\<lambda>n. of_nat n) 64 49 30)"

lemma demo_camera_create: "test_source_create (\<lambda>_. True) (\<lambda>_ _. 0) (\<lambda>n. of_nat n) 64 49 30 = Some demo_camera"
  unfolding demo_camera_def by (simp add: test_source_create_def)

lemma test_pattern_drawn_witness:
  "\<exists>s c s' d. test_after 7 demo_camera = Some s \<and> test_capture s = Some (c, s') \<and> cap_rc c = 1 \<and> cap_data c = Some d \<and>
    length d = 64 * 48 * 2 \<and> take 4 (drop (2 * 128 + 9 * 4) d) = [145, 72, 145, 54]"
proof -
  have px: "bar_pixel (of_nat 64 div 8) 9 = [145, 72, 145, 54]" by code_simp
  show ?thesis using test_pattern_drawn [OF demo_camera_create, of 7] px by (fastforce dest: spec [of _ 2] spec [of _ 9])
qed

end
