(* ===== verification/Source_Worker.thy ===== *)
theory Source_Worker
  imports Frame_Hub Video_Source
begin

text \<open>
  The capture thread of \<^verbatim>\<open>src/media/source_worker.c\<close>: the only writer of the hub. The operations of
  the source are function pointers in C and a record of functions on the source's state here. One
  round of the thread's loop is \<open>source_worker_round\<close>; its local \<^verbatim>\<open>sequence\<close> is part of the state.
\<close>

section \<open>Definitions\<close>

record source_worker =
  sw_source :: video_source
  sw_running :: bool
  sw_started :: bool
  sw_captured :: u64
  sw_sequence :: u64

definition source_worker_create :: "bool \<Rightarrow> video_source option \<Rightarrow> bool \<Rightarrow> source_worker option" where
  "source_worker_create alloc_ok source has_hub =
     (case source of
        None \<Rightarrow> None
      | Some v \<Rightarrow>
          if \<not> has_hub \<or> \<not> alloc_ok then None
          else Some \<lparr>sw_source = v, sw_running = True, sw_started = False, sw_captured = 0, sw_sequence = 0\<rparr>)"

definition source_worker_start :: "'src source_ops \<Rightarrow> bool \<Rightarrow> source_worker \<times> 'src \<Rightarrow> int \<times> source_worker \<times> 'src" where
  "source_worker_start ops thread_ok s =
     (case so_start ops (snd s) of
        (rc, src) \<Rightarrow>
          if rc \<noteq> 0 then (- 1, fst s, src)
          else if \<not> thread_ok then (- 1, fst s, src)
          else (0, (fst s)\<lparr>sw_started := True\<rparr>, src))"

definition source_worker_stop :: "source_worker \<Rightarrow> source_worker" where
  "source_worker_stop w = w\<lparr>sw_running := False\<rparr>"

definition source_worker_join :: "source_worker \<Rightarrow> source_worker" where
  "source_worker_join w = (if sw_started w then w\<lparr>sw_started := False\<rparr> else w)"

definition source_worker_captured :: "source_worker option \<Rightarrow> u64" where
  "source_worker_captured w = (case w of None \<Rightarrow> 0 | Some w \<Rightarrow> sw_captured w)"

text \<open>Destroying joins the thread and frees the memory.\<close>

definition source_worker_destroy :: "source_worker option \<Rightarrow> source_worker option" where
  "source_worker_destroy w = (case w of None \<Rightarrow> None | Some w \<Rightarrow> Some (source_worker_join w))"

text \<open>
  One round of the loop. A frame the hub has no room for is dropped, but it counts and takes a
  sequence number like any other, and its buffer goes back to the source.
\<close>

definition source_worker_round :: "'src source_ops \<Rightarrow> source_worker \<times> 'src \<times> frame_hub \<Rightarrow>
    (source_worker \<times> 'src \<times> frame_hub) option" where
  "source_worker_round ops s =
     (case s of (w, src, hub) \<Rightarrow>
        let v = sw_source w in
        do {
          (c, src1) \<leftarrow> so_capture ops src;
          if cap_rc c < 0 then Some (w, src1, hub)
          else if cap_rc c = 0 then Some (w, src1, hub)
          else do {
            (rc, hub1) \<leftarrow> frame_hub_publish hub (cap_data c) (vs_width v) (vs_height v) (vs_format v) (vs_stride v)
               (sw_sequence w) (cap_timestamp_us c);
            Some (w\<lparr>sw_sequence := sw_sequence w + 1, sw_captured := sw_captured w + 1\<rparr>,
                  so_release ops src1 (cap_index c), hub1)
          }
        })"

text \<open>A number of rounds in a row.\<close>

primrec source_rounds :: "'src source_ops \<Rightarrow> nat \<Rightarrow> source_worker \<times> 'src \<times> frame_hub \<Rightarrow>
    (source_worker \<times> 'src \<times> frame_hub) option" where
  "source_rounds ops 0 s = Some s"
| "source_rounds ops (Suc n) s = do { s' \<leftarrow> source_rounds ops n s; source_worker_round ops s' }"

section \<open>Lemmas\<close>

text \<open>The thread's two counters agree, whatever the source and the hub do.\<close>

lemma round_counters:
  assumes "source_worker_round ops (w, src, hub) = Some (w', src', hub')" "sw_captured w = sw_sequence w"
  shows "sw_captured w' = sw_sequence w' \<and> sw_source w' = sw_source w"
  using assms by (auto simp: source_worker_round_def Let_def Option.bind_eq_Some_conv split: prod.splits if_splits)

text \<open>A round either leaves the hub alone or publishes what was captured, with the geometry of the source.\<close>

lemma round_cases:
  assumes "source_worker_round ops (w, src, hub) = Some (w', src', hub')"
  obtains "hub' = hub"
  | c src1 rc d where "so_capture ops src = Some (c, src1)" "cap_rc c > 0" "cap_data c = Some d" "0 < length d"
      "frame_hub_publish hub (Some d) (vs_width (sw_source w)) (vs_height (sw_source w)) (vs_format (sw_source w))
         (vs_stride (sw_source w)) (sw_sequence w) (cap_timestamp_us c) = Some (rc, hub')"
proof -
  obtain c src1 where c: "so_capture ops src = Some (c, src1)"
    using assms by (auto simp: source_worker_round_def Let_def Option.bind_eq_Some_conv)
  show thesis
  proof (cases "cap_rc c > 0 \<and> (\<exists>d. cap_data c = Some d \<and> 0 < length d)")
    case True
    then obtain d where "cap_data c = Some d" "0 < length d" by blast
    then show thesis
      using assms c True that(2)
      by (auto simp: source_worker_round_def Let_def Option.bind_eq_Some_conv split: if_splits)
  next
    case False
    then have "hub' = hub"
      using assms c
      by (cases "cap_data c")
        (auto simp: source_worker_round_def Let_def Option.bind_eq_Some_conv frame_hub_publish_def split: if_splits)
    then show thesis by (rule that(1))
  qed
qed

end
