(* ===== verification/Fallible_Steps.thy ===== *)
theory Fallible_Steps
  imports Prelude
begin

text \<open>
  Sequences of calls that jump to a common failure exit, as the C code writes them with \<^verbatim>\<open>goto fail\<close>. A
  step that fails is \<open>Inl\<close> of the state at that point, one that goes on is \<open>Inr\<close>, and one that accesses
  memory outside an array is \<open>None\<close>. \<open>steps_to F P f Q\<close> says that the step \<open>f\<close>, started in a state with
  \<open>P\<close>, ends in one with \<open>Q\<close> or fails in one with \<open>F\<close>.
\<close>

type_synonym 's fallible = "'s \<Rightarrow> ('s + 's) option"

definition and_then :: "'s fallible \<Rightarrow> 's fallible \<Rightarrow> 's fallible" where
  "and_then f g s = (case f s of None \<Rightarrow> None | Some (Inl s') \<Rightarrow> Some (Inl s') | Some (Inr s') \<Rightarrow> g s')"

fun each_index :: "(nat \<Rightarrow> 's fallible) \<Rightarrow> nat list \<Rightarrow> 's fallible" where
  "each_index f [] s = Some (Inr s)"
| "each_index f (i # is) s = and_then (f i) (each_index f is) s"

definition steps_to :: "('s \<Rightarrow> bool) \<Rightarrow> ('s \<Rightarrow> bool) \<Rightarrow> 's fallible \<Rightarrow> ('s \<Rightarrow> bool) \<Rightarrow> bool" where
  "steps_to F P f Q \<longleftrightarrow> (\<forall>e. P e \<longrightarrow> (case f e of None \<Rightarrow> True | Some (Inl e') \<Rightarrow> F e' | Some (Inr e') \<Rightarrow> Q e'))"

lemma steps_toI: "(\<And>e e'. P e \<Longrightarrow> f e = Some (Inl e') \<Longrightarrow> F e') \<Longrightarrow>
    (\<And>e e'. P e \<Longrightarrow> f e = Some (Inr e') \<Longrightarrow> Q e') \<Longrightarrow> steps_to F P f Q"
  by (auto simp: steps_to_def split: option.split sum.split)

lemma steps_toD: "steps_to F P f Q \<Longrightarrow> P e \<Longrightarrow> f e = Some (Inl e') \<Longrightarrow> F e'"
  "steps_to F P f Q \<Longrightarrow> P e \<Longrightarrow> f e = Some (Inr e') \<Longrightarrow> Q e'"
  by (fastforce simp: steps_to_def)+

lemma steps_to_mono: "steps_to F P f Q \<Longrightarrow> (\<And>e. Q e \<Longrightarrow> Q' e) \<Longrightarrow> steps_to F P f Q'"
  by (rule steps_toI) (auto dest: steps_toD)

lemma steps_to_ex: "(\<And>n. steps_to F (P n) f Q) \<Longrightarrow> steps_to F (\<lambda>e. \<exists>n. P n e) f Q"
  by (rule steps_toI) (auto dest: steps_toD)

lemma steps_to_then: "steps_to F P f R \<Longrightarrow> steps_to F R g Q \<Longrightarrow> steps_to F P (and_then f g) Q"
  by (rule steps_toI)
    (auto simp: and_then_def split: option.splits sum.splits dest: steps_toD)

lemma steps_to_each:
  assumes "\<And>i. m \<le> i \<Longrightarrow> i < n \<Longrightarrow> steps_to F (I i) (f i) (I (Suc i))" and "m \<le> n"
  shows "steps_to F (I m) (each_index f [m..<n]) (I n)"
  using assms
proof (induction "n - m" arbitrary: m)
  case 0
  then show ?case by (simp add: steps_to_def)
next
  case (Suc d)
  then have "[m..<n] = m # [Suc m..<n]" by (simp add: upt_conv_Cons)
  then have "each_index f [m..<n] = and_then (f m) (each_index f [Suc m..<n])" by (intro ext) simp
  moreover have "steps_to F (I (Suc m)) (each_index f [Suc m..<n]) (I n)"
    by (rule Suc.hyps(1)) (use Suc in auto)
  moreover have "steps_to F (I m) (f m) (I (Suc m))" using Suc by simp
  ultimately show ?case using steps_to_then by simp
qed

end
