(* ===== verification/V4l2_Source.thy ===== *)
theory V4l2_Source
  imports Source_Worker Fallible_Steps
begin

text \<open>
  The camera of \<^verbatim>\<open>src/media/v4l2_source.c\<close>: opening a V4L2 device with its negotiation of the format,
  the streaming I/O with mapped buffers, and closing. The kernel driver is an argument: a state and
  one function per request, with \<^verbatim>\<open>EINTR\<close> already retried. A buffer the driver hands out comes with
  the contents of its mapping.
\<close>

section \<open>The driver\<close>

definition V4L2_BUFFER_COUNT :: nat where "V4L2_BUFFER_COUNT = 4"
definition V4L2_CAP_VIDEO_CAPTURE :: u32 where "V4L2_CAP_VIDEO_CAPTURE = 1"
definition V4L2_CAP_STREAMING :: u32 where "V4L2_CAP_STREAMING = 0x04000000"

record cam_format =
  cf_width :: u32
  cf_height :: u32
  cf_pixelformat :: u32
  cf_bytesperline :: u32
  cf_sizeimage :: u32

record cam_buffer =
  cb_idx :: nat
  cb_error :: bool
  cb_used :: nat
  cb_mem :: bytes

datatype cam_poll = Poll_Ready | Poll_Timeout | Poll_Interrupted | Poll_Failed

datatype cam_dequeued = Dq cam_buffer | Dq_Again | Dq_Failed

text \<open>\<open>cam_s_parm\<close> answers with the numerator and the denominator of the frame interval.\<close>

record 'k cam_driver =
  cam_open :: "string \<Rightarrow> 'k option"
  cam_querycap :: "'k \<Rightarrow> (u32 \<times> u32) option"
  cam_s_fmt :: "'k \<Rightarrow> u32 \<Rightarrow> u32 \<Rightarrow> u32 \<Rightarrow> cam_format option \<times> 'k"
  cam_s_parm :: "'k \<Rightarrow> u32 \<Rightarrow> (u32 \<times> u32) option \<times> 'k"
  cam_reqbufs :: "'k \<Rightarrow> nat \<Rightarrow> nat option \<times> 'k"
  cam_querybuf :: "'k \<Rightarrow> nat \<Rightarrow> nat option"
  cam_mmap :: "'k \<Rightarrow> nat \<Rightarrow> bool"
  cam_streamon :: "'k \<Rightarrow> bool \<times> 'k"
  cam_streamoff :: "'k \<Rightarrow> 'k"
  cam_poll_in :: "'k \<Rightarrow> cam_poll \<times> 'k"
  cam_qbuf :: "'k \<Rightarrow> nat \<Rightarrow> bool \<times> 'k"
  cam_dqbuf :: "'k \<Rightarrow> cam_dequeued \<times> 'k"

section \<open>State\<close>

text \<open>
  \<open>v4_buffers\<close> are the lengths of the mapped buffers, \<open>None\<close> where nothing is mapped. Two fields are
  not in the C struct: \<open>v4_lent\<close>, the buffers the program holds and the driver does not, and
  \<open>v4_trace\<close>, what was acquired and released of the operating system.
\<close>

datatype cam_resource = Cam_Device | Cam_Mapping nat

datatype cam_event = Cam_Got cam_resource | Cam_Freed cam_resource | Cam_Streamoff

record 'k v4l2_source =
  v4_kern :: 'k
  v4_streaming :: bool
  v4_buffers :: "nat option list"
  v4_buffer_count :: nat
  v4_name :: string
  v4_width :: u32
  v4_height :: u32
  v4_fps :: u32
  v4_stride :: u32
  v4_format :: u32
  v4_frame_size :: nat
  v4_clock :: "nat \<Rightarrow> u64"
  v4_reads :: nat
  v4_lent :: "nat list"
  v4_trace :: "cam_event list"

section \<open>Streaming\<close>

text \<open>\<^verbatim>\<open>VIDIOC_QBUF\<close> for buffer \<open>i\<close>.\<close>

definition cam_give :: "'k cam_driver \<Rightarrow> nat \<Rightarrow> 'k v4l2_source \<Rightarrow> bool \<times> 'k v4l2_source" where
  "cam_give drv i s =
     (case cam_qbuf drv (v4_kern s) i of
        (ok, k) \<Rightarrow> (ok, s\<lparr>v4_kern := k, v4_lent := (if ok then removeAll i (v4_lent s) else v4_lent s)\<rparr>))"

fun queue_all :: "'k cam_driver \<Rightarrow> nat list \<Rightarrow> 'k v4l2_source \<Rightarrow> bool \<times> 'k v4l2_source" where
  "queue_all drv [] s = (True, s)"
| "queue_all drv (i # is) s = (case cam_give drv i s of (ok, s') \<Rightarrow> if \<not> ok then (False, s') else queue_all drv is s')"

definition v4l2_start :: "'k cam_driver \<Rightarrow> 'k v4l2_source \<Rightarrow> int \<times> 'k v4l2_source" where
  "v4l2_start drv s =
     (if v4_streaming s then (0, s)
      else case queue_all drv [0..<v4_buffer_count s] s of
        (ok, s1) \<Rightarrow>
          if \<not> ok then (- 1, s1)
          else case cam_streamon drv (v4_kern s1) of
            (on, k) \<Rightarrow>
              if \<not> on then (- 1, s1\<lparr>v4_kern := k\<rparr>)
              else (0, s1\<lparr>v4_kern := k, v4_streaming := True\<rparr>))"

definition v4l2_dequeued :: "'k cam_driver \<Rightarrow> cam_buffer \<Rightarrow> 'k v4l2_source \<Rightarrow> (captured \<times> 'k v4l2_source) option" where
  "v4l2_dequeued drv b s =
     (if cb_idx b \<ge> v4_buffer_count s then Some (no_frame (- 1), s)
      else if cb_error b then Some (no_frame 0, snd (cam_give drv (cb_idx b) s))
      else if cb_used b = 0 \<or> cb_used b > v4_frame_size s then Some (no_frame 0, snd (cam_give drv (cb_idx b) s))
      else if cb_idx b \<ge> length (v4_buffers s) \<or> v4_buffers s ! cb_idx b = None then None
      else do {
        data \<leftarrow> rdn (cb_mem b) 0 (cb_used b);
        Some (\<lparr>cap_rc = 1, cap_timestamp_us = v4_clock s (v4_reads s), cap_data = Some data, cap_index = of_nat (cb_idx b)\<rparr>,
              s\<lparr>v4_reads := Suc (v4_reads s)\<rparr>)
      })"

definition v4l2_capture :: "'k cam_driver \<Rightarrow> 'k v4l2_source \<Rightarrow> (captured \<times> 'k v4l2_source) option" where
  "v4l2_capture drv s =
     (case cam_poll_in drv (v4_kern s) of (ready, k) \<Rightarrow>
        let s1 = s\<lparr>v4_kern := k\<rparr> in
        case ready of
          Poll_Interrupted \<Rightarrow> Some (no_frame 0, s1)
        | Poll_Failed \<Rightarrow> Some (no_frame (- 1), s1)
        | Poll_Timeout \<Rightarrow> Some (no_frame 0, s1)
        | Poll_Ready \<Rightarrow>
            (case cam_dqbuf drv k of (r, k2) \<Rightarrow>
               let s2 = s1\<lparr>v4_kern := k2\<rparr> in
               case r of
                 Dq_Again \<Rightarrow> Some (no_frame 0, s2)
               | Dq_Failed \<Rightarrow> Some (no_frame (- 1), s2)
               | Dq b \<Rightarrow> v4l2_dequeued drv b (s2\<lparr>v4_lent := cb_idx b # v4_lent s2\<rparr>)))"

definition v4l2_release :: "'k cam_driver \<Rightarrow> 'k v4l2_source \<Rightarrow> u32 \<Rightarrow> 'k v4l2_source" where
  "v4l2_release drv s buffer_index =
     (if unat buffer_index \<ge> v4_buffer_count s then s else snd (cam_give drv (unat buffer_index) s))"

definition v4l2_ops :: "'k cam_driver \<Rightarrow> 'k v4l2_source source_ops" where
  "v4l2_ops drv = \<lparr>so_start = v4l2_start drv, so_capture = v4l2_capture drv, so_release = v4l2_release drv\<rparr>"

fun cam_unmap :: "nat \<Rightarrow> nat option list \<Rightarrow> cam_event list" where
  "cam_unmap i [] = []"
| "cam_unmap i (b # bs) = (case b of None \<Rightarrow> [] | Some _ \<Rightarrow> [Cam_Freed (Cam_Mapping i)]) @ cam_unmap (Suc i) bs"

definition v4l2_close :: "'k v4l2_source \<Rightarrow> cam_event list" where
  "v4l2_close s = v4_trace s @ (if v4_streaming s then [Cam_Streamoff] else []) @
     cam_unmap 0 (take (v4_buffer_count s) (v4_buffers s)) @ [Cam_Freed Cam_Device]"

section \<open>Opening\<close>

type_synonym 'k cam_step = "'k v4l2_source fallible"

definition cam_check :: "'k cam_driver \<Rightarrow> 'k cam_step" where
  "cam_check drv s =
     (case cam_querycap drv (v4_kern s) of
        None \<Rightarrow> Some (Inl s)
      | Some (capabilities, device_caps) \<Rightarrow>
          let caps = (if capabilities AND V4L2_CAP_DEVICE_CAPS \<noteq> 0 then device_caps else capabilities)
          in Some ((if caps AND V4L2_CAP_VIDEO_CAPTURE = 0 \<or> caps AND V4L2_CAP_STREAMING = 0 then Inl else Inr) s))"

definition cam_formats :: "u32 list" where
  "cam_formats = [V4L2_PIX_FMT_YUYV, V4L2_PIX_FMT_YUV420]"

fun cam_try_formats :: "'k cam_driver \<Rightarrow> u32 \<Rightarrow> u32 \<Rightarrow> u32 list \<Rightarrow> 'k cam_step" where
  "cam_try_formats drv w h [] s = Some (Inl s)"
| "cam_try_formats drv w h (fmt # fmts) s =
     (case cam_s_fmt drv (v4_kern s) w h fmt of
        (None, k) \<Rightarrow> cam_try_formats drv w h fmts (s\<lparr>v4_kern := k\<rparr>)
      | (Some f, k) \<Rightarrow>
          if cf_pixelformat f \<noteq> fmt then cam_try_formats drv w h fmts (s\<lparr>v4_kern := k\<rparr>)
          else Some (Inr (s\<lparr>v4_kern := k, v4_width := cf_width f, v4_height := cf_height f, v4_stride := cf_bytesperline f,
                 v4_frame_size := unat (cf_sizeimage f), v4_format := fmt\<rparr>)))"

definition cam_interval :: "'k cam_driver \<Rightarrow> u32 \<Rightarrow> 'k cam_step" where
  "cam_interval drv fps s =
     (case cam_s_parm drv (v4_kern s) fps of
        (Some (numerator, denominator), k) \<Rightarrow>
          Some (Inr (s\<lparr>v4_kern := k, v4_fps := (if numerator \<noteq> 0 then denominator div numerator else fps)\<rparr>))
      | (None, k) \<Rightarrow> Some (Inr (s\<lparr>v4_kern := k, v4_fps := fps\<rparr>)))"

definition cam_map :: "'k cam_driver \<Rightarrow> nat \<Rightarrow> 'k cam_step" where
  "cam_map drv i s =
     (case cam_querybuf drv (v4_kern s) i of
        None \<Rightarrow> Some (Inl s)
      | Some len \<Rightarrow>
          if i \<ge> length (v4_buffers s) then None
          else if \<not> cam_mmap drv (v4_kern s) i then Some (Inl s)
          else Some (Inr (s\<lparr>v4_buffers := (v4_buffers s)[i := Some len],
                 v4_trace := v4_trace s @ [Cam_Got (Cam_Mapping i)]\<rparr>)))"

definition cam_request :: "'k cam_driver \<Rightarrow> 'k cam_step" where
  "cam_request drv s =
     (case cam_reqbufs drv (v4_kern s) V4L2_BUFFER_COUNT of
        (None, k) \<Rightarrow> Some (Inl (s\<lparr>v4_kern := k\<rparr>))
      | (Some granted, k) \<Rightarrow>
          if granted < 2 then Some (Inl (s\<lparr>v4_kern := k\<rparr>))
          else each_index (cam_map drv) [0..<granted]
                 (s\<lparr>v4_kern := k, v4_buffer_count := granted, v4_lent := [0..<granted]\<rparr>))"

definition cam_open_steps :: "'k cam_driver \<Rightarrow> u32 \<Rightarrow> u32 \<Rightarrow> u32 \<Rightarrow> 'k cam_step" where
  "cam_open_steps drv w h fps =
     and_then (cam_check drv)
       (and_then (cam_try_formats drv w h cam_formats)
       (and_then (cam_interval drv fps)
       (cam_request drv)))"

definition cam_init :: "'k \<Rightarrow> string \<Rightarrow> (nat \<Rightarrow> u64) \<Rightarrow> 'k v4l2_source" where
  "cam_init k device clock = \<lparr>v4_kern = k, v4_streaming = False, v4_buffers = replicate V4L2_BUFFER_COUNT None,
     v4_buffer_count = 0, v4_name = take 63 (''v4l2 '' @ device), v4_width = 0, v4_height = 0, v4_fps = 0, v4_stride = 0,
     v4_format = 0, v4_frame_size = 0, v4_clock = clock, v4_reads = 0, v4_lent = [], v4_trace = [Cam_Got Cam_Device]\<rparr>"

text \<open>A failed opening closes the device and nothing else: the mappings made so far stay.\<close>

definition v4l2_source_create :: "'k cam_driver \<Rightarrow> bool \<Rightarrow> (nat \<Rightarrow> u64) \<Rightarrow> string option \<Rightarrow> u32 \<Rightarrow> u32 \<Rightarrow> u32 \<Rightarrow>
    (cam_event list + 'k v4l2_source) option" where
  "v4l2_source_create drv alloc_ok clock device w h fps =
     (case device of
        None \<Rightarrow> Some (Inl [])
      | Some path \<Rightarrow>
          if fps = 0 \<or> \<not> alloc_ok then Some (Inl [])
          else case cam_open drv path of
            None \<Rightarrow> Some (Inl [])
          | Some k \<Rightarrow>
              case cam_open_steps drv w h fps (cam_init k path clock) of
                None \<Rightarrow> None
              | Some (Inl s) \<Rightarrow> Some (Inl (v4_trace s @ [Cam_Freed Cam_Device]))
              | Some (Inr s) \<Rightarrow> Some (Inr s))"

definition v4l2_info :: "'k v4l2_source \<Rightarrow> video_source" where
  "v4l2_info s = \<lparr>vs_name = v4_name s, vs_width = v4_width s, vs_height = v4_height s, vs_fps = v4_fps s,
     vs_stride = v4_stride s, vs_format = v4_format s, vs_frame_size = v4_frame_size s\<rparr>"

section \<open>What the capture path relies on\<close>

text \<open>
  Of the driver: the bytes it says are used are in the buffer. Of the source: every buffer it may get
  back is mapped.
\<close>

definition cam_ok :: "'k cam_driver \<Rightarrow> bool" where
  "cam_ok drv \<longleftrightarrow> (\<forall>k b k'. cam_dqbuf drv k = (Dq b, k') \<longrightarrow> cb_used b \<le> length (cb_mem b))"

definition v4l2_ok :: "'k cam_driver \<Rightarrow> nat \<Rightarrow> 'k v4l2_source \<Rightarrow> bool" where
  "v4l2_ok drv n s \<longleftrightarrow> cam_ok drv \<and> length (v4_buffers s) = V4L2_BUFFER_COUNT \<and> v4_buffer_count s \<le> V4L2_BUFFER_COUNT \<and>
     (\<forall>i < v4_buffer_count s. v4_buffers s ! i \<noteq> None)"

lemma v4l2_ok_upd [simp]:
  "v4l2_ok drv n (s\<lparr>v4_kern := k\<rparr>) = v4l2_ok drv n s" "v4l2_ok drv n (s\<lparr>v4_lent := l\<rparr>) = v4l2_ok drv n s"
  "v4l2_ok drv n (s\<lparr>v4_reads := r\<rparr>) = v4l2_ok drv n s" "v4l2_ok drv n (s\<lparr>v4_streaming := b\<rparr>) = v4l2_ok drv n s"
  by (simp_all add: v4l2_ok_def)

lemma v4l2_info_upd [simp]:
  "v4l2_info (s\<lparr>v4_kern := k\<rparr>) = v4l2_info s" "v4l2_info (s\<lparr>v4_lent := l\<rparr>) = v4l2_info s"
  "v4l2_info (s\<lparr>v4_reads := r\<rparr>) = v4l2_info s" "v4l2_info (s\<lparr>v4_streaming := b\<rparr>) = v4l2_info s"
  by (simp_all add: v4l2_info_def)

lemma give_ok [simp]: "v4l2_ok drv n (snd (cam_give drv i s)) = v4l2_ok drv n s" "v4l2_info (snd (cam_give drv i s)) = v4l2_info s"
  "v4_buffer_count (snd (cam_give drv i s)) = v4_buffer_count s"
  by (simp_all add: cam_give_def split: prod.split)

lemma queue_all_ok:
  "v4l2_ok drv n (snd (queue_all drv is s)) = v4l2_ok drv n s \<and> v4l2_info (snd (queue_all drv is s)) = v4l2_info s \<and>
   v4_buffer_count (snd (queue_all drv is s)) = v4_buffer_count s"
proof (induction "is" arbitrary: s)
  case (Cons i "is")
  have "snd (queue_all drv (i # is) s) = (if fst (cam_give drv i s) then snd (queue_all drv is (snd (cam_give drv i s))) else snd (cam_give drv i s))"
    by (simp split: prod.split)
  then show ?case using Cons.IH by simp
qed simp

lemma v4l2_capture_ok:
  assumes ok: "v4l2_ok drv n s"
  shows "\<exists>c s'. v4l2_capture drv s = Some (c, s') \<and> v4l2_ok drv n s' \<and> v4l2_info s' = v4l2_info s \<and>
    (cap_rc c > 0 \<longrightarrow> (\<exists>d. cap_data c = Some d \<and> length d \<le> v4_frame_size s))"
proof -
  obtain ready k where p: "cam_poll_in drv (v4_kern s) = (ready, k)" by fastforce
  obtain r k2 where q: "cam_dqbuf drv k = (r, k2)" by fastforce
  show ?thesis
  proof (cases "\<exists>b. ready = Poll_Ready \<and> r = Dq b")
    case True
    then obtain b where b: "ready = Poll_Ready" "r = Dq b" by blast
    define t where "t = s\<lparr>v4_kern := k2, v4_lent := cb_idx b # v4_lent s\<rparr>"
    have t: "v4l2_ok drv n t" "v4l2_info t = v4l2_info s" "v4_frame_size t = v4_frame_size s" using ok by (simp_all add: t_def)
    have run: "v4l2_capture drv s = v4l2_dequeued drv b t" using p q b by (simp add: v4l2_capture_def t_def)
    have used: "cb_used b \<le> length (cb_mem b)" using ok q b(2) by (auto simp: v4l2_ok_def cam_ok_def)
    show ?thesis
    proof (cases "cb_idx b \<ge> v4_buffer_count t \<or> cb_error b \<or> cb_used b = 0 \<or> cb_used b > v4_frame_size t")
      case True
      then show ?thesis using t by (auto simp: run v4l2_dequeued_def no_frame_def)
    next
      case False
      then have "cb_idx b < length (v4_buffers t)" "v4_buffers t ! cb_idx b \<noteq> None" using t(1) by (auto simp: v4l2_ok_def)
      then show ?thesis using False t used by (auto simp: run v4l2_dequeued_def)
    qed
  qed (use p q ok in \<open>cases ready; cases r; simp add: v4l2_capture_def no_frame_def\<close>)
qed

interpretation v4l2_src: video_capture "v4l2_ops drv" "v4l2_ok drv" v4l2_info
  for drv :: "'k cam_driver"
proof unfold_locales
  show "\<exists>c s'. so_capture (v4l2_ops drv) s = Some (c, s') \<and> v4l2_ok drv n s' \<and> v4l2_info s' = v4l2_info s \<and>
      (cap_rc c > 0 \<longrightarrow> (\<exists>d. cap_data c = Some d \<and> length d \<le> vs_frame_size (v4l2_info s)))"
    if "v4l2_ok drv (Suc n) s" for n s
    using v4l2_capture_ok [of drv n s] that by (simp add: v4l2_ops_def v4l2_ok_def v4l2_info_def)
  show "v4l2_ok drv n (so_release (v4l2_ops drv) s i) \<and> v4l2_info (so_release (v4l2_ops drv) s i) = v4l2_info s"
    if "v4l2_ok drv n s" for n s i
    using that by (simp add: v4l2_ops_def v4l2_release_def)
  show "v4l2_ok drv n (snd (so_start (v4l2_ops drv) s)) \<and> v4l2_info (snd (so_start (v4l2_ops drv) s)) = v4l2_info s"
    if ok: "v4l2_ok drv n s" for n s
  proof -
    obtain q s1 where q: "queue_all drv [0..<v4_buffer_count s] s = (q, s1)" by fastforce
    have "v4l2_ok drv n s1" "v4l2_info s1 = v4l2_info s"
      using queue_all_ok [of drv n "[0..<v4_buffer_count s]" s] ok unfolding q by simp_all
    then show ?thesis using ok q by (simp add: v4l2_ops_def v4l2_start_def split: prod.split)
  qed
qed

section \<open>Opening and closing\<close>

text \<open>While the buffers are mapped: the first \<open>i\<close> of them are, and the trace says so.\<close>

definition mapped :: "nat \<Rightarrow> nat \<Rightarrow> 'k v4l2_source \<Rightarrow> bool" where
  "mapped n i s \<longleftrightarrow> length (v4_buffers s) = V4L2_BUFFER_COUNT \<and> i \<le> V4L2_BUFFER_COUNT \<and>
     (\<forall>j < V4L2_BUFFER_COUNT. (v4_buffers s ! j \<noteq> None) = (j < i)) \<and> v4_buffer_count s = n \<and> v4_lent s = [0..<n] \<and>
     \<not> v4_streaming s \<and> v4_trace s = Cam_Got Cam_Device # map (\<lambda>j. Cam_Got (Cam_Mapping j)) [0..<i]"

definition left_open :: "'k v4l2_source \<Rightarrow> bool" where
  "left_open s \<longleftrightarrow> (\<exists>i. v4_trace s = Cam_Got Cam_Device # map (\<lambda>j. Cam_Got (Cam_Mapping j)) [0..<i])"

lemma mapped_upd [simp]:
  "mapped n i (s\<lparr>v4_kern := k\<rparr>) = mapped n i s" "mapped n i (s\<lparr>v4_fps := r\<rparr>) = mapped n i s"
  "mapped n i (s\<lparr>v4_width := w, v4_height := h, v4_stride := st, v4_frame_size := f, v4_format := fmt\<rparr>) = mapped n i s"
  by (simp_all add: mapped_def)

lemma mapped_open: "mapped n i s \<Longrightarrow> left_open s"
  by (auto simp: mapped_def left_open_def)

lemma cam_map_step: "steps_to left_open (mapped n i) (cam_map drv i) (mapped n (Suc i))"
proof (rule steps_toI)
  fix s s' :: "'a v4l2_source" assume m: "mapped n i s"
  show "left_open s'" if "cam_map drv i s = Some (Inl s')"
    using that mapped_open [OF m] by (auto simp: cam_map_def split: option.splits if_splits)
  show "mapped n (Suc i) s'" if "cam_map drv i s = Some (Inr s')"
    using that m by (auto simp: cam_map_def mapped_def nth_list_update less_Suc_eq split: option.splits if_splits)
qed

lemma try_formats_step_cam: "steps_to left_open (mapped n i) (cam_try_formats drv w h fmts) (mapped n i)"
proof (induction fmts)
  case (Cons f fs)
  show ?case
  proof (rule steps_toI)
    fix s s' :: "'a v4l2_source" assume m: "mapped n i s"
    obtain r k where r: "cam_s_fmt drv (v4_kern s) w h f = (r, k)" by fastforce
    have again: "mapped n i (s\<lparr>v4_kern := k\<rparr>)" using m by simp
    show "left_open s'" if "cam_try_formats drv w h (f # fs) s = Some (Inl s')"
      using that r steps_toD(1) [OF Cons.IH again] by (auto split: option.splits if_splits)
    show "mapped n i s'" if "cam_try_formats drv w h (f # fs) s = Some (Inr s')"
      using that r m steps_toD(2) [OF Cons.IH again] by (auto simp: mapped_def split: option.splits if_splits)
  qed
qed (rule steps_toI; auto dest: mapped_open)

lemma open_steps_cam: "steps_to left_open (mapped 0 0) (cam_open_steps drv w h fps) (\<lambda>s. \<exists>n. mapped n n s)"
proof -
  have 1: "steps_to left_open (mapped 0 0) (cam_check drv) (mapped 0 0)"
    by (rule steps_toI) (auto simp: cam_check_def Let_def dest: mapped_open split: option.splits prod.splits if_splits)
  have 3: "steps_to left_open (mapped 0 0) (cam_interval drv fps) (mapped 0 0)"
    by (rule steps_toI) (auto simp: cam_interval_def split: option.splits prod.splits)
  have 4: "steps_to left_open (mapped 0 0) (cam_request drv) (\<lambda>s. \<exists>n. mapped n n s)"
  proof (rule steps_toI)
    fix s s' :: "'a v4l2_source" assume m: "mapped 0 0 s"
    obtain r k where r: "cam_reqbufs drv (v4_kern s) V4L2_BUFFER_COUNT = (r, k)" by fastforce
    have go: "mapped n 0 (s\<lparr>v4_kern := k, v4_buffer_count := n, v4_lent := [0..<n]\<rparr>)" for n using m by (simp add: mapped_def)
    have each: "steps_to left_open (mapped n 0) (each_index (cam_map drv) [0..<n]) (mapped n n)" for n
      by (rule steps_to_each) (rule cam_map_step, simp)
    show "left_open s'" if "cam_request drv s = Some (Inl s')"
      using that r mapped_open [OF m] steps_toD(1) [OF each go]
      by (auto simp: cam_request_def left_open_def split: option.splits if_splits)
    show "\<exists>n. mapped n n s'" if "cam_request drv s = Some (Inr s')"
      using that r steps_toD(2) [OF each go] by (auto simp: cam_request_def split: option.splits if_splits)
  qed
  show ?thesis unfolding cam_open_steps_def
    by (rule steps_to_then [OF 1 steps_to_then [OF try_formats_step_cam steps_to_then [OF 3 4]]])
qed

lemma cam_create_cases:
  assumes "v4l2_source_create drv alloc_ok clock device w h fps = Some r"
  shows "(\<forall>tr. r = Inl tr \<longrightarrow> tr = [] \<or> (\<exists>i. tr = Cam_Got Cam_Device # map (\<lambda>j. Cam_Got (Cam_Mapping j)) [0..<i] @ [Cam_Freed Cam_Device])) \<and>
    (\<forall>s. r = Inr s \<longrightarrow> (\<exists>n. mapped n n s))"
proof -
  have start: "mapped 0 0 (cam_init k path clock)" for k path
    by (simp add: mapped_def cam_init_def V4L2_BUFFER_COUNT_def)
  consider "r = Inl []" | path k s where "cam_open_steps drv w h fps (cam_init k path clock) = Some (Inl s)" "r = Inl (v4_trace s @ [Cam_Freed Cam_Device])"
    | path k s where "cam_open_steps drv w h fps (cam_init k path clock) = Some (Inr s)" "r = Inr s"
    using assms by (auto simp: v4l2_source_create_def split: option.splits if_splits sum.splits)
  then show ?thesis
  proof cases
    case (2 path k s)
    then show ?thesis using steps_toD(1) [OF open_steps_cam start 2(1)] by (auto simp: left_open_def)
  next
    case (3 path k s)
    then show ?thesis using steps_toD(2) [OF open_steps_cam start 3(1)] by simp
  qed simp
qed

lemma create_ok: "v4l2_source_create drv alloc_ok clock device w h fps = Some (Inr s) \<Longrightarrow> cam_ok drv \<Longrightarrow>
    v4l2_ok drv n s \<and> v4_lent s = [0..<v4_buffer_count s] \<and> \<not> v4_streaming s"
  using cam_create_cases [of drv alloc_ok clock device w h fps "Inr s"] by (auto simp: mapped_def v4l2_ok_def)

lemma unmap_mapped:
  assumes "\<forall>b \<in> set bs. b \<noteq> None"
  shows "cam_unmap i bs = map (\<lambda>j. Cam_Freed (Cam_Mapping j)) [i..<i + length bs]"
  using assms
proof (induction bs arbitrary: i)
  case (Cons b bs)
  then show ?case using upt_rec [of i "i + length (b # bs)"] by auto
qed simp

section \<open>Who holds the buffers\<close>

text \<open>The driver takes back every buffer it is given, and hands out only buffers it granted.\<close>

definition cam_returns :: "'k cam_driver \<Rightarrow> nat \<Rightarrow> bool" where
  "cam_returns drv n \<longleftrightarrow> (\<forall>k i. fst (cam_qbuf drv k i)) \<and> (\<forall>k b k'. cam_dqbuf drv k = (Dq b, k') \<longrightarrow> cb_idx b < n)"

lemma give_lent: "cam_returns drv n \<Longrightarrow> fst (cam_give drv i s) \<and> v4_lent (snd (cam_give drv i s)) = removeAll i (v4_lent s) \<and>
    v4_buffer_count (snd (cam_give drv i s)) = v4_buffer_count s"
  by (simp add: cam_give_def cam_returns_def split: prod.split) (metis fst_conv)

lemma queue_all_lent:
  assumes "cam_returns drv n"
  shows "fst (queue_all drv is s) \<and> v4_lent (snd (queue_all drv is s)) = filter (\<lambda>i. i \<notin> set is) (v4_lent s)"
proof (induction "is" arbitrary: s)
  case (Cons i "is")
  have "queue_all drv (i # is) s = queue_all drv is (snd (cam_give drv i s))"
    using give_lent [OF assms, of i s] by (cases "cam_give drv i s") simp
  then show ?case using Cons.IH [of "snd (cam_give drv i s)"] give_lent [OF assms, of i s]
    by (simp add: removeAll_filter_not_eq conj_commute eq_commute)
qed simp

lemma start_lent:
  assumes "cam_returns drv n" "v4l2_start drv s = (0, s')" "\<not> v4_streaming s" "v4_lent s = [0..<v4_buffer_count s]"
  shows "v4_lent s' = [] \<and> v4_buffer_count s' = v4_buffer_count s"
proof -
  obtain ok s1 where q: "queue_all drv [0..<v4_buffer_count s] s = (ok, s1)" by fastforce
  have "v4_lent s1 = []" using queue_all_lent [OF assms(1), of "[0..<v4_buffer_count s]" s] assms(4) q by (simp add: filter_empty_conv)
  moreover have "v4_buffer_count s1 = v4_buffer_count s" using queue_all_ok [of drv 0 "[0..<v4_buffer_count s]" s] q by simp
  ultimately show ?thesis using assms(2,3) q by (auto simp: v4l2_start_def split: prod.splits if_splits)
qed

lemma capture_lent:
  assumes ret: "cam_returns drv (v4_buffer_count s)" and small: "v4_buffer_count s \<le> V4L2_BUFFER_COUNT" and lent: "v4_lent s = []"
    and run: "v4l2_capture drv s = Some (c, s')"
  shows "v4_buffer_count s' = v4_buffer_count s \<and>
    (if cap_rc c > 0 then v4_lent s' = [unat (cap_index c)] \<and> unat (cap_index c) < v4_buffer_count s else v4_lent s' = [])"
proof -
  obtain ready k where p: "cam_poll_in drv (v4_kern s) = (ready, k)" by fastforce
  obtain r k2 where q: "cam_dqbuf drv k = (r, k2)" by fastforce
  show ?thesis
  proof (cases "\<exists>b. ready = Poll_Ready \<and> r = Dq b")
    case True
    then obtain b where b: "ready = Poll_Ready" "r = Dq b" by blast
    define t where "t = s\<lparr>v4_kern := k2, v4_lent := [cb_idx b]\<rparr>"
    have t: "v4l2_dequeued drv b t = Some (c, s')" using p q b lent run by (simp add: v4l2_capture_def t_def)
    have idx: "cb_idx b < v4_buffer_count s" using ret q [unfolded b(2)] unfolding cam_returns_def by blast
    then have u: "unat (of_nat (cb_idx b) :: u32) = cb_idx b"
      using small by (simp add: V4L2_BUFFER_COUNT_def unat_of_nat take_bit_nat_eq_self)
    have g: "v4_lent (snd (cam_give drv (cb_idx b) t)) = []" "v4_buffer_count (snd (cam_give drv (cb_idx b) t)) = v4_buffer_count s"
      using give_lent [OF ret, of "cb_idx b" t] by (simp_all add: t_def)
    show ?thesis
      using t idx u g by (auto simp: v4l2_dequeued_def no_frame_def t_def Option.bind_eq_Some_conv split: if_splits)
  qed (use p q run lent in \<open>cases ready; cases r; auto simp: v4l2_capture_def no_frame_def\<close>)
qed

lemma round_lent:
  assumes ret: "cam_returns drv (v4_buffer_count s)" and small: "v4_buffer_count s \<le> V4L2_BUFFER_COUNT" and lent: "v4_lent s = []"
    and run: "source_worker_round (v4l2_ops drv) (w, s, hub) = Some (w', s', hub')"
  shows "v4_lent s' = [] \<and> v4_buffer_count s' = v4_buffer_count s"
proof -
  obtain c s1 where c: "v4l2_capture drv s = Some (c, s1)"
    using run by (auto simp: source_worker_round_def Let_def v4l2_ops_def Option.bind_eq_Some_conv)
  note C = capture_lent [OF ret small lent c]
  have "s' = (if cap_rc c > 0 then v4l2_release drv s1 (cap_index c) else s1)"
    using run c by (auto simp: source_worker_round_def Let_def v4l2_ops_def Option.bind_eq_Some_conv split: if_splits)
  then show ?thesis
    using C give_lent [OF ret, of "unat (cap_index c)" s1] by (auto simp: v4l2_release_def split: if_splits)
qed

section \<open>Properties\<close>

definition unreleased :: "cam_event list \<Rightarrow> cam_resource set" where
  "unreleased tr = {r. Cam_Got r \<in> set tr \<and> Cam_Freed r \<notin> set tr}"

text \<open>
  What opening a camera leaves behind. Closing a source that was opened releases the device and
  every mapping. An opening that fails releases the device, but none of the buffers it had mapped.
\<close>

lemma camera_open_close:
  assumes "v4l2_source_create drv alloc_ok clock device w h fps = Some r"
  shows "case r of
      Inl tr \<Rightarrow> \<exists>i. unreleased tr = Cam_Mapping ` {..<i} \<and> (\<forall>j. Cam_Freed (Cam_Mapping j) \<notin> set tr)
    | Inr s \<Rightarrow> unreleased (v4l2_close s) = {} \<and> Cam_Mapping ` {..<v4_buffer_count s} \<subseteq> {x. Cam_Got x \<in> set (v4l2_close s)}"
proof (cases r)
  case (Inl tr)
  then consider "tr = []" | i where "tr = Cam_Got Cam_Device # map (\<lambda>j. Cam_Got (Cam_Mapping j)) [0..<i] @ [Cam_Freed Cam_Device]"
    using cam_create_cases [OF assms] by blast
  then show ?thesis
  proof cases
    case 1
    then show ?thesis using Inl by (auto simp: unreleased_def intro: exI [of _ 0])
  next
    case (2 i)
    then have "unreleased tr = Cam_Mapping ` {..<i}" by (auto simp: unreleased_def)
    then show ?thesis using Inl 2 by auto
  qed
next
  case (Inr s)
  then obtain n where m: "mapped n n s" using cam_create_cases [OF assms] by blast
  then have n: "n \<le> V4L2_BUFFER_COUNT" "length (v4_buffers s) = V4L2_BUFFER_COUNT" "v4_buffer_count s = n"
    "v4_trace s = Cam_Got Cam_Device # map (\<lambda>j. Cam_Got (Cam_Mapping j)) [0..<n]"
    "\<And>j. j < V4L2_BUFFER_COUNT \<Longrightarrow> (v4_buffers s ! j \<noteq> None) = (j < n)" by (simp_all add: mapped_def)
  have "\<forall>b \<in> set (take n (v4_buffers s)). b \<noteq> None" using n(1,2,5) by (auto simp: in_set_conv_nth)
  then have "cam_unmap 0 (take n (v4_buffers s)) = map (\<lambda>j. Cam_Freed (Cam_Mapping j)) [0..<n]"
    using unmap_mapped [of "take n (v4_buffers s)" 0] n(1,2) by simp
  then have "v4l2_close s = Cam_Got Cam_Device # map (\<lambda>j. Cam_Got (Cam_Mapping j)) [0..<n] @ (if v4_streaming s then [Cam_Streamoff] else []) @
      map (\<lambda>j. Cam_Freed (Cam_Mapping j)) [0..<n] @ [Cam_Freed Cam_Device]"
    using n(3,4) by (simp add: v4l2_close_def)
  then show ?thesis using Inr n(3) by (auto simp: unreleased_def)
qed

text \<open>A driver with two buffers whose second one can be mapped or not, and always a full picture ready.\<close>

definition demo_cam :: "bool \<Rightarrow> unit cam_driver" where
  "demo_cam second = \<lparr>cam_open = \<lambda>_. Some (), cam_querycap = \<lambda>_. Some (0x04000001, 0),
     cam_s_fmt = \<lambda>_ w h f. (Some \<lparr>cf_width = w, cf_height = h, cf_pixelformat = f, cf_bytesperline = w * 2, cf_sizeimage = w * h * 2\<rparr>, ()),
     cam_s_parm = \<lambda>_ fps. (Some (1, fps), ()), cam_reqbufs = \<lambda>_ _. (Some 2, ()), cam_querybuf = \<lambda>_ _. Some 8,
     cam_mmap = \<lambda>_ i. i = 0 \<or> second, cam_streamon = \<lambda>_. (True, ()), cam_streamoff = \<lambda>_. (), cam_poll_in = \<lambda>_. (Poll_Ready, ()),
     cam_qbuf = \<lambda>_ _. (True, ()),
     cam_dqbuf = \<lambda>_. (Dq \<lparr>cb_idx = 1, cb_error = False, cb_used = 8, cb_mem = [1, 2, 3, 4, 5, 6, 7, 8]\<rparr>, ())\<rparr>"

lemma demo_cam_fails: "v4l2_source_create (demo_cam False) True (\<lambda>_. 0) (Some ''/dev/video0'') 2 2 30 =
    Some (Inl [Cam_Got Cam_Device, Cam_Got (Cam_Mapping 0), Cam_Freed Cam_Device])"
proof -
  have "case v4l2_source_create (demo_cam False) True (\<lambda>_. 0) (Some ''/dev/video0'') 2 2 30 of
      Some (Inl tr) \<Rightarrow> tr = [Cam_Got Cam_Device, Cam_Got (Cam_Mapping 0), Cam_Freed Cam_Device] | _ \<Rightarrow> False" by code_simp
  then show ?thesis by (auto split: option.splits sum.splits)
qed

lemma camera_open_close_witness:
  "\<exists>i. unreleased [Cam_Got Cam_Device, Cam_Got (Cam_Mapping 0), Cam_Freed Cam_Device] = Cam_Mapping ` {..<i} \<and> i = 1"
proof -
  obtain i where i: "unreleased [Cam_Got Cam_Device, Cam_Got (Cam_Mapping 0), Cam_Freed Cam_Device] = Cam_Mapping ` {..<i}"
    using camera_open_close [OF demo_cam_fails] by auto
  have "unreleased [Cam_Got Cam_Device, Cam_Got (Cam_Mapping 0), Cam_Freed Cam_Device] = {Cam_Mapping 0}" by (auto simp: unreleased_def)
  then have "card (Cam_Mapping ` {..<i}) = 1" using i by simp
  moreover have "card (Cam_Mapping ` {..<i}) = i" by (simp add: card_image inj_on_def)
  ultimately show ?thesis using i by auto
qed

text \<open>
  C18. No camera buffer is ever lost by the capture thread. Once the stream is started, after any number
  of rounds of the source worker the driver holds all buffers again, whatever a round met: no frame, an
  interrupted or failed poll, an erroneous or empty buffer, a picture too large, a picture that was
  published, or one for which the hub had no room.
\<close>

theorem camera_buffers_return:
  assumes "v4l2_source_create drv alloc_ok clock device w h fps = Some (Inr s0)"
    and "source_worker_start (v4l2_ops drv) thread_ok (sw0, s0) = (0, sw, s)"
    and "cam_returns drv (v4_buffer_count s0)"
    and "source_rounds (v4l2_ops drv) n (sw, s, hub) = Some (sw', s', hub')"
  shows "v4_lent s' = []"
proof -
  obtain m where "mapped m m s0" using cam_create_cases [OF assms(1)] by blast
  then have init: "v4_lent s0 = [0..<v4_buffer_count s0]" "\<not> v4_streaming s0" "v4_buffer_count s0 \<le> V4L2_BUFFER_COUNT"
    by (auto simp: mapped_def)
  have "v4l2_start drv s0 = (0, s)"
    using assms(2) by (auto simp: source_worker_start_def v4l2_ops_def split: prod.splits if_splits)
  note S = start_lent [OF assms(3) this init(2,1)]
  have "v4_lent s' = [] \<and> v4_buffer_count s' = v4_buffer_count s0"
    using assms(4)
  proof (induction n arbitrary: sw' s' hub')
    case 0
    then show ?case using S by simp
  next
    case (Suc n)
    then obtain w1 s1 h1 where 1: "source_rounds (v4l2_ops drv) n (sw, s, hub) = Some (w1, s1, h1)"
      "source_worker_round (v4l2_ops drv) (w1, s1, h1) = Some (sw', s', hub')" by (auto simp: Option.bind_eq_Some_conv)
    note IH = Suc.IH [OF 1(1)]
    show ?case using round_lent [OF _ _ _ 1(2)] IH assms(3) init(3) by simp
  qed
  then show ?thesis by simp
qed

definition demo_cam_source :: "unit v4l2_source" where
  "demo_cam_source = (case v4l2_source_create (demo_cam True) True (\<lambda>_. 0) (Some ''/dev/video0'') 2 2 30 of Some (Inr s) \<Rightarrow> s)"

lemma demo_cam_opens: "v4l2_source_create (demo_cam True) True (\<lambda>_. 0) (Some ''/dev/video0'') 2 2 30 = Some (Inr demo_cam_source)"
  "v4_buffer_count demo_cam_source = 2"
proof -
  have "case v4l2_source_create (demo_cam True) True (\<lambda>_. 0) (Some ''/dev/video0'') 2 2 30 of
      Some (Inr s) \<Rightarrow> v4_buffer_count s = 2 | _ \<Rightarrow> False" by code_simp
  then show "v4l2_source_create (demo_cam True) True (\<lambda>_. 0) (Some ''/dev/video0'') 2 2 30 = Some (Inr demo_cam_source)"
    "v4_buffer_count demo_cam_source = 2"
    unfolding demo_cam_source_def by (auto split: option.splits sum.splits)
qed

definition demo_started :: "source_worker \<times> unit v4l2_source" where
  "demo_started = snd (source_worker_start (v4l2_ops (demo_cam True)) True
     (the (source_worker_create True (Some (v4l2_info demo_cam_source)) True), demo_cam_source))"

lemma demo_start_ok: "source_worker_start (v4l2_ops (demo_cam True)) True
    (the (source_worker_create True (Some (v4l2_info demo_cam_source)) True), demo_cam_source) = (0, fst demo_started, snd demo_started)"
proof -
  have "fst (source_worker_start (v4l2_ops (demo_cam True)) True
      (the (source_worker_create True (Some (v4l2_info demo_cam_source)) True), demo_cam_source)) = 0" by code_simp
  then show ?thesis unfolding demo_started_def by (simp add: prod_eq_iff)
qed

lemma camera_buffers_return_witness:
  "\<exists>sw s hub. source_rounds (v4l2_ops (demo_cam True)) 1 (fst demo_started, snd demo_started, the (frame_hub_create True 8 2)) =
      Some (sw, s, hub) \<and> sw_captured sw = 1 \<and> v4_lent s = []"
proof -
  have "case source_rounds (v4l2_ops (demo_cam True)) 1 (fst demo_started, snd demo_started, the (frame_hub_create True 8 2)) of
      Some (sw, s, hub) \<Rightarrow> sw_captured sw = 1 | None \<Rightarrow> False" by code_simp
  then obtain sw s hub where r: "source_rounds (v4l2_ops (demo_cam True)) 1 (fst demo_started, snd demo_started, the (frame_hub_create True 8 2)) =
      Some (sw, s, hub)" "sw_captured sw = 1" by (auto split: option.splits)
  have "cam_returns (demo_cam True) (v4_buffer_count demo_cam_source)"
    unfolding demo_cam_opens(2) by (simp add: cam_returns_def demo_cam_def)
  from camera_buffers_return [OF demo_cam_opens(1) demo_start_ok this r(1)] show ?thesis using r by blast
qed

end
