(* ===== verification/Yuv_Convert.thy ===== *)
theory Yuv_Convert
  imports Prelude
begin

text \<open>
  The pixel format conversion of \<^verbatim>\<open>src/media/yuv_convert.c\<close>. The source pointer is an offset into the
  memory block it points into (the pool's), the three destination pointers are offsets into one
  scratch buffer, as their only caller passes them. A \<^verbatim>\<open>for\<close> loop is \<open>foldo\<close> over its range, and a
  pointer that a loop advances is its start plus the rounds done. The theorem of this theory compares
  the loops with a picture-level definition that says which sample ends up where.
\<close>

section \<open>The loops of the code\<close>

text \<open>Vertical chroma average of two samples, rounded up, computed in 32 bits.\<close>

definition average :: "u8 \<Rightarrow> u8 \<Rightarrow> u8" where
  "average a b = ucast (drop_bit 1 (((ucast a :: u32) + ucast b) + 1))"

definition luma_row :: "bytes \<Rightarrow> nat \<Rightarrow> nat \<Rightarrow> nat \<Rightarrow> bytes \<Rightarrow> bytes option" where
  "luma_row src inp out n =
     foldo (\<lambda>x d. do {
       y0 \<leftarrow> rd8 src (inp + 4 * x);
       y1 \<leftarrow> rd8 src (inp + 4 * x + 2);
       d1 \<leftarrow> wr d (out + x * 2) [y0];
       wr d1 (out + x * 2 + 1) [y1]
     }) [0..<n]"

definition chroma_row :: "bytes \<Rightarrow> nat \<Rightarrow> nat \<Rightarrow> nat \<Rightarrow> nat \<Rightarrow> nat \<Rightarrow> bytes \<Rightarrow> bytes option" where
  "chroma_row src row0 row1 out_u out_v n =
     foldo (\<lambda>x d. do {
       u0 \<leftarrow> rd8 src (row0 + 4 * x + 1);
       u1 \<leftarrow> rd8 src (row1 + 4 * x + 1);
       v0 \<leftarrow> rd8 src (row0 + 4 * x + 3);
       v1 \<leftarrow> rd8 src (row1 + 4 * x + 3);
       d1 \<leftarrow> wr d (out_u + x) [average u0 u1];
       wr d1 (out_v + x) [average v0 v1]
     }) [0..<n]"

definition yuyv_to_i420 :: "bytes \<Rightarrow> nat \<Rightarrow> u32 \<Rightarrow> nat \<Rightarrow> nat \<Rightarrow> nat \<Rightarrow> u32 \<Rightarrow> u32 \<Rightarrow> bytes \<Rightarrow> bytes option" where
  "yuyv_to_i420 src s stride dst_y dst_u dst_v w h d =
     (let chroma_w = unat (w div 2); chroma_h = unat (h div 2) in
      do {
        d1 \<leftarrow> foldo (\<lambda>row. luma_row src (s + row * unat stride) (dst_y + row * unat w) (unat (w div 2)))
               [0..<unat h] d;
        foldo (\<lambda>crow. let row0 = s + (crow * 2) * unat stride in
                 chroma_row src row0 (row0 + unat stride) (dst_u + crow * chroma_w) (dst_v + crow * chroma_w) chroma_w)
          [0..<chroma_h] d1
      })"

definition i420_copy :: "bytes \<Rightarrow> nat \<Rightarrow> u32 \<Rightarrow> nat \<Rightarrow> nat \<Rightarrow> nat \<Rightarrow> nat \<Rightarrow> nat \<Rightarrow> u32 \<Rightarrow> u32 \<Rightarrow> bytes \<Rightarrow> bytes option" where
  "i420_copy src src_y y_stride src_u src_v dst_y dst_u dst_v w h d =
     (let chroma_w = unat (w div 2); chroma_h = unat (h div 2) in
      do {
        d1 \<leftarrow> foldo (\<lambda>row d. do { line \<leftarrow> rdn src (src_y + row * unat y_stride) (unat w); wr d (dst_y + row * unat w) line })
               [0..<unat h] d;
        foldo (\<lambda>crow d. do {
            us \<leftarrow> rdn src (src_u + crow * chroma_w) chroma_w;
            d1 \<leftarrow> wr d (dst_u + crow * chroma_w) us;
            vs \<leftarrow> rdn src (src_v + crow * chroma_w) chroma_w;
            wr d1 (dst_v + crow * chroma_w) vs
          }) [0..<chroma_h] d1
      })"

section \<open>The pictures\<close>

text \<open>
  The sample of a YUYV picture at a row and a column, and the I420 picture it stands for: all luma
  samples row by row, then one U and one V sample for every block of two by two pixels, each the
  mean of the two rows of the block.
\<close>

definition yuyv_luma :: "bytes \<Rightarrow> nat \<Rightarrow> nat \<Rightarrow> nat \<Rightarrow> nat \<Rightarrow> u8" where
  "yuyv_luma src s stride row col = src ! (s + row * stride + 2 * col)"

definition yuyv_chroma :: "bytes \<Rightarrow> nat \<Rightarrow> nat \<Rightarrow> nat \<Rightarrow> nat \<Rightarrow> nat \<Rightarrow> u8" where
  "yuyv_chroma src s stride off crow x =
     average (src ! (s + (2 * crow) * stride + 4 * x + off)) (src ! (s + (2 * crow + 1) * stride + 4 * x + off))"

definition plane :: "nat \<Rightarrow> nat \<Rightarrow> (nat \<Rightarrow> nat \<Rightarrow> u8) \<Rightarrow> bytes" where
  "plane w h sample = concat (map (\<lambda>row. map (sample row) [0..<w]) [0..<h])"

definition i420_of_yuyv :: "bytes \<Rightarrow> nat \<Rightarrow> nat \<Rightarrow> nat \<Rightarrow> nat \<Rightarrow> bytes" where
  "i420_of_yuyv src s stride w h =
     plane w h (yuyv_luma src s stride) @
     plane (w div 2) (h div 2) (yuyv_chroma src s stride 1) @
     plane (w div 2) (h div 2) (yuyv_chroma src s stride 3)"

text \<open>The planar picture the copy makes: luma rows without their padding, the chroma planes as they lie.\<close>

definition i420_of_planar :: "bytes \<Rightarrow> nat \<Rightarrow> nat \<Rightarrow> nat \<Rightarrow> nat \<Rightarrow> nat \<Rightarrow> nat \<Rightarrow> bytes" where
  "i420_of_planar src src_y y_stride src_u src_v w h =
     plane w h (\<lambda>row col. src ! (src_y + row * y_stride + col)) @
     plane (w div 2) (h div 2) (\<lambda>crow x. src ! (src_u + crow * (w div 2) + x)) @
     plane (w div 2) (h div 2) (\<lambda>crow x. src ! (src_v + crow * (w div 2) + x))"

lemma plane_length [simp]: "length (plane w h f) = h * w"
  unfolding plane_def by (rule length_concat_rows) simp

text \<open>The average is the mean rounded up; it never wraps.\<close>

lemma average_mean: "unat (average a b) = (unat a + unat b + 1) div 2"
proof -
  have b: "unat a < 256" "unat b < 256" by (rule unat_u8)+
  have u: "unat (ucast x :: u32) = unat x" for x :: u8
    unfolding unsigned_ucast_eq using unat_u8 [of x] by (simp add: take_bit_nat_eq_self)
  have "unat (((ucast a :: u32) + ucast b) + 1) = unat a + unat b + 1"
    using b by (simp add: unat_word_ariths u)
  then have "unat (drop_bit 1 (((ucast a :: u32) + ucast b) + 1)) = (unat a + unat b + 1) div 2"
    by (simp add: drop_bit_eq_div unat_div)
  then show ?thesis
    using b unfolding average_def unsigned_ucast_eq by (simp add: take_bit_nat_eq_self)
qed

section \<open>The loops compute the picture\<close>

lemma luma_row_spec:
  assumes "\<And>x. x < n \<Longrightarrow> inp + 4 * x + 2 < length src" and "out + 2 * n \<le> length d"
  shows "luma_row src inp out n d = Some (put_at d out (map (\<lambda>c. src ! (inp + 2 * c)) [0..<2 * n]))"
proof -
  let ?g = "\<lambda>x. [src ! (inp + 4 * x), src ! (inp + 4 * x + 2)]"
  have "luma_row src inp out n d = Some (put_at d out (concat (map ?g [0..<n])))"
    unfolding luma_row_def
  proof (rule foldo_rows [where n = 2])
    fix x and d' :: bytes assume x: "x < n" "length d' = length d"
    have a: "rd8 src (inp + 4 * x) = Some (src ! (inp + 4 * x))"
      "rd8 src (inp + 4 * x + 2) = Some (src ! (inp + 4 * x + 2))"
      using assms(1) [OF x(1)] by simp_all
    have r: "out + x * 2 + 1 + 1 \<le> length d'" using assms(2) x by simp
    have "wr d' (out + x * 2) [src ! (inp + 4 * x)] = Some (put_at d' (out + x * 2) [src ! (inp + 4 * x)])"
      using r by (intro wr_put_at) simp
    moreover have "wr (put_at d' (out + x * 2) [src ! (inp + 4 * x)]) (out + x * 2 + 1) [src ! (inp + 4 * x + 2)] =
        Some (put_at d' (out + x * 2) (?g x))"
      using r put_at_adjacent [of "out + x * 2" "[src ! (inp + 4 * x)]" "[src ! (inp + 4 * x + 2)]" d']
      by (subst wr_put_at) simp_all
    ultimately show "do { y0 \<leftarrow> rd8 src (inp + 4 * x); y1 \<leftarrow> rd8 src (inp + 4 * x + 2);
        d1 \<leftarrow> wr d' (out + x * 2) [y0]; wr d1 (out + x * 2 + 1) [y1] } = Some (put_at d' (out + x * 2) (?g x))"
      using a by simp
  qed (use assms(2) in simp_all)
  moreover have "concat (map ?g [0..<n]) = map (\<lambda>c. src ! (inp + 2 * c)) [0..<2 * n]"
  proof (induction n)
    case (Suc n)
    then show ?case by (simp add: algebra_simps)
  qed simp
  ultimately show ?thesis by simp
qed

lemma chroma_row_spec:
  assumes "\<And>x. x < n \<Longrightarrow> row0 + 4 * x + 3 < length src \<and> row1 + 4 * x + 3 < length src"
    and "out_u + n \<le> out_v" and "out_v + n \<le> length d"
  shows "chroma_row src row0 row1 out_u out_v n d = Some (put_at
     (put_at d out_u (map (\<lambda>x. average (src ! (row0 + 4 * x + 1)) (src ! (row1 + 4 * x + 1))) [0..<n]))
     out_v (map (\<lambda>x. average (src ! (row0 + 4 * x + 3)) (src ! (row1 + 4 * x + 3))) [0..<n]))"
proof -
  let ?a = "\<lambda>o' x. [average (src ! (row0 + 4 * x + o')) (src ! (row1 + 4 * x + o'))]"
  have "chroma_row src row0 row1 out_u out_v n d =
      Some (put_at (put_at d out_u (concat (map (?a 1) [0..<n]))) out_v (concat (map (?a 3) [0..<n])))"
    unfolding chroma_row_def
  proof (rule foldo_rows2 [where n = 1])
    fix x and d' :: bytes assume x: "x < n" "length d' = length d"
    have "rd8 src (r + 4 * x + 1) = Some (src ! (r + 4 * x + 1))"
      "rd8 src (r + 4 * x + 3) = Some (src ! (r + 4 * x + 3))" if "r \<in> {row0, row1}" for r
      using assms(1) [OF x(1)] that by (auto intro!: rd8_in)
    then show "do { u0 \<leftarrow> rd8 src (row0 + 4 * x + 1); u1 \<leftarrow> rd8 src (row1 + 4 * x + 1);
        v0 \<leftarrow> rd8 src (row0 + 4 * x + 3); v1 \<leftarrow> rd8 src (row1 + 4 * x + 3);
        d1 \<leftarrow> wr d' (out_u + x) [average u0 u1]; wr d1 (out_v + x) [average v0 v1] } =
        Some (put_at (put_at d' (out_u + x * 1) (?a 1 x)) (out_v + x * 1) (?a 3 x))"
      using assms(2,3) x by (simp add: wr_put_at)
  qed (use assms(2,3) in simp_all)
  then show ?thesis by (simp add: concat_map_singleton)
qed

text \<open>
  The conversion of a picture that lies in its memory block: the scratch buffer holds exactly the
  I420 picture afterwards. The caller's buffer has one and a half bytes per pixel.
\<close>

lemma even_half: "even (unat (w :: u32)) \<Longrightarrow> 2 * unat (w div 2) = unat w"
  by (simp add: unat_div)

lemma put_at_planes:
  assumes "length d = a + b + c" "length A = a" "length B = b" "length C = c"
  shows "put_at (put_at (put_at d 0 A) a B) (a + b) C = A @ B @ C"
proof -
  have "put_at (put_at d 0 A) a B = put_at d 0 (A @ B)" using put_at_adjacent [of 0 A B d] assms by simp
  then have "put_at (put_at (put_at d 0 A) a B) (a + b) C = put_at d 0 ((A @ B) @ C)"
    using put_at_adjacent [of 0 "A @ B" C d] assms by simp
  then show ?thesis using assms by (simp add: put_at_all)
qed

lemma yuyv_picture:
  assumes "even (unat w)" and "even (unat h)" and "0 < unat h"
    and src: "s + (unat h - 1) * unat stride + 2 * unat w \<le> length src"
    and d: "length d = unat w * unat h + 2 * (unat (w div 2) * unat (h div 2))"
  shows "yuyv_to_i420 src s stride 0 (unat w * unat h) (unat w * unat h + unat (w div 2) * unat (h div 2)) w h d =
    Some (i420_of_yuyv src s (unat stride) (unat w) (unat h))"
proof -
  let ?w = "unat w" and ?h = "unat h" and ?st = "unat stride" and ?cw = "unat (w div 2)" and ?ch = "unat (h div 2)"
  have hw: "2 * ?cw = ?w" "2 * ?ch = ?h" by (rule even_half; rule assms)+
  have wd: "?w div 2 = ?cw" "?h div 2 = ?ch" using hw by auto
  have inrow: "s + row * ?st + i < length src" if "row < ?h" "i < 2 * ?w" for row i
  proof -
    have "row * ?st \<le> (?h - 1) * ?st" using that(1) by (intro mult_le_mono1) simp
    then show ?thesis using src that(2) by linarith
  qed
  have rows: "row * ?w + ?w \<le> ?w * ?h" if "row < ?h" for row
  proof -
    have "Suc row * ?w \<le> ?h * ?w" using that by (intro mult_le_mono1) simp
    then show ?thesis by (simp add: mult.commute)
  qed
  have crows: "crow * ?cw + ?cw \<le> ?cw * ?ch" if "crow < ?ch" for crow
  proof -
    have "Suc crow * ?cw \<le> ?ch * ?cw" using that by (intro mult_le_mono1) simp
    then show ?thesis by (simp add: mult.commute)
  qed
  define Y where "Y = plane ?w ?h (yuyv_luma src s ?st)"
  define U where "U = plane ?cw ?ch (yuyv_chroma src s ?st 1)"
  define V where "V = plane ?cw ?ch (yuyv_chroma src s ?st 3)"
  have L: "length Y = ?w * ?h" "length U = ?cw * ?ch" "length V = ?cw * ?ch"
    by (simp_all add: Y_def U_def V_def mult.commute)
  have luma: "foldo (\<lambda>row. luma_row src (s + row * ?st) (0 + row * ?w) ?cw) [0..<?h] d = Some (put_at d 0 Y)"
    unfolding Y_def plane_def
  proof (rule foldo_rows [where n = ?w])
    fix row and d' :: bytes assume r: "row < ?h" "length d' = length d"
    have "luma_row src (s + row * ?st) (0 + row * ?w) ?cw d' =
        Some (put_at d' (0 + row * ?w) (map (\<lambda>c. src ! (s + row * ?st + 2 * c)) [0..<2 * ?cw]))"
    proof (rule luma_row_spec)
      fix x assume "x < ?cw"
      then show "s + row * ?st + 4 * x + 2 < length src"
        using inrow [OF r(1), of "4 * x + 2"] hw by (simp add: add.assoc)
    qed (use rows [OF r(1)] hw d r(2) in simp)
    then show "luma_row src (s + row * ?st) (0 + row * ?w) ?cw d' =
        Some (put_at d' (0 + row * ?w) (map (yuyv_luma src s ?st row) [0..<?w]))"
      unfolding hw by (simp add: yuyv_luma_def [abs_def])
  qed (use d in \<open>simp_all add: mult.commute\<close>)
  define d1 where "d1 = put_at d 0 Y"
  have d1: "length d1 = length d" using L d by (simp add: d1_def)
  have chroma: "foldo (\<lambda>crow. let row0 = s + (crow * 2) * ?st in
      chroma_row src row0 (row0 + ?st) (?w * ?h + crow * ?cw) (?w * ?h + ?cw * ?ch + crow * ?cw) ?cw) [0..<?ch] d1 =
    Some (put_at (put_at d1 (?w * ?h) U) (?w * ?h + ?cw * ?ch) V)"
    unfolding U_def V_def plane_def Let_def
  proof (rule foldo_rows2 [where n = ?cw])
    fix crow and d' :: bytes assume c: "crow < ?ch" "length d' = length d1"
    let ?r0 = "s + (crow * 2) * ?st"
    have r: "2 * crow < ?h" "2 * crow + 1 < ?h" using c(1) hw by auto
    have e: "?r0 + ?st = s + (2 * crow + 1) * ?st" "?r0 = s + (2 * crow) * ?st"
      "s + (2 * crow) * ?st + ?st = s + (2 * crow + 1) * ?st" by (simp_all add: algebra_simps)
    have "chroma_row src ?r0 (?r0 + ?st) (?w * ?h + crow * ?cw) (?w * ?h + ?cw * ?ch + crow * ?cw) ?cw d' =
      Some (put_at (put_at d' (?w * ?h + crow * ?cw)
          (map (\<lambda>x. average (src ! (?r0 + 4 * x + 1)) (src ! (?r0 + ?st + 4 * x + 1))) [0..<?cw]))
        (?w * ?h + ?cw * ?ch + crow * ?cw)
          (map (\<lambda>x. average (src ! (?r0 + 4 * x + 3)) (src ! (?r0 + ?st + 4 * x + 3))) [0..<?cw]))"
    proof (rule chroma_row_spec)
      fix x assume "x < ?cw"
      then have "4 * x + 3 < 2 * ?w" using hw by simp
      then show "?r0 + 4 * x + 3 < length src \<and> ?r0 + ?st + 4 * x + 3 < length src"
        using inrow [OF r(1), of "4 * x + 3"] inrow [OF r(2), of "4 * x + 3"] unfolding e by (simp add: add.assoc)
    qed (use crows [OF c(1)] d d1 c(2) in linarith)+
    then show "chroma_row src ?r0 (?r0 + ?st) (?w * ?h + crow * ?cw) (?w * ?h + ?cw * ?ch + crow * ?cw) ?cw d' =
      Some (put_at (put_at d' (?w * ?h + crow * ?cw) (map (yuyv_chroma src s ?st 1 crow) [0..<?cw]))
        (?w * ?h + ?cw * ?ch + crow * ?cw) (map (yuyv_chroma src s ?st 3 crow) [0..<?cw]))"
      unfolding e yuyv_chroma_def [abs_def] .
  qed (use d d1 in \<open>simp_all add: mult.commute\<close>)
  have "put_at (put_at d1 (?w * ?h) U) (?w * ?h + ?cw * ?ch) V = Y @ U @ V"
    unfolding d1_def by (rule put_at_planes) (use d L in simp_all)
  then have "yuyv_to_i420 src s stride 0 (?w * ?h) (?w * ?h + ?cw * ?ch) w h d = Some (Y @ U @ V)"
    unfolding yuyv_to_i420_def Let_def using luma chroma unfolding d1_def Let_def by simp
  then show ?thesis by (simp add: i420_of_yuyv_def wd Y_def U_def V_def)
qed

text \<open>
  The planar copy. Every luma row loses its padding; the chroma planes are read as if they had none,
  whatever the stride is.
\<close>

lemma slice_map: "i + n \<le> length src \<Longrightarrow> take n (drop i src) = map (\<lambda>c. src ! (i + c)) [0..<n]"
  by (rule nth_equalityI) simp_all

lemma planar_picture:
  assumes "even (unat w)" and "even (unat h)" and "0 < unat h"
    and sy: "src_y + (unat h - 1) * unat y_stride + unat w \<le> length src"
    and su: "src_u + unat (w div 2) * unat (h div 2) \<le> length src"
    and sv: "src_v + unat (w div 2) * unat (h div 2) \<le> length src"
    and d: "length d = unat w * unat h + 2 * (unat (w div 2) * unat (h div 2))"
  shows "i420_copy src src_y y_stride src_u src_v 0 (unat w * unat h)
      (unat w * unat h + unat (w div 2) * unat (h div 2)) w h d =
    Some (i420_of_planar src src_y (unat y_stride) src_u src_v (unat w) (unat h))"
proof -
  let ?w = "unat w" and ?h = "unat h" and ?st = "unat y_stride" and ?cw = "unat (w div 2)" and ?ch = "unat (h div 2)"
  have hw: "2 * ?cw = ?w" "2 * ?ch = ?h" by (rule even_half; rule assms)+
  have wd: "?w div 2 = ?cw" "?h div 2 = ?ch" using hw by auto
  have rows: "row * ?w + ?w \<le> ?w * ?h" "src_y + row * ?st + ?w \<le> length src" if "row < ?h" for row
  proof -
    have "Suc row * ?w \<le> ?h * ?w" "row * ?st \<le> (?h - 1) * ?st" using that by (intro mult_le_mono1; simp)+
    then show "row * ?w + ?w \<le> ?w * ?h" by (simp add: mult.commute)
    from \<open>row * ?st \<le> (?h - 1) * ?st\<close> sy show "src_y + row * ?st + ?w \<le> length src" by linarith
  qed
  have crows: "crow * ?cw + ?cw \<le> ?cw * ?ch" if "crow < ?ch" for crow
  proof -
    have "Suc crow * ?cw \<le> ?ch * ?cw" using that by (intro mult_le_mono1) simp
    then show ?thesis by (simp add: mult.commute)
  qed
  define Y where "Y = plane ?w ?h (\<lambda>row col. src ! (src_y + row * ?st + col))"
  define C where "C o' = plane ?cw ?ch (\<lambda>crow x. src ! (o' + crow * ?cw + x))" for o'
  have L: "length Y = ?w * ?h" "length (C o') = ?cw * ?ch" for o' by (simp_all add: Y_def C_def mult.commute)
  have luma: "foldo (\<lambda>row d. do { line \<leftarrow> rdn src (src_y + row * ?st) ?w; wr d (0 + row * ?w) line }) [0..<?h] d =
      Some (put_at d 0 Y)"
    unfolding Y_def plane_def
  proof (rule foldo_rows [where n = ?w])
    fix row and d' :: bytes assume r: "row < ?h" "length d' = length d"
    have "0 + row * ?w + ?w \<le> length d'" using rows [OF r(1)] d r(2) by linarith
    then show "do { line \<leftarrow> rdn src (src_y + row * ?st) ?w; wr d' (0 + row * ?w) line } =
        Some (put_at d' (0 + row * ?w) (map (\<lambda>col. src ! (src_y + row * ?st + col)) [0..<?w]))"
      using rows [OF r(1)] by (simp add: slice_map wr_put_at)
  qed (use d in \<open>simp_all add: mult.commute\<close>)
  define d1 where "d1 = put_at d 0 Y"
  have d1: "length d1 = length d" using L d by (simp add: d1_def)
  have chroma: "foldo (\<lambda>crow d. do { us \<leftarrow> rdn src (src_u + crow * ?cw) ?cw; d1 \<leftarrow> wr d (?w * ?h + crow * ?cw) us;
        vs \<leftarrow> rdn src (src_v + crow * ?cw) ?cw; wr d1 (?w * ?h + ?cw * ?ch + crow * ?cw) vs }) [0..<?ch] d1 =
      Some (put_at (put_at d1 (?w * ?h) (C src_u)) (?w * ?h + ?cw * ?ch) (C src_v))"
    unfolding C_def plane_def
  proof (rule foldo_rows2 [where n = ?cw])
    fix crow and d' :: bytes assume c: "crow < ?ch" "length d' = length d1"
    have "rdn src (o' + crow * ?cw) ?cw = Some (map (\<lambda>x. src ! (o' + crow * ?cw + x)) [0..<?cw])"
      if "o' + ?cw * ?ch \<le> length src" for o'
    proof -
      have "o' + crow * ?cw + ?cw \<le> length src" using that crows [OF c(1)] by linarith
      then show ?thesis by (simp add: slice_map)
    qed
    note R = this [OF su] this [OF sv]
    have b: "?w * ?h + crow * ?cw + ?cw \<le> ?w * ?h + ?cw * ?ch + crow * ?cw"
      "?w * ?h + ?cw * ?ch + crow * ?cw + ?cw \<le> length d'" using crows [OF c(1)] d d1 c(2) by linarith+
    show "do { us \<leftarrow> rdn src (src_u + crow * ?cw) ?cw; d1 \<leftarrow> wr d' (?w * ?h + crow * ?cw) us;
        vs \<leftarrow> rdn src (src_v + crow * ?cw) ?cw; wr d1 (?w * ?h + ?cw * ?ch + crow * ?cw) vs } =
      Some (put_at (put_at d' (?w * ?h + crow * ?cw) (map (\<lambda>x. src ! (src_u + crow * ?cw + x)) [0..<?cw]))
        (?w * ?h + ?cw * ?ch + crow * ?cw) (map (\<lambda>x. src ! (src_v + crow * ?cw + x)) [0..<?cw]))"
      unfolding R bind.bind_lunit by (rule wr_put_at2) (use b in simp_all)
  qed (use d d1 in \<open>simp_all add: mult.commute\<close>)
  have "put_at (put_at d1 (?w * ?h) (C src_u)) (?w * ?h + ?cw * ?ch) (C src_v) = Y @ C src_u @ C src_v"
    unfolding d1_def by (rule put_at_planes) (use d L in simp_all)
  then have "i420_copy src src_y y_stride src_u src_v 0 (?w * ?h) (?w * ?h + ?cw * ?ch) w h d =
      Some (Y @ C src_u @ C src_v)"
    unfolding i420_copy_def Let_def using luma chroma unfolding d1_def by simp
  then show ?thesis by (simp add: i420_of_planar_def wd Y_def C_def)
qed

section \<open>Property\<close>

lemma plane_nth: "r < h \<Longrightarrow> c < w \<Longrightarrow> plane w h f ! (r * w + c) = f r c"
proof (induction h)
  case (Suc h)
  have P: "plane w (Suc h) f = plane w h f @ map (f h) [0..<w]" by (simp add: plane_def)
  show ?case
  proof (cases "r = h")
    case True
    then show ?thesis using Suc.prems by (simp add: P nth_append)
  next
    case False
    then have "r < h" using Suc.prems by simp
    then have "Suc r * w \<le> h * w" by (intro mult_le_mono1) simp
    then have "r * w + c < h * w" using Suc.prems(2) by simp
    then show ?thesis using Suc.IH [OF \<open>r < h\<close> Suc.prems(2)] by (simp add: P nth_append)
  qed
qed simp

lemma yuyv_nth:
  fixes w h s stride :: nat and src :: bytes
  defines "p \<equiv> i420_of_yuyv src s stride w h"
  shows "row < h \<Longrightarrow> col < w \<Longrightarrow> p ! (row * w + col) = yuyv_luma src s stride row col"
    and "crow < h div 2 \<Longrightarrow> x < w div 2 \<Longrightarrow>
      p ! (h * w + (crow * (w div 2) + x)) = yuyv_chroma src s stride 1 crow x"
    and "crow < h div 2 \<Longrightarrow> x < w div 2 \<Longrightarrow>
      p ! (h * w + ((h div 2) * (w div 2) + (crow * (w div 2) + x))) = yuyv_chroma src s stride 3 crow x"
proof -
  have small: "r * m + c < k * m" if "r < k" "c < m" for r c k m :: nat
  proof -
    have "Suc r * m \<le> k * m" using that(1) by (intro mult_le_mono1) simp
    then show ?thesis using that(2) by simp
  qed
  note N = plane_nth nth_append small
  show "row < h \<Longrightarrow> col < w \<Longrightarrow> p ! (row * w + col) = yuyv_luma src s stride row col"
    by (simp add: p_def i420_of_yuyv_def N)
  show "crow < h div 2 \<Longrightarrow> x < w div 2 \<Longrightarrow>
      p ! (h * w + (crow * (w div 2) + x)) = yuyv_chroma src s stride 1 crow x"
    unfolding p_def i420_of_yuyv_def by (simp only: nth_append plane_length) (simp add: N)
  show "crow < h div 2 \<Longrightarrow> x < w div 2 \<Longrightarrow>
      p ! (h * w + ((h div 2) * (w div 2) + (crow * (w div 2) + x))) = yuyv_chroma src s stride 3 crow x"
    unfolding p_def i420_of_yuyv_def by (simp only: nth_append plane_length) (simp add: N)
qed

text \<open>
  C23. Converting a YUYV picture that lies inside its memory block never leaves a buffer and gives the
  I420 picture of it: every luma sample is the pixel's, and every chroma sample is the mean, rounded
  up, of the two samples the pixel pairs of its block have.
\<close>

theorem yuyv_conversion_exact:
  assumes "even (unat w)" and "even (unat h)" and "0 < unat h"
    and "s + (unat h - 1) * unat stride + 2 * unat w \<le> length src"
    and "length d = unat h * unat w + 2 * ((unat h div 2) * (unat w div 2))"
  shows "\<exists>p. yuyv_to_i420 src s stride 0 (unat h * unat w) (unat h * unat w + (unat h div 2) * (unat w div 2)) w h d = Some p \<and>
    length p = length d \<and>
    (\<forall>row col. row < unat h \<and> col < unat w \<longrightarrow>
       p ! (row * unat w + col) = src ! (s + row * unat stride + 2 * col)) \<and>
    (\<forall>o' crow x. (o' = 0 \<or> o' = 1) \<and> crow < unat h div 2 \<and> x < unat w div 2 \<longrightarrow>
       unat (p ! (unat h * unat w + (o' * ((unat h div 2) * (unat w div 2)) + (crow * (unat w div 2) + x)))) =
         (unat (src ! (s + 2 * crow * unat stride + 4 * x + (2 * o' + 1))) +
          unat (src ! (s + (2 * crow + 1) * unat stride + 4 * x + (2 * o' + 1))) + 1) div 2)"
proof -
  have half: "unat (w div 2) = unat w div 2" "unat (h div 2) = unat h div 2" by (simp_all add: unat_div)
  have "yuyv_to_i420 src s stride 0 (unat h * unat w) (unat h * unat w + (unat h div 2) * (unat w div 2)) w h d =
      Some (i420_of_yuyv src s (unat stride) (unat w) (unat h))"
    using yuyv_picture [OF assms(1-4), of d] assms(5) unfolding half by (simp add: mult.commute)
  moreover have "length (i420_of_yuyv src s (unat stride) (unat w) (unat h)) = length d"
    using assms(5) by (simp add: i420_of_yuyv_def)
  ultimately show ?thesis
    by (auto simp: yuyv_nth yuyv_luma_def yuyv_chroma_def average_mean numeral_3_eq_3)
qed

text \<open>Two by two pixels with a padded stride of six bytes.\<close>

lemma yuyv_conversion_exact_witness:
  "\<exists>p. yuyv_to_i420 [10, 100, 20, 200, 0, 0, 30, 103, 40, 202] 0 6 0 4 5 2 2 [0, 0, 0, 0, 0, 0] = Some p \<and>
     p ! 2 = 30 \<and> unat (p ! 4) = 102 \<and> unat (p ! 5) = 201"
proof -
  have 2: "unat (2 :: u32) = 2" "unat (6 :: u32) = 6" by simp_all
  let ?src = "[10, 100, 20, 200, 0, 0, 30, 103, 40, 202] :: bytes"
  obtain p where p: "yuyv_to_i420 ?src 0 6 0 4 5 2 2 [0, 0, 0, 0, 0, 0] = Some p"
    and l: "\<forall>row col. row < 2 \<and> col < 2 \<longrightarrow> p ! (row * 2 + col) = ?src ! (0 + row * 6 + 2 * col)"
    and c: "\<forall>o' crow x. (o' = 0 \<or> o' = 1) \<and> crow < 1 \<and> x < 1 \<longrightarrow> unat (p ! (2 * 2 + (o' * (1 * 1) + (crow * 1 + x)))) =
         (unat (?src ! (0 + 2 * crow * 6 + 4 * x + (2 * o' + 1))) +
          unat (?src ! (0 + (2 * crow + 1) * 6 + 4 * x + (2 * o' + 1))) + 1) div 2"
    using yuyv_conversion_exact [of 2 2 0 6 ?src "[0, 0, 0, 0, 0, 0]"] by (auto simp: 2)
  show ?thesis
    using p l [rule_format, of 1 0] c [rule_format, of 0 0 0] c [rule_format, of 1 0 0] by simp
qed

end
