(* ===== verification/Encoder_Backend.thy ===== *)
theory Encoder_Backend
  imports Yuv_Convert Cstring
begin

text \<open>
  What the encode path relies on of an H.264 encoder, as the locale \<open>encoder_backend\<close>, and the
  libx264 back end of \<^verbatim>\<open>src/media/encoder_x264.c\<close>, which is an interpretation of it. The library
  itself is the argument \<open>x264_lib\<close>; what its documentation promises of the encoded NAL units is the
  hypothesis \<open>x264_contiguous\<close>.
\<close>

section \<open>The interface of an encoder\<close>

text \<open>
  The three plane pointers are offsets into one block of memory. An encode call gives the return
  code, the output buffer, the number of bytes written to it and the keyframe flag; \<open>None\<close> is a
  memory access outside a buffer.
\<close>

record planes =
  pl_mem :: bytes
  pl_y :: nat
  pl_u :: nat
  pl_v :: nat

record encoded =
  enc_rc :: int
  enc_out :: bytes
  enc_size :: nat
  enc_idr :: bool

definition enc_nothing :: "int \<Rightarrow> bytes \<Rightarrow> encoded" where
  "enc_nothing rc out = \<lparr>enc_rc = rc, enc_out = out, enc_size = 0, enc_idr = False\<rparr>"

text \<open>A picture of a given size is complete when its three planes lie in the memory block.\<close>

definition picture_in :: "u32 \<Rightarrow> u32 \<Rightarrow> planes \<Rightarrow> bool" where
  "picture_in w h p \<longleftrightarrow> (let luma = unat w * unat h in
     pl_y p + luma \<le> length (pl_mem p) \<and> pl_u p + luma div 4 \<le> length (pl_mem p) \<and>
     pl_v p + luma div 4 \<le> length (pl_mem p))"

type_synonym 'e encode_fn = "'e \<Rightarrow> planes \<Rightarrow> u64 \<Rightarrow> bool \<Rightarrow> bytes \<Rightarrow> nat \<Rightarrow> (encoded \<times> 'e) option"

locale encoder_backend =
  fixes encode :: "'e encode_fn"
    and invar :: "'e \<Rightarrow> bool"
    and dims :: "'e \<Rightarrow> u32 \<times> u32"
  assumes encode_ok: "invar e \<Longrightarrow> picture_in (fst (dims e)) (snd (dims e)) p \<Longrightarrow> cap \<le> length out \<Longrightarrow>
      \<exists>r e'. encode e p pts force out cap = Some (r, e') \<and> invar e' \<and> dims e' = dims e \<and>
        enc_rc r \<in> {- 1, 0, 1} \<and> length (enc_out r) = length out \<and>
        (enc_rc r = 1 \<longrightarrow> 0 < enc_size r \<and> enc_size r \<le> cap)"
begin

lemma encode_unit:
  assumes "invar e" "picture_in (fst (dims e)) (snd (dims e)) p" "cap \<le> length out"
    and "encode e p pts force out cap = Some (r, e')" "enc_rc r = 1"
  shows "\<exists>au. rdn (enc_out r) 0 (enc_size r) = Some au \<and> 0 < length au \<and> length au \<le> cap"
  using encode_ok [OF assms(1-3), of pts force] assms(3-) by (auto simp: rdn_def)

end

section \<open>The libx264 back end\<close>

datatype x264_type = X264_TYPE_AUTO | X264_TYPE_IDR

text \<open>The parameters the code sets; the library's defaults fill them first.\<close>

record x264_rc =
  rc_abr :: bool
  i_bitrate :: int
  i_vbv_max_bitrate :: int
  i_vbv_buffer_size :: int
  half_vbv_init :: bool

record x264_param =
  i_width :: int
  i_height :: int
  i_fps_num :: int
  i_fps_den :: int
  i_timebase_num :: int
  i_timebase_den :: int
  i_keyint_max :: int
  i_keyint_min :: int
  b_open_gop :: bool
  b_repeat_headers :: bool
  b_intra_refresh :: bool
  x_rc :: x264_rc
  i_threads :: int

record x264_picture =
  pic_planes :: planes
  pic_strides :: "int list"
  i_pts :: int
  i_type :: x264_type

text \<open>
  One encode call of the library: the returned size, the number of NAL units, the memory their first
  payload pointer points to, and the keyframe flag of the picture.
\<close>

record x264_result =
  x_size :: int
  x_nal_count :: int
  x_payload :: bytes
  b_keyframe :: bool

record 'x x264_lib =
  x264_param_default_preset :: "string \<Rightarrow> string \<Rightarrow> x264_param option"
  x264_param_apply_profile :: "x264_param \<Rightarrow> string \<Rightarrow> x264_param option"
  x264_encoder_open :: "x264_param \<Rightarrow> 'x option"
  x264_encoder_encode :: "'x \<Rightarrow> x264_picture \<Rightarrow> x264_result \<times> 'x"

record 'x x264_backend =
  x_handle :: 'x
  x_width :: u32
  x_height :: u32
  x_name :: string

text \<open>The code's casts of unsigned parameters to \<^verbatim>\<open>int\<close>.\<close>

abbreviation to_int :: "u32 \<Rightarrow> int" where "to_int \<equiv> sint"

definition x264_set_params :: "u32 \<Rightarrow> u32 \<Rightarrow> u32 \<Rightarrow> u32 \<Rightarrow> u32 \<Rightarrow> x264_param \<Rightarrow> x264_param" where
  "x264_set_params w h fps bitrate_kbps gop_seconds p =
     p\<lparr>i_width := to_int w, i_height := to_int h, i_fps_num := to_int fps, i_fps_den := 1,
       i_timebase_num := 1, i_timebase_den := 1000000,
       i_keyint_max := to_int (fps * gop_seconds), i_keyint_min := to_int fps,
       b_open_gop := False, b_repeat_headers := True, b_intra_refresh := False,
       x_rc := \<lparr>rc_abr = True, i_bitrate = to_int bitrate_kbps, i_vbv_max_bitrate = to_int bitrate_kbps,
         i_vbv_buffer_size = to_int bitrate_kbps, half_vbv_init = True\<rparr>, i_threads := 1\<rparr>"

definition x264_name :: "u32 \<Rightarrow> u32 \<Rightarrow> u32 \<Rightarrow> string" where
  "x264_name w h bitrate_kbps = take 63 (''libx264 '' @ dec_nat (unat w) @ ''x'' @ dec_nat (unat h) @ '' @ '' @
     dec_nat (unat bitrate_kbps) @ '' kbps'')"

definition x264_open :: "'x x264_lib \<Rightarrow> bool \<Rightarrow> u32 \<Rightarrow> u32 \<Rightarrow> u32 \<Rightarrow> u32 \<Rightarrow> u32 \<Rightarrow> 'x x264_backend option" where
  "x264_open lib alloc_ok w h fps bitrate_kbps gop_seconds =
     (if \<not> alloc_ok then None
      else do {
        p0 \<leftarrow> x264_param_default_preset lib ''veryfast'' ''zerolatency'';
        p \<leftarrow> x264_param_apply_profile lib (x264_set_params w h fps bitrate_kbps gop_seconds p0) ''baseline'';
        handle \<leftarrow> x264_encoder_open lib p;
        Some \<lparr>x_handle = handle, x_width = w, x_height = h, x_name = x264_name w h bitrate_kbps\<rparr>
      })"

definition x264_encode :: "'x x264_lib \<Rightarrow> 'x x264_backend encode_fn" where
  "x264_encode lib e p pts_us force_idr out out_capacity =
     (let pic = \<lparr>pic_planes = p,
                 pic_strides = [to_int (x_width e), to_int (x_width e) div 2, to_int (x_width e) div 2],
                 i_pts = sint pts_us,
                 i_type = (if force_idr then X264_TYPE_IDR else X264_TYPE_AUTO)\<rparr>;
          (r, handle) = x264_encoder_encode lib (x_handle e) pic;
          e' = e\<lparr>x_handle := handle\<rparr>
      in if x_size r < 0 then Some (enc_nothing (- 1) out, e')
         else if x_size r = 0 \<or> x_nal_count r = 0 then Some (enc_nothing 0 out, e')
         else if nat (x_size r) > out_capacity then Some (enc_nothing (- 1) out, e')
         else do {
           payload \<leftarrow> rdn (x_payload r) 0 (nat (x_size r));
           out' \<leftarrow> wr out 0 payload;
           Some (\<lparr>enc_rc = 1, enc_out = out', enc_size = nat (x_size r), enc_idr = b_keyframe r\<rparr>, e')
         })"

text \<open>
  The documented layout of the library's output: the payloads of all NAL units of a picture are
  sequential in memory, and the returned size is the number of bytes in them.
\<close>

definition x264_contiguous :: "'x x264_lib \<Rightarrow> bool" where
  "x264_contiguous lib \<longleftrightarrow> (\<forall>x pic. nat (x_size (fst (x264_encoder_encode lib x pic))) \<le>
     length (x_payload (fst (x264_encoder_encode lib x pic))))"

lemma x264_encode_spec:
  assumes "x264_contiguous lib" "cap \<le> length out"
  shows "\<exists>r e'. x264_encode lib e p pts force out cap = Some (r, e') \<and> x_width e' = x_width e \<and> x_height e' = x_height e \<and>
    enc_rc r \<in> {- 1, 0, 1} \<and> length (enc_out r) = length out \<and> (enc_rc r = 1 \<longrightarrow> 0 < enc_size r \<and> enc_size r \<le> cap)"
proof -
  let ?pic = "\<lparr>pic_planes = p,
                 pic_strides = [to_int (x_width e), to_int (x_width e) div 2, to_int (x_width e) div 2],
                 i_pts = sint pts, i_type = (if force then X264_TYPE_IDR else X264_TYPE_AUTO)\<rparr>"
  obtain r handle where r: "x264_encoder_encode lib (x_handle e) ?pic = (r, handle)" by fastforce
  have len: "nat (x_size r) \<le> length (x_payload r)"
    using assms(1) r unfolding x264_contiguous_def by (metis fst_conv)
  show ?thesis
  proof (cases "0 < x_size r \<and> x_nal_count r \<noteq> 0 \<and> nat (x_size r) \<le> cap")
    case True
    then obtain out' where w: "wr out 0 (take (nat (x_size r)) (x_payload r)) = Some out'"
      using wr_defined [of out 0 "take (nat (x_size r)) (x_payload r)"] assms(2) len by auto
    then show ?thesis using True r len wr_length [OF w] by (simp add: x264_encode_def Let_def)
  next
    case False
    then have "x_size r < 0 \<or> x_size r = 0 \<or> x_nal_count r = 0 \<or> cap < nat (x_size r)" by linarith
    then show ?thesis using r by (auto simp: x264_encode_def Let_def enc_nothing_def)
  qed
qed

interpretation x264: encoder_backend "x264_encode lib" "\<lambda>_. x264_contiguous lib" "\<lambda>e. (x_width e, x_height e)"
  for lib :: "'x x264_lib"
  by unfold_locales (use x264_encode_spec in fastforce)

end
