(* ===== verification/Encoder_Worker.thy ===== *)
theory Encoder_Worker
  imports Encoder_Backend Frame_Hub Au_Ring Video_Source
begin

text \<open>
  The encode thread of \<^verbatim>\<open>src/media/encoder_worker.c\<close>: it takes the newest frame from its mailbox, skips
  it without a viewer, converts it to I420, encodes it and pushes the access unit into the ring. The
  loop body is cut where other threads can get in between: taking the frame, working on it
  (reading the active flag, converting, taking the keyframe request, encoding), giving it back, and
  pushing the result. \<open>encoder_step\<close> is the next of these four steps.

  The encoder is a parameter that satisfies the locale \<open>encoder_backend\<close>.
\<close>

section \<open>State\<close>

record encoder_stats =
  frames_seen :: u64
  frames_encoded :: u64
  skipped_idle :: u64
  skipped_mismatch :: u64
  skipped_bad_size :: u64
  no_output :: u64

text \<open>The local variables of \<^verbatim>\<open>encoder_thread\<close>.\<close>

record encoder_locals =
  was_active :: bool
  stall_warned :: bool
  mismatch_logged :: bool
  bad_size_logged :: bool
  last_encode_at_seen :: u64

datatype encoder_log = Log_Stalled | Log_Mismatch | Log_Empty | Log_Error | Log_Too_Large

record encoder_worker =
  ew_consumer :: nat
  ew_has_active :: bool
  ew_width :: u32
  ew_height :: u32
  ew_i420 :: bytes
  ew_au_buffer :: bytes
  ew_running :: bool
  ew_started :: bool
  ew_stats :: encoder_stats
  ew_locals :: encoder_locals
  ew_log :: "encoder_log list"

text \<open>
  Where the thread is: looking for a frame, working on frame \<open>k\<close>, done encoding it, about to push the
  access unit, or stopped (with an encoder error or without).
\<close>

datatype encoder_pc = Looking | Working nat | Coded nat encoded u64 | Pushing nat u64 bool | Stopped bool

text \<open>The worker with the objects its pointers lead to.\<close>

record 'e encoding =
  e_hub :: frame_hub
  e_ring :: au_ring
  e_force_idr :: bool
  e_active :: bool
  e_encoder :: 'e
  e_worker :: encoder_worker
  e_pc :: encoder_pc

definition ENCODE_SCRATCH_MAX :: nat where "ENCODE_SCRATCH_MAX = 4096 * 4096 * 3 div 2"
definition AU_SCRATCH_CAPACITY :: nat where "AU_SCRATCH_CAPACITY = 512 * 1024"
definition STALL_WATCHDOG_FRAMES :: u64 where "STALL_WATCHDOG_FRAMES = 90"

definition zero_stats :: encoder_stats where
  "zero_stats = \<lparr>frames_seen = 0, frames_encoded = 0, skipped_idle = 0, skipped_mismatch = 0, skipped_bad_size = 0,
     no_output = 0\<rparr>"

definition zero_locals :: encoder_locals where
  "zero_locals = \<lparr>was_active = False, stall_warned = False, mismatch_logged = False, bad_size_logged = False,
     last_encode_at_seen = 0\<rparr>"

section \<open>Creation and shutdown\<close>

text \<open>
  \<open>junk\<close> is what \<^verbatim>\<open>malloc\<close> returns. A consumer that was subscribed is unsubscribed again when the
  creation fails later.
\<close>

definition encoder_worker_create :: "bool \<Rightarrow> bool \<Rightarrow> bool \<Rightarrow> (nat \<Rightarrow> u8) \<Rightarrow> frame_hub \<Rightarrow> u32 \<Rightarrow> u32 \<Rightarrow> bool \<Rightarrow>
    frame_hub \<times> encoder_worker option" where
  "encoder_worker_create alloc_ok sub_ok buffers_ok junk hub w h has_active =
     (if \<not> alloc_ok then (hub, None)
      else
        let (hub1, consumer) = frame_hub_subscribe sub_ok hub;
            i420_size = (unat w * unat h * 3) mod 2 ^ 64 div 2;
            undo = (case consumer of None \<Rightarrow> hub1 | Some c \<Rightarrow> frame_hub_unsubscribe hub1 c)
        in if i420_size > ENCODE_SCRATCH_MAX then (undo, None)
           else case consumer of
             None \<Rightarrow> (undo, None)
           | Some c \<Rightarrow>
               if \<not> buffers_ok then (undo, None)
               else (hub1, Some \<lparr>ew_consumer = c, ew_has_active = has_active, ew_width = w, ew_height = h,
                       ew_i420 = map junk [0..<i420_size], ew_au_buffer = map junk [0..<AU_SCRATCH_CAPACITY],
                       ew_running = True, ew_started = False, ew_stats = zero_stats, ew_locals = zero_locals,
                       ew_log = []\<rparr>))"

definition encoder_worker_start :: "bool \<Rightarrow> encoder_worker \<Rightarrow> int \<times> encoder_worker" where
  "encoder_worker_start thread_ok w = (if \<not> thread_ok then (- 1, w) else (0, w\<lparr>ew_started := True\<rparr>))"

definition encoder_worker_stop :: "encoder_worker \<Rightarrow> encoder_worker" where
  "encoder_worker_stop w = w\<lparr>ew_running := False\<rparr>"

definition encoder_worker_join :: "encoder_worker \<Rightarrow> encoder_worker" where
  "encoder_worker_join w = (if ew_started w then w\<lparr>ew_started := False\<rparr> else w)"

definition encoder_worker_frames_encoded :: "encoder_worker option \<Rightarrow> u64" where
  "encoder_worker_frames_encoded w = (case w of None \<Rightarrow> 0 | Some w \<Rightarrow> frames_encoded (ew_stats w))"

definition encoder_worker_get_stats :: "encoder_worker option \<Rightarrow> encoder_stats" where
  "encoder_worker_get_stats w = (case w of None \<Rightarrow> zero_stats | Some w \<Rightarrow> ew_stats w)"

definition encoder_worker_destroy :: "encoder_worker \<Rightarrow> frame_hub \<Rightarrow> frame_hub" where
  "encoder_worker_destroy w hub = frame_hub_unsubscribe hub (ew_consumer (encoder_worker_join w))"

section \<open>The thread\<close>

text \<open>Updates of the nested records.\<close>

abbreviation upd_worker :: "(encoder_worker \<Rightarrow> encoder_worker) \<Rightarrow> 'e encoding \<Rightarrow> 'e encoding" where
  "upd_worker f s \<equiv> s\<lparr>e_worker := f (e_worker s)\<rparr>"

definition count_stat :: "(encoder_stats \<Rightarrow> encoder_stats) \<Rightarrow> 'e encoding \<Rightarrow> 'e encoding" where
  "count_stat f s = upd_worker (\<lambda>w. w\<lparr>ew_stats := f (ew_stats w)\<rparr>) s"

definition set_locals :: "(encoder_locals \<Rightarrow> encoder_locals) \<Rightarrow> 'e encoding \<Rightarrow> 'e encoding" where
  "set_locals f s = upd_worker (\<lambda>w. w\<lparr>ew_locals := f (ew_locals w)\<rparr>) s"

definition log_line :: "encoder_log \<Rightarrow> 'e encoding \<Rightarrow> 'e encoding" where
  "log_line l s = upd_worker (\<lambda>w. w\<lparr>ew_log := ew_log w @ [l]\<rparr>) s"

abbreviation locals_of :: "'e encoding \<Rightarrow> encoder_locals" where
  "locals_of s \<equiv> ew_locals (e_worker s)"

abbreviation stats_of :: "'e encoding \<Rightarrow> encoder_stats" where
  "stats_of s \<equiv> ew_stats (e_worker s)"

text \<open>\<^verbatim>\<open>frame_unref(frame_hub_pool(worker->hub), frame)\<close>, and back to the head of the loop.\<close>

definition drop_frame :: "nat \<Rightarrow> 'e encoding \<Rightarrow> 'e encoding" where
  "drop_frame k s = s\<lparr>e_hub := hub_release (e_hub s) k, e_pc := Looking\<rparr>"

definition step_take :: "'e encoding \<Rightarrow> 'e encoding" where
  "step_take s =
     (if \<not> ew_running (e_worker s) then s\<lparr>e_pc := Stopped False\<rparr>
      else case frame_hub_take (e_hub s) (ew_consumer (e_worker s)) of
        (hub, None) \<Rightarrow> s\<lparr>e_hub := hub\<rparr>
      | (hub, Some k) \<Rightarrow> (count_stat (\<lambda>t. t\<lparr>frames_seen := frames_seen t + 1\<rparr>) s)\<lparr>e_hub := hub, e_pc := Working k\<rparr>)"

text \<open>The activity edge re-arms the watchdog; the watchdog reports once.\<close>

definition note_active :: "bool \<Rightarrow> 'e encoding \<Rightarrow> 'e encoding" where
  "note_active is_active s =
     set_locals (\<lambda>l. l\<lparr>was_active := is_active\<rparr>)
       (if is_active \<and> \<not> was_active (locals_of s)
        then set_locals (\<lambda>l. l\<lparr>stall_warned := False, last_encode_at_seen := frames_seen (stats_of s)\<rparr>) s
        else s)"

definition watchdog :: "'e encoding \<Rightarrow> 'e encoding" where
  "watchdog s =
     (if \<not> stall_warned (locals_of s) \<and>
         frames_seen (stats_of s) - last_encode_at_seen (locals_of s) \<ge> STALL_WATCHDOG_FRAMES
      then log_line Log_Stalled (set_locals (\<lambda>l. l\<lparr>stall_warned := True\<rparr>) s)
      else s)"

definition log_once :: "(encoder_locals \<Rightarrow> bool) \<Rightarrow> (encoder_locals \<Rightarrow> encoder_locals) \<Rightarrow> encoder_log \<Rightarrow>
    'e encoding \<Rightarrow> 'e encoding" where
  "log_once logged set_logged l s = (if \<not> logged (locals_of s) then log_line l (set_locals set_logged s) else s)"

text \<open>
  Conversion of frame \<open>k\<close> into the scratch buffer: packed YUYV, or planar with the chroma planes
  assumed behind the luma plane at half its stride.
\<close>

definition convert_frame :: "encoder_worker \<Rightarrow> frame_pool \<Rightarrow> nat \<Rightarrow> bytes option" where
  "convert_frame w p k =
     (let f = frames p ! k;
          plane_u = unat (ew_width w) * unat (ew_height w);
          plane_v = plane_u + unat (ew_width w) * unat (ew_height w) div 4
      in if format f = V4L2_PIX_FMT_YUYV
         then yuyv_to_i420 (backing p) (data_off f) (if stride f \<noteq> 0 then stride f else width f * 2)
                0 plane_u plane_v (ew_width w) (ew_height w) (ew_i420 w)
         else
           let y_stride = (if stride f \<noteq> 0 then stride f else width f);
               src_y = data_off f;
               src_u = data_off f + unat y_stride * unat (height f);
               src_v = src_u + unat (y_stride div 2) * unat (height f div 2)
           in i420_copy (backing p) src_y y_stride src_u src_v 0 plane_u plane_v (ew_width w) (ew_height w) (ew_i420 w))"

definition scratch_planes :: "encoder_worker \<Rightarrow> planes" where
  "scratch_planes w = (let plane_u = unat (ew_width w) * unat (ew_height w) in
     \<lparr>pl_mem = ew_i420 w, pl_y = 0, pl_u = plane_u, pl_v = plane_u + unat (ew_width w) * unat (ew_height w) div 4\<rparr>)"

definition step_encode :: "'e encode_fn \<Rightarrow> nat \<Rightarrow> 'e encoding \<Rightarrow> 'e encoding option" where
  "step_encode encode k s =
     do {
       let f = frames (pool (e_hub s)) ! k;
       i420 \<leftarrow> convert_frame (e_worker s) (pool (e_hub s)) k;
       let s1 = upd_worker (\<lambda>w. w\<lparr>ew_i420 := i420\<rparr>) s;
       (r, e') \<leftarrow> encode (e_encoder s1) (scratch_planes (e_worker s1)) (timestamp_us f) (e_force_idr s1)
                   (ew_au_buffer (e_worker s1)) AU_SCRATCH_CAPACITY;
       Some ((upd_worker (\<lambda>w. w\<lparr>ew_au_buffer := enc_out r\<rparr>) s1)\<lparr>e_force_idr := False, e_encoder := e',
               e_pc := Coded k r (timestamp_us f)\<rparr>)
     }"

definition step_work :: "'e encode_fn \<Rightarrow> nat \<Rightarrow> 'e encoding \<Rightarrow> 'e encoding option" where
  "step_work encode k s =
     (let is_active = (ew_has_active (e_worker s) \<and> e_active s);
          s1 = note_active is_active s;
          f = frames (pool (e_hub s)) ! k
      in if \<not> is_active then Some (drop_frame k (count_stat (\<lambda>t. t\<lparr>skipped_idle := skipped_idle t + 1\<rparr>) s1))
         else
           let s2 = watchdog s1 in
           if width f \<noteq> ew_width (e_worker s) \<or> height f \<noteq> ew_height (e_worker s)
           then Some (drop_frame k (count_stat (\<lambda>t. t\<lparr>skipped_mismatch := skipped_mismatch t + 1\<rparr>)
                  (log_once mismatch_logged (\<lambda>l. l\<lparr>mismatch_logged := True\<rparr>) Log_Mismatch s2)))
           else if fsize f = 0
           then Some (drop_frame k (count_stat (\<lambda>t. t\<lparr>skipped_bad_size := skipped_bad_size t + 1\<rparr>)
                  (log_once bad_size_logged (\<lambda>l. l\<lparr>bad_size_logged := True\<rparr>) Log_Empty s2)))
           else step_encode encode k s2)"

definition step_coded :: "nat \<Rightarrow> encoded \<Rightarrow> u64 \<Rightarrow> 'e encoding \<Rightarrow> 'e encoding" where
  "step_coded k r pts_us s =
     (let s1 = drop_frame k s in
      if enc_rc r < 0 then (log_line Log_Error s1)\<lparr>e_pc := Stopped True\<rparr>
      else if enc_rc r = 0 then count_stat (\<lambda>t. t\<lparr>no_output := no_output t + 1\<rparr>) s1
      else
        let s2 = count_stat (\<lambda>t. t\<lparr>frames_encoded := frames_encoded t + 1\<rparr>) s1;
            s3 = set_locals (\<lambda>l. l\<lparr>last_encode_at_seen := frames_seen (stats_of s2), stall_warned := False\<rparr>) s2;
            s4 = (if enc_idr r then s3\<lparr>e_force_idr := False\<rparr> else s3)
        in s4\<lparr>e_pc := Pushing (enc_size r) pts_us (enc_idr r)\<rparr>)"

definition step_push :: "nat \<Rightarrow> u64 \<Rightarrow> bool \<Rightarrow> 'e encoding \<Rightarrow> 'e encoding option" where
  "step_push n pts_us is_idr s =
     do {
       au \<leftarrow> rdn (ew_au_buffer (e_worker s)) 0 n;
       (rc, ring) \<leftarrow> au_ring_push (e_ring s) (Some au) pts_us (if is_idr then 1 else 0);
       let s1 = s\<lparr>e_ring := ring, e_pc := Looking\<rparr>;
       Some (if rc \<noteq> 0 then log_line Log_Too_Large s1 else s1)
     }"

definition encoder_step :: "'e encode_fn \<Rightarrow> 'e encoding \<Rightarrow> 'e encoding option" where
  "encoder_step encode s =
     (case e_pc s of
        Looking \<Rightarrow> Some (step_take s)
      | Working k \<Rightarrow> step_work encode k s
      | Coded k r pts_us \<Rightarrow> Some (step_coded k r pts_us s)
      | Pushing n pts_us is_idr \<Rightarrow> step_push n pts_us is_idr s
      | Stopped _ \<Rightarrow> Some s)"

section \<open>What the small updates leave alone\<close>

lemma update_frames [simp]:
  "e_hub (count_stat f s) = e_hub s" "e_hub (set_locals g s) = e_hub s" "e_hub (log_line l s) = e_hub s"
  "e_ring (count_stat f s) = e_ring s" "e_ring (set_locals g s) = e_ring s" "e_ring (log_line l s) = e_ring s"
  "e_pc (count_stat f s) = e_pc s" "e_pc (set_locals g s) = e_pc s" "e_pc (log_line l s) = e_pc s"
  "e_force_idr (count_stat f s) = e_force_idr s" "e_force_idr (set_locals g s) = e_force_idr s"
  "e_force_idr (log_line l s) = e_force_idr s"
  "e_active (count_stat f s) = e_active s" "e_active (set_locals g s) = e_active s" "e_active (log_line l s) = e_active s"
  "e_encoder (count_stat f s) = e_encoder s" "e_encoder (set_locals g s) = e_encoder s"
  "e_encoder (log_line l s) = e_encoder s"
  "stats_of (count_stat f s) = f (stats_of s)" "stats_of (set_locals g s) = stats_of s" "stats_of (log_line l s) = stats_of s"
  "locals_of (count_stat f s) = locals_of s" "locals_of (set_locals g s) = g (locals_of s)" "locals_of (log_line l s) = locals_of s"
  by (simp_all add: count_stat_def set_locals_def log_line_def)

text \<open>What of the worker stays the same in every step: its size, its mailbox, its buffers' lengths.\<close>

definition same_worker :: "encoder_worker \<Rightarrow> encoder_worker \<Rightarrow> bool" where
  "same_worker w w' \<longleftrightarrow> ew_consumer w' = ew_consumer w \<and> ew_width w' = ew_width w \<and> ew_height w' = ew_height w \<and>
     ew_has_active w' = ew_has_active w \<and> ew_i420 w' = ew_i420 w \<and> ew_au_buffer w' = ew_au_buffer w \<and>
     ew_running w' = ew_running w"

lemma update_worker [simp]:
  "same_worker w (e_worker (count_stat f s)) = same_worker w (e_worker s)"
  "same_worker w (e_worker (set_locals g s)) = same_worker w (e_worker s)"
  "same_worker w (e_worker (log_line l s)) = same_worker w (e_worker s)" "same_worker w w"
  by (simp_all add: same_worker_def count_stat_def set_locals_def log_line_def)

lemma drop_frame_simps [simp]:
  "e_hub (drop_frame k s) = hub_release (e_hub s) k" "e_pc (drop_frame k s) = Looking" "e_ring (drop_frame k s) = e_ring s"
  "e_force_idr (drop_frame k s) = e_force_idr s" "e_active (drop_frame k s) = e_active s"
  "e_encoder (drop_frame k s) = e_encoder s" "e_worker (drop_frame k s) = e_worker s"
  by (simp_all add: drop_frame_def)

lemma local_steps [simp]:
  "stats_of (note_active a s) = stats_of s" "stats_of (watchdog s) = stats_of s" "stats_of (log_once p g l s) = stats_of s"
  "e_hub (note_active a s) = e_hub s" "e_hub (watchdog s) = e_hub s" "e_hub (log_once p g l s) = e_hub s"
  "e_ring (note_active a s) = e_ring s" "e_ring (watchdog s) = e_ring s" "e_ring (log_once p g l s) = e_ring s"
  "e_force_idr (note_active a s) = e_force_idr s" "e_force_idr (watchdog s) = e_force_idr s"
  "e_force_idr (log_once p g l s) = e_force_idr s"
  "e_active (note_active a s) = e_active s" "e_active (watchdog s) = e_active s" "e_active (log_once p g l s) = e_active s"
  "e_encoder (note_active a s) = e_encoder s" "e_encoder (watchdog s) = e_encoder s"
  "e_encoder (log_once p g l s) = e_encoder s"
  "e_pc (note_active a s) = e_pc s" "e_pc (watchdog s) = e_pc s" "e_pc (log_once p g l s) = e_pc s"
  by (simp_all add: note_active_def watchdog_def log_once_def)

lemma local_steps_worker [simp]:
  "same_worker w (e_worker (note_active a s)) = same_worker w (e_worker s)"
  "same_worker w (e_worker (watchdog s)) = same_worker w (e_worker s)"
  "same_worker w (e_worker (log_once p g l s)) = same_worker w (e_worker s)"
  by (simp_all add: note_active_def watchdog_def log_once_def)

section \<open>Accounting\<close>

text \<open>
  Every frame taken is in exactly one of the counters, or in the worker's hands, or was the one the
  encoder failed on. The counters have 64 bits, and so does the sum.
\<close>

definition in_hands :: "encoder_pc \<Rightarrow> u64" where
  "in_hands pc = (case pc of Working _ \<Rightarrow> 1 | Coded _ _ _ \<Rightarrow> 1 | Stopped True \<Rightarrow> 1 | _ \<Rightarrow> 0)"

definition frames_accounted :: "'e encoding \<Rightarrow> bool" where
  "frames_accounted s \<longleftrightarrow> (let t = stats_of s in
     frames_seen t = frames_encoded t + skipped_idle t + skipped_mismatch t + skipped_bad_size t + no_output t + in_hands (e_pc s))"

lemma step_encode_frame:
  assumes "step_encode encode k s = Some s'"
  shows "stats_of s' = stats_of s" "locals_of s' = locals_of s" "e_hub s' = e_hub s" "e_ring s' = e_ring s"
    "e_active s' = e_active s" "\<exists>r pts. e_pc s' = Coded k r pts"
  using assms by (auto simp: step_encode_def Let_def Option.bind_eq_Some_conv)

lemma encoder_step_accounted:
  assumes "encoder_step encode s = Some s'" and "frames_accounted s"
  shows "frames_accounted s'"
proof (cases "e_pc s")
  case Looking
  then show ?thesis
    using assms
    by (auto simp: encoder_step_def step_take_def frames_accounted_def in_hands_def Let_def split: prod.splits option.splits if_splits)
next
  case (Working k)
  then show ?thesis
    using assms step_encode_frame
    by (fastforce simp: encoder_step_def step_work_def frames_accounted_def in_hands_def Let_def split: if_splits)
next
  case (Coded k r pts)
  then show ?thesis
    using assms by (auto simp: encoder_step_def step_coded_def frames_accounted_def in_hands_def Let_def)
next
  case (Pushing n pts idr)
  then show ?thesis
    using assms
    by (auto simp: encoder_step_def step_push_def frames_accounted_def in_hands_def Let_def Option.bind_eq_Some_conv)
next
  case (Stopped b)
  then show ?thesis using assms by (simp add: encoder_step_def)
qed

section \<open>Converting a frame\<close>

text \<open>
  How many bytes of a frame the conversion reads, for a format, a stride and a size; and what the
  worker's own buffers look like.
\<close>

definition row_stride :: "u32 \<Rightarrow> u32 \<Rightarrow> u32 \<Rightarrow> u32" where
  "row_stride fmt str w = (if str \<noteq> 0 then str else if fmt = V4L2_PIX_FMT_YUYV then w * 2 else w)"

definition frame_extent :: "u32 \<Rightarrow> u32 \<Rightarrow> u32 \<Rightarrow> u32 \<Rightarrow> nat" where
  "frame_extent fmt str w h =
     (let st = row_stride fmt str w in
      if fmt = V4L2_PIX_FMT_YUYV then (unat h - 1) * unat st + 2 * unat w
      else max ((unat h - 1) * unat st + unat w)
             (unat st * unat h + unat (st div 2) * unat (h div 2) + unat (w div 2) * unat (h div 2)))"

definition worker_ok :: "encoder_worker \<Rightarrow> bool" where
  "worker_ok w \<longleftrightarrow> even (unat (ew_width w)) \<and> even (unat (ew_height w)) \<and> 0 < unat (ew_height w) \<and>
     length (ew_i420 w) = unat (ew_width w) * unat (ew_height w) * 3 div 2 \<and>
     length (ew_au_buffer w) = AU_SCRATCH_CAPACITY"

lemma quarter:
  assumes "even (unat (w :: u32))" "even (unat (h :: u32))"
  shows "unat w * unat h div 4 = unat (w div 2) * unat (h div 2)"
    "unat w * unat h * 3 div 2 = unat w * unat h + 2 * (unat (w div 2) * unat (h div 2))"
proof -
  have e: "unat w = 2 * unat (w div 2)" "unat h = 2 * unat (h div 2)" using even_half [OF assms(1)] even_half [OF assms(2)] by simp_all
  show "unat w * unat h div 4 = unat (w div 2) * unat (h div 2)" by (subst e(1), subst e(2)) simp
  show "unat w * unat h * 3 div 2 = unat w * unat h + 2 * (unat (w div 2) * unat (h div 2))"
    by (subst (1 2) e(1), subst (1 2) e(2)) simp
qed

text \<open>The I420 picture of frame \<open>k\<close>, as the two specifications of the conversion have it.\<close>

definition frame_i420 :: "frame_pool \<Rightarrow> nat \<Rightarrow> u32 \<Rightarrow> u32 \<Rightarrow> bytes" where
  "frame_i420 p k w h =
     (let f = frames p ! k; st = unat (row_stride (format f) (stride f) w) in
      if format f = V4L2_PIX_FMT_YUYV then i420_of_yuyv (backing p) (data_off f) st (unat w) (unat h)
      else let src_u = data_off f + st * unat h in
        i420_of_planar (backing p) (data_off f) st src_u
          (src_u + unat (row_stride (format f) (stride f) w div 2) * unat (h div 2)) (unat w) (unat h))"

lemma frame_i420_length: "even (unat w) \<Longrightarrow> even (unat h) \<Longrightarrow> length (frame_i420 p k w h) = unat w * unat h * 3 div 2"
  using quarter [of w h] by (simp add: frame_i420_def i420_of_yuyv_def i420_of_planar_def Let_def unat_div mult.commute)

lemma convert_total:
  assumes ok: "worker_ok w" and inv: "pool_inv p" and k: "k < fcount p"
    and dims: "width (frames p ! k) = ew_width w" "height (frames p ! k) = ew_height w"
    and ext: "frame_extent (format (frames p ! k)) (stride (frames p ! k)) (ew_width w) (ew_height w) \<le> capacity p"
  shows "convert_frame w p k = Some (frame_i420 p k (ew_width w) (ew_height w))"
proof -
  let ?f = "frames p ! k" and ?w = "ew_width w" and ?h = "ew_height w"
  define st where "st = row_stride (format ?f) (stride ?f) ?w"
  have ev: "even (unat ?w)" "even (unat ?h)" "0 < unat ?h" using ok by (simp_all add: worker_ok_def)
  note Q = quarter [OF ev(1,2)]
  have off: "data_off ?f = k * capacity p" using inv k by (auto simp: pool_inv_def)
  have "Suc k * capacity p \<le> fcount p * capacity p" using k by (intro mult_le_mono1) simp
  then have room: "data_off ?f + capacity p \<le> length (backing p)" using off pool_inv_simps(3) [OF inv] by simp
  have len: "length (ew_i420 w) = unat ?w * unat ?h + 2 * (unat (?w div 2) * unat (?h div 2))"
    using ok Q by (simp add: worker_ok_def)
  show ?thesis
  proof (cases "format ?f = V4L2_PIX_FMT_YUYV")
    case True
    have "(unat ?h - 1) * unat st + 2 * unat ?w \<le> capacity p"
      using ext True unfolding st_def by (simp add: frame_extent_def)
    then have e: "data_off ?f + (unat ?h - 1) * unat st + 2 * unat ?w \<le> length (backing p)"
      using room by linarith
    have "(if stride ?f \<noteq> 0 then stride ?f else width ?f * 2) = st" using True by (simp add: st_def row_stride_def dims)
    moreover have "row_stride V4L2_PIX_FMT_YUYV (stride ?f) ?w = st" using True by (simp add: st_def)
    ultimately show ?thesis
      using yuyv_picture [OF ev e len] True Q(1)
      by (simp add: convert_frame_def Let_def frame_i420_def st_def [symmetric])
  next
    case False
    let ?u = "data_off ?f + unat st * unat ?h"
    let ?v = "?u + unat (st div 2) * unat (?h div 2)"
    have "(unat ?h - 1) * unat st + unat ?w \<le> capacity p"
      "unat st * unat ?h + unat (st div 2) * unat (?h div 2) + unat (?w div 2) * unat (?h div 2) \<le> capacity p"
      using ext False by (simp_all add: frame_extent_def st_def [symmetric])
    then have e: "data_off ?f + (unat ?h - 1) * unat st + unat ?w \<le> length (backing p)"
      "?u + unat (?w div 2) * unat (?h div 2) \<le> length (backing p)"
      "?v + unat (?w div 2) * unat (?h div 2) \<le> length (backing p)" using room by linarith+
    have "(if stride ?f \<noteq> 0 then stride ?f else width ?f) = st" using False by (simp add: st_def row_stride_def dims)
    then show ?thesis
      using planar_picture [OF ev e len] False Q(1)
      by (simp add: convert_frame_def Let_def frame_i420_def st_def [symmetric] dims)
  qed
qed

section \<open>Steps of the worker are defined and keep its invariant\<close>

text \<open>
  What the worker needs: its buffers and its encoder agree on the size, a result that waits is one
  the encoder may give, and the frame it works on, if it has the worker's size, holds enough bytes.
\<close>

definition pc_ok :: "encoder_pc \<Rightarrow> bool" where
  "pc_ok pc = (case pc of
     Coded k r _ \<Rightarrow> enc_rc r \<in> {- 1, 0, 1} \<and> (enc_rc r = 1 \<longrightarrow> 0 < enc_size r \<and> enc_size r \<le> AU_SCRATCH_CAPACITY)
   | Pushing n _ _ \<Rightarrow> 0 < n \<and> n \<le> AU_SCRATCH_CAPACITY
   | _ \<Rightarrow> True)"

definition frame_fits :: "encoder_worker \<Rightarrow> frame_pool \<Rightarrow> nat \<Rightarrow> bool" where
  "frame_fits w p k \<longleftrightarrow> k < fcount p \<and>
     (width (frames p ! k) = ew_width w \<and> height (frames p ! k) = ew_height w \<longrightarrow>
      frame_extent (format (frames p ! k)) (stride (frames p ! k)) (ew_width w) (ew_height w) \<le> capacity p)"

lemma same_worker_ok: "same_worker w w' \<Longrightarrow> worker_ok w' = worker_ok w" "same_worker w w' \<Longrightarrow> frame_fits w' p k = frame_fits w p k"
  by (simp_all add: same_worker_def worker_ok_def frame_fits_def)

text \<open>The frame the worker holds.\<close>

fun in_use :: "encoder_pc \<Rightarrow> nat option" where
  "in_use (Working k) = Some k"
| "in_use (Coded k r pts) = Some k"
| "in_use pc = None"

text \<open>What a step can do to the hub: nothing, take a frame from its own mailbox, or give its frame back.\<close>

definition hub_effect :: "nat \<Rightarrow> frame_hub \<Rightarrow> nat option \<Rightarrow> frame_hub \<Rightarrow> nat option \<Rightarrow> bool" where
  "hub_effect c h u h' u' \<longleftrightarrow> h' = h \<and> u' = u \<or>
     u = None \<and> frame_hub_take h c = (h', u') \<or>
     (\<exists>k. u = Some k \<and> u' = None \<and> h' = hub_release h k)"

text \<open>What no step changes.\<close>

definition same_shape :: "encoder_worker \<Rightarrow> encoder_worker \<Rightarrow> bool" where
  "same_shape w w' \<longleftrightarrow> ew_consumer w' = ew_consumer w \<and> ew_width w' = ew_width w \<and> ew_height w' = ew_height w \<and>
     ew_has_active w' = ew_has_active w \<and> ew_running w' = ew_running w"

lemma hub_effect_drop [simp]: "hub_effect c h (Some k) (hub_release h k) None"
  by (simp add: hub_effect_def)

lemma same_worker_shape: "same_worker w w' \<Longrightarrow> same_shape w w'"
  by (simp add: same_worker_def same_shape_def)

context encoder_backend
begin

definition encoding_ok :: "'e encoding \<Rightarrow> bool" where
  "encoding_ok s \<longleftrightarrow> worker_ok (e_worker s) \<and> invar (e_encoder s) \<and>
     dims (e_encoder s) = (ew_width (e_worker s), ew_height (e_worker s)) \<and> ring_inv (e_ring s) \<and> pc_ok (e_pc s)"

lemma step_encode_total:
  assumes ok: "encoding_ok s" and inv: "pool_inv (pool (e_hub s))" and fits: "frame_fits (e_worker s) (pool (e_hub s)) k"
    and size: "width (frames (pool (e_hub s)) ! k) = ew_width (e_worker s)"
      "height (frames (pool (e_hub s)) ! k) = ew_height (e_worker s)"
  shows "\<exists>r e'. encode (e_encoder s) \<lparr>pl_mem = frame_i420 (pool (e_hub s)) k (ew_width (e_worker s)) (ew_height (e_worker s)),
        pl_y = 0, pl_u = unat (ew_width (e_worker s)) * unat (ew_height (e_worker s)),
        pl_v = unat (ew_width (e_worker s)) * unat (ew_height (e_worker s)) +
          unat (ew_width (e_worker s)) * unat (ew_height (e_worker s)) div 4\<rparr>
      (timestamp_us (frames (pool (e_hub s)) ! k)) (e_force_idr s) (ew_au_buffer (e_worker s)) AU_SCRATCH_CAPACITY = Some (r, e') \<and>
    step_encode encode k s = Some (s\<lparr>e_worker := (e_worker s)\<lparr>ew_i420 := frame_i420 (pool (e_hub s)) k (ew_width (e_worker s)) (ew_height (e_worker s)),
        ew_au_buffer := enc_out r\<rparr>, e_force_idr := False, e_encoder := e',
        e_pc := Coded k r (timestamp_us (frames (pool (e_hub s)) ! k))\<rparr>) \<and>
    invar e' \<and> dims e' = dims (e_encoder s) \<and> length (enc_out r) = AU_SCRATCH_CAPACITY \<and>
    pc_ok (Coded k r (timestamp_us (frames (pool (e_hub s)) ! k)))"
proof -
  let ?w = "e_worker s" and ?p = "pool (e_hub s)"
  let ?m = "frame_i420 ?p k (ew_width ?w) (ew_height ?w)"
  have wok: "worker_ok ?w" using ok by (simp add: encoding_ok_def)
  then have ev: "even (unat (ew_width ?w))" "even (unat (ew_height ?w))" by (simp_all add: worker_ok_def)
  have c: "convert_frame ?w ?p k = Some ?m"
    using convert_total [OF wok inv _ size] fits size by (simp add: frame_fits_def)
  let ?pl = "\<lparr>pl_mem = ?m, pl_y = 0, pl_u = unat (ew_width ?w) * unat (ew_height ?w),
        pl_v = unat (ew_width ?w) * unat (ew_height ?w) + unat (ew_width ?w) * unat (ew_height ?w) div 4\<rparr>"
  have pic: "picture_in (fst (dims (e_encoder s))) (snd (dims (e_encoder s))) ?pl"
    using ok ev quarter [OF ev] by (simp add: encoding_ok_def picture_in_def frame_i420_length)
  have cap: "AU_SCRATCH_CAPACITY \<le> length (ew_au_buffer ?w)" using wok by (simp add: worker_ok_def)
  have inv: "invar (e_encoder s)" using ok by (simp add: encoding_ok_def)
  obtain r e' where e: "encode (e_encoder s) ?pl (timestamp_us (frames ?p ! k)) (e_force_idr s) (ew_au_buffer ?w) AU_SCRATCH_CAPACITY = Some (r, e')"
    "invar e'" "dims e' = dims (e_encoder s)" "enc_rc r \<in> {- 1, 0, 1}" "length (enc_out r) = length (ew_au_buffer ?w)"
    "enc_rc r = 1 \<longrightarrow> 0 < enc_size r \<and> enc_size r \<le> AU_SCRATCH_CAPACITY"
    using encode_ok [OF inv pic cap] by blast
  have "step_encode encode k s = Some (s\<lparr>e_worker := ?w\<lparr>ew_i420 := ?m, ew_au_buffer := enc_out r\<rparr>, e_force_idr := False,
      e_encoder := e', e_pc := Coded k r (timestamp_us (frames ?p ! k))\<rparr>)"
    using e(1) by (simp add: step_encode_def Let_def c scratch_planes_def)
  then show ?thesis using e wok by (auto simp: pc_ok_def worker_ok_def)
qed

lemma encoding_ok_quiet:
  assumes "encoding_ok s" "same_worker (e_worker s) (e_worker s')" "e_encoder s' = e_encoder s" "e_ring s' = e_ring s" "pc_ok (e_pc s')"
  shows "encoding_ok s'"
  using assms same_worker_ok(1) [OF assms(2)] by (simp add: encoding_ok_def) (simp add: same_worker_def)

lemma step_take_ok:
  assumes ok: "encoding_ok s" and pc: "e_pc s = Looking"
  shows "encoding_ok (step_take s) \<and> same_shape (e_worker s) (e_worker (step_take s)) \<and>
    hub_effect (ew_consumer (e_worker s)) (e_hub s) None (e_hub (step_take s)) (in_use (e_pc (step_take s)))"
proof (cases "ew_running (e_worker s)")
  case False
  then have "encoding_ok (step_take s)"
    by (intro encoding_ok_quiet [OF ok]) (simp_all add: step_take_def pc_ok_def)
  then show ?thesis using False by (simp add: step_take_def hub_effect_def same_shape_def)
next
  case True
  obtain h r where t: "frame_hub_take (e_hub s) (ew_consumer (e_worker s)) = (h, r)" by fastforce
  have w: "same_worker (e_worker s) (e_worker (step_take s))" using True t
    by (cases r) (auto simp: step_take_def same_worker_def count_stat_def)
  have "encoding_ok (step_take s)"
    by (rule encoding_ok_quiet [OF ok w]) (use True t pc in \<open>cases r; simp add: step_take_def pc_ok_def\<close>)+
  moreover have "hub_effect (ew_consumer (e_worker s)) (e_hub s) None (e_hub (step_take s)) (in_use (e_pc (step_take s)))"
    using True t pc by (cases r) (simp_all add: step_take_def hub_effect_def)
  ultimately show ?thesis using same_worker_shape [OF w] by simp
qed

lemma step_work_ok:
  assumes ok: "encoding_ok s" and pc: "e_pc s = Working k" and inv: "pool_inv (pool (e_hub s))"
    and fits: "frame_fits (e_worker s) (pool (e_hub s)) k"
  shows "\<exists>s'. step_work encode k s = Some s' \<and> encoding_ok s' \<and> same_shape (e_worker s) (e_worker s') \<and>
    hub_effect (ew_consumer (e_worker s)) (e_hub s) (Some k) (e_hub s') (in_use (e_pc s'))"
proof -
  let ?f = "frames (pool (e_hub s)) ! k"
  define a where "a = (ew_has_active (e_worker s) \<and> e_active s)"
  have drop: "encoding_ok (drop_frame k t) \<and> same_shape (e_worker s) (e_worker (drop_frame k t)) \<and>
      hub_effect (ew_consumer (e_worker s)) (e_hub s) (Some k) (e_hub (drop_frame k t)) (in_use (e_pc (drop_frame k t)))"
    if "same_worker (e_worker s) (e_worker t)" "e_encoder t = e_encoder s" "e_ring t = e_ring s" "e_hub t = e_hub s" for t
    using that same_worker_shape [OF that(1)]
    by (intro conjI encoding_ok_quiet [OF ok]) (simp_all add: pc_ok_def)
  consider "\<not> a" | "a" "width ?f \<noteq> ew_width (e_worker s) \<or> height ?f \<noteq> ew_height (e_worker s)"
    | "a" "width ?f = ew_width (e_worker s)" "height ?f = ew_height (e_worker s)" "fsize ?f = 0"
    | "a" "width ?f = ew_width (e_worker s)" "height ?f = ew_height (e_worker s)" "fsize ?f \<noteq> 0" by blast
  then show ?thesis
  proof cases
    case 4
    define t where "t = watchdog (note_active True s)"
    have t: "same_worker (e_worker s) (e_worker t)" "e_encoder t = e_encoder s" "e_ring t = e_ring s" "e_hub t = e_hub s"
      "e_pc t = e_pc s" by (simp_all add: t_def)
    have "encoding_ok t" by (rule encoding_ok_quiet [OF ok t(1-3)]) (simp add: t pc pc_ok_def)
    moreover have "frame_fits (e_worker t) (pool (e_hub t)) k" using fits same_worker_ok(2) [OF t(1)] t(4) by simp
    moreover have "width (frames (pool (e_hub t)) ! k) = ew_width (e_worker t)" "height (frames (pool (e_hub t)) ! k) = ew_height (e_worker t)"
      using 4 t by (simp_all add: same_worker_def)
    ultimately obtain r e' where run: "step_encode encode k t = Some (t\<lparr>e_worker := (e_worker t)\<lparr>ew_i420 := frame_i420 (pool (e_hub t)) k (ew_width (e_worker t)) (ew_height (e_worker t)),
        ew_au_buffer := enc_out r\<rparr>, e_force_idr := False, e_encoder := e', e_pc := Coded k r (timestamp_us (frames (pool (e_hub t)) ! k))\<rparr>)"
      and R: "invar e'" "dims e' = dims (e_encoder t)" "length (enc_out r) = AU_SCRATCH_CAPACITY"
        "pc_ok (Coded k r (timestamp_us (frames (pool (e_hub t)) ! k)))"
      using step_encode_total [of t k] inv t(4) by fastforce
    have "step_work encode k s = step_encode encode k t"
      using 4 unfolding a_def t_def by (simp add: step_work_def Let_def)
    then show ?thesis
      using run R \<open>encoding_ok t\<close> t frame_i420_length [of "ew_width (e_worker t)" "ew_height (e_worker t)"]
      by (auto simp: encoding_ok_def worker_ok_def hub_effect_def same_shape_def same_worker_def)
  qed (use drop in \<open>auto simp: step_work_def Let_def a_def\<close>)
qed

lemma step_coded_ok:
  assumes ok: "encoding_ok s" and pc: "e_pc s = Coded k r pts"
  shows "encoding_ok (step_coded k r pts s) \<and> same_shape (e_worker s) (e_worker (step_coded k r pts s)) \<and>
    hub_effect (ew_consumer (e_worker s)) (e_hub s) (Some k) (e_hub (step_coded k r pts s)) (in_use (e_pc (step_coded k r pts s)))"
proof -
  have r: "enc_rc r \<in> {- 1, 0, 1}" "enc_rc r = 1 \<longrightarrow> 0 < enc_size r \<and> enc_size r \<le> AU_SCRATCH_CAPACITY"
    using ok pc by (simp_all add: encoding_ok_def pc_ok_def)
  have w: "same_worker (e_worker s) (e_worker (step_coded k r pts s))" by (simp add: step_coded_def Let_def)
  have "encoding_ok (step_coded k r pts s)"
    by (rule encoding_ok_quiet [OF ok w]) (use r in \<open>auto simp: step_coded_def Let_def pc_ok_def\<close>)
  then show ?thesis using same_worker_shape [OF w] r by (auto simp: step_coded_def Let_def hub_effect_def)
qed

lemma step_push_ok:
  assumes ok: "encoding_ok s" and pc: "e_pc s = Pushing n pts idr"
  shows "\<exists>s'. step_push n pts idr s = Some s' \<and> encoding_ok s' \<and> same_shape (e_worker s) (e_worker s') \<and>
    hub_effect (ew_consumer (e_worker s)) (e_hub s) None (e_hub s') (in_use (e_pc s'))"
proof -
  have n: "0 < n" "n \<le> length (ew_au_buffer (e_worker s))" and ring: "ring_inv (e_ring s)"
    using ok pc by (simp_all add: encoding_ok_def pc_ok_def worker_ok_def)
  let ?au = "take n (ew_au_buffer (e_worker s))"
  obtain rc ring' where p: "au_ring_push (e_ring s) (Some ?au) pts (if idr then 1 else 0) = Some (rc, ring')" "ring_inv ring'"
  proof (cases "n \<le> slot_capacity (e_ring s)")
    case True
    then have "0 < length ?au" "length ?au \<le> slot_capacity (e_ring s)" using n by auto
    from push_ring [OF ring this, of pts "if idr then 1 else 0"] that show thesis by metis
  next
    case False
    then show thesis using that n ring by (simp add: au_ring_push_def)
  qed
  let ?s1 = "s\<lparr>e_ring := ring', e_pc := Looking\<rparr>"
  let ?s' = "if rc \<noteq> 0 then log_line Log_Too_Large ?s1 else ?s1"
  have run: "step_push n pts idr s = Some ?s'" using n p by (simp add: step_push_def Let_def)
  have w: "same_worker (e_worker s) (e_worker ?s')" by simp
  have "encoding_ok ?s'"
    using ok p(2) same_worker_ok(1) [OF w] by (simp add: encoding_ok_def pc_ok_def) (simp add: log_line_def)
  then show ?thesis using run same_worker_shape [OF w] by (simp add: hub_effect_def)
qed

text \<open>All four together: a step of the worker never faults, and it keeps what it relies on.\<close>

lemma encoder_step_total:
  assumes ok: "encoding_ok s" and inv: "pool_inv (pool (e_hub s))"
    and fits: "\<And>k. in_use (e_pc s) = Some k \<Longrightarrow> frame_fits (e_worker s) (pool (e_hub s)) k"
  shows "\<exists>s'. encoder_step encode s = Some s' \<and> encoding_ok s' \<and> same_shape (e_worker s) (e_worker s') \<and>
    hub_effect (ew_consumer (e_worker s)) (e_hub s) (in_use (e_pc s)) (e_hub s') (in_use (e_pc s'))"
proof (cases "e_pc s")
  case Looking
  then show ?thesis using step_take_ok [OF ok] by (simp add: encoder_step_def)
next
  case (Working k)
  then show ?thesis using step_work_ok [OF ok Working inv fits] by (simp add: encoder_step_def)
next
  case (Coded k r pts)
  then show ?thesis using step_coded_ok [OF ok Coded] by (simp add: encoder_step_def)
next
  case (Pushing n pts idr)
  then show ?thesis using step_push_ok [OF ok Pushing] by (simp add: encoder_step_def)
next
  case (Stopped b)
  then show ?thesis using ok by (simp add: encoder_step_def hub_effect_def same_shape_def)
qed

end

end
