(* ===== verification/Camera.thy ===== *)
theory Camera
  imports Test_Source V4l2_Source Encoder_Worker
begin

text \<open>
  The video source the server opens: the test pattern or a V4L2 camera, behind the function pointers of
  \<^verbatim>\<open>include/media/video_source.h\<close> (a datatype and a dispatcher here). Whichever it is satisfies the
  contract \<open>video_capture\<close>, and its frames are large enough for their geometry.
\<close>

section \<open>Definitions\<close>

datatype 'k camera = Test_Camera test_source | V4l2_Camera "'k v4l2_source"

definition camera_start :: "'k cam_driver \<Rightarrow> 'k camera \<Rightarrow> int \<times> 'k camera" where
  "camera_start drv c = (case c of
     Test_Camera s \<Rightarrow> map_prod id Test_Camera (test_start s)
   | V4l2_Camera s \<Rightarrow> map_prod id V4l2_Camera (v4l2_start drv s))"

definition camera_capture :: "'k cam_driver \<Rightarrow> 'k camera \<Rightarrow> (captured \<times> 'k camera) option" where
  "camera_capture drv c = (case c of
     Test_Camera s \<Rightarrow> map_option (map_prod id Test_Camera) (test_capture s)
   | V4l2_Camera s \<Rightarrow> map_option (map_prod id V4l2_Camera) (v4l2_capture drv s))"

definition camera_release :: "'k cam_driver \<Rightarrow> 'k camera \<Rightarrow> u32 \<Rightarrow> 'k camera" where
  "camera_release drv c i = (case c of
     Test_Camera s \<Rightarrow> Test_Camera (test_release s i)
   | V4l2_Camera s \<Rightarrow> V4l2_Camera (v4l2_release drv s i))"

definition camera_ops :: "'k cam_driver \<Rightarrow> 'k camera source_ops" where
  "camera_ops drv = \<lparr>so_start = camera_start drv, so_capture = camera_capture drv, so_release = camera_release drv\<rparr>"

definition camera_info :: "'k camera \<Rightarrow> video_source" where
  "camera_info c = (case c of Test_Camera s \<Rightarrow> test_info s | V4l2_Camera s \<Rightarrow> v4l2_info s)"

text \<open>What closing releases of the operating system; the test source only frees memory.\<close>

definition video_source_close :: "'k camera option \<Rightarrow> cam_event list" where
  "video_source_close c = (case c of Some (V4l2_Camera s) \<Rightarrow> v4l2_close s | _ \<Rightarrow> [])"

text \<open>\<^verbatim>\<open>server->source = config->use_test_source ? ...\<close>; the inner \<open>None\<close> is a null pointer.\<close>

definition server_source :: "'k cam_driver \<Rightarrow> (nat \<Rightarrow> bool) \<Rightarrow> (nat \<Rightarrow> nat \<Rightarrow> u8) \<Rightarrow> (nat \<Rightarrow> u64) \<Rightarrow> bool \<Rightarrow> string \<Rightarrow> u32 \<Rightarrow> u32 \<Rightarrow> u32 \<Rightarrow>
    'k camera option option" where
  "server_source drv alloc_ok junk clock use_test device w h fps =
     (if use_test then Some (map_option Test_Camera (test_source_create alloc_ok junk clock w h fps))
      else case v4l2_source_create drv (alloc_ok 0 \<and> alloc_ok 1) clock (Some device) w h fps of
        None \<Rightarrow> None
      | Some (Inl _) \<Rightarrow> Some None
      | Some (Inr s) \<Rightarrow> Some (Some (V4l2_Camera s)))"

section \<open>The contract\<close>

definition camera_ok :: "'k cam_driver \<Rightarrow> nat \<Rightarrow> 'k camera \<Rightarrow> bool" where
  "camera_ok drv n c = (case c of Test_Camera s \<Rightarrow> test_ok n s | V4l2_Camera s \<Rightarrow> v4l2_ok drv n s)"

lemmas camera_defs = camera_ops_def camera_start_def camera_capture_def camera_release_def camera_info_def camera_ok_def

interpretation camera: video_capture "camera_ops drv" "camera_ok drv" camera_info
  for drv :: "'k cam_driver"
proof unfold_locales
  show "\<exists>c s'. so_capture (camera_ops drv) s = Some (c, s') \<and> camera_ok drv n s' \<and> camera_info s' = camera_info s \<and>
      (cap_rc c > 0 \<longrightarrow> (\<exists>d. cap_data c = Some d \<and> length d \<le> vs_frame_size (camera_info s)))"
    if "camera_ok drv (Suc n) s" for n s
    using that test_src.capture_ok [of n] v4l2_src.capture_ok [of drv n]
    by (cases s) (fastforce simp: camera_defs test_ops_def v4l2_ops_def)+
  show "camera_ok drv n (so_release (camera_ops drv) s i) \<and> camera_info (so_release (camera_ops drv) s i) = camera_info s"
    if "camera_ok drv n s" for n s i
    using that test_src.release_ok [of n _ i] v4l2_src.release_ok [of drv n _ i]
    by (cases s) (simp_all add: camera_defs test_ops_def v4l2_ops_def)
  show "camera_ok drv n (snd (so_start (camera_ops drv) s)) \<and> camera_info (snd (so_start (camera_ops drv) s)) = camera_info s"
    if "camera_ok drv n s" for n s
    using that test_src.start_ok [of n] v4l2_src.start_ok [of drv n]
    by (cases s) (simp_all add: camera_defs test_ops_def v4l2_ops_def)
qed

text \<open>
  What the documentation of V4L2 says of a negotiated format: the size is that of a whole picture with
  the line length the driver gives.
\<close>

abbreviation source_extent :: "video_source \<Rightarrow> nat" where
  "source_extent v \<equiv> frame_extent (vs_format v) (vs_stride v) (vs_width v) (vs_height v)"

definition cam_sizes :: "'k cam_driver \<Rightarrow> bool" where
  "cam_sizes drv \<longleftrightarrow> (\<forall>k w h f r k'. cam_s_fmt drv k w h f = (Some r, k') \<longrightarrow> cf_pixelformat r = f \<longrightarrow> f \<in> set cam_formats \<longrightarrow>
     frame_extent f (cf_bytesperline r) (cf_width r) (cf_height r) \<le> unat (cf_sizeimage r))"

definition sized :: "'k v4l2_source \<Rightarrow> bool" where
  "sized s \<longleftrightarrow> source_extent (v4l2_info s) \<le> v4_frame_size s"

lemma sized_upd [simp]:
  "sized (s\<lparr>v4_kern := k\<rparr>) = sized s" "sized (s\<lparr>v4_fps := r\<rparr>) = sized s" "sized (s\<lparr>v4_buffers := b, v4_trace := t\<rparr>) = sized s"
  "sized (s\<lparr>v4_buffer_count := n, v4_lent := l\<rparr>) = sized s"
  by (simp_all add: sized_def v4l2_info_def)

lemma try_formats_sized:
  assumes "cam_sizes drv" "cam_try_formats drv w h fmts s = Some (Inr s')" "set fmts \<subseteq> set cam_formats"
  shows "sized s'"
  using assms(2,3)
proof (induction fmts arbitrary: s)
  case (Cons f fs)
  obtain r k where r: "cam_s_fmt drv (v4_kern s) w h f = (r, k)" by fastforce
  show ?case
  proof (cases "\<exists>g. r = Some g \<and> cf_pixelformat g = f")
    case True
    then obtain g where g: "r = Some g" "cf_pixelformat g = f" by blast
    have "frame_extent f (cf_bytesperline g) (cf_width g) (cf_height g) \<le> unat (cf_sizeimage g)"
    proof -
      have "cam_s_fmt drv (v4_kern s) w h f = (Some g, k)" "f \<in> set cam_formats" using r g(1) Cons.prems(2) by simp_all
      then show ?thesis using assms(1) g(2) unfolding cam_sizes_def by blast
    qed
    then show ?thesis using Cons.prems(1) r g by (auto simp: sized_def v4l2_info_def)
  next
    case False
    then have "cam_try_formats drv w h fs (s\<lparr>v4_kern := k\<rparr>) = Some (Inr s')"
      using Cons.prems(1) r by (auto split: option.splits if_splits)
    then show ?thesis using Cons.IH Cons.prems(2) by simp
  qed
qed simp

lemma open_steps_sized:
  assumes sizes: "cam_sizes drv"
  shows "steps_to (\<lambda>_. True) (\<lambda>_. True) (cam_open_steps drv w h fps) sized"
proof -
  have 1: "steps_to (\<lambda>_. True) (\<lambda>_. True) (cam_check drv) (\<lambda>_. True)" by (rule steps_toI) auto
  have 2: "steps_to (\<lambda>_. True) (\<lambda>_. True) (cam_try_formats drv w h cam_formats) sized"
    by (rule steps_toI) (use try_formats_sized [OF sizes] in auto)
  have 3: "steps_to (\<lambda>_. True) sized (cam_interval drv fps) sized"
    by (rule steps_toI) (auto simp: cam_interval_def split: option.splits prod.splits)
  have m: "steps_to (\<lambda>_. True) sized (cam_map drv i) sized" for i
    by (rule steps_toI) (auto simp: cam_map_def split: option.splits if_splits)
  have each: "steps_to (\<lambda>_. True) sized (each_index (cam_map drv) [0..<n]) sized" for n
    by (rule steps_to_each [where I = "\<lambda>_. sized"]) (rule m, simp)
  have 4: "steps_to (\<lambda>_. True) sized (cam_request drv) sized"
  proof (rule steps_toI)
    fix s s' :: "'a v4l2_source" assume s: "sized s"
    obtain r k where r: "cam_reqbufs drv (v4_kern s) V4L2_BUFFER_COUNT = (r, k)" by fastforce
    have go: "sized (s\<lparr>v4_kern := k, v4_buffer_count := n, v4_lent := [0..<n]\<rparr>)" for n using s by (simp add: sized_def v4l2_info_def)
    show "sized s'" if "cam_request drv s = Some (Inr s')"
      using that r steps_toD(2) [OF each go] by (auto simp: cam_request_def split: option.splits if_splits)
  qed simp
  show ?thesis unfolding cam_open_steps_def
    by (rule steps_to_then [OF 1 steps_to_then [OF 2 steps_to_then [OF 3 4]]])
qed

lemma server_source_ok:
  assumes "server_source drv alloc_ok junk clock use_test device w h fps = Some (Some c)"
    and "cam_ok drv" "cam_sizes drv" "w \<le> 4096" "h \<le> 4096"
  shows "camera_ok drv (10 ^ 12) c \<and> source_extent (camera_info c) \<le> vs_frame_size (camera_info c)"
proof (cases use_test)
  case True
  then obtain s where s: "c = Test_Camera s" "test_source_create alloc_ok junk clock w h fps = Some s"
    using assms(1) by (auto simp: server_source_def)
  have ok: "test_ok (10 ^ 12) s" using create_spec [OF s(2) assms(4,5)] by simp
  have "unat (ts_width s * 2) = 2 * unat (ts_width s)"
    using ok by (subst unat_mult_lem [THEN iffD1]) (simp_all add: test_ok_def)
  moreover have "ts_width s * 2 \<noteq> 0"
  proof
    assume "ts_width s * 2 = 0"
    then show False using calculation ok by (simp add: test_ok_def)
  qed
  moreover have "(unat (ts_height s) - 1) * (2 * unat (ts_width s)) + 2 * unat (ts_width s) = unat (ts_height s) * (2 * unat (ts_width s))"
  proof -
    have "unat (ts_height s) = Suc (unat (ts_height s) - 1)" using ok by (simp add: test_ok_def)
    then show ?thesis by (metis add.commute mult_Suc)
  qed
  ultimately have "source_extent (test_info s) \<le> ts_frame_size s"
    using ok by (simp add: frame_extent_def row_stride_def test_info_def test_ok_def Let_def)
  then show ?thesis using s(1) ok by (simp add: camera_ok_def camera_info_def test_info_def)
next
  case False
  then obtain s where s: "c = V4l2_Camera s" "v4l2_source_create drv (alloc_ok 0 \<and> alloc_ok 1) clock (Some device) w h fps = Some (Inr s)"
    using assms(1) by (auto simp: server_source_def split: option.splits sum.splits)
  then obtain k where "cam_open_steps drv w h fps (cam_init k device clock) = Some (Inr s)"
    by (auto simp: v4l2_source_create_def split: option.splits if_splits sum.splits)
  then have "sized s" using steps_toD(2) [OF open_steps_sized [OF assms(3)]] by blast
  then show ?thesis using s create_ok [OF s(2) assms(2)] by (simp add: camera_ok_def camera_info_def sized_def v4l2_info_def)
qed

end
