(* ===== verification/M2m_Backend.thy ===== *)
theory M2m_Backend
  imports Encoder_Backend Video_Source Fallible_Steps "HOL-Library.Multiset"
begin

text \<open>
  The hardware back end of \<^verbatim>\<open>src/media/encoder_v4l2m2m.c\<close>: a V4L2 memory-to-memory encoder. The
  kernel driver is the argument of the model: a state of its own and one function per request,
  with \<^verbatim>\<open>EINTR\<close> already retried. Two records hold its functions, those of the set-up and those of the
  running queues; what the V4L2 documentation promises of them are the hypotheses \<open>driver_ok\<close> and
  \<open>driver_queue\<close>. The mapped buffers are part of the state of the back end: an input buffer is handed
  to the driver with its contents, an encoded buffer comes from it with its contents.
\<close>

section \<open>The driver\<close>

datatype m2m_format = NV12 | YUV420 | NV12M | YUV420M

datatype m2m_queue = Output_Queue | Capture_Queue

definition M2M_OUTPUT_BUFFERS :: nat where "M2M_OUTPUT_BUFFERS = 6"
definition M2M_CAPTURE_BUFFERS :: nat where "M2M_CAPTURE_BUFFERS = 6"

definition V4L2_CAP_VIDEO_M2M_MPLANE :: u32 where "V4L2_CAP_VIDEO_M2M_MPLANE = 0x4000"
definition V4L2_PIX_FMT_H264 :: u32 where "V4L2_PIX_FMT_H264 = 0x34363248"

text \<open>
  \<open>drv_formats\<close> are the formats the capture queue enumerates, from index 0 on;
  \<open>drv_s_fmt_output\<close> answers with the format the driver settled on; \<open>drv_querybuf\<close> with the lengths
  of the two planes; \<open>drv_mmap\<close> with the mapped memory.
\<close>

record 'k m2m_setup =
  drv_open :: "string \<Rightarrow> 'k option"
  drv_querycap :: "'k \<Rightarrow> (u32 \<times> u32) option"
  drv_formats :: "'k \<Rightarrow> u32 list"
  drv_s_fmt_output :: "'k \<Rightarrow> u32 \<Rightarrow> u32 \<Rightarrow> m2m_format \<Rightarrow> m2m_format option \<times> 'k"
  drv_s_fmt_capture :: "'k \<Rightarrow> bool \<times> 'k"
  drv_s_ext_ctrls :: "'k \<Rightarrow> (nat \<times> int) list \<Rightarrow> 'k"
  drv_reqbufs :: "'k \<Rightarrow> m2m_queue \<Rightarrow> nat \<Rightarrow> nat option \<times> 'k"
  drv_querybuf :: "'k \<Rightarrow> m2m_queue \<Rightarrow> nat \<Rightarrow> (nat \<times> nat) option"
  drv_mmap :: "'k \<Rightarrow> m2m_queue \<Rightarrow> nat \<Rightarrow> nat \<Rightarrow> bytes option"
  drv_streamon :: "'k \<Rightarrow> m2m_queue \<Rightarrow> bool \<times> 'k"

record raw_buffer =
  rb_index :: nat
  rb_data :: bytes
  rb_data_uv :: "bytes option"
  rb_bytesused :: "u32 list"
  rb_tv_sec :: u64
  rb_tv_usec :: u64
  rb_keyframe :: bool

record coded_buffer =
  cb_index :: nat
  cb_bytesused :: nat
  cb_data :: bytes
  cb_keyframe :: bool

record 'k m2m_driver =
  drv_poll_out :: "'k \<Rightarrow> bool \<times> 'k"
  drv_poll_in :: "'k \<Rightarrow> bool \<times> 'k"
  drv_dqbuf_out :: "'k \<Rightarrow> nat option \<times> 'k"
  drv_qbuf_out :: "'k \<Rightarrow> raw_buffer \<Rightarrow> bool \<times> 'k"
  drv_dqbuf_cap :: "'k \<Rightarrow> coded_buffer option \<times> 'k"
  drv_qbuf_cap :: "'k \<Rightarrow> nat \<Rightarrow> bool \<times> 'k"

section \<open>State\<close>

text \<open>
  A buffer is the mapped memory or \<open>None\<close> (not mapped). The trace records what was acquired and
  released of the operating system.
\<close>

datatype m2m_resource = Device | Mapping m2m_queue nat nat

datatype m2m_event = Got m2m_resource | Freed m2m_resource

record 'k m2m_backend =
  m2_kern :: 'k
  m2_width :: u32
  m2_height :: u32
  m2_format :: m2m_format
  m2_multiplanar :: bool
  m2_name :: string
  m2_out :: "bytes option list"
  m2_out_uv :: "bytes option list"
  m2_out_free :: "nat list"
  m2_out_free_count :: nat
  m2_cap :: "bytes option list"
  m2_errors :: nat
  m2_trace :: "m2m_event list"

section \<open>Probing\<close>

text \<open>The enumeration stops at the first H.264 entry or when the driver has no more formats.\<close>

fun enum_h264 :: "u32 list \<Rightarrow> bool" where
  "enum_h264 [] = False"
| "enum_h264 (f # fs) = (if f = V4L2_PIX_FMT_H264 then True else enum_h264 fs)"

definition m2m_probe :: "'k m2m_setup \<Rightarrow> string \<Rightarrow> bool" where
  "m2m_probe st path =
     (case drv_open st path of
        None \<Rightarrow> False
      | Some k \<Rightarrow>
          case drv_querycap st k of
            None \<Rightarrow> False
          | Some (capabilities, device_caps) \<Rightarrow>
              let caps = (if capabilities AND V4L2_CAP_DEVICE_CAPS \<noteq> 0 then device_caps else capabilities)
              in caps AND V4L2_CAP_VIDEO_M2M_MPLANE \<noteq> 0 \<and> enum_h264 (drv_formats st k))"

section \<open>Opening\<close>

text \<open>
  The steps of \<^verbatim>\<open>m2m_open\<close>. A step that ends in \<^verbatim>\<open>goto fail\<close> is \<open>Inl\<close>; one that indexes its buffer array
  out of range is \<open>None\<close>.
\<close>

type_synonym 'k m2m_step = "'k m2m_backend fallible"

definition input_formats :: "m2m_format list" where
  "input_formats = [NV12, YUV420, NV12M, YUV420M]"

fun try_formats :: "'k m2m_setup \<Rightarrow> m2m_format list \<Rightarrow> 'k m2m_step" where
  "try_formats st [] e = Some (Inl e)"
| "try_formats st (f # fs) e =
     (case drv_s_fmt_output st (m2_kern e) (m2_width e) (m2_height e) f of
        (r, k) \<Rightarrow>
          if r = Some f
          then Some (Inr (e\<lparr>m2_kern := k, m2_format := f, m2_multiplanar := (f = NV12M \<or> f = YUV420M)\<rparr>))
          else try_formats st fs (e\<lparr>m2_kern := k\<rparr>))"

definition set_capture_format :: "'k m2m_setup \<Rightarrow> 'k m2m_step" where
  "set_capture_format st e =
     (case drv_s_fmt_capture st (m2_kern e) of
        (ok, k) \<Rightarrow> Some ((if ok then Inr else Inl) (e\<lparr>m2_kern := k\<rparr>)))"

text \<open>Four optional controls, numbered in the order of the code; a rejection is ignored.\<close>

definition m2m_set_controls :: "'k m2m_setup \<Rightarrow> u32 \<Rightarrow> u32 \<Rightarrow> 'k m2m_step" where
  "m2m_set_controls st bitrate_kbps gop_frames e =
     Some (Inr (e\<lparr>m2_kern := drv_s_ext_ctrls st (m2_kern e)
       [(0, 1), (1, sint (bitrate_kbps * 1000)), (2, sint gop_frames), (3, 1)]\<rparr>))"

definition map_plane :: "'k m2m_setup \<Rightarrow> m2m_queue \<Rightarrow> nat \<Rightarrow> nat \<Rightarrow> (bytes option \<Rightarrow> 'k m2m_backend \<Rightarrow> 'k m2m_backend) \<Rightarrow> 'k m2m_step" where
  "map_plane st q i j put e =
     (case drv_mmap st (m2_kern e) q i j of
        None \<Rightarrow> Some (Inl (put None e))
      | Some mem \<Rightarrow> Some (Inr ((put (Some mem) e)\<lparr>m2_trace := m2_trace e @ [Got (Mapping q i j)]\<rparr>)))"

definition map_output :: "'k m2m_setup \<Rightarrow> nat \<Rightarrow> 'k m2m_step" where
  "map_output st i e =
     (case drv_querybuf st (m2_kern e) Output_Queue i of
        None \<Rightarrow> Some (Inl e)
      | Some _ \<Rightarrow>
          if i \<ge> length (m2_out e) then None
          else and_then (map_plane st Output_Queue i 0 (\<lambda>b e. e\<lparr>m2_out := (m2_out e)[i := b]\<rparr>))
                 (\<lambda>e1. if m2_multiplanar e1
                       then map_plane st Output_Queue i 1 (\<lambda>b e. e\<lparr>m2_out_uv := (m2_out_uv e)[i := b]\<rparr>) e1
                       else Some (Inr e1)) e)"

definition map_capture :: "'k m2m_setup \<Rightarrow> 'k m2m_driver \<Rightarrow> nat \<Rightarrow> 'k m2m_step" where
  "map_capture st drv i e =
     (case drv_querybuf st (m2_kern e) Capture_Queue i of
        None \<Rightarrow> Some (Inl e)
      | Some _ \<Rightarrow>
          if i \<ge> length (m2_cap e) then None
          else and_then (map_plane st Capture_Queue i 0 (\<lambda>b e. e\<lparr>m2_cap := (m2_cap e)[i := b]\<rparr>))
                 (\<lambda>e1. case drv_qbuf_cap drv (m2_kern e1) i of
                         (ok, k) \<Rightarrow> Some ((if ok then Inr else Inl) (e1\<lparr>m2_kern := k\<rparr>))) e)"

definition request_buffers :: "'k m2m_setup \<Rightarrow> m2m_queue \<Rightarrow> nat \<Rightarrow> (nat \<Rightarrow> 'k m2m_step) \<Rightarrow> 'k m2m_step" where
  "request_buffers st q wanted next e =
     (case drv_reqbufs st (m2_kern e) q wanted of
        (None, k) \<Rightarrow> Some (Inl (e\<lparr>m2_kern := k\<rparr>))
      | (Some granted, k) \<Rightarrow> if granted < 2 then Some (Inl (e\<lparr>m2_kern := k\<rparr>)) else next granted (e\<lparr>m2_kern := k\<rparr>))"

definition open_output :: "'k m2m_setup \<Rightarrow> nat \<Rightarrow> 'k m2m_step" where
  "open_output st out_count =
     and_then (each_index (map_output st) [0..<out_count])
       (\<lambda>e. Some (Inr (e\<lparr>m2_out_free_count := out_count, m2_out_free := [0..<out_count]\<rparr>)))"

definition stream_on :: "'k m2m_setup \<Rightarrow> m2m_queue \<Rightarrow> 'k m2m_step" where
  "stream_on st q e =
     (case drv_streamon st (m2_kern e) q of (ok, k) \<Rightarrow> Some ((if ok then Inr else Inl) (e\<lparr>m2_kern := k\<rparr>)))"

text \<open>Unmapping skips what is not mapped.\<close>

fun m2m_unmap :: "m2m_queue \<Rightarrow> nat \<Rightarrow> nat \<Rightarrow> bytes option list \<Rightarrow> m2m_event list" where
  "m2m_unmap q j i [] = []"
| "m2m_unmap q j i (b # bs) =
     (case b of None \<Rightarrow> [] | Some _ \<Rightarrow> [Freed (Mapping q i j)]) @ m2m_unmap q j (Suc i) bs"

definition m2m_unmap_all :: "'k m2m_backend \<Rightarrow> m2m_event list" where
  "m2m_unmap_all e = m2m_unmap Output_Queue 0 0 (m2_out e) @ m2m_unmap Output_Queue 1 0 (m2_out_uv e) @
     m2m_unmap Capture_Queue 0 0 (m2_cap e)"

definition m2m_name :: "string \<Rightarrow> m2m_format \<Rightarrow> string" where
  "m2m_name path f = take 63 (''v4l2 m2m '' @ path @ '' ('' @ (if f = NV12M \<or> f = NV12 then ''NV12'' else ''YU12'') @ '' input)'')"

text \<open>
  \<^verbatim>\<open>m2m_open\<close>: the back end with its trace, or the trace of an opening that failed and cleaned up.
  \<^verbatim>\<open>capture_size\<close> is computed by the code and never used, so it is not modelled.
\<close>

definition m2m_init :: "'k \<Rightarrow> u32 \<Rightarrow> u32 \<Rightarrow> 'k m2m_backend" where
  "m2m_init k w h = \<lparr>m2_kern = k, m2_width = w, m2_height = h, m2_format = NV12, m2_multiplanar = False,
     m2_name = [], m2_out = replicate M2M_OUTPUT_BUFFERS None, m2_out_uv = replicate M2M_OUTPUT_BUFFERS None,
     m2_out_free = [], m2_out_free_count = 0, m2_cap = replicate M2M_CAPTURE_BUFFERS None, m2_errors = 0,
     m2_trace = [Got Device]\<rparr>"

definition m2m_open_steps :: "'k m2m_setup \<Rightarrow> 'k m2m_driver \<Rightarrow> string \<Rightarrow> u32 \<Rightarrow> u32 \<Rightarrow> 'k m2m_step" where
  "m2m_open_steps st drv path bitrate_kbps gop_frames =
     and_then (try_formats st input_formats)
       (and_then (set_capture_format st)
       (and_then (m2m_set_controls st bitrate_kbps gop_frames)
       (and_then (request_buffers st Output_Queue M2M_OUTPUT_BUFFERS (open_output st))
       (and_then (request_buffers st Capture_Queue M2M_CAPTURE_BUFFERS
                   (\<lambda>cap_count. each_index (map_capture st drv) [0..<cap_count]))
       (and_then (stream_on st Capture_Queue)
       (and_then (stream_on st Output_Queue)
       (\<lambda>e. Some (Inr (e\<lparr>m2_name := m2m_name path (m2_format e)\<rparr>)))))))))"

definition m2m_open :: "'k m2m_setup \<Rightarrow> 'k m2m_driver \<Rightarrow> bool \<Rightarrow> string \<Rightarrow> u32 \<Rightarrow> u32 \<Rightarrow> u32 \<Rightarrow> u32 \<Rightarrow> u32 \<Rightarrow>
    (m2m_event list + 'k m2m_backend) option" where
  "m2m_open st drv alloc_ok path w h fps bitrate_kbps gop_seconds =
     (if \<not> alloc_ok then Some (Inl [])
      else case drv_open st path of
        None \<Rightarrow> Some (Inl [])
      | Some k \<Rightarrow>
          case m2m_open_steps st drv path bitrate_kbps (fps * gop_seconds) (m2m_init k w h) of
            None \<Rightarrow> None
          | Some (Inl e) \<Rightarrow> Some (Inl (m2_trace e @ m2m_unmap_all e @ [Freed Device]))
          | Some (Inr e) \<Rightarrow> Some (Inr e))"

definition m2m_close :: "'k m2m_backend \<Rightarrow> m2m_event list" where
  "m2m_close e = m2_trace e @ [Freed Device] @ m2m_unmap_all e"

section \<open>Encoding\<close>

definition m2m_acquire_input_buffer :: "'k m2m_driver \<Rightarrow> 'k m2m_backend \<Rightarrow> nat option \<times> 'k m2m_backend" where
  "m2m_acquire_input_buffer drv e =
     (if m2_out_free_count e > 0
      then (Some (m2_out_free e ! (m2_out_free_count e - 1)), e\<lparr>m2_out_free_count := m2_out_free_count e - 1\<rparr>)
      else case drv_poll_out drv (m2_kern e) of
        (ready, k) \<Rightarrow>
          if \<not> ready then (None, e\<lparr>m2_kern := k\<rparr>)
          else case drv_dqbuf_out drv k of (r, k') \<Rightarrow> (r, e\<lparr>m2_kern := k'\<rparr>))"

text \<open>\<^verbatim>\<open>uv[2 * i] = u[i]; uv[2 * i + 1] = v[i]\<close> for the whole chroma plane.\<close>

definition interleave :: "planes \<Rightarrow> nat \<Rightarrow> nat \<Rightarrow> bytes \<Rightarrow> bytes option" where
  "interleave p uv chroma dst =
     foldo (\<lambda>i d. do {
       u \<leftarrow> rd8 (pl_mem p) (pl_u p + i);
       d1 \<leftarrow> wr d (uv + i * 2) [u];
       v \<leftarrow> rd8 (pl_mem p) (pl_v p + i);
       wr d1 (uv + i * 2 + 1) [v]
     }) [0..<chroma] dst"

text \<open>
  \<open>dst_uv\<close> is the second plane of a multi-planar buffer. For \<^verbatim>\<open>YUV420M\<close> the code asks whether the
  \<^emph>\<open>first\<close> plane is long enough before it appends V to the second one.
\<close>

definition m2m_fill_input :: "'k m2m_backend \<Rightarrow> bytes \<Rightarrow> bytes option \<Rightarrow> planes \<Rightarrow> (bytes \<times> bytes option) option" where
  "m2m_fill_input e dst dst_uv p =
     (let luma = unat (m2_width e) * unat (m2_height e);
          chroma = luma div 4;
          nv12 = (m2_format e = NV12M \<or> m2_format e = NV12);
          dst_length = length dst
      in do {
        y \<leftarrow> rdn (pl_mem p) (pl_y p) luma;
        d1 \<leftarrow> wr dst 0 y;
        if m2_multiplanar e then
          do {
            uv \<leftarrow> dst_uv;
            uv' \<leftarrow> (if nv12 then interleave p 0 chroma uv
                    else do {
                      u \<leftarrow> rdn (pl_mem p) (pl_u p) chroma;
                      uv1 \<leftarrow> wr uv 0 u;
                      if dst_length \<ge> chroma * 2
                      then do { v \<leftarrow> rdn (pl_mem p) (pl_v p) chroma; wr uv1 chroma v }
                      else Some uv1
                    });
            Some (d1, Some uv')
          }
        else if nv12 then do { d2 \<leftarrow> interleave p luma chroma d1; Some (d2, dst_uv) }
        else do {
          u \<leftarrow> rdn (pl_mem p) (pl_u p) chroma;
          d2 \<leftarrow> wr d1 luma u;
          v \<leftarrow> rdn (pl_mem p) (pl_v p) chroma;
          d3 \<leftarrow> wr d2 (luma + chroma) v;
          Some (d3, dst_uv)
        }
      })"

definition m2m_bytesused :: "'k m2m_backend \<Rightarrow> bytes \<Rightarrow> u32 list" where
  "m2m_bytesused e dst =
     (if m2_multiplanar e
      then [m2_width e * m2_height e, of_nat (unat (m2_width e) * unat (m2_height e) div 4 * 2)]
      else [of_nat (length dst)])"

text \<open>
  The drain loop: it goes on while the driver has an encoded buffer ready. Whether it ends is up to
  the driver, so it is a partial function. The first result component is the output buffer, then the
  bytes in it and the keyframe flag.
\<close>

type_synonym coded = "bytes \<times> nat \<times> bool"

definition take_coded :: "nat \<Rightarrow> coded_buffer \<Rightarrow> coded \<Rightarrow> coded option" where
  "take_coded out_capacity b c =
     (case c of (out, used, idr) \<Rightarrow>
        if cb_bytesused b > 0 then
          (if used + cb_bytesused b > out_capacity then Some (out, used, idr)
           else do {
             src \<leftarrow> rdn (cb_data b) 0 (cb_bytesused b);
             out' \<leftarrow> wr out used src;
             Some (out', used + cb_bytesused b, idr \<or> cb_keyframe b)
           })
        else Some (out, used, idr))"

partial_function (option) m2m_drain :: "'k m2m_driver \<Rightarrow> nat \<Rightarrow> 'k \<Rightarrow> coded \<Rightarrow> (coded \<times> 'k) option" where
  "m2m_drain drv out_capacity k c =
     (case drv_dqbuf_cap drv k of
        (None, k1) \<Rightarrow> Some (c, k1)
      | (Some b, k1) \<Rightarrow>
          do {
            c' \<leftarrow> take_coded out_capacity b c;
            case drv_qbuf_cap drv k1 (cb_index b) of (ok, k2) \<Rightarrow>
              if \<not> ok then Some (c', k2)
              else case drv_poll_in drv k2 of (ready, k3) \<Rightarrow>
                if \<not> ready then Some (c', k3) else m2m_drain drv out_capacity k3 c'
          })"

definition m2m_submit :: "'k m2m_backend \<Rightarrow> nat \<Rightarrow> planes \<Rightarrow> u64 \<Rightarrow> bool \<Rightarrow> (raw_buffer \<times> 'k m2m_backend) option" where
  "m2m_submit e index p pts_us force_idr =
     do {
       dst \<leftarrow> (if index < length (m2_out e) then m2_out e ! index else None);
       (dst', uv') \<leftarrow> m2m_fill_input e dst (if m2_multiplanar e then m2_out_uv e ! index else None) p;
       Some (\<lparr>rb_index = index, rb_data = dst', rb_data_uv = uv', rb_bytesused = m2m_bytesused e dst',
              rb_tv_sec = pts_us div 1000000, rb_tv_usec = pts_us mod 1000000, rb_keyframe = force_idr\<rparr>,
             e\<lparr>m2_out := (m2_out e)[index := Some dst'],
               m2_out_uv := (if m2_multiplanar e then (m2_out_uv e)[index := uv'] else m2_out_uv e)\<rparr>)
     }"

definition m2m_encode :: "'k m2m_driver \<Rightarrow> 'k m2m_backend encode_fn" where
  "m2m_encode drv e p pts_us force_idr out out_capacity =
     (if m2_errors e > 64 then Some (enc_nothing (- 1) out, e)
      else case m2m_acquire_input_buffer drv e of
        (None, e1) \<Rightarrow> Some (enc_nothing 0 out, e1)
      | (Some index, e1) \<Rightarrow>
          do {
            (buffer, e2) \<leftarrow> m2m_submit e1 index p pts_us force_idr;
            case drv_qbuf_out drv (m2_kern e2) buffer of (queued, k) \<Rightarrow>
              if \<not> queued then Some (enc_nothing 0 out, e2\<lparr>m2_kern := k, m2_errors := m2_errors e2 + 1\<rparr>)
              else case drv_poll_in drv k of (ready, k1) \<Rightarrow>
                if \<not> ready then Some (enc_nothing 0 out, e2\<lparr>m2_kern := k1\<rparr>)
                else do {
                  ((out', used, idr), k2) \<leftarrow> m2m_drain drv out_capacity k1 (out, 0, False);
                  let e3 = e2\<lparr>m2_kern := k2\<rparr>;
                  Some (if used > 0
                        then (\<lparr>enc_rc = 1, enc_out = out', enc_size = used, enc_idr = idr\<rparr>, e3\<lparr>m2_errors := 0\<rparr>)
                        else (\<lparr>enc_rc = 0, enc_out = out', enc_size = 0, enc_idr = idr\<rparr>, e3))
                }
          })"

section \<open>What an encode call relies on\<close>

text \<open>Input buffer \<open>i\<close> is mapped and has room for a picture.\<close>

definition room :: "'k m2m_backend \<Rightarrow> nat \<Rightarrow> bool" where
  "room e i \<longleftrightarrow> (let luma = unat (m2_width e) * unat (m2_height e); chroma = luma div 4 in
     i < length (m2_out e) \<and> (\<exists>d. m2_out e ! i = Some d \<and>
       (if m2_multiplanar e
        then luma \<le> length d \<and> i < length (m2_out_uv e) \<and> (\<exists>uv. m2_out_uv e ! i = Some uv \<and> 2 * chroma \<le> length uv)
        else luma + 2 * chroma \<le> length d)))"

text \<open>
  Of the driver: it hands back indices of buffers it was given, an encoded buffer is not longer than
  its memory, and only finitely many encoded buffers are ready at a time (\<open>pending\<close> counts them).
\<close>

definition drains :: "'k m2m_driver \<Rightarrow> ('k \<Rightarrow> nat) \<Rightarrow> bool" where
  "drains drv pending \<longleftrightarrow>
     (\<forall>k b k'. drv_dqbuf_cap drv k = (Some b, k') \<longrightarrow> pending k' < pending k) \<and>
     (\<forall>k i. pending (snd (drv_qbuf_cap drv k i)) \<le> pending k) \<and>
     (\<forall>k. pending (snd (drv_poll_in drv k)) \<le> pending k)"

definition driver_ok :: "'k m2m_driver \<Rightarrow> bool" where
  "driver_ok drv \<longleftrightarrow> (\<exists>pending. drains drv pending) \<and>
     (\<forall>k b k'. drv_dqbuf_cap drv k = (Some b, k') \<longrightarrow> cb_bytesused b \<le> length (cb_data b))"

definition m2m_invar :: "'k m2m_driver \<Rightarrow> 'k m2m_backend \<Rightarrow> bool" where
  "m2m_invar drv e \<longleftrightarrow> driver_ok drv \<and> (\<forall>i < m2_out_free_count e. room e (m2_out_free e ! i)) \<and>
     (\<forall>k i k'. drv_dqbuf_out drv k = (Some i, k') \<longrightarrow> room e i)"

section \<open>Filling an input buffer\<close>

lemma interleave_spec:
  assumes "pl_u p + n \<le> length (pl_mem p)" "pl_v p + n \<le> length (pl_mem p)" "uv + 2 * n \<le> length d"
  shows "interleave p uv n d =
    Some (put_at d uv (concat (map (\<lambda>i. [pl_mem p ! (pl_u p + i), pl_mem p ! (pl_v p + i)]) [0..<n])))"
  unfolding interleave_def
proof (rule foldo_rows [where n = 2])
  fix i and d' :: bytes assume i: "i < n" "length d' = length d"
  let ?u = "[pl_mem p ! (pl_u p + i)]" and ?v = "[pl_mem p ! (pl_v p + i)]"
  have r: "uv + i * 2 + 1 + 1 \<le> length d'" using assms(3) i by simp
  have a: "rd8 (pl_mem p) (pl_u p + i) = Some (pl_mem p ! (pl_u p + i))"
    "rd8 (pl_mem p) (pl_v p + i) = Some (pl_mem p ! (pl_v p + i))" using assms(1,2) i by simp_all
  have "wr d' (uv + i * 2) ?u = Some (put_at d' (uv + i * 2) ?u)" using r by (intro wr_put_at) simp
  moreover have "wr (put_at d' (uv + i * 2) ?u) (uv + i * 2 + 1) ?v = Some (put_at d' (uv + i * 2) (?u @ ?v))"
    using r put_at_adjacent [of "uv + i * 2" ?u ?v d'] by (subst wr_put_at) simp_all
  ultimately show "do { u \<leftarrow> rd8 (pl_mem p) (pl_u p + i); d1 \<leftarrow> wr d' (uv + i * 2) [u];
      v \<leftarrow> rd8 (pl_mem p) (pl_v p + i); wr d1 (uv + i * 2 + 1) [v] } =
    Some (put_at d' (uv + i * 2) [pl_mem p ! (pl_u p + i), pl_mem p ! (pl_v p + i)])"
    using a by simp
qed (use assms(3) in simp_all)

lemma interleave_length:
  assumes "pl_u p + n \<le> length (pl_mem p)" "pl_v p + n \<le> length (pl_mem p)" "uv + 2 * n \<le> length d"
  shows "\<exists>d'. interleave p uv n d = Some d' \<and> length d' = length d"
proof -
  have "length (concat (map (\<lambda>i. [pl_mem p ! (pl_u p + i), pl_mem p ! (pl_v p + i)]) [0..<n])) = n * 2"
    by (rule length_concat_rows) simp
  then show ?thesis using interleave_spec [OF assms] assms(3) by simp
qed

lemma wr_fits: "i + length xs \<le> length d \<Longrightarrow> \<exists>d'. wr d i xs = Some d' \<and> length d' = length d"
  by (simp add: wr_put_at)

lemma fill_total:
  assumes pic: "picture_in (m2_width e) (m2_height e) p"
    and dst: "if m2_multiplanar e
      then unat (m2_width e) * unat (m2_height e) \<le> length d \<and>
        (\<exists>u. uv = Some u \<and> 2 * (unat (m2_width e) * unat (m2_height e) div 4) \<le> length u)
      else unat (m2_width e) * unat (m2_height e) + 2 * (unat (m2_width e) * unat (m2_height e) div 4) \<le> length d"
  shows "\<exists>d' uv'. m2m_fill_input e d uv p = Some (d', uv') \<and> length d' = length d \<and>
    map_option length uv' = map_option length uv"
proof -
  define luma where "luma = unat (m2_width e) * unat (m2_height e)"
  define chroma where "chroma = luma div 4"
  have P: "pl_y p + luma \<le> length (pl_mem p)" "pl_u p + chroma \<le> length (pl_mem p)"
    "pl_v p + chroma \<le> length (pl_mem p)"
    using pic by (simp_all add: picture_in_def Let_def luma_def chroma_def)
  note defs = m2m_fill_input_def Let_def luma_def [symmetric] chroma_def [symmetric]
  show ?thesis
  proof (cases "m2_multiplanar e")
    case True
    then obtain u where u: "uv = Some u" "luma \<le> length d" "2 * chroma \<le> length u"
      using dst by (auto simp: luma_def chroma_def)
    obtain d1 where d1: "wr d 0 (take luma (drop (pl_y p) (pl_mem p))) = Some d1" "length d1 = length d"
      using wr_fits [of 0 "take luma (drop (pl_y p) (pl_mem p))" d] u P by auto
    show ?thesis
    proof (cases "m2_format e = NV12M \<or> m2_format e = NV12")
      case nv: True
      obtain u' where "interleave p 0 chroma u = Some u'" "length u' = length u"
        using interleave_length [OF P(2,3), of 0 u] u by auto
      then show ?thesis using True nv u d1 P by (simp add: defs)
    next
      case False
      obtain u1 where u1: "wr u 0 (take chroma (drop (pl_u p) (pl_mem p))) = Some u1" "length u1 = length u"
        using wr_fits [of 0 "take chroma (drop (pl_u p) (pl_mem p))" u] u P by auto
      obtain u2 where "wr u1 chroma (take chroma (drop (pl_v p) (pl_mem p))) = Some u2" "length u2 = length u1"
        using wr_fits [of chroma "take chroma (drop (pl_v p) (pl_mem p))" u1] u u1 P by auto
      then show ?thesis using True False u d1 u1 P by (simp add: defs)
    qed
  next
    case False
    then have room: "luma + 2 * chroma \<le> length d" using dst by (simp add: luma_def chroma_def)
    obtain d1 where d1: "wr d 0 (take luma (drop (pl_y p) (pl_mem p))) = Some d1" "length d1 = length d"
      using wr_fits [of 0 "take luma (drop (pl_y p) (pl_mem p))" d] room P by auto
    show ?thesis
    proof (cases "m2_format e = NV12M \<or> m2_format e = NV12")
      case nv: True
      obtain d2 where "interleave p luma chroma d1 = Some d2" "length d2 = length d1"
        using interleave_length [OF P(2,3), of luma d1] room d1 by auto
      then show ?thesis using False nv d1 P by (simp add: defs)
    next
      case nv: False
      obtain d2 where d2: "wr d1 luma (take chroma (drop (pl_u p) (pl_mem p))) = Some d2" "length d2 = length d1"
        using wr_fits [of luma "take chroma (drop (pl_u p) (pl_mem p))" d1] room d1 P by auto
      obtain d3 where "wr d2 (luma + chroma) (take chroma (drop (pl_v p) (pl_mem p))) = Some d3" "length d3 = length d2"
        using wr_fits [of "luma + chroma" "take chroma (drop (pl_v p) (pl_mem p))" d2] room d1 d2 P by auto
      then show ?thesis using False nv d1 d2 P by (simp add: defs)
    qed
  qed
qed

section \<open>An encode call\<close>

text \<open>Two back ends that agree on everything \<open>room\<close> looks at.\<close>

definition same_room :: "'k m2m_backend \<Rightarrow> 'k m2m_backend \<Rightarrow> bool" where
  "same_room e e' \<longleftrightarrow> m2_width e' = m2_width e \<and> m2_height e' = m2_height e \<and> (\<forall>i. room e' i = room e i)"

lemma room_upd [simp]:
  "room (e\<lparr>m2_kern := k\<rparr>) i = room e i" "room (e\<lparr>m2_errors := n\<rparr>) i = room e i"
  "room (e\<lparr>m2_out_free_count := n\<rparr>) i = room e i"
  by (simp_all add: room_def)

lemma submit_total:
  assumes r: "room e i" and pic: "picture_in (m2_width e) (m2_height e) p"
  shows "\<exists>b e'. m2m_submit e i p pts force = Some (b, e') \<and> same_room e e' \<and> m2_kern e' = m2_kern e \<and>
    m2_errors e' = m2_errors e \<and> m2_out_free_count e' = m2_out_free_count e \<and> m2_out_free e' = m2_out_free e"
proof -
  define uv where "uv = (if m2_multiplanar e then m2_out_uv e ! i else None)"
  obtain d where d: "i < length (m2_out e)" "m2_out e ! i = Some d"
    "if m2_multiplanar e then unat (m2_width e) * unat (m2_height e) \<le> length d \<and>
        (\<exists>u. uv = Some u \<and> 2 * (unat (m2_width e) * unat (m2_height e) div 4) \<le> length u)
      else unat (m2_width e) * unat (m2_height e) + 2 * (unat (m2_width e) * unat (m2_height e) div 4) \<le> length d"
    using r by (auto simp: room_def Let_def uv_def split: if_splits)
  obtain d' uv' where f: "m2m_fill_input e d uv p = Some (d', uv')" "length d' = length d"
    "map_option length uv' = map_option length uv"
    using fill_total [OF pic d(3)] by blast
  let ?e = "e\<lparr>m2_out := (m2_out e)[i := Some d'],
      m2_out_uv := (if m2_multiplanar e then (m2_out_uv e)[i := uv'] else m2_out_uv e)\<rparr>"
  have "room ?e j = room e j" for j
  proof (cases "j = i")
    case True
    have "(\<exists>u. uv' = Some u \<and> n \<le> length u) = (\<exists>u. uv = Some u \<and> n \<le> length u)" for n
      using f(3) by (cases uv; cases uv') auto
    then show ?thesis using True d(1,2) f(2)
      by (cases "i < length (m2_out_uv e)") (auto simp: room_def Let_def uv_def)
  next
    case False
    then show ?thesis by (simp add: room_def)
  qed
  then have "same_room e ?e" by (simp add: same_room_def)
  then show ?thesis using d(1,2) f(1) by (simp add: m2m_submit_def uv_def)
qed

lemma take_coded_total:
  assumes "cb_bytesused b \<le> length (cb_data b)" "cap \<le> length out" "used \<le> cap"
  shows "\<exists>out' used' idr'. take_coded cap b (out, used, idr) = Some (out', used', idr') \<and>
    length out' = length out \<and> used' \<le> cap"
proof (cases "0 < cb_bytesused b \<and> used + cb_bytesused b \<le> cap")
  case True
  then obtain out' where "wr out used (take (cb_bytesused b) (cb_data b)) = Some out'" "length out' = length out"
    using wr_fits [of used "take (cb_bytesused b) (cb_data b)" out] assms by auto
  then show ?thesis using True assms by (simp add: take_coded_def)
next
  case False
  then have "take_coded cap b (out, used, idr) = Some (out, used, idr)"
    by (auto simp: take_coded_def)
  then show ?thesis using assms(3) by simp
qed

lemma drain_total:
  assumes "drains drv pending" and "\<forall>k b k'. drv_dqbuf_cap drv k = (Some b, k') \<longrightarrow> cb_bytesused b \<le> length (cb_data b)"
    and "cap \<le> length out" and "used \<le> cap"
  shows "\<exists>out' used' idr' k'. m2m_drain drv cap k (out, used, idr) = Some ((out', used', idr'), k') \<and>
    length out' = length out \<and> used' \<le> cap"
  using assms(3,4)
proof (induction "pending k" arbitrary: k out used idr rule: less_induct)
  case less
  obtain r k1 where r: "drv_dqbuf_cap drv k = (r, k1)" by fastforce
  show ?case
  proof (cases r)
    case None
    then show ?thesis using r less.prems by (subst m2m_drain.simps) simp
  next
    case (Some b)
    have b: "cb_bytesused b \<le> length (cb_data b)" using assms(2) r Some by blast
    obtain out1 used1 idr1 where c: "take_coded cap b (out, used, idr) = Some (out1, used1, idr1)"
      "length out1 = length out" "used1 \<le> cap"
      using take_coded_total [OF b less.prems] by blast
    obtain ok k2 where q: "drv_qbuf_cap drv k1 (cb_index b) = (ok, k2)" by fastforce
    obtain ready k3 where p: "drv_poll_in drv k2 = (ready, k3)" by fastforce
    have "pending k1 < pending k" "pending k2 \<le> pending k1" "pending k3 \<le> pending k2"
      using assms(1) r Some q p unfolding drains_def by (blast, (metis snd_conv)+)
    then have "\<exists>out' used' idr' k'. m2m_drain drv cap k3 (out1, used1, idr1) = Some ((out', used', idr'), k') \<and>
        length out' = length out1 \<and> used' \<le> cap"
      by (intro less.hyps) (use less.prems c in auto)
    then show ?thesis using r Some c q p by (subst m2m_drain.simps) auto
  qed
qed

lemma acquire_room:
  assumes "m2m_invar drv e" "m2m_acquire_input_buffer drv e = (r, e')"
  shows "m2m_invar drv e'" "same_room e e'" "\<And>i. r = Some i \<Longrightarrow> room e' i"
  using assms unfolding m2m_acquire_input_buffer_def m2m_invar_def same_room_def
  by (auto split: if_splits prod.splits) blast+

text \<open>An encode call, case by case: what it needs, and what it leaves.\<close>

lemma m2m_encode_spec:
  assumes inv: "m2m_invar drv e" and cap: "cap \<le> length out" and pic: "picture_in (m2_width e) (m2_height e) p"
  shows "\<exists>r e'. m2m_encode drv e p pts force out cap = Some (r, e') \<and> m2m_invar drv e' \<and>
    m2_width e' = m2_width e \<and> m2_height e' = m2_height e \<and>
    enc_rc r \<in> {- 1, 0, 1} \<and> length (enc_out r) = length out \<and> (enc_rc r = 1 \<longrightarrow> 0 < enc_size r \<and> enc_size r \<le> cap)"
proof -
  obtain i e1 where a: "m2m_acquire_input_buffer drv e = (i, e1)" by fastforce
  note A = acquire_room [OF inv a]
  have dim: "m2_width e1 = m2_width e" "m2_height e1 = m2_height e" using A(2) by (simp_all add: same_room_def)
  consider "m2_errors e > 64" | "\<not> m2_errors e > 64" "i = None" | j where "\<not> m2_errors e > 64" "i = Some j" by auto
  then show ?thesis
  proof cases
    case 1
    then show ?thesis using inv by (simp add: m2m_encode_def enc_nothing_def)
  next
    case 2
    then show ?thesis using A a dim by (simp add: m2m_encode_def enc_nothing_def)
  next
    case 3
    obtain b e2 where s: "m2m_submit e1 j p pts force = Some (b, e2)" "same_room e1 e2" "m2_kern e2 = m2_kern e1"
      "m2_errors e2 = m2_errors e1" "m2_out_free_count e2 = m2_out_free_count e1" "m2_out_free e2 = m2_out_free e1"
      using submit_total [OF A(3) [OF 3(2)], of p pts force] pic dim by auto
    have inv2: "m2m_invar drv (e2\<lparr>m2_kern := k, m2_errors := n\<rparr>)" for k n
      using A(1) s by (simp add: m2m_invar_def same_room_def)
    have inv2': "m2m_invar drv (e2\<lparr>m2_kern := k\<rparr>)" for k using inv2 [where k = k and n = "m2_errors e2"] by simp
    have dim2: "m2_width e2 = m2_width e" "m2_height e2 = m2_height e" using s(2) dim by (simp_all add: same_room_def)
    obtain queued k where q: "drv_qbuf_out drv (m2_kern e2) b = (queued, k)" by fastforce
    obtain ready k1 where po: "drv_poll_in drv k = (ready, k1)" by fastforce
    obtain pending where "drains drv pending" "\<forall>k b k'. drv_dqbuf_cap drv k = (Some b, k') \<longrightarrow> cb_bytesused b \<le> length (cb_data b)"
      using inv by (auto simp: m2m_invar_def driver_ok_def)
    then obtain out' used idr k2 where dr: "m2m_drain drv cap k1 (out, 0, False) = Some ((out', used, idr), k2)"
      "length out' = length out" "used \<le> cap"
      using drain_total [of drv pending cap out 0 k1 False] cap by auto
    show ?thesis
      using 3 a s(1) q po dr inv2 inv2' dim2
      by (cases "used = 0") (auto simp: m2m_encode_def enc_nothing_def Let_def)
  qed
qed

interpretation m2m: encoder_backend "m2m_encode drv" "m2m_invar drv" "\<lambda>e. (m2_width e, m2_height e)"
  for drv :: "'k m2m_driver"
  by unfold_locales (use m2m_encode_spec in fastforce)

section \<open>Input buffers are never lost twice\<close>

text \<open>
  \<open>queued\<close> is the number of raw buffers the driver holds: queueing adds one, dequeueing takes one
  away, and nothing else changes it. A buffer whose \<^verbatim>\<open>VIDIOC_QBUF\<close> fails is neither queued nor put back
  on the free list, so every error costs one of the buffers for good.
\<close>

definition driver_queue :: "'k m2m_driver \<Rightarrow> ('k \<Rightarrow> nat) \<Rightarrow> bool" where
  "driver_queue drv queued \<longleftrightarrow>
     (\<forall>k. queued (snd (drv_poll_out drv k)) = queued k \<and> queued (snd (drv_poll_in drv k)) = queued k \<and>
        queued (snd (drv_dqbuf_cap drv k)) = queued k) \<and>
     (\<forall>k i. queued (snd (drv_qbuf_cap drv k i)) = queued k) \<and>
     (\<forall>k r k'. drv_dqbuf_out drv k = (r, k') \<longrightarrow> queued k = queued k' + (if r = None then 0 else 1)) \<and>
     (\<forall>k b r k'. drv_qbuf_out drv k b = (r, k') \<longrightarrow> queued k' = queued k + (if r then 1 else 0))"

definition buffers_left :: "('k \<Rightarrow> nat) \<Rightarrow> 'k m2m_backend \<Rightarrow> nat" where
  "buffers_left queued e = m2_out_free_count e + queued (m2_kern e)"


lemma drain_queued:
  assumes "m2m_drain drv cap k c = Some r"
  shows "driver_queue drv queued \<longrightarrow> queued (snd r) = queued k"
proof (rule m2m_drain.raw_induct [where P = "\<lambda>drv cap k c r. driver_queue drv queued \<longrightarrow> queued (snd r) = queued k",
      OF _ assms], intro impI)
  fix drain :: "'a m2m_driver \<Rightarrow> nat \<Rightarrow> 'a \<Rightarrow> coded \<Rightarrow> (coded \<times> 'a) option" and drv cap k c r
  assume IH: "\<And>drv cap k c r. drain drv cap k c = Some r \<Longrightarrow> driver_queue drv queued \<longrightarrow> queued (snd r) = queued k"
    and run: "(case drv_dqbuf_cap drv k of
        (None, k1) \<Rightarrow> Some (c, k1)
      | (Some b, k1) \<Rightarrow>
          do {
            c' \<leftarrow> take_coded cap b c;
            case drv_qbuf_cap drv k1 (cb_index b) of (ok, k2) \<Rightarrow>
              if \<not> ok then Some (c', k2)
              else case drv_poll_in drv k2 of (ready, k3) \<Rightarrow>
                if \<not> ready then Some (c', k3) else drain drv cap k3 c'
          }) = Some r"
    and q: "driver_queue drv queued"
  obtain b k1 where b: "drv_dqbuf_cap drv k = (b, k1)" by fastforce
  have k1: "queued k1 = queued k" using q b unfolding driver_queue_def by (metis snd_conv)
  show "queued (snd r) = queued k"
  proof (cases b)
    case None
    then show ?thesis using run b k1 by auto
  next
    case (Some b')
    obtain ok k2 where k2: "drv_qbuf_cap drv k1 (cb_index b') = (ok, k2)" by fastforce
    obtain ready k3 where k3: "drv_poll_in drv k2 = (ready, k3)" by fastforce
    have "queued k2 = queued k1" "queued k3 = queued k2"
      using q k2 k3 unfolding driver_queue_def by (metis snd_conv)+
    moreover have "queued (snd r) = queued k3" if "drain drv cap k3 c' = Some r" for c'
      using IH [OF that] q by simp
    ultimately show ?thesis
      using run b Some k1 k2 k3 by (simp add: Option.bind_eq_Some_conv split: if_splits) auto
  qed
qed

lemma submit_frame:
  "m2m_submit e i p pts force = Some (b, e') \<Longrightarrow> m2_kern e' = m2_kern e \<and> m2_errors e' = m2_errors e \<and>
     m2_out_free_count e' = m2_out_free_count e"
  by (auto simp: m2m_submit_def Option.bind_eq_Some_conv split: prod.splits)

lemma acquire_left:
  assumes q: "driver_queue drv queued" and a: "m2m_acquire_input_buffer drv e = (r, e')"
  shows "m2_errors e' = m2_errors e"
    "buffers_left queued e = buffers_left queued e' + (if r = None then 0 else 1)"
proof -
  show "m2_errors e' = m2_errors e"
    using a by (auto simp: m2m_acquire_input_buffer_def split: if_splits prod.splits)
  show "buffers_left queued e = buffers_left queued e' + (if r = None then 0 else 1)"
  proof (cases "m2_out_free_count e")
    case 0
    obtain ready k where po: "drv_poll_out drv (m2_kern e) = (ready, k)" by fastforce
    obtain r' k' where d: "drv_dqbuf_out drv k = (r', k')" by fastforce
    have "queued k = queued (m2_kern e)" using q po unfolding driver_queue_def by (metis snd_conv)
    moreover have "queued k = queued k' + (if r' = None then 0 else 1)" using q d unfolding driver_queue_def by blast
    ultimately show ?thesis
      using 0 a po d by (auto simp: m2m_acquire_input_buffer_def buffers_left_def split: if_splits)
  qed (use a in \<open>auto simp: m2m_acquire_input_buffer_def buffers_left_def\<close>)
qed

text \<open>Every call: errors either go up by one with a buffer lost, or are unchanged, or are reset.\<close>

lemma m2m_encode_buffers:
  assumes q: "driver_queue drv queued" and run: "m2m_encode drv e p pts force out cap = Some (r, e')"
  shows "buffers_left queued e' + m2_errors e' \<le> buffers_left queued e + m2_errors e \<and>
    buffers_left queued e' \<le> buffers_left queued e \<and>
    (enc_rc r = - 1 \<longrightarrow> 64 < m2_errors e) \<and> (enc_rc r = 1 \<longrightarrow> 0 < buffers_left queued e) \<and>
    enc_rc r \<in> {- 1, 0, 1}"
proof (cases "m2_errors e > 64")
  case True
  then show ?thesis using run by (auto simp: m2m_encode_def enc_nothing_def)
next
  case False
  obtain i e1 where a: "m2m_acquire_input_buffer drv e = (i, e1)" by fastforce
  note A = acquire_left [OF q a]
  show ?thesis
  proof (cases i)
    case None
    then show ?thesis using run False a A by (auto simp: m2m_encode_def enc_nothing_def)
  next
    case (Some j)
    then obtain b e2 where s: "m2m_submit e1 j p pts force = Some (b, e2)"
      using run False a by (auto simp: m2m_encode_def Option.bind_eq_Some_conv)
    note S = submit_frame [OF s]
    obtain ok k where qb: "drv_qbuf_out drv (m2_kern e2) b = (ok, k)" by fastforce
    obtain ready k1 where po: "drv_poll_in drv k = (ready, k1)" by fastforce
    have Q: "queued k = queued (m2_kern e1) + (if ok then 1 else 0)" "queued k1 = queued k"
      using q qb po S unfolding driver_queue_def by (metis, metis snd_conv)
    have D: "queued k2 = queued k1" if "m2m_drain drv cap k1 c = Some (c', k2)" for c c' k2
      using drain_queued [OF that] q by simp
    have run2: "(if \<not> ok then Some (enc_nothing 0 out, e2\<lparr>m2_kern := k, m2_errors := m2_errors e2 + 1\<rparr>)
        else if \<not> ready then Some (enc_nothing 0 out, e2\<lparr>m2_kern := k1\<rparr>)
        else do { ((out', used, idr), k2) \<leftarrow> m2m_drain drv cap k1 (out, 0, False);
          let e3 = e2\<lparr>m2_kern := k2\<rparr>;
          Some (if used > 0
            then (\<lparr>enc_rc = 1, enc_out = out', enc_size = used, enc_idr = idr\<rparr>, e3\<lparr>m2_errors := 0\<rparr>)
            else (\<lparr>enc_rc = 0, enc_out = out', enc_size = 0, enc_idr = idr\<rparr>, e3)) }) = Some (r, e')"
      using run False a Some s qb po by (cases ok; cases ready) (simp_all add: m2m_encode_def)
    have left: "buffers_left queued e = Suc (m2_out_free_count e1 + queued (m2_kern e1))"
      using A(2) Some by (simp add: buffers_left_def)
    consider "\<not> ok" | "ok" "\<not> ready" | "ok" "ready" by blast
    then show ?thesis
    proof cases
      case 3
      then obtain out' used idr k2 where d: "m2m_drain drv cap k1 (out, 0, False) = Some ((out', used, idr), k2)"
        using run2 by (auto simp: Option.bind_eq_Some_conv)
      show ?thesis
      proof (cases "used = 0")
        case True
        then show ?thesis using 3 run2 d D [OF d] Q S A(1) left by (auto simp: buffers_left_def)
      next
        case False
        then show ?thesis using 3 run2 d D [OF d] Q S A(1) left by (auto simp: buffers_left_def)
      qed
    qed (use run2 Q S A(1) left in \<open>auto simp: buffers_left_def enc_nothing_def\<close>)
  qed
qed

section \<open>What opening acquires and releases\<close>

text \<open>
  While the back end is being opened, what the trace acquired is exactly the device and the mappings
  the buffer arrays hold. \<open>freed_of\<close> turns an acquisition into its release.
\<close>

fun freed_of :: "m2m_event \<Rightarrow> m2m_event" where
  "freed_of (Got r) = Freed r"
| "freed_of (Freed r) = Freed r"

definition traced :: "'k m2m_backend \<Rightarrow> bool" where
  "traced e \<longleftrightarrow> (\<forall>r. Freed r \<notin> set (m2_trace e)) \<and>
     image_mset freed_of (mset (m2_trace e)) = mset (Freed Device # m2m_unmap_all e) \<and>
     length (m2_out e) = M2M_OUTPUT_BUFFERS \<and> length (m2_out_uv e) = M2M_OUTPUT_BUFFERS \<and>
     length (m2_cap e) = M2M_CAPTURE_BUFFERS"

lemma unmap_append: "m2m_unmap q j i (xs @ ys) = m2m_unmap q j i xs @ m2m_unmap q j (i + length xs) ys"
  by (induction xs arbitrary: i) auto

lemma unmap_update:
  assumes "k < length bs" "bs ! k = None"
  shows "mset (m2m_unmap q j 0 (bs[k := Some m])) = mset (m2m_unmap q j 0 bs) + {#Freed (Mapping q k j)#}"
    and "m2m_unmap q j 0 (bs[k := None]) = m2m_unmap q j 0 bs"
proof -
  have u: "bs[k := x] = take k bs @ x # drop (Suc k) bs" for x using assms(1) by (rule upd_conv_take_nth_drop)
  show 2: "m2m_unmap q j 0 (bs[k := None]) = m2m_unmap q j 0 bs" using assms by (metis list_update_id)
  have "mset (m2m_unmap q j 0 (bs[k := Some m])) = mset (m2m_unmap q j 0 (bs[k := None])) + {#Freed (Mapping q k j)#}"
    unfolding u using assms(1) by (simp add: unmap_append min_def)
  then show "mset (m2m_unmap q j 0 (bs[k := Some m])) = mset (m2m_unmap q j 0 bs) + {#Freed (Mapping q k j)#}"
    by (simp only: 2)
qed

lemma unmap_None: "m2m_unmap q j i (replicate n None) = []"
  by (induction n arbitrary: i) auto

lemma init_traced: "traced (m2m_init k w h)"
  by (simp add: traced_def m2m_init_def m2m_unmap_all_def unmap_None)

text \<open>A step that fails does so in a state with a faithful trace.\<close>

abbreviation stepped :: "('k m2m_backend \<Rightarrow> bool) \<Rightarrow> 'k m2m_step \<Rightarrow> ('k m2m_backend \<Rightarrow> bool) \<Rightarrow> bool" where
  "stepped \<equiv> steps_to traced"

text \<open>Slots of the three arrays from some index on that are not mapped yet.\<close>

definition unmapped :: "nat \<Rightarrow> nat \<Rightarrow> 'k m2m_backend \<Rightarrow> bool" where
  "unmapped i c e \<longleftrightarrow> traced e \<and> m2_errors e = 0 \<and>
     (\<forall>j < M2M_OUTPUT_BUFFERS. i \<le> j \<longrightarrow> m2_out e ! j = None \<and> m2_out_uv e ! j = None) \<and>
     (\<forall>j < M2M_CAPTURE_BUFFERS. c \<le> j \<longrightarrow> m2_cap e ! j = None)"

lemma traced_upd [simp]:
  "traced (e\<lparr>m2_kern := k\<rparr>) = traced e" "traced (e\<lparr>m2_format := f\<rparr>) = traced e"
  "traced (e\<lparr>m2_multiplanar := b\<rparr>) = traced e" "traced (e\<lparr>m2_name := s\<rparr>) = traced e"
  "traced (e\<lparr>m2_out_free := xs\<rparr>) = traced e" "traced (e\<lparr>m2_out_free_count := n\<rparr>) = traced e"
  by (simp_all add: traced_def m2m_unmap_all_def)

lemma unmapped_upd [simp]:
  "unmapped i c (e\<lparr>m2_kern := k\<rparr>) = unmapped i c e" "unmapped i c (e\<lparr>m2_format := f\<rparr>) = unmapped i c e"
  "unmapped i c (e\<lparr>m2_multiplanar := b\<rparr>) = unmapped i c e" "unmapped i c (e\<lparr>m2_name := s\<rparr>) = unmapped i c e"
  "unmapped i c (e\<lparr>m2_out_free := xs\<rparr>) = unmapped i c e" "unmapped i c (e\<lparr>m2_out_free_count := n\<rparr>) = unmapped i c e"
  by (simp_all add: unmapped_def)

lemma map_plane_step:
  assumes put: "\<And>b e. P e \<Longrightarrow> length (m2_out (put b e)) = M2M_OUTPUT_BUFFERS \<and>
      length (m2_out_uv (put b e)) = M2M_OUTPUT_BUFFERS \<and> length (m2_cap (put b e)) = M2M_CAPTURE_BUFFERS \<and>
      m2_trace (put b e) = m2_trace e"
    and maps: "\<And>m e. P e \<Longrightarrow> mset (m2m_unmap_all (put (Some m) e)) = mset (m2m_unmap_all e) + {#Freed (Mapping q i j)#}"
      "\<And>e. P e \<Longrightarrow> m2m_unmap_all (put None e) = m2m_unmap_all e"
    and P: "\<And>e. P e \<Longrightarrow> traced e"
    and Q: "\<And>e m tr. P e \<Longrightarrow> traced ((put (Some m) e)\<lparr>m2_trace := tr\<rparr>) \<Longrightarrow> Q ((put (Some m) e)\<lparr>m2_trace := tr\<rparr>)"
  shows "stepped P (map_plane st q i j put) Q"
proof (rule steps_toI)
  have U: "m2m_unmap_all (e\<lparr>m2_trace := tr\<rparr>) = m2m_unmap_all e" for e :: "'a m2m_backend" and tr
    by (simp add: m2m_unmap_all_def)
  fix e e' assume e: "P e"
  show "traced e'" if "map_plane st q i j put e = Some (Inl e')"
    using that P [OF e] put [OF e, of None] maps(2) [OF e]
    by (auto simp: map_plane_def traced_def split: option.splits)
  show "Q e'" if run: "map_plane st q i j put e = Some (Inr e')"
  proof -
    obtain m where m: "e' = (put (Some m) e)\<lparr>m2_trace := m2_trace e @ [Got (Mapping q i j)]\<rparr>"
      using run by (auto simp: map_plane_def split: option.splits)
    have "traced e'"
      using P [OF e] put [OF e, of "Some m"] maps(1) [OF e, of m] unfolding m by (simp add: traced_def U)
    then show ?thesis using Q [OF e] unfolding m by simp
  qed
qed

lemma traced_lengths: "traced e \<Longrightarrow> length (m2_out e) = M2M_OUTPUT_BUFFERS \<and>
    length (m2_out_uv e) = M2M_OUTPUT_BUFFERS \<and> length (m2_cap e) = M2M_CAPTURE_BUFFERS"
  by (simp add: traced_def)

text \<open>Mapping one input buffer: first its first plane, then, for a multi-planar format, its second.\<close>

lemma map_output_step: "stepped (unmapped i c) (map_output st i) (unmapped (Suc i) c)"
proof (cases "i < M2M_OUTPUT_BUFFERS")
  case i: True
  define R where "R e \<longleftrightarrow> unmapped (Suc i) c e \<and> m2_out_uv e ! i = None" for e :: "'a m2m_backend"
  have one: "stepped (unmapped i c) (map_plane st Output_Queue i 0 (\<lambda>b e. e\<lparr>m2_out := (m2_out e)[i := b]\<rparr>)) R"
    by (rule map_plane_step)
      (use i unmap_update [of i] in \<open>auto simp: unmapped_def traced_def m2m_unmap_all_def R_def nth_list_update\<close>)
  have two: "stepped R (map_plane st Output_Queue i 1 (\<lambda>b e. e\<lparr>m2_out_uv := (m2_out_uv e)[i := b]\<rparr>)) (unmapped (Suc i) c)"
    by (rule map_plane_step)
      (use i unmap_update [of i] in \<open>auto simp: unmapped_def traced_def m2m_unmap_all_def R_def nth_list_update\<close>)
  have "stepped R (\<lambda>e1. if m2_multiplanar e1
      then map_plane st Output_Queue i 1 (\<lambda>b e. e\<lparr>m2_out_uv := (m2_out_uv e)[i := b]\<rparr>) e1 else Some (Inr e1)) (unmapped (Suc i) c)"
    using two by (auto simp: steps_to_def R_def)
  from steps_to_then [OF one this] show ?thesis
    using i by (auto simp: steps_to_def map_output_def unmapped_def traced_def split: option.split)
qed (auto simp: steps_to_def map_output_def unmapped_def traced_def split: option.split)

lemma map_capture_step: "stepped (unmapped i c) (map_capture st drv c) (unmapped i (Suc c))"
proof (cases "c < M2M_CAPTURE_BUFFERS")
  case c: True
  have one: "stepped (unmapped i c) (map_plane st Capture_Queue c 0 (\<lambda>b e. e\<lparr>m2_cap := (m2_cap e)[c := b]\<rparr>)) (unmapped i (Suc c))"
    by (rule map_plane_step)
      (use c unmap_update [of c] in \<open>auto simp: unmapped_def traced_def m2m_unmap_all_def nth_list_update\<close>)
  have "stepped (unmapped i (Suc c)) (\<lambda>e1. case drv_qbuf_cap drv (m2_kern e1) c of
      (ok, k) \<Rightarrow> Some ((if ok then Inr else Inl) (e1\<lparr>m2_kern := k\<rparr>))) (unmapped i (Suc c))"
    by (auto simp: steps_to_def split: prod.split) (simp add: unmapped_def)
  from steps_to_then [OF one this] show ?thesis
    using c by (auto simp: steps_to_def map_capture_def unmapped_def traced_def split: option.split)
qed (auto simp: steps_to_def map_capture_def unmapped_def traced_def split: option.split)

lemma kern_step: "(\<And>e. f e = (let r = g (m2_kern e) in Some ((if fst r then Inr else Inl) (e\<lparr>m2_kern := snd r\<rparr>)))) \<Longrightarrow>
    stepped (unmapped i c) f (unmapped i c)"
  by (auto simp: steps_to_def Let_def) (simp add: unmapped_def)

lemma try_formats_step: "stepped (unmapped i c) (try_formats st fs) (unmapped i c)"
proof (induction fs)
  case (Cons f fs)
  show ?case
  proof (rule steps_toI)
    fix e e' :: "'a m2m_backend" assume e: "unmapped i c e"
    obtain r k where r: "drv_s_fmt_output st (m2_kern e) (m2_width e) (m2_height e) f = (r, k)" by fastforce
    have e1: "unmapped i c (e\<lparr>m2_kern := k\<rparr>)" using e by simp
    show "traced e'" if "try_formats st (f # fs) e = Some (Inl e')"
      using that r steps_toD(1) [OF Cons e1] by (auto split: if_splits)
    show "unmapped i c e'" if "try_formats st (f # fs) e = Some (Inr e')"
      using that r steps_toD(2) [OF Cons e1] e by (auto split: if_splits)
  qed
qed (auto simp: steps_to_def unmapped_def)

lemma request_step:
  assumes "\<And>n. stepped (unmapped i c) (next n) Q"
  shows "stepped (unmapped i c) (request_buffers st q wanted next) Q"
proof (rule steps_toI)
  fix e e' :: "'a m2m_backend" assume e: "unmapped i c e"
  obtain r k where r: "drv_reqbufs st (m2_kern e) q wanted = (r, k)" by fastforce
  have e1: "unmapped i c (e\<lparr>m2_kern := k\<rparr>)" "traced (e\<lparr>m2_kern := k\<rparr>)" using e by (simp_all add: unmapped_def)
  show "traced e'" if "request_buffers st q wanted next e = Some (Inl e')"
    using that r e1 steps_toD(1) [OF assms e1(1)] by (auto simp: request_buffers_def split: option.splits if_splits)
  show "Q e'" if "request_buffers st q wanted next e = Some (Inr e')"
    using that r steps_toD(2) [OF assms e1(1)] by (auto simp: request_buffers_def split: option.splits if_splits)
qed

lemma open_steps: "stepped (unmapped 0 0) (m2m_open_steps st drv path bitrate gop) (\<lambda>e. traced e \<and> m2_errors e = 0)"
proof -
  let ?P = "\<lambda>e :: 'a m2m_backend. \<exists>n. unmapped n 0 e" and ?Q = "\<lambda>e :: 'a m2m_backend. \<exists>n c. unmapped n c e"
  have out: "stepped (unmapped 0 0) (open_output st n) ?P" for n
    unfolding open_output_def
    by (rule steps_to_then [OF steps_to_each [where I = "\<lambda>i. unmapped i 0", OF map_output_step]])
      (auto simp: steps_to_def)
  have cap: "stepped (unmapped m 0) (request_buffers st Capture_Queue M2M_CAPTURE_BUFFERS
      (\<lambda>cap_count. each_index (map_capture st drv) [0..<cap_count])) ?Q" for m
  proof (rule request_step)
    fix n
    have "stepped (unmapped m 0) (each_index (map_capture st drv) [0..<n]) (unmapped m n)"
      by (rule steps_to_each [where I = "\<lambda>c. unmapped m c", OF map_capture_step]) simp
    then show "stepped (unmapped m 0) (each_index (map_capture st drv) [0..<n]) ?Q"
      by (rule steps_to_mono) blast
  qed
  have cap': "stepped ?P (request_buffers st Capture_Queue M2M_CAPTURE_BUFFERS
      (\<lambda>cap_count. each_index (map_capture st drv) [0..<cap_count])) ?Q"
    by (rule steps_to_ex) (rule cap)
  have on: "stepped ?Q (stream_on st q) ?Q" for q
  proof -
    have "stepped (unmapped n c) (stream_on st q) (unmapped n c)" for n c
      by (rule kern_step [where g = "\<lambda>k. drv_streamon st k q"]) (simp add: stream_on_def split_beta Let_def)
    then have "stepped (unmapped n c) (stream_on st q) ?Q" for n c by (rule steps_to_mono) blast
    then show ?thesis by (intro steps_to_ex)
  qed
  have fmt: "stepped (unmapped 0 0) (set_capture_format st) (unmapped 0 0)"
    by (rule kern_step [where g = "drv_s_fmt_capture st"]) (simp add: set_capture_format_def split_beta Let_def)
  have ctrls: "stepped (unmapped 0 0) (m2m_set_controls st bitrate gop) (unmapped 0 0)"
    by (simp add: steps_to_def m2m_set_controls_def)
  have name: "stepped ?Q (\<lambda>e. Some (Inr (e\<lparr>m2_name := m2m_name path (m2_format e)\<rparr>))) (\<lambda>e. traced e \<and> m2_errors e = 0)"
    by (auto simp: steps_to_def unmapped_def)
  show ?thesis
    unfolding m2m_open_steps_def
    by (intro steps_to_then [OF try_formats_step] steps_to_then [OF fmt] steps_to_then [OF ctrls]
        steps_to_then [OF request_step [OF out]] steps_to_then [OF cap'] steps_to_then [OF on] name)
qed

lemma open_start: "unmapped 0 0 (m2m_init k w h)"
  using init_traced [of k w h] by (auto simp: unmapped_def m2m_init_def)

text \<open>How often a trace acquires and releases a resource.\<close>

abbreviation times :: "m2m_event \<Rightarrow> m2m_event list \<Rightarrow> nat" where
  "times x tr \<equiv> count (mset tr) x"

lemma traced_balanced:
  assumes "traced e" and "mset tr = mset (m2_trace e) + mset (Freed Device # m2m_unmap_all e)"
  shows "times (Got r) tr = times (Freed r) tr"
proof -
  have unmaps: "Got r \<notin> set (m2m_unmap q j i bs)" for q j i bs r by (induction q j i bs rule: m2m_unmap.induct) (auto split: option.splits)
  have inj: "count (image_mset freed_of M) (Freed r) = count M (Got r)" if "\<forall>r. Freed r \<notin># M" for M
    using that
  proof (induction M)
    case (add x M)
    then show ?case by (cases x) auto
  qed simp
  have 1: "count (mset (m2_trace e)) (Freed r) = 0" using assms(1) by (simp add: traced_def count_eq_zero_iff)
  have 2: "count (mset (Freed Device # m2m_unmap_all e)) (Got r) = 0"
    using unmaps by (simp add: m2m_unmap_all_def count_eq_zero_iff)
  have 3: "count (mset (Freed Device # m2m_unmap_all e)) (Freed r) = count (mset (m2_trace e)) (Got r)"
    using assms(1) inj [of "mset (m2_trace e)"] unfolding traced_def by (metis set_mset_mset)
  show ?thesis unfolding assms(2) count_union 1 2 3 by simp
qed

section \<open>Properties\<close>

text \<open>
  A driver to evaluate: it grants what it is asked for, maps buffers of eight bytes, but refuses every
  raw frame. Its state is not used.
\<close>

definition demo_setup :: "nat \<Rightarrow> unit m2m_setup" where
  "demo_setup extra = \<lparr>drv_open = \<lambda>_. Some (), drv_querycap = \<lambda>_. Some (0x4000, 0), drv_formats = \<lambda>_. [0x34363248],
     drv_s_fmt_output = \<lambda>k w h f. (Some f, k), drv_s_fmt_capture = \<lambda>k. (True, k), drv_s_ext_ctrls = \<lambda>k cs. k,
     drv_reqbufs = \<lambda>k q n. (Some (n + extra), k), drv_querybuf = \<lambda>k q i. Some (8, 0),
     drv_mmap = \<lambda>k q i j. Some (replicate 8 0), drv_streamon = \<lambda>k q. (q = Output_Queue, k)\<rparr>"

definition demo_driver :: "unit m2m_driver" where
  "demo_driver = \<lparr>drv_poll_out = \<lambda>k. (False, k), drv_poll_in = \<lambda>k. (False, k), drv_dqbuf_out = \<lambda>k. (None, k),
     drv_qbuf_out = \<lambda>k b. (False, k), drv_dqbuf_cap = \<lambda>k. (None, k), drv_qbuf_cap = \<lambda>k i. (True, k)\<rparr>"

lemma demo_queue: "driver_queue demo_driver (\<lambda>_. 0)"
  by (simp add: driver_queue_def demo_driver_def)

text \<open>A driver may grant more buffers than it was asked for; the code then indexes its arrays of six out of range.\<close>

lemma open_overruns_arrays: "m2m_open (demo_setup 1) demo_driver True ''/dev/video11'' 2 2 30 100 2 = None"
  by (simp add: m2m_open_def m2m_open_steps_def demo_setup_def demo_driver_def m2m_init_def and_then_def input_formats_def
      set_capture_format_def m2m_set_controls_def request_buffers_def open_output_def map_output_def map_plane_def
      M2M_OUTPUT_BUFFERS_def M2M_CAPTURE_BUFFERS_def upt_rec numeral_eq_Suc)

text \<open>
  C25. Opening the hardware encoder keeps account of what it takes from the system: if it fails, at any
  of its steps, every mapping and the device it acquired have been released exactly as often as they
  were acquired; if it succeeds, closing releases them all.
\<close>

theorem m2m_open_balanced:
  assumes "m2m_open st drv ok path w h fps bitrate gop = Some r"
  shows "case r of
      Inl tr \<Rightarrow> (\<forall>x. times (Got x) tr = times (Freed x) tr)
    | Inr e \<Rightarrow> (\<forall>x. times (Got x) (m2m_close e) = times (Freed x) (m2m_close e))"
proof (cases r)
  case (Inl tr)
  then consider "tr = []" | k e where "m2m_open_steps st drv path bitrate (fps * gop) (m2m_init k w h) = Some (Inl e)"
      "tr = m2_trace e @ m2m_unmap_all e @ [Freed Device]"
    using assms by (auto simp: m2m_open_def split: if_splits option.splits sum.splits)
  then show ?thesis
  proof cases
    case 2
    have "traced e" by (rule steps_toD(1) [OF open_steps open_start 2(1)])
    then show ?thesis using traced_balanced [of e tr] Inl 2 by simp
  qed (use Inl in simp)
next
  case (Inr e)
  then obtain k where run: "m2m_open_steps st drv path bitrate (fps * gop) (m2m_init k w h) = Some (Inr e)"
    using assms by (auto simp: m2m_open_def split: if_splits option.splits sum.splits)
  have "traced e" using steps_toD(2) [OF open_steps open_start run] by simp
  then show ?thesis using traced_balanced [of e "m2m_close e"] Inr by (simp add: m2m_close_def)
qed

lemma demo_open_fails:
  "m2m_open (demo_setup 0) demo_driver True ''/dev/video11'' 2 2 30 100 2 =
    Some (Inl (Got Device # map (\<lambda>i. Got (Mapping Output_Queue i 0)) [0..<6] @
      map (\<lambda>i. Got (Mapping Capture_Queue i 0)) [0..<6] @ map (\<lambda>i. Freed (Mapping Output_Queue i 0)) [0..<6] @
      map (\<lambda>i. Freed (Mapping Capture_Queue i 0)) [0..<6] @ [Freed Device]))"
  by (simp add: m2m_open_def m2m_open_steps_def demo_setup_def demo_driver_def m2m_init_def and_then_def input_formats_def
      set_capture_format_def m2m_set_controls_def request_buffers_def open_output_def map_output_def map_plane_def
      map_capture_def stream_on_def m2m_unmap_all_def M2M_OUTPUT_BUFFERS_def M2M_CAPTURE_BUFFERS_def upt_rec numeral_eq_Suc)

lemma m2m_open_balanced_witness:
  "case (Inl (Got Device # map (\<lambda>i. Got (Mapping Output_Queue i 0)) [0..<6] @
      map (\<lambda>i. Got (Mapping Capture_Queue i 0)) [0..<6] @ map (\<lambda>i. Freed (Mapping Output_Queue i 0)) [0..<6] @
      map (\<lambda>i. Freed (Mapping Capture_Queue i 0)) [0..<6] @ [Freed Device]) :: m2m_event list + unit m2m_backend) of
      Inl tr \<Rightarrow> (\<forall>x. times (Got x) tr = times (Freed x) tr)
    | Inr e \<Rightarrow> (\<forall>x. times (Got x) (m2m_close e) = times (Freed x) (m2m_close e))"
  by (rule m2m_open_balanced [OF demo_open_fails])

text \<open>
  The limit of 64 errors after which the hardware encoder would report a fatal error is never
  reached: every error loses one of at most six input buffers for good. Once all of them are lost,
  every further call returns "no output" and changes nothing about that, so the stream stays silent
  and the encode thread is never told.
\<close>

lemma m2m_error_limit_unreachable:
  assumes "driver_queue drv queued" and "buffers_left queued e + m2_errors e \<le> M2M_OUTPUT_BUFFERS"
    and "m2m_encode drv e p pts force out cap = Some (r, e')"
  shows "enc_rc r \<noteq> - 1 \<and> buffers_left queued e' + m2_errors e' \<le> M2M_OUTPUT_BUFFERS \<and>
    (buffers_left queued e = 0 \<longrightarrow> enc_rc r = 0 \<and> buffers_left queued e' = 0)"
  using m2m_encode_buffers [OF assms(1,3)] assms(2) by (auto simp: M2M_OUTPUT_BUFFERS_def)

text \<open>A back end with one input buffer left loses it to the driver that refuses every frame.\<close>

definition demo_m2m :: "unit m2m_backend" where
  "demo_m2m = (m2m_init () 2 2)\<lparr>m2_out := [Some (replicate 6 0)], m2_out_free := [0], m2_out_free_count := 1\<rparr>"

definition demo_planes :: planes where
  "demo_planes = \<lparr>pl_mem = [1, 2, 3, 4, 5, 6], pl_y = 0, pl_u = 4, pl_v = 5\<rparr>"

lemma demo_m2m_encode:
  "m2m_encode demo_driver demo_m2m demo_planes 7 False [0, 0] 2 = Some (enc_nothing 0 [0, 0],
     demo_m2m\<lparr>m2_out := [Some [1, 2, 3, 4, 5, 6]], m2_out_free_count := 0, m2_errors := 1\<rparr>)"
  by code_simp

lemma m2m_error_limit_unreachable_witness:
  "enc_rc (enc_nothing 0 [0, 0 :: u8]) \<noteq> - 1 \<and>
   buffers_left (\<lambda>_. 0) (demo_m2m\<lparr>m2_out := [Some [1, 2, 3, 4, 5, 6]], m2_out_free_count := 0, m2_errors := 1\<rparr>) +
     m2_errors (demo_m2m\<lparr>m2_out := [Some [1, 2, 3, 4, 5, 6]], m2_out_free_count := 0, m2_errors := 1\<rparr>) \<le> M2M_OUTPUT_BUFFERS"
  using m2m_error_limit_unreachable [OF demo_queue _ demo_m2m_encode]
  by (simp add: buffers_left_def demo_m2m_def m2m_init_def M2M_OUTPUT_BUFFERS_def)

end
