(* ===== verification/H264_Encoder.thy ===== *)
theory H264_Encoder
  imports M2m_Backend
begin

text \<open>
  The encoder factory of \<^verbatim>\<open>src/media/h264_encoder.c\<close>: it turns the preference string into one of the two
  back ends and dispatches the calls. The pair of function pointers of \<^verbatim>\<open>struct H264Encoder\<close> is the
  constructor of the back end. The dispatcher is an interpretation of the locale \<open>encoder_backend\<close>,
  on the interpretations of the two back ends.
\<close>

section \<open>Definitions\<close>

datatype ('x, 'k) h264_encoder = M2m_Enc "'k m2m_backend" | X264_Enc "'x x264_backend"

text \<open>
  What the factory finds on the system: the two libraries, whether libx264 is compiled in, and
  whether the allocations of the back ends and of the encoder itself succeed.
\<close>

record ('x, 'k) encoder_sys =
  es_setup :: "'k m2m_setup"
  es_driver :: "'k m2m_driver"
  es_x264 :: "'x x264_lib"
  HAVE_X264 :: bool
  es_alloc_backend :: bool
  es_alloc_encoder :: bool

definition MAX_VIDEO_DEVICE :: nat where "MAX_VIDEO_DEVICE = 64"

definition video_path :: "nat \<Rightarrow> string" where
  "video_path i = ''/dev/video'' @ dec_nat i"

definition find_m2m_device :: "'k m2m_setup \<Rightarrow> string option" where
  "find_m2m_device st = find (m2m_probe st) (map video_path [0..<Suc MAX_VIDEO_DEVICE])"

text \<open>The result: the encoder, the name written to \<^verbatim>\<open>name_out\<close>, and a back end that was opened and closed again.\<close>

record ('x, 'k) open_result =
  or_encoder :: "('x, 'k) h264_encoder option"
  or_name :: "string option"
  or_closed :: "('x, 'k) h264_encoder option"

definition open_failed :: "('x, 'k) open_result" where
  "open_failed = \<lparr>or_encoder = None, or_name = None, or_closed = None\<rparr>"

text \<open>\<open>name_room\<close> is \<^verbatim>\<open>name_out_size\<close>, or \<open>None\<close> for a null pointer.\<close>

definition wrap_backend :: "('x, 'k) encoder_sys \<Rightarrow> nat option \<Rightarrow> string \<Rightarrow> ('x, 'k) h264_encoder \<Rightarrow> ('x, 'k) open_result" where
  "wrap_backend sys name_room selected b =
     (if \<not> es_alloc_encoder sys then open_failed\<lparr>or_closed := Some b\<rparr>
      else open_failed\<lparr>or_encoder := Some b,
             or_name := (case name_room of None \<Rightarrow> None
                         | Some n \<Rightarrow> if n > 0 then Some (take (n - 1) selected) else None)\<rparr>)"

definition software_fallback :: "('x, 'k) encoder_sys \<Rightarrow> bool \<Rightarrow> u32 \<Rightarrow> u32 \<Rightarrow> u32 \<Rightarrow> u32 \<Rightarrow> u32 \<Rightarrow> nat option \<Rightarrow>
    ('x, 'k) open_result" where
  "software_fallback sys want_sw w h fps bitrate_kbps gop_seconds name_room =
     (if HAVE_X264 sys \<and> want_sw then
        case x264_open (es_x264 sys) (es_alloc_backend sys) w h fps bitrate_kbps gop_seconds of
          None \<Rightarrow> open_failed
        | Some e \<Rightarrow> wrap_backend sys name_room (x_name e) (X264_Enc e)
      else open_failed)"

definition h264_encoder_open :: "('x, 'k) encoder_sys \<Rightarrow> string option \<Rightarrow> u32 \<Rightarrow> u32 \<Rightarrow> u32 \<Rightarrow> u32 \<Rightarrow> u32 \<Rightarrow> nat option \<Rightarrow>
    ('x, 'k) open_result option" where
  "h264_encoder_open sys pref w h fps bitrate_kbps gop_seconds name_room =
     (let preference = (case pref of None \<Rightarrow> ''auto'' | Some s \<Rightarrow> s) in
      if w mod 2 \<noteq> 0 \<or> h mod 2 \<noteq> 0 \<or> fps = 0 then Some open_failed
      else
        let known = (if preference = ''auto'' then Some (True, True, None)
                     else if preference = ''hw'' then Some (True, False, None)
                     else if preference = ''sw'' then Some (False, True, None)
                     else if strncmp_eq preference ''hw:'' \<and> length preference > 3
                     then Some (True, False, Some (drop 3 preference))
                     else None)
        in case known of
          None \<Rightarrow> Some open_failed
        | Some (want_hw, want_sw, explicit_device) \<Rightarrow>
            let path = (if \<not> want_hw then None
                        else case explicit_device of
                          Some p \<Rightarrow> Some p
                        | None \<Rightarrow> find_m2m_device (es_setup sys));
                sw = software_fallback sys want_sw w h fps bitrate_kbps gop_seconds name_room
            in case path of
              None \<Rightarrow> Some sw
            | Some p \<Rightarrow>
                case m2m_open (es_setup sys) (es_driver sys) (es_alloc_backend sys) p w h fps bitrate_kbps gop_seconds of
                  None \<Rightarrow> None
                | Some (Inr e) \<Rightarrow> Some (wrap_backend sys name_room (m2_name e) (M2m_Enc e))
                | Some (Inl _) \<Rightarrow> if explicit_device \<noteq> None \<or> \<not> want_sw then Some open_failed else Some sw)"

definition h264_encoder_encode :: "('x, 'k) encoder_sys \<Rightarrow> ('x, 'k) h264_encoder option encode_fn" where
  "h264_encoder_encode sys encoder p pts_us force_idr out out_capacity =
     (case encoder of
        None \<Rightarrow> Some (enc_nothing (- 1) out, None)
      | Some (M2m_Enc e) \<Rightarrow>
          map_option (\<lambda>(r, e'). (r, Some (M2m_Enc e'))) (m2m_encode (es_driver sys) e p pts_us force_idr out out_capacity)
      | Some (X264_Enc e) \<Rightarrow>
          map_option (\<lambda>(r, e'). (r, Some (X264_Enc e'))) (x264_encode (es_x264 sys) e p pts_us force_idr out out_capacity))"

text \<open>What closing releases of the operating system; libx264 frees itself.\<close>

definition h264_encoder_close :: "('x, 'k) h264_encoder option \<Rightarrow> m2m_event list" where
  "h264_encoder_close encoder = (case encoder of Some (M2m_Enc e) \<Rightarrow> m2m_close e | _ \<Rightarrow> [])"

section \<open>The dispatcher is an encoder\<close>

fun encoder_dims :: "('x, 'k) h264_encoder option \<Rightarrow> u32 \<times> u32" where
  "encoder_dims None = (0, 0)"
| "encoder_dims (Some (M2m_Enc e)) = (m2_width e, m2_height e)"
| "encoder_dims (Some (X264_Enc e)) = (x_width e, x_height e)"

fun encoder_invar :: "('x, 'k) encoder_sys \<Rightarrow> ('x, 'k) h264_encoder option \<Rightarrow> bool" where
  "encoder_invar sys None = True"
| "encoder_invar sys (Some (M2m_Enc e)) = m2m_invar (es_driver sys) e"
| "encoder_invar sys (Some (X264_Enc e)) = x264_contiguous (es_x264 sys)"

interpretation h264: encoder_backend "h264_encoder_encode sys" "encoder_invar sys" encoder_dims
  for sys :: "('x, 'k) encoder_sys"
proof unfold_locales
  fix e :: "('x, 'k) h264_encoder option" and p pts force cap and out :: bytes
  assume inv: "encoder_invar sys e" and pic: "picture_in (fst (encoder_dims e)) (snd (encoder_dims e)) p"
    and cap: "cap \<le> length out"
  consider "e = None" | m where "e = Some (M2m_Enc m)" | x where "e = Some (X264_Enc x)"
    by (metis h264_encoder.exhaust option.exhaust)
  then show "\<exists>r e'. h264_encoder_encode sys e p pts force out cap = Some (r, e') \<and> encoder_invar sys e' \<and>
      encoder_dims e' = encoder_dims e \<and> enc_rc r \<in> {- 1, 0, 1} \<and> length (enc_out r) = length out \<and>
      (enc_rc r = 1 \<longrightarrow> 0 < enc_size r \<and> enc_size r \<le> cap)"
  proof cases
    case 2
    then show ?thesis
      using m2m.encode_ok [of "es_driver sys" m p cap out pts force] inv pic cap
      by (fastforce simp: h264_encoder_encode_def)
  next
    case 3
    then show ?thesis
      using x264.encode_ok [of "es_x264 sys" x p cap out pts force] inv pic cap
      by (fastforce simp: h264_encoder_encode_def)
  qed (simp add: h264_encoder_encode_def enc_nothing_def)
qed

section \<open>Property\<close>

text \<open>The device the scan finds is the first one, by number, that probes as an encoder.\<close>

lemma find_first:
  "find_m2m_device st = Some path \<longleftrightarrow>
   (\<exists>i \<le> MAX_VIDEO_DEVICE. path = video_path i \<and> m2m_probe st path \<and> (\<forall>j < i. \<not> m2m_probe st (video_path j)))"
proof -
  have "find_m2m_device st = Some path \<longleftrightarrow> (\<exists>i < Suc MAX_VIDEO_DEVICE. m2m_probe st (video_path i) \<and>
      path = video_path i \<and> (\<forall>j < i. \<not> m2m_probe st (video_path j)))"
    unfolding find_m2m_device_def find_Some_iff by (auto simp del: upt_Suc)
  then show ?thesis by (auto simp: less_Suc_eq_le)
qed

lemma find_none: "find_m2m_device st = None \<longleftrightarrow> (\<forall>i \<le> MAX_VIDEO_DEVICE. \<not> m2m_probe st (video_path i))"
  by (auto simp: find_m2m_device_def find_None_iff less_Suc_eq_le simp del: upt_Suc)

text \<open>Preferences that allow a back end, as the header describes them.\<close>

definition wants_device :: "string \<Rightarrow> 'k m2m_setup \<Rightarrow> string \<Rightarrow> bool" where
  "wants_device pref st path \<longleftrightarrow> (pref = ''hw:'' @ path \<and> path \<noteq> []) \<or>
     (pref \<in> {''auto'', ''hw''} \<and> (\<exists>i \<le> MAX_VIDEO_DEVICE. path = video_path i \<and> m2m_probe st path \<and>
        (\<forall>j < i. \<not> m2m_probe st (video_path j))))"

lemma wrap_encoder: "or_encoder (wrap_backend sys n s b) = Some b' \<Longrightarrow> b' = b"
  by (auto simp: wrap_backend_def open_failed_def split: if_splits)

lemma fallback_encoder: "or_encoder (software_fallback sys sw w h fps br gop n) = Some b \<Longrightarrow>
    HAVE_X264 sys \<and> sw \<and> (\<exists>e. b = X264_Enc e \<and> x264_open (es_x264 sys) (es_alloc_backend sys) w h fps br gop = Some e)"
  by (auto simp: software_fallback_def open_failed_def dest: wrap_encoder split: if_splits option.splits)

text \<open>
  C24. The factory obeys the preference string. A hardware encoder comes from the device the string
  names or, for "auto" and "hw", from the first device that probes as an H.264 encoder; libx264 is
  used only for "sw", or for "auto" when no device probes or the first one cannot be opened. An
  explicit device is never replaced by anything else, and odd sizes or a zero rate are refused.
\<close>

theorem encoder_preference:
  assumes "h264_encoder_open sys (Some pref) w h fps bitrate gop name_room = Some res" and "or_encoder res = Some b"
  shows "w mod 2 = 0 \<and> h mod 2 = 0 \<and> fps \<noteq> 0 \<and>
    (case b of
       M2m_Enc e \<Rightarrow> \<exists>path. wants_device pref (es_setup sys) path \<and>
         m2m_open (es_setup sys) (es_driver sys) (es_alloc_backend sys) path w h fps bitrate gop = Some (Inr e)
     | X264_Enc e \<Rightarrow> HAVE_X264 sys \<and> x264_open (es_x264 sys) (es_alloc_backend sys) w h fps bitrate gop = Some e \<and>
         (pref = ''sw'' \<or> pref = ''auto'' \<and> (\<forall>path. wants_device pref (es_setup sys) path \<longrightarrow>
            (\<exists>tr. m2m_open (es_setup sys) (es_driver sys) (es_alloc_backend sys) path w h fps bitrate gop = Some (Inl tr)))))"
proof -
  have dims: "w mod 2 = 0 \<and> h mod 2 = 0 \<and> fps \<noteq> 0"
    using assms by (auto simp: h264_encoder_open_def Let_def open_failed_def split: if_splits)
  have dev: "strncmp_eq pref ''hw:'' \<Longrightarrow> pref = ''hw:'' @ drop 3 pref"
    unfolding strncmp_eq_def by (metis append_take_drop_id One_nat_def length_Cons list.size(3) numeral_3_eq_3)
  have wants: "wants_device ''auto'' st path \<longleftrightarrow> find_m2m_device st = Some path"
    "wants_device ''hw'' st path \<longleftrightarrow> find_m2m_device st = Some path" for st :: "'b m2m_setup" and path
    unfolding find_first wants_device_def by auto
  have explicit: "wants_device pref st (drop 3 pref)" if "strncmp_eq pref ''hw:''" "3 < length pref" for st :: "'b m2m_setup"
    using dev [OF that(1)] that(2) by (simp add: wants_device_def)
  from assms dims consider
      "pref = ''auto''" | "pref = ''hw''" | "pref = ''sw''"
    | "strncmp_eq pref ''hw:''" "3 < length pref" "pref \<notin> {''auto'', ''hw'', ''sw''}"
    by (auto simp: h264_encoder_open_def Let_def open_failed_def split: if_splits)
  then show ?thesis
    using assms dims explicit
    by cases
      (fastforce simp: h264_encoder_open_def Let_def wants open_failed_def dest: wrap_encoder fallback_encoder
        split: option.splits sum.splits if_splits)+
qed

text \<open>
  A system with a device that cannot be started and a libx264 that codes every picture into one
  five-byte keyframe.
\<close>

definition demo_x264 :: "unit x264_lib" where
  "demo_x264 = \<lparr>x264_param_default_preset = \<lambda>_ _. Some \<lparr>i_width = 0, i_height = 0, i_fps_num = 0, i_fps_den = 0,
       i_timebase_num = 0, i_timebase_den = 0, i_keyint_max = 0, i_keyint_min = 0, b_open_gop = True,
       b_repeat_headers = False, b_intra_refresh = False,
       x_rc = \<lparr>rc_abr = False, i_bitrate = 0, i_vbv_max_bitrate = 0, i_vbv_buffer_size = 0, half_vbv_init = False\<rparr>,
       i_threads = 0\<rparr>,
     x264_param_apply_profile = \<lambda>p _. Some p, x264_encoder_open = \<lambda>_. Some (),
     x264_encoder_encode = \<lambda>x pic. (\<lparr>x_size = 5, x_nal_count = 1, x_payload = [0, 0, 1, 0x65, 9], b_keyframe = True\<rparr>, x)\<rparr>"

definition demo_sys :: "(unit, unit) encoder_sys" where
  "demo_sys = \<lparr>es_setup = demo_setup 0, es_driver = demo_driver, es_x264 = demo_x264, HAVE_X264 = True,
     es_alloc_backend = True, es_alloc_encoder = True\<rparr>"

definition demo_encoder :: "unit x264_backend" where
  "demo_encoder = \<lparr>x_handle = (), x_width = 2, x_height = 2, x_name = ''libx264 2x2 @ 100 kbps''\<rparr>"

lemma demo_sys_open:
  "h264_encoder_open demo_sys (Some ''auto'') 2 2 30 100 2 (Some 80) = Some
     \<lparr>or_encoder = Some (X264_Enc demo_encoder), or_name = Some ''libx264 2x2 @ 100 kbps'', or_closed = None\<rparr>"
proof -
  have d: "dec_nat 0 = ''0''" "dec_nat 2 = ''2''" "dec_nat 100 = ''100''" by (code_simp)+
  have find: "find_m2m_device (demo_setup 0) = Some (video_path 0)"
    by (simp add: find_first exI [of _ 0] m2m_probe_def demo_setup_def V4L2_CAP_DEVICE_CAPS_def
        V4L2_CAP_VIDEO_M2M_MPLANE_def V4L2_PIX_FMT_H264_def)
  have hw: "m2m_open (demo_setup 0) demo_driver True (video_path 0) 2 2 30 100 2 = m2m_open (demo_setup 0) demo_driver True ''/dev/video11'' 2 2 30 100 2"
    unfolding demo_open_fails by (simp add: m2m_open_def m2m_open_steps_def demo_setup_def demo_driver_def m2m_init_def
      and_then_def input_formats_def set_capture_format_def m2m_set_controls_def request_buffers_def open_output_def
      map_output_def map_plane_def map_capture_def stream_on_def m2m_unmap_all_def M2M_OUTPUT_BUFFERS_def
      M2M_CAPTURE_BUFFERS_def upt_rec numeral_eq_Suc)
  have sw: "software_fallback demo_sys True 2 2 30 100 2 (Some 80) =
     \<lparr>or_encoder = Some (X264_Enc demo_encoder), or_name = Some ''libx264 2x2 @ 100 kbps'', or_closed = None\<rparr>"
    by (simp add: software_fallback_def demo_sys_def x264_open_def demo_x264_def wrap_backend_def open_failed_def
        x264_name_def demo_encoder_def d)
  show ?thesis
    using find hw sw demo_open_fails by (simp add: h264_encoder_open_def demo_sys_def)
qed

lemma encoder_preference_witness:
  "(2 :: u32) mod 2 = 0 \<and> (2 :: u32) mod 2 = 0 \<and> (30 :: u32) \<noteq> 0 \<and>
    (case (X264_Enc demo_encoder :: (unit, unit) h264_encoder) of
       M2m_Enc e \<Rightarrow> \<exists>path. wants_device ''auto'' (es_setup demo_sys) path \<and>
         m2m_open (es_setup demo_sys) (es_driver demo_sys) (es_alloc_backend demo_sys) path 2 2 30 100 2 = Some (Inr e)
     | X264_Enc e \<Rightarrow> HAVE_X264 demo_sys \<and> x264_open (es_x264 demo_sys) (es_alloc_backend demo_sys) 2 2 30 100 2 = Some e \<and>
         (''auto'' = ''sw'' \<or> ''auto'' = ''auto'' \<and> (\<forall>path. wants_device ''auto'' (es_setup demo_sys) path \<longrightarrow>
            (\<exists>tr. m2m_open (es_setup demo_sys) (es_driver demo_sys) (es_alloc_backend demo_sys) path 2 2 30 100 2 = Some (Inl tr)))))"
  by (rule encoder_preference [OF demo_sys_open]) simp

end
