(* ===== verification/Capture_Pipeline.thy ===== *)
theory Capture_Pipeline
  imports Camera Encoder_Worker Source_Worker H264_Encoder
begin

text \<open>
  The capture pipeline as a whole: the source worker publishes into the hub, the encode worker takes
  frames from its mailbox and pushes access units into the ring, and the main thread drains the ring,
  sets the active flag and requests keyframes. A step of the pipeline is a step of one of these
  threads or of another consumer of the hub; they interleave in any order.
\<close>

section \<open>Steps\<close>

text \<open>
  \<open>pp_others\<close> counts the references that other consumers of the hub hold, \<open>pp_captures\<close> the rounds of the
  source worker.
\<close>

record ('e, 'src) pipeline =
  pp_enc :: "'e encoding"
  pp_src :: 'src
  pp_source :: source_worker
  pp_others :: "nat \<Rightarrow> nat"
  pp_captures :: nat

text \<open>What another consumer may do; it uses its own mailbox, not number \<open>c\<close>.\<close>

inductive other_step :: "nat \<Rightarrow> hub_state \<Rightarrow> hub_state \<Rightarrow> bool" for c where
  "other_step c (h, o') (fst (frame_hub_subscribe ok h), o')"
| "d \<noteq> c \<Longrightarrow> other_step c (h, o') (frame_hub_unsubscribe h d, o')"
| "d \<noteq> c \<Longrightarrow> frame_hub_take h d = (h', None) \<Longrightarrow> other_step c (h, o') (h', o')"
| "d \<noteq> c \<Longrightarrow> frame_hub_take h d = (h', Some k) \<Longrightarrow> other_step c (h, o') (h', o'(k := Suc (o' k)))"
| "0 < o' k \<Longrightarrow> other_step c (h, o') (hub_release h k, o'(k := o' k - 1))"

inductive pipe_step :: "'src source_ops \<Rightarrow> 'e encode_fn \<Rightarrow> ('e, 'src) pipeline \<Rightarrow> ('e, 'src) pipeline \<Rightarrow> bool"
  for ops encode where
  capture: "sw_running (pp_source s) \<Longrightarrow>
    source_worker_round ops (pp_source s, pp_src s, e_hub (pp_enc s)) = Some (w', src', hub') \<Longrightarrow>
    pipe_step ops encode s (s\<lparr>pp_enc := (pp_enc s)\<lparr>e_hub := hub'\<rparr>, pp_src := src', pp_source := w', pp_captures := Suc (pp_captures s)\<rparr>)"
| encode: "encoder_step encode (pp_enc s) = Some enc' \<Longrightarrow> pipe_step ops encode s (s\<lparr>pp_enc := enc'\<rparr>)"
| other: "other_step (ew_consumer (e_worker (pp_enc s))) (e_hub (pp_enc s), pp_others s) (hub', o') \<Longrightarrow>
    pipe_step ops encode s (s\<lparr>pp_enc := (pp_enc s)\<lparr>e_hub := hub'\<rparr>, pp_others := o'\<rparr>)"
| drain: "cap \<le> length buffer \<Longrightarrow> au_ring_pop (e_ring (pp_enc s)) buffer cap = Some (rc, ring', out, m) \<Longrightarrow>
    pipe_step ops encode s (s\<lparr>pp_enc := (pp_enc s)\<lparr>e_ring := ring'\<rparr>\<rparr>)"
| set_active: "pipe_step ops encode s (s\<lparr>pp_enc := (pp_enc s)\<lparr>e_active := b\<rparr>\<rparr>)"
| force_idr: "pipe_step ops encode s (s\<lparr>pp_enc := (pp_enc s)\<lparr>e_force_idr := True\<rparr>\<rparr>)"
| stop: "pipe_step ops encode s (s\<lparr>pp_enc := upd_worker encoder_worker_stop (pp_enc s),
    pp_source := source_worker_stop (pp_source s)\<rparr>)"

inductive pipe_run :: "'src source_ops \<Rightarrow> 'e encode_fn \<Rightarrow> ('e, 'src) pipeline \<Rightarrow> ('e, 'src) pipeline \<Rightarrow> bool"
  for ops encode where
  pipe_refl: "pipe_run ops encode s s"
| pipe_more: "pipe_run ops encode s t \<Longrightarrow> pipe_step ops encode t u \<Longrightarrow> pipe_run ops encode s u"

text \<open>The pipeline as the server sets it up, before its threads run.\<close>

inductive pipe_start :: "video_source \<Rightarrow> 'src \<Rightarrow> u32 \<Rightarrow> u32 \<Rightarrow> 'e \<Rightarrow> ('e, 'src) pipeline \<Rightarrow> bool"
  for v src w h enc where
  "frame_hub_create True (vs_frame_size v) n = Some hub0 \<Longrightarrow>
   source_worker_create True (Some v) True = Some sw \<Longrightarrow>
   au_ring_create True junk1 rcap rcount = Some ring \<Longrightarrow>
   encoder_worker_create True True True junk2 hub0 w h True = (hub1, Some ew) \<Longrightarrow>
   pipe_start v src w h enc
     \<lparr>pp_enc = \<lparr>e_hub = hub1, e_ring = ring, e_force_idr = False, e_active = False, e_encoder = enc, e_worker = ew,
                e_pc = Looking\<rparr>,
      pp_src = src, pp_source = sw, pp_others = \<lambda>_. 0, pp_captures = 0\<rparr>"

section \<open>The invariant\<close>

definition own :: "nat option \<Rightarrow> nat \<Rightarrow> nat" where
  "own u k = (if u = Some k then 1 else 0)"

abbreviation held_in :: "('e, 'src) pipeline \<Rightarrow> nat \<Rightarrow> nat" where
  "held_in s \<equiv> \<lambda>k. pp_others s k + own (in_use (e_pc (pp_enc s))) k"

text \<open>Every frame somebody can see carries the geometry of the source.\<close>

definition geometry :: "video_source \<Rightarrow> frame_hub \<Rightarrow> bool" where
  "geometry v h \<longleftrightarrow> (\<forall>k. 0 < refs (pool h) k \<longrightarrow> (\<exists>n sq ts.
     frame_meta (pool h) k = (vs_width v, vs_height v, vs_format v, vs_stride v, n, sq, ts)))"

lemma refs_unref_le:
  assumes "pool_inv p"
  shows "refs (frame_unref p k) j \<le> refs p j"
proof -
  have len: "length (frames p) = fcount p" using pool_inv_simps [OF assms] by simp
  show ?thesis
    by (cases "k < length (frames p)")
      (auto simp: refs_def frame_unref_def Let_def nth_list_update len[symmetric] list_update_beyond)
qed

lemma quiet_geometry:
  assumes g: "geometry v h" and inv: "pool_inv (pool h)"
    and q: "pool h' = pool h \<or> (\<exists>k. pool h' = frame_unref (pool h) k)"
  shows "geometry v h'"
  unfolding geometry_def
proof (intro allI impI)
  fix k assume "0 < refs (pool h') k"
  then have "0 < refs (pool h) k" using q refs_unref_le [OF inv, of _ k] by (auto dest: less_le_trans)
  moreover have "frame_meta (pool h') k = frame_meta (pool h) k" using quiet_view [OF q] by simp
  ultimately show "\<exists>n sq ts. frame_meta (pool h') k = (vs_width v, vs_height v, vs_format v, vs_stride v, n, sq, ts)"
    using g unfolding geometry_def by metis
qed

definition has_mailbox :: "nat \<Rightarrow> frame_hub \<Rightarrow> bool" where
  "has_mailbox c h \<longleftrightarrow> c \<in> cid ` set (consumers h)"

text \<open>One lemma for all steps on the hub that do not publish.\<close>

definition hub_quiet :: "nat \<Rightarrow> hub_state \<Rightarrow> hub_state \<Rightarrow> bool" where
  "hub_quiet c a b \<longleftrightarrow> hub_ok b \<and> fcount (pool (fst b)) = fcount (pool (fst a)) \<and>
     capacity (pool (fst b)) = capacity (pool (fst a)) \<and>
     (pool (fst b) = pool (fst a) \<or> (\<exists>k. pool (fst b) = frame_unref (pool (fst a)) k)) \<and>
     (has_mailbox c (fst a) \<longrightarrow> has_mailbox c (fst b))"

lemma take_mailbox: "frame_hub_take h d = (h', r) \<Longrightarrow> has_mailbox c h' = has_mailbox c h"
proof -
  assume t: "frame_hub_take h d = (h', r)"
  have "map cid (consumers h') = map cid (consumers h)" using t by (auto simp: frame_hub_take_def split: option.splits)
  then have "cid ` set (consumers h') = cid ` set (consumers h)" by (metis set_map)
  then show ?thesis by (simp add: has_mailbox_def)
qed

lemma unsubscribe_mailbox: "d \<noteq> c \<Longrightarrow> has_mailbox c h \<Longrightarrow> has_mailbox c (frame_hub_unsubscribe h d)"
  by (auto simp: frame_hub_unsubscribe_def has_mailbox_def Let_def split: option.splits)

lemma effect_quiet:
  assumes ok: "hub_ok (h, \<lambda>k. o' k + own u k)" and e: "hub_effect c h u h' u'"
  shows "hub_quiet c (h, \<lambda>k. o' k + own u k) (h', \<lambda>k. o' k + own u' k)"
proof -
  let ?held = "\<lambda>k. o' k + own u k"
  consider "h' = h" "u' = u" | "u = None" "frame_hub_take h c = (h', None)" "u' = None"
    | k where "u = None" "frame_hub_take h c = (h', Some k)" "u' = Some k"
    | k where "u = Some k" "u' = None" "h' = hub_release h k"
    using e unfolding hub_effect_def by (cases u') auto
  then show ?thesis
  proof cases
    case 2
    then have "h' = h" using take_None [of ?held h c h'] ok by (simp add: hub_ok_def)
    then show ?thesis using 2 ok by (simp add: hub_quiet_def)
  next
    case (3 k)
    have "(\<lambda>j. o' j + own u' j) = ?held(k := Suc (?held k))" using 3 by (auto simp: own_def)
    then have "hub_step (h, ?held) (h', \<lambda>j. o' j + own u' j)" using hub_step.take_some [OF 3(2)] by simp
    from hub_step_safe [OF this ok] show ?thesis
      using take_pool [OF 3(2)] take_mailbox [OF 3(2)] by (simp add: hub_quiet_def)
  next
    case (4 k)
    have "(\<lambda>j. o' j + own u' j) = ?held(k := ?held k - 1)" using 4 by (auto simp: own_def)
    moreover have "0 < ?held k" using 4 by (simp add: own_def)
    ultimately have "hub_step (h, ?held) (h', \<lambda>j. o' j + own u' j)" using hub_step.release [of ?held k h] 4 by simp
    from hub_step_safe [OF this ok] show ?thesis
      using 4 by (auto simp: hub_quiet_def hub_release_def has_mailbox_def)
  qed (use ok in \<open>simp add: hub_quiet_def\<close>)
qed

lemma other_quiet:
  assumes st: "other_step c (h, o1) (h', o2)" and ok: "hub_ok (h, \<lambda>k. o1 k + own u k)"
  shows "hub_quiet c (h, \<lambda>k. o1 k + own u k) (h', \<lambda>k. o2 k + own u k)"
  using st
proof cases
  case (1 ok')
  have "hub_step (h, \<lambda>k. o1 k + own u k) (h', \<lambda>k. o2 k + own u k)" using 1 hub_step.subscribe by simp
  from hub_step_safe [OF this ok] show ?thesis
    using 1 by (auto simp: hub_quiet_def frame_hub_subscribe_def has_mailbox_def)
next
  case (2 d)
  have "hub_step (h, \<lambda>k. o1 k + own u k) (h', \<lambda>k. o2 k + own u k)" using 2 hub_step.unsubscribe by simp
  from hub_step_safe [OF this ok] show ?thesis
    using 2 unsubscribe_pool unsubscribe_mailbox [OF 2(3)] by (simp add: hub_quiet_def)
next
  case (3 d)
  then have "h' = h" using take_None [of "\<lambda>k. o1 k + own u k" h d h'] ok by (simp add: hub_ok_def)
  then show ?thesis using 3 ok by (simp add: hub_quiet_def)
next
  case (4 d k)
  let ?held = "\<lambda>k. o1 k + own u k"
  have "(\<lambda>j. o2 j + own u j) = ?held(k := Suc (?held k))" using 4 by auto
  then have "hub_step (h, ?held) (h', \<lambda>j. o2 j + own u j)" using hub_step.take_some [OF 4(3)] by simp
  from hub_step_safe [OF this ok] show ?thesis
    using take_pool [OF 4(3)] take_mailbox [OF 4(3)] by (simp add: hub_quiet_def)
next
  case (5 k)
  let ?held = "\<lambda>k. o1 k + own u k"
  have "(\<lambda>j. o2 j + own u j) = ?held(k := ?held k - 1)" using 5 by auto
  moreover have "0 < ?held k" using 5 by simp
  ultimately have "hub_step (h, ?held) (h', \<lambda>j. o2 j + own u j)" using hub_step.release [of ?held k h] 5 by simp
  from hub_step_safe [OF this ok] show ?thesis
    using 5 by (auto simp: hub_quiet_def hub_release_def has_mailbox_def)
qed

lemma publish_mailbox:
  assumes ok: "hub_ok (h, held)" and g: "geometry v h" and d: "length d \<le> capacity (pool h)"
    and p: "frame_hub_publish h (Some d) (vs_width v) (vs_height v) (vs_format v) (vs_stride v) sq ts = Some (rc, h')"
  shows "hub_ok (h', held) \<and> geometry v h' \<and> fcount (pool h') = fcount (pool h) \<and> capacity (pool h') = capacity (pool h) \<and>
    (has_mailbox c h \<longrightarrow> has_mailbox c h') \<and>
    (\<forall>k. 0 < held k \<longrightarrow> frame_view h' k = frame_view h k)"
proof -
  have step: "hub_step (h, held) (h', held)" using hub_step.publish [OF d p] .
  note S = hub_step_safe [OF step ok]
  from p show ?thesis
  proof (cases rule: publish_cases)
    case (2 p1 k)
    have inv: "hub_inv held h" "hub_fits h" using ok by (simp_all add: hub_ok_def)
    obtain h1 where P: "frame_hub_publish h (Some d) (vs_width v) (vs_height v) (vs_format v) (vs_stride v) sq ts = Some (0, h1)"
      "hub_inv held h1" "consumers h1 = map (\<lambda>c. c\<lparr>slot := Some k\<rparr>) (consumers h)"
      "frame_meta (pool h1) k = (vs_width v, vs_height v, vs_format v, vs_stride v, length d, sq, ts)"
      "\<forall>j < fcount (pool h). j \<noteq> k \<longrightarrow> frame_meta (pool h1) j = frame_meta (pool h) j \<and> frame_bytes (pool h1) j = frame_bytes (pool h) j"
      by (rule publish_spec [OF inv 2(1) d 2(2), of "vs_width v" "vs_height v" "vs_format v" "vs_stride v" sq ts]) (rule that)
    then have h1: "h1 = h'" using p by simp
    have "\<exists>n sq ts. frame_meta (pool h') j = (vs_width v, vs_height v, vs_format v, vs_stride v, n, sq, ts)"
      if j: "0 < refs (pool h') j" for j
    proof (cases "j = k")
      case False
      have none: "slot_refs (map (\<lambda>c. c\<lparr>slot := Some k\<rparr>) cs) j = 0" for cs
        using False by (induction cs) auto
      have "refs (pool h') j = slot_refs (consumers h') j + held j" using P(2) h1 by (simp add: hub_inv_def)
      then have "0 < held j" using j none P(3) h1 by simp
      then have "0 < refs (pool h) j" using inv(1) by (simp add: hub_inv_def)
      then have "j < fcount (pool h)" by (cases "j < fcount (pool h)") auto
      then have "frame_meta (pool h') j = frame_meta (pool h) j" using P(5) False h1 by simp
      then show ?thesis using g \<open>0 < refs (pool h) j\<close> unfolding geometry_def by metis
    qed (use P(4) h1 in simp)
    moreover have "has_mailbox c h' = has_mailbox c h" using P(3) h1 by (simp add: has_mailbox_def image_image)
    ultimately show ?thesis using S by (simp add: geometry_def)
  qed (use S g in simp)
qed

text \<open>Which frames fit the worker follows from the geometry.\<close>

lemma geometry_frame_fits:
  assumes "geometry v h" and "source_extent v \<le> capacity (pool h)" and "0 < refs (pool h) k"
  shows "frame_fits w (pool h) k"
proof -
  have "k < fcount (pool h)" using assms(3) by (cases "k < fcount (pool h)") auto
  moreover obtain n sq ts where "frame_meta (pool h) k = (vs_width v, vs_height v, vs_format v, vs_stride v, n, sq, ts)"
    using assms(1,3) unfolding geometry_def by blast
  ultimately show ?thesis using assms(2) by (auto simp: frame_fits_def frame_meta_def Let_def)
qed

lemma captures_mono: "pipe_step ops encode s t \<Longrightarrow> pp_captures s \<le> pp_captures t"
  by (erule pipe_step.cases) auto

text \<open>
  The capture path of the program: any encoder and any source that keep their contracts. The source is
  good for \<open>n\<close> captures.
\<close>

locale capture_path = encoder_backend + video_capture
begin

definition pipe_inv :: "nat \<Rightarrow> video_source \<Rightarrow> ('a, 'b) pipeline \<Rightarrow> bool" where
  "pipe_inv n v s \<longleftrightarrow> info (pp_src s) = v \<and> pp_captures s \<le> n \<and> src_ok (n - pp_captures s) (pp_src s) \<and>
     hub_ok (e_hub (pp_enc s), held_in s) \<and> geometry v (e_hub (pp_enc s)) \<and>
     capacity (pool (e_hub (pp_enc s))) = vs_frame_size v \<and> has_mailbox (ew_consumer (e_worker (pp_enc s))) (e_hub (pp_enc s)) \<and>
     encoding_ok (pp_enc s) \<and> frames_accounted (pp_enc s) \<and>
     sw_source (pp_source s) = v \<and> sw_captured (pp_source s) = sw_sequence (pp_source s)"

lemma worker_step:
  assumes inv: "pipe_inv n v s" and ext: "source_extent v \<le> vs_frame_size v"
  shows "\<exists>enc'. encoder_step encode (pp_enc s) = Some enc' \<and> pipe_inv n v (s\<lparr>pp_enc := enc'\<rparr>)"
proof -
  let ?h = "e_hub (pp_enc s)" and ?c = "ew_consumer (e_worker (pp_enc s))" and ?u = "in_use (e_pc (pp_enc s))"
  have hok: "hub_ok (?h, held_in s)" and g: "geometry v ?h" and cap: "capacity (pool ?h) = vs_frame_size v" and eok: "encoding_ok (pp_enc s)"
    using inv by (simp_all add: pipe_inv_def)
  have pinv: "pool_inv (pool ?h)" using hok by (simp add: hub_ok_def hub_inv_def)
  have fits: "frame_fits (e_worker (pp_enc s)) (pool ?h) k" if "?u = Some k" for k
  proof (rule geometry_frame_fits [OF g])
    show "0 < refs (pool ?h) k" using hok that by (simp add: hub_ok_def hub_inv_def own_def)
  qed (use ext cap in simp)
  obtain enc' where run: "encoder_step encode (pp_enc s) = Some enc'" and E: "encoding_ok enc'"
    "same_shape (e_worker (pp_enc s)) (e_worker enc')" "hub_effect ?c ?h ?u (e_hub enc') (in_use (e_pc enc'))"
    using encoder_step_total [OF eok pinv fits] by blast
  have Q: "hub_quiet ?c (?h, held_in s) (e_hub enc', \<lambda>k. pp_others s k + own (in_use (e_pc enc')) k)"
    by (rule effect_quiet [OF hok E(3)])
  have "geometry v (e_hub enc')" by (rule quiet_geometry [OF g pinv]) (use Q in \<open>simp add: hub_quiet_def\<close>)
  moreover have "frames_accounted enc'" using encoder_step_accounted [OF run] inv by (simp add: pipe_inv_def)
  ultimately show ?thesis using run E Q inv by (auto simp: pipe_inv_def hub_quiet_def same_shape_def)
qed

lemma source_step:
  assumes inv: "pipe_inv n v s" and more: "pp_captures s < n"
  shows "\<exists>w' src' hub'. source_worker_round ops (pp_source s, pp_src s, e_hub (pp_enc s)) = Some (w', src', hub') \<and>
    pipe_inv n v (s\<lparr>pp_enc := (pp_enc s)\<lparr>e_hub := hub'\<rparr>, pp_src := src', pp_source := w', pp_captures := Suc (pp_captures s)\<rparr>)"
proof -
  let ?h = "e_hub (pp_enc s)" and ?w = "pp_source s"
  have hok: "hub_ok (?h, held_in s)" and g: "geometry v ?h" and cap: "capacity (pool ?h) = vs_frame_size v" and wv: "sw_source ?w = v"
    and si: "info (pp_src s) = v"
    using inv by (simp_all add: pipe_inv_def)
  have "n - pp_captures s = Suc (n - Suc (pp_captures s))" using more by simp
  then have "src_ok (Suc (n - Suc (pp_captures s))) (pp_src s)" using inv by (simp add: pipe_inv_def)
  from capture_release [OF this] obtain c src1 where c: "so_capture ops (pp_src s) = Some (c, src1)"
    "src_ok (n - Suc (pp_captures s)) src1" "info src1 = v"
    "src_ok (n - Suc (pp_captures s)) (so_release ops src1 (cap_index c))" "info (so_release ops src1 (cap_index c)) = v"
    and fits: "cap_rc c > 0 \<Longrightarrow> \<exists>d. cap_data c = Some d \<and> length d \<le> vs_frame_size v" using si by auto
  have quiet: "pipe_inv n v (s\<lparr>pp_enc := (pp_enc s)\<lparr>e_hub := ?h\<rparr>, pp_src := src', pp_source := w', pp_captures := Suc (pp_captures s)\<rparr>)"
    if "sw_source w' = v" "sw_captured w' = sw_sequence w'" "src_ok (n - Suc (pp_captures s)) src'" "info src' = v" for src' w'
    using inv that more by (simp add: pipe_inv_def encoding_ok_def frames_accounted_def)
  show ?thesis
  proof (cases "cap_rc c > 0 \<and> (\<exists>d. cap_data c = Some d \<and> 0 < length d)")
    case False
    then have "\<exists>w' src'. source_worker_round ops (?w, pp_src s, ?h) = Some (w', src', ?h) \<and>
        src' \<in> {src1, so_release ops src1 (cap_index c)}"
      using c(1) by (cases "cap_data c") (auto simp: source_worker_round_def Let_def frame_hub_publish_def)
    then obtain w' src' where run: "source_worker_round ops (?w, pp_src s, ?h) = Some (w', src', ?h)"
      "src' \<in> {src1, so_release ops src1 (cap_index c)}" by blast
    then show ?thesis using quiet round_counters [OF run(1)] inv c by (auto simp: pipe_inv_def)
  next
    case True
    then obtain d where d: "cap_data c = Some d" "0 < length d" by blast
    have len: "length d \<le> capacity (pool ?h)" using fits True d(1) cap by simp
    have "\<exists>rc h'. frame_hub_publish ?h (Some d) (vs_width v) (vs_height v) (vs_format v) (vs_stride v) (sw_sequence ?w) (cap_timestamp_us c) = Some (rc, h')"
    proof (cases "frame_pool_acquire (pool ?h)")
      case (Pair p1 r)
      show ?thesis
      proof (cases r)
        case (Some k)
        have hi: "hub_inv (held_in s) ?h" "hub_fits ?h" using hok by (simp_all add: hub_ok_def)
        show ?thesis
          by (rule publish_spec [OF hi d(2) len, of p1 k "vs_width v" "vs_height v" "vs_format v" "vs_stride v" "sw_sequence ?w" "cap_timestamp_us c"])
            (use Pair Some in auto)
      qed (use Pair d in \<open>simp add: frame_hub_publish_def\<close>)
    qed
    then obtain rc h' where p: "frame_hub_publish ?h (Some d) (vs_width v) (vs_height v) (vs_format v) (vs_stride v) (sw_sequence ?w) (cap_timestamp_us c) = Some (rc, h')"
      by blast
    have "\<exists>w'. source_worker_round ops (?w, pp_src s, ?h) = Some (w', so_release ops src1 (cap_index c), h')"
      using True c(1) d p wv by (auto simp: source_worker_round_def Let_def)
    then obtain w' where run: "source_worker_round ops (?w, pp_src s, ?h) = Some (w', so_release ops src1 (cap_index c), h')" by blast
    note P = publish_mailbox [OF hok g len p, of "ew_consumer (e_worker (pp_enc s))"]
    show ?thesis
      using run P round_counters [OF run] inv c(4,5) more by (auto simp: pipe_inv_def encoding_ok_def frames_accounted_def)
  qed
qed

lemma pipe_step_inv:
  assumes st: "pipe_step ops encode s t" and inv: "pipe_inv n v s" and ext: "source_extent v \<le> vs_frame_size v"
    and more: "pp_captures t \<le> n"
  shows "pipe_inv n v t"
  using st
proof cases
  case (capture w' src' hub')
  then show ?thesis using source_step [OF inv] more by auto
next
  case (encode enc')
  then show ?thesis using worker_step [OF inv ext] by auto
next
  case (other hub' o')
  let ?h = "e_hub (pp_enc s)"
  have hok: "hub_ok (?h, held_in s)" and g: "geometry v ?h" using inv by (simp_all add: pipe_inv_def)
  then have pinv: "pool_inv (pool ?h)" by (simp add: hub_ok_def hub_inv_def)
  have Q: "hub_quiet (ew_consumer (e_worker (pp_enc s))) (?h, held_in s) (hub', \<lambda>k. o' k + own (in_use (e_pc (pp_enc s))) k)"
    by (rule other_quiet [OF other(2) hok])
  have "geometry v hub'" by (rule quiet_geometry [OF g pinv]) (use Q in \<open>simp add: hub_quiet_def\<close>)
  then show ?thesis using Q inv other(1) by (simp add: pipe_inv_def hub_quiet_def encoding_ok_def frames_accounted_def)
next
  case (drain c buffer rc ring' out m)
  have r: "ring_inv (e_ring (pp_enc s))" using inv by (simp add: pipe_inv_def encoding_ok_def)
  have "ring_inv ring'"
  proof (cases "ring_count (e_ring (pp_enc s)) = 0")
    case True
    then show ?thesis using drain r by (simp add: au_ring_pop_def)
  next
    case False
    then show ?thesis using pop_state [OF r drain(2) False] drain(3) advance_inv [OF r False] by simp
  qed
  then show ?thesis using inv drain(1) by (simp add: pipe_inv_def encoding_ok_def frames_accounted_def)
next
  case stop
  then show ?thesis using inv
    by (simp add: pipe_inv_def encoding_ok_def frames_accounted_def encoder_worker_stop_def source_worker_stop_def worker_ok_def)
qed (use inv in \<open>simp_all add: pipe_inv_def encoding_ok_def frames_accounted_def\<close>)

lemma pipe_run_inv: "pipe_run ops encode s t \<Longrightarrow> pipe_inv n v s \<Longrightarrow> source_extent v \<le> vs_frame_size v \<Longrightarrow> pp_captures t \<le> n \<Longrightarrow>
    pipe_inv n v t"
proof (induction rule: pipe_run.induct)
  case (pipe_more s t u)
  then show ?case using pipe_step_inv [OF pipe_more(2)] captures_mono [OF pipe_more(2)] by simp
qed

lemma pipe_start_inv:
  assumes start: "pipe_start v src w h e s" and src: "info src = v" "src_ok n src" and e: "invar e" "dims e = (w, h)"
    and size: "w mod 2 = 0" "h mod 2 = 0" "h \<noteq> 0" and small: "unat w * unat h * 3 < 2 ^ 64"
  shows "pipe_inv n v s"
  using start
proof cases
  case (1 m hub0 sw junk1 rcap rcount ring junk2 hub1 ew)
  have h0: "hub_ok (hub0, \<lambda>_. 0)" "\<And>k. refs (pool hub0) k = 0" "capacity (pool hub0) = vs_frame_size v"
    using create_hub_inv [OF 1(2)] 1(2) create_inv(3,4)
    by (auto simp: hub_ok_def frame_hub_create_def split: if_splits option.splits)
  have ew: "ew_width ew = w" "ew_height ew = h" "ew_stats ew = zero_stats" "length (ew_au_buffer ew) = AU_SCRATCH_CAPACITY"
    "length (ew_i420 ew) = (unat w * unat h * 3) mod 2 ^ 64 div 2" "(unat w * unat h * 3) mod 2 ^ 64 div 2 \<le> ENCODE_SCRATCH_MAX"
    "hub1 = fst (frame_hub_subscribe True hub0)" "ew_consumer ew = next_cid hub0"
    using 1(5) by (auto simp: encoder_worker_create_def frame_hub_subscribe_def Let_def split: if_splits)
  have "unat w mod 2 = 0" "unat h mod 2 = 0" using arg_cong [OF size(1), of unat] arg_cong [OF size(2), of unat]
    by (simp_all add: unat_mod)
  then have ev: "even (unat w)" "even (unat h)" "0 < unat h" using size(3) by (auto simp: unat_gt_0)
  have wok: "worker_ok ew" using ew ev small by (simp add: worker_ok_def)
  have "hub_step (hub0, \<lambda>_. 0) (hub1, \<lambda>_. 0)" unfolding ew(7) by (rule hub_step.subscribe)
  note H = hub_step_safe [OF this h0(1)]
  have p: "pool hub1 = pool hub0" "has_mailbox (ew_consumer ew) hub1"
    using ew(7,8) by (simp_all add: frame_hub_subscribe_def has_mailbox_def)
  have "geometry v hub1" using h0(2) p by (simp add: geometry_def)
  moreover have "ring_inv ring" using create_ring_inv [OF 1(4)] by simp
  moreover have "sw_source sw = v" "sw_captured sw = sw_sequence sw" using 1(3) by (auto simp: source_worker_create_def)
  ultimately show ?thesis
    using H p h0(3) e src ew wok unfolding 1(1)
    by (simp add: pipe_inv_def encoding_ok_def frames_accounted_def zero_stats_def in_hands_def pc_ok_def own_def)
qed

end

text \<open>The program's own path: the encoder of the factory and the source the server opens.\<close>

interpretation path: capture_path "h264_encoder_encode sys" "encoder_invar sys" encoder_dims "camera_ops drv" "camera_ok drv" camera_info
  for sys :: "('x, 'k) encoder_sys" and drv :: "'m cam_driver"
  by (rule capture_path.intro [OF h264.encoder_backend_axioms camera.video_capture_axioms])

section \<open>From the camera's bytes to the encoder's picture\<close>

text \<open>The I420 picture of the bytes of one frame.\<close>

definition picture_of :: "u32 \<Rightarrow> u32 \<Rightarrow> u32 \<Rightarrow> u32 \<Rightarrow> bytes \<Rightarrow> bytes" where
  "picture_of fmt str w h d =
     (let st = unat (row_stride fmt str w) in
      if fmt = V4L2_PIX_FMT_YUYV then i420_of_yuyv d 0 st (unat w) (unat h)
      else i420_of_planar d 0 st (st * unat h) (st * unat h + unat (row_stride fmt str w div 2) * unat (h div 2)) (unat w) (unat h))"

lemma plane_cong: "(\<And>r c. r < h \<Longrightarrow> c < w \<Longrightarrow> f r c = g r c) \<Longrightarrow> plane w h f = plane w h g"
  unfolding plane_def by (intro arg_cong [where f = concat] map_cong) auto

lemma row_bound: "r < h \<Longrightarrow> r * st + n \<le> (h - 1) * st + (n :: nat)"
proof -
  assume "r < h"
  then have "r * st \<le> (h - 1) * st" by (intro mult_le_mono1) simp
  then show ?thesis by simp
qed

lemma yuyv_shift:
  assumes same: "\<And>i. i < n \<Longrightarrow> src ! (s + i) = d ! i" and n: "(h - 1) * st + 2 * w \<le> n" and ev: "even w" "even h"
  shows "i420_of_yuyv src s st w h = i420_of_yuyv d 0 st w h"
proof -
  have at: "src ! (s + r * st + i) = d ! (0 + r * st + i)" if "r < h" "i < 2 * w" for r i
    using same [of "r * st + i"] row_bound [OF that(1), of st "2 * w"] n that(2) by (simp add: add.assoc)
  have chroma: "plane (w div 2) (h div 2) (yuyv_chroma src s st k) = plane (w div 2) (h div 2) (yuyv_chroma d 0 st k)"
    if "k < 4" for k
  proof (rule plane_cong)
    fix r c assume rc: "r < h div 2" "c < w div 2"
    have rr: "2 * r < h" "2 * r + 1 < h" "4 * c + k < 2 * w" using rc ev that by (auto elim!: evenE)
    show "yuyv_chroma src s st k r c = yuyv_chroma d 0 st k r c"
      using at [OF rr(1,3)] at [OF rr(2,3)] by (simp add: yuyv_chroma_def add.assoc)
  qed
  have "plane w h (yuyv_luma src s st) = plane w h (yuyv_luma d 0 st)"
    by (rule plane_cong) (use at in \<open>simp add: yuyv_luma_def\<close>)
  then show ?thesis using chroma [of 1] chroma [of 3] by (simp add: i420_of_yuyv_def)
qed

lemma chroma_bound: "r < h \<Longrightarrow> c < w \<Longrightarrow> r * w + c < w * (h :: nat)"
proof -
  assume rc: "r < h" "c < w"
  then have "Suc r * w \<le> h * w" by (intro mult_le_mono1) simp
  then show ?thesis using rc(2) by (simp add: mult.commute)
qed

lemma planar_shift:
  assumes same: "\<And>i. i < n \<Longrightarrow> src ! (s + i) = d ! i" and n: "(h - 1) * st + w \<le> n" "v + (w div 2) * (h div 2) \<le> n" "u \<le> v"
  shows "i420_of_planar src s st (s + u) (s + v) w h = i420_of_planar d 0 st u v w h"
proof -
  have "src ! (s + r * st + c) = d ! (0 + r * st + c)" if "r < h" "c < w" for r c
    using same [of "r * st + c"] row_bound [OF that(1), of st w] n that(2) by (simp add: add.assoc)
  then have 1: "plane w h (\<lambda>r c. src ! (s + r * st + c)) = plane w h (\<lambda>r c. d ! (0 + r * st + c))"
    by (intro plane_cong)
  have "src ! (s + o' + r * (w div 2) + c) = d ! (o' + r * (w div 2) + c)" if "r < h div 2" "c < w div 2" "o' \<le> v" for r c o'
    using same [of "o' + r * (w div 2) + c"] chroma_bound [OF that(1,2)] n that(3) by (simp add: add.assoc)
  then have 2: "plane (w div 2) (h div 2) (\<lambda>r c. src ! (s + o' + r * (w div 2) + c)) =
      plane (w div 2) (h div 2) (\<lambda>r c. d ! (o' + r * (w div 2) + c))" if "o' \<le> v" for o'
    using that by (intro plane_cong)
  show ?thesis using 1 2 [of u] 2 [of v] n(3) by (simp add: i420_of_planar_def)
qed

lemma frame_picture:
  assumes ev: "even (unat w)" "even (unat h)" and off: "data_off (frames p ! k) = k * capacity p"
    and full: "frame_extent (format (frames p ! k)) (stride (frames p ! k)) w h \<le> length d"
    and d: "frame_bytes p k = d"
  shows "frame_i420 p k w h = picture_of (format (frames p ! k)) (stride (frames p ! k)) w h d"
proof -
  let ?f = "frames p ! k"
  define st where "st = row_stride (format ?f) (stride ?f) w"
  have same: "backing p ! (data_off ?f + i) = d ! i" if "i < length d" for i
  proof -
    have "i < length (backing p) - k * capacity p" using that unfolding d [symmetric] by (simp add: frame_bytes_def)
    then have "k * capacity p \<le> length (backing p)" by linarith
    then show ?thesis using that unfolding d [symmetric] off by (simp add: frame_bytes_def nth_drop)
  qed
  show ?thesis
  proof (cases "format ?f = V4L2_PIX_FMT_YUYV")
    case True
    then have n: "(unat h - 1) * unat st + 2 * unat w \<le> length d" using full unfolding st_def by (simp add: frame_extent_def)
    show ?thesis using yuyv_shift [OF same n ev] True by (simp add: frame_i420_def picture_of_def st_def)
  next
    case False
    then have n: "(unat h - 1) * unat st + unat w \<le> length d"
      "(unat st * unat h + unat (st div 2) * unat (h div 2)) + (unat w div 2) * (unat h div 2) \<le> length d"
      using full unfolding st_def by (simp_all add: frame_extent_def Let_def unat_div)
    show ?thesis
      using planar_shift [OF same n, of "unat st * unat h"] False
      by (simp add: frame_i420_def picture_of_def st_def Let_def add.assoc)
  qed
qed

end
