(* ===== verification/Pipeline_Props.thy ===== *)
theory Pipeline_Props
  imports Capture_Pipeline H264_Encoder
begin

text \<open>
  What holds of every run of the capture pipeline, whatever order its threads take their turns in.
\<close>

section \<open>Lemmas\<close>

context capture_path
begin

text \<open>The two steps that follow the publication of a picture, with an idle, active worker.\<close>

lemma newest_encoded:
  assumes inv: "pipe_inv n v s" and pc: "e_pc (pp_enc s) = Looking" and run: "ew_running (e_worker (pp_enc s))"
    and act: "ew_has_active (e_worker (pp_enc s))" "e_active (pp_enc s)"
    and dim: "vs_width v = ew_width (e_worker (pp_enc s))" "vs_height v = ew_height (e_worker (pp_enc s))"
    and full: "source_extent v \<le> length d" and room: "length d \<le> vs_frame_size v"
    and pub: "frame_hub_publish (e_hub (pp_enc s)) (Some d) (vs_width v) (vs_height v) (vs_format v) (vs_stride v) sq ts = Some (0, h')"
  shows "\<exists>k r e' s1 s2. encoder_step encode ((pp_enc s)\<lparr>e_hub := h'\<rparr>) = Some s1 \<and> encoder_step encode s1 = Some s2 \<and>
    e_pc s2 = Coded k r ts \<and> e_encoder s2 = e' \<and> \<not> e_force_idr s2 \<and>
    encode (e_encoder (pp_enc s))
      \<lparr>pl_mem = picture_of (vs_format v) (vs_stride v) (vs_width v) (vs_height v) d, pl_y = 0,
       pl_u = unat (vs_width v) * unat (vs_height v),
       pl_v = unat (vs_width v) * unat (vs_height v) + unat (vs_width v) * unat (vs_height v) div 4\<rparr>
      ts (e_force_idr (pp_enc s)) (ew_au_buffer (e_worker (pp_enc s))) AU_SCRATCH_CAPACITY = Some (r, e')"
proof -
  let ?e = "pp_enc s" and ?h = "e_hub (pp_enc s)"
  have hok: "hub_inv (held_in s) ?h" "hub_fits ?h" and cap: "capacity (pool ?h) = vs_frame_size v" and eok: "encoding_ok ?e"
    and mb: "has_mailbox (ew_consumer (e_worker ?e)) ?h" using inv by (simp_all add: pipe_inv_def hub_ok_def)
  from pub obtain p1 k where acq: "0 < length d" "frame_pool_acquire (pool ?h) = (p1, Some k)"
    by (cases rule: publish_cases) auto
  have len: "length d \<le> capacity (pool ?h)" using room cap by simp
  obtain h1 where P: "frame_hub_publish ?h (Some d) (vs_width v) (vs_height v) (vs_format v) (vs_stride v) sq ts = Some (0, h1)"
    "hub_inv (held_in s) h1" "k < fcount (pool ?h)" "fcount (pool h1) = fcount (pool ?h)" "capacity (pool h1) = capacity (pool ?h)"
    "consumers h1 = map (\<lambda>c. c\<lparr>slot := Some k\<rparr>) (consumers ?h)"
    "frame_meta (pool h1) k = (vs_width v, vs_height v, vs_format v, vs_stride v, length d, sq, ts)" "frame_bytes (pool h1) k = d"
    by (rule publish_spec [OF hok acq(1) len acq(2), where w = "vs_width v" and hgt = "vs_height v" and fmt = "vs_format v"
        and str = "vs_stride v" and sq = sq and ts = ts]) (rule that)
  have h1: "h1 = h'" using P(1) pub by simp
  have "find_consumer ?h (ew_consumer (e_worker ?e)) \<noteq> None"
    using mb by (auto simp: has_mailbox_def find_consumer_def find_None_iff)
  then obtain x where "find_consumer h' (ew_consumer (e_worker ?e)) = Some (x\<lparr>slot := Some k\<rparr>)"
    unfolding find_consumer_def P(6) [unfolded h1] find_map_slot by auto
  then obtain h2 where tk: "frame_hub_take h' (ew_consumer (e_worker ?e)) = (h2, Some k)" by (simp add: frame_hub_take_def)
  note pool2 = take_pool [OF tk]
  define a where "a = (count_stat (\<lambda>t. t\<lparr>frames_seen := frames_seen t + 1\<rparr>) (?e\<lparr>e_hub := h'\<rparr>))\<lparr>e_hub := h2, e_pc := Working k\<rparr>"
  define b where "b = watchdog (note_active True a)"
  have one: "encoder_step encode (?e\<lparr>e_hub := h'\<rparr>) = Some a" using pc run tk by (simp add: encoder_step_def step_take_def a_def)
  have wa: "same_worker (e_worker ?e) (e_worker a)" by (simp add: a_def count_stat_def same_worker_def)
  have "same_worker (e_worker a) (e_worker (watchdog (note_active True a)))" by simp
  then have wb: "same_worker (e_worker ?e) (e_worker b)" using wa unfolding b_def by (auto simp: same_worker_def)
  have b: "e_encoder b = e_encoder ?e" "e_ring b = e_ring ?e" "e_hub b = h2" "e_force_idr b = e_force_idr ?e" "e_pc a = Working k"
    "e_hub a = h2" "e_active a = e_active ?e" by (simp_all add: b_def a_def)
  have bok: "encoding_ok b"
    by (rule encoding_ok_quiet [OF eok wb b(1,2)]) (simp add: b_def a_def pc_ok_def)
  have m: "width (frames (pool h2) ! k) = vs_width v" "height (frames (pool h2) ! k) = vs_height v"
    "format (frames (pool h2) ! k) = vs_format v" "stride (frames (pool h2) ! k) = vs_stride v"
    "timestamp_us (frames (pool h2) ! k) = ts" "fsize (frames (pool h2) ! k) = length d"
    using P(7) h1 pool2 by (simp_all add: frame_meta_def Let_def)
  have pinv: "pool_inv (pool (e_hub b))" using P(2) h1 pool2 b(3) by (simp add: hub_inv_def)
  have fits: "frame_fits (e_worker b) (pool (e_hub b)) k"
    using P(3-5) h1 pool2 b(3) full room cap m dim wb by (simp add: frame_fits_def same_worker_def)
  have ev: "even (unat (vs_width v))" "even (unat (vs_height v))" using eok dim by (simp_all add: encoding_ok_def worker_ok_def)
  have off: "data_off (frames (pool h2) ! k) = k * capacity (pool h2)"
    using pinv P(3,4) h1 pool2 b(3) by (auto simp: pool_inv_def)
  have pic: "frame_i420 (pool h2) k (vs_width v) (vs_height v) = picture_of (vs_format v) (vs_stride v) (vs_width v) (vs_height v) d"
    using frame_picture [OF ev off _ _] full m P(8) h1 pool2 by simp
  have w: "ew_width (e_worker b) = vs_width v" "ew_height (e_worker b) = vs_height v" "ew_au_buffer (e_worker b) = ew_au_buffer (e_worker ?e)"
    "ew_width (e_worker a) = vs_width v" "ew_height (e_worker a) = vs_height v" "ew_has_active (e_worker a)"
    using wa wb dim act by (simp_all add: same_worker_def)
  obtain r e' where E: "encode (e_encoder ?e)
      \<lparr>pl_mem = picture_of (vs_format v) (vs_stride v) (vs_width v) (vs_height v) d, pl_y = 0,
       pl_u = unat (vs_width v) * unat (vs_height v),
       pl_v = unat (vs_width v) * unat (vs_height v) + unat (vs_width v) * unat (vs_height v) div 4\<rparr>
      ts (e_force_idr ?e) (ew_au_buffer (e_worker ?e)) AU_SCRATCH_CAPACITY = Some (r, e')"
    and S: "\<exists>w. step_encode encode k b = Some (b\<lparr>e_worker := w, e_force_idr := False, e_encoder := e', e_pc := Coded k r ts\<rparr>)"
    using step_encode_total [OF bok pinv fits] b m pic w by auto
  from S obtain s2 where S2: "step_encode encode k b = Some s2" "e_pc s2 = Coded k r ts" "e_encoder s2 = e'" "\<not> e_force_idr s2" by auto
  have "encoder_step encode a = Some s2"
    using S2(1) b act m w acq(1) unfolding b_def by (simp add: encoder_step_def step_work_def Let_def)
  then show ?thesis using one E S2 by blast
qed

end

text \<open>The counters hold without any assumption on the encoder, the source or the sizes.\<close>

lemma pipe_step_accounted:
  assumes "pipe_step ops encode s t" "frames_accounted (pp_enc s)"
  shows "frames_accounted (pp_enc t)"
  using assms
  by cases (auto dest: encoder_step_accounted simp: frames_accounted_def encoder_worker_stop_def)

lemma pipe_run_accounted: "pipe_run ops encode s t \<Longrightarrow> frames_accounted (pp_enc s) \<Longrightarrow> frames_accounted (pp_enc t)"
  by (induction rule: pipe_run.induct) (blast intro: pipe_step_accounted)+

lemma pipe_start_accounted: "pipe_start v src w h e s \<Longrightarrow> frames_accounted (pp_enc s)"
  by (erule pipe_start.cases)
    (auto simp: frames_accounted_def in_hands_def zero_stats_def encoder_worker_create_def Let_def split: if_splits option.splits prod.splits)

text \<open>
  What the server sets up: a source it could open, an encoder opened for the size of that source, and
  the documented behaviour of the camera driver.
\<close>

definition server_pipeline :: "'m cam_driver \<Rightarrow> ('x, 'k) encoder_sys \<Rightarrow> video_source \<Rightarrow>
    (('x, 'k) h264_encoder option, 'm camera) pipeline \<Rightarrow> bool" where
  "server_pipeline drv sys v s0 \<longleftrightarrow> (\<exists>alloc_ok junk clock use_test device w h fps cam e.
     server_source drv alloc_ok junk clock use_test device w h fps = Some (Some cam) \<and> w \<le> 4096 \<and> h \<le> 4096 \<and> v = camera_info cam \<and>
     cam_ok drv \<and> cam_sizes drv \<and> encoder_invar sys e \<and> encoder_dims e = (vs_width v, vs_height v) \<and>
     vs_width v mod 2 = 0 \<and> vs_height v mod 2 = 0 \<and> vs_height v \<noteq> 0 \<and> unat (vs_width v) * unat (vs_height v) * 3 < 2 ^ 64 \<and>
     pipe_start v cam (vs_width v) (vs_height v) e s0)"

lemma server_pipeline_inv:
  assumes "server_pipeline drv sys v s0" and "pipe_run (camera_ops drv) (h264_encoder_encode sys) s0 s" and "pp_captures s \<le> 10 ^ 12"
  shows "path.pipe_inv sys drv (10 ^ 12) v s \<and> source_extent v \<le> vs_frame_size v"
proof -
  obtain alloc_ok junk clock use_test device w h fps cam e where
    S: "server_source drv alloc_ok junk clock use_test device w h fps = Some (Some cam)" "w \<le> 4096" "h \<le> 4096" "v = camera_info cam"
      "cam_ok drv" "cam_sizes drv"
    and E: "encoder_invar sys e" "encoder_dims e = (vs_width v, vs_height v)"
      "vs_width v mod 2 = 0" "vs_height v mod 2 = 0" "vs_height v \<noteq> 0" "unat (vs_width v) * unat (vs_height v) * 3 < 2 ^ 64"
    and P: "pipe_start v cam (vs_width v) (vs_height v) e s0"
    using assms(1) unfolding server_pipeline_def by (elim exE conjE) (rule that)
  have C: "camera_ok drv (10 ^ 12) cam" "source_extent v \<le> vs_frame_size v"
    using server_source_ok [OF S(1,5,6,2,3)] S(4) by simp_all
  show ?thesis
    using path.pipe_run_inv [OF assms(2) path.pipe_start_inv [OF P S(4) [symmetric] C(1) E] C(2) assms(3)] C(2) by simp
qed

text \<open>
  A pipeline to evaluate: a camera with a 2x2 planar picture, a hub of two six-byte buffers, and an
  encoder that codes every picture into one keyframe.
\<close>

definition demo_webcam :: "unit cam_driver" where
  "demo_webcam = \<lparr>cam_open = \<lambda>_. Some (), cam_querycap = \<lambda>_. Some (0x04000001, 0),
     cam_s_fmt = \<lambda>_ _ _ f. (if f = V4L2_PIX_FMT_YUYV then None
        else Some \<lparr>cf_width = 2, cf_height = 2, cf_pixelformat = f, cf_bytesperline = 2, cf_sizeimage = 6\<rparr>, ()),
     cam_s_parm = \<lambda>_ fps. (None, ()), cam_reqbufs = \<lambda>_ _. (Some 2, ()), cam_querybuf = \<lambda>_ _. Some 6,
     cam_mmap = \<lambda>_ _. True, cam_streamon = \<lambda>_. (True, ()), cam_streamoff = \<lambda>_. (), cam_poll_in = \<lambda>_. (Poll_Timeout, ()),
     cam_qbuf = \<lambda>_ _. (True, ()), cam_dqbuf = \<lambda>_. (Dq_Again, ())\<rparr>"

definition demo_cam_opened :: "unit camera" where
  "demo_cam_opened = the (the (server_source demo_webcam (\<lambda>_. True) (\<lambda>_ _. 0) (\<lambda>_. 0) False ''/dev/video0'' 2 2 30))"

definition demo_video :: video_source where
  "demo_video = camera_info demo_cam_opened"

lemma demo_server_source:
  "server_source demo_webcam (\<lambda>_. True) (\<lambda>_ _. 0) (\<lambda>_. 0) False ''/dev/video0'' 2 2 30 = Some (Some demo_cam_opened)"
proof -
  have "case server_source demo_webcam (\<lambda>_. True) (\<lambda>_ _. 0) (\<lambda>_. 0) False ''/dev/video0'' 2 2 30 of Some (Some c) \<Rightarrow> True | _ \<Rightarrow> False"
    by code_simp
  then show ?thesis unfolding demo_cam_opened_def by (auto split: option.splits)
qed

lemma demo_video_fields: "vs_width demo_video = 2" "vs_height demo_video = 2" "vs_format demo_video = V4L2_PIX_FMT_YUV420"
  "vs_stride demo_video = 2" "vs_frame_size demo_video = 6"
  by code_simp+

definition demo_pipe :: "((unit, unit) h264_encoder option, unit camera) pipeline" where
  "demo_pipe =
     (let hub0 = the (frame_hub_create True 6 2);
          (hub1, ew) = encoder_worker_create True True True (\<lambda>_. 0) hub0 2 2 True
      in \<lparr>pp_enc = \<lparr>e_hub = hub1, e_ring = the (au_ring_create True (\<lambda>_. 0) 8 2), e_force_idr = False, e_active = False,
            e_encoder = Some (X264_Enc demo_encoder), e_worker = the ew, e_pc = Looking\<rparr>,
          pp_src = demo_cam_opened, pp_source = the (source_worker_create True (Some demo_video) True), pp_others = \<lambda>_. 0,
          pp_captures = 0\<rparr>)"

definition demo_active :: "((unit, unit) h264_encoder option, unit camera) pipeline" where
  "demo_active = demo_pipe\<lparr>pp_enc := (pp_enc demo_pipe)\<lparr>e_active := True\<rparr>\<rparr>"

lemma demo_pipe_start: "pipe_start demo_video demo_cam_opened 2 2 (Some (X264_Enc demo_encoder)) demo_pipe"
proof -
  define hub0 where "hub0 = the (frame_hub_create True 6 2)"
  have hub0: "frame_hub_create True (vs_frame_size demo_video) 2 = Some hub0"
    unfolding hub0_def demo_video_fields by (simp add: frame_hub_create_def frame_pool_create_def)
  obtain hub1 ew where ew: "encoder_worker_create True True True (\<lambda>_. 0) hub0 2 2 True = (hub1, Some ew)"
    by (simp add: encoder_worker_create_def frame_hub_subscribe_def ENCODE_SCRATCH_MAX_def)
  have ring: "au_ring_create True (\<lambda>_. 0) 8 2 = Some (the (au_ring_create True (\<lambda>_. 0) 8 2))"
    by (simp add: au_ring_create_def)
  have src: "source_worker_create True (Some demo_video) True = Some (the (source_worker_create True (Some demo_video) True))"
    by (simp add: source_worker_create_def)
  show ?thesis
    unfolding demo_pipe_def Let_def hub0_def [symmetric] ew prod.case option.sel
    by (rule pipe_start.intros [OF hub0 src ring ew])
qed

lemma demo_pipe_run: "pipe_run (camera_ops demo_webcam) (h264_encoder_encode demo_sys) demo_pipe demo_active"
  unfolding demo_active_def by (rule pipe_more [OF pipe_refl set_active])

lemma demo_server: "server_pipeline demo_webcam demo_sys demo_video demo_pipe"
proof -
  have "cam_ok demo_webcam" "cam_sizes demo_webcam"
    by (auto simp: cam_ok_def cam_sizes_def demo_webcam_def cam_formats_def frame_extent_def row_stride_def Let_def
        V4L2_PIX_FMT_YUYV_def V4L2_PIX_FMT_YUV420_def)
  moreover have "encoder_invar demo_sys (Some (X264_Enc demo_encoder))" "encoder_dims (Some (X264_Enc demo_encoder)) = (2, 2)"
    by (simp_all add: x264_contiguous_def demo_sys_def demo_x264_def demo_encoder_def)
  ultimately show ?thesis
    unfolding server_pipeline_def
    using demo_server_source demo_pipe_start demo_video_fields
    by (intro exI [of _ "\<lambda>_. True"] exI [of _ "\<lambda>_ _. 0"] exI [of _ "\<lambda>_. 0"] exI [of _ False] exI [of _ "''/dev/video0''"] exI [of _ 2]
        exI [of _ 2] exI [of _ 30] exI [of _ demo_cam_opened] exI [of _ "Some (X264_Enc demo_encoder)"]) (simp add: demo_video_def)
qed

lemma demo_captures: "pp_captures demo_active = 0"
  by (simp add: demo_active_def demo_pipe_def Let_def split: prod.split)

section \<open>Properties\<close>

text \<open>
  C16. Memory safety of the capture path. Start the pipeline as the server does, with the test pattern or
  any camera whose driver behaves as documented and an encoder opened for the size of the source, and
  let its threads run in any order: for the first \<open>10 ^ 12\<close> captures, the source worker and the encode
  worker can always take their next step (no read or write leaves its buffer), and the references on a
  frame are exactly those of the mailboxes, of the other consumers and of the frame the encode worker
  has in its hands.
\<close>

theorem pipeline_safe:
  assumes "server_pipeline drv sys v s0" and "pipe_run (camera_ops drv) (h264_encoder_encode sys) s0 s"
    and "pp_captures s < 10 ^ 12"
  shows "encoder_step (h264_encoder_encode sys) (pp_enc s) \<noteq> None \<and>
    source_worker_round (camera_ops drv) (pp_source s, pp_src s, e_hub (pp_enc s)) \<noteq> None \<and>
    (\<forall>k. refs (pool (e_hub (pp_enc s))) k = slot_refs (consumers (e_hub (pp_enc s))) k + held_in s k)"
proof -
  have inv: "path.pipe_inv sys drv (10 ^ 12) v s" "source_extent v \<le> vs_frame_size v"
    using server_pipeline_inv [OF assms(1,2)] assms(3) by simp_all
  have "hub_inv (held_in s) (e_hub (pp_enc s))" using inv(1) by (simp add: path.pipe_inv_def hub_ok_def)
  then show ?thesis
    using path.worker_step [OF inv] path.source_step [OF inv(1) assms(3)] by (auto simp: hub_inv_def)
qed

lemma pipeline_safe_witness:
  "encoder_step (h264_encoder_encode demo_sys) (pp_enc demo_active) \<noteq> None \<and>
   source_worker_round (camera_ops demo_webcam) (pp_source demo_active, pp_src demo_active, e_hub (pp_enc demo_active)) \<noteq> None \<and>
   (\<forall>k. refs (pool (e_hub (pp_enc demo_active))) k = slot_refs (consumers (e_hub (pp_enc demo_active))) k + held_in demo_active k)"
  by (rule pipeline_safe [OF demo_server demo_pipe_run]) (simp add: demo_captures)

text \<open>
  Every frame is accounted for. In every state the pipeline reaches, with any encoder and any
  source, the number of frames the encode worker has taken is the sum of its five outcome counters,
  plus one for the frame it is working on or failed on.
\<close>

lemma frames_all_accounted:
  assumes "pipe_start v src w h e s0" and "pipe_run ops encode s0 s"
  shows "let t = ew_stats (e_worker (pp_enc s)) in
    frames_seen t = frames_encoded t + skipped_idle t + skipped_mismatch t + skipped_bad_size t + no_output t +
      (case e_pc (pp_enc s) of Working _ \<Rightarrow> 1 | Coded _ _ _ \<Rightarrow> 1 | Stopped failed \<Rightarrow> if failed then 1 else 0 | _ \<Rightarrow> 0)"
  using pipe_run_accounted [OF assms(2) pipe_start_accounted [OF assms(1)]]
  by (cases "e_pc (pp_enc s)") (auto simp: frames_accounted_def in_hands_def Let_def split: bool.splits)

lemma frames_all_accounted_witness:
  "let t = ew_stats (e_worker (pp_enc demo_active)) in
    frames_seen t = frames_encoded t + skipped_idle t + skipped_mismatch t + skipped_bad_size t + no_output t +
      (case e_pc (pp_enc demo_active) of Working _ \<Rightarrow> 1 | Coded _ _ _ \<Rightarrow> 1 | Stopped failed \<Rightarrow> if failed then 1 else 0 | _ \<Rightarrow> 0)"
  by (rule frames_all_accounted [OF demo_pipe_start demo_pipe_run])



end
