(* ===== verification/Janus_Sender.thy ===== *)
theory Janus_Sender
  imports Au_Ring Rtp_H264 Rtcp Fallible_Steps App_Net "HOL-Library.Sublist"
begin

text \<open>
  The alternative transport of \<^verbatim>\<open>src/janus/janus_rtp_sender.c\<close>: a thread that takes access units from the
  ring and sends them as RTP packets to a Janus gateway, sends RTCP sender reports, and turns the RTCP
  feedback of the gateway into keyframe requests. The sockets and the clocks are an argument: a state
  and one function per call. The thread is cut into steps where the encode thread can get in between:
  around each \<^verbatim>\<open>au_ring_pop\<close>.
\<close>

section \<open>The operating system\<close>

type_synonym address = "u32 \<times> u16"

text \<open>\<open>Js_Quiet\<close> is a timeout, or an event other than \<^verbatim>\<open>POLLIN\<close>.\<close>

datatype janus_poll = Js_Readable | Js_Quiet | Js_Interrupted | Js_Failed

datatype janus_recv = Datagram bytes | Recv_Interrupted

text \<open>
  \<open>jn_recv\<close> is what the calls of \<^verbatim>\<open>recvfrom\<close> return until one fails with another error than \<^verbatim>\<open>EINTR\<close>, which
  it does when the queue of the non-blocking socket is empty. \<open>jn_now\<close> and \<open>jn_wall\<close> are the
  monotonic clock in milliseconds and the real time clock in microseconds.
\<close>

record 'n janus_net =
  jn_getaddrinfo :: "string \<Rightarrow> u32 option"
  jn_socket :: "'n \<Rightarrow> nat option \<times> 'n"
  jn_bind :: "'n \<Rightarrow> nat \<Rightarrow> u16 \<Rightarrow> bool \<times> 'n"
  jn_poll :: "'n \<Rightarrow> janus_poll \<times> 'n"
  jn_recv :: "'n \<Rightarrow> janus_recv list \<times> 'n"
  jn_sendto :: "'n \<Rightarrow> address \<Rightarrow> bytes \<Rightarrow> bool \<times> 'n"
  jn_now :: "'n \<Rightarrow> u64 \<times> 'n"
  jn_wall :: "'n \<Rightarrow> u64 \<times> 'n"

section \<open>State\<close>

definition JANUS_RTP_SENDER_DEFAULT_SSRC :: u32 where "JANUS_RTP_SENDER_DEFAULT_SSRC = 0xC4FEF00D"
definition JANUS_RTP_SENDER_DEFAULT_PT :: u32 where "JANUS_RTP_SENDER_DEFAULT_PT = 96"
definition SR_INTERVAL_MS :: u64 where "SR_INTERVAL_MS = 5000"
definition RTCP_BUF_SIZE :: nat where "RTCP_BUF_SIZE = 1500"

record janus_config =
  jc_host :: "string option"
  jc_rtp_port :: u16
  jc_rtcp_port :: u16
  jc_rtcp_listen_port :: u16
  jc_ssrc :: u32
  jc_payload_type :: u32
  jc_verbose :: bool

record janus_stats =
  js_access_units :: u64
  js_packets_sent :: u32
  js_octets_sent :: u32
  js_send_errors :: u32
  js_sr_sent :: u32
  js_rtcp_received :: u32
  js_pli_received :: u32
  js_fir_received :: u32
  js_last_rtp_send_ms :: u64

definition no_janus_stats :: janus_stats where
  "no_janus_stats = \<lparr>js_access_units = 0, js_packets_sent = 0, js_octets_sent = 0, js_send_errors = 0, js_sr_sent = 0,
     js_rtcp_received = 0, js_pli_received = 0, js_fir_received = 0, js_last_rtp_send_ms = 0\<rparr>"

text \<open>
  The buffer and the packetizer are null pointers until they are allocated. Not in the C struct: the
  state of the network, and three traces, of the sockets opened and closed, of the datagrams passed to
  \<^verbatim>\<open>sendto\<close> for each of the two ports with its outcome, and of the access units taken from the ring.
\<close>

datatype fd_event = Fd_Opened nat | Fd_Closed nat

record 'n janus_sender =
  js_rtp :: address
  js_rtcp :: address
  js_ssrc :: u32
  js_payload_type :: u32
  js_au_capacity :: nat
  js_au_buffer :: "bytes option"
  js_packetizer :: "rtp_h264 option"
  js_send_fd :: int
  js_rtcp_listen_fd :: int
  js_running :: bool
  js_started :: bool
  js_verbose :: bool
  js_host_name :: string
  js_rtcp_listen_port :: u16
  js_stats :: janus_stats
  js_send_error_logged :: bool
  js_net :: 'n
  js_fds :: "fd_event list"
  js_rtp_out :: "(bytes \<times> bool) list"
  js_rtcp_out :: "(bytes \<times> bool) list"
  js_taken :: "(bytes \<times> u64) list"

abbreviation tally :: "(janus_stats \<Rightarrow> janus_stats) \<Rightarrow> 'n janus_sender \<Rightarrow> 'n janus_sender" where
  "tally f s \<equiv> s\<lparr>js_stats := f (js_stats s)\<rparr>"

section \<open>The thread\<close>

definition send_sink :: "'n janus_net \<Rightarrow> 'n janus_sender packet_sink" where
  "send_sink net s packet marker sequence =
     (case jn_sendto net (js_net s) (js_rtp s) packet of (sent, k) \<Rightarrow>
        let s1 = s\<lparr>js_net := k, js_rtp_out := js_rtp_out s @ [(packet, sent)]\<rparr> in
        if \<not> sent then tally (\<lambda>t. t\<lparr>js_send_errors := js_send_errors t + 1\<rparr>) (s1\<lparr>js_send_error_logged := True\<rparr>)
        else case jn_now net k of (now, k2) \<Rightarrow>
          tally (\<lambda>t. t\<lparr>js_packets_sent := js_packets_sent t + 1, js_octets_sent := js_octets_sent t + of_nat (length packet),
                  js_last_rtp_send_ms := now\<rparr>) (s1\<lparr>js_net := k2, js_send_error_logged := False\<rparr>))"

text \<open>\<open>junk\<close> is what the buffers on the stack hold.\<close>

definition send_sender_report :: "'n janus_net \<Rightarrow> (nat \<Rightarrow> u8) \<Rightarrow> 'n janus_sender \<Rightarrow> 'n janus_sender option" where
  "send_sender_report net junk s =
     (case jn_wall net (js_net s) of (wall_us, k) \<Rightarrow>
        do {
          p \<leftarrow> js_packetizer s;
          (len, sr) \<leftarrow> rtcp_build_sender_report (map junk [0..<RTCP_SR_SIZE]) (js_ssrc s) wall_us
            (rtp_last_ts p) (rtp_packets p) (rtp_octets p);
          data \<leftarrow> rdn sr 0 len;
          let (sent, k2) = jn_sendto net k (js_rtcp s) data;
          let s1 = s\<lparr>js_net := k2, js_rtcp_out := js_rtcp_out s @ [(data, sent)]\<rparr>;
          Some (if sent then tally (\<lambda>t. t\<lparr>js_sr_sent := js_sr_sent t + 1\<rparr>) s1 else s1)
        })"

definition rtcp_datagram :: "janus_recv \<Rightarrow> bytes \<times> bool \<times> 'n janus_sender \<Rightarrow> (bytes \<times> bool \<times> 'n janus_sender) option" where
  "rtcp_datagram r x =
     (case x of (buffer, force_idr, s) \<Rightarrow>
      case r of
        Recv_Interrupted \<Rightarrow> Some x
      | Datagram d \<Rightarrow>
          do {
            let received = take RTCP_BUF_SIZE d;
            buffer' \<leftarrow> wr buffer 0 received;
            fb \<leftarrow> rtcp_parse buffer' (length received);
            let s1 = tally (\<lambda>t. t\<lparr>js_rtcp_received := js_rtcp_received t + 1\<rparr>) s;
            Some (if fb_pli fb > 0 \<or> fb_fir fb > 0
              then (buffer', True, tally (\<lambda>t. t\<lparr>js_pli_received := js_pli_received t + of_int (fb_pli fb),
                      js_fir_received := js_fir_received t + of_int (fb_fir fb)\<rparr>) s1)
              else (buffer', force_idr, s1))
          })"

definition handle_rtcp :: "'n janus_net \<Rightarrow> (nat \<Rightarrow> u8) \<Rightarrow> bool \<Rightarrow> 'n janus_sender \<Rightarrow> (bool \<times> 'n janus_sender) option" where
  "handle_rtcp net junk force_idr s =
     (case jn_recv net (js_net s) of (rs, k) \<Rightarrow>
        map_option snd (foldo rtcp_datagram rs (map junk [0..<RTCP_BUF_SIZE], force_idr, s\<lparr>js_net := k\<rparr>)))"

text \<open>
  The state of the thread: the sender, the ring and the flag it shares with the encode thread, its
  local \<^verbatim>\<open>next_sr_ms\<close>, and where it is in its loop. \<open>jt_pushed\<close> are the access units that were pushed
  into the ring so far.
\<close>

datatype janus_pc = Polling | Draining | Reporting | Ended

record 'n janus_thread =
  jt_sender :: "'n janus_sender"
  jt_ring :: au_ring
  jt_force_idr :: bool
  jt_next_sr_ms :: u64
  jt_pc :: janus_pc
  jt_pushed :: "(bytes \<times> u64 \<times> int) list"

definition step_poll :: "'n janus_net \<Rightarrow> (nat \<Rightarrow> u8) \<Rightarrow> 'n janus_thread \<Rightarrow> 'n janus_thread option" where
  "step_poll net junk t =
     (let s = jt_sender t in
      if \<not> js_running s then Some (t\<lparr>jt_pc := Ended\<rparr>)
      else case jn_poll net (js_net s) of (ready, k) \<Rightarrow>
        let s1 = s\<lparr>js_net := k\<rparr> in
        case ready of
          Js_Interrupted \<Rightarrow> Some (t\<lparr>jt_sender := s1\<rparr>)
        | Js_Failed \<Rightarrow> Some (t\<lparr>jt_sender := s1, jt_pc := Ended\<rparr>)
        | Js_Quiet \<Rightarrow> Some (t\<lparr>jt_sender := s1, jt_pc := Draining\<rparr>)
        | Js_Readable \<Rightarrow>
            do {
              (force_idr, s2) \<leftarrow> handle_rtcp net junk (jt_force_idr t) s1;
              Some (t\<lparr>jt_sender := s2, jt_force_idr := force_idr, jt_pc := Draining\<rparr>)
            })"

definition step_drain :: "'n janus_net \<Rightarrow> 'n janus_thread \<Rightarrow> 'n janus_thread option" where
  "step_drain net t =
     (let s = jt_sender t in
      do {
        buffer \<leftarrow> js_au_buffer s;
        (rc, ring, buffer', m) \<leftarrow> au_ring_pop (jt_ring t) buffer (js_au_capacity s);
        let s1 = s\<lparr>js_au_buffer := Some buffer'\<rparr>;
        if rc = 0 then Some (t\<lparr>jt_sender := s1, jt_ring := ring, jt_pc := Reporting\<rparr>)
        else do {
          am \<leftarrow> m;
          au \<leftarrow> rdn buffer' 0 (au_size am);
          p \<leftarrow> js_packetizer s1;
          let s2 = tally (\<lambda>c. c\<lparr>js_access_units := js_access_units c + 1\<rparr>) (s1\<lparr>js_taken := js_taken s1 @ [(au, au_pts am)]\<rparr>);
          let (packets, p', s3) = rtp_h264_packetize p (Some au) (au_pts am) (send_sink net) s2;
          Some (t\<lparr>jt_sender := s3\<lparr>js_packetizer := Some p'\<rparr>, jt_ring := ring\<rparr>)
        }
      })"

definition step_report :: "'n janus_net \<Rightarrow> (nat \<Rightarrow> u8) \<Rightarrow> 'n janus_thread \<Rightarrow> 'n janus_thread option" where
  "step_report net junk t =
     (case jn_now net (js_net (jt_sender t)) of (now, k) \<Rightarrow>
        let s = (jt_sender t)\<lparr>js_net := k\<rparr> in
        if now \<ge> jt_next_sr_ms t then
          do {
            s1 \<leftarrow> send_sender_report net junk s;
            Some (t\<lparr>jt_sender := s1, jt_next_sr_ms := now + SR_INTERVAL_MS, jt_pc := Polling\<rparr>)
          }
        else Some (t\<lparr>jt_sender := s, jt_pc := Polling\<rparr>))"

definition sender_step :: "'n janus_net \<Rightarrow> (nat \<Rightarrow> u8) \<Rightarrow> 'n janus_thread \<Rightarrow> 'n janus_thread option" where
  "sender_step net junk t =
     (case jt_pc t of
        Polling \<Rightarrow> step_poll net junk t
      | Draining \<Rightarrow> step_drain net t
      | Reporting \<Rightarrow> step_report net junk t
      | Ended \<Rightarrow> Some t)"

section \<open>Life\<close>

definition resolve_host :: "'n janus_net \<Rightarrow> string \<Rightarrow> u32 option" where
  "resolve_host net host = (case inet_pton4 host of Some a \<Rightarrow> Some a | None \<Rightarrow> jn_getaddrinfo net host)"

text \<open>\<^verbatim>\<open>pthread_join\<close> returns when the thread has ended, which is up to the caller.\<close>

definition janus_rtp_sender_join :: "'n janus_sender \<Rightarrow> 'n janus_sender" where
  "janus_rtp_sender_join s = (if js_started s then s\<lparr>js_started := False\<rparr> else s)"

definition close_fd :: "int \<Rightarrow> fd_event list" where
  "close_fd fd = (if fd \<ge> 0 then [Fd_Closed (nat fd)] else [])"

text \<open>What destroying leaves: the sockets opened and closed.\<close>

definition janus_rtp_sender_destroy :: "'n janus_sender option \<Rightarrow> fd_event list" where
  "janus_rtp_sender_destroy s =
     (case s of None \<Rightarrow> [] | Some s \<Rightarrow> js_fds (janus_rtp_sender_join s) @ close_fd (js_send_fd s) @ close_fd (js_rtcp_listen_fd s))"

type_synonym 'n janus_open = "'n janus_sender fallible"

definition open_send_fd :: "'n janus_net \<Rightarrow> 'n janus_open" where
  "open_send_fd net s = (case jn_socket net (js_net s) of
     (None, k) \<Rightarrow> Some (Inl (s\<lparr>js_net := k\<rparr>))
   | (Some fd, k) \<Rightarrow> Some (Inr (s\<lparr>js_net := k, js_send_fd := int fd, js_fds := js_fds s @ [Fd_Opened fd]\<rparr>)))"

definition open_listen_fd :: "'n janus_net \<Rightarrow> u16 \<Rightarrow> 'n janus_open" where
  "open_listen_fd net port s = (case jn_socket net (js_net s) of
     (None, k) \<Rightarrow> Some (Inl (s\<lparr>js_net := k\<rparr>))
   | (Some fd, k) \<Rightarrow>
       let s1 = s\<lparr>js_rtcp_listen_fd := int fd, js_fds := js_fds s @ [Fd_Opened fd]\<rparr> in
       case jn_bind net k fd port of (bound, k2) \<Rightarrow> Some ((if bound then Inr else Inl) (s1\<lparr>js_net := k2\<rparr>)))"

definition open_buffers :: "(nat \<Rightarrow> bool) \<Rightarrow> (nat \<Rightarrow> u8) \<Rightarrow> nat \<Rightarrow> 'n janus_open" where
  "open_buffers alloc_ok junk au_capacity s =
     (let s1 = s\<lparr>js_au_capacity := au_capacity\<rparr> in
      if \<not> alloc_ok 1 then Some (Inl s1)
      else
        let s2 = s1\<lparr>js_au_buffer := Some (map junk [0..<au_capacity])\<rparr> in
        case rtp_h264_create (alloc_ok 2) of
          None \<Rightarrow> Some (Inl s2)
        | Some p \<Rightarrow> Some (Inr (s2\<lparr>js_packetizer := Some (rtp_h264_reset p (js_ssrc s2) (js_payload_type s2)), js_running := True\<rparr>)))"

definition janus_init :: "janus_config \<Rightarrow> string \<Rightarrow> 'n \<Rightarrow> 'n janus_sender" where
  "janus_init c host k =
     \<lparr>js_rtp = (0, 0), js_rtcp = (0, 0),
      js_ssrc = (if jc_ssrc c \<noteq> 0 then jc_ssrc c else JANUS_RTP_SENDER_DEFAULT_SSRC),
      js_payload_type = (if jc_payload_type c \<noteq> 0 then jc_payload_type c else JANUS_RTP_SENDER_DEFAULT_PT),
      js_au_capacity = 0, js_au_buffer = None, js_packetizer = None, js_send_fd = - 1, js_rtcp_listen_fd = - 1,
      js_running = False, js_started = False, js_verbose = jc_verbose c, js_host_name = take 255 host,
      js_rtcp_listen_port = jc_rtcp_listen_port c, js_stats = no_janus_stats, js_send_error_logged = False,
      js_net = k, js_fds = [], js_rtp_out = [], js_rtcp_out = [], js_taken = []\<rparr>"

text \<open>
  \<open>alloc_ok i\<close> is whether the \<open>i\<close>-th allocation succeeds. A failure is \<open>Inl\<close> of the sockets opened and
  closed. The ring and the flag are those of the thread state.
\<close>

definition janus_rtp_sender_create :: "'n janus_net \<Rightarrow> (nat \<Rightarrow> bool) \<Rightarrow> (nat \<Rightarrow> u8) \<Rightarrow> 'n \<Rightarrow> janus_config option \<Rightarrow> nat \<Rightarrow>
    (fd_event list + 'n janus_sender) option" where
  "janus_rtp_sender_create net alloc_ok junk k config au_capacity =
     (case config of
        None \<Rightarrow> Some (Inl [])
      | Some c \<Rightarrow>
          case jc_host c of
            None \<Rightarrow> Some (Inl [])
          | Some host \<Rightarrow>
              if au_capacity = 0 \<or> jc_rtp_port c = 0 \<or> jc_rtcp_port c = 0 \<or> jc_rtcp_listen_port c = 0 \<or> \<not> alloc_ok 0
              then Some (Inl [])
              else
                let s = janus_init c host k
                in case resolve_host net host of
                  None \<Rightarrow> Some (Inl (janus_rtp_sender_destroy (Some s)))
                | Some a \<Rightarrow>
                    (case and_then (open_send_fd net) (and_then (open_listen_fd net (jc_rtcp_listen_port c)) (open_buffers alloc_ok junk au_capacity))
                        (s\<lparr>js_rtp := (a, jc_rtp_port c), js_rtcp := (a, jc_rtcp_port c)\<rparr>) of
                       None \<Rightarrow> None
                     | Some (Inl s') \<Rightarrow> Some (Inl (janus_rtp_sender_destroy (Some s')))
                     | Some (Inr s') \<Rightarrow> Some (Inr s')))"

definition janus_rtp_sender_start :: "bool \<Rightarrow> 'n janus_sender option \<Rightarrow> int \<times> 'n janus_sender option" where
  "janus_rtp_sender_start thread_ok s =
     (case s of None \<Rightarrow> (- 1, None) | Some s1 \<Rightarrow> if \<not> thread_ok then (- 1, s) else (0, Some (s1\<lparr>js_started := True\<rparr>)))"

definition janus_rtp_sender_stop :: "'n janus_sender \<Rightarrow> 'n janus_sender" where
  "janus_rtp_sender_stop s = s\<lparr>js_running := False\<rparr>"

definition janus_rtp_sender_get_stats :: "'n janus_sender option \<Rightarrow> janus_stats" where
  "janus_rtp_sender_get_stats s = (case s of None \<Rightarrow> no_janus_stats | Some s \<Rightarrow> js_stats s)"

definition janus_rtp_sender_ssrc :: "'n janus_sender option \<Rightarrow> u32" where
  "janus_rtp_sender_ssrc s = (case s of None \<Rightarrow> 0 | Some s \<Rightarrow> js_ssrc s)"

definition janus_rtp_sender_payload_type :: "'n janus_sender option \<Rightarrow> u32" where
  "janus_rtp_sender_payload_type s = (case s of None \<Rightarrow> 0 | Some s \<Rightarrow> js_payload_type s)"

text \<open>The state in which \<^verbatim>\<open>sender_thread\<close> starts.\<close>

definition janus_thread_start :: "'n janus_sender \<Rightarrow> au_ring \<Rightarrow> bool \<Rightarrow> 'n janus_thread" where
  "janus_thread_start s ring force_idr =
     \<lparr>jt_sender = s, jt_ring = ring, jt_force_idr = force_idr, jt_next_sr_ms = 0, jt_pc = Polling, jt_pushed = []\<rparr>"

text \<open>
  All threads: the sender takes a step, the encode thread pushes an access unit, somebody sets or
  clears the keyframe flag, the server asks the sender to stop.
\<close>

inductive janus_step :: "'n janus_net \<Rightarrow> (nat \<Rightarrow> u8) \<Rightarrow> 'n janus_thread \<Rightarrow> 'n janus_thread \<Rightarrow> bool" for net junk where
  run_sender: "sender_step net junk t = Some t' \<Longrightarrow> janus_step net junk t t'"
| push_au: "au_ring_push (jt_ring t) (Some d) pts idr = Some (rc, ring) \<Longrightarrow>
    janus_step net junk t (t\<lparr>jt_ring := ring, jt_pushed := jt_pushed t @ (if rc = 0 then [(d, pts, idr)] else [])\<rparr>)"
| set_idr: "janus_step net junk t (t\<lparr>jt_force_idr := b\<rparr>)"
| stop_sender: "janus_step net junk t (t\<lparr>jt_sender := janus_rtp_sender_stop (jt_sender t)\<rparr>)"

inductive janus_run :: "'n janus_net \<Rightarrow> (nat \<Rightarrow> u8) \<Rightarrow> 'n janus_thread \<Rightarrow> 'n janus_thread \<Rightarrow> bool" for net junk where
  janus_refl: "janus_run net junk t t"
| janus_more: "janus_run net junk t u \<Longrightarrow> janus_step net junk u v \<Longrightarrow> janus_run net junk t v"

section \<open>What the sink does\<close>

text \<open>Every packet is passed on and counted once, whether it leaves or not; nothing else of the sender changes.\<close>

definition passed_on :: "(bytes \<times> bool) list \<Rightarrow> 'n janus_sender \<Rightarrow> 'n janus_sender \<Rightarrow> bool" where
  "passed_on out s s' \<longleftrightarrow> (\<exists>t l k. s' = s\<lparr>js_stats := t, js_send_error_logged := l, js_net := k, js_rtp_out := js_rtp_out s @ out\<rparr> \<and>
     js_packets_sent t + js_send_errors t = js_packets_sent (js_stats s) + js_send_errors (js_stats s) + of_nat (length out))"

lemma passed_on_nil: "passed_on [] s s"
  by (auto simp: passed_on_def intro!: exI [of _ "js_stats s"] exI [of _ "js_send_error_logged s"] exI [of _ "js_net s"])

lemma passed_on_trans:
  assumes "passed_on a s t" "passed_on b t u"
  shows "passed_on (a @ b) s u"
proof -
  obtain t1 l1 k1 where A: "t = s\<lparr>js_stats := t1, js_send_error_logged := l1, js_net := k1, js_rtp_out := js_rtp_out s @ a\<rparr>"
    "js_packets_sent t1 + js_send_errors t1 = js_packets_sent (js_stats s) + js_send_errors (js_stats s) + of_nat (length a)"
    using assms(1) unfolding passed_on_def by blast
  obtain t2 l2 k2 where B: "u = t\<lparr>js_stats := t2, js_send_error_logged := l2, js_net := k2, js_rtp_out := js_rtp_out t @ b\<rparr>"
    "js_packets_sent t2 + js_send_errors t2 = js_packets_sent (js_stats t) + js_send_errors (js_stats t) + of_nat (length b)"
    using assms(2) unfolding passed_on_def by blast
  show ?thesis
    unfolding passed_on_def
    by (intro exI [of _ t2] exI [of _ l2] exI [of _ k2] conjI) (use A B in \<open>simp_all add: algebra_simps\<close>)
qed

lemma send_sink_passed: "\<exists>sent. passed_on [(packet, sent)] s (send_sink net s packet marker q)"
proof -
  obtain sent k where a: "jn_sendto net (js_net s) (js_rtp s) packet = (sent, k)" by fastforce
  obtain now k2 where b: "jn_now net k = (now, k2)" by fastforce
  show ?thesis
    unfolding passed_on_def
    by (intro exI [of _ sent] exI [of _ "js_stats (send_sink net s packet marker q)"] exI [of _ "\<not> sent"]
        exI [of _ "js_net (send_sink net s packet marker q)"]) (simp add: send_sink_def a b Let_def)
qed

lemma sink_all_passed: "\<exists>out. map fst out = map fst ws \<and> passed_on out s (sink_all (send_sink net) ws s)"
proof (induction ws arbitrary: s)
  case Nil
  then show ?case using passed_on_nil by (intro exI [of _ "[]"]) (simp add: sink_all_def)
next
  case (Cons w ws)
  let ?s = "send_sink net s (fst w) (fst (snd w)) (snd (snd w))"
  obtain sent where a: "passed_on [(fst w, sent)] s ?s" using send_sink_passed by blast
  obtain out where b: "map fst out = map fst ws" "passed_on out ?s (sink_all (send_sink net) ws ?s)" using Cons.IH by blast
  have "sink_all (send_sink net) (w # ws) s = sink_all (send_sink net) ws ?s" by (simp add: sink_all_def)
  then show ?case using passed_on_trans [OF a b(2)] b(1) by (intro exI [of _ "(fst w, sent) # out"]) simp
qed

interpretation janus_s: rtp_sink "send_sink net"
  "\<lambda>s. \<forall>x \<in> set (js_rtp_out s). RTP_HEADER_SIZE < length (fst x) \<and> length (fst x) \<le> RTP_MAX_PACKET" for net :: "'n janus_net"
proof
  fix u :: "'n janus_sender" and pkt :: bytes and marker :: bool and q :: u16
  assume "\<forall>x \<in> set (js_rtp_out u). RTP_HEADER_SIZE < length (fst x) \<and> length (fst x) \<le> RTP_MAX_PACKET"
    "RTP_HEADER_SIZE < length pkt" "length pkt \<le> RTP_MAX_PACKET"
  then show "\<forall>x \<in> set (js_rtp_out (send_sink net u pkt marker q)). RTP_HEADER_SIZE < length (fst x) \<and> length (fst x) \<le> RTP_MAX_PACKET"
    using send_sink_passed [of pkt u net marker q] by (auto simp: passed_on_def)
qed

text \<open>The packets of a run of access units, one after the other through one packetizer.\<close>

definition packets_of :: "rtp_h264 \<Rightarrow> (bytes \<times> u64) list \<Rightarrow> rtp_h264 \<times> (bytes \<times> bool \<times> u16) list" where
  "packets_of p aus = foldl (\<lambda>x au. snd (rtp_h264_packetize (fst x) (Some (fst au)) (snd au) log_sink (snd x))) (p, []) aus"

lemma packets_of_snoc:
  assumes "packets_of p aus = (p1, log)" "d \<noteq> []"
  shows "packets_of p (aus @ [(d, pts)]) = (after_sending (rtp_prepare p1 pts) (au_payloads d 0),
    log @ wire (rtp_prepare p1 pts) (rtp_last_ts (rtp_prepare p1 pts)) (au_payloads d 0))"
  using assms by (simp add: packets_of_def packetize_eq sink_all_log)

lemma packets_of_payloads:
  "\<forall>x \<in> set aus. fst x \<noteq> [] \<Longrightarrow>
   map (\<lambda>w. drop RTP_HEADER_SIZE (fst w)) (snd (packets_of p aus)) = concat (map (\<lambda>x. map fst (au_payloads (fst x) 0)) aus)"
proof (induction aus rule: rev_induct)
  case Nil
  then show ?case by (simp add: packets_of_def)
next
  case (snoc x aus)
  obtain d pts where x: "x = (d, pts)" by (cases x)
  obtain p1 log where p: "packets_of p aus = (p1, log)" by (cases "packets_of p aus")
  show ?case using snoc packets_of_snoc [OF p, of d pts] p by (simp add: x wire_payloads)
qed

text \<open>The receiver of RFC 6184 rebuilds the NAL units of all access units.\<close>

lemma receive_units:
  "\<forall>ns \<in> set nss. \<forall>n \<in> set ns. clean_nal n \<and> nal_ok n \<Longrightarrow>
   receive [] (concat (map (\<lambda>ns. map fst (au_payloads (annexb ns) 0)) nss)) = concat nss"
proof (induction nss)
  case (Cons ns nss)
  have sc: "map fst (nals_from (annexb ns) 0) = ns" using annexb_scan [of ns "[]"] Cons.prems by simp
  then have "\<forall>x \<in> set (nals_from (annexb ns) 0). nal_ok (fst x)"
    using Cons.prems by (metis (no_types, lifting) image_eqI list.set_map list.set_intros(1))
  then show ?case using receive_au sc Cons by simp
qed simp

section \<open>The invariant\<close>

definition start_rtp :: "'n janus_sender \<Rightarrow> rtp_h264" where
  "start_rtp s = rtp_h264_reset (the (rtp_h264_create True)) (js_ssrc s) (js_payload_type s)"

text \<open>
  \<open>sender_ok\<close> is about the sender alone: its buffer and its packetizer exist, what it passed to the socket
  are the packets of the access units it took, and its counters account for them. \<open>janus_ok\<close> adds the
  ring: what was taken and what still waits was pushed in this order.
\<close>

definition sender_ok :: "'n janus_sender \<Rightarrow> bool" where
  "sender_ok s \<longleftrightarrow> (\<exists>buffer. js_au_buffer s = Some buffer \<and> length buffer = js_au_capacity s) \<and>
   (\<exists>p log. js_packetizer s = Some p \<and> packets_of (start_rtp s) (js_taken s) = (p, log) \<and> map fst (js_rtp_out s) = map fst log \<and>
     js_packets_sent (js_stats s) + js_send_errors (js_stats s) = of_nat (length (js_rtp_out s)) \<and>
     rtp_packets p = of_nat (length (js_rtp_out s))) \<and>
   (\<exists>a b. js_fds s = [Fd_Opened a, Fd_Opened b] \<and> js_send_fd s = int a \<and> js_rtcp_listen_fd s = int b) \<and>
   (\<forall>x \<in> set (js_taken s). fst x \<noteq> []) \<and>
   (\<forall>x \<in> set (js_rtp_out s). RTP_HEADER_SIZE < length (fst x) \<and> length (fst x) \<le> RTP_MAX_PACKET) \<and>
   (\<forall>x \<in> set (js_rtcp_out s). length (fst x) = RTCP_SR_SIZE)"

definition unit_of :: "bytes \<times> u64 \<times> int \<Rightarrow> bytes \<times> u64" where
  "unit_of x = (fst x, fst (snd x))"

definition janus_ok :: "'n janus_thread \<Rightarrow> bool" where
  "janus_ok t \<longleftrightarrow> sender_ok (jt_sender t) \<and> ring_inv (jt_ring t) \<and> slot_capacity (jt_ring t) \<le> js_au_capacity (jt_sender t) \<and>
     (\<forall>x \<in> set (jt_pushed t). fst x \<noteq> []) \<and>
     subseq (js_taken (jt_sender t) @ map unit_of (au_contents (jt_ring t))) (map unit_of (jt_pushed t))"

lemma sender_ok_quiet:
  assumes "sender_ok s" and "js_ssrc s' = js_ssrc s" "js_payload_type s' = js_payload_type s" "js_au_buffer s' = js_au_buffer s"
    "js_au_capacity s' = js_au_capacity s" "js_packetizer s' = js_packetizer s" "js_rtp_out s' = js_rtp_out s" "js_taken s' = js_taken s"
    "js_packets_sent (js_stats s') = js_packets_sent (js_stats s)" "js_send_errors (js_stats s') = js_send_errors (js_stats s)"
    "js_fds s' = js_fds s" "js_send_fd s' = js_send_fd s" "js_rtcp_listen_fd s' = js_rtcp_listen_fd s"
    "\<forall>x \<in> set (js_rtcp_out s'). x \<in> set (js_rtcp_out s) \<or> length (fst x) = RTCP_SR_SIZE"
  shows "sender_ok s'"
  using assms by (auto simp: sender_ok_def start_rtp_def)

lemma sender_ok_buffer: "sender_ok s \<Longrightarrow> length b = js_au_capacity s \<Longrightarrow> sender_ok (s\<lparr>js_au_buffer := Some b\<rparr>)"
  by (simp add: sender_ok_def start_rtp_def)

abbreviation janus_opens :: "'n janus_net \<Rightarrow> (nat \<Rightarrow> bool) \<Rightarrow> (nat \<Rightarrow> u8) \<Rightarrow> nat \<Rightarrow> u16 \<Rightarrow> 'n janus_open" where
  "janus_opens net alloc_ok junk cap port \<equiv>
     and_then (open_send_fd net) (and_then (open_listen_fd net port) (open_buffers alloc_ok junk cap))"

lemma janus_create_cases:
  assumes "janus_rtp_sender_create net alloc_ok junk k config cap = Some r"
  obtains "r = Inl []" | c host where "r = Inl (janus_rtp_sender_destroy (Some (janus_init c host k)))"
    | c host a b s where "janus_opens net alloc_ok junk cap (jc_rtcp_listen_port c) ((janus_init c host k)\<lparr>js_rtp := a, js_rtcp := b\<rparr>) = Some (Inl s)"
      "r = Inl (janus_rtp_sender_destroy (Some s))"
    | c host a b s where "janus_opens net alloc_ok junk cap (jc_rtcp_listen_port c) ((janus_init c host k)\<lparr>js_rtp := a, js_rtcp := b\<rparr>) = Some (Inr s)"
      "r = Inr s"
  using assms unfolding janus_rtp_sender_create_def Let_def
  by (auto split: option.splits if_splits sum.splits)

lemma janus_create_ok:
  assumes "janus_rtp_sender_create net alloc_ok junk k config cap = Some (Inr s)"
  shows "sender_ok s \<and> js_au_capacity s = cap \<and> js_taken s = [] \<and> js_running s \<and> js_stats s = no_janus_stats"
  using assms
  by (auto simp: janus_rtp_sender_create_def janus_init_def and_then_def open_send_fd_def open_listen_fd_def open_buffers_def sender_ok_def
      packets_of_def start_rtp_def rtp_h264_create_def rtp_h264_reset_def no_janus_stats_def Let_def
      split: option.splits if_splits prod.splits sum.splits)

section \<open>Feedback\<close>

text \<open>The feedback of a datagram; \<^verbatim>\<open>recvfrom\<close> cuts it to the size of the buffer.\<close>

definition feedback_of :: "janus_recv \<Rightarrow> rtcp_feedback option" where
  "feedback_of r = (case r of Recv_Interrupted \<Rightarrow> None | Datagram d \<Rightarrow> rtcp_parse (take RTCP_BUF_SIZE d) (length (take RTCP_BUF_SIZE d)))"

definition asks_keyframe :: "janus_recv \<Rightarrow> bool" where
  "asks_keyframe r \<longleftrightarrow> (case feedback_of r of None \<Rightarrow> False | Some fb \<Rightarrow> fb_pli fb > 0 \<or> fb_fir fb > 0)"

lemma datagram_step:
  assumes "length buffer = RTCP_BUF_SIZE"
  shows "\<exists>buffer' t. rtcp_datagram r (buffer, f, s) = Some (buffer', f \<or> asks_keyframe r, s\<lparr>js_stats := t\<rparr>) \<and>
    length buffer' = RTCP_BUF_SIZE \<and> js_packets_sent t = js_packets_sent (js_stats s) \<and> js_send_errors t = js_send_errors (js_stats s)"
proof (cases r)
  case (Datagram d)
  let ?d = "take RTCP_BUF_SIZE d"
  let ?b = "?d @ drop (length ?d) buffer"
  have w: "wr buffer 0 ?d = Some ?b" "length ?b = RTCP_BUF_SIZE" using assms by (simp_all add: wr_in)
  have "take (length x) (x @ y) = x" for x y :: bytes by simp
  then have "rtcp_parse ?b (length ?d) = rtcp_parse ?d (length ?d)"
    by (subst rtcp_parse_prefix) (simp_all only: length_append le_add1)
  moreover obtain fb where fb: "rtcp_parse ?d (length ?d) = Some fb"
    using rtcp_walk_safe [of "length ?d" ?d no_feedback 0] by (auto simp: rtcp_parse_def no_feedback_def)
  ultimately have p: "rtcp_parse ?b (length ?d) = Some fb" by simp
  show ?thesis
    unfolding rtcp_datagram_def Datagram janus_recv.case prod.case Let_def w(1) bind.bind_lunit p
    using w(2) fb by (auto simp: asks_keyframe_def feedback_of_def Datagram)
next
  case Recv_Interrupted
  then show ?thesis
    using assms by (auto simp: rtcp_datagram_def asks_keyframe_def feedback_of_def intro!: exI [of _ "js_stats s"])
qed

lemma datagrams_all:
  "length buffer = RTCP_BUF_SIZE \<Longrightarrow>
   \<exists>buffer' t. foldo rtcp_datagram rs (buffer, f, s) = Some (buffer', f \<or> (\<exists>r \<in> set rs. asks_keyframe r), s\<lparr>js_stats := t\<rparr>) \<and>
     js_packets_sent t = js_packets_sent (js_stats s) \<and> js_send_errors t = js_send_errors (js_stats s)"
proof (induction rs arbitrary: buffer f s)
  case Nil
  then show ?case by (auto intro!: exI [of _ "js_stats s"])
next
  case (Cons r rs)
  obtain b1 t1 where 1: "rtcp_datagram r (buffer, f, s) = Some (b1, f \<or> asks_keyframe r, s\<lparr>js_stats := t1\<rparr>)"
    "length b1 = RTCP_BUF_SIZE" "js_packets_sent t1 = js_packets_sent (js_stats s)" "js_send_errors t1 = js_send_errors (js_stats s)"
    using datagram_step [OF Cons.prems] by blast
  show ?case using Cons.IH [OF 1(2), of "f \<or> asks_keyframe r" "s\<lparr>js_stats := t1\<rparr>"] 1 by (auto simp: disj_assoc)
qed

lemma handle_rtcp_ok:
  assumes "sender_ok s"
  shows "\<exists>s'. handle_rtcp net junk f s = Some (f \<or> (\<exists>r \<in> set (fst (jn_recv net (js_net s))). asks_keyframe r), s') \<and>
    sender_ok s' \<and> js_au_capacity s' = js_au_capacity s \<and> js_taken s' = js_taken s"
proof -
  obtain rs k where r: "jn_recv net (js_net s) = (rs, k)" by fastforce
  have len: "length (map junk [0..<RTCP_BUF_SIZE]) = RTCP_BUF_SIZE" by simp
  obtain b t where f: "foldo rtcp_datagram rs (map junk [0..<RTCP_BUF_SIZE], f, s\<lparr>js_net := k\<rparr>) =
      Some (b, f \<or> (\<exists>r \<in> set rs. asks_keyframe r), s\<lparr>js_net := k, js_stats := t\<rparr>)"
    "js_packets_sent t = js_packets_sent (js_stats s)" "js_send_errors t = js_send_errors (js_stats s)"
    using datagrams_all [OF len, of rs f "s\<lparr>js_net := k\<rparr>"] by auto
  have "sender_ok (s\<lparr>js_net := k, js_stats := t\<rparr>)" by (rule sender_ok_quiet [OF assms]) (use f in auto)
  then show ?thesis using f r by (simp add: handle_rtcp_def)
qed

section \<open>The steps\<close>

lemma poll_ok:
  assumes "janus_ok t" "jt_pc t = Polling"
  shows "\<exists>t'. step_poll net junk t = Some t' \<and> janus_ok t' \<and> jt_pushed t' = jt_pushed t"
proof -
  let ?s = "jt_sender t"
  obtain ready k where p: "jn_poll net (js_net ?s) = (ready, k)" by fastforce
  have ok: "sender_ok (?s\<lparr>js_net := k\<rparr>)" by (rule sender_ok_quiet) (use assms in \<open>auto simp: janus_ok_def\<close>)
  obtain s' where h: "handle_rtcp net junk (jt_force_idr t) (?s\<lparr>js_net := k\<rparr>) =
      Some (jt_force_idr t \<or> (\<exists>r \<in> set (fst (jn_recv net k)). asks_keyframe r), s')"
    "sender_ok s'" "js_au_capacity s' = js_au_capacity ?s" "js_taken s' = js_taken ?s"
    using handle_rtcp_ok [OF ok, of net junk "jt_force_idr t"] by auto
  show ?thesis
    using assms ok h p by (auto simp: step_poll_def janus_ok_def Let_def split: janus_poll.split)
qed

lemma report_ok:
  assumes "janus_ok t"
  shows "\<exists>t'. step_report net junk t = Some t' \<and> janus_ok t' \<and> jt_pushed t' = jt_pushed t"
proof -
  let ?s = "jt_sender t"
  obtain now k where n: "jn_now net (js_net ?s) = (now, k)" by fastforce
  obtain wall k2 where w: "jn_wall net k = (wall, k2)" by fastforce
  obtain p where p: "js_packetizer ?s = Some p" using assms by (auto simp: janus_ok_def sender_ok_def)
  have "length (map junk [0..<RTCP_SR_SIZE]) = 28" by (simp add: RTCP_SR_SIZE_def)
  then obtain sr where sr: "rtcp_build_sender_report (map junk [0..<RTCP_SR_SIZE]) (js_ssrc ?s) wall (rtp_last_ts p) (rtp_packets p) (rtp_octets p) =
      Some (28, sr)" "length sr = 28"
    using sender_report_layout [of "map junk [0..<RTCP_SR_SIZE]" "js_ssrc ?s" wall "rtp_last_ts p" "rtp_packets p" "rtp_octets p"] by simp
  obtain sent k3 where s: "jn_sendto net k2 (js_rtcp ?s) sr = (sent, k3)" by fastforce
  define s' where "s' = (let s1 = ?s\<lparr>js_net := k3, js_rtcp_out := js_rtcp_out ?s @ [(sr, sent)]\<rparr> in
    if sent then tally (\<lambda>t. t\<lparr>js_sr_sent := js_sr_sent t + 1\<rparr>) s1 else s1)"
  have r: "send_sender_report net junk (?s\<lparr>js_net := k\<rparr>) = Some s'"
    using w p sr s by (simp add: send_sender_report_def s'_def Let_def)
  have "sender_ok s'"
    by (rule sender_ok_quiet [of ?s]) (use assms sr(2) in \<open>auto simp: janus_ok_def s'_def Let_def RTCP_SR_SIZE_def\<close>)
  moreover have "js_taken s' = js_taken ?s" "js_au_capacity s' = js_au_capacity ?s" by (simp_all add: s'_def Let_def)
  moreover have "sender_ok (?s\<lparr>js_net := k\<rparr>)" by (rule sender_ok_quiet) (use assms in \<open>auto simp: janus_ok_def\<close>)
  ultimately show ?thesis
    using assms n r by (auto simp: step_report_def janus_ok_def Let_def)
qed

text \<open>One access unit: its packets are passed on, in order.\<close>

lemma send_unit_ok:
  assumes ok: "sender_ok s" and p: "js_packetizer s = Some p" and d: "d \<noteq> []"
    and r: "rtp_h264_packetize p (Some d) pts (send_sink net) (tally f (s\<lparr>js_taken := js_taken s @ [(d, pts)]\<rparr>)) = (n, p', s')"
    and f: "\<And>t. js_packets_sent (f t) = js_packets_sent t" "\<And>t. js_send_errors (f t) = js_send_errors t"
  shows "sender_ok (s'\<lparr>js_packetizer := Some p'\<rparr>) \<and> js_taken s' = js_taken s @ [(d, pts)] \<and> js_au_capacity s' = js_au_capacity s"
proof -
  define s1 where "s1 = tally f (s\<lparr>js_taken := js_taken s @ [(d, pts)]\<rparr>)"
  obtain buffer log where S: "js_au_buffer s = Some buffer" "length buffer = js_au_capacity s"
    "packets_of (start_rtp s) (js_taken s) = (p, log)" "map fst (js_rtp_out s) = map fst log"
    "js_packets_sent (js_stats s) + js_send_errors (js_stats s) = of_nat (length (js_rtp_out s))" "rtp_packets p = of_nat (length (js_rtp_out s))"
    using ok p by (auto simp: sender_ok_def)
  define ws where "ws = wire (rtp_prepare p pts) (rtp_last_ts (rtp_prepare p pts)) (au_payloads d 0)"
  have E: "p' = after_sending (rtp_prepare p pts) (au_payloads d 0)" "s' = sink_all (send_sink net) ws s1"
    using r d by (simp_all add: packetize_eq ws_def s1_def)
  obtain out where out: "map fst out = map fst ws" "passed_on out s1 s'" using sink_all_passed [of ws s1 net] E(2) by blast
  obtain t l k where s': "s' = s1\<lparr>js_stats := t, js_send_error_logged := l, js_net := k, js_rtp_out := js_rtp_out s1 @ out\<rparr>"
    "js_packets_sent t + js_send_errors t = js_packets_sent (js_stats s1) + js_send_errors (js_stats s1) + of_nat (length out)"
    using out(2) unfolding passed_on_def by blast
  have new: "packets_of (start_rtp s) (js_taken s @ [(d, pts)]) = (p', log @ ws)"
    using packets_of_snoc [OF S(3) d] E(1) by (simp add: ws_def)
  have "length out = length (au_payloads d 0)" using out(1) by (metis length_map wire_length ws_def)
  then have cnt: "js_packets_sent t + js_send_errors t = of_nat (length (js_rtp_out s'))" "rtp_packets p' = of_nat (length (js_rtp_out s'))"
    using s' S(5,6) f E(1) by (simp_all add: s1_def after_sending_def)
  have "\<forall>x \<in> set (js_rtp_out s1). RTP_HEADER_SIZE < length (fst x) \<and> length (fst x) \<le> RTP_MAX_PACKET"
    using ok by (simp add: s1_def sender_ok_def)
  from janus_s.packetize_keeps [OF this, of p "Some d" pts net]
  have sz: "\<forall>x \<in> set (js_rtp_out s'). RTP_HEADER_SIZE < length (fst x) \<and> length (fst x) \<le> RTP_MAX_PACKET"
    using r by (simp add: s1_def)
  have "map fst (js_rtp_out s') = map fst (log @ ws)" using s'(1) S(4) out(1) by (simp add: s1_def)
  moreover have "start_rtp (s'\<lparr>js_packetizer := Some p'\<rparr>) = start_rtp s" by (simp add: start_rtp_def s'(1) s1_def)
  moreover have "js_taken s' = js_taken s @ [(d, pts)]" "js_au_buffer s' = js_au_buffer s" "js_au_capacity s' = js_au_capacity s"
    "js_rtcp_out s' = js_rtcp_out s" "js_stats s' = t" "js_fds s' = js_fds s" "js_send_fd s' = js_send_fd s"
    "js_rtcp_listen_fd s' = js_rtcp_listen_fd s" by (simp_all add: s'(1) s1_def)
  ultimately show ?thesis using new cnt sz ok d S(1,2) by (auto simp: sender_ok_def)
qed

lemma drain_ok:
  assumes "janus_ok t"
  shows "\<exists>t'. step_drain net t = Some t' \<and> janus_ok t' \<and> jt_pushed t' = jt_pushed t \<and>
    js_taken (jt_sender t') = js_taken (jt_sender t) @ map unit_of (take 1 (au_contents (jt_ring t)))"
proof -
  let ?s = "jt_sender t"
  have ok: "sender_ok ?s" and ring: "ring_inv (jt_ring t)" "slot_capacity (jt_ring t) \<le> js_au_capacity ?s"
    and order: "subseq (js_taken ?s @ map unit_of (au_contents (jt_ring t))) (map unit_of (jt_pushed t))"
    and ne: "\<forall>x \<in> set (jt_pushed t). fst x \<noteq> []"
    using assms by (simp_all add: janus_ok_def)
  obtain buffer p where B: "js_au_buffer ?s = Some buffer" "length buffer = js_au_capacity ?s" "js_packetizer ?s = Some p"
    using ok by (auto simp: sender_ok_def)
  show ?thesis
  proof (cases "au_contents (jt_ring t)")
    case Nil
    have "sender_ok (?s\<lparr>js_au_buffer := Some buffer\<rparr>)" by (rule sender_ok_buffer [OF ok B(2)])
    then show ?thesis using assms B Nil by (simp add: step_drain_def pop_empty janus_ok_def)
  next
    case (Cons x q)
    obtain d pts idr where x: "x = (d, pts, idr)" by (cases x)
    have "(d, pts) \<in> set (js_taken ?s @ map unit_of (au_contents (jt_ring t)))" using Cons x by (simp add: unit_of_def)
    then have "(d, pts) \<in> set (map unit_of (jt_pushed t))" by (rule list_emb_set [OF order]) simp
    then have d: "d \<noteq> []" using ne by (auto simp: unit_of_def)
    obtain ring' m where P: "au_ring_pop (jt_ring t) buffer (js_au_capacity ?s) = Some (1, ring', d @ drop (length d) buffer,
        Some \<lparr>au_pts = pts, au_seq = m, au_idr = idr, au_size = length d\<rparr>)"
      "ring_inv ring'" "au_contents ring' = q" "slot_capacity ring' = slot_capacity (jt_ring t)" "length d \<le> js_au_capacity ?s"
      by (rule pop_into [OF ring _ Cons [unfolded x], of buffer]) (use B(2) in auto)
    define s1 where "s1 = ?s\<lparr>js_au_buffer := Some (d @ drop (length d) buffer)\<rparr>"
    have ok1: "sender_ok s1" unfolding s1_def by (rule sender_ok_buffer [OF ok]) (use B(2) P(5) in simp)
    let ?f = "\<lambda>c. c\<lparr>js_access_units := js_access_units c + 1\<rparr>"
    obtain n p' s3 where R: "rtp_h264_packetize p (Some d) pts (send_sink net) (tally ?f (s1\<lparr>js_taken := js_taken s1 @ [(d, pts)]\<rparr>)) = (n, p', s3)"
      by (cases "rtp_h264_packetize p (Some d) pts (send_sink net) (tally ?f (s1\<lparr>js_taken := js_taken s1 @ [(d, pts)]\<rparr>))") auto
    have U: "sender_ok (s3\<lparr>js_packetizer := Some p'\<rparr>) \<and> js_taken s3 = js_taken s1 @ [(d, pts)] \<and> js_au_capacity s3 = js_au_capacity s1"
      by (rule send_unit_ok [where f = ?f, OF ok1 _ d R]) (use B(3) in \<open>auto simp: s1_def\<close>)
    have "step_drain net t = Some (t\<lparr>jt_sender := s3\<lparr>js_packetizer := Some p'\<rparr>, jt_ring := ring'\<rparr>)"
      using B P(1) R unfolding s1_def by (simp add: step_drain_def Let_def)
    then show ?thesis
      using U P(2-4) ring(2) order ne Cons x by (simp add: janus_ok_def s1_def unit_of_def)
  qed
qed

lemma sender_step_ok:
  assumes "janus_ok t"
  shows "\<exists>t'. sender_step net junk t = Some t' \<and> janus_ok t' \<and> jt_pushed t' = jt_pushed t"
  using poll_ok [OF assms, of net junk] drain_ok [OF assms, of net] report_ok [OF assms, of net junk] assms
  by (cases "jt_pc t") (auto simp: sender_step_def)

lemma poll_readable:
  assumes "janus_ok t" "jt_pc t = Polling" "js_running (jt_sender t)" "jn_poll net (js_net (jt_sender t)) = (Js_Readable, k1)"
  obtains s' where "sender_step net junk t = Some (t\<lparr>jt_sender := s',
      jt_force_idr := jt_force_idr t \<or> (\<exists>r \<in> set (fst (jn_recv net k1)). asks_keyframe r), jt_pc := Draining\<rparr>)"
    "js_taken s' = js_taken (jt_sender t)"
proof -
  let ?s = "(jt_sender t)\<lparr>js_net := k1\<rparr>"
  have "sender_ok ?s" by (rule sender_ok_quiet [of "jt_sender t"]) (use assms(1) in \<open>auto simp: janus_ok_def\<close>)
  from handle_rtcp_ok [OF this, of net junk "jt_force_idr t"] obtain s' where
    "handle_rtcp net junk (jt_force_idr t) ?s = Some (jt_force_idr t \<or> (\<exists>r \<in> set (fst (jn_recv net k1)). asks_keyframe r), s')"
    "js_taken s' = js_taken (jt_sender t)" by auto
  then show thesis using assms(2-4) by (intro that [of s']) (simp_all add: sender_step_def step_poll_def Let_def)
qed

lemma subseq_set: "subseq xs ys \<Longrightarrow> x \<in> set xs \<Longrightarrow> x \<in> set ys"
  by (auto elim: list_emb_set)

lemma subseq_push:
  assumes "subseq (a @ map f q) xs"
  shows "subseq (a @ map f (push_newest n q x)) (xs @ [f x])"
proof -
  have "subseq (a @ map f (tl q)) (a @ map f q)" by (cases q) (auto simp: subseq_append')
  then have "subseq (a @ map f (tl q)) xs" using assms subseq_order.order_trans by blast
  then have "subseq ((a @ map f (tl q)) @ [f x]) (xs @ [f x])" "subseq ((a @ map f q) @ [f x]) (xs @ [f x])"
    using assms by (simp_all only: subseq_append)
  then show ?thesis by (simp add: push_newest_def)
qed

lemma janus_step_ok: "janus_step net junk t t' \<Longrightarrow> janus_ok t \<Longrightarrow> janus_ok t'"
proof (induction rule: janus_step.induct)
  case (run_sender t t')
  then show ?case using sender_step_ok [of t net junk] by auto
next
  case (push_au t d pts idr rc ring)
  have ok: "ring_inv (jt_ring t)" "subseq (js_taken (jt_sender t) @ map unit_of (au_contents (jt_ring t))) (map unit_of (jt_pushed t))"
    using push_au.prems by (simp_all add: janus_ok_def)
  note P = push_outcome [OF ok(1) push_au.hyps]
  show ?case
  proof (cases "rc = 0")
    case True
    then have "d \<noteq> []" "au_contents ring = push_newest (slot_count (jt_ring t)) (au_contents (jt_ring t)) (d, pts, idr)"
      using P by auto
    then show ?thesis
      using True P push_au.prems subseq_push [OF ok(2), of "slot_count (jt_ring t)" "(d, pts, idr)"] by (auto simp: janus_ok_def)
  next
    case False
    then show ?thesis using P push_au.prems by (auto simp: janus_ok_def)
  qed
next
  case (set_idr t b)
  then show ?case by (simp add: janus_ok_def)
next
  case (stop_sender t)
  have "sender_ok (janus_rtp_sender_stop (jt_sender t))"
    by (rule sender_ok_quiet) (use stop_sender in \<open>auto simp: janus_ok_def janus_rtp_sender_stop_def\<close>)
  then show ?case using stop_sender by (simp add: janus_ok_def janus_rtp_sender_stop_def)
qed

lemma janus_run_ok: "janus_run net junk t t' \<Longrightarrow> janus_ok t \<Longrightarrow> janus_ok t'"
  by (induction rule: janus_run.induct) (blast intro: janus_step_ok)+

lemma janus_start_ok:
  assumes "janus_rtp_sender_create net alloc_ok junk k config cap = Some (Inr s)" and "au_ring_create ok junk' cap n = Some ring"
  shows "janus_ok (janus_thread_start s ring f)"
  using janus_create_ok [OF assms(1)] create_ring_inv [OF assms(2)] by (simp add: janus_ok_def janus_thread_start_def)

section \<open>Sockets\<close>

definition fds_opened :: "fd_event list \<Rightarrow> nat list" where
  "fds_opened tr = concat (map (\<lambda>e. case e of Fd_Opened fd \<Rightarrow> [fd] | Fd_Closed fd \<Rightarrow> []) tr)"

definition fds_closed :: "fd_event list \<Rightarrow> nat list" where
  "fds_closed tr = concat (map (\<lambda>e. case e of Fd_Opened fd \<Rightarrow> [] | Fd_Closed fd \<Rightarrow> [fd]) tr)"

definition holds_fds :: "nat list \<Rightarrow> 'n janus_sender \<Rightarrow> bool" where
  "holds_fds fds s \<longleftrightarrow> js_fds s = map Fd_Opened fds \<and>
     [js_send_fd s, js_rtcp_listen_fd s] = take 2 (map int fds @ [- 1, - 1])"

definition some_fds :: "'n janus_sender \<Rightarrow> bool" where
  "some_fds s \<longleftrightarrow> holds_fds [] s \<or> (\<exists>a. holds_fds [a] s) \<or> (\<exists>a b. holds_fds [a, b] s)"

lemma destroy_closes: "some_fds s \<Longrightarrow> fds_closed (janus_rtp_sender_destroy (Some s)) = fds_opened (janus_rtp_sender_destroy (Some s))"
  by (auto simp: some_fds_def holds_fds_def janus_rtp_sender_destroy_def janus_rtp_sender_join_def close_fd_def fds_opened_def fds_closed_def)

lemma open_steps_fds:
  "steps_to some_fds (holds_fds []) (open_send_fd net) (\<lambda>s. \<exists>a. holds_fds [a] s)"
  "steps_to some_fds (\<lambda>s. \<exists>a. holds_fds [a] s) (open_listen_fd net port) (\<lambda>s. \<exists>a b. holds_fds [a, b] s)"
  "steps_to some_fds (\<lambda>s. \<exists>a b. holds_fds [a, b] s) (open_buffers alloc_ok junk cap) (\<lambda>s. \<exists>a b. holds_fds [a, b] s)"
  by (rule steps_toI;
      auto simp: open_send_fd_def open_listen_fd_def open_buffers_def some_fds_def holds_fds_def Let_def
        split: option.splits prod.splits if_splits)+

lemma init_fds: "holds_fds [] (janus_init c host k)" "holds_fds [] ((janus_init c host k)\<lparr>js_rtp := a, js_rtcp := b\<rparr>)"
  by (simp_all add: holds_fds_def janus_init_def)

lemma janus_create_fails:
  assumes "janus_rtp_sender_create net alloc_ok junk k config cap = Some (Inl tr)"
  shows "fds_closed tr = fds_opened tr"
proof -
  note steps = steps_to_then [OF open_steps_fds(1) steps_to_then [OF open_steps_fds(2,3)]]
  have empty: "fds_closed [] = fds_opened []" by (simp add: fds_closed_def fds_opened_def)
  show ?thesis
    using assms
  proof (cases rule: janus_create_cases)
    case (2 c host)
    have "some_fds (janus_init c host k)" by (simp add: some_fds_def init_fds)
    then show ?thesis using 2 destroy_closes by simp
  next
    case (3 c host a b s)
    then show ?thesis using steps_toD(1) [OF steps init_fds(2) 3(1)] destroy_closes by simp
  qed (simp_all add: empty)
qed

lemma janus_destroy_closes: "sender_ok s \<Longrightarrow> fds_closed (janus_rtp_sender_destroy (Some s)) = fds_opened (janus_rtp_sender_destroy (Some s))"
  by (auto simp: sender_ok_def janus_rtp_sender_destroy_def janus_rtp_sender_join_def close_fd_def fds_opened_def fds_closed_def)

section \<open>A sender to evaluate\<close>

text \<open>A network that takes every packet but has one picture loss indication waiting, on two descriptors.\<close>

definition pli_packet :: "u32 \<Rightarrow> u32 \<Rightarrow> bytes" where
  "pli_packet sender media = [0x81, 206, 0, 2] @ be32 sender @ be32 media"

lemma pli_asks: "asks_keyframe (Datagram (pli_packet sender media))"
proof -
  let ?p = "pli_packet sender media"
  have len: "length ?p = 12" by (simp add: pli_packet_def)
  have "(unat (of_be16 0 2) + 1) * 4 = 12" by code_simp
  then have p: "?p ! 0 = 0x81" "?p ! 1 = 206" "packet_len_at ?p 0 = 12"
    by (simp_all add: pli_packet_def packet_len_at_def be16_at_def numeral_2_eq_2)
  have c: "drop_bit 6 (0x81 :: u8) = 2" "(0x81 :: u8) AND 0x1F = 1" by code_simp+
  have "rtcp_parse ?p 12 = Some (no_feedback\<lparr>fb_pli := 1\<rparr>)"
    unfolding rtcp_parse_def
    by (subst rtcp_walk_step) (simp_all add: len p [simplified] c rtcp_packet_def rtcp_walk_stop, simp add: no_feedback_def)
  then show ?thesis by (simp add: asks_keyframe_def feedback_of_def len RTCP_BUF_SIZE_def)
qed

definition demo_net :: "nat janus_net" where
  "demo_net = \<lparr>jn_getaddrinfo = \<lambda>_. Some 0x7F000001, jn_socket = \<lambda>k. (Some k, Suc k),
     jn_bind = \<lambda>k fd port. (True, k), jn_poll = \<lambda>k. (Js_Readable, k), jn_recv = \<lambda>k. ([Recv_Interrupted, Datagram (pli_packet 1 2)], k),
     jn_sendto = \<lambda>k a d. (True, k), jn_now = \<lambda>k. (0, k), jn_wall = \<lambda>k. (0, k)\<rparr>"

definition demo_janus_config :: janus_config where
  "demo_janus_config = \<lparr>jc_host = Some ''localhost'', jc_rtp_port = 5004, jc_rtcp_port = 5005, jc_rtcp_listen_port = 5006,
     jc_ssrc = 0, jc_payload_type = 0, jc_verbose = False\<rparr>"

definition demo_janus :: "nat janus_sender" where
  "demo_janus = (janus_init demo_janus_config ''localhost'' 3)\<lparr>js_rtp := (0x7F000001, 5004), js_rtcp := (0x7F000001, 5005),
     js_net := 5, js_send_fd := 3, js_rtcp_listen_fd := 4, js_fds := [Fd_Opened 3, Fd_Opened 4], js_au_capacity := 16,
     js_au_buffer := Some (replicate 16 0), js_packetizer := Some \<lparr>rtp_ssrc = 0xC4FEF00D, rtp_pt = 96, rtp_seq = 0, rtp_base_pts = 0,
        rtp_have_base = False, rtp_last_ts = 0, rtp_packets = 0, rtp_octets = 0\<rparr>, js_running := True\<rparr>"

lemma demo_janus: "janus_rtp_sender_create demo_net (\<lambda>_. True) (\<lambda>_. 0) 3 (Some demo_janus_config) 16 = Some (Inr demo_janus)"
proof -
  have "resolve_host demo_net ''localhost'' = Some 0x7F000001" by (simp add: resolve_host_def demo_net_def inet_pton4_def split: option.split)
  then show ?thesis
    by (simp add: janus_rtp_sender_create_def demo_janus_config_def and_then_def open_send_fd_def open_listen_fd_def open_buffers_def
        demo_net_def demo_janus_def janus_init_def rtp_h264_create_def rtp_h264_reset_def Let_def map_replicate_const
        JANUS_RTP_SENDER_DEFAULT_SSRC_def JANUS_RTP_SENDER_DEFAULT_PT_def)
qed

definition demo_janus_ring :: au_ring where
  "demo_janus_ring = the (au_ring_create True (\<lambda>_. 0) 16 2)"

lemma demo_janus_ring: "au_ring_create True (\<lambda>_. 0) 16 2 = Some demo_janus_ring"
  by (simp add: demo_janus_ring_def au_ring_create_def)

text \<open>An access unit is pushed, the sender polls, drains the ring and reports.\<close>

definition demo_janus_pushed :: "nat janus_thread" where
  "demo_janus_pushed = (let t = janus_thread_start demo_janus demo_janus_ring False; d = annexb [[0x67, 1], [0x65, 2, 3]] in
     case au_ring_push (jt_ring t) (Some d) 40 1 of Some (rc, ring) \<Rightarrow>
       t\<lparr>jt_ring := ring, jt_pushed := jt_pushed t @ (if rc = 0 then [(d, 40, 1)] else [])\<rparr>)"

definition demo_janus_after :: "nat janus_thread" where
  "demo_janus_after = the (sender_step demo_net (\<lambda>_. 0) (the (sender_step demo_net (\<lambda>_. 0) demo_janus_pushed)))"

lemma demo_pushed_run: "janus_run demo_net (\<lambda>_. 0) (janus_thread_start demo_janus demo_janus_ring False) demo_janus_pushed"
proof -
  let ?t = "janus_thread_start demo_janus demo_janus_ring False" and ?d = "annexb [[0x67, 1], [0x65, 2, 3]]"
  have "case au_ring_push (jt_ring ?t) (Some ?d) 40 1 of Some (rc, ring) \<Rightarrow> True | _ \<Rightarrow> False" by code_simp
  then obtain rc ring where p: "au_ring_push (jt_ring ?t) (Some ?d) 40 1 = Some (rc, ring)" by (auto split: option.splits)
  show ?thesis
    unfolding demo_janus_pushed_def Let_def p option.case prod.case by (rule janus_more [OF janus_refl push_au [OF p]])
qed

lemma demo_janus_pushed: "janus_ok demo_janus_pushed" "jt_pc demo_janus_pushed = Polling" "js_running (jt_sender demo_janus_pushed)"
  "js_taken (jt_sender demo_janus_pushed) = []" "jt_pushed demo_janus_pushed = [(annexb [[0x67, 1], [0x65, 2, 3]], 40, 1)]"
  "au_contents (jt_ring demo_janus_pushed) = [(annexb [[0x67, 1], [0x65, 2, 3]], 40, 1)]"
  by (rule janus_run_ok [OF demo_pushed_run janus_start_ok [OF demo_janus demo_janus_ring]]) code_simp+

lemma demo_net_calls: "jn_poll demo_net k = (Js_Readable, k)" "jn_recv demo_net k = ([Recv_Interrupted, Datagram (pli_packet 1 2)], k)"
  by (simp_all add: demo_net_def)

lemma demo_after:
  "janus_run demo_net (\<lambda>_. 0) (janus_thread_start demo_janus demo_janus_ring False) demo_janus_after"
  "js_taken (jt_sender demo_janus_after) = [(annexb [[0x67, 1], [0x65, 2, 3]], 40)]"
  "jt_pushed demo_janus_after = [(annexb [[0x67, 1], [0x65, 2, 3]], 40, 1)]"
proof -
  note P = demo_janus_pushed
  obtain s' where S: "sender_step demo_net (\<lambda>_. 0) demo_janus_pushed = Some (demo_janus_pushed\<lparr>jt_sender := s',
      jt_force_idr := jt_force_idr demo_janus_pushed \<or> (\<exists>r \<in> set (fst (jn_recv demo_net (js_net (jt_sender demo_janus_pushed)))). asks_keyframe r),
      jt_pc := Draining\<rparr>)" "js_taken s' = js_taken (jt_sender demo_janus_pushed)"
    by (rule poll_readable [OF P(1-3) demo_net_calls(1)])
  define t1 where "t1 = the (sender_step demo_net (\<lambda>_. 0) demo_janus_pushed)"
  have 1: "sender_step demo_net (\<lambda>_. 0) demo_janus_pushed = Some t1" "jt_pc t1 = Draining" "js_taken (jt_sender t1) = []"
    "jt_ring t1 = jt_ring demo_janus_pushed" "jt_pushed t1 = jt_pushed demo_janus_pushed"
    using S P(4) by (simp_all add: t1_def)
  have ok1: "janus_ok t1" using sender_step_ok [OF P(1), of demo_net "\<lambda>_. 0"] 1(1) by simp
  obtain t2 where 2: "sender_step demo_net (\<lambda>_. 0) t1 = Some t2" "jt_pushed t2 = jt_pushed t1"
    "js_taken (jt_sender t2) = js_taken (jt_sender t1) @ map unit_of (take 1 (au_contents (jt_ring t1)))"
    using drain_ok [OF ok1, of demo_net] 1(2) by (auto simp: sender_step_def)
  have e: "demo_janus_after = t2" by (simp add: demo_janus_after_def 1(1) 2(1))
  show "janus_run demo_net (\<lambda>_. 0) (janus_thread_start demo_janus demo_janus_ring False) demo_janus_after"
    unfolding e by (rule janus_more [OF janus_more [OF demo_pushed_run run_sender [OF 1(1)]] run_sender [OF 2(1)]])
  show "js_taken (jt_sender demo_janus_after) = [(annexb [[0x67, 1], [0x65, 2, 3]], 40)]"
    "jt_pushed demo_janus_after = [(annexb [[0x67, 1], [0x65, 2, 3]], 40, 1)]"
    using 1 2(2,3) P(5,6) by (simp_all add: e unit_of_def)
qed

section \<open>Properties\<close>

text \<open>
  C21. The Janus sender never touches memory outside its buffers, whatever the network does, whatever the
  gateway sends, and however its steps and those of the encode thread interleave: from every state it
  reaches it can take its next step. Every RTP datagram carries a header and fits 1200 bytes, every
  sender report is 28 bytes long, each packet is counted once as sent or as an error, and destroying the
  sender closes exactly the two sockets it opened.
\<close>

theorem janus_sender_safe:
  assumes "janus_rtp_sender_create net alloc_ok junk k config cap = Some (Inr s0)" and "au_ring_create ok junk' cap n = Some ring"
    and "janus_run net junk (janus_thread_start s0 ring f) t"
  shows "sender_step net junk t \<noteq> None \<and>
    (\<forall>x \<in> set (js_rtp_out (jt_sender t)). RTP_HEADER_SIZE < length (fst x) \<and> length (fst x) \<le> RTP_MAX_PACKET) \<and>
    (\<forall>x \<in> set (js_rtcp_out (jt_sender t)). length (fst x) = RTCP_SR_SIZE) \<and>
    js_packets_sent (js_stats (jt_sender t)) + js_send_errors (js_stats (jt_sender t)) = of_nat (length (js_rtp_out (jt_sender t))) \<and>
    fds_closed (janus_rtp_sender_destroy (Some (jt_sender t))) = fds_opened (janus_rtp_sender_destroy (Some (jt_sender t)))"
proof -
  have ok: "janus_ok t" by (rule janus_run_ok [OF assms(3) janus_start_ok [OF assms(1,2)]])
  then have s: "sender_ok (jt_sender t)" by (simp add: janus_ok_def)
  show ?thesis using sender_step_ok [OF ok, of net junk] janus_destroy_closes [OF s] s by (auto simp: sender_ok_def)
qed

lemma janus_sender_safe_witness:
  "sender_step demo_net (\<lambda>_. 0) demo_janus_after \<noteq> None \<and>
   js_packets_sent (js_stats (jt_sender demo_janus_after)) + js_send_errors (js_stats (jt_sender demo_janus_after)) =
     of_nat (length (js_rtp_out (jt_sender demo_janus_after)))"
  using janus_sender_safe [OF demo_janus demo_janus_ring demo_after(1)] by simp

text \<open>
  C20. The stream arrives as it was encoded. In every state the sender reaches, the packets it has handed
  to its socket are, for a receiver that follows RFC 6184, exactly the NAL units of the access units it
  has taken from the ring, in order; these access units were pushed in this order, each at most once.
  The access units are made of NAL units with four byte start codes, as in \<open>rtp_roundtrip\<close>.
\<close>

theorem janus_stream_rebuilt:
  assumes "janus_rtp_sender_create net alloc_ok junk k config cap = Some (Inr s0)" and "au_ring_create ok junk' cap n = Some ring"
    and "janus_run net junk (janus_thread_start s0 ring f) t"
    and "\<forall>x \<in> set (jt_pushed t). \<exists>ns. fst x = annexb ns \<and> (\<forall>n \<in> set ns. clean_nal n \<and> nal_ok n)"
  shows "\<exists>nss. map fst (js_taken (jt_sender t)) = map annexb nss \<and>
    receive [] (map (\<lambda>x. drop RTP_HEADER_SIZE (fst x)) (js_rtp_out (jt_sender t))) = concat nss \<and>
    subseq (js_taken (jt_sender t)) (map unit_of (jt_pushed t))"
proof -
  let ?s = "jt_sender t"
  have ok: "janus_ok t" by (rule janus_run_ok [OF assms(3) janus_start_ok [OF assms(1,2)]])
  then obtain p log where S: "packets_of (start_rtp ?s) (js_taken ?s) = (p, log)" "map fst (js_rtp_out ?s) = map fst log"
    "\<forall>x \<in> set (js_taken ?s). fst x \<noteq> []" by (auto simp: janus_ok_def sender_ok_def)
  have "subseq (js_taken ?s @ map unit_of (au_contents (jt_ring t))) (map unit_of (jt_pushed t))" using ok by (simp add: janus_ok_def)
  then have order: "subseq (js_taken ?s) (map unit_of (jt_pushed t))"
    using subseq_rev_drop_many subseq_order.order_trans by blast
  have "\<exists>ns. fst x = annexb ns \<and> (\<forall>n \<in> set ns. clean_nal n \<and> nal_ok n)" if "x \<in> set (js_taken ?s)" for x
    using subseq_set [OF order that] assms(4) by (fastforce simp: unit_of_def)
  then obtain g where g: "\<And>x. x \<in> set (js_taken ?s) \<Longrightarrow> fst x = annexb (g x) \<and> (\<forall>n \<in> set (g x). clean_nal n \<and> nal_ok n)"
    by metis
  define nss where "nss = map g (js_taken ?s)"
  have nss: "map fst (js_taken ?s) = map annexb nss" "\<forall>ns \<in> set nss. \<forall>n \<in> set ns. clean_nal n \<and> nal_ok n"
    using g by (auto simp: nss_def)
  have "map (\<lambda>x. drop RTP_HEADER_SIZE (fst x)) (js_rtp_out ?s) = map (drop RTP_HEADER_SIZE) (map fst log)"
    by (simp flip: S(2))
  also have "\<dots> = concat (map (\<lambda>d. map fst (au_payloads d 0)) (map fst (js_taken ?s)))"
    using packets_of_payloads [OF S(3), of "start_rtp ?s"] S(1) by (simp add: comp_def)
  finally have "receive [] (map (\<lambda>x. drop RTP_HEADER_SIZE (fst x)) (js_rtp_out ?s)) = concat nss"
    using receive_units [OF nss(2)] by (simp add: nss(1) comp_def)
  then show ?thesis using nss(1) order by blast
qed

lemma janus_stream_rebuilt_witness:
  "\<exists>nss. map annexb nss = [annexb [[0x67, 1], [0x65, 2, 3]]] \<and>
    receive [] (map (\<lambda>x. drop RTP_HEADER_SIZE (fst x)) (js_rtp_out (jt_sender demo_janus_after))) = concat nss"
proof -
  have h: "\<forall>x \<in> set (jt_pushed demo_janus_after). \<exists>ns. fst x = annexb ns \<and> (\<forall>n \<in> set ns. clean_nal n \<and> nal_ok n)"
    using demo_au(2) by (auto simp: demo_after(3))
  show ?thesis
    using janus_stream_rebuilt [OF demo_janus demo_janus_ring demo_after(1) h] by (simp add: demo_after(2)) metis
qed

text \<open>
  A viewer that cannot decode gets a keyframe. When the socket is readable, the flag for the encode
  thread is set after the sender's step if and only if it was set before or one of the datagrams that
  were waiting asks for it; a picture loss indication of RFC 4585 does.
\<close>

lemma janus_feedback_keyframe:
  assumes "janus_rtp_sender_create net alloc_ok junk k config cap = Some (Inr s0)" and "au_ring_create ok junk' cap n = Some ring"
    and "janus_run net junk (janus_thread_start s0 ring f) t"
    and "jt_pc t = Polling" and "js_running (jt_sender t)"
    and "jn_poll net (js_net (jt_sender t)) = (Js_Readable, k1)" and "jn_recv net k1 = (rs, k2)"
  shows "\<exists>t'. sender_step net junk t = Some t' \<and> (jt_force_idr t' \<longleftrightarrow> jt_force_idr t \<or> (\<exists>r \<in> set rs. asks_keyframe r)) \<and>
    (Datagram (pli_packet sender media) \<in> set rs \<longrightarrow> jt_force_idr t')"
proof -
  have "janus_ok t" by (rule janus_run_ok [OF assms(3) janus_start_ok [OF assms(1,2)]])
  from poll_readable [OF this assms(4-6)] obtain s' where
    "sender_step net junk t = Some (t\<lparr>jt_sender := s',
      jt_force_idr := jt_force_idr t \<or> (\<exists>r \<in> set (fst (jn_recv net k1)). asks_keyframe r), jt_pc := Draining\<rparr>)" by metis
  then show ?thesis using pli_asks assms(7) by auto
qed

lemma janus_feedback_keyframe_witness:
  "\<exists>t'. sender_step demo_net (\<lambda>_. 0) demo_janus_pushed = Some t' \<and>
    (jt_force_idr t' \<longleftrightarrow> jt_force_idr demo_janus_pushed \<or> (\<exists>r \<in> set [Recv_Interrupted, Datagram (pli_packet 1 2)]. asks_keyframe r)) \<and>
    jt_force_idr t'"
  using janus_feedback_keyframe [OF demo_janus demo_janus_ring demo_pushed_run demo_janus_pushed(2,3) demo_net_calls, of 1 2]
  by auto

end
