(* ===== verification/App_Janus.thy ===== *)
theory App_Janus
  imports Janus_Sender App_Turn
begin

text \<open>
  The server of \<^verbatim>\<open>src/app/app_server.c\<close> in the Janus build: the sender takes the place of the table of
  viewers. The main loop only serves requests: the status page and the two embedded files.
\<close>

section \<open>The server\<close>

record 'n janus_server =
  jv_config :: app_config
  jv_source :: video_source
  jv_encoder_name :: string
  jv_ring :: au_ring
  jv_force_idr :: bool
  jv_rtc_active :: bool
  jv_sender :: "'n janus_sender option"
  jv_started_ms :: u64

definition janus_server_config :: "app_config \<Rightarrow> janus_config" where
  "janus_server_config cfg =
     \<lparr>jc_host = Some (ac_janus_host cfg), jc_rtp_port = ac_janus_rtp_port cfg, jc_rtcp_port = ac_janus_rtcp_port cfg,
      jc_rtcp_listen_port = ac_janus_rtcp_listen cfg, jc_ssrc = 0, jc_payload_type = 0, jc_verbose = ac_verbose cfg\<rparr>"

text \<open>Stopping, joining and destroying the sender, at \<^verbatim>\<open>fail\<close> and at the end; the result is its sockets.\<close>

definition janus_server_stop :: "'n janus_server \<Rightarrow> fd_event list \<times> 'n janus_server" where
  "janus_server_stop sv =
     (janus_rtp_sender_destroy (map_option (\<lambda>s. janus_rtp_sender_join (janus_rtp_sender_stop s)) (jv_sender sv)),
      sv\<lparr>jv_sender := None\<rparr>)"

definition janus_server_start :: "'n janus_net \<Rightarrow> (nat \<Rightarrow> bool) \<Rightarrow> (nat \<Rightarrow> u8) \<Rightarrow> 'n \<Rightarrow> bool \<Rightarrow> 'n janus_server \<Rightarrow>
    (fd_event list + 'n janus_server) option" where
  "janus_server_start net alloc_ok stale k thread_ok sv =
     (case janus_rtp_sender_create net alloc_ok stale k (Some (janus_server_config (jv_config sv))) AU_SLOT_CAPACITY of
        None \<Rightarrow> None
      | Some (Inl tr) \<Rightarrow> Some (Inl tr)
      | Some (Inr s) \<Rightarrow>
          case janus_rtp_sender_start thread_ok (Some s) of (rc, s') \<Rightarrow>
            let sv1 = sv\<lparr>jv_sender := s'\<rparr> in
            Some (if rc \<noteq> 0 then Inl (fst (janus_server_stop sv1)) else Inr (sv1\<lparr>jv_rtc_active := True\<rparr>)))"

section \<open>Requests\<close>

definition hex_digit :: "nat \<Rightarrow> char" where
  "hex_digit n = char_of (if n < 10 then 48 + n else 87 + n)"

text \<open>\<^verbatim>\<open>%08x\<close>\<close>

definition hex8 :: "u32 \<Rightarrow> string" where
  "hex8 v = map (\<lambda>i. hex_digit (unat (drop_bit (4 * (7 - i)) v AND 0xF))) [0..<8]"

definition janus_status_head :: "status_env \<Rightarrow> 'n janus_server \<Rightarrow> string" where
  "janus_status_head se sv =
     (let cfg = jv_config sv; src = jv_source sv; t = janus_rtp_sender_get_stats (jv_sender sv) in
      js ''{`version`:`2.0.0`,`uptime_sec`:'' @ u64_text ((se_now_ms se - jv_started_ms sv) div 1000) @
      js '',`source`:{`name`:`'' @ vs_name src @ js ''`,`kind`:`'' @ (if ac_use_test_source cfg then ''test'' else ''v4l2'') @
      js ''`,`width`:'' @ u32_text (vs_width src) @ js '',`height`:'' @ u32_text (vs_height src) @
      js '',`fps`:'' @ u32_text (vs_fps src) @
      js ''},`encoder`:{`name`:`'' @ (if jv_encoder_name sv \<noteq> [] then jv_encoder_name sv else ''none'') @
      js ''`,`preference`:`'' @ ac_encoder cfg @ js ''`,`bitrate_kbps`:'' @ u32_text (ac_bitrate_kbps cfg) @
      js '',`keyframe_seconds`:'' @ u32_text (ac_keyframe_seconds cfg) @
      js ''},`http_port`:'' @ u16_text (ac_http_port cfg) @
      js '',`transport`:`janus-rtp`,`janus`:{`host`:`'' @ ac_janus_host cfg @
      js ''`,`rtp_port`:'' @ u16_text (ac_janus_rtp_port cfg) @ js '',`rtcp_port`:'' @ u16_text (ac_janus_rtcp_port cfg) @
      js '',`rtcp_listen`:'' @ u16_text (ac_janus_rtcp_listen cfg) @
      js '',`ssrc`:`'' @ hex8 (janus_rtp_sender_ssrc (jv_sender sv)) @
      js ''`,`payload_type`:'' @ u32_text (janus_rtp_sender_payload_type (jv_sender sv)) @
      js '',`access_units`:'' @ u64_text (js_access_units t) @ js '',`packets_sent`:'' @ u32_text (js_packets_sent t) @
      js '',`octets_sent`:'' @ u32_text (js_octets_sent t) @ js '',`send_errors`:'' @ u32_text (js_send_errors t) @
      js '',`sr_sent`:'' @ u32_text (js_sr_sent t) @ js '',`rtcp_received`:'' @ u32_text (js_rtcp_received t) @
      js '',`pli_received`:'' @ u32_text (js_pli_received t) @ js '',`fir_received`:'' @ u32_text (js_fir_received t) @
      js ''},`captured_frames`:'' @ u64_text (se_captured se) @
      js '',`encoded_frames`:'' @ u64_text (se_encoded se) @ js '',`au_dropped`:'' @ u64_text (ring_dropped (jv_ring sv)) @
      js '',`encoder_active`:'' @ (if jv_rtc_active sv then ''1'' else ''0'') @
      js '',`encoder_frames_seen`:'' @ u64_text (se_frames_seen se) @
      js '',`encoder_skipped_idle`:'' @ u64_text (se_skipped_idle se) @
      js '',`encoder_skipped_mismatch`:'' @ u64_text (se_skipped_mismatch se) @
      js '',`encoder_skipped_bad_size`:'' @ u64_text (se_skipped_bad_size se) @
      js '',`encoder_no_output`:'' @ u64_text (se_no_output se) @ js '',`sessions`:['')"

definition janus_handle_status :: "status_env \<Rightarrow> 'n janus_server \<Rightarrow> http_reply option" where
  "janus_handle_status se sv =
     do {
       b1 \<leftarrow> put_at 8192 (janus_status_head se sv) ([], 0);
       b3 \<leftarrow> put_at 8192 (js ''],`interfaces`:['') b1;
       b4 \<leftarrow> status_interfaces False (collect_interfaces (se_ifs se) 16) b3;
       b5 \<leftarrow> put_at 8192 ('']}'' @ [CHR 0x0A]) b4;
       Some (Reply 200 json_type (fst b5))
     }"

text \<open>\<open>jr_page\<close> and \<open>jr_script\<close> are the two embedded files.\<close>

record janus_request =
  jr_uri :: string
  jr_status :: status_env
  jr_page :: string
  jr_script :: string

definition janus_http_event_handler :: "janus_request \<Rightarrow> 'n janus_server \<Rightarrow> http_reply option" where
  "janus_http_event_handler rq sv =
     (if jr_uri rq = ''/status'' then janus_handle_status (jr_status rq) sv
      else if jr_uri rq = ''/'' then
        Some (Reply 200 (''Content-Type: text/html; charset=utf-8'' @ crlf @ ''Cache-Control: no-store'' @ crlf) (jr_page rq))
      else if jr_uri rq = ''/janus-client.js'' then
        Some (Reply 200 (''Content-Type: application/javascript; charset=utf-8'' @ crlf @ ''Cache-Control: no-store'' @ crlf) (jr_script rq))
      else Some (Reply 404 (''Content-Type: text/plain'' @ crlf) (''404 Not Found'' @ [CHR 0x0A])))"

text \<open>One turn of the main loop: the requests that have arrived.\<close>

definition janus_turn :: "janus_request list \<Rightarrow> 'n janus_server \<Rightarrow> http_reply list option" where
  "janus_turn rqs sv = foldo (\<lambda>rq replies. map_option (\<lambda>r. replies @ [r]) (janus_http_event_handler rq sv)) rqs []"

section \<open>Lemmas\<close>

definition janus_names :: "'n janus_server \<Rightarrow> bool" where
  "janus_names sv \<longleftrightarrow> length (vs_name (jv_source sv)) + length (jv_encoder_name sv) + length (ac_encoder (jv_config sv)) \<le> 4600 \<and>
     length (ac_janus_host (jv_config sv)) \<le> 1024"

lemma janus_status_head_length: "length (janus_status_head se sv) \<le> 1150 + length (vs_name (jv_source sv)) +
    length (jv_encoder_name sv) + length (ac_encoder (jv_config sv)) + length (ac_janus_host (jv_config sv))"
proof -
  let ?t = "janus_rtp_sender_get_stats (jv_sender sv)" and ?c = "jv_config sv"
  have h: "length (hex8 v) = 8" for v by (simp add: hex8_def)
  note u64_text_length [of "(se_now_ms se - jv_started_ms sv) div 1000"] u64_text_length [of "se_captured se"]
    u64_text_length [of "se_encoded se"] u64_text_length [of "ring_dropped (jv_ring sv)"]
    u64_text_length [of "js_access_units ?t"] u64_text_length [of "se_frames_seen se"]
    u64_text_length [of "se_skipped_idle se"] u64_text_length [of "se_skipped_mismatch se"]
    u64_text_length [of "se_skipped_bad_size se"] u64_text_length [of "se_no_output se"]
    number_lengths(1) [of "vs_width (jv_source sv)"] number_lengths(1) [of "vs_height (jv_source sv)"]
    number_lengths(1) [of "vs_fps (jv_source sv)"] number_lengths(1) [of "ac_bitrate_kbps ?c"]
    number_lengths(1) [of "ac_keyframe_seconds ?c"] number_lengths(2) [of "ac_http_port ?c"]
    number_lengths(2) [of "ac_janus_rtp_port ?c"] number_lengths(2) [of "ac_janus_rtcp_port ?c"]
    number_lengths(2) [of "ac_janus_rtcp_listen ?c"] number_lengths(1) [of "janus_rtp_sender_payload_type (jv_sender sv)"]
    number_lengths(1) [of "js_packets_sent ?t"] number_lengths(1) [of "js_octets_sent ?t"] number_lengths(1) [of "js_send_errors ?t"]
    number_lengths(1) [of "js_sr_sent ?t"] number_lengths(1) [of "js_rtcp_received ?t"] number_lengths(1) [of "js_pli_received ?t"]
    number_lengths(1) [of "js_fir_received ?t"]
  then show ?thesis by (simp add: janus_status_head_def Let_def h del: number_lengths)
qed

definition janus_status_text :: "status_env \<Rightarrow> 'n janus_server \<Rightarrow> string" where
  "janus_status_text se sv = janus_status_head se sv @ js ''],`interfaces`:['' @
     interfaces_text False (collect_interfaces (se_ifs se) 16) @ '']}'' @ [CHR 0x0A]"

lemma janus_status_fits:
  assumes "janus_names sv"
  shows "janus_handle_status se sv = Some (Reply 200 json_type (janus_status_text se sv))"
proof -
  let ?h = "janus_status_head se sv" and ?m = "js ''],`interfaces`:[''" and ?is = "interfaces_text False (collect_interfaces (se_ifs se) 16)"
  let ?e = "'']}'' @ [CHR 0x0A]"
  have h: "length ?h \<le> 6774" using janus_status_head_length [of se sv] assms by (simp add: janus_names_def)
  have 1: "put_at 8192 ?h ([], 0) = Some (?h, length ?h)" using put_at_fits [of "[]" ?h 8192] h by simp
  have 3: "put_at 8192 ?m (?h, length ?h) = Some (?h @ ?m, length (?h @ ?m))" using put_at_fits [of ?h ?m 8192] h by simp
  have 4: "status_interfaces False (collect_interfaces (se_ifs se) 16) (?h @ ?m, length (?h @ ?m)) =
      Some (?h @ ?m @ ?is, length (?h @ ?m @ ?is))" and l4: "length ?is \<le> 960"
    using interfaces_fit [of "collect_interfaces (se_ifs se) 16" "?h @ ?m" False]
      collected_short(1) [of _ "se_ifs se"] collected_short(2) [of "se_ifs se"] h by auto
  have 5: "put_at 8192 ?e (?h @ ?m @ ?is, length (?h @ ?m @ ?is)) = Some (?h @ ?m @ ?is @ ?e, length (?h @ ?m @ ?is @ ?e))"
    using put_at_fits [of "?h @ ?m @ ?is" ?e 8192] h l4 by simp
  show ?thesis unfolding janus_handle_status_def 1 3 4 5 Option.bind.simps janus_status_text_def fst_conv ..
qed

lemma janus_request_total: "janus_names sv \<Longrightarrow> \<exists>r. janus_http_event_handler rq sv = Some r"
  using janus_status_fits [of sv "jr_status rq"] by (simp add: janus_http_event_handler_def)

lemma janus_turn_replies:
  assumes "janus_names sv"
  shows "janus_turn rqs sv = Some (map (\<lambda>rq. the (janus_http_event_handler rq sv)) rqs)"
proof -
  have "foldo (\<lambda>rq replies. map_option (\<lambda>r. replies @ [r]) (janus_http_event_handler rq sv)) rqs rs =
      Some (rs @ map (\<lambda>rq. the (janus_http_event_handler rq sv)) rqs)" for rs
  proof (induction rqs arbitrary: rs)
    case (Cons rq rqs)
    then show ?case using janus_request_total [OF assms, of rq] by auto
  qed simp
  then show ?thesis by (simp add: janus_turn_def)
qed

text \<open>The command line accepts only ports that the sender accepts.\<close>

lemma janus_start_outcome:
  assumes "janus_server_start net alloc_ok stale k thread_ok sv = Some r"
  shows "case r of Inl tr \<Rightarrow> fds_closed tr = fds_opened tr
    | Inr sv' \<Rightarrow> jv_rtc_active sv' \<and> (\<exists>s. jv_sender sv' = Some s \<and> sender_ok s \<and> js_au_capacity s = AU_SLOT_CAPACITY \<and> js_started s)"
proof -
  let ?c = "janus_rtp_sender_create net alloc_ok stale k (Some (janus_server_config (jv_config sv))) AU_SLOT_CAPACITY"
  consider tr where "?c = Some (Inl tr)" "r = Inl tr"
    | s where "?c = Some (Inr s)" "\<not> thread_ok" "r = Inl (fst (janus_server_stop (sv\<lparr>jv_sender := Some s\<rparr>)))"
    | s where "?c = Some (Inr s)" "thread_ok" "r = Inr (sv\<lparr>jv_sender := Some (s\<lparr>js_started := True\<rparr>), jv_rtc_active := True\<rparr>)"
    using assms
    by (cases ?c; auto simp: janus_server_start_def janus_rtp_sender_start_def Let_def split: sum.splits if_splits)
  then show ?thesis
  proof cases
    case 1
    then show ?thesis using janus_create_fails by simp
  next
    case (2 s)
    have "sender_ok (janus_rtp_sender_join (janus_rtp_sender_stop s))"
      using janus_create_ok [OF 2(1)] by (auto simp: janus_rtp_sender_join_def janus_rtp_sender_stop_def intro: sender_ok_quiet)
    then show ?thesis using 2 janus_destroy_closes by (simp add: janus_server_stop_def)
  next
    case (3 s)
    have "sender_ok (s\<lparr>js_started := True\<rparr>)" using janus_create_ok [OF 3(1)] by (auto intro: sender_ok_quiet)
    then show ?thesis using 3 janus_create_ok [OF 3(1)] by simp
  qed
qed

section \<open>Properties\<close>

text \<open>
  C22. In the Janus build every request of a turn is answered, in order: the status page with the whole
  text, which fits its buffer of 8192 bytes, the two files with their contents, and everything else,
  the signaling of the native build included, with 404. The names of the source, the encoder and the
  gateway are as short as the rest of the program keeps them.
\<close>

theorem janus_server_answers:
  assumes "janus_names sv"
  shows "\<exists>replies. janus_turn rqs sv = Some replies \<and> length replies = length rqs \<and>
    (\<forall>i. \<forall>rq. i < length rqs \<and> rq = rqs ! i \<longrightarrow>
       (if jr_uri rq = ''/status'' then replies ! i = Reply 200 json_type (janus_status_text (jr_status rq) sv) \<and>
          length (janus_status_text (jr_status rq) sv) < 8192
        else if jr_uri rq = ''/'' then (\<exists>h. replies ! i = Reply 200 h (jr_page rq))
        else if jr_uri rq = ''/janus-client.js'' then (\<exists>h. replies ! i = Reply 200 h (jr_script rq))
        else (\<exists>h t. replies ! i = Reply 404 h t)))"
proof -
  have len: "length (janus_status_text se sv) < 8192" for se
    using janus_status_head_length [of se sv] assms interfaces_fit [of "collect_interfaces (se_ifs se) 16" "[]" False]
      collected_short(1) [of _ "se_ifs se"] collected_short(2) [of "se_ifs se"]
    by (auto simp: janus_status_text_def janus_names_def)
  show ?thesis
    unfolding janus_turn_replies [OF assms]
    by (intro exI conjI, rule refl) (auto simp: janus_http_event_handler_def janus_status_fits [OF assms] len)
qed

definition demo_janus_server :: "nat janus_server" where
  "demo_janus_server = \<lparr>jv_config = demo_app_config, jv_source = \<lparr>vs_name = ''test pattern'', vs_width = 640, vs_height = 480, vs_fps = 30,
     vs_stride = 1280, vs_format = V4L2_PIX_FMT_YUYV, vs_frame_size = 614400\<rparr>, jv_encoder_name = ''x264'', jv_ring = demo_janus_ring,
     jv_force_idr = False, jv_rtc_active = True, jv_sender = Some demo_janus, jv_started_ms = 0\<rparr>"

definition demo_status_request :: "string \<Rightarrow> janus_request" where
  "demo_status_request uri = \<lparr>jr_uri = uri, jr_status = \<lparr>se_now_ms = 0, se_ifs = None, se_captured = 0, se_encoded = 0,
     se_frames_seen = 0, se_skipped_idle = 0, se_skipped_mismatch = 0, se_skipped_bad_size = 0, se_no_output = 0\<rparr>,
     jr_page = ''page'', jr_script = ''script''\<rparr>"

lemma janus_server_answers_witness:
  "\<exists>replies h t. janus_turn [demo_status_request ''/status'', demo_status_request ''/rtc/offer''] demo_janus_server = Some replies \<and>
    replies ! 0 = Reply 200 json_type (janus_status_text (jr_status (demo_status_request ''/status'')) demo_janus_server) \<and>
    replies ! 1 = Reply 404 h t"
proof -
  have n: "janus_names demo_janus_server"
    by (simp add: janus_names_def demo_janus_server_def demo_app_config_def)
  let ?rqs = "[demo_status_request ''/status'', demo_status_request ''/rtc/offer'']"
  from janus_server_answers [OF n, of ?rqs] obtain replies where r: "janus_turn ?rqs demo_janus_server = Some replies"
    and a: "\<And>i rq. i < length ?rqs \<and> rq = ?rqs ! i \<Longrightarrow>
       (if jr_uri rq = ''/status'' then replies ! i = Reply 200 json_type (janus_status_text (jr_status rq) demo_janus_server) \<and>
          length (janus_status_text (jr_status rq) demo_janus_server) < 8192
        else if jr_uri rq = ''/'' then (\<exists>h. replies ! i = Reply 200 h (jr_page rq))
        else if jr_uri rq = ''/janus-client.js'' then (\<exists>h. replies ! i = Reply 200 h (jr_script rq))
        else (\<exists>h t. replies ! i = Reply 404 h t))" by blast
  have u: "jr_uri (demo_status_request uri) = uri" for uri by (simp add: demo_status_request_def)
  show ?thesis using r a [of 0 "?rqs ! 0"] a [of 1 "?rqs ! 1"] by (simp add: u)
qed

end
