(* ===== verification/Frame_Matrix.thy ===== *)
theory Frame_Matrix
  imports Prelude Cstring
begin

text \<open>
  The image operations of \<^verbatim>\<open>src/vision/frame_matrix.c\<close>: grayscale conversion, profiles, the search for the
  translation between two frames, and the mosaic that averages frames on a canvas. A frame pointer
  that is null is \<open>None\<close>, as is a null data pointer. C integers of type \<^verbatim>\<open>int\<close> are \<open>int\<close>; an addition
  that leaves their range is undefined behaviour.
\<close>

section \<open>Frames\<close>

record gray_frame =
  gf_width :: u32
  gf_height :: u32
  gf_stride :: u32
  gf_data :: "bytes option"

definition valid_frame :: "gray_frame option \<Rightarrow> bool" where
  "valid_frame f = (case f of None \<Rightarrow> False
     | Some g \<Rightarrow> gf_data g \<noteq> None \<and> gf_width g > 0 \<and> gf_height g > 0 \<and> gf_stride g \<ge> gf_width g)"

definition int_add :: "int \<Rightarrow> int \<Rightarrow> int option" where
  "int_add a b = (if - (2 ^ 31) \<le> a + b \<and> a + b < 2 ^ 31 then Some (a + b) else None)"

text \<open>The address of \<^verbatim>\<open>row[i]\<close> for the row \<open>y\<close> of an image that starts at \<open>off\<close>.\<close>

definition px_at :: "nat \<Rightarrow> u32 \<Rightarrow> nat \<Rightarrow> u32 \<Rightarrow> nat" where
  "px_at off stride y i = off + y * unat stride + unat i"

text \<open>The source is the memory \<open>m\<close> from \<open>off\<close> on.\<close>

definition gray_pair :: "bytes \<Rightarrow> nat \<Rightarrow> u32 \<Rightarrow> u32 \<Rightarrow> nat \<Rightarrow> nat \<Rightarrow> bytes \<Rightarrow> bytes option" where
  "gray_pair m off src_stride stride y j out =
     (let x = of_nat (2 * j) :: u32 in
      do {
        a \<leftarrow> rd8 m (px_at off src_stride y (x * 2));
        out1 \<leftarrow> wr out (px_at 0 stride y x) [a];
        b \<leftarrow> rd8 m (px_at off src_stride y (x * 2 + 2));
        wr out1 (px_at 0 stride y (x + 1)) [b]
      })"

definition vision_gray_from_yuyv :: "(bytes \<times> nat) option \<Rightarrow> u32 \<Rightarrow> gray_frame option \<Rightarrow> (int \<times> gray_frame option) option" where
  "vision_gray_from_yuyv src src_stride dst =
     (case (src, dst) of
        (Some (m, off), Some g) \<Rightarrow>
          if \<not> valid_frame dst \<or> src_stride < gf_width g * 2 \<or> gf_width g AND 1 \<noteq> 0 then Some (- 1, dst)
          else do {
            data \<leftarrow> gf_data g;
            out \<leftarrow> foldo (\<lambda>y. foldo (gray_pair m off src_stride (gf_stride g) y) [0..<unat (gf_width g) div 2])
                     [0..<unat (gf_height g)] data;
            Some (0, Some (g\<lparr>gf_data := Some out\<rparr>))
          }
      | _ \<Rightarrow> Some (- 1, dst))"

definition luma :: "u8 \<Rightarrow> u8 \<Rightarrow> u8 \<Rightarrow> u8" where
  "luma r g b = ucast (drop_bit 8 (77 * ucast r + 150 * ucast g + 29 * ucast b + 128 :: u32))"

definition gray_rgb :: "bytes \<Rightarrow> nat \<Rightarrow> u32 \<Rightarrow> u32 \<Rightarrow> nat \<Rightarrow> nat \<Rightarrow> bytes \<Rightarrow> bytes option" where
  "gray_rgb m off src_stride stride y x out =
     do {
       let p = px_at off src_stride y (of_nat x * 3);
       r \<leftarrow> rd8 m p; g \<leftarrow> rd8 m (p + 1); b \<leftarrow> rd8 m (p + 2);
       wr out (px_at 0 stride y (of_nat x)) [luma r g b]
     }"

definition vision_gray_from_rgb24 :: "(bytes \<times> nat) option \<Rightarrow> u32 \<Rightarrow> gray_frame option \<Rightarrow> (int \<times> gray_frame option) option" where
  "vision_gray_from_rgb24 src src_stride dst =
     (case (src, dst) of
        (Some (m, off), Some g) \<Rightarrow>
          if \<not> valid_frame dst \<or> src_stride < gf_width g * 3 then Some (- 1, dst)
          else do {
            data \<leftarrow> gf_data g;
            out \<leftarrow> foldo (\<lambda>y. foldo (gray_rgb m off src_stride (gf_stride g) y) [0..<unat (gf_width g)])
                     [0..<unat (gf_height g)] data;
            Some (0, Some (g\<lparr>gf_data := Some out\<rparr>))
          }
      | _ \<Rightarrow> Some (- 1, dst))"

section \<open>Profiles\<close>

text \<open>A profile is an array of \<^verbatim>\<open>uint64_t\<close>.\<close>

definition set_at :: "'a list \<Rightarrow> nat \<Rightarrow> 'a \<Rightarrow> 'a list option" where
  "set_at xs i x = (if i < length xs then Some (xs[i := x]) else None)"

definition gf_pixel :: "gray_frame \<Rightarrow> nat \<Rightarrow> u32 \<Rightarrow> u8 option" where
  "gf_pixel g y x = do { data \<leftarrow> gf_data g; rd8 data (px_at 0 (gf_stride g) y x) }"

definition vision_row_profile :: "gray_frame option \<Rightarrow> u64 list option \<Rightarrow> u64 list option option" where
  "vision_row_profile frame profile =
     (case (frame, profile) of
        (Some g, Some p) \<Rightarrow>
          if \<not> valid_frame frame then Some profile
          else map_option Some
            (foldo (\<lambda>y p. do {
                 sum \<leftarrow> foldo (\<lambda>x sum. map_option (\<lambda>v. sum + ucast v) (gf_pixel g y (of_nat x))) [0..<unat (gf_width g)] (0 :: u64);
                 set_at p y sum
               }) [0..<unat (gf_height g)] p)
      | _ \<Rightarrow> Some profile)"

definition vision_column_profile :: "gray_frame option \<Rightarrow> u64 list option \<Rightarrow> u64 list option option" where
  "vision_column_profile frame profile =
     (case (frame, profile) of
        (Some g, Some p) \<Rightarrow>
          if \<not> valid_frame frame then Some profile
          else if length p < unat (gf_width g) then None
          else map_option Some
            (foldo (\<lambda>y. foldo (\<lambda>x p. do {
                 v \<leftarrow> gf_pixel g y (of_nat x);
                 set_at p x (p ! x + ucast v)
               }) [0..<unat (gf_width g)]) [0..<unat (gf_height g)]
              (replicate (unat (gf_width g)) 0 @ drop (unat (gf_width g)) p))
      | _ \<Rightarrow> Some profile)"

section \<open>The translation between two frames\<close>

text \<open>
  One candidate: skipped (\<open>Inl\<close>) or its error. \<^verbatim>\<open>y + dy\<close> is computed in 32 bits without sign,
  \<^verbatim>\<open>(int) x + dx\<close> with sign.
\<close>

definition pixel_error :: "gray_frame \<Rightarrow> gray_frame \<Rightarrow> int \<Rightarrow> int \<Rightarrow> nat \<Rightarrow> nat \<Rightarrow> u64 \<Rightarrow> u64 option" where
  "pixel_error a b dx dy y x error =
     do {
       va \<leftarrow> gf_pixel a y (of_nat x);
       data \<leftarrow> gf_data b;
       bx \<leftarrow> int_add (sint (of_nat x :: u32)) dx;
       let i = int (unat (of_nat y + of_int dy :: u32) * unat (gf_stride b)) + bx;
       vb \<leftarrow> (if i < 0 then None else rd8 data (nat i));
       let d = uint va - uint vb;
       Some (error + of_int (if d < 0 then - d else d))
     }"

definition candidate_error :: "gray_frame \<Rightarrow> gray_frame \<Rightarrow> int \<Rightarrow> int \<Rightarrow> (unit + u64) option" where
  "candidate_error a b dx dy =
     (let x0 = (if dx < 0 then of_int (- dx) else 0) :: u32; x1 = (if dx > 0 then gf_width a - of_int dx else gf_width a);
          y0 = (if dy < 0 then of_int (- dy) else 0) :: u32; y1 = (if dy > 0 then gf_height a - of_int dy else gf_height a)
      in if x1 \<le> x0 \<or> y1 \<le> y0 \<or> x1 - x0 < gf_width a div 4 \<or> y1 - y0 < gf_height a div 4 then Some (Inl ())
         else map_option Inr
           (foldo (\<lambda>y. foldo (pixel_error a b dx dy y) [unat x0..<unat x1]) [unat y0..<unat y1] 0))"

definition keep_best :: "int \<Rightarrow> int \<Rightarrow> (unit + u64) \<Rightarrow> u64 \<times> int \<times> int \<Rightarrow> u64 \<times> int \<times> int" where
  "keep_best dx dy r acc = (case r of Inl _ \<Rightarrow> acc | Inr e \<Rightarrow> if e < fst acc then (e, dx, dy) else acc)"

text \<open>The candidates in the order of the two loops; at \<^verbatim>\<open>INT_MAX\<close> their counters would overflow.\<close>

definition candidates :: "int \<Rightarrow> int \<Rightarrow> (int \<times> int) list" where
  "candidates max_dx max_dy = concat (map (\<lambda>dy. map (\<lambda>dx. (dx, dy)) [- max_dx..max_dx]) [- max_dy..max_dy])"

text \<open>The result: the return code, and on success the offset and its error.\<close>

definition vision_estimate_offset :: "gray_frame option \<Rightarrow> gray_frame option \<Rightarrow> int \<Rightarrow> int \<Rightarrow> (int \<times> (int \<times> int \<times> u64) option) option" where
  "vision_estimate_offset previous current max_dx max_dy =
     (case (previous, current) of
        (Some a, Some b) \<Rightarrow>
          if \<not> valid_frame previous \<or> \<not> valid_frame current \<or> gf_width a \<noteq> gf_width b \<or> gf_height a \<noteq> gf_height b \<or>
            max_dx < 0 \<or> max_dy < 0 then Some (- 1, None)
          else if max_dx = 2 ^ 31 - 1 \<or> max_dy = 2 ^ 31 - 1 then None
          else do {
            (best, x, y) \<leftarrow> foldo (\<lambda>(dx, dy) acc. map_option (\<lambda>r. keep_best dx dy r acc) (candidate_error a b dx dy))
              (candidates max_dx max_dy) (- 1, 0, 0);
            Some (if best = - 1 then (- 1, None) else (0, Some (x, y, best)))
          }
      | _ \<Rightarrow> Some (- 1, None))"

section \<open>The mosaic\<close>

record vision_mosaic =
  vm_width :: u32
  vm_height :: u32
  vm_sum :: "u64 list"
  vm_count :: "u32 list"

definition vision_mosaic_create :: "bool \<Rightarrow> u32 \<Rightarrow> u32 \<Rightarrow> vision_mosaic option" where
  "vision_mosaic_create alloc_ok width height =
     (if width = 0 \<or> height = 0 \<or> unat width > (2 ^ 64 - 1) div unat height then None
      else if \<not> alloc_ok then None
      else let n = unat width * unat height in
        Some \<lparr>vm_width = width, vm_height = height, vm_sum = replicate n 0, vm_count = replicate n 0\<rparr>)"

definition mosaic_pixel :: "gray_frame \<Rightarrow> int \<Rightarrow> int \<Rightarrow> nat \<Rightarrow> nat \<Rightarrow> vision_mosaic \<Rightarrow> vision_mosaic option" where
  "mosaic_pixel f ox gy y x m =
     do {
       gx \<leftarrow> int_add ox (sint (of_nat x :: u32));
       if gx < 0 \<or> gx \<ge> sint (vm_width m) then Some m
       else
         let i = nat gy * unat (vm_width m) + nat gx in
         if i \<ge> length (vm_count m) \<or> i \<ge> length (vm_sum m) then None
         else if vm_count m ! i = - 1 then Some m
         else do {
           v \<leftarrow> gf_pixel f y (of_nat x);
           Some (m\<lparr>vm_sum := (vm_sum m)[i := vm_sum m ! i + ucast v], vm_count := (vm_count m)[i := vm_count m ! i + 1]\<rparr>)
         }
     }"

definition mosaic_row :: "gray_frame \<Rightarrow> int \<Rightarrow> int \<Rightarrow> nat \<Rightarrow> vision_mosaic \<Rightarrow> vision_mosaic option" where
  "mosaic_row f ox oy y m =
     do {
       gy \<leftarrow> int_add oy (sint (of_nat y :: u32));
       if gy < 0 \<or> gy \<ge> sint (vm_height m) then Some m
       else foldo (mosaic_pixel f ox gy y) [0..<unat (gf_width f)] m
     }"

definition vision_mosaic_add :: "vision_mosaic option \<Rightarrow> gray_frame option \<Rightarrow> int \<Rightarrow> int \<Rightarrow> (int \<times> vision_mosaic option) option" where
  "vision_mosaic_add mosaic frame ox oy =
     (case (mosaic, frame) of
        (Some m, Some f) \<Rightarrow>
          if \<not> valid_frame frame then Some (- 1, mosaic)
          else map_option (\<lambda>m'. (0, Some m')) (foldo (mosaic_row f ox oy) [0..<unat (gf_height f)] m)
      | _ \<Rightarrow> Some (- 1, mosaic))"

definition mosaic_value :: "vision_mosaic \<Rightarrow> nat \<Rightarrow> u8" where
  "mosaic_value m i = (if vm_count m ! i = 0 then 0 else ucast (vm_sum m ! i div ucast (vm_count m ! i)))"

section \<open>Files\<close>

text \<open>
  What a file operation needs: whether the file can be opened, whether writing it fails, whether closing
  it succeeds. The result is the return code and what was written. Bytes are characters.
\<close>

record file_env =
  fe_open :: bool
  fe_error :: bool
  fe_close :: bool

definition file_result :: "file_env \<Rightarrow> 'a \<Rightarrow> int \<times> 'a option" where
  "file_result e content =
     (if \<not> fe_open e then (- 1, None)
      else (if \<not> fe_close e then - 1 else if fe_error e then - 1 else 0, Some content))"

definition pgm_content :: "vision_mosaic \<Rightarrow> string" where
  "pgm_content m = ''P5'' @ [CHR 0x0A] @ dec_nat (unat (vm_width m)) @ '' '' @ dec_nat (unat (vm_height m)) @ [CHR 0x0A] @ ''255'' @
     [CHR 0x0A] @ map (\<lambda>i. char_of (unat (mosaic_value m i))) [0..<unat (vm_width m) * unat (vm_height m)]"

definition vision_mosaic_write_pgm :: "vision_mosaic option \<Rightarrow> string option \<Rightarrow> file_env \<Rightarrow> int \<times> string option" where
  "vision_mosaic_write_pgm mosaic path e =
     (case (mosaic, path) of (Some m, Some _) \<Rightarrow> file_result e (pgm_content m) | _ \<Rightarrow> (- 1, None))"

text \<open>A line of the OBJ file: a vertex, whose height is the value times the scale, or a face.\<close>

datatype obj_line = Vertex u32 u32 u8 | Face u32 u32 u32 u32

definition obj_vertices :: "vision_mosaic \<Rightarrow> obj_line list" where
  "obj_vertices m = concat (map (\<lambda>y. map (\<lambda>x. Vertex (of_nat x) (of_nat y) (mosaic_value m (y * unat (vm_width m) + x)))
     [0..<unat (vm_width m)]) [0..<unat (vm_height m)])"

definition obj_face :: "u32 \<Rightarrow> u32 \<Rightarrow> u32 \<Rightarrow> obj_line" where
  "obj_face w y x = (let a = y * w + x + 1; b = a + 1; c = a + w; d = c + 1 in Face a b d c)"

definition obj_faces :: "vision_mosaic \<Rightarrow> obj_line list" where
  "obj_faces m = concat (map (\<lambda>y. map (\<lambda>x. obj_face (vm_width m) (of_nat y) (of_nat x)) [0..<unat (vm_width m) - 1])
     [0..<unat (vm_height m) - 1])"

definition vision_mosaic_write_obj :: "vision_mosaic option \<Rightarrow> string option \<Rightarrow> file_env \<Rightarrow> int \<times> obj_line list option" where
  "vision_mosaic_write_obj mosaic path e =
     (case (mosaic, path) of (Some m, Some _) \<Rightarrow> file_result e (obj_vertices m @ obj_faces m) | _ \<Rightarrow> (- 1, None))"

definition vision_mosaic_width :: "vision_mosaic option \<Rightarrow> u32" where
  "vision_mosaic_width m = (case m of None \<Rightarrow> 0 | Some m \<Rightarrow> vm_width m)"

definition vision_mosaic_height :: "vision_mosaic option \<Rightarrow> u32" where
  "vision_mosaic_height m = (case m of None \<Rightarrow> 0 | Some m \<Rightarrow> vm_height m)"

section \<open>Loops over pixels\<close>

text \<open>A loop that writes one pixel per round, the pixel \<open>p\<close> to \<open>F p\<close>.\<close>

definition paint :: "(nat \<Rightarrow> 'a) \<Rightarrow> nat list \<Rightarrow> 'a list \<Rightarrow> 'a list" where
  "paint F ps d = foldl (\<lambda>d p. d[p := F p]) d ps"

lemma paint_length [simp]: "length (paint F ps d) = length d"
  by (induction ps arbitrary: d) (auto simp: paint_def)

lemma paint_append: "paint F (ps @ qs) d = paint F qs (paint F ps d)"
  by (simp add: paint_def)

lemma paint_nth: "p < length d \<Longrightarrow> paint F ps d ! p = (if p \<in> set ps then F p else d ! p)"
proof (induction ps arbitrary: d)
  case (Cons q qs)
  have "paint F (q # qs) d = paint F qs (d[q := F q])" by (simp add: paint_def)
  then show ?case using Cons by (auto simp: nth_list_update)
qed (simp add: paint_def)

lemma foldo_paint:
  assumes "\<And>i d'. i \<in> set xs \<Longrightarrow> length d' = length d \<Longrightarrow> f i d' = Some (paint F (ps i) d')"
  shows "foldo f xs d = Some (paint F (concat (map ps xs)) d)"
  using assms
proof (induction xs arbitrary: d)
  case (Cons x xs)
  have "f x d = Some (paint F (ps x) d)" using Cons.prems by simp
  moreover have "foldo f xs (paint F (ps x) d) = Some (paint F (concat (map ps xs)) (paint F (ps x) d))"
    by (rule Cons.IH) (use Cons.prems in auto)
  ultimately show ?case by (simp add: paint_append)
qed (simp add: paint_def)

lemma wr1: "p < length d \<Longrightarrow> wr d p [v] = Some (d[p := v])"
  by (simp add: wr_def upd_conv_take_nth_drop)

lemma wr_paint: "p < length d \<Longrightarrow> F p = v \<Longrightarrow> wr d p [v] = Some (paint F [p] d)"
  by (auto simp: wr1 paint_def)

lemma px_at_simp: "i < 2 ^ 32 \<Longrightarrow> px_at off s y (of_nat i) = off + y * unat s + i"
  by (simp add: px_at_def unat_u32)

lemma pixel_bound: "y < h \<Longrightarrow> x < s \<Longrightarrow> y * s + x < h * (s :: nat)"
proof -
  assume y: "y < h" and x: "x < s"
  from y have "Suc y * s \<le> h * s" by (intro mult_le_mono1) simp
  with x show ?thesis by simp
qed

text \<open>The rows of the visible part of an image, and which pixels they hold.\<close>

definition visible :: "nat \<Rightarrow> nat \<Rightarrow> nat \<Rightarrow> nat \<Rightarrow> bool" where
  "visible s w h p \<longleftrightarrow> p mod s < w \<and> p div s < h"

lemma visible_at: "x < w \<Longrightarrow> w \<le> s \<Longrightarrow> visible s w h (y * s + x) \<longleftrightarrow> y < h"
  by (simp add: visible_def)

lemma visible_rows:
  assumes w: "w \<le> s" and n: "\<And>y. set (ps y) = (\<lambda>x. y * s + x) ` {..<w}"
  shows "set (concat (map ps [0..<h])) = {p. visible s w h p}"
proof (intro set_eqI iffI)
  fix p assume "p \<in> set (concat (map ps [0..<h]))"
  then obtain y x where "y < h" "x < w" "p = y * s + x" using n by auto
  then show "p \<in> {p. visible s w h p}" using visible_at [OF _ w] by simp
next
  fix p assume "p \<in> {p. visible s w h p}"
  then have p: "p div s < h" "p mod s < w" by (simp_all add: visible_def)
  moreover have "p = p div s * s + p mod s" by simp
  ultimately have "p \<in> set (ps (p div s))" unfolding n by blast
  with p(1) show "p \<in> set (concat (map ps [0..<h]))" by auto
qed

text \<open>An image whose visible part is \<open>F\<close> and the rest of whose memory is \<open>d\<close>.\<close>

definition repaint :: "nat \<Rightarrow> nat \<Rightarrow> nat \<Rightarrow> (nat \<Rightarrow> nat \<Rightarrow> 'a) \<Rightarrow> 'a list \<Rightarrow> 'a list" where
  "repaint s w h F d = map (\<lambda>p. if visible s w h p then F (p mod s) (p div s) else d ! p) [0..<length d]"

lemma repaint_length [simp]: "length (repaint s w h F d) = length d"
  by (simp add: repaint_def)

lemma repaint_nth: "x < w \<Longrightarrow> w \<le> s \<Longrightarrow> y < h \<Longrightarrow> h * s \<le> length d \<Longrightarrow> repaint s w h F d ! (y * s + x) = F x y"
  using pixel_bound [of y h x s] visible_at [of x w s h y] by (simp add: repaint_def)

lemma foldo_repaint:
  assumes w: "w \<le> s"
    and f: "\<And>y d'. y < h \<Longrightarrow> length d' = length d \<Longrightarrow> f y d' = Some (paint (\<lambda>p. F (p mod s) (p div s)) (ps y) d')"
    and n: "\<And>y. set (ps y) = (\<lambda>x. y * s + x) ` {..<w}"
  shows "foldo f [0..<h] d = Some (repaint s w h F d)"
proof -
  have "foldo f [0..<h] d = Some (paint (\<lambda>p. F (p mod s) (p div s)) (concat (map ps [0..<h])) d)"
    by (rule foldo_paint) (use f in simp)
  moreover have "paint (\<lambda>p. F (p mod s) (p div s)) (concat (map ps [0..<h])) d = repaint s w h F d"
    by (rule nth_equalityI) (simp_all add: paint_nth repaint_def visible_rows [OF w n] del: set_concat)
  ultimately show ?thesis by simp
qed

section \<open>Frames the operations can read\<close>

definition gray_ok :: "gray_frame \<Rightarrow> bool" where
  "gray_ok g \<longleftrightarrow> (\<exists>d. gf_data g = Some d \<and> unat (gf_height g) * unat (gf_stride g) \<le> length d) \<and>
     0 < gf_width g \<and> 0 < gf_height g \<and> gf_width g \<le> gf_stride g \<and>
     unat (gf_width g) < 2 ^ 28 \<and> unat (gf_height g) < 2 ^ 28"

definition gray_at :: "gray_frame \<Rightarrow> nat \<Rightarrow> nat \<Rightarrow> nat" where
  "gray_at g x y = unat (the (gf_data g) ! (y * unat (gf_stride g) + x))"

lemma gray_ok_valid: "gray_ok g \<Longrightarrow> valid_frame (Some g)"
  by (auto simp: gray_ok_def valid_frame_def)

lemma gray_ok_nat:
  assumes "gray_ok g"
  shows "0 < unat (gf_width g)" "0 < unat (gf_height g)" "unat (gf_width g) \<le> unat (gf_stride g)"
    "unat (gf_width g) < 2 ^ 28" "unat (gf_height g) < 2 ^ 28"
  using assms by (auto simp: gray_ok_def word_le_nat_alt unat_gt_0 word_less_nat_alt)

lemma gf_pixel_ok:
  assumes g: "gray_ok g" and x: "x < unat (gf_width g)" and y: "y < unat (gf_height g)"
  shows "\<exists>v. gf_pixel g y (of_nat x) = Some v \<and> unat v = gray_at g x y"
proof -
  obtain d where d: "gf_data g = Some d" "unat (gf_height g) * unat (gf_stride g) \<le> length d"
    using g by (auto simp: gray_ok_def)
  have "y * unat (gf_stride g) + x < length d"
    using pixel_bound [OF y, of x "unat (gf_stride g)"] x d(2) gray_ok_nat(3) [OF g] by linarith
  moreover have "x < 2 ^ 32" using x gray_ok_nat(4) [OF g] by simp
  ultimately show ?thesis using d(1) by (simp add: gf_pixel_def px_at_simp gray_at_def)
qed

section \<open>Grayscale conversion is exact\<close>

lemma gray_pair_paint:
  assumes j: "2 * j + 1 < w" and w: "w \<le> s" "2 * w \<le> unat ss" "w < 2 ^ 31" and s: "s = unat stride"
    and y: "y < h" and m: "off + h * unat ss \<le> length m" and d: "h * s \<le> length d"
  shows "gray_pair m off ss stride y j d =
     Some (paint (\<lambda>p. m ! (off + p div s * unat ss + 2 * (p mod s))) [y * s + 2 * j, y * s + (2 * j + 1)] d)"
proof -
  let ?F = "\<lambda>p. m ! (off + p div s * unat ss + 2 * (p mod s))"
  have i: "of_nat (2 * j) * 2 = (of_nat (4 * j) :: u32)" "of_nat (2 * j) * 2 + 2 = (of_nat (4 * j + 2) :: u32)"
    "of_nat (2 * j) + 1 = (of_nat (2 * j + 1) :: u32)" by simp_all
  have lt: "4 * j + 2 < 2 ^ 32" using j w(3) by simp
  have "y * unat ss + (4 * j + 2) < h * unat ss" by (rule pixel_bound [OF y]) (use j w in linarith)
  then have r: "off + y * unat ss + 4 * j < length m" "off + y * unat ss + (4 * j + 2) < length m" using m by linarith+
  have "y * s + (2 * j + 1) < h * s" by (rule pixel_bound [OF y]) (use j w in linarith)
  then have q: "y * s + 2 * j < length d" "y * s + (2 * j + 1) < length d" using d by linarith+
  have F: "?F (y * s + 2 * j) = m ! (off + y * unat ss + 4 * j)" "?F (y * s + (2 * j + 1)) = m ! (off + y * unat ss + (4 * j + 2))"
  proof -
    have "(y * s + k) div s = y \<and> (y * s + k) mod s = k" if "k < s" for k using that by simp
    from this [of "2 * j"] this [of "2 * j + 1"] show "?F (y * s + 2 * j) = m ! (off + y * unat ss + 4 * j)"
        "?F (y * s + (2 * j + 1)) = m ! (off + y * unat ss + (4 * j + 2))" using j w(1) by simp_all
  qed
  have at: "px_at off ss y (of_nat (2 * j) * 2) = off + y * unat ss + 4 * j"
    "px_at off ss y (of_nat (2 * j) * 2 + 2) = off + y * unat ss + (4 * j + 2)"
    "px_at 0 stride y (of_nat (2 * j)) = y * s + 2 * j" "px_at 0 stride y (of_nat (2 * j) + 1) = y * s + (2 * j + 1)"
  proof -
    have "4 * j < 2 ^ 32" "2 * j < 2 ^ 32" "2 * j + 1 < 2 ^ 32" using lt by simp_all
    note P = this [THEN px_at_simp] px_at_simp [OF lt]
    show "px_at off ss y (of_nat (2 * j) * 2) = off + y * unat ss + 4 * j"
      "px_at off ss y (of_nat (2 * j) * 2 + 2) = off + y * unat ss + (4 * j + 2)"
      "px_at 0 stride y (of_nat (2 * j)) = y * s + 2 * j" "px_at 0 stride y (of_nat (2 * j) + 1) = y * s + (2 * j + 1)"
      unfolding i(2) unfolding i(1,3) s by (simp_all only: P)
  qed
  show ?thesis
    unfolding gray_pair_def Let_def at
    using r q F by (simp add: wr1 paint_def del: of_nat_mult of_nat_add)
qed

lemma pair_row: "w mod 2 = 0 \<Longrightarrow> set (concat (map (\<lambda>j. [b + 2 * j, b + (2 * j + 1)]) [0..<w div 2])) = (\<lambda>x. b + x) ` {..<w :: nat}"
proof (intro set_eqI iffI)
  fix p assume w: "w mod 2 = 0" and "p \<in> (\<lambda>x. b + x) ` {..<w}"
  then obtain x where x: "x < w" "p = b + x" by auto
  then have "x div 2 < w div 2" "x = 2 * (x div 2) \<or> x = 2 * (x div 2) + 1" using w by presburger+
  then show "p \<in> set (concat (map (\<lambda>j. [b + 2 * j, b + (2 * j + 1)]) [0..<w div 2]))" using x(2) by auto
qed auto

lemma unat_even_iff: "(w AND 1 = (0 :: u32)) = (unat w mod 2 = 0)"
proof -
  have "unat (w AND 1) = unat w mod 2" by (simp add: and_one_eq unat_mod)
  then show ?thesis by (metis unat_0 unsigned_word_eqI)
qed

lemma unat_twice: "unat (w :: u32) < 2 ^ 31 \<Longrightarrow> unat (w * 2) = 2 * unat w"
  by (subst unat_mult_lem [THEN iffD1]) simp_all

text \<open>The visible pixel (x, y) of the result is the luma sample of column x in row y; the bytes past the visible columns stay.\<close>

lemma yuyv_copies_luma:
  assumes g: "gf_data g = Some d" "0 < gf_width g" "0 < gf_height g" "gf_width g \<le> gf_stride g"
      "unat (gf_height g) * unat (gf_stride g) \<le> length d"
    and w: "unat (gf_width g) mod 2 = 0" "unat (gf_width g) < 2 ^ 31" "2 * unat (gf_width g) \<le> unat ss"
    and m: "off + unat (gf_height g) * unat ss \<le> length m"
  shows "vision_gray_from_yuyv (Some (m, off)) ss (Some g) =
     Some (0, Some (g\<lparr>gf_data := Some (repaint (unat (gf_stride g)) (unat (gf_width g)) (unat (gf_height g))
       (\<lambda>x y. m ! (off + y * unat ss + 2 * x)) d)\<rparr>))"
proof -
  let ?w = "unat (gf_width g)" and ?h = "unat (gf_height g)" and ?s = "unat (gf_stride g)"
  let ?F = "\<lambda>x y. m ! (off + y * unat ss + 2 * x)"
  have ws: "?w \<le> ?s" using g(4) by (simp add: word_le_nat_alt)
  have "foldo (\<lambda>y. foldo (gray_pair m off ss (gf_stride g) y) [0..<?w div 2]) [0..<?h] d = Some (repaint ?s ?w ?h ?F d)"
  proof (rule foldo_repaint [OF ws])
    fix y and d' :: bytes assume y: "y < ?h" and d': "length d' = length d"
    show "foldo (gray_pair m off ss (gf_stride g) y) [0..<?w div 2] d' =
        Some (paint (\<lambda>p. ?F (p mod ?s) (p div ?s)) (concat (map (\<lambda>j. [y * ?s + 2 * j, y * ?s + (2 * j + 1)]) [0..<?w div 2])) d')"
    proof (rule foldo_paint)
      fix j and d'' :: bytes assume "j \<in> set [0..<?w div 2]" "length d'' = length d'"
      then have "2 * j + 1 < ?w" "?h * ?s \<le> length d''" using g(5) d' w(1) by simp_all
      then show "gray_pair m off ss (gf_stride g) y j d'' =
          Some (paint (\<lambda>p. ?F (p mod ?s) (p div ?s)) [y * ?s + 2 * j, y * ?s + (2 * j + 1)] d'')"
        by (intro gray_pair_paint [OF _ ws w(3) w(2) refl y m])
    qed
  qed (rule pair_row [OF w(1)])
  moreover have "\<not> ss < gf_width g * 2" using w(2,3) by (simp add: word_less_nat_alt unat_twice)
  ultimately show ?thesis
    using g w(1) unat_even_iff [of "gf_width g"] by (simp add: vision_gray_from_yuyv_def valid_frame_def)
qed

section \<open>The search finds the best admissible translation\<close>

definition overlap :: "nat \<Rightarrow> int \<Rightarrow> nat list" where
  "overlap n d = [nat (- d)..<n - nat d]"

definition admissible :: "nat \<Rightarrow> int \<Rightarrow> bool" where
  "admissible n d \<longleftrightarrow> nat \<bar>d\<bar> < n \<and> n div 4 \<le> n - nat \<bar>d\<bar>"

definition abs_diff :: "nat \<Rightarrow> nat \<Rightarrow> nat" where
  "abs_diff u v = (if u < v then v - u else u - v)"

definition sad :: "gray_frame \<Rightarrow> gray_frame \<Rightarrow> int \<times> int \<Rightarrow> nat" where
  "sad a b = (\<lambda>(dx, dy). \<Sum>y\<leftarrow>overlap (unat (gf_height a)) dy. \<Sum>x\<leftarrow>overlap (unat (gf_width a)) dx.
     abs_diff (gray_at a x y) (gray_at b (nat (int x + dx)) (nat (int y + dy))))"

definition in_reach :: "gray_frame \<Rightarrow> int \<times> int \<Rightarrow> bool" where
  "in_reach a = (\<lambda>(dx, dy). admissible (unat (gf_width a)) dx \<and> admissible (unat (gf_height a)) dy)"

lemma overlap_in: "x \<in> set (overlap n d) \<Longrightarrow> x < n \<and> 0 \<le> int x + d \<and> int x + d < int n"
  by (auto simp: overlap_def)

lemma foldo_sum:
  assumes "\<And>x e. x \<in> set xs \<Longrightarrow> f x e = Some (e + of_nat (c x))"
  shows "foldo f xs (e :: 'a::semiring_1) = Some (e + of_nat (\<Sum>x\<leftarrow>xs. c x))"
  using assms by (induction xs arbitrary: e) (simp_all add: add.assoc)

lemma sum_list_bound: "(\<And>x. x \<in> set xs \<Longrightarrow> c x \<le> b) \<Longrightarrow> (\<Sum>x\<leftarrow>xs. c x) \<le> length xs * (b :: nat)"
  by (induction xs) (simp, fastforce intro: add_mono)

lemma gray_at_less: "gray_at g x y < 256"
  by (simp add: gray_at_def unat_u8)

lemma sad_bound: "gray_ok a \<Longrightarrow> sad a b c < 2 ^ 64 - 1"
proof -
  assume a: "gray_ok a"
  obtain dx dy where c: "c = (dx, dy)" by (cases c)
  let ?w = "unat (gf_width a)" and ?h = "unat (gf_height a)"
  have in1: "(\<Sum>x\<leftarrow>overlap ?w dx. abs_diff (gray_at a x y) (gray_at b (nat (int x + dx)) (nat (int y + dy)))) \<le> ?w * 255" for y
  proof -
    have "(\<Sum>x\<leftarrow>overlap ?w dx. abs_diff (gray_at a x y) (gray_at b (nat (int x + dx)) (nat (int y + dy)))) \<le> length (overlap ?w dx) * 255"
    proof (rule sum_list_bound)
      fix x
      show "abs_diff (gray_at a x y) (gray_at b (nat (int x + dx)) (nat (int y + dy))) \<le> 255"
        using gray_at_less [of a x y] gray_at_less [of b "nat (int x + dx)" "nat (int y + dy)"] by (auto simp: abs_diff_def)
    qed
    moreover have "length (overlap ?w dx) * 255 \<le> ?w * 255" by (intro mult_le_mono1) (simp add: overlap_def)
    ultimately show ?thesis by linarith
  qed
  have "sad a b c \<le> length (overlap ?h dy) * (?w * 255)"
    unfolding sad_def c prod.case by (rule sum_list_bound) (rule in1)
  also have "\<dots> \<le> 2 ^ 28 * (2 ^ 28 * 255)"
    using gray_ok_nat(4,5) [OF a] by (intro mult_le_mono) (auto simp: overlap_def)
  finally show ?thesis by simp
qed

lemma of_int_abs_diff:
  "(of_int (if int u - int v < 0 then - (int u - int v) else int u - int v) :: 'a::ring_1) = of_nat (abs_diff u v)"
  by (cases "u < v") (simp_all add: abs_diff_def of_nat_diff)

lemma int_small: "n < 2 ^ 28 \<Longrightarrow> int n < 2 ^ 28"
  by simp

lemma sint_small: "x < 2 ^ 31 \<Longrightarrow> sint (of_nat x :: u32) = int x"
  by (simp add: signed_of_nat signed_take_bit_int_eq_self)

lemma pixel_error_ok:
  assumes a: "gray_ok a" and b: "gray_ok b" and dims: "gf_width b = gf_width a" "gf_height b = gf_height a"
    and x: "x \<in> set (overlap (unat (gf_width a)) dx)" and y: "y \<in> set (overlap (unat (gf_height a)) dy)"
  shows "pixel_error a b dx dy y x e =
     Some (e + of_nat (abs_diff (gray_at a x y) (gray_at b (nat (int x + dx)) (nat (int y + dy)))))"
proof -
  let ?w = "unat (gf_width a)" and ?h = "unat (gf_height a)"
  note N = gray_ok_nat [OF a] and X = overlap_in [OF x] and Y = overlap_in [OF y]
  obtain va where va: "gf_pixel a y (of_nat x) = Some va" "unat va = gray_at a x y"
    using gf_pixel_ok [OF a, of x y] X Y by blast
  obtain d where d: "gf_data b = Some d" "?h * unat (gf_stride b) \<le> length d"
    using b dims by (auto simp: gray_ok_def)
  have bx: "int_add (sint (of_nat x :: u32)) dx = Some (int x + dx)"
  proof -
    have "int x + dx < 2 ^ 28" using X int_small [OF N(4)] by linarith
    moreover have "x < 2 ^ 31" using X N(4) by simp
    ultimately show ?thesis using X by (simp add: sint_small int_add_def)
  qed
  have e: "(of_nat y + of_int dy :: u32) = of_nat (nat (int y + dy))" using Y by simp
  have "int y + dy < 2 ^ 28" using Y int_small [OF N(5)] by linarith
  then have yy: "unat (of_nat y + of_int dy :: u32) = nat (int y + dy)" unfolding e by (intro unat_u32) simp
  define i where "i = nat (int y + dy) * unat (gf_stride b) + nat (int x + dx)"
  have i: "int (nat (int y + dy) * unat (gf_stride b)) + (int x + dx) = int i" using X by (simp add: i_def)
  have "?w \<le> unat (gf_stride b)" using gray_ok_nat(3) [OF b] dims by simp
  then have "i < ?h * unat (gf_stride b)" unfolding i_def using X Y by (intro pixel_bound) linarith+
  with d(2) have il: "i < length d" by simp
  have vb: "unat (d ! i) = gray_at b (nat (int x + dx)) (nat (int y + dy))" using d(1) by (simp add: gray_at_def i_def)
  have e2: "(of_int (if uint va - uint (d ! i) < 0 then - (uint va - uint (d ! i)) else uint va - uint (d ! i)) :: u64) =
      of_nat (abs_diff (unat va) (unat (d ! i)))"
  proof -
    have u: "uint va = int (unat va)" "uint (d ! i) = int (unat (d ! i))" by simp_all
    show ?thesis unfolding u by (rule of_int_abs_diff)
  qed
  have "pixel_error a b dx dy y x e =
      (let i = int i; d' = d in do {
        vb \<leftarrow> (if i < 0 then None else rd8 d' (nat i));
        let d = uint va - uint vb;
        Some (e + of_int (if d < 0 then - d else d)) })"
    unfolding pixel_error_def va(1) d(1) bx yy i [symmetric] by (simp add: Let_def)
  then show ?thesis using il e2 unfolding va(2) vb by (simp add: Let_def)
qed

lemma candidate_bounds:
  fixes n :: u32
  assumes n: "unat n < 2 ^ 28" and d: "\<bar>d\<bar> \<le> int (unat n)"
  shows "unat (if d < 0 then of_int (- d) else 0 :: u32) = nat (- d)"
    "unat (if d > 0 then n - of_int d else n) = unat n - nat d"
proof -
  have "unat (of_int (- d) :: u32) = nat (- d)" if "d < 0"
  proof -
    have e: "(of_int (- d) :: u32) = of_nat (nat (- d))" using that by simp
    have "- d < 2 ^ 28" using int_small [OF n] d that by linarith
    then show ?thesis unfolding e by (intro unat_u32) simp
  qed
  then show "unat (if d < 0 then of_int (- d) else 0 :: u32) = nat (- d)" by simp
  have "unat (n - of_int d) = unat n - nat d" if "d > 0"
  proof -
    have e: "(of_int d :: u32) = of_nat (nat d)" using that by simp
    have "d < 2 ^ 28" using int_small [OF n] d that by linarith
    then have "unat (of_int d :: u32) = nat d" unfolding e by (intro unat_u32) simp
    moreover have "nat d \<le> unat n" using d that by linarith
    moreover from calculation have "(of_int d :: u32) \<le> n" by (simp add: word_le_nat_alt)
    ultimately show ?thesis by (simp add: unat_sub)
  qed
  then show "unat (if d > 0 then n - of_int d else n) = unat n - nat d" by simp
qed

lemma candidate_error_ok:
  assumes a: "gray_ok a" and b: "gray_ok b" and dims: "gf_width b = gf_width a" "gf_height b = gf_height a"
    and dx: "\<bar>dx\<bar> \<le> int (unat (gf_width a))" and dy: "\<bar>dy\<bar> \<le> int (unat (gf_height a))"
  shows "candidate_error a b dx dy = Some (if in_reach a (dx, dy) then Inr (of_nat (sad a b (dx, dy))) else Inl ())"
proof -
  let ?w = "unat (gf_width a)" and ?h = "unat (gf_height a)"
  define x0 :: u32 where "x0 = (if dx < 0 then of_int (- dx) else 0)"
  define x1 where "x1 = (if dx > 0 then gf_width a - of_int dx else gf_width a)"
  define y0 :: u32 where "y0 = (if dy < 0 then of_int (- dy) else 0)"
  define y1 where "y1 = (if dy > 0 then gf_height a - of_int dy else gf_height a)"
  note N = gray_ok_nat [OF a]
  have X: "unat x0 = nat (- dx)" "unat x1 = ?w - nat dx"
    unfolding x0_def x1_def using candidate_bounds [OF N(4) dx] by simp_all
  have Y: "unat y0 = nat (- dy)" "unat y1 = ?h - nat dy"
    unfolding y0_def y1_def using candidate_bounds [OF N(5) dy] by simp_all
  have reach: "(l \<le> k \<or> l - k < n div 4) = (\<not> admissible (unat n) d)"
    if "unat k = nat (- d)" "unat l = unat n - nat d" for n k l :: u32 and d
  proof (cases "l \<le> k")
    case True
    then show ?thesis using that by (auto simp: admissible_def word_le_nat_alt)
  next
    case False
    moreover have "unat n - nat d - nat (- d) = unat n - nat \<bar>d\<bar>" by (cases "d < 0") simp_all
    ultimately have "unat (l - k) = unat n - nat \<bar>d\<bar>" using that by (simp add: unat_sub word_le_nat_alt)
    with False that show ?thesis by (simp add: admissible_def word_le_nat_alt word_less_nat_alt unat_div) linarith
  qed
  have "foldo (\<lambda>y. foldo (pixel_error a b dx dy y) [unat x0..<unat x1]) [unat y0..<unat y1] 0 = Some (0 + of_nat (sad a b (dx, dy)))"
    unfolding sad_def prod.case X Y overlap_def [symmetric]
    by (rule foldo_sum, rule foldo_sum, rule pixel_error_ok [OF a b dims])
  then show ?thesis
    using reach [OF X] reach [OF Y]
    by (simp add: candidate_error_def in_reach_def Let_def flip: x0_def x1_def y0_def y1_def) blast
qed

text \<open>
  The loop over the candidates keeps the first of the best ones. A search that has seen no admissible
  candidate still has its start value, which every error is below.
\<close>

definition best_of :: "('c \<Rightarrow> nat) \<Rightarrow> ('c \<Rightarrow> bool) \<Rightarrow> 'c list \<Rightarrow> 'c \<Rightarrow> bool" where
  "best_of cost P cs m \<longleftrightarrow> m \<in> set cs \<and> P m \<and> (\<forall>c \<in> set cs. P c \<longrightarrow> cost m \<le> cost c) \<and>
     (\<forall>c \<in> set (takeWhile (\<lambda>c. c \<noteq> m) cs). P c \<longrightarrow> cost m < cost c)"

lemma best_of_snoc_keep:
  "best_of cost P cs m \<Longrightarrow> (P c \<Longrightarrow> cost m \<le> cost c) \<Longrightarrow> best_of cost P (cs @ [c]) m"
  by (auto simp: best_of_def)

lemma best_of_snoc_new:
  assumes "P c" "\<And>d. d \<in> set cs \<Longrightarrow> P d \<Longrightarrow> cost c < cost d"
  shows "best_of cost P (cs @ [c]) c"
proof -
  have "c \<notin> set cs" using assms by blast
  then have "takeWhile (\<lambda>d. d \<noteq> c) (cs @ [c]) = cs" by (subst takeWhile_append2) auto
  then show ?thesis using assms by (auto simp: best_of_def less_imp_le)
qed

lemma of_nat_less_u64: "m < 2 ^ 64 \<Longrightarrow> n < 2 ^ 64 \<Longrightarrow> ((of_nat m :: u64) < of_nat n) = (m < n)"
  by (simp add: word_less_nat_alt unat_of_nat take_bit_nat_eq_self)

lemma search_best:
  assumes r: "\<And>c. c \<in> set cs \<Longrightarrow> r c = Some (if P c then Inr (of_nat (cost c)) else Inl ())"
    and cost: "\<And>c. cost c < 2 ^ 64 - 1"
  defines "f \<equiv> (\<lambda>(dx, dy) acc. map_option (\<lambda>r. keep_best dx dy r acc) (r (dx, dy)))"
  shows "(if filter P cs = [] then foldo f cs (- 1, z) = Some (- 1, z)
     else \<exists>m. best_of cost P cs m \<and> foldo f cs (- 1, z) = Some (of_nat (cost m), m))"
  using r
proof (induction cs rule: rev_induct)
  case (snoc c cs)
  have rc: "r c = Some (if P c then Inr (of_nat (cost c)) else Inl ())" using snoc.prems by simp
  have fc: "f c acc = Some (if P c \<and> of_nat (cost c) < fst acc then (of_nat (cost c), c) else acc)" for acc
    unfolding f_def using rc by (cases c) (simp add: keep_best_def)
  have IH: "if filter P cs = [] then foldo f cs (- 1, z) = Some (- 1, z)
     else \<exists>m. best_of cost P cs m \<and> foldo f cs (- 1, z) = Some (of_nat (cost m), m)"
    using snoc.IH snoc.prems by simp
  have m1: "(- 1 :: u64) = of_nat (2 ^ 64 - 1)" by simp
  show ?case
  proof (cases "filter P cs = []")
    case True
    have "of_nat (cost c) < (- 1 :: u64)" unfolding m1 using cost [of c] by (subst of_nat_less_u64) simp_all
    moreover have "\<not> P d" if "d \<in> set cs" for d using True that by (auto simp: filter_empty_conv)
    then have "P c \<Longrightarrow> best_of cost P (cs @ [c]) c" by (intro best_of_snoc_new) auto
    ultimately have new: "foldo f (cs @ [c]) (- 1, z) = Some (if P c then (of_nat (cost c), c) else (- 1, z))"
        "P c \<Longrightarrow> best_of cost P (cs @ [c]) c"
      using IH True by (auto simp: foldo_append fc)
    show ?thesis
    proof (cases "P c")
      case True
      then have "\<exists>m. best_of cost P (cs @ [c]) m \<and> foldo f (cs @ [c]) (- 1, z) = Some (of_nat (cost m), m)"
        using new by (intro exI [of _ c]) simp
      with True show ?thesis by simp
    next
      case nc: False
      with True new show ?thesis by simp
    qed
  next
    case False
    then obtain m where m: "best_of cost P cs m" "foldo f cs (- 1, z) = Some (of_nat (cost m), m)" using IH by auto
    have lt: "((of_nat (cost c) :: u64) < of_nat (cost m)) = (cost c < cost m)"
      using cost [of c] cost [of m] by (intro of_nat_less_u64) simp_all
    show ?thesis
    proof (cases "P c \<and> cost c < cost m")
      case True
      then have "best_of cost P (cs @ [c]) c"
        using m(1) by (intro best_of_snoc_new) (auto simp: best_of_def dest: order_less_le_trans)
      moreover have "foldo f (cs @ [c]) (- 1, z) = Some (of_nat (cost c), c)" using m(2) True by (simp add: foldo_append fc lt)
      ultimately have "\<exists>m. best_of cost P (cs @ [c]) m \<and> foldo f (cs @ [c]) (- 1, z) = Some (of_nat (cost m), m)"
        by (intro exI [of _ c]) simp
      then show ?thesis using True by simp
    next
      case nc: False
      then have "best_of cost P (cs @ [c]) m" using m(1) by (intro best_of_snoc_keep) auto
      moreover have "foldo f (cs @ [c]) (- 1, z) = Some (of_nat (cost m), m)" using m(2) nc by (auto simp: foldo_append fc lt)
      ultimately have "\<exists>m. best_of cost P (cs @ [c]) m \<and> foldo f (cs @ [c]) (- 1, z) = Some (of_nat (cost m), m)"
        by (intro exI [of _ m]) simp
      then show ?thesis using False by simp
    qed
  qed
qed simp

lemma set_candidates: "c \<in> set (candidates mx my) \<longleftrightarrow> \<bar>fst c\<bar> \<le> mx \<and> \<bar>snd c\<bar> \<le> my"
  by (cases c) (auto simp: candidates_def abs_le_iff image_iff)

lemma estimate_best:
  assumes a: "gray_ok a" and b: "gray_ok b" and dims: "gf_width b = gf_width a" "gf_height b = gf_height a"
    and mx: "0 \<le> mx" "mx \<le> int (unat (gf_width a))" and my: "0 \<le> my" "my \<le> int (unat (gf_height a))"
  shows "\<exists>dx dy. vision_estimate_offset (Some a) (Some b) mx my = Some (0, Some (dx, dy, of_nat (sad a b (dx, dy)))) \<and>
     best_of (sad a b) (in_reach a) (candidates mx my) (dx, dy)"
proof -
  let ?f = "\<lambda>(dx, dy) acc. map_option (\<lambda>r. keep_best dx dy r acc) ((\<lambda>(dx, dy). candidate_error a b dx dy) (dx, dy))"
  have r: "(\<lambda>(dx, dy). candidate_error a b dx dy) c = Some (if in_reach a c then Inr (of_nat (sad a b c)) else Inl ())"
    if c: "c \<in> set (candidates mx my)" for c
  proof -
    obtain dx dy where dxy: "c = (dx, dy)" by (cases c)
    have "\<bar>dx\<bar> \<le> mx" "\<bar>dy\<bar> \<le> my" using c by (simp_all add: set_candidates dxy)
    then have "candidate_error a b dx dy = Some (if in_reach a (dx, dy) then Inr (of_nat (sad a b (dx, dy))) else Inl ())"
      using mx(2) my(2) by (intro candidate_error_ok [OF a b dims]) linarith+
    then show ?thesis by (simp add: dxy)
  qed
  have "(0, 0) \<in> set (candidates mx my)" using mx my by (simp add: set_candidates)
  moreover have "in_reach a (0, 0)" using gray_ok_nat [OF a] by (simp add: in_reach_def admissible_def)
  ultimately have ne: "filter (in_reach a) (candidates mx my) \<noteq> []" by (auto simp: filter_empty_conv)
  then obtain m where m: "best_of (sad a b) (in_reach a) (candidates mx my) m"
      "foldo ?f (candidates mx my) (- 1, 0, 0) = Some (of_nat (sad a b m), m)"
    using search_best [where cs = "candidates mx my" and P = "in_reach a" and cost = "sad a b" and z = "(0, 0)"
        and r = "\<lambda>(dx, dy). candidate_error a b dx dy", OF r sad_bound [OF a]] by (simp only: if_False) blast
  obtain dx dy where dxy: "m = (dx, dy)" by (cases m)
  have lim: "mx \<noteq> 2 ^ 31 - 1" "my \<noteq> 2 ^ 31 - 1"
  proof -
    have "mx < 2 ^ 28" "my < 2 ^ 28"
      using mx my int_small [OF gray_ok_nat(4) [OF a]] int_small [OF gray_ok_nat(5) [OF a]] by linarith+
    then show "mx \<noteq> 2 ^ 31 - 1" "my \<noteq> 2 ^ 31 - 1" by simp_all
  qed
  have m1: "(- 1 :: u64) = of_nat (2 ^ 64 - 1)" by simp
  have "(of_nat (sad a b m) :: u64) < - 1" unfolding m1 using sad_bound [OF a, of b m] by (subst of_nat_less_u64) simp_all
  then have "(of_nat (sad a b m) :: u64) \<noteq> - 1" by simp
  then have "vision_estimate_offset (Some a) (Some b) mx my = Some (0, Some (dx, dy, of_nat (sad a b (dx, dy))))"
    using gray_ok_valid [OF a] gray_ok_valid [OF b] dims mx my lim m(2)
    by (simp add: vision_estimate_offset_def dxy)
  then show ?thesis using m(1) dxy by blast
qed

text \<open>
  C34. The search for the translation between two frames returns the best one: for two frames of the
  same size and a window no larger than the frame it succeeds, and its result is the first admissible
  displacement of the window, in the order of the loops, whose sum of absolute differences over the
  overlap is the least of all admissible displacements. The sum itself is reported, without overflow.
\<close>

theorem estimate_finds_best:
  assumes a: "gray_ok a" and b: "gray_ok b" and dims: "gf_width b = gf_width a" "gf_height b = gf_height a"
    and mx: "0 \<le> mx" "mx \<le> int (unat (gf_width a))" and my: "0 \<le> my" "my \<le> int (unat (gf_height a))"
  shows "\<exists>dx dy. vision_estimate_offset (Some a) (Some b) mx my = Some (0, Some (dx, dy, of_nat (sad a b (dx, dy)))) \<and>
     best_of (sad a b) (in_reach a) (candidates mx my) (dx, dy)"
  using assms by (rule estimate_best)

definition moved_frame :: gray_frame where
  "moved_frame = \<lparr>gf_width = 2, gf_height = 1, gf_stride = 2, gf_data = Some [7, 9]\<rparr>"

lemma estimate_finds_best_witness:
  "\<exists>dx dy. vision_estimate_offset (Some moved_frame) (Some moved_frame) 1 0 = Some (0, Some (dx, dy, of_nat (sad moved_frame moved_frame (dx, dy)))) \<and>
     best_of (sad moved_frame moved_frame) (in_reach moved_frame) (candidates 1 0) (dx, dy)"
  by (rule estimate_finds_best) (simp_all add: moved_frame_def gray_ok_def)

lemma shift_is_found:
  assumes a: "gray_ok a" and b: "gray_ok b" and dims: "gf_width b = gf_width a" "gf_height b = gf_height a"
    and mx: "0 \<le> mx" "mx \<le> int (unat (gf_width a))" and my: "0 \<le> my" "my \<le> int (unat (gf_height a))"
    and d: "(dx, dy) \<in> set (candidates mx my)" "in_reach a (dx, dy)" "sad a b (dx, dy) = 0"
    and u: "\<And>c. c \<in> set (candidates mx my) \<Longrightarrow> in_reach a c \<Longrightarrow> sad a b c = 0 \<Longrightarrow> c = (dx, dy)"
  shows "vision_estimate_offset (Some a) (Some b) mx my = Some (0, Some (dx, dy, 0))"
proof -
  obtain x y where r: "vision_estimate_offset (Some a) (Some b) mx my = Some (0, Some (x, y, of_nat (sad a b (x, y))))"
    and m: "best_of (sad a b) (in_reach a) (candidates mx my) (x, y)"
    using estimate_best [OF a b dims mx my] by blast
  have "sad a b (x, y) \<le> sad a b (dx, dy)" using m d by (auto simp: best_of_def)
  then have z: "sad a b (x, y) = 0" using d by simp
  have "(x, y) = (dx, dy)" by (rule u) (use m z in \<open>auto simp: best_of_def\<close>)
  with r z show ?thesis by simp
qed

text \<open>
  What the search does outside those bounds, and on a picture without features. A window wider than the
  frame subtracts past zero and reads out of bounds; a sum of absolute differences is not divided by
  the size of the overlap, so that every displacement of a flat picture is as good as none and the
  first of them is taken.
\<close>

lemma foldo_None: "x \<in> set xs \<Longrightarrow> (\<And>b. f x b = None) \<Longrightarrow> foldo f xs b = None"
  by (induction xs arbitrary: b) (auto split: option.split)

lemma wide_candidate_faults:
  assumes a: "gray_ok a" and d: "gf_data a = Some da" "length da < 2 ^ 32 - 1"
  shows "candidate_error a b (int (unat (gf_width a)) + 1) 0 = None"
proof -
  let ?dx = "int (unat (gf_width a)) + 1"
  note N = gray_ok_nat [OF a]
  have "gf_width a - of_int ?dx = - 1" by simp
  then have x1: "(if ?dx > 0 then gf_width a - of_int ?dx else gf_width a) = - 1" by simp
  have "0 \<le> uint (gf_width a)" by simp
  then have "\<not> ?dx < 0" by linarith
  then have x0: "(if ?dx < 0 then of_int (- ?dx) else 0 :: u32) = 0" by (simp only: if_False)
  have u1: "unat (- 1 :: u32) = 2 ^ 32 - 1" by (simp add: unsigned_minus_1_eq_mask mask_eq_exp_minus_1)
  have "pixel_error a b ?dx 0 0 (length da) e = None" for e
    using d by (simp add: pixel_error_def gf_pixel_def px_at_simp rd8_def)
  then have inner: "foldo (pixel_error a b ?dx 0 0) [unat (0 :: u32)..<unat (- 1 :: u32)] e = None" for e
    using d(2) by (intro foldo_None [where x = "length da"]) (simp_all add: u1)
  have outer: "foldo (\<lambda>y. foldo (pixel_error a b ?dx 0 y) [unat (0 :: u32)..<unat (- 1 :: u32)]) [unat (0 :: u32)..<unat (gf_height a)] 0 = None"
    using N(2) by (rule_tac foldo_None [where x = 0]) (simp, rule inner)
  have "\<not> (- 1 :: u32) < gf_width a div 4" by (simp add: not_less)
  moreover have "\<not> gf_height a < gf_height a div 4" by (simp add: word_less_nat_alt unat_div)
  moreover have "\<not> gf_height a \<le> 0" using N(2) by (simp add: word_le_nat_alt)
  ultimately show ?thesis
    unfolding candidate_error_def Let_def x1 x0 using N(1) outer by (simp add: word_le_nat_alt u1)
qed

lemma narrow_frame_faults:
  assumes a: "gray_ok a" and b: "gray_ok b" and dims: "gf_width b = gf_width a" "gf_height b = gf_height a"
    and d: "gf_data a = Some da" "length da < 2 ^ 32 - 1"
    and mx: "int (unat (gf_width a)) < mx" and my: "0 \<le> my"
  shows "vision_estimate_offset (Some a) (Some b) mx my = None"
proof -
  have "foldo (\<lambda>(dx, dy) acc. map_option (\<lambda>r. keep_best dx dy r acc) (candidate_error a b dx dy)) (candidates mx my) (- 1, 0, 0) = None"
    using mx my wide_candidate_faults [OF a d, of b]
    by (intro foldo_None [where x = "(int (unat (gf_width a)) + 1, 0)"]) (simp_all add: set_candidates)
  moreover have "0 \<le> mx" using mx by linarith
  ultimately show ?thesis
    using gray_ok_valid [OF a] gray_ok_valid [OF b] dims my by (simp add: vision_estimate_offset_def)
qed

definition flat_frame :: gray_frame where
  "flat_frame = \<lparr>gf_width = 4, gf_height = 4, gf_stride = 4, gf_data = Some (replicate 16 100)\<rparr>"

lemma still_picture_drifts: "vision_estimate_offset (Some flat_frame) (Some flat_frame) 2 2 = Some (0, Some (- 2, - 2, 0))"
  by code_simp

section \<open>The mosaic is the mean of the frames\<close>

text \<open>
  \<open>dab S V m\<close> counts the value \<open>V i\<close> in at each cell \<open>i\<close> of the set \<open>S\<close>. A loop whose rounds count in
  at disjoint sets counts in at their union.
\<close>

definition dab :: "nat set \<Rightarrow> (nat \<Rightarrow> nat) \<Rightarrow> vision_mosaic \<Rightarrow> vision_mosaic" where
  "dab S V m = m\<lparr>vm_sum := map (\<lambda>i. vm_sum m ! i + (if i \<in> S then of_nat (V i) else 0)) [0..<length (vm_sum m)],
     vm_count := map (\<lambda>i. vm_count m ! i + (if i \<in> S then 1 else 0)) [0..<length (vm_count m)]\<rparr>"

lemma dab_simps [simp]:
  "vm_width (dab S V m) = vm_width m" "vm_height (dab S V m) = vm_height m"
  "length (vm_sum (dab S V m)) = length (vm_sum m)" "length (vm_count (dab S V m)) = length (vm_count m)"
  "i < length (vm_sum m) \<Longrightarrow> vm_sum (dab S V m) ! i = vm_sum m ! i + (if i \<in> S then of_nat (V i) else 0)"
  "i < length (vm_count m) \<Longrightarrow> vm_count (dab S V m) ! i = vm_count m ! i + (if i \<in> S then 1 else 0)"
  by (simp_all add: dab_def)

lemma dab_empty [simp]: "dab {} V m = m"
  by (cases m) (simp add: dab_def map_nth)

lemma map_insert:
  "i < length xs \<Longrightarrow> i \<notin> T \<Longrightarrow> map (\<lambda>j. xs ! j + (if j \<in> insert i T then c j else 0)) [0..<length xs] =
     (map (\<lambda>j. xs ! j + (if j \<in> T then c j else (0 :: 'a::monoid_add))) [0..<length xs])[i := xs ! i + c i]"
  by (rule nth_equalityI) (auto simp: nth_list_update)

lemma dab_insert:
  assumes "i \<notin> T" "i < length (vm_sum m)" "i < length (vm_count m)"
  shows "dab (insert i T) V m = (dab T V m)\<lparr>vm_sum := (vm_sum (dab T V m))[i := vm_sum (dab T V m) ! i + of_nat (V i)],
     vm_count := (vm_count (dab T V m))[i := vm_count (dab T V m) ! i + 1]\<rparr>"
proof -
  have "vm_sum (dab T V m) ! i = vm_sum m ! i" "vm_count (dab T V m) ! i = vm_count m ! i" using assms by simp_all
  then show ?thesis
    unfolding dab_def
    using map_insert [OF assms(2,1), of "\<lambda>j. of_nat (V j)"] map_insert [OF assms(3,1), of "\<lambda>j. 1"] by simp
qed

lemma foldo_dab:
  assumes f: "\<And>x T. x \<in> set xs \<Longrightarrow> T \<inter> S x = {} \<Longrightarrow> f x (dab T V m) = Some (dab (T \<union> S x) V m)"
    and dis: "\<And>x y. x \<in> set xs \<Longrightarrow> y \<in> set xs \<Longrightarrow> x \<noteq> y \<Longrightarrow> S x \<inter> S y = {}" and xs: "distinct xs"
    and T: "\<And>x. x \<in> set xs \<Longrightarrow> T \<inter> S x = {}"
  shows "foldo f xs (dab T V m) = Some (dab (T \<union> (\<Union>x \<in> set xs. S x)) V m)"
  using assms
proof (induction xs arbitrary: T)
  case (Cons x xs)
  have x: "f x (dab T V m) = Some (dab (T \<union> S x) V m)" using Cons.prems(1,4) by simp
  have "foldo f xs (dab (T \<union> S x) V m) = Some (dab ((T \<union> S x) \<union> (\<Union>x \<in> set xs. S x)) V m)"
  proof (rule Cons.IH)
    show "(T \<union> S x) \<inter> S y = {}" if "y \<in> set xs" for y
      using Cons.prems(2) [of x y] Cons.prems(3) Cons.prems(4) [of y] that by auto
  qed (use Cons.prems in auto)
  with x show ?case by (simp add: Un_assoc)
qed simp

text \<open>The cells a frame at \<open>(ox, oy)\<close> covers, and the pixel that falls on a cell.\<close>

definition cell :: "vision_mosaic \<Rightarrow> int \<Rightarrow> int \<Rightarrow> nat" where
  "cell m gx gy = nat gy * unat (vm_width m) + nat gx"

definition on_canvas :: "vision_mosaic \<Rightarrow> int \<Rightarrow> int \<Rightarrow> bool" where
  "on_canvas m gx gy \<longleftrightarrow> 0 \<le> gx \<and> gx < int (unat (vm_width m)) \<and> 0 \<le> gy \<and> gy < int (unat (vm_height m))"

definition covers :: "vision_mosaic \<Rightarrow> gray_frame \<Rightarrow> int \<Rightarrow> int \<Rightarrow> nat \<Rightarrow> bool" where
  "covers m f ox oy i \<longleftrightarrow> i < unat (vm_width m) * unat (vm_height m) \<and>
     (let x = int (i mod unat (vm_width m)) - ox; y = int (i div unat (vm_width m)) - oy
      in 0 \<le> x \<and> x < int (unat (gf_width f)) \<and> 0 \<le> y \<and> y < int (unat (gf_height f)))"

definition seen_at :: "vision_mosaic \<Rightarrow> gray_frame \<Rightarrow> int \<Rightarrow> int \<Rightarrow> nat \<Rightarrow> nat" where
  "seen_at m f ox oy i = gray_at f (nat (int (i mod unat (vm_width m)) - ox)) (nat (int (i div unat (vm_width m)) - oy))"

text \<open>A canvas whose dimensions are positive as signed numbers, and whose counters are not saturated.\<close>

definition canvas_ok :: "vision_mosaic \<Rightarrow> bool" where
  "canvas_ok m \<longleftrightarrow> length (vm_sum m) = unat (vm_width m) * unat (vm_height m) \<and>
     length (vm_count m) = unat (vm_width m) * unat (vm_height m) \<and>
     unat (vm_width m) < 2 ^ 30 \<and> unat (vm_height m) < 2 ^ 30"

definition unsaturated :: "vision_mosaic \<Rightarrow> bool" where
  "unsaturated m \<longleftrightarrow> (\<forall>i < length (vm_count m). vm_count m ! i \<noteq> - 1)"

lemma sint_of_small: "unat (w :: u32) < 2 ^ 31 \<Longrightarrow> sint w = int (unat w)"
  using sint_small [of "unat w"] by simp

lemma cell_inverse:
  "on_canvas m gx gy \<Longrightarrow> cell m gx gy mod unat (vm_width m) = nat gx \<and> cell m gx gy div unat (vm_width m) = nat gy \<and>
     cell m gx gy < unat (vm_width m) * unat (vm_height m)"
proof -
  assume c: "on_canvas m gx gy"
  then have "nat gx < unat (vm_width m)" "nat gy < unat (vm_height m)" unfolding on_canvas_def by linarith+
  then show ?thesis using pixel_bound [of "nat gy" "unat (vm_height m)" "nat gx" "unat (vm_width m)"]
    by (simp add: cell_def mult.commute)
qed

lemma mosaic_pixel_dab:
  assumes f: "gray_ok f" and c: "canvas_ok m" and u: "unsaturated m"
    and x: "x < unat (gf_width f)" and y: "y < unat (gf_height f)"
    and o: "- (2 ^ 30) \<le> ox" "ox \<le> 2 ^ 30" and gy: "0 \<le> oy + int y" "oy + int y < int (unat (vm_height m))"
    and T: "T \<inter> {i. on_canvas m (ox + int x) (oy + int y) \<and> i = cell m (ox + int x) (oy + int y)} = {}"
  shows "mosaic_pixel f ox (oy + int y) y x (dab T (seen_at m f ox oy) m) =
     Some (dab (T \<union> {i. on_canvas m (ox + int x) (oy + int y) \<and> i = cell m (ox + int x) (oy + int y)}) (seen_at m f ox oy) m)"
proof -
  let ?gx = "ox + int x" and ?gy = "oy + int y"
  define V where "V = seen_at m f ox oy"
  have xs: "x < 2 ^ 28" using x gray_ok_nat(4) [OF f] by simp
  then have add: "int_add ox (sint (of_nat x :: u32)) = Some ?gx"
    using o int_small [OF xs] by (simp add: sint_small int_add_def)
  have sw: "sint (vm_width m) = int (unat (vm_width m))" using c by (intro sint_of_small) (simp add: canvas_ok_def)
  show ?thesis
  proof (cases "on_canvas m ?gx ?gy")
    case False
    then have "?gx < 0 \<or> ?gx \<ge> sint (vm_width m)" using gy unfolding on_canvas_def sw by linarith
    then show ?thesis using False by (auto simp: mosaic_pixel_def add)
  next
    case True
    define i where "i = cell m ?gx ?gy"
    note I = cell_inverse [OF True, folded i_def]
    have iT: "i \<notin> T" using T True by (auto simp: i_def)
    have len: "i < length (vm_sum m)" "i < length (vm_count m)" using I c by (simp_all add: canvas_ok_def)
    obtain v where v: "gf_pixel f y (of_nat x) = Some v" "unat v = gray_at f x y" using gf_pixel_ok [OF f x y] by blast
    have Vi: "V i = unat v" using I True by (simp add: V_def seen_at_def v on_canvas_def)
    then have uv: "(ucast v :: u64) = of_nat (V i)" by (simp add: unsigned_ucast_eq)
    have nsat: "vm_count (dab T V m) ! i \<noteq> - 1" using u len iT by (simp add: unsaturated_def)
    note dab_insert [OF iT len, of V]
    moreover have "\<not> (?gx < 0 \<or> ?gx \<ge> sint (vm_width m))" using True unfolding on_canvas_def sw by linarith
    moreover have "nat ?gy * unat (vm_width (dab T V m)) + nat ?gx = i" by (simp add: i_def cell_def)
    moreover have "{i. on_canvas m ?gx ?gy \<and> i = cell m ?gx ?gy} = {i}" using True by (simp add: i_def)
    ultimately show ?thesis
      using len nsat unfolding V_def [symmetric] mosaic_pixel_def add by (simp add: v(1) uv Let_def)
  qed
qed

definition row_cells :: "vision_mosaic \<Rightarrow> gray_frame \<Rightarrow> int \<Rightarrow> int \<Rightarrow> nat \<Rightarrow> nat set" where
  "row_cells m f ox gy n = (\<Union>x \<in> set [0..<n]. {i. on_canvas m (ox + int x) gy \<and> i = cell m (ox + int x) gy})"

lemma mosaic_row_dab:
  assumes f: "gray_ok f" and c: "canvas_ok m" and u: "unsaturated m" and y: "y < unat (gf_height f)"
    and o: "- (2 ^ 30) \<le> ox" "ox \<le> 2 ^ 30" "- (2 ^ 30) \<le> oy" "oy \<le> 2 ^ 30"
    and T: "T \<inter> row_cells m f ox (oy + int y) (unat (gf_width f)) = {}"
  shows "mosaic_row f ox oy y (dab T (seen_at m f ox oy) m) =
     Some (dab (T \<union> row_cells m f ox (oy + int y) (unat (gf_width f))) (seen_at m f ox oy) m)"
proof -
  let ?gy = "oy + int y" and ?S = "\<lambda>x. {i. on_canvas m (ox + int x) (oy + int y) \<and> i = cell m (ox + int x) (oy + int y)}"
  have ys: "y < 2 ^ 28" using y gray_ok_nat(5) [OF f] by simp
  then have add: "int_add oy (sint (of_nat y :: u32)) = Some ?gy"
    using o int_small [OF ys] by (simp add: sint_small int_add_def)
  have sh: "sint (vm_height m) = int (unat (vm_height m))" using c by (intro sint_of_small) (simp add: canvas_ok_def)
  show ?thesis
  proof (cases "?gy < 0 \<or> ?gy \<ge> sint (vm_height m)")
    case True
    then have "\<not> on_canvas m gx ?gy" for gx unfolding on_canvas_def sh by linarith
    then show ?thesis using True by (simp add: mosaic_row_def add row_cells_def)
  next
    case False
    then have gy: "0 \<le> ?gy" "?gy < int (unat (vm_height m))" unfolding sh by linarith+
    have "foldo (mosaic_pixel f ox ?gy y) [0..<unat (gf_width f)] (dab T (seen_at m f ox oy) m) =
        Some (dab (T \<union> (\<Union>x \<in> set [0..<unat (gf_width f)]. ?S x)) (seen_at m f ox oy) m)"
    proof (rule foldo_dab)
      show "mosaic_pixel f ox ?gy y x (dab U (seen_at m f ox oy) m) = Some (dab (U \<union> ?S x) (seen_at m f ox oy) m)"
        if "x \<in> set [0..<unat (gf_width f)]" "U \<inter> ?S x = {}" for x U
        using that by (intro mosaic_pixel_dab [OF f c u _ y o(1,2) gy]) simp_all
      show "?S x \<inter> ?S x' = {}" if ne: "x \<noteq> x'" for x x'
      proof (rule ccontr)
        assume "?S x \<inter> ?S x' \<noteq> {}"
        then have C: "on_canvas m (ox + int x) ?gy" "on_canvas m (ox + int x') ?gy"
            "cell m (ox + int x) ?gy = cell m (ox + int x') ?gy" by auto
        then have "nat (ox + int x) = nat (ox + int x')" using cell_inverse [OF C(1)] cell_inverse [OF C(2)] by simp
        then show False using ne C(1,2) by (simp add: on_canvas_def eq_nat_nat_iff)
      qed
      show "T \<inter> ?S x = {}" if "x \<in> set [0..<unat (gf_width f)]" for x using T that unfolding row_cells_def by blast
    qed simp
    then show ?thesis using False by (simp add: mosaic_row_def add row_cells_def)
  qed
qed

lemma covers_rows: "{i. covers m f ox oy i} = (\<Union>y \<in> set [0..<unat (gf_height f)]. row_cells m f ox (oy + int y) (unat (gf_width f)))"
proof (intro set_eqI iffI)
  fix i assume "i \<in> (\<Union>y \<in> set [0..<unat (gf_height f)]. row_cells m f ox (oy + int y) (unat (gf_width f)))"
  then obtain x y where xy: "y < unat (gf_height f)" "x < unat (gf_width f)" "on_canvas m (ox + int x) (oy + int y)"
      "i = cell m (ox + int x) (oy + int y)" by (auto simp: row_cells_def)
  have n: "int (nat (ox + int x)) = ox + int x" "int (nat (oy + int y)) = oy + int y" using xy(3) by (simp_all add: on_canvas_def)
  have eqs: "int (i mod unat (vm_width m)) - ox = int x" "int (i div unat (vm_width m)) - oy = int y"
      "i < unat (vm_width m) * unat (vm_height m)"
    using cell_inverse [OF xy(3)] n unfolding xy(4) by simp_all
  show "i \<in> {i. covers m f ox oy i}"
    unfolding mem_Collect_eq covers_def Let_def eqs using xy(1,2) eqs(3) by (simp only: of_nat_0_le_iff of_nat_less_iff)
next
  fix i assume "i \<in> {i. covers m f ox oy i}"
  then have i: "i < unat (vm_width m) * unat (vm_height m)" and
    x: "0 \<le> int (i mod unat (vm_width m)) - ox" "int (i mod unat (vm_width m)) - ox < int (unat (gf_width f))" and
    y: "0 \<le> int (i div unat (vm_width m)) - oy" "int (i div unat (vm_width m)) - oy < int (unat (gf_height f))"
    unfolding mem_Collect_eq covers_def Let_def by blast+
  define X where "X = nat (int (i mod unat (vm_width m)) - ox)"
  define Y where "Y = nat (int (i div unat (vm_width m)) - oy)"
  have XY: "X < unat (gf_width f)" "Y < unat (gf_height f)" "ox + int X = int (i mod unat (vm_width m))"
      "oy + int Y = int (i div unat (vm_width m))"
    unfolding X_def Y_def using x y by linarith+
  have W: "0 < unat (vm_width m)" using i by (cases "unat (vm_width m) = 0") simp_all
  then have "i mod unat (vm_width m) < unat (vm_width m)" by simp
  moreover have "i div unat (vm_width m) < unat (vm_height m)" using i by (simp add: less_mult_imp_div_less mult.commute)
  ultimately have "on_canvas m (ox + int X) (oy + int Y)" unfolding on_canvas_def XY by linarith
  moreover have "i = cell m (ox + int X) (oy + int Y)" unfolding cell_def XY by simp
  ultimately have "i \<in> row_cells m f ox (oy + int Y) (unat (gf_width f))" using XY(1) by (auto simp: row_cells_def)
  then show "i \<in> (\<Union>y \<in> set [0..<unat (gf_height f)]. row_cells m f ox (oy + int y) (unat (gf_width f)))" using XY(2) by auto
qed

lemma mosaic_add_dab:
  assumes f: "gray_ok f" and c: "canvas_ok m" and u: "unsaturated m"
    and o: "- (2 ^ 30) \<le> ox" "ox \<le> 2 ^ 30" "- (2 ^ 30) \<le> oy" "oy \<le> 2 ^ 30"
  shows "vision_mosaic_add (Some m) (Some f) ox oy = Some (0, Some (dab {i. covers m f ox oy i} (seen_at m f ox oy) m))"
proof -
  let ?R = "\<lambda>y. row_cells m f ox (oy + int y) (unat (gf_width f))"
  have "foldo (mosaic_row f ox oy) [0..<unat (gf_height f)] (dab {} (seen_at m f ox oy) m) =
      Some (dab ({} \<union> (\<Union>y \<in> set [0..<unat (gf_height f)]. ?R y)) (seen_at m f ox oy) m)"
  proof (rule foldo_dab)
    show "?R y \<inter> ?R y' = {}" if ne: "y \<noteq> y'" for y y'
    proof (rule ccontr)
      assume "?R y \<inter> ?R y' \<noteq> {}"
      then obtain x x' where C: "on_canvas m (ox + int x) (oy + int y)" "on_canvas m (ox + int x') (oy + int y')"
          "cell m (ox + int x) (oy + int y) = cell m (ox + int x') (oy + int y')" by (auto simp: row_cells_def)
      then have "nat (oy + int y) = nat (oy + int y')" using cell_inverse [OF C(1)] cell_inverse [OF C(2)] by simp
      then show False using ne C(1,2) by (simp add: on_canvas_def eq_nat_nat_iff)
    qed
  qed (use mosaic_row_dab [OF f c u _ o] in auto)
  then show ?thesis using gray_ok_valid [OF f] by (simp add: vision_mosaic_add_def covers_rows)
qed

text \<open>What a sequence of frames showed at a cell.\<close>

definition views :: "vision_mosaic \<Rightarrow> (gray_frame \<times> int \<times> int) list \<Rightarrow> nat \<Rightarrow> nat list" where
  "views m fs i = map (\<lambda>(f, ox, oy). seen_at m f ox oy i) (filter (\<lambda>(f, ox, oy). covers m f ox oy i) fs)"

definition mean :: "nat list \<Rightarrow> nat" where
  "mean vs = (if vs = [] then 0 else sum_list vs div length vs)"

definition add_frames :: "(gray_frame \<times> int \<times> int) list \<Rightarrow> vision_mosaic \<Rightarrow> vision_mosaic option" where
  "add_frames = foldo (\<lambda>(f, ox, oy) m. case vision_mosaic_add (Some m) (Some f) ox oy of Some (_, m') \<Rightarrow> m' | None \<Rightarrow> None)"

definition placed :: "gray_frame \<times> int \<times> int \<Rightarrow> bool" where
  "placed = (\<lambda>(f, ox, oy). gray_ok f \<and> - (2 ^ 30) \<le> ox \<and> ox \<le> 2 ^ 30 \<and> - (2 ^ 30) \<le> oy \<and> oy \<le> 2 ^ 30)"

definition tallies :: "vision_mosaic \<Rightarrow> (gray_frame \<times> int \<times> int) list \<Rightarrow> vision_mosaic \<Rightarrow> bool" where
  "tallies m fs m' \<longleftrightarrow> canvas_ok m' \<and> vm_width m' = vm_width m \<and> vm_height m' = vm_height m \<and>
     (\<forall>i < unat (vm_width m) * unat (vm_height m).
        vm_sum m' ! i = of_nat (sum_list (views m fs i)) \<and> vm_count m' ! i = of_nat (length (views m fs i)))"

lemma add_frames_tallies:
  assumes "canvas_ok m" "tallies m [] m" "\<And>p. p \<in> set fs \<Longrightarrow> placed p" "length fs < 2 ^ 32"
  shows "\<exists>m'. add_frames fs m = Some m' \<and> tallies m fs m'"
  using assms(3,4)
proof (induction fs rule: rev_induct)
  case Nil
  then show ?case using assms(2) by (simp add: add_frames_def)
next
  case (snoc p fs)
  obtain f ox oy where p: "p = (f, ox, oy)" by (cases p)
  obtain m' where m': "add_frames fs m = Some m'" "tallies m fs m'" using snoc by auto
  have pl: "gray_ok f" "- (2 ^ 30) \<le> ox" "ox \<le> 2 ^ 30" "- (2 ^ 30) \<le> oy" "oy \<le> 2 ^ 30"
    using snoc.prems(1) [of p] by (simp_all add: placed_def p)
  have dims: "canvas_ok m'" "vm_width m' = vm_width m" "vm_height m' = vm_height m" using m'(2) by (auto simp: tallies_def)
  have "length (views m fs i) \<le> length fs" for i by (simp add: views_def)
  moreover have "(of_nat n :: u32) \<noteq> - 1" if "n \<le> length fs" for n
  proof -
    have "n < 2 ^ 32 - 1" using that snoc.prems(2) by simp
    then have "unat (of_nat n :: u32) < unat (- 1 :: u32)"
      by (simp add: unat_u32 unsigned_minus_1_eq_mask mask_eq_exp_minus_1)
    then show ?thesis by force
  qed
  ultimately have "unsaturated m'" using m'(2) dims by (simp add: unsaturated_def tallies_def canvas_ok_def)
  then have add: "vision_mosaic_add (Some m') (Some f) ox oy = Some (0, Some (dab {i. covers m' f ox oy i} (seen_at m' f ox oy) m'))"
    by (rule mosaic_add_dab [OF pl(1) dims(1) _ pl(2-5)])
  have same: "covers m' f ox oy = covers m f ox oy" "seen_at m' f ox oy = seen_at m f ox oy"
    by (simp_all add: fun_eq_iff covers_def seen_at_def dims)
  have "tallies m (fs @ [p]) (dab {i. covers m' f ox oy i} (seen_at m' f ox oy) m')"
    using m'(2) dims unfolding tallies_def same
    by (auto simp: canvas_ok_def views_def p add.commute)
  then show ?case using m'(1) add by (auto simp: add_frames_def foldo_append p)
qed

lemma create_tallies:
  assumes "vision_mosaic_create True W H = Some m" "unat W < 2 ^ 30" "unat H < 2 ^ 30"
  shows "canvas_ok m \<and> tallies m [] m \<and> vm_width m = W \<and> vm_height m = H"
  using assms by (auto simp: vision_mosaic_create_def Let_def canvas_ok_def tallies_def views_def split: if_splits)

lemma sum_list_le_const: "(\<And>x. x \<in> set xs \<Longrightarrow> x \<le> (b :: nat)) \<Longrightarrow> sum_list xs \<le> length xs * b"
  using sum_list_bound [of xs "\<lambda>x. x" b] by simp

lemma views_bounds: "length (views m fs i) \<le> length fs" "sum_list (views m fs i) \<le> length (views m fs i) * 255"
proof -
  show "length (views m fs i) \<le> length fs" by (simp add: views_def)
  have "v < 256" if "v \<in> set (views m fs i)" for v
    using that gray_at_less by (auto simp: views_def seen_at_def)
  then show "sum_list (views m fs i) \<le> length (views m fs i) * 255" by (intro sum_list_le_const) fastforce
qed

lemma tallied_value:
  assumes t: "tallies m fs m'" and i: "i < unat (vm_width m) * unat (vm_height m)" and n: "length fs < 2 ^ 32"
  shows "unat (mosaic_value m' i) = mean (views m fs i)"
proof -
  let ?s = "sum_list (views m fs i)" and ?n = "length (views m fs i)"
  note B = views_bounds [of m fs i]
  have v: "vm_sum m' ! i = of_nat ?s" "vm_count m' ! i = of_nat ?n" using t i by (auto simp: tallies_def)
  have un: "unat (of_nat ?n :: u32) = ?n" using B(1) n by (intro unat_u32) linarith
  then have zero: "((of_nat ?n :: u32) = 0) = (views m fs i = [])" by (metis length_0_conv unat_0 unsigned_word_eqI)
  have us: "unat (of_nat ?s :: u64) = ?s" using B n by (simp add: unat_of_nat take_bit_nat_eq_self)
  have ud: "unat (ucast (of_nat ?n :: u32) :: u64) = ?n"
    using un unat_less_u32 [of "of_nat ?n"] by (simp add: unsigned_ucast_eq take_bit_nat_eq_self)
  show ?thesis
  proof (cases "views m fs i = []")
    case False
    then have "0 < ?n" by simp
    then have "?s < ?n * 256" using B(2) by linarith
    then have "?s div ?n < 256" by (simp add: less_mult_imp_div_less mult.commute)
    moreover have "unat ((of_nat ?s :: u64) div ucast (of_nat ?n :: u32)) = ?s div ?n" by (simp only: unat_div us ud)
    ultimately have "unat (ucast ((of_nat ?s :: u64) div ucast (of_nat ?n :: u32)) :: u8) = ?s div ?n"
      by (simp add: unsigned_ucast_eq take_bit_nat_eq_self)
    then show ?thesis using False by (simp only: mosaic_value_def v zero if_False mean_def)
  qed (simp add: mosaic_value_def v mean_def)
qed

lemma frames_averaged:
  assumes "vision_mosaic_create True W H = Some m" "unat W < 2 ^ 30" "unat H < 2 ^ 30"
    and "\<And>p. p \<in> set fs \<Longrightarrow> placed p" "length fs < 2 ^ 32"
  shows "\<exists>m'. add_frames fs m = Some m' \<and> vm_width m' = W \<and> vm_height m' = H \<and>
     (\<forall>i < unat W * unat H. unat (mosaic_value m' i) = mean (views m fs i))"
proof -
  note C = create_tallies [OF assms(1-3)]
  obtain m' where m': "add_frames fs m = Some m'" "tallies m fs m'" using add_frames_tallies [of m fs] C assms(4,5) by auto
  then show ?thesis using C tallied_value [OF m'(2) _ assms(5)] by (auto simp: tallies_def)
qed

text \<open>
  C35. The mosaic is the mean of what was put on it: after any sequence of frames at any places, each
  cell of the canvas shows the integer mean of exactly the pixels that fell on it, or zero where none
  did. Parts of a frame outside the canvas are left out; neither the sums nor the counters wrap.
\<close>

theorem mosaic_is_mean:
  assumes "vision_mosaic_create True W H = Some m" "unat W < 2 ^ 30" "unat H < 2 ^ 30"
    and "\<And>p. p \<in> set fs \<Longrightarrow> placed p" "length fs < 2 ^ 32"
  shows "\<exists>m'. add_frames fs m = Some m' \<and> vm_width m' = W \<and> vm_height m' = H \<and>
     (\<forall>i < unat W * unat H. unat (mosaic_value m' i) = mean (views m fs i))"
  using assms by (rule frames_averaged)

definition two_slices :: "(gray_frame \<times> int \<times> int) list" where
  "two_slices = [(moved_frame, 0, 0), (moved_frame, - 1, 0)]"

lemma mosaic_is_mean_witness:
  "case vision_mosaic_create True 2 1 of Some m \<Rightarrow>
     (case add_frames two_slices m of Some m' \<Rightarrow> unat (mosaic_value m' 0) = 8 | None \<Rightarrow> False)
   | None \<Rightarrow> False"
proof -
  define m where "m = \<lparr>vm_width = 2, vm_height = 1, vm_sum = [0, 0], vm_count = [0, 0]\<rparr>"
  have "replicate 2 (0 :: u64) = [0, 0]" "replicate 2 (0 :: u32) = [0, 0]" by (simp_all add: numeral_2_eq_2)
  then have c: "vision_mosaic_create True 2 1 = Some m" by (simp add: vision_mosaic_create_def m_def)
  have "\<exists>m'. add_frames two_slices m = Some m' \<and> vm_width m' = 2 \<and> vm_height m' = 1 \<and>
      (\<forall>i < unat (2 :: u32) * unat (1 :: u32). unat (mosaic_value m' i) = mean (views m two_slices i))"
    by (rule mosaic_is_mean [OF c]) (auto simp: two_slices_def placed_def moved_frame_def gray_ok_def)
  then obtain m' where "add_frames two_slices m = Some m'" "unat (mosaic_value m' 0) = mean (views m two_slices 0)" by auto
  moreover have "mean (views m two_slices 0) = 8" unfolding m_def by code_simp
  ultimately show ?thesis using c by simp
qed

section \<open>The exported surface\<close>

lemma nth_concat_rows:
  "y < h \<Longrightarrow> x < w \<Longrightarrow> concat (map (\<lambda>y. map (f y) [0..<w]) [0..<h]) ! (y * w + x) = f y x"
proof (induction h)
  case (Suc h)
  have len: "length (concat (map (\<lambda>y. map (f y) [0..<w]) [0..<h])) = h * w" by (rule length_concat_rows) simp
  show ?case
  proof (cases "y < h")
    case True
    then have "y * w + x < h * w" using Suc.prems(2) by (intro pixel_bound)
    then show ?thesis using Suc True len by (simp add: nth_append)
  next
    case False
    then show ?thesis using Suc.prems len by (simp add: nth_append less_Suc_eq)
  qed
qed simp

lemma obj_vertices_count: "length (obj_vertices m) = unat (vm_height m) * unat (vm_width m)"
  unfolding obj_vertices_def by (rule length_concat_rows) simp

lemma obj_faces_count: "length (obj_faces m) = (unat (vm_height m) - 1) * (unat (vm_width m) - 1)"
  unfolding obj_faces_def by (rule length_concat_rows) simp

lemma obj_face_corners:
  fixes w :: u32
  defines "v \<equiv> \<lambda>x y. of_nat (y * unat w + x + 1) :: u32"
  shows "obj_face w (of_nat y) (of_nat x) = Face (v x y) (v (x + 1) y) (v (x + 1) (y + 1)) (v x (y + 1))"
proof -
  have V: "v x y = of_nat y * w + of_nat x + 1" for x y by (simp add: v_def)
  have "of_nat y * w + of_nat x + 1 + w = (of_nat y + 1) * w + of_nat x + (1 :: u32)"
    by (simp add: distrib_right add.commute add.left_commute)
  moreover have "of_nat y * w + of_nat x + 1 + 1 = of_nat y * w + (of_nat x + 1) + (1 :: u32)" by simp
  moreover have "of_nat y * w + of_nat x + 1 + w + 1 = (of_nat y + 1) * w + (of_nat x + 1) + (1 :: u32)"
    by (simp add: distrib_right add.commute add.left_commute)
  ultimately show ?thesis unfolding obj_face_def Let_def V of_nat_add of_nat_1 by (simp only:)
qed

text \<open>
  The exported surface is the grid of the mosaic: on a canvas of less than 2^32 cells the face
  for the cell (x, y) names four existing vertices, which are those of (x, y), (x + 1, y),
  (x + 1, y + 1) and (x, y + 1) in this order, each with the value of its cell.
\<close>

lemma obj_surface_is_grid:
  assumes n: "unat (vm_width m) * unat (vm_height m) < 2 ^ 32"
    and x: "x + 1 < unat (vm_width m)" and y: "y + 1 < unat (vm_height m)"
  shows "case obj_faces m ! (y * (unat (vm_width m) - 1) + x) of
     Face a b c d \<Rightarrow>
       map (\<lambda>k. obj_vertices m ! (unat k - 1)) [a, b, c, d] =
         map (\<lambda>(x, y). Vertex (of_nat x) (of_nat y) (mosaic_value m (y * unat (vm_width m) + x)))
           [(x, y), (x + 1, y), (x + 1, y + 1), (x, y + 1)] \<and>
       0 < a \<and> 0 < b \<and> 0 < c \<and> 0 < d \<and> unat c \<le> length (obj_vertices m)
   | Vertex _ _ _ \<Rightarrow> False"
proof -
  let ?w = "unat (vm_width m)" and ?h = "unat (vm_height m)"
  define v where "v x y = (of_nat (y * ?w + x + 1) :: u32)" for x y
  have f: "obj_faces m ! (y * (?w - 1) + x) = Face (v x y) (v (x + 1) y) (v (x + 1) (y + 1)) (v x (y + 1))"
    unfolding obj_faces_def v_def using x y nth_concat_rows [of y "?h - 1" x "?w - 1" "\<lambda>y x. obj_face (vm_width m) (of_nat y) (of_nat x)"]
      obj_face_corners [of "vm_width m" y x] by simp
  have V: "unat (v x' y') = y' * ?w + x' + 1 \<and> y' * ?w + x' < ?h * ?w \<and> 0 < v x' y' \<and>
      obj_vertices m ! (unat (v x' y') - 1) = Vertex (of_nat x') (of_nat y') (mosaic_value m (y' * ?w + x'))"
    if "x' < ?w" "y' < ?h" for x' y'
  proof -
    have lt: "y' * ?w + x' < ?h * ?w" using that by (intro pixel_bound)
    then have u: "unat (v x' y') = y' * ?w + x' + 1" unfolding v_def using n by (intro unat_u32) (simp add: mult.commute)
    then have "0 < v x' y'" by (simp add: word_less_nat_alt)
    moreover have "obj_vertices m ! (y' * ?w + x') = Vertex (of_nat x') (of_nat y') (mosaic_value m (y' * ?w + x'))"
      unfolding obj_vertices_def using that by (rule_tac nth_concat_rows)
    ultimately show ?thesis using u lt by simp
  qed
  note G = V [THEN conjunct2, THEN conjunct2, THEN conjunct2]
  have lt: "x < ?w" "y < ?h" using x y by simp_all
  note A = V [OF lt] V [OF x lt(2)] V [OF lt(1) y] V [OF x y]
  then have "unat (v (x + 1) (y + 1)) \<le> length (obj_vertices m)" by (simp add: obj_vertices_count)
  moreover have "map (\<lambda>k. obj_vertices m ! (unat k - 1)) [v x y, v (x + 1) y, v (x + 1) (y + 1), v x (y + 1)] =
      map (\<lambda>(x, y). Vertex (of_nat x) (of_nat y) (mosaic_value m (y * unat (vm_width m) + x)))
        [(x, y), (x + 1, y), (x + 1, y + 1), (x, y + 1)]"
    by (simp only: list.map prod.case G [OF lt] G [OF x lt(2)] G [OF lt(1) y] G [OF x y])
  ultimately show ?thesis unfolding f using A by (simp only: obj_line.case simp_thms)
qed

end
