(* ===== verification/Vision_Worker.thy ===== *)
theory Vision_Worker
  imports Frame_Matrix Capture_Pipeline
begin

text \<open>
  The vision worker of \<^verbatim>\<open>src/vision/vision_worker.c\<close>: a consumer of the frame hub that estimates how
  the picture moved since the last frame and puts it on a mosaic three times the size of a frame. The
  thread takes a frame from its mailbox, and works on it until it gives it back, while the producer and
  the other consumers of the hub go on. What a call to the file system does is a parameter.
\<close>

section \<open>State and operations\<close>

definition V4L2_PIX_FMT_YUV420M :: u32 where "V4L2_PIX_FMT_YUV420M = 0x32314D59"

record vision_worker =
  vw_consumer :: nat
  vw_width :: u32
  vw_height :: u32
  vw_interval :: u32
  vw_prefix :: string
  vw_running :: bool
  vw_started :: bool
  vw_processed :: u64
  vw_previous :: bytes
  vw_current :: bytes
  vw_mosaic :: vision_mosaic

definition plain_frame :: "u32 \<Rightarrow> u32 \<Rightarrow> bytes \<Rightarrow> gray_frame" where
  "plain_frame w h data = \<lparr>gf_width = w, gf_height = h, gf_stride = w, gf_data = Some data\<rparr>"

definition copy_row :: "bytes \<Rightarrow> nat \<Rightarrow> u32 \<Rightarrow> u32 \<Rightarrow> nat \<Rightarrow> bytes \<Rightarrow> bytes option" where
  "copy_row m off strd w y out = do { row \<leftarrow> rdn m (off + y * unat strd) (unat w); wr out (y * unat w) row }"

text \<open>The result is the return code and the buffer \<open>out\<close>.\<close>

definition copy_gray :: "frame_pool \<Rightarrow> nat \<Rightarrow> bytes \<Rightarrow> u32 \<Rightarrow> u32 \<Rightarrow> (int \<times> bytes) option" where
  "copy_gray p k out w h =
     (let f = frames p ! k in
      if format f = V4L2_PIX_FMT_YUYV then
        (case vision_gray_from_yuyv (Some (backing p, data_off f)) (stride f) (Some (plain_frame w h out)) of
           Some (rc, Some g) \<Rightarrow> Some (rc, the (gf_data g))
         | _ \<Rightarrow> None)
      else if format f = V4L2_PIX_FMT_YUV420 \<or> format f = V4L2_PIX_FMT_YUV420M then
        (if stride f < w \<or> fsize f < unat (stride f) * unat h then Some (- 1, out)
         else map_option (Pair 0) (foldo (copy_row (backing p) (data_off f) (stride f) w) [0..<unat h] out))
      else Some (- 1, out))"

text \<open>Both files are written on each call, whatever becomes of the first; the results are only logged.\<close>

record written =
  wt_pgm_path :: string
  wt_pgm :: "int \<times> string option"
  wt_obj_path :: string
  wt_obj :: "int \<times> obj_line list option"

definition write_outputs :: "file_env \<times> file_env \<Rightarrow> vision_worker \<Rightarrow> written" where
  "write_outputs fs w =
     (let pgm = take 319 (vw_prefix w @ ''.pgm''); obj = take 319 (vw_prefix w @ ''.obj'') in
      \<lparr>wt_pgm_path = pgm, wt_pgm = vision_mosaic_write_pgm (Some (vw_mosaic w)) (Some pgm) (fst fs),
       wt_obj_path = obj, wt_obj = vision_mosaic_write_obj (Some (vw_mosaic w)) (Some obj) (snd fs)\<rparr>)"

text \<open>
  The thread with its locals, and the hub. \<open>vr_frame\<close> is the frame it works on. \<open>vr_others\<close> counts the references of the other
  consumers, and \<open>vr_placed\<close> is the history of what was put on the mosaic; the code has neither.
\<close>

record vision_run =
  vr_worker :: vision_worker
  vr_hub :: frame_hub
  vr_frame :: "nat option"
  vr_have_previous :: bool
  vr_origin_x :: int
  vr_origin_y :: int
  vr_files :: "written list"
  vr_others :: "nat \<Rightarrow> nat"
  vr_placed :: "(gray_frame \<times> int \<times> int) list"

definition current_frame :: "vision_worker \<Rightarrow> gray_frame" where
  "current_frame w = plain_frame (vw_width w) (vw_height w) (vw_current w)"

definition previous_frame :: "vision_worker \<Rightarrow> gray_frame" where
  "previous_frame w = plain_frame (vw_width w) (vw_height w) (vw_previous w)"

text \<open>The return code of \<^verbatim>\<open>vision_mosaic_add\<close> is not looked at.\<close>

definition put_current :: "vision_run \<Rightarrow> vision_run option" where
  "put_current s =
     (let w = vr_worker s in
      case vision_mosaic_add (Some (vw_mosaic w)) (Some (current_frame w)) (vr_origin_x s) (vr_origin_y s) of
        Some (_, Some m) \<Rightarrow> Some (s\<lparr>vr_worker := w\<lparr>vw_mosaic := m\<rparr>,
            vr_placed := vr_placed s @ [(current_frame w, vr_origin_x s, vr_origin_y s)]\<rparr>)
      | _ \<Rightarrow> None)"

definition place_frame :: "vision_run \<Rightarrow> vision_run option" where
  "place_frame s =
     (if \<not> vr_have_previous s then map_option (\<lambda>s. s\<lparr>vr_have_previous := True\<rparr>) (put_current s)
      else do {
        (_, found) \<leftarrow> vision_estimate_offset (Some (previous_frame (vr_worker s))) (Some (current_frame (vr_worker s))) 32 32;
        case found of
          None \<Rightarrow> Some s
        | Some (dx, dy, _) \<Rightarrow> do {
            ox \<leftarrow> int_add (vr_origin_x s) dx;
            oy \<leftarrow> int_add (vr_origin_y s) dy;
            put_current (s\<lparr>vr_origin_x := ox, vr_origin_y := oy\<rparr>)
          }
      })"

definition keep_frame :: "(nat \<Rightarrow> file_env \<times> file_env) \<Rightarrow> vision_run \<Rightarrow> vision_run option" where
  "keep_frame fs s =
     (let w = vr_worker s in
      do {
        pixels \<leftarrow> rdn (vw_current w) 0 (unat (vw_width w) * unat (vw_height w));
        prev \<leftarrow> wr (vw_previous w) 0 pixels;
        let w1 = w\<lparr>vw_previous := prev, vw_processed := vw_processed w + 1\<rparr>;
        let s1 = s\<lparr>vr_worker := w1\<rparr>;
        Some (if vw_interval w1 \<noteq> 0 \<and> vw_processed w1 mod ucast (vw_interval w1) = 0
              then s1\<lparr>vr_files := vr_files s1 @ [write_outputs (fs (length (vr_files s1))) w1]\<rparr> else s1)
      })"

definition work_on :: "(nat \<Rightarrow> file_env \<times> file_env) \<Rightarrow> nat \<Rightarrow> vision_run \<Rightarrow> vision_run option" where
  "work_on fs k s =
     (let w = vr_worker s in
      do {
        (rc, cur) \<leftarrow> copy_gray (pool (vr_hub s)) k (vw_current w) (vw_width w) (vw_height w);
        let s1 = s\<lparr>vr_worker := w\<lparr>vw_current := cur\<rparr>\<rparr>;
        s2 \<leftarrow> (if rc = 0 then do { p \<leftarrow> place_frame s1; keep_frame fs p } else Some s1);
        Some (s2\<lparr>vr_hub := hub_release (vr_hub s2) k, vr_frame := None\<rparr>)
      })"

text \<open>A step of the thread: it takes a frame (or finds none and sleeps), or works on the one it has.\<close>

definition vision_next :: "(nat \<Rightarrow> file_env \<times> file_env) \<Rightarrow> vision_run \<Rightarrow> vision_run option" where
  "vision_next fs s =
     (case vr_frame s of
        Some k \<Rightarrow> work_on fs k s
      | None \<Rightarrow>
          if \<not> vw_running (vr_worker s) then Some s
          else (case frame_hub_take (vr_hub s) (vw_consumer (vr_worker s)) of
                  (hub, taken) \<Rightarrow> Some (s\<lparr>vr_hub := hub, vr_frame := taken\<rparr>)))"

text \<open>
  Creating a worker: the flags say which allocations succeed, \<open>raw\<close> is what the buffers hold. On failure the subscription is undone.
\<close>

record vision_alloc =
  va_worker :: bool
  va_buffers :: bool
  va_mosaic :: bool
  va_consumer :: bool

definition vision_worker_create :: "vision_alloc \<Rightarrow> (nat \<Rightarrow> u8) \<Rightarrow> frame_hub option \<Rightarrow> u32 \<Rightarrow> u32 \<Rightarrow> string option \<Rightarrow> u32 \<Rightarrow>
    frame_hub option \<times> vision_worker option" where
  "vision_worker_create va raw hub w h prefix interval =
     (case (hub, prefix) of
        (Some hb, Some name) \<Rightarrow>
          if w = 0 \<or> h = 0 \<or> name = [] \<or> \<not> va_worker va then (hub, None)
          else
            let pixels = unat w * unat h;
                mosaic = vision_mosaic_create (va_mosaic va) (w * 3) (h * 3);
                (hb1, c) = frame_hub_subscribe (va_consumer va) hb
            in (case (mosaic, c) of
                  (Some m, Some i) \<Rightarrow>
                    if va_buffers va then
                      (Some hb1, Some \<lparr>vw_consumer = i, vw_width = w, vw_height = h, vw_interval = interval,
                         vw_prefix = take 255 name, vw_running = False, vw_started = False, vw_processed = 0,
                         vw_previous = map raw [0..<pixels], vw_current = map raw [0..<pixels], vw_mosaic = m\<rparr>)
                    else (Some (frame_hub_unsubscribe hb1 i), None)
                | (None, Some i) \<Rightarrow> (Some (frame_hub_unsubscribe hb1 i), None)
                | (_, None) \<Rightarrow> (Some hb1, None))
      | _ \<Rightarrow> (hub, None))"

text \<open>Starting a worker starts its thread with fresh locals.\<close>

definition vision_worker_start :: "bool \<Rightarrow> vision_worker option \<Rightarrow> int \<times> vision_worker option" where
  "vision_worker_start thread_ok w =
     (case w of
        None \<Rightarrow> (- 1, w)
      | Some v \<Rightarrow>
          if vw_started v then (- 1, w)
          else if \<not> thread_ok then (- 1, Some (v\<lparr>vw_running := True\<rparr>))
          else (0, Some (v\<lparr>vw_running := True, vw_started := True\<rparr>)))"

definition vision_thread_start :: "vision_worker \<Rightarrow> frame_hub \<Rightarrow> vision_run" where
  "vision_thread_start w hub =
     \<lparr>vr_worker = w, vr_hub = hub, vr_frame = None, vr_have_previous = False,
      vr_origin_x = sint (vw_width w), vr_origin_y = sint (vw_height w), vr_files = [], vr_others = (\<lambda>_. 0), vr_placed = []\<rparr>"

definition vision_worker_stop :: "vision_worker option \<Rightarrow> vision_worker option" where
  "vision_worker_stop w = map_option (\<lambda>v. v\<lparr>vw_running := False\<rparr>) w"

definition vision_worker_join :: "vision_worker option \<Rightarrow> vision_worker option" where
  "vision_worker_join w = map_option (\<lambda>v. if vw_started v then v\<lparr>vw_started := False\<rparr> else v) w"

definition vision_worker_frames_processed :: "vision_worker option \<Rightarrow> u64" where
  "vision_worker_frames_processed w = (case w of None \<Rightarrow> 0 | Some v \<Rightarrow> vw_processed v)"

text \<open>Destroying leaves the hub without the subscription and writes the files a last time.\<close>

definition vision_worker_destroy :: "file_env \<times> file_env \<Rightarrow> vision_worker option \<Rightarrow> frame_hub \<Rightarrow> frame_hub \<times> written option" where
  "vision_worker_destroy fs w hub =
     (case vision_worker_join (vision_worker_stop w) of
        None \<Rightarrow> (hub, None)
      | Some v \<Rightarrow> (frame_hub_unsubscribe hub (vw_consumer v), Some (write_outputs fs v)))"

text \<open>
  The worker among the other threads of the pipeline: the source publishes frames of the geometry \<open>v\<close>, other
  consumers use their own mailboxes, and the main thread clears the flag.
\<close>

inductive vision_step :: "(nat \<Rightarrow> file_env \<times> file_env) \<Rightarrow> video_source \<Rightarrow> vision_run \<Rightarrow> vision_run \<Rightarrow> bool" for fs v where
  next_round: "vision_next fs s = Some s' \<Longrightarrow> vision_step fs v s s'"
| produce: "length d \<le> capacity (pool (vr_hub s)) \<Longrightarrow>
    frame_hub_publish (vr_hub s) (Some d) (vs_width v) (vs_height v) (vs_format v) (vs_stride v) sq ts = Some (rc, hub') \<Longrightarrow>
    vision_step fs v s (s\<lparr>vr_hub := hub'\<rparr>)"
| others: "other_step (vw_consumer (vr_worker s)) (vr_hub s, vr_others s) (hub', o') \<Longrightarrow>
    vision_step fs v s (s\<lparr>vr_hub := hub', vr_others := o'\<rparr>)"
| halt: "vision_step fs v s (s\<lparr>vr_worker := (vr_worker s)\<lparr>vw_running := False\<rparr>\<rparr>)"

inductive vision_steps :: "(nat \<Rightarrow> file_env \<times> file_env) \<Rightarrow> video_source \<Rightarrow> vision_run \<Rightarrow> vision_run \<Rightarrow> bool" for fs v where
  no_step: "vision_steps fs v s s"
| one_more: "vision_steps fs v s t \<Longrightarrow> vision_step fs v t u \<Longrightarrow> vision_steps fs v s u"

section \<open>Every step is defined\<close>

definition vision_sized :: "vision_worker \<Rightarrow> bool" where
  "vision_sized w \<longleftrightarrow> 32 \<le> unat (vw_width w) \<and> 32 \<le> unat (vw_height w) \<and> unat (vw_width w) < 2 ^ 28 \<and> unat (vw_height w) < 2 ^ 28 \<and>
     length (vw_previous w) = unat (vw_width w) * unat (vw_height w) \<and> length (vw_current w) = unat (vw_width w) * unat (vw_height w)"

text \<open>The source's pictures are no smaller than what the worker reads of them; planar pictures it checks itself.\<close>

definition yuyv_fits :: "frame \<Rightarrow> u32 \<Rightarrow> u32 \<Rightarrow> nat \<Rightarrow> bool" where
  "yuyv_fits f w h cap \<longleftrightarrow> (format f = V4L2_PIX_FMT_YUYV \<longrightarrow> 2 * unat w \<le> unat (stride f) \<longrightarrow> unat h * unat (stride f) \<le> cap)"

lemma plain_ok: "0 < unat w \<Longrightarrow> 0 < unat h \<Longrightarrow> unat w < 2 ^ 28 \<Longrightarrow> unat h < 2 ^ 28 \<Longrightarrow> length d = unat w * unat h \<Longrightarrow>
    gray_ok (plain_frame w h d)"
  by (simp add: gray_ok_def plain_frame_def word_less_nat_alt mult.commute)

lemma vision_sized_ok: "vision_sized w \<Longrightarrow> gray_ok (current_frame w) \<and> gray_ok (previous_frame w)"
  by (auto simp: vision_sized_def current_frame_def previous_frame_def intro!: plain_ok)

lemma planar_rows:
  assumes m: "off + h * unat strd \<le> length m" and w: "w \<le> strd" and out: "length out = unat w * h"
  shows "\<exists>out'. foldo (copy_row m off strd w) [0..<h] out = Some out' \<and> length out' = length out"
proof (rule foldo_defined [where P = "\<lambda>d. length d = length out"])
  fix y and d :: bytes assume y: "y \<in> set [0..<h]" and d: "length d = length out"
  have yh: "Suc y * unat strd \<le> h * unat strd" "Suc y * unat w \<le> h * unat w" using y by (intro mult_le_mono1; simp)+
  have ws: "unat w \<le> unat strd" using w by (simp add: word_le_nat_alt)
  have "off + y * unat strd + unat w \<le> length m" using yh(1) ws m by simp
  moreover have "y * unat w + unat w \<le> length d" using yh(2) d out by (simp add: mult.commute)
  moreover from calculation(1) have row: "rdn m (off + y * unat strd) (unat w) = Some (take (unat w) (drop (off + y * unat strd) m))"
      "length (take (unat w) (drop (off + y * unat strd) m)) = unat w" by simp_all
  ultimately obtain d' where "wr d (y * unat w) (take (unat w) (drop (off + y * unat strd) m)) = Some d'"
    using wr_defined [of d "y * unat w"] by metis
  then show "\<exists>d'. copy_row m off strd w y d = Some d' \<and> length d' = length out"
    using d wr_length row(1) by (simp add: copy_row_def)
qed simp

lemma copy_gray_ok:
  assumes inv: "pool_inv p" and k: "k < fcount p" and f: "fsize (frames p ! k) \<le> capacity p"
    and fits: "yuyv_fits (frames p ! k) w h (capacity p)"
    and w: "0 < unat w" "0 < unat h" "unat w < 2 ^ 28" "length out = unat w * unat h"
  shows "\<exists>rc out'. copy_gray p k out w h = Some (rc, out') \<and> length out' = length out"
proof -
  let ?f = "frames p ! k"
  have off: "data_off ?f = k * capacity p" using inv k by (auto simp: pool_inv_def)
  have "Suc k * capacity p \<le> fcount p * capacity p" using k by (intro mult_le_mono1) simp
  then have room: "data_off ?f + capacity p \<le> length (backing p)" using off pool_inv_simps(3) [OF inv] by simp
  have w2: "unat (w * 2) = 2 * unat w" using w(3) by (intro unat_twice) simp
  show ?thesis
  proof (cases "format ?f = V4L2_PIX_FMT_YUYV")
    case True
    show ?thesis
    proof (cases "stride ?f < w * 2 \<or> w AND 1 \<noteq> 0")
      case False
      then have ev: "unat w mod 2 = 0" "2 * unat w \<le> unat (stride ?f)"
        using unat_even_iff [of w] w2 by (simp_all add: not_less word_le_nat_alt)
      have "unat h * unat (stride ?f) \<le> capacity p" using fits ev(2) True by (simp add: yuyv_fits_def)
      then have m: "data_off ?f + unat h * unat (stride ?f) \<le> length (backing p)" using room by linarith
      have "vision_gray_from_yuyv (Some (backing p, data_off ?f)) (stride ?f) (Some (plain_frame w h out)) =
          Some (0, Some ((plain_frame w h out)\<lparr>gf_data := Some (repaint (unat w) (unat w) (unat h)
             (\<lambda>x y. backing p ! (data_off ?f + y * unat (stride ?f) + 2 * x)) out)\<rparr>))"
        using yuyv_copies_luma [of "plain_frame w h out" out "stride ?f" "data_off ?f" "backing p"] w ev m
        by (simp add: plain_frame_def word_less_nat_alt mult.commute)
      then show ?thesis using True by (simp add: copy_gray_def Let_def)
    qed (use True in \<open>auto simp: copy_gray_def vision_gray_from_yuyv_def plain_frame_def\<close>)
  next
    case False
    show ?thesis
    proof (cases "stride ?f < w \<or> fsize ?f < unat (stride ?f) * unat h")
      case nb: False
      have "data_off ?f + unat h * unat (stride ?f) \<le> length (backing p)" using nb f room by (simp add: mult.commute)
      moreover have "w \<le> stride ?f" using nb by (simp add: not_less)
      ultimately obtain out' where "foldo (copy_row (backing p) (data_off ?f) (stride ?f) w) [0..<unat h] out = Some out'"
          "length out' = length out" using planar_rows w(4) by blast
      then show ?thesis using False nb by (auto simp: copy_gray_def Let_def)
    qed (use False in \<open>auto simp: copy_gray_def Let_def\<close>)
  qed
qed

text \<open>What has been put on the mosaic \<open>m0\<close> so far; \<open>n\<close> bounds how far the origin can have moved.\<close>

definition mosaic_of :: "vision_mosaic \<Rightarrow> vision_run \<Rightarrow> bool" where
  "mosaic_of m0 s \<longleftrightarrow> canvas_ok m0 \<and> tallies m0 [] m0 \<and> add_frames (vr_placed s) m0 = Some (vw_mosaic (vr_worker s)) \<and>
     (\<forall>p \<in> set (vr_placed s). placed p)"

definition near :: "nat \<Rightarrow> vision_run \<Rightarrow> bool" where
  "near n s \<longleftrightarrow> \<bar>vr_origin_x s\<bar> \<le> 2 ^ 28 + 32 * int n \<and> \<bar>vr_origin_y s\<bar> \<le> 2 ^ 28 + 32 * int n"

definition drift_limit :: nat where
  "drift_limit = 2 ^ 24"

lemma put_current_ok:
  assumes m: "mosaic_of m0 s" and w: "vision_sized (vr_worker s)" and n: "near n s" "n \<le> Suc drift_limit"
    and l: "length (vr_placed s) \<le> drift_limit"
  shows "\<exists>mos. put_current s = Some (s\<lparr>vr_worker := (vr_worker s)\<lparr>vw_mosaic := mos\<rparr>,
      vr_placed := vr_placed s @ [(current_frame (vr_worker s), vr_origin_x s, vr_origin_y s)]\<rparr>) \<and>
    mosaic_of m0 (s\<lparr>vr_worker := (vr_worker s)\<lparr>vw_mosaic := mos\<rparr>,
      vr_placed := vr_placed s @ [(current_frame (vr_worker s), vr_origin_x s, vr_origin_y s)]\<rparr>)"
proof -
  let ?p = "(current_frame (vr_worker s), vr_origin_x s, vr_origin_y s)"
  have "2 ^ 28 + 32 * int n \<le> 2 ^ 30" using n(2) by (simp add: drift_limit_def)
  then have "\<bar>vr_origin_x s\<bar> \<le> 2 ^ 30" "\<bar>vr_origin_y s\<bar> \<le> 2 ^ 30" using n(1) unfolding near_def by (meson order_trans)+
  then have p: "placed ?p" using vision_sized_ok [OF w] by (simp add: placed_def abs_le_iff)
  have all: "\<And>q. q \<in> set (vr_placed s @ [?p]) \<Longrightarrow> placed q" using m p by (auto simp: mosaic_of_def)
  have "length (vr_placed s @ [?p]) < 2 ^ 32" using l by (simp add: drift_limit_def)
  then obtain mos where mos: "add_frames (vr_placed s @ [?p]) m0 = Some mos"
    using add_frames_tallies [of m0 "vr_placed s @ [?p]"] all m by (auto simp: mosaic_of_def)
  moreover have "add_frames (vr_placed s @ [?p]) m0 = (case vision_mosaic_add (Some (vw_mosaic (vr_worker s)))
      (Some (current_frame (vr_worker s))) (vr_origin_x s) (vr_origin_y s) of Some (_, m') \<Rightarrow> m' | None \<Rightarrow> None)"
    using m by (simp add: mosaic_of_def add_frames_def foldo_append split: option.split prod.split)
  ultimately obtain rc where "vision_mosaic_add (Some (vw_mosaic (vr_worker s))) (Some (current_frame (vr_worker s)))
      (vr_origin_x s) (vr_origin_y s) = Some (rc, Some mos)" by (auto split: option.splits prod.splits)
  then show ?thesis using m mos p by (intro exI [of _ mos]) (auto simp: put_current_def mosaic_of_def Let_def)
qed

lemma place_frame_ok:
  assumes m: "mosaic_of m0 s" and w: "vision_sized (vr_worker s)" and n: "near n s" "n \<le> drift_limit"
    and l: "length (vr_placed s) \<le> drift_limit"
  shows "\<exists>mos ox oy. place_frame s = Some (s\<lparr>vr_worker := (vr_worker s)\<lparr>vw_mosaic := mos\<rparr>, vr_have_previous := True,
        vr_origin_x := ox, vr_origin_y := oy, vr_placed := vr_placed s @ [(current_frame (vr_worker s), ox, oy)]\<rparr>) \<and>
     mosaic_of m0 (s\<lparr>vr_worker := (vr_worker s)\<lparr>vw_mosaic := mos\<rparr>,
       vr_placed := vr_placed s @ [(current_frame (vr_worker s), ox, oy)]\<rparr>) \<and>
     near (Suc n) (s\<lparr>vr_origin_x := ox, vr_origin_y := oy\<rparr>)"
proof (cases "vr_have_previous s")
  case False
  obtain mos where mos: "put_current s = Some (s\<lparr>vr_worker := (vr_worker s)\<lparr>vw_mosaic := mos\<rparr>,
      vr_placed := vr_placed s @ [(current_frame (vr_worker s), vr_origin_x s, vr_origin_y s)]\<rparr>)"
    "mosaic_of m0 (s\<lparr>vr_worker := (vr_worker s)\<lparr>vw_mosaic := mos\<rparr>,
      vr_placed := vr_placed s @ [(current_frame (vr_worker s), vr_origin_x s, vr_origin_y s)]\<rparr>)"
    using put_current_ok [OF m w n(1) _ l] n(2) by auto
  then show ?thesis using False n
    by (intro exI [of _ mos] exI [of _ "vr_origin_x s"] exI [of _ "vr_origin_y s"]) (auto simp: place_frame_def near_def)
next
  case True
  let ?a = "previous_frame (vr_worker s)" and ?b = "current_frame (vr_worker s)"
  have dims: "gf_width ?b = gf_width ?a" "gf_height ?b = gf_height ?a"
    by (simp_all add: previous_frame_def current_frame_def plain_frame_def)
  have "32 \<le> unat (gf_width ?a)" "32 \<le> unat (gf_height ?a)"
    using w by (simp_all add: vision_sized_def previous_frame_def plain_frame_def)
  then have "32 \<le> int (unat (gf_width ?a))" "32 \<le> int (unat (gf_height ?a))" by linarith+
  then obtain dx dy where e: "vision_estimate_offset (Some ?a) (Some ?b) 32 32 = Some (0, Some (dx, dy, of_nat (sad ?a ?b (dx, dy))))"
      "best_of (sad ?a ?b) (in_reach ?a) (candidates 32 32) (dx, dy)"
    using estimate_best [of ?a ?b 32 32] vision_sized_ok [OF w] dims by auto
  then have d: "\<bar>dx\<bar> \<le> 32" "\<bar>dy\<bar> \<le> 32" by (auto simp: best_of_def set_candidates)
  have "int n \<le> 2 ^ 24" using n(2) by (simp add: drift_limit_def)
  then have "int_add (vr_origin_x s) dx = Some (vr_origin_x s + dx)" "int_add (vr_origin_y s) dy = Some (vr_origin_y s + dy)"
    using n(1) d unfolding near_def int_add_def by auto
  then have pf: "place_frame s = put_current (s\<lparr>vr_origin_x := vr_origin_x s + dx, vr_origin_y := vr_origin_y s + dy\<rparr>)"
    using True e(1) by (simp add: place_frame_def)
  let ?s = "s\<lparr>vr_origin_x := vr_origin_x s + dx, vr_origin_y := vr_origin_y s + dy\<rparr>"
  have nr: "near (Suc n) ?s" using n(1) d by (auto simp: near_def)
  have "mosaic_of m0 ?s" using m by (simp add: mosaic_of_def)
  from put_current_ok [OF this _ nr] w l n(2) obtain mos where
    "put_current ?s = Some (?s\<lparr>vr_worker := (vr_worker s)\<lparr>vw_mosaic := mos\<rparr>,
      vr_placed := vr_placed s @ [(?b, vr_origin_x s + dx, vr_origin_y s + dy)]\<rparr>)"
    "mosaic_of m0 (?s\<lparr>vr_worker := (vr_worker s)\<lparr>vw_mosaic := mos\<rparr>,
      vr_placed := vr_placed s @ [(?b, vr_origin_x s + dx, vr_origin_y s + dy)]\<rparr>)" by auto
  then show ?thesis using pf nr True
    by (intro exI [of _ mos] exI [of _ "vr_origin_x s + dx"] exI [of _ "vr_origin_y s + dy"]) (auto simp: mosaic_of_def)
qed

lemma keep_frame_ok:
  assumes w: "vision_sized (vr_worker s)"
  shows "\<exists>prev files. length prev = length (vw_previous (vr_worker s)) \<and> keep_frame fs s = Some (s\<lparr>vr_worker := (vr_worker s)\<lparr>vw_previous := prev,
     vw_processed := vw_processed (vr_worker s) + 1\<rparr>, vr_files := files\<rparr>)"
proof -
  let ?w = "vr_worker s" and ?n = "unat (vw_width (vr_worker s)) * unat (vw_height (vr_worker s))"
  have len: "length (vw_current ?w) = ?n" "length (vw_previous ?w) = ?n" using w by (simp_all add: vision_sized_def)
  have "rdn (vw_current ?w) 0 ?n = Some (vw_current ?w)" using len by (simp add: rdn_def)
  moreover have "wr (vw_previous ?w) 0 (vw_current ?w) = Some (vw_current ?w)" using len by (simp add: wr_def)
  ultimately show ?thesis using len
    by (intro exI [of _ "vw_current ?w"] exI [of _ "if vw_interval ?w \<noteq> 0 \<and> (vw_processed ?w + 1) mod ucast (vw_interval ?w) = 0
        then vr_files s @ [write_outputs (fs (length (vr_files s))) (?w\<lparr>vw_previous := vw_current ?w, vw_processed := vw_processed ?w + 1\<rparr>)]
        else vr_files s"]) (simp add: keep_frame_def Let_def)
qed

definition vision_inv :: "vision_mosaic \<Rightarrow> nat \<Rightarrow> video_source \<Rightarrow> vision_run \<Rightarrow> bool" where
  "vision_inv m0 cap v s \<longleftrightarrow> hub_ok (vr_hub s, \<lambda>k. vr_others s k + own (vr_frame s) k) \<and> geometry v (vr_hub s) \<and>
     vision_sized (vr_worker s) \<and> mosaic_of m0 s \<and> near (length (vr_placed s)) s \<and>
     vw_processed (vr_worker s) = of_nat (length (vr_placed s)) \<and>
     (vs_format v = V4L2_PIX_FMT_YUYV \<longrightarrow> 2 * unat (vw_width (vr_worker s)) \<le> unat (vs_stride v) \<longrightarrow>
        unat (vw_height (vr_worker s)) * unat (vs_stride v) \<le> cap) \<and> capacity (pool (vr_hub s)) = cap"

lemma held_frame:
  assumes inv: "vision_inv m0 cap v s" and k: "vr_frame s = Some k"
  shows "pool_inv (pool (vr_hub s))" "k < fcount (pool (vr_hub s))" "fsize (frames (pool (vr_hub s)) ! k) \<le> capacity (pool (vr_hub s))"
    "yuyv_fits (frames (pool (vr_hub s)) ! k) (vw_width (vr_worker s)) (vw_height (vr_worker s)) (capacity (pool (vr_hub s)))"
proof -
  let ?h = "vr_hub s"
  have ok: "hub_inv (\<lambda>k. vr_others s k + own (vr_frame s) k) ?h" "hub_fits ?h" and g: "geometry v ?h"
    using inv by (simp_all add: vision_inv_def hub_ok_def)
  show "pool_inv (pool ?h)" using ok(1) by (simp add: hub_inv_def)
  have r: "0 < refs (pool ?h) k" using ok(1) k by (simp add: hub_inv_def own_def)
  then show kc: "k < fcount (pool ?h)" by (cases "k < fcount (pool ?h)") auto
  show "fsize (frames (pool ?h) ! k) \<le> capacity (pool ?h)" using ok(2) kc by (simp add: hub_fits_def)
  obtain n sq ts where "frame_meta (pool ?h) k = (vs_width v, vs_height v, vs_format v, vs_stride v, n, sq, ts)"
    using g r unfolding geometry_def by blast
  then have "format (frames (pool ?h) ! k) = vs_format v" "stride (frames (pool ?h) ! k) = vs_stride v"
    by (simp_all add: frame_meta_def Let_def)
  then show "yuyv_fits (frames (pool ?h) ! k) (vw_width (vr_worker s)) (vw_height (vr_worker s)) (capacity (pool ?h))"
    using inv by (simp add: yuyv_fits_def vision_inv_def)
qed

text \<open>What a step leaves of the hub, when it only uses its mailbox and its frame.\<close>

lemma vision_inv_hub:
  assumes inv: "vision_inv m0 cap v s" and q: "hub_quiet c (vr_hub s, \<lambda>k. vr_others s k + own (vr_frame s) k) (h', held')"
    and s': "vision_sized (vr_worker s')" "mosaic_of m0 s'" "near (length (vr_placed s')) s'"
      "vw_processed (vr_worker s') = of_nat (length (vr_placed s'))" "vr_hub s' = h'"
      "held' = (\<lambda>k. vr_others s' k + own (vr_frame s') k)"
      "vw_width (vr_worker s') = vw_width (vr_worker s)" "vw_height (vr_worker s') = vw_height (vr_worker s)"
  shows "vision_inv m0 cap v s'"
proof -
  have "pool_inv (pool (vr_hub s))" using inv by (simp add: vision_inv_def hub_ok_def hub_inv_def)
  then have "geometry v h'" using quiet_geometry [of v "vr_hub s" h'] inv q by (simp add: vision_inv_def hub_quiet_def)
  then show ?thesis using inv q s' by (simp add: vision_inv_def hub_quiet_def)
qed

lemma work_on_ok:
  assumes inv: "vision_inv m0 cap v s" and k: "vr_frame s = Some k" and l: "length (vr_placed s) \<le> drift_limit"
  shows "\<exists>s'. work_on fs k s = Some s' \<and> vision_inv m0 cap v s' \<and> vw_running (vr_worker s') = vw_running (vr_worker s)"
proof -
  let ?w = "vr_worker s"
  have sz: "vision_sized ?w" and m: "mosaic_of m0 s" and nr: "near (length (vr_placed s)) s"
    and pr: "vw_processed ?w = of_nat (length (vr_placed s))" using inv by (simp_all add: vision_inv_def)
  have pos: "0 < unat (vw_width ?w)" "0 < unat (vw_height ?w)" "unat (vw_width ?w) < 2 ^ 28"
      "length (vw_current ?w) = unat (vw_width ?w) * unat (vw_height ?w)" using sz by (auto simp: vision_sized_def)
  obtain rc cur where c: "copy_gray (pool (vr_hub s)) k (vw_current ?w) (vw_width ?w) (vw_height ?w) = Some (rc, cur)"
      "length cur = length (vw_current ?w)"
    using copy_gray_ok [OF held_frame [OF inv k] pos] by blast
  define s1 where "s1 = s\<lparr>vr_worker := ?w\<lparr>vw_current := cur\<rparr>\<rparr>"
  have s1: "vision_sized (vr_worker s1)" "mosaic_of m0 s1" "near (length (vr_placed s1)) s1" "length (vr_placed s1) \<le> drift_limit"
    using sz m nr l c(2) by (simp_all add: s1_def vision_sized_def mosaic_of_def near_def)
  have q: "hub_quiet (vw_consumer ?w) (vr_hub s, \<lambda>j. vr_others s j + own (vr_frame s) j)
      (hub_release (vr_hub s) k, \<lambda>j. vr_others s j + own None j)"
    by (rule effect_quiet) (use inv k in \<open>simp_all add: vision_inv_def hub_effect_def\<close>)
  show ?thesis
  proof (cases "rc = 0")
    case False
    let ?t = "s1\<lparr>vr_hub := hub_release (vr_hub s1) k, vr_frame := None\<rparr>"
    have "work_on fs k s = Some ?t" using c False by (simp add: work_on_def Let_def s1_def)
    moreover have "vision_inv m0 cap v ?t"
      by (rule vision_inv_hub [OF inv q]) (use s1 pr in \<open>simp_all add: s1_def mosaic_of_def near_def\<close>)
    ultimately show ?thesis by (intro exI [of _ ?t]) (simp add: s1_def)
  next
    case True
    obtain mos ox oy where p: "place_frame s1 = Some (s1\<lparr>vr_worker := (vr_worker s1)\<lparr>vw_mosaic := mos\<rparr>, vr_have_previous := True,
        vr_origin_x := ox, vr_origin_y := oy, vr_placed := vr_placed s1 @ [(current_frame (vr_worker s1), ox, oy)]\<rparr>)"
      "mosaic_of m0 (s1\<lparr>vr_worker := (vr_worker s1)\<lparr>vw_mosaic := mos\<rparr>,
         vr_placed := vr_placed s1 @ [(current_frame (vr_worker s1), ox, oy)]\<rparr>)"
      "near (Suc (length (vr_placed s1))) (s1\<lparr>vr_origin_x := ox, vr_origin_y := oy\<rparr>)"
      using place_frame_ok [OF s1(2,1,3,4) s1(4)] by blast
    define s2 where "s2 = s1\<lparr>vr_worker := (vr_worker s1)\<lparr>vw_mosaic := mos\<rparr>, vr_have_previous := True,
        vr_origin_x := ox, vr_origin_y := oy, vr_placed := vr_placed s1 @ [(current_frame (vr_worker s1), ox, oy)]\<rparr>"
    have sz2: "vision_sized (vr_worker s2)" using s1(1) by (simp add: s2_def vision_sized_def)
    obtain prev files where kf: "length prev = length (vw_previous (vr_worker s2))" "keep_frame fs s2 =
        Some (s2\<lparr>vr_worker := (vr_worker s2)\<lparr>vw_previous := prev, vw_processed := vw_processed (vr_worker s2) + 1\<rparr>, vr_files := files\<rparr>)"
      using keep_frame_ok [OF sz2] by blast
    define s3 where "s3 = s2\<lparr>vr_worker := (vr_worker s2)\<lparr>vw_previous := prev, vw_processed := vw_processed (vr_worker s2) + 1\<rparr>, vr_files := files\<rparr>"
    let ?t = "s3\<lparr>vr_hub := hub_release (vr_hub s3) k, vr_frame := None\<rparr>"
    have "place_frame s1 = Some s2" "keep_frame fs s2 = Some s3" using p(1) kf(2) by (simp_all only: s2_def s3_def)
    then have "work_on fs k s = Some ?t" using c True by (simp add: work_on_def Let_def flip: s1_def)
    moreover have "vision_inv m0 cap v ?t"
      by (rule vision_inv_hub [OF inv q])
        (use s1(1) p(2,3) kf(1) pr in \<open>simp_all add: s1_def s2_def s3_def mosaic_of_def near_def vision_sized_def\<close>)
    ultimately show ?thesis by (intro exI [of _ ?t]) (simp add: s1_def s2_def s3_def)
  qed
qed

lemma vision_next_ok:
  assumes inv: "vision_inv m0 cap v s" and l: "length (vr_placed s) \<le> drift_limit"
  shows "\<exists>s'. vision_next fs s = Some s' \<and> vision_inv m0 cap v s'"
proof (cases "vr_frame s")
  case (Some k)
  then show ?thesis using work_on_ok [OF inv Some l, of fs] by (auto simp: vision_next_def)
next
  case None
  show ?thesis
  proof (cases "vw_running (vr_worker s)")
    case True
    obtain hub taken where t: "frame_hub_take (vr_hub s) (vw_consumer (vr_worker s)) = (hub, taken)" by fastforce
    have q: "hub_quiet (vw_consumer (vr_worker s)) (vr_hub s, \<lambda>j. vr_others s j + own (vr_frame s) j) (hub, \<lambda>j. vr_others s j + own taken j)"
      by (rule effect_quiet) (use inv None t in \<open>simp_all add: vision_inv_def hub_effect_def\<close>)
    let ?t = "s\<lparr>vr_hub := hub, vr_frame := taken\<rparr>"
    have "vision_inv m0 cap v ?t" by (rule vision_inv_hub [OF inv q]) (use inv in \<open>simp_all add: vision_inv_def mosaic_of_def near_def\<close>)
    then show ?thesis using None True t by (simp add: vision_next_def)
  qed (use None inv in \<open>simp add: vision_next_def\<close>)
qed

lemma put_grows: "put_current s = Some t \<Longrightarrow> length (vr_placed t) = Suc (length (vr_placed s))"
  by (auto simp: put_current_def Let_def split: option.splits prod.splits)

lemma place_grows: "place_frame s = Some t \<Longrightarrow> length (vr_placed s) \<le> length (vr_placed t)"
  by (fastforce simp: place_frame_def Option.bind_eq_Some_conv split: if_splits option.splits prod.splits dest: put_grows)

lemma keep_same: "keep_frame fs s = Some t \<Longrightarrow> vr_placed t = vr_placed s"
  by (auto simp: keep_frame_def Let_def Option.bind_eq_Some_conv)

lemma work_grows: "work_on fs k s = Some t \<Longrightarrow> length (vr_placed s) \<le> length (vr_placed t)"
  by (fastforce simp: work_on_def Let_def Option.bind_eq_Some_conv split: if_splits prod.splits dest: place_grows keep_same)

lemma placed_grows: "vision_next fs s = Some t \<Longrightarrow> length (vr_placed s) \<le> length (vr_placed t)"
  by (auto simp: vision_next_def dest: work_grows split: option.splits if_splits prod.splits)

lemma vision_step_inv:
  assumes st: "vision_step fs v s t" and inv: "vision_inv m0 cap v s" and l: "length (vr_placed s) \<le> drift_limit"
  shows "vision_inv m0 cap v t"
  using st
proof cases
  case next_round
  then show ?thesis using vision_next_ok [OF inv l, of fs] by auto
next
  case (produce d sq ts rc hub')
  have "hub_ok (vr_hub s, \<lambda>k. vr_others s k + own (vr_frame s) k)" "geometry v (vr_hub s)" using inv by (simp_all add: vision_inv_def)
  from publish_mailbox [OF this produce(2,3)] show ?thesis using inv produce(1) by (simp add: vision_inv_def mosaic_of_def near_def)
next
  case (others hub' o')
  have "hub_quiet (vw_consumer (vr_worker s)) (vr_hub s, \<lambda>k. vr_others s k + own (vr_frame s) k) (hub', \<lambda>k. o' k + own (vr_frame s) k)"
    by (rule other_quiet [OF others(2)]) (use inv in \<open>simp add: vision_inv_def\<close>)
  then show ?thesis unfolding others(1)
    by (rule vision_inv_hub [OF inv]) (use inv in \<open>simp_all add: vision_inv_def mosaic_of_def near_def\<close>)
next
  case halt
  then show ?thesis using inv by (simp add: vision_inv_def vision_sized_def mosaic_of_def near_def)
qed

lemma step_placed_grows: "vision_step fs v s t \<Longrightarrow> length (vr_placed s) \<le> length (vr_placed t)"
  by (erule vision_step.cases) (auto dest: placed_grows)

lemma vision_steps_inv:
  "vision_steps fs v s t \<Longrightarrow> vision_inv m0 cap v s \<Longrightarrow> length (vr_placed t) \<le> drift_limit \<Longrightarrow> vision_inv m0 cap v t"
proof (induction rule: vision_steps.induct)
  case (one_more s t u)
  then have "length (vr_placed t) \<le> drift_limit" using step_placed_grows [OF one_more(2)] by simp
  then show ?case using one_more vision_step_inv by blast
qed

section \<open>A worker on a new hub\<close>

lemma vision_create_cases:
  assumes "vision_worker_create va raw (Some hub) w h (Some name) interval = (Some hub1, Some wk)"
  obtains i m where "frame_hub_subscribe True hub = (hub1, Some i)" "vision_mosaic_create True (w * 3) (h * 3) = Some m"
    "wk = \<lparr>vw_consumer = i, vw_width = w, vw_height = h, vw_interval = interval, vw_prefix = take 255 name, vw_running = False,
       vw_started = False, vw_processed = 0, vw_previous = map raw [0..<unat w * unat h],
       vw_current = map raw [0..<unat w * unat h], vw_mosaic = m\<rparr>"
proof -
  obtain hb c where s: "frame_hub_subscribe (va_consumer va) hub = (hb, c)" by fastforce
  then have "va_consumer va \<or> c = None" by (cases "va_consumer va") (auto simp: frame_hub_subscribe_def)
  moreover have "va_mosaic va \<or> vision_mosaic_create (va_mosaic va) (w * 3) (h * 3) = None" by (auto simp: vision_mosaic_create_def)
  ultimately show thesis using assms s that
    by (cases "va_consumer va"; cases "va_mosaic va")
      (auto simp: vision_worker_create_def Let_def split: if_splits option.splits prod.splits)
qed

lemma unat_thrice: "unat (w :: u32) < 2 ^ 28 \<Longrightarrow> unat (w * 3) = 3 * unat w"
  by (subst unat_mult_lem [THEN iffD1]) simp_all

lemma vision_start_inv:
  assumes hub: "frame_hub_create True cap n = Some hub"
    and wk: "vision_worker_create va raw (Some hub) w h (Some name) interval = (Some hub1, Some wk)"
    and st: "vision_worker_start True (Some wk) = (0, Some wk')"
    and dims: "32 \<le> unat w" "32 \<le> unat h" "unat w < 2 ^ 28" "unat h < 2 ^ 28"
    and fits: "vs_format v = V4L2_PIX_FMT_YUYV \<Longrightarrow> 2 * unat w \<le> unat (vs_stride v) \<Longrightarrow> unat h * unat (vs_stride v) \<le> cap"
  shows "vision_inv (vw_mosaic wk) cap v (vision_thread_start wk' hub1)"
proof -
  obtain i m where W: "frame_hub_subscribe True hub = (hub1, Some i)" "vision_mosaic_create True (w * 3) (h * 3) = Some m"
    "wk = \<lparr>vw_consumer = i, vw_width = w, vw_height = h, vw_interval = interval, vw_prefix = take 255 name, vw_running = False,
       vw_started = False, vw_processed = 0, vw_previous = map raw [0..<unat w * unat h],
       vw_current = map raw [0..<unat w * unat h], vw_mosaic = m\<rparr>" using vision_create_cases [OF wk] by blast
  have wk': "wk' = wk\<lparr>vw_running := True, vw_started := True\<rparr>" using st by (simp add: vision_worker_start_def W(3))
  have C: "canvas_ok m \<and> tallies m [] m \<and> vm_width m = w * 3 \<and> vm_height m = h * 3"
    by (rule create_tallies [OF W(2)]) (use dims in \<open>simp_all add: unat_thrice\<close>)
  have h0: "hub_inv (\<lambda>_. 0) hub" "hub_fits hub" using create_hub_inv [OF hub] by simp_all
  have p: "pool hub1 = pool hub" using W(1) by (auto simp: frame_hub_subscribe_def)
  have h1: "hub_ok (hub1, \<lambda>_. 0)"
    using subscribe_hub_inv [OF h0(1), of True] h0(2) W(1) p by (simp add: hub_ok_def hub_fits_def)
  have pool: "frame_pool_create True cap n = Some (pool hub)" using hub by (auto simp: frame_hub_create_def split: option.splits)
  have "geometry v hub1" using create_inv(4) [OF pool] by (simp add: geometry_def p)
  moreover have "capacity (pool hub1) = cap" using create_inv(3) [OF pool] p by simp
  moreover have "sint w = int (unat w)" "sint h = int (unat h)" by (rule sint_of_small; use dims in simp)+
  moreover have "int (unat w) < 2 ^ 28" "int (unat h) < 2 ^ 28" using int_small dims by blast+
  ultimately show ?thesis
    using h1 C dims fits
    by (simp add: vision_inv_def vision_thread_start_def wk' W(3) own_def vision_sized_def mosaic_of_def add_frames_def near_def)
qed

lemma mosaic_of_mean:
  assumes "mosaic_of m0 s" "length (vr_placed s) < 2 ^ 32" "i < unat (vm_width m0) * unat (vm_height m0)"
  shows "unat (mosaic_value (vw_mosaic (vr_worker s)) i) = mean (views m0 (vr_placed s) i)"
proof -
  obtain m where "add_frames (vr_placed s) m0 = Some m" "tallies m0 (vr_placed s) m"
    using add_frames_tallies [of m0 "vr_placed s"] assms(1,2) by (auto simp: mosaic_of_def)
  then have "tallies m0 (vr_placed s) (vw_mosaic (vr_worker s))" using assms(1) by (simp add: mosaic_of_def)
  then show ?thesis by (rule tallied_value) (use assms in auto)
qed

text \<open>
  C36. The vision worker never accesses memory outside a buffer and never overflows: whatever the
  producer, the other consumers and the file system do, for the first 2^24 frames it has placed every
  step of its thread is defined and the references of the hub stay accounted for. It counts exactly the
  frames it placed, and its mosaic is the mean of these frames at the places it gave them. The frames
  are at least 32 by 32, and a row of the source times the height fits a frame of the hub.
\<close>

theorem vision_worker_safe:
  assumes hub: "frame_hub_create True cap n = Some hub"
    and wk: "vision_worker_create va raw (Some hub) w h (Some name) interval = (Some hub1, Some wk)"
    and st: "vision_worker_start True (Some wk) = (0, Some wk')"
    and dims: "32 \<le> unat w" "32 \<le> unat h" "unat w < 2 ^ 28" "unat h < 2 ^ 28"
    and fits: "vs_format v = V4L2_PIX_FMT_YUYV \<Longrightarrow> 2 * unat w \<le> unat (vs_stride v) \<Longrightarrow> unat h * unat (vs_stride v) \<le> cap"
    and run: "vision_steps fs v (vision_thread_start wk' hub1) s" and drift: "length (vr_placed s) \<le> drift_limit"
    and i: "i < 9 * (unat w * unat h)"
  shows "vision_next fs s \<noteq> None \<and> hub_ok (vr_hub s, \<lambda>k. vr_others s k + own (vr_frame s) k) \<and>
     vw_processed (vr_worker s) = of_nat (length (vr_placed s)) \<and>
     unat (mosaic_value (vw_mosaic (vr_worker s)) i) = mean (views (vw_mosaic wk) (vr_placed s) i)"
proof -
  have inv: "vision_inv (vw_mosaic wk) cap v s"
    by (rule vision_steps_inv [OF run vision_start_inv [OF hub wk st dims fits] drift])
  obtain m where m: "vision_mosaic_create True (w * 3) (h * 3) = Some m" "vw_mosaic wk = m"
    using vision_create_cases [OF wk] by (metis vision_worker.select_convs(11))
  have "canvas_ok m \<and> tallies m [] m \<and> vm_width m = w * 3 \<and> vm_height m = h * 3"
    by (rule create_tallies [OF m(1)]) (use dims in \<open>simp_all add: unat_thrice\<close>)
  then have "vm_width (vw_mosaic wk) = w * 3" "vm_height (vw_mosaic wk) = h * 3" using m(2) by simp_all
  then have "i < unat (vm_width (vw_mosaic wk)) * unat (vm_height (vw_mosaic wk))" using i dims by (simp add: unat_thrice)
  moreover have "length (vr_placed s) < 2 ^ 32" using drift by (simp add: drift_limit_def)
  ultimately have "unat (mosaic_value (vw_mosaic (vr_worker s)) i) = mean (views (vw_mosaic wk) (vr_placed s) i)"
    using inv by (intro mosaic_of_mean) (simp_all add: vision_inv_def)
  then show ?thesis using vision_next_ok [OF inv drift, of fs] inv by (auto simp: vision_inv_def)
qed

definition disk_full :: "nat \<Rightarrow> file_env \<times> file_env" where
  "disk_full _ = (\<lparr>fe_open = True, fe_error = True, fe_close = True\<rparr>, \<lparr>fe_open = False, fe_error = False, fe_close = True\<rparr>)"

definition all_allocs :: vision_alloc where
  "all_allocs = \<lparr>va_worker = True, va_buffers = True, va_mosaic = True, va_consumer = True\<rparr>"

lemma vision_worker_safe_witness:
  "case frame_hub_create True 2048 2 of None \<Rightarrow> False
   | Some hub \<Rightarrow> (case vision_worker_create all_allocs (\<lambda>_. 7) (Some hub) 32 32 (Some ''m'') 5 of
       (Some hub1, Some wk) \<Rightarrow> (case vision_worker_start True (Some wk) of
          (_, Some wk') \<Rightarrow> vision_next disk_full (vision_thread_start wk' hub1) \<noteq> None
        | _ \<Rightarrow> False)
     | _ \<Rightarrow> False)"
proof -
  define v where "v = \<lparr>vs_name = ''cam'', vs_width = 32, vs_height = 32, vs_fps = 5, vs_stride = 64,
     vs_format = V4L2_PIX_FMT_YUYV, vs_frame_size = 2048\<rparr>"
  obtain hub where hub: "frame_hub_create True 2048 2 = Some hub" by (simp add: frame_hub_create_def frame_pool_create_def)
  obtain hub1 wk where wk: "vision_worker_create all_allocs (\<lambda>_. 7) (Some hub) 32 32 (Some ''m'') 5 = (Some hub1, Some wk)"
    by (simp add: vision_worker_create_def frame_hub_subscribe_def vision_mosaic_create_def all_allocs_def Let_def)
  then obtain wk' where st: "vision_worker_start True (Some wk) = (0, Some wk')"
    by (auto simp: vision_worker_start_def elim!: vision_create_cases)
  have "vision_next disk_full (vision_thread_start wk' hub1) \<noteq> None"
    using vision_worker_safe [where v = v and fs = disk_full and i = 0, OF hub wk st _ _ _ _ _ no_step]
    by (simp add: v_def vision_thread_start_def drift_limit_def)
  then show ?thesis using hub wk st by simp
qed

section \<open>What the worker gets wrong\<close>

text \<open>
  The search reports how the content moved: what was at (x, y) is now at (x + dx, y + dy). To stay in place on
  the canvas it would have to be put at the origin less that displacement; the code adds it. So the cell that
  showed pixel (x, y) of the previous frame is given pixel (x - dx, y - dy) of this one.
\<close>

lemma shifted_content_misplaced:
  assumes "vr_have_previous s" "place_frame s = Some t"
    and e: "vision_estimate_offset (Some (previous_frame (vr_worker s))) (Some (current_frame (vr_worker s))) 32 32 = Some (0, Some (dx, dy, err))"
    and c: "on_canvas m (vr_origin_x s + x) (vr_origin_y s + y)"
  shows "vr_placed t = vr_placed s @ [(current_frame (vr_worker s), vr_origin_x s + dx, vr_origin_y s + dy)] \<and>
    seen_at m (current_frame (vr_worker s)) (vr_origin_x s + dx) (vr_origin_y s + dy) (cell m (vr_origin_x s + x) (vr_origin_y s + y)) =
      gray_at (current_frame (vr_worker s)) (nat (x - dx)) (nat (y - dy))"
proof
  show "vr_placed t = vr_placed s @ [(current_frame (vr_worker s), vr_origin_x s + dx, vr_origin_y s + dy)]"
    using assms by (auto simp: place_frame_def put_current_def int_add_def Let_def split: option.splits if_splits prod.splits)
  have "int (nat (vr_origin_x s + x)) = vr_origin_x s + x" "int (nat (vr_origin_y s + y)) = vr_origin_y s + y"
    using c by (simp_all add: on_canvas_def)
  then show "seen_at m (current_frame (vr_worker s)) (vr_origin_x s + dx) (vr_origin_y s + dy) (cell m (vr_origin_x s + x) (vr_origin_y s + y)) =
      gray_at (current_frame (vr_worker s)) (nat (x - dx)) (nat (y - dy))"
    using cell_inverse [OF c] by (simp add: seen_at_def)
qed

text \<open>The window is 32 pixels each way, whatever the size of the frame.\<close>

lemma narrow_picture_faults:
  assumes "vr_have_previous s" and d: "0 < unat (vw_width (vr_worker s))" "unat (vw_width (vr_worker s)) < 32" "0 < unat (vw_height (vr_worker s))"
      "unat (vw_height (vr_worker s)) < 2 ^ 20"
    and l: "length (vw_previous (vr_worker s)) = unat (vw_width (vr_worker s)) * unat (vw_height (vr_worker s))"
      "length (vw_current (vr_worker s)) = unat (vw_width (vr_worker s)) * unat (vw_height (vr_worker s))"
  shows "place_frame s = None"
proof -
  let ?a = "previous_frame (vr_worker s)" and ?b = "current_frame (vr_worker s)"
  have ok: "gray_ok ?a" "gray_ok ?b" unfolding previous_frame_def current_frame_def by (rule plain_ok; use d l in simp)+
  have "length (vw_previous (vr_worker s)) \<le> 32 * 2 ^ 20" unfolding l(1) using d by (intro mult_le_mono) simp_all
  then have small: "length (vw_previous (vr_worker s)) < 2 ^ 32 - 1" by simp
  have "int (unat (gf_width ?a)) < 32" using d(2) unfolding previous_frame_def plain_frame_def gray_frame.simps by linarith
  then have "vision_estimate_offset (Some ?a) (Some ?b) 32 32 = None"
    using small by (intro narrow_frame_faults [OF ok]) (simp_all add: previous_frame_def current_frame_def plain_frame_def)
  then show ?thesis using assms(1) by (simp add: place_frame_def)
qed

text \<open>A worker of odd width rejects every packed frame.\<close>

lemma odd_width_idle:
  "format (frames p ! k) = V4L2_PIX_FMT_YUYV \<Longrightarrow> odd (unat w) \<Longrightarrow> copy_gray p k out w h = Some (- 1, out)"
  using unat_even_iff [of w]
  by (auto simp: copy_gray_def vision_gray_from_yuyv_def plain_frame_def Let_def odd_iff_mod_2_eq_one)

end
