(* ===== verification/Vision_Capture.thy ===== *)
theory Vision_Capture
  imports Vision_Worker
begin

text \<open>
  The program \<^verbatim>\<open>src/vision/vision_capture.c\<close>: its command line, and how it sets up, runs and takes down the
  pipeline of a source worker and a vision worker on one hub.
\<close>

section \<open>The command line\<close>

record vision_args =
  vo_device :: string
  vo_prefix :: string
  vo_test :: bool
  vo_seconds :: int
  vo_width :: u32
  vo_height :: u32
  vo_fps :: u32

definition vision_defaults :: vision_args where
  "vision_defaults = \<lparr>vo_device = ''/dev/video0'', vo_prefix = ''build/mosaic'', vo_test = False, vo_seconds = 10,
     vo_width = 640, vo_height = 480, vo_fps = 30\<rparr>"

text \<open>
  \<^verbatim>\<open>(uint32_t) strtoul(s, NULL, 10)\<close>: a number too large for an unsigned long gives the largest one, a
  minus sign negates modulo 2^64, and no number gives zero.
\<close>

definition strtoul32 :: "string \<Rightarrow> u32" where
  "strtoul32 s =
     (let t = dropWhile is_space s;
          neg = (t \<noteq> [] \<and> hd t = CHR 0x2D);
          u = (if t \<noteq> [] \<and> (hd t = CHR 0x2D \<or> hd t = CHR 0x2B) then tl t else t)
      in if u = [] \<or> digit_of 10 (hd u) = None then 0
         else case read_digits 10 0 u of (n, _) \<Rightarrow>
           if n \<ge> 2 ^ 64 then ucast (- 1 :: u64) else ucast (if neg then - (of_nat n :: u64) else of_nat n))"

text \<open>An option with a value needs one more argument; anything else is a usage error (\<open>None\<close>).\<close>

definition vision_option :: "string \<Rightarrow> string \<Rightarrow> vision_args \<Rightarrow> vision_args option" where
  "vision_option name val a =
     (if name = ''--device'' then Some (a\<lparr>vo_device := val\<rparr>)
      else if name = ''-W'' then Some (a\<lparr>vo_width := strtoul32 val\<rparr>)
      else if name = ''-H'' then Some (a\<lparr>vo_height := strtoul32 val\<rparr>)
      else if name = ''-F'' then Some (a\<lparr>vo_fps := strtoul32 val\<rparr>)
      else if name = ''-s'' then Some (a\<lparr>vo_seconds := atoi val\<rparr>)
      else if name = ''-o'' then Some (a\<lparr>vo_prefix := val\<rparr>)
      else None)"

fun vision_options :: "string list \<Rightarrow> vision_args \<Rightarrow> vision_args option" where
  "vision_options [] a = Some a"
| "vision_options [x] a = (if x = ''--test'' then Some (a\<lparr>vo_test := True\<rparr>) else None)"
| "vision_options (x # y # xs) a =
     (if x = ''--test'' then vision_options (y # xs) (a\<lparr>vo_test := True\<rparr>)
      else case vision_option x y a of None \<Rightarrow> None | Some a' \<Rightarrow> vision_options xs a')"

definition vision_parse :: "string list \<Rightarrow> vision_args option" where
  "vision_parse argv =
     (case vision_options argv vision_defaults of
        None \<Rightarrow> None
      | Some a \<Rightarrow> if vo_width a = 0 \<or> vo_height a = 0 \<or> vo_fps a = 0 \<or> vo_seconds a < 0 then None else Some a)"

section \<open>The pipeline\<close>

text \<open>
  What the environment decides: which allocations and threads succeed, what a buffer holds, the clock, and
  what the files do. \<open>ve_stop k\<close> says whether a signal has come by second \<open>k\<close>.
\<close>

record vision_env =
  ve_source_alloc :: "nat \<Rightarrow> bool"
  ve_junk :: "nat \<Rightarrow> nat \<Rightarrow> u8"
  ve_clock :: "nat \<Rightarrow> u64"
  ve_hub_alloc :: bool
  ve_vision_alloc :: vision_alloc
  ve_capture_alloc :: bool
  ve_vision_thread :: bool
  ve_capture_thread :: bool
  ve_files :: "nat \<Rightarrow> file_env \<times> file_env"
  ve_stop :: "nat \<Rightarrow> bool"

record 'k vision_pipe =
  vp_camera :: "'k camera"
  vp_hub :: frame_hub
  vp_vision :: vision_worker
  vp_capture :: source_worker

text \<open>What a failed start gives back: what the vision worker's destruction wrote, the hub and the camera.\<close>

record vision_undo =
  vu_written :: "written option"
  vu_hub :: "frame_hub option"
  vu_camera :: "cam_event list"

definition hub_size :: "vision_args \<Rightarrow> nat" where
  "hub_size a = (unat (vo_width a) * unat (vo_height a) * 2) mod 2 ^ 64"

definition vision_undo_start :: "vision_env \<Rightarrow> source_worker option \<Rightarrow> vision_worker option \<Rightarrow> frame_hub option \<Rightarrow>
    'k camera \<Rightarrow> vision_undo" where
  "vision_undo_start e capture vision hub cam =
     (case hub of
        None \<Rightarrow> \<lparr>vu_written = None, vu_hub = None, vu_camera = video_source_close (Some cam)\<rparr>
      | Some h \<Rightarrow> (case vision_worker_destroy (ve_files e 0) vision h of
          (h1, files) \<Rightarrow> \<lparr>vu_written = files, vu_hub = Some (hub_drain h1), vu_camera = video_source_close (Some cam)\<rparr>))"

text \<open>The outer \<open>None\<close> is a fault; \<open>Inl\<close> is the exit with status 1, with nothing to undo when there is no source.\<close>

definition vision_pipe_start :: "'k cam_driver \<Rightarrow> vision_env \<Rightarrow> vision_args \<Rightarrow> (vision_undo option + 'k vision_pipe) option" where
  "vision_pipe_start drv e a =
     (case server_source drv (ve_source_alloc e) (ve_junk e) (ve_clock e) (vo_test a) (vo_device a) (vo_width a) (vo_height a) (vo_fps a) of
        None \<Rightarrow> None
      | Some None \<Rightarrow> Some (Inl None)
      | Some (Some cam) \<Rightarrow>
          let hub = frame_hub_create (ve_hub_alloc e) (hub_size a) 12;
              (hub1, vision) = (case hub of None \<Rightarrow> (None, None)
                | Some h \<Rightarrow> vision_worker_create (ve_vision_alloc e) (ve_junk e 3) hub (vo_width a) (vo_height a) (Some (vo_prefix a)) (vo_fps a));
              capture = (if hub = None then None else source_worker_create (ve_capture_alloc e) (Some (camera_info cam)) True)
          in (case (hub1, vision, capture) of
                (Some h, Some _, Some c) \<Rightarrow>
                  (case vision_worker_start (ve_vision_thread e) vision of
                     (rv, started) \<Rightarrow>
                       if rv \<noteq> 0 then Some (Inl (Some (vision_undo_start e capture started hub1 cam)))
                       else case source_worker_start (camera_ops drv) (ve_capture_thread e) (c, cam) of
                          (rc, c', cam') \<Rightarrow>
                            if rc \<noteq> 0 then Some (Inl (Some (vision_undo_start e (Some c') started hub1 cam')))
                            else Some (Inr \<lparr>vp_camera = cam', vp_hub = h, vp_vision = the started, vp_capture = c'\<rparr>))
              | _ \<Rightarrow> Some (Inl (Some (vision_undo_start e capture vision hub1 cam)))))"

text \<open>The main thread sleeps until a signal comes or the seconds are over; \<open>fuel\<close> bounds the seconds looked at.\<close>

fun vision_wait :: "vision_env \<Rightarrow> int \<Rightarrow> nat \<Rightarrow> nat \<Rightarrow> nat option" where
  "vision_wait e seconds elapsed 0 = None"
| "vision_wait e seconds elapsed (Suc fuel) =
     (if ve_stop e elapsed \<or> \<not> (seconds = 0 \<or> int elapsed < seconds) then Some elapsed
      else vision_wait e seconds (Suc elapsed) fuel)"

text \<open>The end of a run: both workers are stopped before either is joined, and destroyed after both.\<close>

definition vision_pipe_stop :: "'k vision_pipe \<Rightarrow> 'k vision_pipe" where
  "vision_pipe_stop p =
     p\<lparr>vp_capture := source_worker_join (source_worker_stop (vp_capture p)),
       vp_vision := the (vision_worker_join (vision_worker_stop (Some (vp_vision p))))\<rparr>"

definition vision_pipe_free :: "file_env \<times> file_env \<Rightarrow> 'k vision_pipe \<Rightarrow> frame_hub \<times> written option \<times> cam_event list" where
  "vision_pipe_free fs p =
     (case vision_worker_destroy fs (Some (vp_vision p)) (vp_hub p) of
        (h, files) \<Rightarrow> (hub_drain h, files, video_source_close (Some (vp_camera p))))"

section \<open>The command line is read back\<close>

lemma strtoul32_dec_nat:
  assumes "n < 2 ^ 64"
  shows "strtoul32 (dec_nat n) = of_nat n"
proof -
  obtain c cs where c: "dec_nat n = c # cs" by (cases "dec_nat n") auto
  then obtain d where d: "d < 10" "c = digit_char d" using dec_nat_digits [of c n] by auto
  have "ucast (of_nat n :: u64) = (of_nat n :: u32)"
    by (rule word_unat_eq_iff [THEN iffD2]) (use assms in \<open>simp add: unsigned_ucast_eq unat_of_nat take_bit_nat_eq_self take_bit_eq_mod\<close>)
  then show ?thesis
    using strtol_digits [of "[]" n] c d assms by (simp add: strtoul32_def digit_of_digit Let_def)
qed

definition vision_command :: "vision_args \<Rightarrow> string list" where
  "vision_command a = [''--device'', vo_device a, ''-W'', dec_nat (unat (vo_width a)), ''-H'', dec_nat (unat (vo_height a)),
     ''-F'', dec_nat (unat (vo_fps a)), ''-s'', dec_nat (nat (vo_seconds a)), ''-o'', vo_prefix a] @ (if vo_test a then [''--test''] else [])"

lemma vision_command_parsed:
  assumes "vo_width a \<noteq> 0" "vo_height a \<noteq> 0" "vo_fps a \<noteq> 0" "0 \<le> vo_seconds a" "vo_seconds a < 2 ^ 31"
  shows "vision_parse (vision_command a) = Some a"
proof -
  have r: "strtoul32 (dec_nat (unat (x :: u32))) = x" for x
    using strtoul32_dec_nat [of "unat x"] unat_less_u32 [of x] by simp
  have "nat (vo_seconds a) < 2147483648" using assms(4,5) by simp
  then have s: "atoi (dec_nat (nat (vo_seconds a))) = vo_seconds a" using atoi_dec_nat [of "[]" "nat (vo_seconds a)"] assms(4) by simp
  have "vision_options (vision_command a) vision_defaults = Some a"
    by (cases a; cases "vo_test a") (use r s in \<open>simp_all add: vision_command_def vision_option_def vision_defaults_def\<close>)
  then show ?thesis using assms by (simp add: vision_parse_def)
qed

section \<open>The program as a whole\<close>

lemma vision_pipe_cases:
  assumes "vision_pipe_start drv e a = Some (Inr p)"
  obtains cam hub wk c' where
    "server_source drv (ve_source_alloc e) (ve_junk e) (ve_clock e) (vo_test a) (vo_device a) (vo_width a) (vo_height a) (vo_fps a) = Some (Some cam)"
    "frame_hub_create True (hub_size a) 12 = Some hub"
    "vision_worker_create (ve_vision_alloc e) (ve_junk e 3) (Some hub) (vo_width a) (vo_height a) (Some (vo_prefix a)) (vo_fps a) = (Some (vp_hub p), Some wk)"
    "vision_worker_start True (Some wk) = (0, Some (vp_vision p))"
    "vp_camera p = snd (camera_start drv cam)"
proof -
  obtain cam where cam: "server_source drv (ve_source_alloc e) (ve_junk e) (ve_clock e) (vo_test a) (vo_device a) (vo_width a) (vo_height a) (vo_fps a) = Some (Some cam)"
    using assms by (auto simp: vision_pipe_start_def split: option.splits)
  obtain hub where h: "frame_hub_create (ve_hub_alloc e) (hub_size a) 12 = Some hub"
    using assms cam by (cases "frame_hub_create (ve_hub_alloc e) (hub_size a) 12") (auto simp: vision_pipe_start_def Let_def)
  then have h': "frame_hub_create True (hub_size a) 12 = Some hub" by (cases "ve_hub_alloc e") (auto simp: frame_hub_create_def)
  obtain hub1 vision where v: "vision_worker_create (ve_vision_alloc e) (ve_junk e 3) (Some hub) (vo_width a) (vo_height a) (Some (vo_prefix a)) (vo_fps a) = (hub1, vision)"
    by fastforce
  obtain rv started where st: "vision_worker_start (ve_vision_thread e) vision = (rv, started)" by fastforce
  have some: "\<exists>h w c. hub1 = Some h \<and> vision = Some w \<and> source_worker_create (ve_capture_alloc e) (Some (camera_info cam)) True = Some c"
    using assms cam h v by (auto simp: vision_pipe_start_def Let_def split: option.splits)
  then obtain h w c where hw: "hub1 = Some h" "vision = Some w" "source_worker_create (ve_capture_alloc e) (Some (camera_info cam)) True = Some c" by blast
  obtain rc c' cam' where ss: "source_worker_start (camera_ops drv) (ve_capture_thread e) (c, cam) = (rc, c', cam')" by (metis prod_cases3)
  have fin: "rv = 0 \<and> rc = 0 \<and> p = \<lparr>vp_camera = cam', vp_hub = h, vp_vision = the started, vp_capture = c'\<rparr>"
    using assms cam h v hw st ss by (simp add: vision_pipe_start_def Let_def split: if_splits)
  then have "vision_worker_start True (Some w) = (0, Some (vp_vision p))"
    using st hw(2) by (auto simp: vision_worker_start_def split: if_splits)
  moreover have "cam' = snd (camera_start drv cam)"
    using ss by (auto simp: source_worker_start_def camera_ops_def split: prod.splits if_splits)
  ultimately show thesis using that [OF cam h' _ _ _] v hw fin by simp
qed

lemma test_program_facts:
  assumes st: "vision_pipe_start drv e a = Some (Inr p)" and t: "vo_test a"
    and dims: "vo_width a \<le> 4096" "vo_height a \<le> 4096" "even (unat (vo_width a))" "even (unat (vo_height a))"
  shows "32 \<le> unat (vo_width a) \<and> 32 \<le> unat (vo_height a) \<and> hub_size a = unat (vo_height a) * unat (vs_stride (camera_info (vp_camera p))) \<and>
    vs_frame_size (camera_info (vp_camera p)) = hub_size a"
proof -
  obtain cam hub wk c' where P:
    "server_source drv (ve_source_alloc e) (ve_junk e) (ve_clock e) (vo_test a) (vo_device a) (vo_width a) (vo_height a) (vo_fps a) = Some (Some cam)"
    "vp_camera p = snd (camera_start drv cam)" by (rule vision_pipe_cases [OF st])
  then obtain s where s: "cam = Test_Camera s"
      "test_source_create (ve_source_alloc e) (ve_junk e) (ve_clock e) (vo_width a) (vo_height a) (vo_fps a) = Some s"
    using t by (auto simp: server_source_def)
  note C = create_spec [OF s(2) dims(1,2)]
  then have ok: "test_ok (10 ^ 12) s" and w: "unat (ts_width s) = unat (vo_width a)" "unat (ts_height s) = unat (vo_height a)"
    using dims(3,4) by auto
  have "camera_info (vp_camera p) = test_info s"
    using P(2) s(1) by (auto simp: camera_start_def camera_info_def test_start_def ts_monotonic_us_def test_info_def)
  moreover have "unat (ts_width s * 2) = 2 * unat (ts_width s)"
    using ok by (intro unat_twice) (simp add: test_ok_def)
  moreover have "unat (vo_width a) * unat (vo_height a) * 2 < 2 ^ 64"
  proof -
    have "unat (vo_width a) * unat (vo_height a) * 2 \<le> 4096 * 4096 * 2"
      using dims(1,2) by (intro mult_le_mono) (simp_all add: word_le_nat_alt)
    then show ?thesis by simp
  qed
  ultimately show ?thesis using ok w by (simp add: test_ok_def test_info_def hub_size_def)
qed

text \<open>
  C37. The vision program on the test pattern is safe from its command line to its last frame: once the
  pipeline of \<^verbatim>\<open>--test\<close> with even dimensions up to 4096 has started, its hub holds a whole picture of the
  source, and in every state its threads can reach (up to 2^24 frames) the next step of the vision
  thread is defined, no frame of the hub is lost, and after the end of the run the hub has no
  subscriber left and no reference but those the other consumers hold.
\<close>

theorem vision_test_program_safe:
  assumes st: "vision_pipe_start drv e a = Some (Inr p)" and t: "vo_test a"
    and dims: "vo_width a \<le> 4096" "vo_height a \<le> 4096" "even (unat (vo_width a))" "even (unat (vo_height a))"
    and run: "vision_steps (ve_files e) (camera_info (vp_camera p)) (vision_thread_start (vp_vision p) (vp_hub p)) s"
    and drift: "length (vr_placed s) \<le> drift_limit"
  shows "vs_frame_size (camera_info (vp_camera p)) = capacity (pool (vr_hub s)) \<and> vision_next (ve_files e) s \<noteq> None \<and>
     hub_ok (vr_hub s, \<lambda>k. vr_others s k + own (vr_frame s) k) \<and>
     (vr_frame s = None \<longrightarrow> (case vision_pipe_free fs (p\<lparr>vp_hub := vr_hub s, vp_vision := vr_worker s\<rparr>) of
        (h, _) \<Rightarrow> consumers h = [] \<and> refs (pool h) = vr_others s))"
proof -
  note T = test_program_facts [OF st t dims]
  obtain hub wk where P: "frame_hub_create True (hub_size a) 12 = Some hub"
    "vision_worker_create (ve_vision_alloc e) (ve_junk e 3) (Some hub) (vo_width a) (vo_height a) (Some (vo_prefix a)) (vo_fps a) = (Some (vp_hub p), Some wk)"
    "vision_worker_start True (Some wk) = (0, Some (vp_vision p))" by (rule vision_pipe_cases [OF st])
  have small: "unat (vo_width a) < 2 ^ 28" "unat (vo_height a) < 2 ^ 28" using dims(1,2) by (simp_all add: word_le_nat_alt)
  have inv: "vision_inv (vw_mosaic wk) (hub_size a) (camera_info (vp_camera p)) s"
    by (rule vision_steps_inv [OF run vision_start_inv [OF P _ _ small] drift]) (use T in simp_all)
  then have ok: "hub_ok (vr_hub s, \<lambda>k. vr_others s k + own (vr_frame s) k)" "capacity (pool (vr_hub s)) = hub_size a"
    by (simp_all add: vision_inv_def)
  have "consumers h = [] \<and> refs (pool h) = vr_others s"
    if "vr_frame s = None" "vision_pipe_free fs (p\<lparr>vp_hub := vr_hub s, vp_vision := vr_worker s\<rparr>) = (h, rest)" for h rest
  proof -
    have "hub_inv (vr_others s) (vr_hub s)" using ok(1) that(1) by (simp add: hub_ok_def own_def)
    from hub_drain_spec [OF unsubscribe_hub_inv [OF this, of "vw_consumer (vr_worker s)"]]
    show ?thesis using that(2)
      by (auto simp: vision_pipe_free_def vision_worker_destroy_def vision_worker_join_def vision_worker_stop_def hub_inv_def slot_refs_def
          simp del: hub_drain.simps split: if_splits)
  qed
  then show ?thesis using vision_next_ok [OF inv drift, of "ve_files e"] ok T by (auto split: prod.split)
qed

definition demo_vision_args :: vision_args where
  "demo_vision_args = vision_defaults\<lparr>vo_test := True, vo_width := 64, vo_height := 48, vo_fps := 5\<rparr>"

definition demo_vision_env :: vision_env where
  "demo_vision_env = \<lparr>ve_source_alloc = (\<lambda>_. True), ve_junk = (\<lambda>_ _. 0), ve_clock = (\<lambda>_. 0), ve_hub_alloc = True,
     ve_vision_alloc = all_allocs, ve_capture_alloc = True, ve_vision_thread = True, ve_capture_thread = True,
     ve_files = disk_full, ve_stop = (\<lambda>_. False)\<rparr>"

lemma demo_vision_start: "\<exists>p. vision_pipe_start drv demo_vision_env demo_vision_args = Some (Inr p)"
proof -
  have "(64 :: u32) AND NOT 1 = 64" "(48 :: u32) AND NOT 1 = 48" by code_simp+
  then show ?thesis
    by (simp add: vision_pipe_start_def demo_vision_env_def demo_vision_args_def vision_defaults_def server_source_def
        test_source_create_def frame_hub_create_def frame_pool_create_def hub_size_def vision_worker_create_def
        frame_hub_subscribe_def vision_mosaic_create_def all_allocs_def vision_worker_start_def source_worker_create_def
        source_worker_start_def camera_ops_def camera_start_def test_start_def ts_monotonic_us_def Let_def)
qed

lemma vision_test_program_safe_witness:
  "case vision_pipe_start (demo_cam True) demo_vision_env demo_vision_args of
     Some (Inr p) \<Rightarrow> vision_next disk_full (vision_thread_start (vp_vision p) (vp_hub p)) \<noteq> None
   | _ \<Rightarrow> False"
proof -
  obtain p where p: "vision_pipe_start (demo_cam True) demo_vision_env demo_vision_args = Some (Inr p)" using demo_vision_start by blast
  have "vision_next disk_full (vision_thread_start (vp_vision p) (vp_hub p)) \<noteq> None"
    using vision_test_program_safe [OF p _ _ _ _ _ no_step]
    by (simp add: demo_vision_args_def demo_vision_env_def vision_thread_start_def drift_limit_def)
  then show ?thesis using p by simp
qed

section \<open>What the set-up gets wrong\<close>

text \<open>
  The hub is sized from the dimensions the user asked for, not from the source. A camera that negotiates a
  larger picture has its first frame written past the end of the pool.
\<close>

lemma large_picture_overruns:
  assumes h: "frame_hub_create True (hub_size a) 12 = Some h" and d: "hub_size a < length d"
  shows "frame_hub_publish h (Some d) w hgt fmt str sq ts = None"
proof -
  have pos: "0 < hub_size a" and h': "h = \<lparr>pool = \<lparr>frames = map (\<lambda>i. zero_frame\<lparr>data_off := i * hub_size a, pool_index := int i\<rparr>) [0..<12],
      backing = replicate (12 * hub_size a) 0, capacity = hub_size a, fcount = 12, free_list = map int [0..<12], free_count = 12\<rparr>,
      consumers = [], next_cid = 0\<rparr>"
    using h by (auto simp: frame_hub_create_def frame_pool_create_def split: if_splits)
  have "map int [0..<12] ! 11 = 11" by simp
  then obtain p1 where a: "frame_pool_acquire (pool h) = (p1, Some 11)" "backing p1 = replicate (12 * hub_size a) 0"
      "data_off (frames p1 ! 11) = 11 * hub_size a"
    by (simp add: h' frame_pool_acquire_def Let_def)
  have "wr (backing p1) (data_off (frames p1 ! 11)) d = None" using a d by (simp add: wr_def)
  then have "fill_frame p1 11 d w hgt fmt str sq ts = None" by (simp add: fill_frame_def)
  moreover have "d \<noteq> []" using d by auto
  ultimately show ?thesis using a(1) by (simp add: frame_hub_publish_def)
qed

end
