(* ===== verification/Dtls_Context.thy ===== *)
theory Dtls_Context
  imports Dtls_Srtp
begin

text \<open>
  The process-wide part of \<^verbatim>\<open>src/webrtc/dtls_srtp.c\<close>: the certificate made at start-up, the text of its
  fingerprint, and the context every session's DTLS engine is created from. Each call of OpenSSL and
  libsrtp either succeeds or not as the environment says; what a call sets in the context is a field of
  the context. \<open>dg_trace\<close> records what is created and freed.
\<close>

section \<open>State and operations\<close>

datatype dg_object = Dg_Key | Dg_Cert | Dg_Ctx

datatype dg_event = Dg_Got dg_object | Dg_Freed dg_object

text \<open>
  What the code writes into a certificate and into a context; \<open>None\<close> is the library's own default. One
  reading of the clock, \<open>di_time\<close>, stands for the serial number and both ends of the validity.
\<close>

record x509 =
  x_version :: int
  x_serial :: int
  x_not_before :: int
  x_not_after :: int
  x_public_key :: bool
  x_subject :: string
  x_issuer :: string
  x_signed :: bool

record ssl_ctx =
  cx_certificate :: bool
  cx_srtp_profile :: bool
  cx_no_query_mtu :: bool
  cx_no_renegotiation :: bool
  cx_timeout :: "nat option"
  cx_verify_peer :: bool
  cx_dtls12_only :: bool

definition SSL_CTX_new :: ssl_ctx where
  "SSL_CTX_new = \<lparr>cx_certificate = False, cx_srtp_profile = False, cx_no_query_mtu = False,
     cx_no_renegotiation = False, cx_timeout = None,
     cx_verify_peer = False, cx_dtls12_only = False\<rparr>"

record dtls_global =
  g_ctx :: "ssl_ctx option"
  g_cert :: "x509 option"
  g_key :: bool
  g_fingerprint :: string
  g_srtp_initialized :: bool
  dg_trace :: "dg_event list"

definition no_dtls_global :: dtls_global where
  "no_dtls_global = \<lparr>g_ctx = None, g_cert = None, g_key = False, g_fingerprint = [], g_srtp_initialized = False, dg_trace = []\<rparr>"

text \<open>What the libraries answer; the digest is that of the certificate when it can be computed.\<close>

record dtls_init_env =
  di_time :: int
  di_srtp_init :: bool
  di_key :: bool
  di_cert :: bool
  di_sign :: bool
  di_digest :: "bytes option"
  di_ctx :: bool
  di_check_key :: bool
  di_srtp_profile :: bool
  di_has_dtls12 :: bool

text \<open>
  \<^verbatim>\<open>snprintf(buf + offset, 128 - offset, ...)\<close>: behind the end the size wraps around to a huge one, and the
  write is out of bounds; the returned length is that of the whole text.
\<close>

definition fp_append :: "string \<Rightarrow> string \<times> nat \<Rightarrow> (string \<times> nat) option" where
  "fp_append piece s =
     (case s of (buf, offset) \<Rightarrow>
        if offset > 128 then None
        else Some (buf @ take (127 - offset) piece, offset + length piece))"

definition fingerprint_string :: "bytes \<Rightarrow> string option" where
  "fingerprint_string md =
     do {
       s \<leftarrow> fp_append ''sha-256 '' ([], 0);
       (buf, _) \<leftarrow> foldo (\<lambda>i. fp_append ((if i > 0 then '':'' else []) @ hex2 (md ! i))) [0..<length md] s;
       Some buf
     }"

text \<open>The inner result is the return code; the globals keep what was created before a failure.\<close>

definition fill_certificate :: "int \<Rightarrow> x509" where
  "fill_certificate now =
     \<lparr>x_version = 2, x_serial = now, x_not_before = now - 3600, x_not_after = now + 365 * 24 * 3600, x_public_key = True,
      x_subject = ''camstream'', x_issuer = ''camstream'', x_signed = False\<rparr>"

definition generate_certificate :: "dtls_init_env \<Rightarrow> dtls_global \<Rightarrow> (int \<times> dtls_global) option" where
  "generate_certificate e g =
     (if \<not> di_key e then Some (- 1, g\<lparr>g_key := False\<rparr>)
      else let g1 = g\<lparr>g_key := True, dg_trace := dg_trace g @ [Dg_Got Dg_Key]\<rparr> in
        if \<not> di_cert e then Some (- 1, g1\<lparr>g_cert := None\<rparr>)
        else let x = fill_certificate (di_time e);
                 g2 = g1\<lparr>g_cert := Some x, dg_trace := dg_trace g1 @ [Dg_Got Dg_Cert]\<rparr> in
          if \<not> di_sign e then Some (- 1, g2)
          else let g3 = g2\<lparr>g_cert := Some (x\<lparr>x_signed := True\<rparr>)\<rparr> in
            case di_digest e of
              None \<Rightarrow> Some (- 1, g3)
            | Some md \<Rightarrow> map_option (\<lambda>fp. (0, g3\<lparr>g_fingerprint := fp\<rparr>)) (fingerprint_string md))"

definition dtls_srtp_global_init :: "dtls_init_env \<Rightarrow> dtls_global \<Rightarrow> (int \<times> dtls_global) option" where
  "dtls_srtp_global_init e g =
     (if g_ctx g \<noteq> None then Some (0, g)
      else if \<not> g_srtp_initialized g \<and> \<not> di_srtp_init e then Some (- 1, g)
      else do {
        (rc, g1) \<leftarrow> generate_certificate e (g\<lparr>g_srtp_initialized := True\<rparr>);
        Some (if rc \<noteq> 0 then (- 1, g1)
              else if \<not> di_ctx e then (- 1, g1)
              else let c = SSL_CTX_new\<lparr>cx_certificate := True\<rparr>;
                       g2 = g1\<lparr>g_ctx := Some c, dg_trace := dg_trace g1 @ [Dg_Got Dg_Ctx]\<rparr>
                in if \<not> di_check_key e then (- 1, g2)
                   else if \<not> di_srtp_profile e then (- 1, g2)
                   else (0, g2\<lparr>g_ctx := Some (c\<lparr>cx_srtp_profile := True, cx_no_query_mtu := True,
                          cx_no_renegotiation := True, cx_timeout := Some 30,
                          cx_verify_peer := True, cx_dtls12_only := di_has_dtls12 e\<rparr>)\<rparr>))
      })"

definition dtls_srtp_global_shutdown :: "dtls_global \<Rightarrow> dtls_global" where
  "dtls_srtp_global_shutdown g =
     g\<lparr>g_ctx := None, g_cert := None, g_key := False,
       dg_trace := dg_trace g @ (if g_ctx g \<noteq> None then [Dg_Freed Dg_Ctx] else []) @
         (if g_cert g \<noteq> None then [Dg_Freed Dg_Cert] else []) @ (if g_key g then [Dg_Freed Dg_Key] else [])\<rparr>"

definition dtls_srtp_local_fingerprint :: "dtls_global \<Rightarrow> string" where
  "dtls_srtp_local_fingerprint g = g_fingerprint g"

text \<open>The verify callback accepts every certificate; the fingerprint is compared after the handshake.\<close>

definition dtls_verify_allow_self_signed :: "int \<Rightarrow> int" where
  "dtls_verify_allow_self_signed preverify_ok = 1"

section \<open>The text of the fingerprint\<close>

lemma fp_append_in: "offset = length buf \<Longrightarrow> offset + length piece \<le> 127 \<Longrightarrow>
    fp_append piece (buf, offset) = Some (buf @ piece, length (buf @ piece))"
  by (simp add: fp_append_def)

lemma colon_hex_snoc: "colon_hex (md @ [b]) = colon_hex md @ (if md \<noteq> [] then '':'' else []) @ hex2 b"
  by (induction md rule: colon_hex.induct) auto

lemma hex2_length: "length (hex2 b) = 2"
  by (simp add: hex2_def)

lemma fingerprint_loop:
  assumes "n \<le> length md" "n \<le> 40"
  shows "foldo (\<lambda>i. fp_append ((if i > 0 then '':'' else []) @ hex2 (md ! i))) [0..<n] (''sha-256 '', 8) =
     Some (''sha-256 '' @ colon_hex (take n md), 8 + (3 * n - 1))"
  using assms
proof (induction n)
  case (Suc n)
  have len: "length (colon_hex (take n md)) = 3 * n - 1" if "n \<le> length md" for n
  proof -
    have "length (colon_hex xs) = 3 * length xs - 1" for xs by (induction xs rule: colon_hex.induct) (auto simp: hex2_length)
    then show ?thesis using that by simp
  qed
  have "take (Suc n) md = take n md @ [md ! n]" using Suc.prems by (simp add: take_Suc_conv_app_nth)
  moreover have "take n md \<noteq> [] \<longleftrightarrow> n > 0" using Suc.prems by (cases md) auto
  ultimately show ?case
    using Suc len [of n] by (auto simp: foldo_append colon_hex_snoc fp_append_def hex2_length)
qed simp

lemma fingerprint_string_text: "length md \<le> 40 \<Longrightarrow> fingerprint_string md = Some (fingerprint_text md)"
proof -
  assume "length md \<le> 40"
  then have l: "foldo (\<lambda>i. fp_append ((if i > 0 then '':'' else []) @ hex2 (md ! i))) [0..<length md] (''sha-256 '', 8) =
     Some (''sha-256 '' @ colon_hex md, 8 + (3 * length md - 1))" using fingerprint_loop [of "length md" md] by simp
  have "fp_append ''sha-256 '' ([], 0) = Some (''sha-256 '', 8)" by (simp add: fp_append_def)
  then show ?thesis unfolding fingerprint_string_def fingerprint_text_def by (simp only: Option.bind.bind_lunit l prod.case)
qed

section \<open>What is created is freed\<close>

definition dg_count :: "dg_event \<Rightarrow> dtls_global \<Rightarrow> nat" where
  "dg_count x g = length (filter ((=) x) (dg_trace g))"

definition dg_holds :: "dg_object \<Rightarrow> dtls_global \<Rightarrow> bool" where
  "dg_holds x g = (case x of Dg_Key \<Rightarrow> g_key g | Dg_Cert \<Rightarrow> g_cert g \<noteq> None | Dg_Ctx \<Rightarrow> g_ctx g \<noteq> None)"

definition dg_accounted :: "dtls_global \<Rightarrow> bool" where
  "dg_accounted g \<longleftrightarrow> (\<forall>x. dg_count (Dg_Got x) g = dg_count (Dg_Freed x) g + (if dg_holds x g then 1 else 0))"

lemma all_objects: "(\<forall>x. P x) \<longleftrightarrow> P Dg_Key \<and> P Dg_Cert \<and> P Dg_Ctx"
  by (metis dg_object.exhaust)

lemma accounted_got:
  assumes "dg_accounted g" "\<not> dg_holds x g" "dg_trace g' = dg_trace g @ [Dg_Got x]" "\<And>y. dg_holds y g' = (y = x \<or> dg_holds y g)"
  shows "dg_accounted g'"
  using assms unfolding dg_accounted_def dg_count_def by auto

lemma accounted_same:
  "dg_accounted g \<Longrightarrow> dg_trace g' = dg_trace g \<Longrightarrow> (\<And>y. dg_holds y g' = dg_holds y g) \<Longrightarrow> dg_accounted g'"
  by (simp add: dg_accounted_def dg_count_def)

lemma holds_simps [simp]:
  "dg_holds Dg_Key g = g_key g" "dg_holds Dg_Cert g = (g_cert g \<noteq> None)" "dg_holds Dg_Ctx g = (g_ctx g \<noteq> None)"
  by (simp_all add: dg_holds_def)

lemma generate_accounted:
  assumes c: "generate_certificate e g = Some (rc, g')" and a: "dg_accounted g" and none: "\<not> g_key g" "g_cert g = None"
  shows "dg_accounted g' \<and> g_ctx g' = g_ctx g \<and>
    (rc = 0 \<longrightarrow> (\<exists>md. di_digest e = Some md \<and> fingerprint_string md = Some (g_fingerprint g')) \<and>
       g_cert g' = Some (fill_certificate (di_time e)\<lparr>x_signed := True\<rparr>))"
proof -
  define g1 where "g1 = g\<lparr>g_key := True, dg_trace := dg_trace g @ [Dg_Got Dg_Key]\<rparr>"
  define x where "x = fill_certificate (di_time e)"
  define g2 where "g2 = g1\<lparr>g_cert := Some x, dg_trace := dg_trace g1 @ [Dg_Got Dg_Cert]\<rparr>"
  define g3 where "g3 = g2\<lparr>g_cert := Some (x\<lparr>x_signed := True\<rparr>)\<rparr>"
  have a1: "dg_accounted g1" by (rule accounted_got [OF a, of Dg_Key]) (use none in \<open>auto simp: g1_def dg_holds_def split: dg_object.split\<close>)
  have a2: "dg_accounted g2" by (rule accounted_got [OF a1, of Dg_Cert]) (use none in \<open>auto simp: g1_def g2_def dg_holds_def split: dg_object.split\<close>)
  have a3: "dg_accounted g3" by (rule accounted_same [OF a2]) (auto simp: g2_def g3_def dg_holds_def split: dg_object.split)
  have run: "generate_certificate e g = (if \<not> di_key e then Some (- 1, g\<lparr>g_key := False\<rparr>) else if \<not> di_cert e then Some (- 1, g1\<lparr>g_cert := None\<rparr>)
      else if \<not> di_sign e then Some (- 1, g2) else case di_digest e of None \<Rightarrow> Some (- 1, g3)
        | Some md \<Rightarrow> map_option (\<lambda>fp. (0, g3\<lparr>g_fingerprint := fp\<rparr>)) (fingerprint_string md))"
    unfolding generate_certificate_def Let_def g3_def g2_def g1_def x_def by simp
  have same: "g\<lparr>g_key := False\<rparr> = g" "g1\<lparr>g_cert := None\<rparr> = g1" using none by (simp_all add: g1_def)
  have ctx: "g_ctx g1 = g_ctx g" "g_ctx g2 = g_ctx g" "g_ctx g3 = g_ctx g" by (simp_all add: g1_def g2_def g3_def)
  consider "g' = g" "rc = - 1" | "g' = g1" "rc = - 1" | "g' = g2" "rc = - 1" | "g' = g3" "rc = - 1"
    | md fp where "di_digest e = Some md" "fingerprint_string md = Some fp" "g' = g3\<lparr>g_fingerprint := fp\<rparr>" "rc = 0"
    using c unfolding run same by (auto split: if_splits option.splits)
  then show ?thesis
  proof cases
    case (5 md fp)
    have "dg_accounted g'" by (rule accounted_same [OF a3]) (auto simp: 5 dg_holds_def split: dg_object.split)
    then show ?thesis using 5 ctx by (simp add: g3_def x_def)
  qed (use a a1 a2 a3 ctx in simp_all)
qed

lemma init_accounted:
  assumes i: "dtls_srtp_global_init e g = Some (rc, g')" and a: "dg_accounted g" and none: "g_ctx g = None \<Longrightarrow> \<not> g_key g \<and> g_cert g = None"
  shows "dg_accounted g'"
proof (cases "g_ctx g = None \<and> (g_srtp_initialized g \<or> di_srtp_init e)")
  case True
  then obtain r g1 where c: "generate_certificate e (g\<lparr>g_srtp_initialized := True\<rparr>) = Some (r, g1)"
    using i by (auto simp: dtls_srtp_global_init_def Option.bind_eq_Some_conv split: if_splits)
  have "dg_accounted (g\<lparr>g_srtp_initialized := True\<rparr>)" by (rule accounted_same [OF a]) (auto simp: dg_holds_def split: dg_object.split)
  from generate_accounted [OF c this] have a1: "dg_accounted g1" and n1: "g_ctx g1 = None" using none True by auto
  consider "g' = g1" | "dg_trace g' = dg_trace g1 @ [Dg_Got Dg_Ctx]" "g_ctx g' \<noteq> None" "g_key g' = g_key g1" "g_cert g' = g_cert g1"
    using i c True by (auto simp: dtls_srtp_global_init_def Let_def split: if_splits)
  then show ?thesis
  proof cases
    case 2
    show ?thesis by (rule accounted_got [OF a1, of Dg_Ctx]) (use 2 n1 in \<open>auto simp: dg_holds_def split: dg_object.split\<close>)
  qed (use a1 in simp)
next
  case False
  then have "g' = g" using i by (auto simp: dtls_srtp_global_init_def split: if_splits)
  then show ?thesis using a by simp
qed

lemma shutdown_accounted: "dg_accounted g \<Longrightarrow> dg_accounted (dtls_srtp_global_shutdown g)"
  unfolding dg_accounted_def all_objects
  by (auto simp: dtls_srtp_global_shutdown_def dg_count_def dg_holds_def)

text \<open>
  C38. Setting up DTLS at start-up: for a 32-byte digest it never writes outside the fingerprint buffer;
  when it succeeds the fingerprint announced to browsers identifies exactly the certificate just made
  (the comparison of this program accepts its digest and no other), that certificate is self-signed and valid now, and
  the context of every session asks the peer for a certificate and offers the one SRTP profile; and after the shutdown, whether the set-up succeeded
  or failed at any step, everything created has been freed exactly once.
\<close>

theorem dtls_global_life:
  assumes "case di_digest e of None \<Rightarrow> True | Some md \<Rightarrow> length md = 32"
  shows "\<exists>rc g. dtls_srtp_global_init e no_dtls_global = Some (rc, g) \<and>
     (if rc = 0 then (\<exists>md. di_digest e = Some md \<and> fingerprint_hex_equal (dtls_srtp_local_fingerprint g) md' = (md = md')) \<and>
        (\<exists>c. g_ctx g = Some c \<and> cx_verify_peer c \<and> cx_srtp_profile c \<and> cx_certificate c) \<and>
        (\<exists>x. g_cert g = Some x \<and> x_signed x \<and> x_issuer x = x_subject x \<and> x_not_before x < di_time e \<and> di_time e < x_not_after x)
      else True) \<and>
     (\<forall>x. dg_count (Dg_Got x) (dtls_srtp_global_shutdown g) = dg_count (Dg_Freed x) (dtls_srtp_global_shutdown g))"
proof -
  have fp: "\<exists>t. fingerprint_string md = Some t" if "di_digest e = Some md" for md
    using fingerprint_string_text [of md] assms that by simp
  have gen: "\<exists>r g1. generate_certificate e g = Some (r, g1)" for g
    using fp by (auto simp: generate_certificate_def Let_def split: option.split)
  obtain rc g where i: "dtls_srtp_global_init e no_dtls_global = Some (rc, g)"
  proof (cases "di_srtp_init e")
    case True
    obtain r g1 where "generate_certificate e (no_dtls_global\<lparr>g_srtp_initialized := True\<rparr>) = Some (r, g1)" using gen by blast
    then have "\<exists>x. dtls_srtp_global_init e no_dtls_global = Some x" using True by (simp add: dtls_srtp_global_init_def no_dtls_global_def)
    then show ?thesis using that by force
  next
    case False
    then show ?thesis using that by (simp add: dtls_srtp_global_init_def no_dtls_global_def)
  qed
  have "dg_accounted no_dtls_global" by (simp add: dg_accounted_def dg_count_def dg_holds_def no_dtls_global_def all_objects)
  then have "dg_accounted g" by (rule init_accounted [OF i]) (simp add: no_dtls_global_def)
  from shutdown_accounted [OF this] have free: "dg_count (Dg_Got x) (dtls_srtp_global_shutdown g) = dg_count (Dg_Freed x) (dtls_srtp_global_shutdown g)" for x
    by (cases x) (auto simp: dg_accounted_def dg_holds_def dtls_srtp_global_shutdown_def)
  have "(\<exists>md. di_digest e = Some md \<and> fingerprint_hex_equal (dtls_srtp_local_fingerprint g) md' = (md = md')) \<and>
      (\<exists>c. g_ctx g = Some c \<and> cx_verify_peer c \<and> cx_srtp_profile c \<and> cx_certificate c) \<and>
      (\<exists>x. g_cert g = Some x \<and> x_signed x \<and> x_issuer x = x_subject x \<and> x_not_before x < di_time e \<and> di_time e < x_not_after x)" if "rc = 0"
  proof -
    have i0: "dtls_srtp_global_init e no_dtls_global = Some (0, g)" using i that by simp
    obtain g1 where c: "generate_certificate e (no_dtls_global\<lparr>g_srtp_initialized := True\<rparr>) = Some (0, g1)" "g_fingerprint g = g_fingerprint g1" "g_cert g = g_cert g1"
      using i0 by (auto simp: dtls_srtp_global_init_def no_dtls_global_def Option.bind_eq_Some_conv Let_def split: if_splits)
    have a: "dg_accounted (no_dtls_global\<lparr>g_srtp_initialized := True\<rparr>)"
      by (simp add: dg_accounted_def dg_count_def dg_holds_def no_dtls_global_def all_objects)
    obtain md where md: "di_digest e = Some md" "fingerprint_string md = Some (g_fingerprint g)"
      and x: "g_cert g = Some (fill_certificate (di_time e)\<lparr>x_signed := True\<rparr>)"
      using generate_accounted [OF c(1) a] c(2,3) by (auto simp: no_dtls_global_def)
    then have "length md = 32" using assms by simp
    then have "fingerprint_hex_equal (dtls_srtp_local_fingerprint g) md' = (md = md')"
      using md fingerprint_string_text [of md] fingerprint_identifies_digest [of md md'] by (simp add: dtls_srtp_local_fingerprint_def)
    moreover have "\<exists>c. g_ctx g = Some c \<and> cx_verify_peer c \<and> cx_srtp_profile c \<and> cx_certificate c"
      using i0 by (auto simp: dtls_srtp_global_init_def no_dtls_global_def Option.bind_eq_Some_conv Let_def split: if_splits)
    moreover have "\<exists>x. g_cert g = Some x \<and> x_signed x \<and> x_issuer x = x_subject x \<and> x_not_before x < di_time e \<and> di_time e < x_not_after x"
      using x by (simp add: fill_certificate_def)
    ultimately show ?thesis using md(1) by blast
  qed
  then show ?thesis using i free by auto
qed

definition demo_dtls_init :: dtls_init_env where
  "demo_dtls_init = \<lparr>di_time = 1700000000, di_srtp_init = True, di_key = True, di_cert = True, di_sign = True, di_digest = Some (replicate 32 7),
     di_ctx = True, di_check_key = True, di_srtp_profile = True, di_has_dtls12 = True\<rparr>"

lemma dtls_global_life_witness:
  "\<exists>rc g. dtls_srtp_global_init demo_dtls_init no_dtls_global = Some (rc, g) \<and>
     (if rc = 0 then (\<exists>md. di_digest demo_dtls_init = Some md \<and> fingerprint_hex_equal (dtls_srtp_local_fingerprint g) [1] = (md = [1])) \<and>
        (\<exists>c. g_ctx g = Some c \<and> cx_verify_peer c \<and> cx_srtp_profile c \<and> cx_certificate c) \<and>
        (\<exists>x. g_cert g = Some x \<and> x_signed x \<and> x_issuer x = x_subject x \<and> x_not_before x < di_time demo_dtls_init \<and> di_time demo_dtls_init < x_not_after x)
      else True) \<and>
     (\<forall>x. dg_count (Dg_Got x) (dtls_srtp_global_shutdown g) = dg_count (Dg_Freed x) (dtls_srtp_global_shutdown g))"
  by (rule dtls_global_life) (simp add: demo_dtls_init_def)

text \<open>
  A set-up that failed after its context was made leaves the context in place, without the SRTP profile and
  without asking for a certificate; the next set-up takes it for a finished one.
\<close>

lemma half_made_context_accepted:
  assumes "di_srtp_init e" "di_key e" "di_cert e" "di_sign e" "di_digest e = Some md" "length md = 32" "di_ctx e" "\<not> di_check_key e"
  shows "\<exists>g c. dtls_srtp_global_init e no_dtls_global = Some (- 1, g) \<and> dtls_srtp_global_init e' g = Some (0, g) \<and>
     g_ctx g = Some c \<and> \<not> cx_verify_peer c \<and> \<not> cx_srtp_profile c"
  using assms fingerprint_string_text [of md]
  by (simp add: dtls_srtp_global_init_def generate_certificate_def no_dtls_global_def SSL_CTX_new_def Let_def)

text \<open>A second set-up after a failure without a context forgets the first key.\<close>

lemma second_init_leaks_key:
  assumes "di_srtp_init e" "di_key e" "\<not> di_cert e" "di_srtp_init e'" "di_key e'" "\<not> di_cert e'"
  shows "\<exists>g g'. dtls_srtp_global_init e no_dtls_global = Some (- 1, g) \<and> dtls_srtp_global_init e' g = Some (- 1, g') \<and>
     dg_count (Dg_Got Dg_Key) (dtls_srtp_global_shutdown g') = 2 \<and> dg_count (Dg_Freed Dg_Key) (dtls_srtp_global_shutdown g') = 1"
  using assms
  by (simp add: dtls_srtp_global_init_def generate_certificate_def no_dtls_global_def dtls_srtp_global_shutdown_def dg_count_def Let_def)

end
