(* ===== verification/Rtc_Libpeer.thy ===== *)
theory Rtc_Libpeer
  imports Rtc_Session
begin

text \<open>
  The other back end of a session, \<^verbatim>\<open>src/webrtc/webrtc_session_libpeer.c\<close> with \<^verbatim>\<open>libpeer_global.c\<close>: ICE, DTLS,
  SRTP and RTP are done by the libpeer library, and the session only maps the library's states to its own,
  limits keyframe requests, times out and counts. The library is a parameter, \<open>peer_lib\<close> over the abstract state
  \<open>'p\<close> of a connection; a call of it returns the callbacks it made, in order. What the session relies on is the
  locale \<open>peer_library\<close>; the stub the program is compiled with when the library is absent interprets it.
\<close>

section \<open>The library\<close>

datatype peer_state = PEER_CONNECTION_CLOSED | PEER_CONNECTION_NEW | PEER_CONNECTION_CHECKING | PEER_CONNECTION_CONNECTED
  | PEER_CONNECTION_COMPLETED | PEER_CONNECTION_FAILED | PEER_CONNECTION_DISCONNECTED

datatype peer_event = Ice_State peer_state | Ice_Candidate "string option" | Want_Keyframe

record 'p peer_lib =
  peer_connection_create :: "'p option"
  peer_connection_set_remote_description :: "'p \<Rightarrow> string \<Rightarrow> peer_event list \<times> 'p"
  peer_connection_create_answer :: "'p \<Rightarrow> peer_event list \<times> string option \<times> 'p"
  peer_connection_loop :: "'p \<Rightarrow> peer_event list \<times> 'p"
  peer_connection_send_video :: "'p \<Rightarrow> bytes \<Rightarrow> int \<times> 'p"
  peer_connection_close :: "'p \<Rightarrow> peer_event list \<times> 'p"

text \<open>The stub of the build without the library's headers.\<close>

definition stub_lib :: "unit peer_lib" where
  "stub_lib = \<lparr>peer_connection_create = None, peer_connection_set_remote_description = (\<lambda>p _. ([], p)),
     peer_connection_create_answer = (\<lambda>p. ([], None, p)), peer_connection_loop = (\<lambda>p. ([], p)),
     peer_connection_send_video = (\<lambda>p _. (- 1, p)), peer_connection_close = (\<lambda>p. ([], p))\<rparr>"

section \<open>The session\<close>

text \<open>What leaves the session: the two hooks of the server, with the time of a keyframe request, and video.\<close>

datatype peer_output = Peer_Idr u64 | Peer_Closed | Peer_Video bytes

record peer_config =
  pc_id :: u32
  pc_extra_ips :: "string list"
  pc_remote_sdp :: "string option"
  pc_on_idr_request :: bool
  pc_on_closed :: bool

record 'p peer_session =
  ps_config :: peer_config
  ps_state :: rtc_state
  ps_pc :: 'p
  ps_created_ms :: u64
  ps_last_rx_ms :: u64
  ps_last_idr_ms :: u64
  ps_idr_requested :: bool
  ps_announced :: bool
  ps_stats :: rtc_stats
  ps_remote_copy :: string
  ps_local_copy :: string
  ps_out :: "peer_output list"

definition ps_emit :: "peer_output \<Rightarrow> 'p peer_session \<Rightarrow> 'p peer_session" where
  "ps_emit x s = s\<lparr>ps_out := ps_out s @ [x]\<rparr>"

definition ps_set_state :: "rtc_state \<Rightarrow> 'p peer_session \<Rightarrow> 'p peer_session" where
  "ps_set_state st s = (if ps_state s = st then s else s\<lparr>ps_state := st\<rparr>)"

text \<open>\<open>now\<close> is the reading of the monotonic clock.\<close>

definition peer_request_idr :: "u64 \<Rightarrow> 'p peer_session \<Rightarrow> 'p peer_session" where
  "peer_request_idr now s =
     (if \<not> pc_on_idr_request (ps_config s) then s
      else if ps_last_idr_ms s \<noteq> 0 \<and> now - ps_last_idr_ms s < IDR_MIN_INTERVAL_MS then s
      else ps_emit (Peer_Idr now) (s\<lparr>ps_last_idr_ms := now, ps_idr_requested := True\<rparr>))"

definition on_ice_state_change :: "u64 \<Rightarrow> ('p peer_session \<Rightarrow> 'p peer_session option) \<Rightarrow> peer_state \<Rightarrow> 'p peer_session \<Rightarrow> 'p peer_session option" where
  "on_ice_state_change now close st s =
     (case st of
        PEER_CONNECTION_NEW \<Rightarrow> Some (ps_set_state RTC_NEW s)
      | PEER_CONNECTION_CHECKING \<Rightarrow> Some (ps_set_state RTC_ICE s)
      | PEER_CONNECTION_CONNECTED \<Rightarrow>
          (let s1 = (ps_set_state RTC_STREAMING s)\<lparr>ps_last_rx_ms := now\<rparr>
           in Some (if \<not> ps_announced s1 then peer_request_idr now s1 else s1))
      | PEER_CONNECTION_COMPLETED \<Rightarrow>
          (let s1 = (ps_set_state RTC_STREAMING s)\<lparr>ps_last_rx_ms := now\<rparr>
           in Some (if \<not> ps_announced s1 then peer_request_idr now s1 else s1))
      | PEER_CONNECTION_FAILED \<Rightarrow> close s
      | PEER_CONNECTION_CLOSED \<Rightarrow> close s
      | PEER_CONNECTION_DISCONNECTED \<Rightarrow> close s)"

definition on_ice_candidate :: "string option \<Rightarrow> 'p peer_session \<Rightarrow> 'p peer_session" where
  "on_ice_candidate c s =
     (case c of None \<Rightarrow> s | Some _ \<Rightarrow> s\<lparr>ps_stats := (ps_stats s)\<lparr>stun_ok := stun_ok (ps_stats s) + 1\<rparr>\<rparr>)"

definition on_request_keyframe :: "u64 \<Rightarrow> 'p peer_session \<Rightarrow> 'p peer_session" where
  "on_request_keyframe now s =
     peer_request_idr now (s\<lparr>ps_stats := (ps_stats s)\<lparr>pli_received := pli_received (ps_stats s) + 1\<rparr>\<rparr>)"

definition peer_callback :: "u64 \<Rightarrow> ('p peer_session \<Rightarrow> 'p peer_session option) \<Rightarrow> peer_event \<Rightarrow> 'p peer_session \<Rightarrow> 'p peer_session option" where
  "peer_callback now close e s =
     (case e of Ice_State st \<Rightarrow> on_ice_state_change now close st s
      | Ice_Candidate c \<Rightarrow> Some (on_ice_candidate c s)
      | Want_Keyframe \<Rightarrow> Some (on_request_keyframe now s))"

text \<open>
  Closing the connection comes before the state is set, so that a callback made by it for a state that ends
  the session closes it again. \<open>n\<close> bounds the depth of this recursion; \<open>None\<close> is a deeper one.
\<close>

primrec peer_close_depth :: "'p peer_lib \<Rightarrow> u64 \<Rightarrow> nat \<Rightarrow> 'p peer_session \<Rightarrow> 'p peer_session option" where
  "peer_close_depth lib now 0 s = None"
| "peer_close_depth lib now (Suc n) s =
     (if ps_state s = RTC_CLOSED then Some s
      else case peer_connection_close lib (ps_pc s) of (es, pc) \<Rightarrow>
        do {
          s1 \<leftarrow> foldo (peer_callback now (peer_close_depth lib now n)) es (s\<lparr>ps_pc := pc\<rparr>);
          let s2 = ps_set_state RTC_CLOSED s1;
          Some (if pc_on_closed (ps_config s2) then ps_emit Peer_Closed s2 else s2)
        })"

definition peer_session_close :: "'p peer_lib \<Rightarrow> u64 \<Rightarrow> 'p peer_session \<Rightarrow> 'p peer_session option" where
  "peer_session_close lib now = peer_close_depth lib now 8"

definition peer_callbacks :: "'p peer_lib \<Rightarrow> u64 \<Rightarrow> peer_event list \<Rightarrow> 'p peer_session \<Rightarrow> 'p peer_session option" where
  "peer_callbacks lib now es s = foldo (peer_callback now (peer_session_close lib now)) es s"

text \<open>\<open>clk\<close> is the time of the tick, read before it; a difference of times is taken modulo 2^64.\<close>

definition peer_session_tick :: "'p peer_lib \<Rightarrow> u64 \<Rightarrow> u64 \<Rightarrow> 'p peer_session \<Rightarrow> 'p peer_session option" where
  "peer_session_tick lib now clk s =
     (if ps_state s = RTC_CLOSED then Some s
      else case peer_connection_loop lib (ps_pc s) of (es, pc) \<Rightarrow>
        do {
          s1 \<leftarrow> peer_callbacks lib now es (s\<lparr>ps_pc := pc\<rparr>);
          if clk - ps_last_rx_ms s1 > SESSION_IDLE_TIMEOUT_MS \<and> (ps_state s1 = RTC_NEW \<or> ps_state s1 = RTC_ICE)
          then peer_session_close lib now s1
          else if ps_state s1 = RTC_ICE \<and> clk - ps_created_ms s1 > SESSION_DTLS_WATCHDOG_MS
          then peer_session_close lib now s1
          else Some s1
        })"

definition peer_send_access_unit :: "'p peer_lib \<Rightarrow> bytes \<Rightarrow> bool \<Rightarrow> 'p peer_session \<Rightarrow> int \<times> 'p peer_session" where
  "peer_send_access_unit lib au is_idr s =
     (if ps_state s \<noteq> RTC_STREAMING then (0, s)
      else
        let s1 = (if is_idr \<and> ps_idr_requested s then s\<lparr>ps_idr_requested := False\<rparr> else s) in
        case peer_connection_send_video lib (ps_pc s1) au of (rc, pc) \<Rightarrow>
          let s2 = ps_emit (Peer_Video au) (s1\<lparr>ps_pc := pc\<rparr>) in
          if rc \<noteq> 0 then (0, s2)
          else (1, s2\<lparr>ps_stats := (ps_stats s2)\<lparr>packets_sent := packets_sent (ps_stats s2) + 1,
                         bytes_sent := bytes_sent (ps_stats s2) + of_nat (length au)\<rparr>,
                     ps_announced := True\<rparr>))"

definition peer_session_fd :: "'p peer_session \<Rightarrow> int" where
  "peer_session_fd s = - 1"

definition peer_session_on_udp :: "bytes \<Rightarrow> 'p peer_session \<Rightarrow> 'p peer_session" where
  "peer_session_on_udp datagram s = s"

definition peer_session_dtls_timeout_ms :: "'p peer_session \<Rightarrow> int" where
  "peer_session_dtls_timeout_ms s = - 1"

definition peer_session_state :: "'p peer_session option \<Rightarrow> rtc_state" where
  "peer_session_state s = (case s of None \<Rightarrow> RTC_CLOSED | Some s \<Rightarrow> ps_state s)"

definition peer_session_state_name :: "'p peer_session option \<Rightarrow> string" where
  "peer_session_state_name s = (case s of None \<Rightarrow> ''closed'' | Some s \<Rightarrow>
     (case ps_state s of RTC_NEW \<Rightarrow> ''new'' | RTC_ICE \<Rightarrow> ''ice'' | RTC_DTLS \<Rightarrow> ''dtls'' | RTC_STREAMING \<Rightarrow> ''streaming''
      | RTC_CLOSED \<Rightarrow> ''closed''))"

definition peer_session_id :: "'p peer_session option \<Rightarrow> u32" where
  "peer_session_id s = (case s of None \<Rightarrow> 0 | Some s \<Rightarrow> pc_id (ps_config s))"

definition peer_session_get_stats :: "'p peer_session option \<Rightarrow> rtc_stats \<Rightarrow> rtc_stats" where
  "peer_session_get_stats s out = (case s of None \<Rightarrow> out | Some s \<Rightarrow> ps_stats s)"

text \<open>
  Creating a session: what is allocated and freed on the way is recorded. The result is the session with the
  answer that was copied into the caller's buffer of \<open>cap\<close> bytes, its terminating zero included.
\<close>

datatype peer_resource = Pr_Session | Pr_Remote | Pr_Peer | Pr_Local

datatype peer_life = Pr_Got peer_resource | Pr_Freed peer_resource

record peer_create_env =
  pe_session :: bool
  pe_remote :: bool
  pe_local :: bool
  pe_now :: u64

definition fresh_peer_session :: "peer_config \<Rightarrow> u64 \<Rightarrow> string \<Rightarrow> 'p \<Rightarrow> 'p peer_session" where
  "fresh_peer_session cfg now sdp pc =
     \<lparr>ps_config = cfg, ps_state = RTC_NEW, ps_pc = pc, ps_created_ms = now, ps_last_rx_ms = now, ps_last_idr_ms = 0,
      ps_idr_requested = False, ps_announced = False, ps_stats = no_stats, ps_remote_copy = sdp, ps_local_copy = [], ps_out = []\<rparr>"

definition peer_session_create :: "'p peer_lib \<Rightarrow> peer_create_env \<Rightarrow> peer_config option \<Rightarrow> nat \<Rightarrow>
    (('p peer_session \<times> string) option \<times> peer_life list) option" where
  "peer_session_create lib e conf cap =
     (case Option.bind conf (\<lambda>c. map_option (Pair c) (pc_remote_sdp c)) of
        None \<Rightarrow> Some (None, [])
      | Some (cfg, sdp) \<Rightarrow>
          if \<not> pe_session e then Some (None, [])
          else if \<not> pe_remote e then Some (None, [Pr_Got Pr_Session, Pr_Freed Pr_Session])
          else
            let got = [Pr_Got Pr_Session, Pr_Got Pr_Remote] in
            case peer_connection_create lib of
              None \<Rightarrow> Some (None, got @ [Pr_Freed Pr_Remote, Pr_Freed Pr_Session])
            | Some pc \<Rightarrow>
                let undo = [Pr_Freed Pr_Peer, Pr_Freed Pr_Remote, Pr_Freed Pr_Session];
                    got2 = got @ [Pr_Got Pr_Peer];
                    (es, pc1) = peer_connection_set_remote_description lib pc sdp in
                do {
                  s1 \<leftarrow> peer_callbacks lib (pe_now e) es (fresh_peer_session cfg (pe_now e) sdp pc1);
                  let (es2, answer, pc2) = peer_connection_create_answer lib (ps_pc s1);
                  s2 \<leftarrow> peer_callbacks lib (pe_now e) es2 (s1\<lparr>ps_pc := pc2\<rparr>);
                  case answer of
                    None \<Rightarrow> Some (None, got2 @ undo)
                  | Some text \<Rightarrow>
                      if \<not> pe_local e then Some (None, got2 @ undo)
                      else if length text + 1 > cap
                      then Some (None, got2 @ [Pr_Got Pr_Local, Pr_Freed Pr_Peer, Pr_Freed Pr_Remote, Pr_Freed Pr_Local, Pr_Freed Pr_Session])
                      else Some (Some (ps_set_state RTC_ICE (s2\<lparr>ps_local_copy := text, ps_config := (ps_config s2)\<lparr>pc_extra_ips := []\<rparr>\<rparr>), text),
                                 got2 @ [Pr_Got Pr_Local])
                })"

definition peer_session_destroy :: "'p peer_lib \<Rightarrow> u64 \<Rightarrow> 'p peer_session option \<Rightarrow> (peer_output list \<times> peer_life list) option" where
  "peer_session_destroy lib now s =
     (case s of
        None \<Rightarrow> Some ([], [])
      | Some s \<Rightarrow> do {
          s1 \<leftarrow> (if ps_state s \<noteq> RTC_CLOSED then peer_session_close lib now s else Some s);
          Some (ps_out s1, [Pr_Freed Pr_Peer, Pr_Freed Pr_Remote, Pr_Freed Pr_Local, Pr_Freed Pr_Session])
        })"

section \<open>The global part\<close>

text \<open>The library's initialisation and shutdown; how often they were called is counted.\<close>

record peer_global =
  pg_initialized :: bool
  pg_inits :: nat
  pg_deinits :: nat

definition peer_global_init :: "bool \<Rightarrow> peer_global \<Rightarrow> int \<times> peer_global" where
  "peer_global_init init_ok g =
     (if pg_initialized g then (0, g)
      else if \<not> init_ok then (- 1, g)
      else (0, g\<lparr>pg_initialized := True, pg_inits := pg_inits g + 1\<rparr>))"

definition peer_global_shutdown :: "peer_global \<Rightarrow> peer_global" where
  "peer_global_shutdown g =
     (if \<not> pg_initialized g then g else g\<lparr>pg_initialized := False, pg_deinits := pg_deinits g + 1\<rparr>)"

definition peer_global_off :: peer_global where
  "peer_global_off = \<lparr>pg_initialized = False, pg_inits = 0, pg_deinits = 0\<rparr>"

text \<open>\<open>Some ok\<close> is a call of the set-up that succeeds when \<open>ok\<close>, \<open>None\<close> the shutdown.\<close>

definition peer_global_step :: "bool option \<Rightarrow> peer_global \<Rightarrow> peer_global" where
  "peer_global_step c g = (case c of None \<Rightarrow> peer_global_shutdown g | Some ok \<Rightarrow> snd (peer_global_init ok g))"

lemma peer_global_balanced:
  "let g = fold peer_global_step cs peer_global_off in pg_inits g = pg_deinits g + (if pg_initialized g then 1 else 0)"
proof -
  have "pg_inits (fold peer_global_step cs g) = pg_deinits (fold peer_global_step cs g) + (if pg_initialized (fold peer_global_step cs g) then 1 else 0)"
    if "pg_inits g = pg_deinits g + (if pg_initialized g then 1 else 0)" for g
    using that
  proof (induction cs arbitrary: g)
    case (Cons c cs)
    have "pg_inits (peer_global_step c g) = pg_deinits (peer_global_step c g) + (if pg_initialized (peer_global_step c g) then 1 else 0)"
      using Cons.prems by (cases c) (auto simp: peer_global_step_def peer_global_init_def peer_global_shutdown_def)
    then show ?case using Cons.IH by simp
  qed simp
  then show ?thesis by (simp add: peer_global_off_def Let_def)
qed

definition peer_local_fingerprint :: string where
  "peer_local_fingerprint = ''sha-256 '' @ concat (replicate 31 ''00:'') @ ''00''"

section \<open>Operations in any order\<close>

datatype peer_op = Op_Tick u64 | Op_Send bytes bool | Op_Idr | Op_Close

definition peer_apply :: "'p peer_lib \<Rightarrow> u64 \<times> peer_op \<Rightarrow> 'p peer_session \<Rightarrow> 'p peer_session option" where
  "peer_apply lib op s =
     (case op of (now, x) \<Rightarrow> (case x of
        Op_Tick clk \<Rightarrow> peer_session_tick lib now clk s
      | Op_Send au is_idr \<Rightarrow> Some (snd (peer_send_access_unit lib au is_idr s))
      | Op_Idr \<Rightarrow> Some (peer_request_idr now s)
      | Op_Close \<Rightarrow> peer_session_close lib now s))"

section \<open>What a session promises\<close>

definition ending :: "peer_state \<Rightarrow> bool" where
  "ending st \<longleftrightarrow> st = PEER_CONNECTION_FAILED \<or> st = PEER_CONNECTION_CLOSED \<or> st = PEER_CONNECTION_DISCONNECTED"

definition ends :: "peer_event \<Rightarrow> bool" where
  "ends e = (case e of Ice_State st \<Rightarrow> ending st | _ \<Rightarrow> False)"

definition revives :: "peer_event \<Rightarrow> bool" where
  "revives e = (case e of Ice_State st \<Rightarrow> \<not> ending st | _ \<Rightarrow> False)"

fun settles :: "peer_event list \<Rightarrow> bool" where
  "settles [] = True"
| "settles (e # es) = (if ends e then filter revives es = [] else settles es)"

definition closings :: "'p peer_session \<Rightarrow> nat" where
  "closings s = length (filter ((=) Peer_Closed) (ps_out s))"

definition told_once :: "'p peer_session \<Rightarrow> bool" where
  "told_once s \<longleftrightarrow> closings s = (if ps_state s = RTC_CLOSED \<and> pc_on_closed (ps_config s) then 1 else 0)"

definition same_life :: "'p peer_session \<Rightarrow> 'p peer_session \<Rightarrow> bool" where
  "same_life s s' \<longleftrightarrow> closings s' = closings s \<and> ps_config s' = ps_config s \<and> (ps_state s' = RTC_CLOSED) = (ps_state s = RTC_CLOSED)"

lemma same_life_refl [simp]: "same_life s s"
  by (simp add: same_life_def)

lemma same_life_trans: "same_life a b \<Longrightarrow> same_life b c \<Longrightarrow> same_life a c"
  by (simp add: same_life_def)

lemma same_life_told: "same_life s s' \<Longrightarrow> told_once s \<Longrightarrow> told_once s'"
  by (simp add: same_life_def told_once_def)

lemma request_idr_life: "same_life s (peer_request_idr now s)"
  by (simp add: peer_request_idr_def same_life_def closings_def ps_emit_def)

lemma quiet_callback:
  assumes "\<not> ends e" "ps_state s \<noteq> RTC_CLOSED \<or> \<not> revives e"
  shows "\<exists>s'. peer_callback now close e s = Some s' \<and> same_life s s'"
proof -
  have life: "same_life s (ps_set_state st s)" if "st \<noteq> RTC_CLOSED" "ps_state s \<noteq> RTC_CLOSED" for st
    using that by (simp add: ps_set_state_def same_life_def closings_def)
  have stream: "same_life s ((ps_set_state RTC_STREAMING s)\<lparr>ps_last_rx_ms := now\<rparr>)" if "ps_state s \<noteq> RTC_CLOSED"
    using life [of RTC_STREAMING] that by (simp add: same_life_def closings_def)
  show ?thesis
  proof (cases e)
    case (Ice_State st)
    then have open': "ps_state s \<noteq> RTC_CLOSED" "\<not> ending st" using assms by (simp_all add: ends_def revives_def)
    then show ?thesis
      using Ice_State life stream same_life_trans [OF stream request_idr_life]
      by (cases st) (auto simp: peer_callback_def on_ice_state_change_def ending_def Let_def)
  next
    case (Ice_Candidate c)
    then show ?thesis by (cases c) (auto simp: peer_callback_def on_ice_candidate_def same_life_def closings_def)
  next
    case Want_Keyframe
    have "same_life s (s\<lparr>ps_stats := (ps_stats s)\<lparr>pli_received := pli_received (ps_stats s) + 1\<rparr>\<rparr>)"
      by (simp add: same_life_def closings_def)
    from same_life_trans [OF this request_idr_life] show ?thesis
      using Want_Keyframe by (simp add: peer_callback_def on_request_keyframe_def)
  qed
qed

lemma quiet_callbacks:
  assumes "filter ends es = []" "ps_state s \<noteq> RTC_CLOSED \<or> filter revives es = []"
  shows "\<exists>s'. foldo (peer_callback now close) es s = Some s' \<and> same_life s s'"
  using assms
proof (induction es arbitrary: s)
  case (Cons e es)
  obtain s1 where s1: "peer_callback now close e s = Some s1" "same_life s s1"
    using quiet_callback [of e s now close] Cons.prems by (auto split: if_splits)
  moreover obtain s2 where "foldo (peer_callback now close) es s1 = Some s2" "same_life s1 s2"
    using Cons.IH [of s1] Cons.prems s1(2) by (auto simp: same_life_def split: if_splits)
  ultimately show ?case using same_life_trans by auto
qed simp

locale peer_library =
  fixes lib :: "'p peer_lib"
  assumes close_quiet: "filter ends (fst (peer_connection_close lib p)) = []"
    and offer_quiet: "filter ends (fst (peer_connection_set_remote_description lib p sdp)) = []"
    and answer_quiet: "filter ends (fst (peer_connection_create_answer lib p)) = []"
    and loop_settles: "settles (fst (peer_connection_loop lib p))"
begin

lemma close_reaches:
  assumes "ps_state s \<noteq> RTC_CLOSED" "told_once s"
  shows "\<exists>s'. peer_close_depth lib now (Suc n) s = Some s' \<and> ps_state s' = RTC_CLOSED \<and> told_once s' \<and> ps_config s' = ps_config s"
proof -
  obtain es pc where c: "peer_connection_close lib (ps_pc s) = (es, pc)" by fastforce
  then have "filter ends es = []" using close_quiet [of "ps_pc s"] by simp
  then obtain s1 where s1: "foldo (peer_callback now (peer_close_depth lib now n)) es (s\<lparr>ps_pc := pc\<rparr>) = Some s1"
      "same_life (s\<lparr>ps_pc := pc\<rparr>) s1"
    using quiet_callbacks [of es "s\<lparr>ps_pc := pc\<rparr>"] assms(1) by auto
  then show ?thesis
    using assms c by (auto simp: same_life_def told_once_def closings_def ps_set_state_def ps_emit_def Let_def)
qed

lemma close_told:
  assumes "told_once s"
  shows "\<exists>s'. peer_session_close lib now s = Some s' \<and> ps_state s' = RTC_CLOSED \<and> told_once s' \<and> ps_config s' = ps_config s"
proof (cases "ps_state s = RTC_CLOSED")
  case True
  then have "peer_session_close lib now s = Some s" by (simp add: peer_session_close_def numeral_eq_Suc)
  then show ?thesis using True assms by simp
next
  case False
  from close_reaches [OF this assms, of now 7] show ?thesis by (simp add: peer_session_close_def numeral_eq_Suc)
qed

lemma settled_callbacks:
  assumes "settles es" "told_once s" "ps_state s \<noteq> RTC_CLOSED"
  shows "\<exists>s'. peer_callbacks lib now es s = Some s' \<and> told_once s' \<and> ps_config s' = ps_config s"
  using assms
proof (induction es arbitrary: s)
  case (Cons e es)
  show ?case
  proof (cases "ends e")
    case True
    then have calm: "filter revives es = []" and call: "peer_callback now (peer_session_close lib now) e s = peer_session_close lib now s"
      using Cons.prems by (auto simp: ends_def ending_def peer_callback_def on_ice_state_change_def split: peer_event.splits peer_state.splits)
    obtain s1 where s1: "peer_session_close lib now s = Some s1" "ps_state s1 = RTC_CLOSED" "told_once s1" "ps_config s1 = ps_config s"
      using close_told [OF Cons.prems(2)] by blast
    have rest: "\<exists>s'. foldo (peer_callback now (peer_session_close lib now)) es t = Some s' \<and> told_once s' \<and> ps_config s' = ps_config t"
      if "ps_state t = RTC_CLOSED" "told_once t" for t
      using that calm
    proof (induction es arbitrary: t)
      case (Cons x xs)
      show ?case
      proof (cases "ends x")
        case True
        have "peer_session_close lib now t = Some t" using Cons.prems(1) by (simp add: peer_session_close_def numeral_eq_Suc)
        then have "peer_callback now (peer_session_close lib now) x t = Some t"
          using True by (auto simp: ends_def ending_def peer_callback_def on_ice_state_change_def split: peer_event.splits peer_state.splits)
        then show ?thesis using Cons by (auto split: if_splits)
      next
        case False
        then obtain t1 where t1: "peer_callback now (peer_session_close lib now) x t = Some t1" "same_life t t1"
          using quiet_callback [of x t] Cons.prems(3) by (auto split: if_splits)
        then have "ps_state t1 = RTC_CLOSED" "told_once t1" "ps_config t1 = ps_config t"
          using Cons.prems same_life_told by (auto simp: same_life_def)
        then show ?thesis using Cons.IH [of t1] Cons.prems(3) t1(1) by (auto split: if_splits)
      qed
    qed simp
    then show ?thesis using s1 call rest [OF s1(2,3)] by (simp add: peer_callbacks_def)
  next
    case False
    then obtain s1 where s1: "peer_callback now (peer_session_close lib now) e s = Some s1" "same_life s s1"
      using quiet_callback [of e s] Cons.prems(3) by auto
    then have "told_once s1" "ps_state s1 \<noteq> RTC_CLOSED" "ps_config s1 = ps_config s"
      using Cons.prems same_life_told by (auto simp: same_life_def)
    then show ?thesis using Cons.IH [of s1] Cons.prems(1) False s1(1) by (auto simp: peer_callbacks_def)
  qed
qed (simp add: peer_callbacks_def)

lemma told_field: "told_once (s\<lparr>ps_pc := pc\<rparr>) = told_once s"
  by (simp add: told_once_def closings_def)

lemma tick_told:
  assumes "told_once s"
  shows "\<exists>s'. peer_session_tick lib now clk s = Some s' \<and> told_once s' \<and> ps_config s' = ps_config s"
proof (cases "ps_state s = RTC_CLOSED")
  case True
  then show ?thesis using assms by (simp add: peer_session_tick_def)
next
  case False
  obtain es pc where c: "peer_connection_loop lib (ps_pc s) = (es, pc)" by fastforce
  then have "settles es" using loop_settles [of "ps_pc s"] by simp
  then obtain s1 where s1: "peer_callbacks lib now es (s\<lparr>ps_pc := pc\<rparr>) = Some s1" "told_once s1" "ps_config s1 = ps_config s"
    using settled_callbacks [of es "s\<lparr>ps_pc := pc\<rparr>" now] assms False by (auto simp: told_field)
  then show ?thesis using False c close_told [OF s1(2), of now] by (auto simp: peer_session_tick_def)
qed

lemma apply_told:
  assumes "told_once s"
  shows "\<exists>s'. peer_apply lib op s = Some s' \<and> told_once s' \<and> ps_config s' = ps_config s"
proof -
  obtain now x where op: "op = (now, x)" by fastforce
  show ?thesis
  proof (cases x)
    case (Op_Tick clk)
    then show ?thesis using tick_told [OF assms] op by (simp add: peer_apply_def)
  next
    case (Op_Send au is_idr)
    have "same_life s (snd (peer_send_access_unit lib au is_idr s))"
      by (auto simp: peer_send_access_unit_def same_life_def closings_def ps_emit_def Let_def split: prod.split)
    then show ?thesis using Op_Send op assms same_life_told by (auto simp: peer_apply_def same_life_def)
  next
    case Op_Idr
    then show ?thesis
      using op request_idr_life [of s now] same_life_told [OF request_idr_life assms] by (simp add: peer_apply_def same_life_def)
  next
    case Op_Close
    then show ?thesis using close_told [OF assms, of now] op by (auto simp: peer_apply_def)
  qed
qed

lemma applies_told:
  assumes "told_once s"
  shows "\<exists>s'. foldo (peer_apply lib) ops s = Some s' \<and> told_once s' \<and> ps_config s' = ps_config s"
  using assms
proof (induction ops arbitrary: s)
  case (Cons op ops)
  from apply_told [OF Cons.prems] obtain s1 where "peer_apply lib op s = Some s1" "told_once s1" "ps_config s1 = ps_config s" by blast
  then show ?case using Cons.IH [of s1] by auto
qed simp

lemma destroy_told:
  assumes "told_once s"
  shows "\<exists>out. peer_session_destroy lib now (Some s) =
      Some (out, [Pr_Freed Pr_Peer, Pr_Freed Pr_Remote, Pr_Freed Pr_Local, Pr_Freed Pr_Session]) \<and>
    length (filter ((=) Peer_Closed) out) = (if pc_on_closed (ps_config s) then 1 else 0)"
  using close_told [OF assms, of now] assms by (auto simp: peer_session_destroy_def told_once_def closings_def)

text \<open>A created session is in \<^verbatim>\<open>RTC_ICE\<close> and the server has not been told anything; a failed creation frees what it got.\<close>

lemma create_balanced:
  "\<exists>r life. peer_session_create lib e conf cap = Some (r, life) \<and>
     (case r of None \<Rightarrow> (\<forall>x. length (filter ((=) (Pr_Got x)) life) = length (filter ((=) (Pr_Freed x)) life))
      | Some (s, answer) \<Rightarrow> told_once s \<and> ps_state s = RTC_ICE \<and> length answer < cap \<and>
          life = [Pr_Got Pr_Session, Pr_Got Pr_Remote, Pr_Got Pr_Peer, Pr_Got Pr_Local])"
  (is "\<exists>r life. _ = Some (r, life) \<and> ?ok r life")
proof (cases "Option.bind conf (\<lambda>c. map_option (Pair c) (pc_remote_sdp c))")
  case None
  then show ?thesis by (simp add: peer_session_create_def)
next
  case (Some a)
  obtain cfg sdp where a: "a = (cfg, sdp)" by fastforce
  show ?thesis
  proof (cases "pe_session e \<and> pe_remote e \<and> peer_connection_create lib \<noteq> None")
    case False
    then show ?thesis using Some a by (auto simp: peer_session_create_def)
  next
    case True
    then obtain pc where pc: "peer_connection_create lib = Some pc" by blast
    obtain es pc1 where o1: "peer_connection_set_remote_description lib pc sdp = (es, pc1)" by fastforce
    define s0 where "s0 = fresh_peer_session cfg (pe_now e) sdp pc1"
    have s0: "ps_state s0 \<noteq> RTC_CLOSED" "told_once s0" by (simp_all add: s0_def fresh_peer_session_def told_once_def closings_def)
    have "filter ends es = []" using offer_quiet [of pc sdp] o1 by simp
    then obtain s1 where s1: "peer_callbacks lib (pe_now e) es s0 = Some s1" "same_life s0 s1"
      using quiet_callbacks [of es s0] s0(1) unfolding peer_callbacks_def by blast
    obtain es2 answer pc2 where o2: "peer_connection_create_answer lib (ps_pc s1) = (es2, answer, pc2)" by (metis prod_cases3)
    have "filter ends es2 = []" using answer_quiet [of "ps_pc s1"] o2 by simp
    then obtain s2 where s2: "peer_callbacks lib (pe_now e) es2 (s1\<lparr>ps_pc := pc2\<rparr>) = Some s2" "same_life (s1\<lparr>ps_pc := pc2\<rparr>) s2"
      using quiet_callbacks [of es2 "s1\<lparr>ps_pc := pc2\<rparr>"] s1(2) s0(1) unfolding peer_callbacks_def same_life_def by auto
    have "same_life s0 s2" using s1(2) s2(2) by (simp add: same_life_def closings_def)
    then have quiet: "closings s2 = 0" using s0 by (simp add: same_life_def told_once_def)
    have run: "peer_session_create lib e conf cap = (case answer of
        None \<Rightarrow> Some (None, [Pr_Got Pr_Session, Pr_Got Pr_Remote, Pr_Got Pr_Peer, Pr_Freed Pr_Peer, Pr_Freed Pr_Remote, Pr_Freed Pr_Session])
      | Some text \<Rightarrow> if \<not> pe_local e
          then Some (None, [Pr_Got Pr_Session, Pr_Got Pr_Remote, Pr_Got Pr_Peer, Pr_Freed Pr_Peer, Pr_Freed Pr_Remote, Pr_Freed Pr_Session])
          else if length text + 1 > cap
          then Some (None, [Pr_Got Pr_Session, Pr_Got Pr_Remote, Pr_Got Pr_Peer, Pr_Got Pr_Local, Pr_Freed Pr_Peer, Pr_Freed Pr_Remote,
              Pr_Freed Pr_Local, Pr_Freed Pr_Session])
          else Some (Some (ps_set_state RTC_ICE (s2\<lparr>ps_local_copy := text, ps_config := (ps_config s2)\<lparr>pc_extra_ips := []\<rparr>\<rparr>), text),
              [Pr_Got Pr_Session, Pr_Got Pr_Remote, Pr_Got Pr_Peer, Pr_Got Pr_Local]))"
      using True pc Some a o1 s1(1) o2 s2(1) by (cases answer) (simp_all add: peer_session_create_def s0_def Let_def)
    show ?thesis unfolding run using quiet
      by (auto simp: told_once_def closings_def ps_set_state_def split: option.split)
  qed
qed

end

section \<open>Keyframe requests\<close>

fun idr_times :: "peer_output list \<Rightarrow> u64 list" where
  "idr_times [] = []"
| "idr_times (Peer_Idr t # xs) = t # idr_times xs"
| "idr_times (x # xs) = idr_times xs"

definition far_apart :: "u64 list \<Rightarrow> bool" where
  "far_apart = successively (\<lambda>a b. unat a + 400 \<le> unat b)"

definition idr_fits :: "u64 \<Rightarrow> u64 list \<Rightarrow> u64 \<Rightarrow> bool" where
  "idr_fits now ts lst \<longleftrightarrow> 0 < now \<and> far_apart ts \<and> lst \<le> now \<and> (if ts = [] then lst = 0 else last ts = lst \<and> lst \<noteq> 0)"

definition idr_ok :: "u64 \<Rightarrow> 'p peer_session \<Rightarrow> bool" where
  "idr_ok now s = idr_fits now (idr_times (ps_out s)) (ps_last_idr_ms s)"

lemma idr_times_append [simp]: "idr_times (xs @ ys) = idr_times xs @ idr_times ys"
  by (induction xs rule: idr_times.induct) auto

lemma idr_ok_same: "idr_ok now s \<Longrightarrow> idr_times (ps_out s') = idr_times (ps_out s) \<Longrightarrow> ps_last_idr_ms s' = ps_last_idr_ms s \<Longrightarrow> idr_ok now s'"
  by (simp add: idr_ok_def)

lemma idr_ok_later: "idr_ok now s \<Longrightarrow> now \<le> now' \<Longrightarrow> idr_ok now' s"
  unfolding idr_ok_def idr_fits_def by (auto intro: order.trans order.strict_trans2 split: if_splits)

lemma request_idr_ok:
  assumes "idr_ok now s"
  shows "idr_ok now (peer_request_idr now s)"
proof (cases "pc_on_idr_request (ps_config s) \<and> \<not> (ps_last_idr_ms s \<noteq> 0 \<and> now - ps_last_idr_ms s < IDR_MIN_INTERVAL_MS)")
  case True
  have out: "idr_times (ps_out (peer_request_idr now s)) = idr_times (ps_out s) @ [now]" "ps_last_idr_ms (peer_request_idr now s) = now"
    using True by (auto simp: peer_request_idr_def ps_emit_def)
  have "unat (last (idr_times (ps_out s))) + 400 \<le> unat now" if "idr_times (ps_out s) \<noteq> []"
  proof -
    have last: "last (idr_times (ps_out s)) = ps_last_idr_ms s" "ps_last_idr_ms s \<noteq> 0" "ps_last_idr_ms s \<le> now"
      using assms that by (auto simp: idr_ok_def idr_fits_def)
    then have "400 \<le> now - ps_last_idr_ms s" using True by (simp add: IDR_MIN_INTERVAL_MS_def not_less)
    then have "400 \<le> unat (now - ps_last_idr_ms s)" by (simp add: word_le_nat_alt)
    then show ?thesis using last by (simp add: unat_sub word_le_nat_alt)
  qed
  then have "far_apart (idr_times (ps_out s) @ [now])"
    using assms by (auto simp: far_apart_def idr_ok_def idr_fits_def successively_append_iff split: if_splits)
  then show ?thesis using assms out by (auto simp: idr_ok_def idr_fits_def)
next
  case False
  then have "peer_request_idr now s = s" by (auto simp: peer_request_idr_def)
  then show ?thesis using assms by simp
qed

lemma set_state_idr: "idr_ok now s \<Longrightarrow> idr_ok now (ps_set_state st s)"
  by (simp add: ps_set_state_def idr_ok_def)

lemma callback_idr:
  assumes "peer_callback now close e s = Some s'" "idr_ok now s"
    and close: "\<And>t t'. close t = Some t' \<Longrightarrow> idr_ok now t \<Longrightarrow> idr_ok now t'"
  shows "idr_ok now s'"
proof (cases e)
  case (Ice_State st)
  have "idr_ok now ((ps_set_state RTC_STREAMING s)\<lparr>ps_last_rx_ms := now\<rparr>)"
    by (rule idr_ok_same [OF set_state_idr [OF assms(2)]]) simp_all
  then show ?thesis
    using assms(1) Ice_State close [OF _ assms(2)] set_state_idr [OF assms(2)] request_idr_ok
    by (cases st) (auto simp: peer_callback_def on_ice_state_change_def Let_def split: if_splits)
next
  case (Ice_Candidate c)
  then show ?thesis using assms(1,2) by (auto simp: peer_callback_def on_ice_candidate_def idr_ok_def split: option.splits)
next
  case Want_Keyframe
  have "idr_ok now (s\<lparr>ps_stats := (ps_stats s)\<lparr>pli_received := pli_received (ps_stats s) + 1\<rparr>\<rparr>)"
    using assms(2) by (simp add: idr_ok_def)
  then show ?thesis using assms(1) Want_Keyframe request_idr_ok by (auto simp: peer_callback_def on_request_keyframe_def)
qed

lemma callbacks_idr:
  assumes "foldo (peer_callback now close) es s = Some s'" "idr_ok now s"
    and close: "\<And>t t'. close t = Some t' \<Longrightarrow> idr_ok now t \<Longrightarrow> idr_ok now t'"
  shows "idr_ok now s'"
  using assms(1,2)
proof (induction es arbitrary: s)
  case (Cons e es)
  then obtain s1 where "peer_callback now close e s = Some s1" "foldo (peer_callback now close) es s1 = Some s'"
    by (auto split: option.splits)
  then show ?case using Cons.IH callback_idr close Cons.prems(2) by blast
qed simp

lemma close_depth_idr: "peer_close_depth lib now n s = Some s' \<Longrightarrow> idr_ok now s \<Longrightarrow> idr_ok now s'"
proof (induction n arbitrary: s s')
  case (Suc n)
  show ?case
  proof (cases "ps_state s = RTC_CLOSED")
    case False
    obtain es pc where c: "peer_connection_close lib (ps_pc s) = (es, pc)" by fastforce
    obtain s1 where s1: "foldo (peer_callback now (peer_close_depth lib now n)) es (s\<lparr>ps_pc := pc\<rparr>) = Some s1"
      using Suc.prems(1) False c by (auto simp: Option.bind_eq_Some_conv)
    have "idr_ok now s1" by (rule callbacks_idr [OF s1 _ Suc.IH]) (use Suc.prems(2) in \<open>simp_all add: idr_ok_def\<close>)
    from set_state_idr [OF this, of RTC_CLOSED] show ?thesis
      using Suc.prems(1) False c s1 by (auto simp: Let_def ps_emit_def idr_ok_def)
  qed (use Suc.prems in simp)
qed simp

lemma session_close_idr: "peer_session_close lib now s = Some s' \<Longrightarrow> idr_ok now s \<Longrightarrow> idr_ok now s'"
  unfolding peer_session_close_def by (rule close_depth_idr)

lemma session_callbacks_idr: "peer_callbacks lib now es s = Some s' \<Longrightarrow> idr_ok now s \<Longrightarrow> idr_ok now s'"
  unfolding peer_callbacks_def by (erule callbacks_idr) (auto intro: session_close_idr)

lemma apply_idr:
  assumes "peer_apply lib (now, x) s = Some s'" "idr_ok now s"
  shows "idr_ok now s'"
proof (cases x)
  case (Op_Tick clk)
  then have t: "peer_session_tick lib now clk s = Some s'" using assms(1) by (simp add: peer_apply_def)
  obtain es pc where c: "peer_connection_loop lib (ps_pc s) = (es, pc)" by fastforce
  have "idr_ok now (s\<lparr>ps_pc := pc\<rparr>)" using assms(2) by (simp add: idr_ok_def)
  then show ?thesis
    using t c assms(2) session_callbacks_idr session_close_idr
    by (auto simp: peer_session_tick_def Option.bind_eq_Some_conv split: if_splits) blast+
next
  case (Op_Send au is_idr)
  then show ?thesis
    using assms by (auto simp: peer_apply_def peer_send_access_unit_def ps_emit_def idr_ok_def Let_def split: prod.split if_splits)
next
  case Op_Idr
  then show ?thesis using assms request_idr_ok by (auto simp: peer_apply_def)
next
  case Op_Close
  then show ?thesis using assms session_close_idr by (auto simp: peer_apply_def)
qed

lemma applies_idr:
  assumes "foldo (peer_apply lib) ops s = Some s'" "idr_ok t s" "sorted (t # map fst ops @ [now])"
  shows "idr_ok now s'"
  using assms
proof (induction ops arbitrary: s t)
  case (Cons op ops)
  obtain t1 x where op: "op = (t1, x)" by fastforce
  from Cons.prems(1) obtain s1 where s1: "peer_apply lib op s = Some s1" "foldo (peer_apply lib) ops s1 = Some s'"
    by (auto split: option.splits)
  have "idr_ok t1 s" using idr_ok_later [OF Cons.prems(2)] Cons.prems(3) op by simp
  then have "idr_ok t1 s1" using apply_idr s1(1) op by blast
  then show ?case using Cons.IH [OF s1(2)] Cons.prems(3) op by simp
qed (auto intro: idr_ok_later)

lemma create_idr:
  assumes "peer_session_create lib e conf cap = Some (Some (s, answer), life)" "0 < pe_now e"
  shows "idr_ok (pe_now e) s"
proof -
  obtain cfg sdp where conf: "Option.bind conf (\<lambda>c. map_option (Pair c) (pc_remote_sdp c)) = Some (cfg, sdp)"
    using assms(1) by (cases "Option.bind conf (\<lambda>c. map_option (Pair c) (pc_remote_sdp c))") (auto simp: peer_session_create_def)
  obtain pc where pc: "peer_connection_create lib = Some pc" "pe_session e" "pe_remote e"
    using assms(1) conf by (cases "peer_connection_create lib") (auto simp: peer_session_create_def split: if_splits)
  obtain es pc1 where o1: "peer_connection_set_remote_description lib pc sdp = (es, pc1)" by fastforce
  obtain s1 where s1: "peer_callbacks lib (pe_now e) es (fresh_peer_session cfg (pe_now e) sdp pc1) = Some s1"
    using assms(1) conf pc o1 by (auto simp: peer_session_create_def Option.bind_eq_Some_conv Let_def)
  obtain es2 ans pc2 where o2: "peer_connection_create_answer lib (ps_pc s1) = (es2, ans, pc2)" by (metis prod_cases3)
  obtain s2 where c1: "peer_callbacks lib (pe_now e) es (fresh_peer_session cfg (pe_now e) sdp pc1) = Some s1"
      "peer_callbacks lib (pe_now e) es2 (s1\<lparr>ps_pc := pc2\<rparr>) = Some s2"
      "s = ps_set_state RTC_ICE (s2\<lparr>ps_local_copy := answer, ps_config := (ps_config s2)\<lparr>pc_extra_ips := []\<rparr>\<rparr>)"
    using assms(1) conf pc o1 s1 o2
    by (auto simp: peer_session_create_def Option.bind_eq_Some_conv Let_def split: option.splits if_splits)
  have "idr_ok (pe_now e) (fresh_peer_session cfg (pe_now e) sdp pc1)"
    using assms(2) by (simp add: idr_ok_def idr_fits_def fresh_peer_session_def far_apart_def)
  from session_callbacks_idr [OF c1(1) this] have "idr_ok (pe_now e) (s1\<lparr>ps_pc := pc2\<rparr>)" by (simp add: idr_ok_def)
  from session_callbacks_idr [OF c1(2) this]
  have "idr_ok (pe_now e) (s2\<lparr>ps_local_copy := answer, ps_config := (ps_config s2)\<lparr>pc_extra_ips := []\<rparr>\<rparr>)" by (simp add: idr_ok_def)
  then show ?thesis unfolding c1(3) by (rule set_state_idr)
qed

section \<open>The life of a session\<close>


definition demo_peer_lib :: "nat peer_lib" where
  "demo_peer_lib = \<lparr>peer_connection_create = Some 0,
     peer_connection_set_remote_description = (\<lambda>p _. ([Ice_State PEER_CONNECTION_NEW], p)),
     peer_connection_create_answer = (\<lambda>p. ([Ice_Candidate (Some ''candidate:1'')], Some ''v=0'', p)),
     peer_connection_loop = (\<lambda>p. (if p = 0 then [Ice_State PEER_CONNECTION_CHECKING, Ice_State PEER_CONNECTION_CONNECTED]
        else if p = 1 then [Want_Keyframe] else [Ice_State PEER_CONNECTION_DISCONNECTED, Want_Keyframe], p + 1)),
     peer_connection_send_video = (\<lambda>p _. (0, p)), peer_connection_close = (\<lambda>p. ([], p))\<rparr>"

definition demo_peer_env :: peer_create_env where
  "demo_peer_env = \<lparr>pe_session = True, pe_remote = True, pe_local = True, pe_now = 1000\<rparr>"

definition demo_peer_config :: peer_config where
  "demo_peer_config = \<lparr>pc_id = 1, pc_extra_ips = [], pc_remote_sdp = Some ''v=0'', pc_on_idr_request = True, pc_on_closed = True\<rparr>"


text \<open>In this run one keyframe is asked for, when the connection is there; the request of the browser 100 ms later is not passed on.\<close>

lemma demo_peer_run:
  "case peer_session_create demo_peer_lib demo_peer_env (Some demo_peer_config) 8 of
     Some (Some (s, answer), _) \<Rightarrow> answer = ''v=0'' \<and>
       map_option ps_out (foldo (peer_apply demo_peer_lib) [(1100, Op_Tick 1100), (1200, Op_Tick 1200), (1300, Op_Send [1, 2] True)] s) =
       Some [Peer_Idr 1100, Peer_Video [1, 2]]
   | _ \<Rightarrow> False"
  by code_simp

section \<open>Where the times are taken from\<close>

text \<open>
  A connection that is checked again after it was established puts the session back to \<^verbatim>\<open>RTC_ICE\<close>, and the time out
  meant for a session that never connected closes it in the same tick when it was established 15 seconds ago.
\<close>

lemma recheck_closes:
  assumes "ps_state s = RTC_STREAMING" "peer_connection_loop lib (ps_pc s) = ([Ice_State PEER_CONNECTION_CHECKING], pc)"
    "clk - ps_last_rx_ms s > SESSION_IDLE_TIMEOUT_MS" "peer_connection_close lib pc = ([], pc')"
  shows "\<exists>s'. peer_session_tick lib now clk s = Some s' \<and> ps_state s' = RTC_CLOSED"
  using assms
  by (auto simp: peer_session_tick_def peer_callbacks_def peer_callback_def on_ice_state_change_def ps_set_state_def
      peer_session_close_def numeral_eq_Suc ps_emit_def Let_def)

text \<open>A streaming session has no time out of its own: as long as the library reports nothing it stays open.\<close>

lemma streaming_never_idles:
  assumes "ps_state s = RTC_STREAMING" "peer_connection_loop lib (ps_pc s) = ([], pc)"
  shows "peer_session_tick lib now clk s = Some (s\<lparr>ps_pc := pc\<rparr>)"
  using assms by (simp add: peer_session_tick_def peer_callbacks_def)

text \<open>
  The state is set after the library was told to close: a library that reports the end from within that call
  makes the session close itself again and again, to any depth.
\<close>

lemma reporting_close_recurses:
  assumes "\<And>p. peer_connection_close lib p = ([Ice_State PEER_CONNECTION_CLOSED], p)" "ps_state s \<noteq> RTC_CLOSED"
  shows "peer_close_depth lib now n s = None"
  using assms(2)
proof (induction n arbitrary: s)
  case (Suc n)
  then show ?case using assms(1) by (simp add: peer_callback_def on_ice_state_change_def)
qed simp

interpretation stub: peer_library stub_lib
  by unfold_locales (simp_all add: stub_lib_def)

text \<open>The build without the library refuses every session and leaves nothing behind.\<close>

lemma stub_refuses: "\<exists>life. peer_session_create stub_lib e conf cap = Some (None, life)"
  by (auto simp: peer_session_create_def stub_lib_def split: option.split prod.split)

end
