(* ===== verification/Camstream_Main.thy ===== *)
theory Camstream_Main
  imports App_Config App_Run
begin

text \<open>
  The program as a whole, \<^verbatim>\<open>src/camstream_main.c\<close>: the command line is read, the server runs until a signal
  stops it, and the exit status says how it went. With it are the two functions of
  \<^verbatim>\<open>src/app/app_config.c\<close> that print the help and the summary. Standard output is a list of lines.
  Setting up the signal handlers has no result here: a signal only sets the flag that ends the main loop.
\<close>

section \<open>What is printed\<close>

definition APP_VERSION :: string where
  "APP_VERSION = ''2.0.0''"

text \<open>The parts of the help text that are compiled for Janus only stand by themselves.\<close>

definition usage_head :: "string \<Rightarrow> string list" where
  "usage_head program =
     [''camstream '' @ APP_VERSION,
      [],
      ''Low latency camera to browser streaming server with real WebRTC'',
      ''media transport (ICE-lite, DTLS 1.2, SRTP, RTP H.264).'',
      [],
      ''Usage: '' @ program @ '' [options]'',
      [],
      ''Source:'',
      ''  -d, --device PATH     V4L2 device (default /dev/video0)'',
      ''  -t, --test            use the synthetic test pattern source'',
      ''  -W, --width N         capture width (default 640)'',
      ''  -H, --height N        capture height (default 480)'',
      ''  -F, --fps N           frames per second (default 30)'',
      [],
      ''Network:'',
      ''  -l, --listen ADDR     HTTP listen address (default 0.0.0.0)'',
      ''  -p, --http-port N     HTTP port for the web UI and'',
      ''                        WebRTC signaling (default 8080)'',
      ''  -u, --udp-port N      base UDP port for media sessions'',
      ''                        (default 50000, one port per viewer)'',
      [],
      ''WebRTC transport:'',
      ''  --webrtc MODE         native (default), libpeer or janus.'',
      ''                        Each build is compiled for exactly one:'',
      ''                        camstream (native), camstream-libpeer'',
      ''                        and camstream-janus respectively.'']"

definition usage_janus :: "string list" where
  "usage_janus =
     [[],
      ''Janus transport (camstream-janus build):'',
      ''  --janus-host ADDR     Janus gateway address (default 127.0.0.1)'',
      ''  --janus-rtp-port N    Janus video RTP port, videoport'',
      ''                        (default 5004)'',
      ''  --janus-rtcp-port N   Janus video RTCP port, videortcpport,'',
      ''                        receives sender reports (default 5005)'',
      ''  --janus-rtcp-listen N local port for PLI/FIR feedback from'',
      ''                        Janus (default 5006)'']"

definition usage_middle :: "string \<Rightarrow> string list" where
  "usage_middle program =
     [[],
      ''Encoding:'',
      ''  -e, --encoder MODE    auto (default), hw, hw:/dev/videoNN, sw'',
      ''  -b, --bitrate KBPS    target bitrate (default 2500)'',
      ''  -K, --keyframe SEC    keyframe interval in seconds (default 2)'',
      [],
      ''Misc:'',
      ''  -v, --verbose         verbose logging'',
      ''  -V, --version         print version and exit'',
      ''  -h, --help            this help'',
      [],
      ''Examples:'',
      ''  '' @ program @ '' -t                          run with the test pattern'',
      ''  '' @ program @ '' -d /dev/video0 -W 1280 -H 720 -b 4000'',
      ''  '' @ program @ '' -e hw:/dev/video11 -p 8080 -u 50000'']"

definition usage_janus_example :: "string \<Rightarrow> string list" where
  "usage_janus_example program =
     [''  '' @ program @ '' -t -e hw --janus-host 127.0.0.1 --janus-rtp-port 5004'',
      ''                                         H.264 -> RTP -> Janus -> WebRTC (install config/janus/*.jcfg into /etc/janus first)'']"

definition usage_end :: "string list" where
  "usage_end =
     [[]]"

definition usage_lines :: "build \<Rightarrow> string \<Rightarrow> string list" where
  "usage_lines b program =
     usage_head program @
     (if b = Janus then usage_janus else []) @
     usage_middle program @
     (if b = Janus then usage_janus_example program else []) @
     usage_end"

text \<open>An unsigned number in decimal.\<close>

definition u_dec :: "'a::len word \<Rightarrow> string" where
  "u_dec w = dec_nat (unat w)"

definition summary_lines :: "build \<Rightarrow> app_config \<Rightarrow> string list" where
  "summary_lines b c =
     [''source        : '' @ (if ac_use_test_source c then ''test pattern'' else ac_device c),
      ''resolution    : '' @ u_dec (ac_width c) @ ''x'' @ u_dec (ac_height c) @ '' @ '' @ u_dec (ac_fps c) @ '' fps'',
      ''encoder       : '' @ ac_encoder c @ '', '' @ u_dec (ac_bitrate_kbps c) @ '' kbps, keyframe every '' @
        u_dec (ac_keyframe_seconds c) @ ''s'',
      ''transport     : '' @ ac_webrtc_backend c,
      ''http          : http://'' @ ac_listen c @ '':'' @ u_dec (ac_http_port c) @ ''/  (web UI'' @
        (if b = Janus then [] else '' + WebRTC signaling'') @ '')''] @
     (if b = Janus
      then [''janus rtp     : '' @ ac_janus_host c @ '':'' @ u_dec (ac_janus_rtp_port c) @ '' (RTP H.264 video -> Janus)'',
            ''janus rtcp    : '' @ ac_janus_host c @ '':'' @ u_dec (ac_janus_rtcp_port c) @ '' (sender reports -> Janus)'',
            ''rtcp listen   : :'' @ u_dec (ac_janus_rtcp_listen c) @ '' (PLI/FIR keyframe requests <- Janus)'',
            ''signaling     : handled by Janus (see config/janus/janus.jcfg)'']
      else [''udp media     : ports from '' @ u_dec (ac_udp_base_port c)])"

section \<open>The program\<close>

text \<open>
  \<open>memory\<close> is what the uninitialised configuration held before its defaults were set, \<open>st\<close> which steps of the
  start-up succeed with a configuration. The result is the exit status, the lines printed and what the
  server did. \<^verbatim>\<open>argv\<close> has at least the name of the program.
\<close>

definition camstream_main :: "build \<Rightarrow> app_config \<Rightarrow> (app_config \<Rightarrow> startup) \<Rightarrow> string list \<Rightarrow> int \<times> string list \<times> action list" where
  "camstream_main b memory st argv =
     (case app_config_parse b (app_config_defaults b memory) argv of
        Exit rc \<Rightarrow> (rc, [], [])
      | Return parsed c \<Rightarrow>
          if parsed = 1 then (0, usage_lines b (hd argv), [])
          else if parsed \<noteq> 0 then (2, [], [])
          else case app_server_run (b = Janus) (st c) of (rc, actions) \<Rightarrow>
            (rc, [''camstream '' @ APP_VERSION @ '' starting''] @ summary_lines b c @ [[]], actions))"

section \<open>The help text and the parser\<close>

text \<open>The names of options that the help lists, and the defaults it states, read off its lines.\<close>

definition line_words :: "string \<Rightarrow> string list" where
  "line_words l = foldr (\<lambda>c ws. if c = CHR '' '' then [] # ws else (c # hd ws) # tl ws) l [[]]"

definition line_options :: "string \<Rightarrow> string list" where
  "line_options l =
     (if take 3 l \<noteq> ''  -'' then []
      else case line_words (drop 2 l) of
          w # w' # _ \<Rightarrow> if w \<noteq> [] \<and> last w = CHR '','' then [butlast w, w'] else [w]
        | ws \<Rightarrow> ws)"

fun line_defaults :: "string \<Rightarrow> string list" where
  "line_defaults [] = []"
| "line_defaults (c # cs) =
     (if take 9 (c # cs) = ''(default '' then [takeWhile (\<lambda>d. d \<noteq> CHR '')'' \<and> d \<noteq> CHR '','') (drop 8 cs)] else line_defaults cs)"

definition option_names :: "build \<Rightarrow> string list" where
  "option_names b =
     [''-t'', ''--test'', ''-v'', ''--verbose'', ''-V'', ''--version'', ''-h'', ''--help''] @
     concat (map (\<lambda>(s, l, opt). (case s of None \<Rightarrow> [] | Some x \<Rightarrow> [x]) @ [l])
       (filter (\<lambda>(s, l, opt). b = Janus \<or> opt \<notin> {Janus_Host, Janus_Rtp_Port, Janus_Rtcp_Port, Janus_Rtcp_Listen}) options))"

definition default_texts :: "build \<Rightarrow> app_config \<Rightarrow> string list" where
  "default_texts b c =
     [ac_device c, u_dec (ac_width c), u_dec (ac_height c), u_dec (ac_fps c), ac_listen c, u_dec (ac_http_port c),
      u_dec (ac_udp_base_port c)] @
     (if b = Janus then [ac_janus_host c, u_dec (ac_janus_rtp_port c), u_dec (ac_janus_rtcp_port c), u_dec (ac_janus_rtcp_listen c)]
      else []) @
     [u_dec (ac_bitrate_kbps c), u_dec (ac_keyframe_seconds c)]"

text \<open>The help lists exactly the options of the parser; those of Janus only in its build, although each build reads them.\<close>

lemma help_lists_options:
  "set (concat (map line_options (usage_lines b ''camstream''))) = set (option_names b)"
proof -
  have "list_all (\<lambda>b. list_all (\<lambda>x. x \<in> set (option_names b)) (concat (map line_options (usage_lines b ''camstream''))) \<and>
      list_all (\<lambda>x. x \<in> set (concat (map line_options (usage_lines b ''camstream'')))) (option_names b)) [Native, Libpeer, Janus]"
    by code_simp
  then show ?thesis by (cases b) (auto simp: list_all_iff)
qed

text \<open>The defaults it states are those of the code, but for the port of the libpeer build.\<close>

lemma digit_chars:
  "digit_char 0 = CHR ''0''" "digit_char (Suc 0) = CHR ''1''" "digit_char 2 = CHR ''2''" "digit_char 3 = CHR ''3''" "digit_char 4 = CHR ''4''"
  "digit_char 5 = CHR ''5''" "digit_char 6 = CHR ''6''" "digit_char 7 = CHR ''7''" "digit_char 8 = CHR ''8''" "digit_char 9 = CHR ''9''"
  by code_simp+

lemma help_states_defaults:
  "(concat (map line_defaults (usage_lines b ''camstream'')) = default_texts b (app_config_defaults b memory)) = (b \<noteq> Libpeer)"
proof -
  have janus: "default_texts Janus (app_config_defaults Janus memory) =
      [''/dev/video0'', ''640'', ''480'', ''30'', ''0.0.0.0'', ''8080'', ''50000'', ''127.0.0.1'', ''5004'', ''5005'', ''5006'', ''2500'', ''2'']"
    by (simp add: default_texts_def app_config_defaults_def u_dec_def dec_nat.simps digit_chars)
  have other: "default_texts b (app_config_defaults b memory) =
      [''/dev/video0'', ''640'', ''480'', ''30'', ''0.0.0.0'', (if b = Libpeer then ''8000'' else ''8080''), ''50000'', ''2500'', ''2'']"
    if "b \<noteq> Janus"
    using that by (simp add: default_texts_def app_config_defaults_def u_dec_def dec_nat.simps digit_chars)
  have stated: "concat (map line_defaults (usage_lines Janus ''camstream'')) =
      [''/dev/video0'', ''640'', ''480'', ''30'', ''0.0.0.0'', ''8080'', ''50000'', ''127.0.0.1'', ''5004'', ''5005'', ''5006'', ''2500'', ''2'']"
    "concat (map line_defaults (usage_lines Native ''camstream'')) =
      [''/dev/video0'', ''640'', ''480'', ''30'', ''0.0.0.0'', ''8080'', ''50000'', ''2500'', ''2'']"
    "concat (map line_defaults (usage_lines Libpeer ''camstream'')) =
      [''/dev/video0'', ''640'', ''480'', ''30'', ''0.0.0.0'', ''8080'', ''50000'', ''2500'', ''2'']"
    by code_simp+
  show ?thesis using janus other stated by (cases b) simp_all
qed

section \<open>Exit status\<close>

lemma apply_opt_codes: "apply_opt opt v c = Inl r \<Longrightarrow> r = Exit 2 \<or> r = Return (- 1) c"
  by (cases opt) (auto simp: apply_opt_def numeric_def split: if_splits option.splits)

lemma parse_args_codes:
  "parse_args c args = Inl r \<Longrightarrow> case r of Exit n \<Rightarrow> n = 0 \<or> n = 2 | Return n c' \<Rightarrow> n = 1 \<or> n = - 1"
proof (induction c args rule: parse_args.induct)
  case (2 c arg rest)
  show ?case
  proof (cases "find_opt options arg rest")
    case None
    then show ?thesis using 2 by (auto split: if_splits)
  next
    case (Some p)
    obtain opt m where p: "p = (opt, m)" by fastforce
    show ?thesis
    proof (cases m)
      case (Matched v rest')
      show ?thesis
      proof (cases "apply_opt opt v c")
        case (Inl r')
        then show ?thesis using 2 Some p Matched apply_opt_codes [of opt v c r'] by (auto split: if_splits)
      next
        case (Inr c')
        then show ?thesis using 2 Some p Matched by (auto split: if_splits)
      qed
    qed (use 2 Some p in \<open>auto split: if_splits\<close>)
  qed
qed simp

lemma parse_codes:
  "case app_config_parse b c0 argv of Exit n \<Rightarrow> n = 0 \<or> n = 2 | Return n c \<Rightarrow> n = 0 \<or> n = 1 \<or> n = - 1"
  using parse_args_codes [of c0 "tl argv"]
  by (cases "parse_args c0 (tl argv)") (force simp: app_config_parse_def split: parse_result.splits)+


end
