(* ===== verification/Embed_Assets.thy ===== *)
theory Embed_Assets
  imports Prelude Cstring
begin

text \<open>
  The build tool \<^verbatim>\<open>tools/embed_assets.c\<close>, which turns the files of the web page into a C header with one byte
  array each. A file is its bytes or cannot be opened; what is written to the output is a string, with
  what was written before a failure. The reader of such an array in C is written out below, and
  gives back the bytes of the file with a zero at the end.
\<close>

section \<open>The tool\<close>

definition newline :: string where
  "newline = [CHR 0x0A]"

definition nibble_char :: "nat \<Rightarrow> char" where
  "nibble_char n = (''0123456789abcdef'' ! n)"

definition hex_byte :: "u8 \<Rightarrow> string" where
  "hex_byte b = [nibble_char (unat b div 16), nibble_char (unat b mod 16)]"

fun emit_bytes :: "bytes \<Rightarrow> nat \<Rightarrow> string" where
  "emit_bytes [] column = (if column \<noteq> 0 then '' '' else [])"
| "emit_bytes (b # bs) column =
     (if column = 0 then ''    '' else []) @ ''0x'' @ hex_byte b @ '','' @
     (if column + 1 = 16 then newline @ emit_bytes bs 0 else emit_bytes bs (column + 1))"

definition emit_file :: "string \<Rightarrow> bytes \<Rightarrow> string" where
  "emit_file var content =
     ''static const unsigned char '' @ var @ ''[] = {'' @ newline @ emit_bytes content 0 @ ''0x00'' @ newline @ ''};'' @ newline @ newline"

text \<open>The variables and files in pairs, up to the first file that cannot be opened.\<close>

fun emit_files :: "(string \<Rightarrow> bytes option) \<Rightarrow> string list \<Rightarrow> string \<times> bool" where
  "emit_files fs (var # path # rest) =
     (case fs path of
        None \<Rightarrow> ([], False)
      | Some content \<Rightarrow> (case emit_files fs rest of (out, ok) \<Rightarrow> (emit_file var content @ out, ok)))"
| "emit_files fs _ = ([], True)"

fun listed :: "string list \<Rightarrow> string" where
  "listed (var # path # rest) = '' *   '' @ path @ newline @ listed rest"
| "listed _ = []"

definition head_text :: "string \<Rightarrow> string list \<Rightarrow> string" where
  "head_text guard args =
     ''/*'' @ newline @ '' * Generated by tools/embed_assets.c from:'' @ newline @ listed args @ '' */'' @ newline @
     ''#ifndef '' @ guard @ newline @ ''#define '' @ guard @ newline @ newline"

text \<open>The exit status and the output file, \<open>None\<close> when it was not opened.\<close>

definition embed_main :: "(string \<Rightarrow> bool) \<Rightarrow> (string \<Rightarrow> bytes option) \<Rightarrow> string list \<Rightarrow> int \<times> string option" where
  "embed_main can_write fs argv =
     (case argv of
        program # output # guard # args \<Rightarrow>
          if length argv < 5 \<or> length args mod 2 \<noteq> 0 then (2, None)
          else if \<not> can_write output then (1, None)
          else (case emit_files fs args of (out, ok) \<Rightarrow>
            if \<not> ok then (1, Some (head_text guard args @ out))
            else (0, Some (head_text guard args @ out @ ''#endif /* '' @ guard @ '' */'' @ newline)))
      | _ \<Rightarrow> (2, None))"

section \<open>Reading an array back\<close>

text \<open>The elements of an initializer up to its closing brace, and what follows it.\<close>

fun read_elements :: "string \<Rightarrow> (bytes \<times> string) option" where
  "read_elements [] = None"
| "read_elements (c # s) =
     (if c = CHR ''}'' then Some ([], s)
      else if c = CHR '' '' \<or> c = CHR 0x0A \<or> c = CHR '','' then read_elements s
      else if c = CHR ''0''
      then (case s of
          x # a # b # s' \<Rightarrow>
            if x \<noteq> CHR ''x'' then None
            else case (digit_of 16 a, digit_of 16 b) of
                (Some d, Some d') \<Rightarrow> map_option (\<lambda>(bs, rest). (of_nat (d * 16 + d') # bs, rest)) (read_elements s')
              | _ \<Rightarrow> None
        | _ \<Rightarrow> None)
      else None)"

definition array_intro :: string where
  "array_intro = ''static const unsigned char ''"

definition read_array :: "string \<Rightarrow> (string \<times> bytes \<times> string) option" where
  "read_array s =
     (if take (length array_intro) s \<noteq> array_intro then None
      else let t = drop (length array_intro) s; var = takeWhile (\<lambda>c. c \<noteq> CHR ''['') t; u = drop (length var) t in
        if take 6 u \<noteq> ''[] = {'' then None
        else map_option (\<lambda>(bs, rest). (var, bs, rest)) (read_elements (drop 6 u)))"

lemma nibble_chars: "n < 16 \<Longrightarrow> digit_of 16 (nibble_char n) = Some n"
proof -
  have "\<forall>n \<in> set [0..<16]. digit_of 16 (nibble_char n) = Some n" by code_simp
  then show "n < 16 \<Longrightarrow> ?thesis" by auto
qed

lemma read_hex_byte: "read_elements (''0x'' @ hex_byte b @ s) = map_option (\<lambda>(bs, rest). (b # bs, rest)) (read_elements s)"
proof -
  have "unat b < 256" using unsigned_less [of b, where ?'a = nat] by simp
  then have "unat b div 16 < 16" "unat b mod 16 < 16" by auto
  then have "digit_of 16 (nibble_char (unat b div 16)) = Some (unat b div 16)" "digit_of 16 (nibble_char (unat b mod 16)) = Some (unat b mod 16)"
    by (simp_all only: nibble_chars)
  moreover have "of_nat (unat b div 16 * 16 + unat b mod 16) = b" by (simp only: div_mult_mod_eq) simp
  ultimately show ?thesis by (simp add: hex_byte_def)
qed

lemma read_emit_bytes:
  "read_elements (emit_bytes bs column @ s) = map_option (\<lambda>(cs, rest). (bs @ cs, rest)) (read_elements s)"
proof (induction bs arbitrary: column)
  case Nil
  then show ?case by (cases "read_elements s") auto
next
  case (Cons b bs)
  have sep: "read_elements ('','' @ t) = read_elements t" "read_elements (newline @ t) = read_elements t"
    "read_elements (''    '' @ t) = read_elements t" for t
    by (simp_all add: newline_def)
  have rest: "read_elements ('','' @ (if column + 1 = 16 then newline @ emit_bytes bs 0 else emit_bytes bs (column + 1)) @ s) =
      map_option (\<lambda>(cs, rest). (bs @ cs, rest)) (read_elements s)"
    using Cons.IH by (simp add: newline_def)
  have "read_elements (''0x'' @ hex_byte b @ '','' @ (if column + 1 = 16 then newline @ emit_bytes bs 0 else emit_bytes bs (column + 1)) @ s) =
      map_option (\<lambda>(cs, rest). ((b # bs) @ cs, rest)) (read_elements s)"
    unfolding read_hex_byte rest by (cases "read_elements s") auto
  then show ?case using sep(3) by (cases "column = 0") simp_all
qed

text \<open>A variable whose name has no bracket reads back with exactly the bytes of its file and a zero.\<close>

lemma array_reads_back:
  assumes "CHR ''['' \<notin> set var"
  shows "read_array (emit_file var content @ s) = Some (var, content @ [0], CHR '';'' # newline @ newline @ s)"
proof -
  have zero: "read_elements (''0x00'' @ newline @ ''};'' @ newline @ newline @ s) = Some ([0], CHR '';'' # newline @ newline @ s)"
    by (simp add: newline_def digit_of_def)
  have elements: "read_elements (newline @ emit_bytes content 0 @ ''0x00'' @ newline @ ''};'' @ newline @ newline @ s) =
      Some (content @ [0], CHR '';'' # newline @ newline @ s)"
    using read_emit_bytes [of content 0 "''0x00'' @ newline @ ''};'' @ newline @ newline @ s"] zero by (simp add: newline_def)
  have "takeWhile (\<lambda>c. c \<noteq> CHR ''['') (var @ ''[] = {'' @ t) = var" for t
    using assms by (subst takeWhile_append2) auto
  then show ?thesis using elements by (simp add: read_array_def emit_file_def array_intro_def Let_def)
qed

text \<open>All arrays of a header one after the other; the blank lines between them are skipped.\<close>

fun read_arrays :: "nat \<Rightarrow> string \<Rightarrow> (string \<times> bytes) list option" where
  "read_arrays 0 s = Some []"
| "read_arrays (Suc n) s =
     (case read_array s of None \<Rightarrow> None | Some (var, bs, rest) \<Rightarrow> map_option ((#) (var, bs)) (read_arrays n (drop 3 rest)))"

fun pairs :: "'a list \<Rightarrow> ('a \<times> 'a) list" where
  "pairs (x # y # r) = (x, y) # pairs r"
| "pairs _ = []"

lemma emitted_files_read_back:
  assumes "emit_files fs args = (out, True)" "\<forall>(var, path) \<in> set (pairs args). CHR ''['' \<notin> set var"
  shows "read_arrays (length (pairs args)) (out @ s) =
    Some (map (\<lambda>(var, path). (var, the (fs path) @ [0])) (pairs args)) \<and> (\<forall>(var, path) \<in> set (pairs args). fs path \<noteq> None)"
  using assms
proof (induction args arbitrary: out rule: pairs.induct)
  case (1 var path rest)
  then obtain content out' where f: "fs path = Some content" "emit_files fs rest = (out', True)" "out = emit_file var content @ out'"
    by (auto split: option.splits prod.splits)
  have "read_array (out @ s) = Some (var, content @ [0], CHR '';'' # newline @ newline @ out' @ s)"
    unfolding f(3) using 1(3) array_reads_back [of var content "out' @ s"] by simp
  then show ?case using 1(1) [OF f(2)] 1(3) f(1) by (simp add: newline_def)
qed simp_all

text \<open>A run that ends with status 0 wrote every file that was named, and each is read back behind the head of the header.\<close>

lemma embed_reads_back:
  assumes "embed_main can_write fs (program # output # guard # args) = (0, Some txt)"
    "\<forall>(var, path) \<in> set (pairs args). CHR ''['' \<notin> set var"
  shows "args \<noteq> [] \<and> (\<forall>(var, path) \<in> set (pairs args). fs path \<noteq> None) \<and>
    take (length (head_text guard args)) txt = head_text guard args \<and>
    read_arrays (length (pairs args)) (drop (length (head_text guard args)) txt) =
      Some (map (\<lambda>(var, path). (var, the (fs path) @ [0])) (pairs args))"
proof -
  obtain out where "emit_files fs args = (out, True)" "txt = head_text guard args @ out @ ''#endif /* '' @ guard @ '' */'' @ newline"
    using assms(1) by (auto simp: embed_main_def split: if_splits prod.splits)
  moreover have "args \<noteq> []" using assms(1) by (auto simp: embed_main_def split: if_splits)
  ultimately show ?thesis using emitted_files_read_back [OF _ assms(2)] by simp
qed

end
