(* ===== verification/Rtc_Resources.thy ===== *)
theory Rtc_Resources
  imports Rtc_Session "HOL-Library.Multiset"
begin

text \<open>
  What a session of \<^verbatim>\<open>src/webrtc/webrtc_session.c\<close> takes from the system and gives back: the random bytes of its
  credentials with their fallbacks, its UDP socket (\<^verbatim>\<open>udp_socket_create\<close> of \<^verbatim>\<open>src/webrtc/ice_lite.c\<close>), and what
  destroying it and its DTLS engine (\<^verbatim>\<open>src/webrtc/dtls_srtp.c\<close>) frees; with the functions that only look at a session.
\<close>

section \<open>Credentials\<close>

text \<open>
  The sources of randomness: the result of \<^verbatim>\<open>RAND_bytes\<close>, what can be read of \<^verbatim>\<open>/dev/urandom\<close> (\<open>None\<close> when it
  cannot be opened), and the time, process number and clock the last resort mixes. \<open>en_stack\<close> is what the array held.
\<close>

record entropy =
  en_rand :: "bytes option"
  en_urandom :: "bytes option"
  en_stack :: bytes
  en_time :: u64
  en_pid :: u64
  en_clock :: u64

fun lcg_bytes :: "nat \<Rightarrow> u64 \<Rightarrow> bytes" where
  "lcg_bytes 0 seed = []"
| "lcg_bytes (Suc n) seed =
     (let seed' = seed * 6364136223846793005 + 1 in ucast (drop_bit 24 seed') # lcg_bytes n seed')"

definition credential_raw :: "entropy \<Rightarrow> bytes" where
  "credential_raw e =
     (case en_rand e of
        Some r \<Rightarrow> r
      | None \<Rightarrow>
          (case en_urandom e of
             Some got \<Rightarrow>
               if length got \<noteq> 32
               then let t = xor (en_time e) (en_clock e)
                    in map (\<lambda>i. if i < length got then got ! i else xor (en_stack e ! i) (ucast (drop_bit (i mod 8) t))) [0..<32]
               else got
           | None \<Rightarrow> lcg_bytes 32 (xor (xor (en_time e) (en_pid e)) (en_clock e))))"

lemma lcg_length [simp]: "length (lcg_bytes n seed) = n"
  by (induction n arbitrary: seed) (simp_all add: Let_def)

text \<open>Whatever the source, there are 32 bytes, and the credentials are 8 and 24 letters: the digits of the alphabet are never used.\<close>

lemma raw_length: "(case en_rand e of Some r \<Rightarrow> length r = 32 | None \<Rightarrow> True) \<Longrightarrow> length (credential_raw e) = 32"
  by (auto simp: credential_raw_def Let_def split: option.splits)

lemma letters_only: "i < 52 \<Longrightarrow> credential_alphabet ! i \<in> set ''abcdefghijklmnopqrstuvwxyzABCDEFGHIJKLMNOPQRSTUVWXYZ''"
proof -
  have "list_all (\<lambda>i. credential_alphabet ! i \<in> set ''abcdefghijklmnopqrstuvwxyzABCDEFGHIJKLMNOPQRSTUVWXYZ'') [0..<52]" by code_simp
  then show "i < 52 \<Longrightarrow> ?thesis" by (simp add: list_all_iff)
qed

lemma credentials_are_letters:
  "length (fst (generate_credentials raw)) = 8 \<and> length (snd (generate_credentials raw)) = 24 \<and>
   set (fst (generate_credentials raw) @ snd (generate_credentials raw)) \<subseteq> set ''abcdefghijklmnopqrstuvwxyzABCDEFGHIJKLMNOPQRSTUVWXYZ''"
proof -
  have "credential_alphabet ! (n mod 52) \<in> set ''abcdefghijklmnopqrstuvwxyzABCDEFGHIJKLMNOPQRSTUVWXYZ''" for n
    by (rule letters_only) simp
  then show ?thesis unfolding generate_credentials_def by (simp only: fst_conv snd_conv set_append set_map) auto
qed

text \<open>
  In the last resort the credentials are a function of one number, the time mixed with the process number
  and the clock: who can guess it knows the password that protects the session.
\<close>

lemma last_resort_guessable:
  assumes "en_rand e = None" "en_urandom e = None" "en_rand e' = None" "en_urandom e' = None"
    "xor (xor (en_time e) (en_pid e)) (en_clock e) = xor (xor (en_time e') (en_pid e')) (en_clock e')"
  shows "generate_credentials (credential_raw e) = generate_credentials (credential_raw e')"
  using assms by (simp add: credential_raw_def)

section \<open>The socket\<close>

text \<open>\<open>so_fd\<close> and \<open>so_bound\<close> are the answers of \<^verbatim>\<open>socket\<close> and \<^verbatim>\<open>getsockname\<close>; the list records what is opened and closed.\<close>

datatype socket_event = Opened int | Closed_Fd int

record socket_env =
  so_fd :: int
  so_bind_ok :: bool
  so_bound :: "u16 option"

definition udp_socket_create :: "socket_env \<Rightarrow> bool \<Rightarrow> (int \<times> u16 option) \<times> socket_event list" where
  "udp_socket_create e want_port =
     (if so_fd e < 0 then ((- 1, None), [])
      else if \<not> so_bind_ok e then ((- 1, None), [Opened (so_fd e), Closed_Fd (so_fd e)])
      else if want_port
      then (case so_bound e of
          Some port \<Rightarrow> ((so_fd e, Some port), [Opened (so_fd e)])
        | None \<Rightarrow> ((- 1, None), [Opened (so_fd e), Closed_Fd (so_fd e)]))
      else ((so_fd e, None), [Opened (so_fd e)]))"

text \<open>A descriptor is either handed to the caller, with the port that was asked for, or closed.\<close>

lemma socket_closed_or_returned:
  "case udp_socket_create e want_port of ((fd, port), es) \<Rightarrow>
     if fd < 0 then es = [] \<or> es = [Opened (so_fd e), Closed_Fd (so_fd e)]
     else es = [Opened fd] \<and> (want_port \<longrightarrow> port \<noteq> None)"
  by (auto simp: udp_socket_create_def split: option.split)

section \<open>The other BIO callbacks\<close>

datatype bio_cmd = BIO_CTRL_FLUSH | BIO_CTRL_DGRAM_QUERY_MTU | BIO_CTRL_PENDING | BIO_CTRL_OTHER

definition DTLS_MTU :: int where "DTLS_MTU = 1200"

definition bio_rx_ctrl :: "bio_cmd \<Rightarrow> ('ssl, 'srtp) dtls_srtp \<Rightarrow> int" where
  "bio_rx_ctrl cmd s =
     (case cmd of BIO_CTRL_PENDING \<Rightarrow> if bio_rx_ctrl_pending s then 1 else 0 | BIO_CTRL_FLUSH \<Rightarrow> 1 | _ \<Rightarrow> 0)"

definition bio_tx_read :: int where "bio_tx_read = - 1"

definition bio_tx_ctrl :: "bio_cmd \<Rightarrow> int" where
  "bio_tx_ctrl cmd = (case cmd of BIO_CTRL_FLUSH \<Rightarrow> 1 | BIO_CTRL_DGRAM_QUERY_MTU \<Rightarrow> DTLS_MTU | _ \<Rightarrow> 0)"

section \<open>Destroying\<close>

datatype rtc_freed = Free_Ssl | Free_Srtp_Out | Free_Srtp_In | Free_Packet bytes | Free_Dtls | Close_Udp int | Free_Packetizer
  | Free_Retx | Free_Session

definition dtls_srtp_session_destroy :: "('ssl, 'srtp) dtls_srtp option \<Rightarrow> rtc_freed list" where
  "dtls_srtp_session_destroy d =
     (case d of
        None \<Rightarrow> []
      | Some s \<Rightarrow> [Free_Ssl] @ (if srtp_out s \<noteq> None then [Free_Srtp_Out] else []) @ (if srtp_in s \<noteq> None then [Free_Srtp_In] else []) @
          concat (map (\<lambda>i. case rxq s ! i of None \<Rightarrow> [] | Some p \<Rightarrow> [Free_Packet p]) [0..<DTLS_RX_QUEUE]) @ [Free_Dtls])"

text \<open>The outputs are those of the closing, when the session was still open.\<close>

definition rtc_session_destroy :: "('ssl, 'srtp) rtc_env \<Rightarrow> ('ssl, 'srtp) rtc_session option \<Rightarrow> rtc_output list \<times> rtc_freed list" where
  "rtc_session_destroy env session =
     (case session of
        None \<Rightarrow> ([], [])
      | Some s0 \<Rightarrow>
          let s = (if rstate s0 \<noteq> RTC_CLOSED then rtc_session_close env s0 else s0) in
          (trace s, (if udp_fd s \<ge> 0 then [Close_Udp (udp_fd s)] else []) @ dtls_srtp_session_destroy (Some (sdtls s)) @
             (if srtp_packetizer s \<noteq> None then [Free_Packetizer] else []) @ [Free_Retx, Free_Session]))"

text \<open>Every datagram that is still queued is freed, and nothing else of the queue.\<close>

lemma queued_packets_freed:
  assumes "rx_inv s"
  shows "mset [p. Free_Packet p \<leftarrow> dtls_srtp_session_destroy (Some s)] = mset (rx_contents s)"
proof -
  have len: "length (rxq s) = DTLS_RX_QUEUE" using assms by (simp add: rx_inv_def)
  have "[p. Free_Packet p \<leftarrow> dtls_srtp_session_destroy (Some s)] =
      concat (map (\<lambda>i. case rxq s ! i of None \<Rightarrow> [] | Some p \<Rightarrow> [p]) [0..<DTLS_RX_QUEUE])"
  proof -
    have "[p. Free_Packet p \<leftarrow> concat (map (\<lambda>i. case rxq s ! i of None \<Rightarrow> [] | Some p \<Rightarrow> [Free_Packet p]) xs)] =
        concat (map (\<lambda>i. case rxq s ! i of None \<Rightarrow> [] | Some p \<Rightarrow> [p]) xs)" for xs
      by (induction xs) (auto split: option.split)
    then show ?thesis by (simp add: dtls_srtp_session_destroy_def)
  qed
  also have "mset \<dots> = mset (map (\<lambda>i. the (rxq s ! i)) (filter (\<lambda>i. rxq s ! i \<noteq> None) [0..<DTLS_RX_QUEUE]))"
  proof -
    have "concat (map (\<lambda>i. case rxq s ! i of None \<Rightarrow> [] | Some p \<Rightarrow> [p]) xs) = map (\<lambda>i. the (rxq s ! i)) (filter (\<lambda>i. rxq s ! i \<noteq> None) xs)" for xs
      by (induction xs) (auto split: option.split)
    then show ?thesis by simp
  qed
  also have "\<dots> = image_mset (\<lambda>i. the (rxq s ! i)) (mset_set {i. i < DTLS_RX_QUEUE \<and> rxq s ! i \<noteq> None})"
  proof -
    have m: "mset (filter (\<lambda>i. rxq s ! i \<noteq> None) [0..<DTLS_RX_QUEUE]) = mset_set {i. i < DTLS_RX_QUEUE \<and> rxq s ! i \<noteq> None}"
      by (subst mset_set_set [symmetric]) (auto intro: arg_cong [where f = mset_set])
    show ?thesis unfolding mset_map m ..
  qed
  also have "{i. i < DTLS_RX_QUEUE \<and> rxq s ! i \<noteq> None} = rx_slot s ` {..<rx_count s}"
    using assms by (auto simp: rx_inv_def rx_slot_def DTLS_RX_QUEUE_def)
  also have "mset_set \<dots> = image_mset (rx_slot s) (mset_set {..<rx_count s})"
    by (rule image_mset_mset_set [symmetric]) (use assms rx_slot_inj [of _ _ s] in \<open>auto simp: inj_on_def rx_inv_def\<close>)
  also have "image_mset (\<lambda>i. the (rxq s ! i)) \<dots> = mset (rx_contents s)"
    by (simp add: rx_contents_def image_mset.compositionality o_def lessThan_atLeast0 flip: mset_upt)
  finally show ?thesis .
qed

section \<open>Looking at a session\<close>

definition rtc_session_state :: "('ssl, 'srtp) rtc_session option \<Rightarrow> rtc_state" where
  "rtc_session_state s = (case s of None \<Rightarrow> RTC_CLOSED | Some s \<Rightarrow> rstate s)"

definition rtc_session_get_stats :: "('ssl, 'srtp) rtc_session option \<Rightarrow> rtc_stats \<Rightarrow> rtc_stats" where
  "rtc_session_get_stats s out = (case s of None \<Rightarrow> out | Some s \<Rightarrow> stats s)"

definition rtc_session_id :: "('ssl, 'srtp) rtc_session option \<Rightarrow> u32" where
  "rtc_session_id s = (case s of None \<Rightarrow> 0 | Some s \<Rightarrow> cfg_id (config s))"

end
