(* ===== verification/App_Proxy.thy ===== *)
theory App_Proxy
  imports App_Net
begin

text \<open>
  The warning of the offer handler in \<^verbatim>\<open>src/app/app_server.c\<close> for a page that seems to be opened through a
  proxy: whether it is printed for the Host header of a request. It has no effect on the answer.
\<close>

text \<open>The scan for an address: it ends at the first dot before a digit.\<close>

definition is_digit_char :: "char \<Rightarrow> bool" where
  "is_digit_char c \<longleftrightarrow> of_char c \<ge> (of_char CHR ''0'' :: nat) \<and> of_char c \<le> (of_char CHR ''9'' :: nat)"

fun ip_like_loop :: "bool \<Rightarrow> string \<Rightarrow> bool" where
  "ip_like_loop found [] = found"
| "ip_like_loop found (c # cs) =
     (if c = CHR ''.'' \<and> (case cs of [] \<Rightarrow> False | d # _ \<Rightarrow> is_digit_char d) then True
      else ip_like_loop (found \<or> is_digit_char c) cs)"

text \<open>\<open>host\<close> is the copy of the header, \<open>ips\<close> the addresses of the host, \<open>advertise\<close> the one that was chosen.\<close>

definition proxy_warning :: "string list \<Rightarrow> string \<Rightarrow> string \<Rightarrow> bool" where
  "proxy_warning ips advertise host =
     (if host = [] then False
      else let ip = host_address host; matches = ip \<in> set ips in
        if \<not> matches \<and> ip \<noteq> [] then \<not> ip_like_loop False ip \<or> ip \<noteq> advertise else False)"

text \<open>The scan finds out whether there is any digit.\<close>

lemma ip_like_digit: "ip_like_loop found s = (found \<or> list_ex is_digit_char s)"
proof (induction found s rule: ip_like_loop.induct)
  case (2 found c cs)
  then show ?case by (cases cs) auto
qed simp

text \<open>
  A request to an address of the host, with or without a port, is never warned about; for any other the warning is printed
  unless the address is the one to be advertised, so that it depends on the host name having a digit only in that case.
\<close>

lemma direct_page_not_warned: "host_address host \<in> set ips \<Longrightarrow> \<not> proxy_warning ips advertise host"
  by (simp add: proxy_warning_def Let_def)

lemma other_page_warned:
  assumes "host_address host \<notin> set ips" "host_address host \<noteq> []" "host_address host \<noteq> advertise"
  shows "proxy_warning ips advertise host"
proof -
  have "host \<noteq> []" using assms(2) by (auto simp: host_address_def)
  then show ?thesis using assms by (simp add: proxy_warning_def Let_def)
qed

text \<open>A private address that is not one of this host is warned about as well.\<close>

lemma private_address_warned: "proxy_warning [''10.0.0.5''] ''10.0.0.5'' ''192.168.1.7:8080''"
  by code_simp

text \<open>The chosen address is one of the host's or the loopback address: the second alternative is only met on a host without interfaces.\<close>

lemma warning_only_elsewhere:
  assumes "proxy_warning (map if_ip (collect_interfaces addrs 16)) (choose_advertise_ip addrs host) host" "collect_interfaces addrs 16 \<noteq> []"
  shows "host_address host \<noteq> choose_advertise_ip addrs host"
proof -
  define ips where "ips = map if_ip (collect_interfaces addrs 16)"
  have found: "x \<in> set ips" if "find is_private ips = Some x" for x
    using that by (auto simp: find_Some_iff)
  have "ips \<noteq> []" using assms(2) by (simp add: ips_def)
  then have "choose_advertise_ip addrs host \<in> set ips"
    using found by (cases ips) (auto simp: choose_advertise_ip_def Let_def simp flip: ips_def simp del: find.simps split: option.split)
  then show ?thesis using assms(1) by (auto simp: proxy_warning_def Let_def simp flip: ips_def split: if_splits)
qed

end
